(* ===== verification/Prelude.thy ===== *)
theory Prelude
  imports Main "HOL-Library.Word"
begin

text \<open>
  What every component shares: the machine integers of the Rust sources as words, the outcome of
  a fallible or panicking call, readers over a cursor-like state with their sequencing, and the
  collections of facts the component proofs draw on.

  A Rust \<open>u8\<close>, \<open>u32\<close>, \<open>u64\<close> is a word of that width; \<open>i8\<close>, \<open>i16\<close>, \<open>i32\<close>, \<open>i64\<close> are words of the
  same width read through \<open>sint\<close>.  A \<open>usize\<close> (64 bits on the supported targets) is a \<open>nat\<close>,
  with the bound \<open>2 ^ 64\<close> written out where it matters.
\<close>

unbundle bit_operations_syntax

type_synonym u8 = "8 word"
type_synonym u16 = "16 word"
type_synonym u32 = "32 word"
type_synonym u64 = "64 word"
type_synonym i8 = "8 word"
type_synonym i16 = "16 word"
type_synonym i32 = "32 word"
type_synonym i64 = "64 word"
type_synonym bytes = "u8 list"

named_theorems codec_rules \<open>encoder and decoder contracts\<close>

section \<open>Outcomes\<close>

text \<open>
  \<open>Ok\<close> and \<open>Err\<close> are the constructors of Rust's \<open>Result\<close>.  \<open>Panic\<close> is a panic of the code (an
  explicit \<open>panic!\<close>, an \<open>expect\<close> on \<open>None\<close>, or an arithmetic overflow, which the development build
  traps and the release build wraps).  \<open>Stuck\<close> is no behaviour of the code: the loop combinators
  of the model return it if a loop body fails to move forward, which is proved never to happen.
\<close>

datatype ('e, 'a) outcome = Ok 'a | Err 'e | Panic string | Stuck

fun bind_o :: "('e, 'a) outcome \<Rightarrow> ('a \<Rightarrow> ('e, 'b) outcome) \<Rightarrow> ('e, 'b) outcome" where
  "bind_o (Ok x) f = f x"
| "bind_o (Err e) f = Err e"
| "bind_o (Panic m) f = Panic m"
| "bind_o Stuck f = Stuck"

fun map_err :: "('e \<Rightarrow> 'f) \<Rightarrow> ('e, 'a) outcome \<Rightarrow> ('f, 'a) outcome" where
  "map_err g (Ok x) = Ok x"
| "map_err g (Err e) = Err (g e)"
| "map_err g (Panic m) = Panic m"
| "map_err g Stuck = Stuck"

definition ok_or :: "'e \<Rightarrow> 'a option \<Rightarrow> ('e, 'a) outcome" where
  "ok_or e x = (case x of None \<Rightarrow> Err e | Some v \<Rightarrow> Ok v)"

lemma ok_or_simps [simp]:
  "ok_or e None = Err e"
  "ok_or e (Some v) = Ok v"
  by (simp_all add: ok_or_def)

lemma bind_o_eq_Ok_iff: "bind_o m f = Ok y \<longleftrightarrow> (\<exists>x. m = Ok x \<and> f x = Ok y)"
  by (cases m) auto

lemma bind_o_assoc: "bind_o (bind_o m f) g = bind_o m (\<lambda>x. bind_o (f x) g)"
  by (cases m) auto

lemma bind_o_cong [fundef_cong]:
  "m = m' \<Longrightarrow> (\<And>x. m' = Ok x \<Longrightarrow> f x = f' x) \<Longrightarrow> bind_o m f = bind_o m' f'"
  by (cases m') auto

text \<open>Folding a fallible step over a list stops at the first outcome that is not \<open>Ok\<close>.\<close>

fun fold_o :: "('s \<Rightarrow> 'a \<Rightarrow> ('e, 's) outcome) \<Rightarrow> 's \<Rightarrow> 'a list \<Rightarrow> ('e, 's) outcome" where
  "fold_o f s [] = Ok s"
| "fold_o f s (x # xs) = bind_o (f s x) (\<lambda>s'. fold_o f s' xs)"

text \<open>Mapping a fallible function over a list, as \<open>collect::<Result<Vec<_>>>\<close> does.\<close>

fun mapM_o :: "('a \<Rightarrow> ('e, 'b) outcome) \<Rightarrow> 'a list \<Rightarrow> ('e, 'b list) outcome" where
  "mapM_o f [] = Ok []"
| "mapM_o f (x # xs) = bind_o (f x) (\<lambda>y. bind_o (mapM_o f xs) (\<lambda>ys. Ok (y # ys)))"

lemma mapM_o_all_Ok: "(\<And>x. x \<in> set xs \<Longrightarrow> f x = Ok (g x)) \<Longrightarrow> mapM_o f xs = Ok (map g xs)"
  by (induction xs) auto

section \<open>Reserving memory\<close>

text \<open>
  \<open>Vec::with_capacity(n)\<close> of elements of \<open>sz\<close> bytes: Rust panics when the request exceeds
  \<open>isize::MAX\<close> bytes, which is \<open>2 ^ 63 - 1\<close> on a 64-bit target, before it asks the allocator.  A
  smaller request succeeds: that the machine has the memory is assumed throughout (a refused
  allocation aborts the process).  The capacity itself has no effect on what the vector holds.
\<close>

definition reserve_o :: "nat \<Rightarrow> nat \<Rightarrow> ('e, unit) outcome" where
  "reserve_o sz n = (if n * sz < 2 ^ 63 then Ok () else Panic ''capacity overflow'')"

text \<open>Evaluation compares integers, since natural numbers evaluate in unary.\<close>

lemma reserve_o_code [code]:
  "reserve_o sz n = (if int n * int sz < 9223372036854775808 then Ok () else Panic ''capacity overflow'')"
  by (simp add: reserve_o_def flip: of_nat_mult)

lemma reserve_o_Ok: "n * sz < 2 ^ 63 \<Longrightarrow> reserve_o sz n = Ok ()"
  by (simp add: reserve_o_def)

lemma reserve_o_Panic: "2 ^ 63 \<le> n * sz \<Longrightarrow> reserve_o sz n = Panic ''capacity overflow''"
  by (simp add: reserve_o_def)

section \<open>Bits of words\<close>

text \<open>
  Facts on masks, shifts and casts, each proved bit by bit.  The varint, zigzag and bit-packing
  proofs use them.
\<close>

lemma word_not_bit_ge: "(w :: 'a::len word) < 2 ^ n \<Longrightarrow> n \<le> m \<Longrightarrow> \<not> bit w m"
proof -
  assume less: "w < 2 ^ n" and le: "n \<le> m"
  show ?thesis
  proof (cases "n < LENGTH('a)")
    case True
    with less have "take_bit n w = w"
      by (metis less_mask_eq take_bit_eq_mask)
    then show ?thesis
      using le by (metis bit_take_bit_iff linorder_not_less)
  next
    case False
    then have "\<not> m < LENGTH('a)"
      using le by simp
    then show ?thesis
      using bit_imp_le_length by blast
  qed
qed

lemma and_7F: "x AND 0x7F = take_bit 7 (x :: 'a::len word)"
  by (simp add: take_bit_eq_mask mask_eq_exp_minus_1)

lemma and_0F: "x AND 0x0F = take_bit 4 (x :: 'a::len word)"
  by (simp add: take_bit_eq_mask mask_eq_exp_minus_1)

lemma drop_and_F0: "drop_bit 4 (x AND 0xF0) = drop_bit 4 (x :: 8 word)"
proof -
  have eq: "(0xF0 :: 8 word) = push_bit 4 (mask 4)"
    by (simp add: mask_eq_exp_minus_1)
  show ?thesis
    unfolding eq
    by (rule bit_eqI, simp only: bit_drop_bit_eq bit_and_iff bit_push_bit_iff bit_mask_iff o_apply)
      (auto dest: bit_imp_le_length)
qed

lemma and_80: "x AND 0x80 = 0 \<longleftrightarrow> \<not> bit (x :: 8 word) 7"
proof -
  have "(0x80 :: 8 word) = push_bit 7 1"
    by simp
  then show ?thesis
    by (simp only: and_exp_eq_0_iff_not_bit push_bit_of_1)
qed

lemma or_80: "x OR 0x80 = set_bit 7 (x :: 8 word)"
  by (simp add: set_bit_eq_or)

lemma nibbles:
  assumes "(a :: u8) < 16" and "b < 16"
  shows "(push_bit 4 a OR b) AND 0x0F = b" and "drop_bit 4 ((push_bit 4 a OR b) AND 0xF0) = a"
proof -
  have a: "bit a n \<Longrightarrow> n < 4" for n
    using word_not_bit_ge [of a 4 n] assms(1) by force
  have b: "bit b n \<Longrightarrow> n < 4" for n
    using word_not_bit_ge [of b 4 n] assms(2) by force
  show "(push_bit 4 a OR b) AND 0x0F = b"
    by (simp only: and_0F, rule bit_eqI) (auto simp: bit_simps dest: b)
  show "drop_bit 4 ((push_bit 4 a OR b) AND 0xF0) = a"
    by (simp only: drop_and_F0, rule bit_eqI) (auto simp: bit_simps dest: a b)
qed

lemma varint_byte_more:
  "(ucast (v AND 0x7F) OR 0x80 :: u8) AND 0x80 \<noteq> 0"
  "ucast ((ucast (v AND 0x7F) OR 0x80 :: u8) AND 0x7F) = (v AND 0x7F :: u64)"
proof -
  show "(ucast (v AND 0x7F) OR 0x80 :: u8) AND 0x80 \<noteq> 0"
    by (simp only: and_80 or_80) (simp add: bit_simps)
  show "ucast ((ucast (v AND 0x7F) OR 0x80 :: u8) AND 0x7F) = (v AND 0x7F :: u64)"
    by (simp only: and_7F or_80, rule bit_eqI) (auto simp: bit_simps)
qed

lemma varint_byte_last:
  assumes "(v :: u64) < 0x80"
  shows "(ucast v :: u8) AND 0x80 = 0" and "ucast ((ucast v :: u8) AND 0x7F) = v"
proof -
  have v: "bit v n \<Longrightarrow> n < 7" for n
    using word_not_bit_ge [of v 7 n] assms by force
  show "(ucast v :: u8) AND 0x80 = 0"
    by (simp only: and_80) (auto simp: bit_simps dest: v)
  show "ucast ((ucast v :: u8) AND 0x7F) = v"
    by (simp only: and_7F, rule bit_eqI) (auto simp: bit_simps dest: v)
qed

lemma push_bit_split:
  "push_bit s (v AND 0x7F) OR push_bit (s + 7) (drop_bit 7 v) = push_bit s (v :: u64)"
proof (simp only: and_7F, rule bit_eqI)
  fix n
  show "bit (push_bit s (take_bit 7 v) OR push_bit (s + 7) (drop_bit 7 v)) n = bit (push_bit s v) n"
  proof (cases "s + 7 \<le> n")
    case True
    then have "7 + (n - (s + 7)) = n - s"
      by simp
    with True show ?thesis
      by (auto simp: bit_simps)
  next
    case False
    then show ?thesis
      by (auto simp: bit_simps)
  qed
qed

lemma take_drop_rest: "drop n bs = cs @ ds \<Longrightarrow> take (length cs) (drop n bs) = cs"
  by simp

lemma drop_add_length: "drop n bs = cs @ ds \<Longrightarrow> drop (n + length cs) bs = ds"
  by (metis add.commute append_eq_conv_conj drop_drop)

end
