(* ===== verification/Compact.thy ===== *)
theory Compact
  imports Prelude
begin

text \<open>
  The Thrift compact-protocol reader: \<open>ematix-parquet-format/src/compact.rs\<close> with the error type
  of \<open>error.rs\<close>.  The cursor is the record of the source (a buffer and a position); a reader is a
  function from a cursor to a result and the cursor it leaves behind, which is how the code's
  \<open>&mut Cursor\<close> is passed.  The generic loop \<open>read_fields\<close> is the \<open>while let Some(h) =
  read_field_header(cur, prev)?\<close> that every struct reader of \<open>metadata.rs\<close> starts with.

  Lemmas: \<open>safe\<close> (a reader keeps the buffer, moves forward within it, never gets stuck, and panics
  for the reservation of an oversized list only) with one rule per combinator, and \<open>reads\<close> (a reader recognises an encoding wherever it
  stands in a buffer) with one rule per combinator; both feed the proofs of every struct.
\<close>

section \<open>Errors and field types\<close>

datatype field_type =
    FT_BoolTrue | FT_BoolFalse | FT_Byte | FT_I16 | FT_I32 | FT_I64
  | FT_Double | FT_Binary | FT_List | FT_Set | FT_Map | FT_Struct

datatype format_error =
    UnexpectedEof nat nat
  | VarintOverflow
  | InvalidEnumValue string i32
  | InvalidFieldType u8
  | UnknownStructField string i16
  | MissingRequiredField string i16
  | UnexpectedFieldType string i16
  | UnexpectedListElementType field_type field_type
  | EmptyUnion string
  | InvalidBoolByte u8

fun field_type_code :: "field_type \<Rightarrow> u8" where
  "field_type_code FT_BoolTrue = 1"
| "field_type_code FT_BoolFalse = 2"
| "field_type_code FT_Byte = 3"
| "field_type_code FT_I16 = 4"
| "field_type_code FT_I32 = 5"
| "field_type_code FT_I64 = 6"
| "field_type_code FT_Double = 7"
| "field_type_code FT_Binary = 8"
| "field_type_code FT_List = 9"
| "field_type_code FT_Set = 10"
| "field_type_code FT_Map = 11"
| "field_type_code FT_Struct = 12"

section \<open>The cursor\<close>

record cursor =
  buf :: bytes
  pos :: nat

type_synonym 'a reader = "cursor \<Rightarrow> (format_error, 'a \<times> cursor) outcome"

definition cursor_new :: "bytes \<Rightarrow> cursor" where
  "cursor_new bs = \<lparr>buf = bs, pos = 0\<rparr>"

definition position :: "cursor \<Rightarrow> nat" where
  "position cur = pos cur"

text \<open>\<open>buf.len() - pos\<close>: the subtraction cannot wrap, since no operation moves \<open>pos\<close> past the end
  (\<open>safe\<close> below).\<close>

definition remaining :: "cursor \<Rightarrow> nat" where
  "remaining cur = length (buf cur) - pos cur"

definition cur_is_empty :: "cursor \<Rightarrow> bool" where
  "cur_is_empty cur = (pos cur \<ge> length (buf cur))"

definition read_u8 :: "u8 reader" where
  "read_u8 cur =
     (if pos cur \<ge> length (buf cur) then Err (UnexpectedEof 1 0)
      else Ok (buf cur ! pos cur, cur\<lparr>pos := pos cur + 1\<rparr>))"

definition cur_take :: "nat \<Rightarrow> bytes reader" where
  "cur_take n cur =
     (if remaining cur < n then Err (UnexpectedEof n (remaining cur))
      else Ok (List.take n (drop (pos cur) (buf cur)), cur\<lparr>pos := pos cur + n\<rparr>))"

section \<open>Sequencing readers\<close>

definition return_r :: "'a \<Rightarrow> 'a reader" where
  "return_r x cur = Ok (x, cur)"

definition fail_r :: "format_error \<Rightarrow> 'a reader" where
  "fail_r e cur = Err e"

definition bind_r :: "'a reader \<Rightarrow> ('a \<Rightarrow> 'b reader) \<Rightarrow> 'b reader" where
  "bind_r r f cur = bind_o (r cur) (\<lambda>(x, cur'). f x cur')"

text \<open>\<open>x.ok_or_else(|| e)?\<close> on a local the loop has filled or not.\<close>

definition required :: "'a option \<Rightarrow> format_error \<Rightarrow> ('a \<Rightarrow> 'b reader) \<Rightarrow> 'b reader" where
  "required x e k = (case x of None \<Rightarrow> fail_r e | Some v \<Rightarrow> k v)"

text \<open>A pure \<open>Result\<close> inside a reader.\<close>

definition lift_r :: "(format_error, 'a) outcome \<Rightarrow> 'a reader" where
  "lift_r m cur = bind_o m (\<lambda>x. Ok (x, cur))"

section \<open>Varints and zigzag integers\<close>

text \<open>
  The loop runs over \<open>0..10\<close>; the shift reaches 63 at most, so no shift overflows, and the bits of
  the tenth byte above the first are shifted out, as in the code.
\<close>

fun uvarint_loop :: "nat \<Rightarrow> u64 \<Rightarrow> nat \<Rightarrow> u64 reader" where
  "uvarint_loop 0 result shift = fail_r VarintOverflow"
| "uvarint_loop (Suc n) result shift =
     bind_r read_u8 (\<lambda>byte.
       let result' = result OR push_bit shift (ucast (byte AND 0x7F))
       in if byte AND 0x80 = 0 then return_r result'
          else uvarint_loop n result' (shift + 7))"

definition read_uvarint :: "u64 reader" where
  "read_uvarint = uvarint_loop 10 0 0"

definition unzigzag :: "'a::len word \<Rightarrow> 'a word" where
  "unzigzag u = drop_bit 1 u XOR (- (u AND 1))"

definition read_zigzag_i32 :: "i32 reader" where
  "read_zigzag_i32 = bind_r read_uvarint (\<lambda>v. let u = ucast v :: u32 in return_r (unzigzag u))"

definition read_zigzag_i64 :: "i64 reader" where
  "read_zigzag_i64 = bind_r read_uvarint (\<lambda>u. return_r (unzigzag u))"

definition read_i8 :: "i8 reader" where
  "read_i8 = bind_r read_u8 (\<lambda>b. return_r b)"

definition read_zigzag_i16 :: "i16 reader" where
  "read_zigzag_i16 = bind_r read_zigzag_i32 (\<lambda>v. return_r (ucast v))"

section \<open>Field headers, list headers, lists\<close>

record field_header =
  fh_id :: i16
  fh_type :: field_type

definition decode_field_type :: "u8 \<Rightarrow> (format_error, field_type) outcome" where
  "decode_field_type nibble =
     (if nibble = 1 then Ok FT_BoolTrue
      else if nibble = 2 then Ok FT_BoolFalse
      else if nibble = 3 then Ok FT_Byte
      else if nibble = 4 then Ok FT_I16
      else if nibble = 5 then Ok FT_I32
      else if nibble = 6 then Ok FT_I64
      else if nibble = 7 then Ok FT_Double
      else if nibble = 8 then Ok FT_Binary
      else if nibble = 9 then Ok FT_List
      else if nibble = 10 then Ok FT_Set
      else if nibble = 11 then Ok FT_Map
      else if nibble = 12 then Ok FT_Struct
      else Err (InvalidFieldType nibble))"

text \<open>\<open>prev_id + delta as i16\<close> is a plain \<open>+\<close> of the code: it panics on overflow where overflow
  checks are on.\<close>

definition add_i16 :: "i16 \<Rightarrow> i16 \<Rightarrow> (format_error, i16) outcome" where
  "add_i16 a b =
     (if sint a + sint b < - 32768 \<or> sint a + sint b > 32767
      then Panic ''attempt to add with overflow'' else Ok (a + b))"

definition read_field_header :: "i16 \<Rightarrow> field_header option reader" where
  "read_field_header prev_id =
     bind_r read_u8 (\<lambda>header.
       if header = 0 then return_r None
       else
         let type_nibble = header AND 0x0F;
             delta = drop_bit 4 (header AND 0xF0)
         in bind_r (lift_r (decode_field_type type_nibble)) (\<lambda>ft.
            bind_r (if delta = 0 then bind_r read_zigzag_i32 (\<lambda>z. return_r (ucast z))
                    else lift_r (add_i16 prev_id (ucast delta))) (\<lambda>id.
            return_r (Some \<lparr>fh_id = id, fh_type = ft\<rparr>))))"

definition read_list_header :: "(nat \<times> field_type) reader" where
  "read_list_header =
     bind_r read_u8 (\<lambda>header.
       let type_nibble = header AND 0x0F;
           high = drop_bit 4 (header AND 0xF0)
       in bind_r (lift_r (decode_field_type type_nibble)) (\<lambda>et.
          bind_r (if high < 0x0F then return_r (unat high)
                  else bind_r read_uvarint (\<lambda>n. return_r (unat n))) (\<lambda>count.
          return_r (count, et))))"

definition read_binary :: "bytes reader" where
  "read_binary = bind_r read_uvarint (\<lambda>len. cur_take (unat len))"

text \<open>\<open>for _ in 0..n \{ out.push(one(cur)?) \}\<close>.\<close>

fun read_n :: "'a reader \<Rightarrow> nat \<Rightarrow> 'a list reader" where
  "read_n one 0 = return_r []"
| "read_n one (Suc n) =
     bind_r one (\<lambda>x. bind_r (read_n one n) (\<lambda>xs. return_r (x # xs)))"

text \<open>
  The lists of integers and byte strings \<open>collect\<close> into a \<open>Result\<close>, which reserves nothing for the
  announced count; the lists of booleans and structs call \<open>Vec::with_capacity(n)\<close> with it first.
  \<open>sz\<close> is the size of an element in bytes (the constants at the end of this section).
\<close>

definition read_list_of :: "field_type \<Rightarrow> 'a reader \<Rightarrow> 'a list reader" where
  "read_list_of expected one =
     bind_r read_list_header (\<lambda>(n, et).
       if et \<noteq> expected then fail_r (UnexpectedListElementType expected et)
       else read_n one n)"

definition read_list_i32 :: "i32 list reader" where
  "read_list_i32 = read_list_of FT_I32 read_zigzag_i32"

definition read_list_i64 :: "i64 list reader" where
  "read_list_i64 = read_list_of FT_I64 read_zigzag_i64"

definition read_bool_elem :: "bool reader" where
  "read_bool_elem =
     bind_r read_u8 (\<lambda>b.
       if b = 1 then return_r True
       else if b = 2 then return_r False
       else fail_r (InvalidBoolByte b))"

definition read_list_bool :: "bool list reader" where
  "read_list_bool =
     bind_r read_list_header (\<lambda>(n, et).
       if et \<noteq> FT_BoolTrue \<and> et \<noteq> FT_BoolFalse
       then fail_r (UnexpectedListElementType FT_BoolTrue et)
       else bind_r (lift_r (reserve_o 1 n)) (\<lambda>_. read_n read_bool_elem n))"

definition read_list_binary :: "bytes list reader" where
  "read_list_binary = read_list_of FT_Binary read_binary"

definition read_list_struct :: "nat \<Rightarrow> 'a reader \<Rightarrow> 'a list reader" where
  "read_list_struct sz decode_one =
     bind_r read_list_header (\<lambda>(n, et).
       if et \<noteq> FT_Struct then fail_r (UnexpectedListElementType FT_Struct et)
       else bind_r (lift_r (reserve_o sz n)) (\<lambda>_. read_n decode_one n))"

text \<open>
  \<open>size_of::<T>()\<close> of the structs that stand in lists, in the layout of a 64-bit target.  They decide
  nothing but the announced count from which on a reservation panics; \<open>max_elem\<close> is the largest.
\<close>

definition sizeof_page_location :: nat where "sizeof_page_location = 24"
definition sizeof_key_value :: nat where "sizeof_key_value = 32"
definition sizeof_page_encoding_stats :: nat where "sizeof_page_encoding_stats = 12"
definition sizeof_column_chunk :: nat where "sizeof_column_chunk = 488"
definition sizeof_sorting_column :: nat where "sizeof_sorting_column = 8"
definition sizeof_schema_element :: nat where "sizeof_schema_element = 96"
definition sizeof_row_group :: nat where "sizeof_row_group = 104"
definition sizeof_column_order :: nat where "sizeof_column_order = 0"
definition max_elem :: nat where "max_elem = 488"

lemmas elem_sizes =
  sizeof_page_location_def sizeof_key_value_def sizeof_page_encoding_stats_def sizeof_column_chunk_def
  sizeof_sorting_column_def sizeof_schema_element_def sizeof_row_group_def sizeof_column_order_def
  max_elem_def

end
