(* ===== verification/ReaderLaws.thy ===== *)
theory ReaderLaws
  imports Compact
begin

text \<open>
  The struct loop and the two properties of readers the component proofs are built from.

  \<open>safe r\<close>: from any cursor inside its buffer, \<open>r\<close> returns, reports an error, or panics reserving
  the memory of a list whose header in the buffer announces an oversized count (\<open>oversized_list\<close>); it
  never gets stuck, never changes the buffer and only moves forward, within the buffer.
  \<open>reads r bs x\<close>: wherever the bytes \<open>bs\<close> stand next in the buffer, \<open>r\<close> consumes exactly them and
  returns \<open>x\<close>.  \<open>fields_run\<close> is the same law for a part of a struct loop.  Every combinator has one
  rule for each, collected in \<open>safe_rules\<close>; the laws of the primitives are proved once here and in
  \<open>CompactWriter\<close>.
\<close>

named_theorems safe_rules \<open>rules for safe readers and loop bodies\<close>

section \<open>The loop over the fields of a struct\<close>

text \<open>
  \<open>while let Some(h) = read_field_header(cur, prev)? \{ prev = h.id; body \}\<close>, with the locals the
  body assigns as the accumulator.  The guard on \<open>remaining\<close> makes the recursion well-founded for
  any body; \<open>safe_read_fields\<close> shows it never fails for the bodies of the model.
\<close>

function read_fields ::
  "(field_header \<Rightarrow> 'a \<Rightarrow> 'a reader) \<Rightarrow> i16 \<Rightarrow> 'a \<Rightarrow> 'a reader" where
  "read_fields step prev acc cur =
     bind_o (read_field_header prev cur) (\<lambda>(ho, cur').
       case ho of
         None \<Rightarrow> Ok (acc, cur')
       | Some h \<Rightarrow>
           bind_o (step h acc cur') (\<lambda>(acc', cur'').
             if remaining cur'' < remaining cur
             then read_fields step (fh_id h) acc' cur'' else Stuck))"
  by pat_completeness auto
termination
  by (relation "measure (\<lambda>(step, prev, acc, cur). remaining cur)") auto

declare read_fields.simps [simp del]

text \<open>The loop body's dispatch \<open>match (h.id, &h.field_type)\<close> and its commonest arms.\<close>

definition on :: "field_header \<Rightarrow> i16 \<Rightarrow> field_type \<Rightarrow> bool" where
  "on h i t \<longleftrightarrow> fh_id h = i \<and> fh_type h = t"

text \<open>\<open>local = Some(reader(cur)?)\<close>, where \<open>upd\<close> is the update of the local.\<close>

definition set_some ::
  "'x reader \<Rightarrow> (('x option \<Rightarrow> 'x option) \<Rightarrow> 'a \<Rightarrow> 'a) \<Rightarrow> 'a \<Rightarrow> 'a reader" where
  "set_some rd upd acc = bind_r rd (\<lambda>x. return_r (upd (\<lambda>_. Some x) acc))"

text \<open>\<open>local = Some(b)\<close> for a boolean carried by the field header itself.\<close>

definition set_flag ::
  "bool \<Rightarrow> ((bool option \<Rightarrow> bool option) \<Rightarrow> 'a \<Rightarrow> 'a) \<Rightarrow> 'a \<Rightarrow> 'a reader" where
  "set_flag b upd acc = return_r (upd (\<lambda>_. Some b) acc)"

lemma on_field_header [simp]: "on \<lparr>fh_id = i, fh_type = t\<rparr> j u \<longleftrightarrow> i = j \<and> t = u"
  by (simp add: on_def)

section \<open>Safe readers\<close>

definition cursor_ok :: "cursor \<Rightarrow> bool" where
  "cursor_ok cur \<longleftrightarrow> pos cur \<le> length (buf cur)"

definition advances :: "cursor \<Rightarrow> cursor \<Rightarrow> bool" where
  "advances cur cur' \<longleftrightarrow>
     buf cur' = buf cur \<and> pos cur \<le> pos cur' \<and> pos cur' \<le> length (buf cur)"

text \<open>Somewhere in the buffer stands a list header whose count, with the largest element of the
  format, exceeds what \<open>Vec::with_capacity\<close> accepts: more than \<open>2 ^ 54\<close> elements.\<close>

definition oversized_list :: "bytes \<Rightarrow> bool" where
  "oversized_list bs \<longleftrightarrow>
     (\<exists>p n et cur. p < length bs \<and> read_list_header \<lparr>buf = bs, pos = p\<rparr> = Ok ((n, et), cur) \<and>
        2 ^ 63 \<le> n * max_elem)"

fun safe_result :: "cursor \<Rightarrow> (format_error, 'a \<times> cursor) outcome \<Rightarrow> bool" where
  "safe_result cur (Ok (x, cur')) \<longleftrightarrow> advances cur cur'"
| "safe_result cur (Err e) \<longleftrightarrow> True"
| "safe_result cur (Panic m) \<longleftrightarrow> m = ''capacity overflow'' \<and> oversized_list (buf cur)"
| "safe_result cur Stuck \<longleftrightarrow> False"

definition safe :: "'a reader \<Rightarrow> bool" where
  "safe r \<longleftrightarrow> (\<forall>cur. cursor_ok cur \<longrightarrow> safe_result cur (r cur))"

lemma safeI: "(\<And>cur. cursor_ok cur \<Longrightarrow> safe_result cur (r cur)) \<Longrightarrow> safe r"
  by (simp add: safe_def)

lemma safeD: "safe r \<Longrightarrow> cursor_ok cur \<Longrightarrow> safe_result cur (r cur)"
  by (simp add: safe_def)

lemma advances_refl: "cursor_ok cur \<Longrightarrow> advances cur cur"
  by (simp add: advances_def cursor_ok_def)

lemma advances_trans: "advances a b \<Longrightarrow> advances b c \<Longrightarrow> advances a c"
  by (auto simp: advances_def)

lemma advances_ok: "advances a b \<Longrightarrow> cursor_ok b"
  by (simp add: advances_def cursor_ok_def)

lemma safe_result_mono: "advances a b \<Longrightarrow> safe_result b m \<Longrightarrow> safe_result a m"
  by (cases "(b, m)" rule: safe_result.cases) (auto intro: advances_trans simp: advances_def)

lemma safe_return [safe_rules]: "safe (return_r x)"
  by (rule safeI) (simp add: return_r_def advances_refl)

lemma safe_fail [safe_rules]: "safe (fail_r e)"
  by (rule safeI) (simp add: fail_r_def)

lemma safe_bind [safe_rules]:
  assumes "safe r" and "\<And>x. safe (f x)"
  shows "safe (bind_r r f)"
proof (rule safeI)
  fix cur assume ok: "cursor_ok cur"
  show "safe_result cur (bind_r r f cur)"
  proof (cases "r cur")
    case (Ok p)
    obtain x cur' where p: "p = (x, cur')"
      by (cases p)
    have adv: "advances cur cur'"
      using safeD [OF assms(1) ok] Ok p by simp
    then show ?thesis
      using safeD [OF assms(2) advances_ok [OF adv], of x] Ok p
      by (simp add: bind_r_def safe_result_mono)
  qed (use safeD [OF assms(1) ok] in \<open>auto simp: bind_r_def\<close>)
qed

lemma safe_if [safe_rules]: "safe a \<Longrightarrow> safe b \<Longrightarrow> safe (if c then a else b)"
  by simp

lemma safe_let [safe_rules]: "(\<And>x. safe (f x)) \<Longrightarrow> safe (let x = t in f x)"
  by simp

lemma safe_case_prod [safe_rules]: "(\<And>a b. safe (f a b)) \<Longrightarrow> safe (case p of (a, b) \<Rightarrow> f a b)"
  by (cases p) simp

lemma safe_required [safe_rules]: "(\<And>v. safe (k v)) \<Longrightarrow> safe (required x e k)"
  by (simp add: required_def safe_fail split: option.split)

lemma safe_set_some [safe_rules]: "safe rd \<Longrightarrow> safe (set_some rd upd acc)"
  unfolding set_some_def by (intro safe_rules)

lemma safe_set_flag [safe_rules]: "safe (set_flag b upd acc)"
  unfolding set_flag_def by (rule safe_return)

lemma safe_lift: "(\<And>x. m \<noteq> Panic x) \<Longrightarrow> m \<noteq> Stuck \<Longrightarrow> safe (lift_r m)"
  by (rule safeI) (cases m; auto simp: lift_r_def advances_refl)

lemma safe_read_u8 [safe_rules]: "safe read_u8"
  by (rule safeI) (auto simp: read_u8_def advances_def)

lemma safe_cur_take [safe_rules]: "safe (cur_take n)"
  by (rule safeI) (auto simp: cur_take_def advances_def remaining_def cursor_ok_def)

lemma safe_uvarint_loop: "safe (uvarint_loop n result shift)"
proof (induction n arbitrary: result shift)
  case 0
  show ?case by (simp add: safe_fail)
next
  case (Suc n)
  show ?case
    by (auto simp: Let_def intro!: safe_rules Suc)
qed

lemma safe_read_uvarint [safe_rules]: "safe read_uvarint"
  by (simp add: read_uvarint_def safe_uvarint_loop)

lemma safe_decode_field_type [safe_rules]: "safe (lift_r (decode_field_type n))"
  by (rule safe_lift) (auto simp: decode_field_type_def)

lemma safe_scalars [safe_rules]:
  "safe read_zigzag_i32" "safe read_zigzag_i64" "safe read_zigzag_i16" "safe read_i8"
  "safe read_binary" "safe read_bool_elem"
  unfolding read_zigzag_i32_def read_zigzag_i64_def read_zigzag_i16_def read_i8_def
    read_binary_def read_bool_elem_def
  by (intro safe_rules)+

lemma safe_read_list_header [safe_rules]: "safe read_list_header"
  unfolding read_list_header_def by (intro safe_rules)

lemma safe_read_n [safe_rules]: "safe one \<Longrightarrow> safe (read_n one n)"
  by (induction n) (auto intro!: safe_rules)

lemma safe_read_list_of [safe_rules]: "safe one \<Longrightarrow> safe (read_list_of t one)"
  unfolding read_list_of_def by (intro safe_rules)

text \<open>The lists that reserve memory for the announced count.\<close>

lemma read_list_header_Ok_less: "read_list_header cur = Ok (x, cur') \<Longrightarrow> pos cur < length (buf cur)"
  by (auto simp: read_list_header_def bind_r_def read_u8_def split: if_splits)

lemma safe_reserving_list:
  assumes "safe one" and "sz \<le> max_elem"
  shows "safe (bind_r read_list_header (\<lambda>(n, et). if P et then fail_r (e et)
           else bind_r (lift_r (reserve_o sz n)) (\<lambda>_. read_n one n)))" (is "safe ?r")
proof (rule safeI)
  fix cur assume ok: "cursor_ok cur"
  show "safe_result cur (?r cur)"
  proof (cases "read_list_header cur")
    case (Ok p)
    obtain n et cur' where p: "p = ((n, et), cur')"
      by (metis surj_pair)
    have adv: "advances cur cur'"
      using safeD [OF safe_read_list_header ok] Ok p by simp
    show ?thesis
    proof (cases "n * sz < 2 ^ 63")
      case True
      have "safe_result cur' (read_n one n cur')"
        by (rule safeD [OF safe_read_n [OF assms(1)] advances_ok [OF adv]])
      then show ?thesis
        using Ok p safe_result_mono [OF adv, of "read_n one n cur'"]
        by (simp add: bind_r_def lift_r_def fail_r_def reserve_o_Ok [OF True])
    next
      case False
      then have big: "2 ^ 63 \<le> n * sz"
        by simp
      then have "2 ^ 63 \<le> n * max_elem"
        using mult_le_mono2 [OF assms(2), of n] by (rule order.trans)
      then have "oversized_list (buf cur)"
        using Ok p read_list_header_Ok_less [OF Ok [unfolded p]] unfolding oversized_list_def
        by (metis cursor.surjective old.unit.exhaust)
      then show ?thesis
        using Ok p by (simp add: bind_r_def lift_r_def fail_r_def reserve_o_Panic [OF big])
    qed
  qed (use safeD [OF safe_read_list_header ok] in \<open>auto simp: bind_r_def\<close>)
qed

lemma safe_lists [safe_rules]:
  "safe read_list_i32" "safe read_list_i64" "safe read_list_bool" "safe read_list_binary"
  unfolding read_list_i32_def read_list_i64_def read_list_bool_def read_list_binary_def
  by (intro safe_rules safe_reserving_list; simp add: max_elem_def)+

lemma safe_read_list_struct: "safe one \<Longrightarrow> sz \<le> max_elem \<Longrightarrow> safe (read_list_struct sz one)"
  unfolding read_list_struct_def by (rule safe_reserving_list)

lemma safe_struct_lists [safe_rules]:
  "safe one \<Longrightarrow> safe (read_list_struct sizeof_page_location one)"
  "safe one \<Longrightarrow> safe (read_list_struct sizeof_key_value one)"
  "safe one \<Longrightarrow> safe (read_list_struct sizeof_page_encoding_stats one)"
  "safe one \<Longrightarrow> safe (read_list_struct sizeof_column_chunk one)"
  "safe one \<Longrightarrow> safe (read_list_struct sizeof_sorting_column one)"
  "safe one \<Longrightarrow> safe (read_list_struct sizeof_schema_element one)"
  "safe one \<Longrightarrow> safe (read_list_struct sizeof_row_group one)"
  "safe one \<Longrightarrow> safe (read_list_struct sizeof_column_order one)"
  by (rule safe_read_list_struct; simp add: elem_sizes)+

text \<open>
  A field header is safe as long as adding a delta to the previous id cannot overflow an \<open>i16\<close>.
  The loops keep that: a body accepts the small ids of its struct only.
\<close>

definition small_id :: "i16 \<Rightarrow> bool" where
  "small_id i \<longleftrightarrow> sint i \<le> 32752"

lemma unat_drop_bit_4: "unat (drop_bit 4 (w :: u8)) = unat w div 16"
  by (simp only: unat_drop_bit_eq) (simp add: drop_bit_eq_div)

lemma header_delta_bound: "unat (drop_bit 4 (header AND 0xF0 :: u8)) \<le> 15"
proof -
  have "unat (header AND 0xF0) < 2 ^ LENGTH(8)"
    by (rule unsigned_less)
  then show ?thesis
    by (simp only: unat_drop_bit_4) simp
qed

lemma sint_ucast_nibble:
  assumes "unat (d :: u8) \<le> 15"
  shows "sint (ucast d :: i16) = uint d" and "0 \<le> uint d" and "uint d \<le> 15"
proof -
  show "0 \<le> uint d"
    by simp
  show le: "uint d \<le> 15"
    using assms by (metis of_nat_le_iff of_nat_numeral uint_nat)
  have "uint (ucast d :: i16) = uint d"
    by (rule uint_up_ucast) (simp add: is_up)
  then show "sint (ucast d :: i16) = uint d"
    using le by (simp add: sint_uint signed_take_bit_int_eq_self order.trans [OF _ uint_ge_0])
qed

lemma safe_add_i16:
  assumes "small_id prev" and "unat d \<le> 15"
  shows "safe (lift_r (add_i16 prev (ucast (d :: u8))))"
proof (rule safe_lift)
  have "sint prev \<ge> - 32768"
    using sint_ge [of prev] by simp
  moreover have "sint prev \<le> 32752"
    using assms(1) by (simp add: small_id_def)
  ultimately have "\<not> sint prev + sint (ucast d :: i16) < - 32768"
    "\<not> sint prev + sint (ucast d :: i16) > 32767"
    using sint_ucast_nibble [OF assms(2)] by linarith+
  then show "add_i16 prev (ucast d) \<noteq> Panic x" for x
    by (simp add: add_i16_def)
qed (simp add: add_i16_def)

lemma safe_read_field_header: "small_id prev \<Longrightarrow> safe (read_field_header prev)"
  unfolding read_field_header_def Let_def
  by (intro safe_rules safe_add_i16 header_delta_bound)

lemma advances_remaining_le: "advances a b \<Longrightarrow> remaining b \<le> remaining a"
  by (auto simp: advances_def remaining_def)

lemma read_field_header_progress:
  assumes "small_id prev" and "cursor_ok cur" and "read_field_header prev cur = Ok (ho, cur')"
  shows "advances cur cur' \<and> remaining cur' < remaining cur"
proof -
  let ?one = "cur\<lparr>pos := pos cur + 1\<rparr>"
  have lt: "pos cur < length (buf cur)"
    using assms(3) by (auto simp: read_field_header_def bind_r_def read_u8_def split: if_splits)
  then have one: "cursor_ok ?one" "advances cur ?one" "remaining ?one < remaining cur"
    by (auto simp: cursor_ok_def advances_def remaining_def)
  define k where "k = (\<lambda>header :: u8.
      if header = 0 then return_r None
      else bind_r (lift_r (decode_field_type (header AND 0x0F))) (\<lambda>ft.
            bind_r (if drop_bit 4 (header AND 0xF0) = 0
                    then bind_r read_zigzag_i32 (\<lambda>z. return_r (ucast z))
                    else lift_r (add_i16 prev (ucast (drop_bit 4 (header AND 0xF0))))) (\<lambda>id.
            return_r (Some \<lparr>fh_id = id, fh_type = ft\<rparr>))))"
  have "safe (k h)" for h
    unfolding k_def using assms(1) by (intro safe_rules safe_add_i16 header_delta_bound)
  moreover have "read_field_header prev cur = k (buf cur ! pos cur) ?one"
    using lt by (simp add: read_field_header_def bind_r_def read_u8_def k_def Let_def)
  ultimately have "safe_result ?one (Ok (ho, cur'))"
    using assms(3) safeD [of "k (buf cur ! pos cur)", OF _ one(1)] by metis
  then have "advances ?one cur'"
    by simp
  with one show ?thesis
    using advances_remaining_le [of ?one cur'] advances_trans by fastforce
qed

definition safe_body :: "field_header \<Rightarrow> 'a reader \<Rightarrow> bool" where
  "safe_body h r \<longleftrightarrow> safe r \<and> (\<not> small_id (fh_id h) \<longrightarrow> (\<forall>cur. \<exists>e. r cur = Err e))"

lemma safe_body_on [safe_rules]:
  "small_id i \<Longrightarrow> safe a \<Longrightarrow> safe_body h b \<Longrightarrow> safe_body h (if on h i t then a else b)"
  by (auto simp: safe_body_def on_def)

lemma safe_body_id [safe_rules]:
  "small_id i \<Longrightarrow> safe a \<Longrightarrow> safe_body h b \<Longrightarrow> safe_body h (if fh_id h = i then a else b)"
  by (auto simp: safe_body_def)

lemma safe_body_fail [safe_rules]: "safe_body h (fail_r e)"
  by (simp add: safe_body_def safe_fail) (simp add: fail_r_def)

lemma small_id_numeral [safe_rules]:
  "small_id 0" "small_id 1" "small_id 2" "small_id 3" "small_id 4" "small_id 5" "small_id 6"
  "small_id 7" "small_id 8" "small_id 9" "small_id 10" "small_id 11" "small_id 12" "small_id 13"
  "small_id 14" "small_id 15" "small_id 16" "small_id 17" "small_id 18"
  by (simp_all add: small_id_def)

lemma safe_read_fields:
  assumes "\<And>h acc. safe_body h (step h acc)" and "small_id prev"
  shows "safe (read_fields step prev acc)"
proof (rule safeI)
  fix cur assume "cursor_ok cur"
  with assms show "safe_result cur (read_fields step prev acc cur)"
  proof (induction step prev acc cur rule: read_fields.induct)
    case (1 step prev acc cur)
    show ?case
    proof (cases "read_field_header prev cur")
      case (Ok p)
      obtain ho cur' where p: "p = (ho, cur')"
        by (cases p)
      have adv: "advances cur cur'" "remaining cur' < remaining cur"
        using read_field_header_progress [OF 1(3,4)] Ok p by auto
      show ?thesis
      proof (cases ho)
        case None
        then show ?thesis
          using Ok p adv by (simp add: read_fields.simps [of step prev])
      next
        case (Some h)
        have body: "safe_result cur' (step h acc cur')"
          using 1(2) adv(1) advances_ok safeD unfolding safe_body_def by blast
        show ?thesis
        proof (cases "step h acc cur'")
          case step_ok: (Ok q)
          obtain acc' cur'' where q: "q = (acc', cur'')"
            by (cases q)
          have adv': "advances cur' cur''"
            using body step_ok q by simp
          have small: "small_id (fh_id h)"
          proof (rule ccontr)
            assume "\<not> small_id (fh_id h)"
            then obtain e where "step h acc cur' = Err e"
              using 1(2) [of h acc] unfolding safe_body_def by blast
            then show False
              using step_ok by (metis outcome.distinct(1))
          qed
          have less: "remaining cur'' < remaining cur"
            using adv(2) advances_remaining_le [OF adv'] by simp
          have "safe_result cur'' (read_fields step (fh_id h) acc' cur'')"
            using 1(1) [OF \<open>read_field_header prev cur = Ok p\<close> p [symmetric] Some step_ok
                q [symmetric] less 1(2) small advances_ok [OF adv']] .
          with less adv(1) adv' show ?thesis
            using \<open>read_field_header prev cur = Ok p\<close> p Some step_ok q
            by (auto simp: read_fields.simps [of step prev acc cur]
                intro: safe_result_mono [OF advances_trans])
        qed (use body adv(1) in
            \<open>auto simp: read_fields.simps [of step prev acc cur] Ok p Some advances_def\<close>)
      qed
    qed (use safeD [OF safe_read_field_header [OF 1(3)] 1(4)] in
        \<open>auto simp: read_fields.simps [of step prev acc cur]\<close>)
  qed
qed

section \<open>Readers and the bytes they recognise\<close>

definition rest :: "cursor \<Rightarrow> bytes" where
  "rest cur = drop (pos cur) (buf cur)"

definition adv :: "cursor \<Rightarrow> nat \<Rightarrow> cursor" where
  "adv cur n = cur\<lparr>pos := pos cur + n\<rparr>"

definition reads :: "'a reader \<Rightarrow> bytes \<Rightarrow> 'a \<Rightarrow> bool" where
  "reads r bs x \<longleftrightarrow> (\<forall>cur post. rest cur = bs @ post \<longrightarrow> r cur = Ok (x, adv cur (length bs)))"

lemma adv_adv [simp]: "adv (adv cur m) n = adv cur (m + n)"
  by (simp add: adv_def)

lemma adv_0 [simp]: "adv cur 0 = cur"
  by (simp add: adv_def)

lemma rest_adv: "rest cur = bs @ post \<Longrightarrow> rest (adv cur (length bs)) = post"
  by (simp add: rest_def adv_def drop_add_length)

lemma remaining_rest: "remaining cur = length (rest cur)"
  by (simp add: remaining_def rest_def)

lemma readsI: "(\<And>cur post. rest cur = bs @ post \<Longrightarrow> r cur = Ok (x, adv cur (length bs))) \<Longrightarrow> reads r bs x"
  by (simp add: reads_def)

lemma readsD: "reads r bs x \<Longrightarrow> rest cur = bs @ post \<Longrightarrow> r cur = Ok (x, adv cur (length bs))"
  by (simp add: reads_def)

lemma reads_return: "reads (return_r x) [] x"
  by (rule readsI) (simp add: return_r_def)

lemma reads_bind:
  assumes "reads r bs x" and "reads (f x) cs y"
  shows "reads (bind_r r f) (bs @ cs) y"
proof (rule readsI)
  fix cur post assume rest: "rest cur = (bs @ cs) @ post"
  then have 1: "r cur = Ok (x, adv cur (length bs))"
    using readsD [OF assms(1)] by simp
  have "rest (adv cur (length bs)) = cs @ post"
    using rest by (intro rest_adv) simp
  from readsD [OF assms(2) this] 1
  show "bind_r r f cur = Ok (y, adv cur (length (bs @ cs)))"
    by (simp add: bind_r_def)
qed

lemma reads_bind_return: "reads r bs x \<Longrightarrow> reads (bind_r r (\<lambda>x. return_r (g x))) bs (g x)"
  using reads_bind [OF _ reads_return, of r bs x g] by simp

lemma reads_lift: "m = Ok x \<Longrightarrow> reads (lift_r m) [] x"
  by (rule readsI) (simp add: lift_r_def)

lemma reads_bind_lift: "m = Ok x \<Longrightarrow> reads (f x) bs y \<Longrightarrow> reads (bind_r (lift_r m) f) bs y"
  using reads_bind [OF reads_lift] by fastforce

lemma reads_u8: "reads read_u8 [b] b"
proof (rule readsI)
  fix cur post assume "rest cur = [b] @ post"
  then have "pos cur < length (buf cur)" and "buf cur ! pos cur = b"
    by (auto simp: rest_def dest: arg_cong [where f = length])
      (metis append_Cons hd_drop_conv_nth list.sel(1) drop_all linorder_not_less list.distinct(1))
  then show "read_u8 cur = Ok (b, adv cur (length [b]))"
    by (simp add: read_u8_def adv_def)
qed

lemma reads_u8_bind: "reads (f b) bs y \<Longrightarrow> reads (bind_r read_u8 f) (b # bs) y"
  using reads_bind [OF reads_u8] by fastforce

lemma reads_cur_take: "reads (cur_take (length bs)) bs bs"
proof (rule readsI)
  fix cur post assume rest: "rest cur = bs @ post"
  then have "\<not> remaining cur < length bs"
    by (simp add: remaining_rest)
  with rest show "cur_take (length bs) cur = Ok (bs, adv cur (length bs))"
    by (simp add: cur_take_def adv_def rest_def)
qed

text \<open>A reader that recognises \<open>bs\<close> reads it back from a buffer holding just \<open>bs\<close>.\<close>

lemma reads_whole: "reads r bs x \<Longrightarrow> r (cursor_new bs) = Ok (x, \<lparr>buf = bs, pos = length bs\<rparr>)"
  using readsD [of r bs x "cursor_new bs" "[]"] by (simp add: rest_def cursor_new_def adv_def)

text \<open>Encodings a reader recognises are prefix-free, hence the value is determined.\<close>

lemma reads_deterministic:
  assumes "reads r bs x" and "reads r cs y" and "bs @ ps = cs @ qs"
  shows "x = y \<and> bs = cs"
proof -
  let ?cur = "cursor_new (bs @ ps)"
  have rest: "rest ?cur = bs @ ps" "rest ?cur = cs @ qs"
    using assms(3) by (simp_all add: rest_def cursor_new_def)
  have "r ?cur = Ok (x, adv ?cur (length bs))" and "r ?cur = Ok (y, adv ?cur (length cs))"
    by (rule readsD [OF assms(1) rest(1)], rule readsD [OF assms(2) rest(2)])
  then have "x = y" and "length bs = length cs"
    by (simp_all add: adv_def cursor_new_def)
  with assms(3) show ?thesis
    by simp
qed

section \<open>Runs of the struct loop\<close>

definition fields_run ::
  "(field_header \<Rightarrow> 'a \<Rightarrow> 'a reader) \<Rightarrow> i16 \<Rightarrow> 'a \<Rightarrow> bytes \<Rightarrow> i16 \<Rightarrow> 'a \<Rightarrow> bool" where
  "fields_run step p a bs p' a' \<longleftrightarrow>
     (\<forall>cur post. rest cur = bs @ post \<longrightarrow>
        read_fields step p a cur = read_fields step p' a' (adv cur (length bs)))"

lemma fields_run_refl: "fields_run step p a [] p a"
  by (simp add: fields_run_def)

lemma fields_run_trans:
  assumes "fields_run step p a bs p' a'" and "fields_run step p' a' cs p'' a''"
  shows "fields_run step p a (bs @ cs) p'' a''"
  unfolding fields_run_def
proof (intro allI impI)
  fix cur post assume rest: "rest cur = (bs @ cs) @ post"
  then have "rest (adv cur (length bs)) = cs @ post"
    by (intro rest_adv) simp
  with rest assms show "read_fields step p a cur = read_fields step p'' a'' (adv cur (length (bs @ cs)))"
    unfolding fields_run_def by (metis adv_adv append_assoc length_append)
qed

lemma fields_run_field:
  assumes hdr: "reads (read_field_header p) hb (Some h)" "hb \<noteq> []"
    and body: "reads (step h a) bs a'"
  shows "fields_run step p a (hb @ bs) (fh_id h) a'"
  unfolding fields_run_def
proof (intro allI impI)
  fix cur post assume rest: "rest cur = (hb @ bs) @ post"
  then have 1: "read_field_header p cur = Ok (Some h, adv cur (length hb))"
    using readsD [OF hdr(1)] by simp
  have rest1: "rest (adv cur (length hb)) = bs @ post"
    using rest by (intro rest_adv) simp
  then have 2: "step h a (adv cur (length hb)) = Ok (a', adv cur (length hb + length bs))"
    using readsD [OF body] by simp
  have "rest (adv cur (length hb + length bs)) = post"
    using rest_adv [OF rest] by simp
  then have "remaining (adv cur (length hb + length bs)) < remaining cur"
    using rest hdr(2) by (simp add: remaining_rest)
  with 1 2 show "read_fields step p a cur =
      read_fields step (fh_id h) a' (adv cur (length (hb @ bs)))"
    by (simp add: read_fields.simps [of step p a cur])
qed

lemma reads_stop: "reads (read_field_header p) [0] None"
proof -
  have "reads (bind_r read_u8 (\<lambda>header. if header = 0 then return_r None else k header)) [0] None" for k
    by (rule reads_u8_bind) (simp add: reads_return)
  then show ?thesis
    by (simp add: read_field_header_def)
qed

lemma fields_run_stop:
  assumes "fields_run step p a bs p' a'"
  shows "reads (read_fields step p a) (bs @ [0]) a'"
proof (rule readsI)
  fix cur post assume rest: "rest cur = (bs @ [0]) @ post"
  then have "rest (adv cur (length bs)) = [0] @ post"
    by (intro rest_adv) simp
  then have "read_fields step p' a' (adv cur (length bs)) = Ok (a', adv cur (length (bs @ [0])))"
    using readsD [OF reads_stop] by (simp add: read_fields.simps [of step p'])
  with assms rest show "read_fields step p a cur = Ok (a', adv cur (length (bs @ [0])))"
    unfolding fields_run_def by (metis append_assoc)
qed

end
