(* ===== verification/CompactWriter.thy ===== *)
theory CompactWriter
  imports ReaderLaws
begin

text \<open>
  The Thrift compact-protocol writer, \<open>ematix-parquet-format/src/compact_writer.rs\<close>, and the proof
  that every primitive it writes is recognised by its reader of \<open>compact.rs\<close>.  The struct \<open>Writer\<close>
  has the single field \<open>buf\<close>, so a writer is the byte list written so far and every operation
  returns it extended.

  The locales \<open>panicking_codec\<close> and \<open>wire_codec\<close> state the contract of an encoder and a decoder; what a
  client may conclude from it (round trip on a whole buffer, injectivity, prefix-freeness, the
  contract of lists of such values) is proved in them once.
\<close>

type_synonym writer = bytes

section \<open>Operations of the writer\<close>

definition write_u8 :: "writer \<Rightarrow> u8 \<Rightarrow> writer" where
  "write_u8 w b = w @ [b]"

definition write_i8 :: "writer \<Rightarrow> i8 \<Rightarrow> writer" where
  "write_i8 w b = w @ [b]"

function write_uvarint :: "writer \<Rightarrow> u64 \<Rightarrow> writer" where
  "write_uvarint w v =
     (if v \<ge> 0x80 then write_uvarint (w @ [ucast (v AND 0x7F) OR 0x80]) (drop_bit 7 v)
      else w @ [ucast v])"
  by pat_completeness auto
termination
proof (relation "measure (\<lambda>(w, v). unat v)")
  fix w :: writer and v :: u64
  assume "v \<ge> 0x80"
  then have "128 \<le> unat v"
    by (simp add: word_le_nat_alt)
  moreover have "unat (drop_bit 7 v) = unat v div 128"
    by (simp only: unat_drop_bit_eq) (simp add: drop_bit_eq_div)
  ultimately show "((w @ [ucast (v AND 0x7F) OR 0x80], drop_bit 7 v), (w, v)) \<in> measure (\<lambda>(w, v). unat v)"
    by simp
qed simp

declare write_uvarint.simps [simp del]

definition zigzag :: "'a::len word \<Rightarrow> 'a word" where
  "zigzag v = push_bit 1 v XOR signed_drop_bit (LENGTH('a) - 1) v"

definition write_zigzag_i32 :: "writer \<Rightarrow> i32 \<Rightarrow> writer" where
  "write_zigzag_i32 w v = (let zz = zigzag v in write_uvarint w (ucast zz))"

definition write_zigzag_i64 :: "writer \<Rightarrow> i64 \<Rightarrow> writer" where
  "write_zigzag_i64 w v = (let zz = zigzag v in write_uvarint w zz)"

definition write_zigzag_i16 :: "writer \<Rightarrow> i16 \<Rightarrow> writer" where
  "write_zigzag_i16 w v = write_zigzag_i32 w (scast v)"

text \<open>\<open>to_le_bytes\<close> of a 64-bit word; a double is its bit pattern.\<close>

definition le_bytes_u64 :: "u64 \<Rightarrow> bytes" where
  "le_bytes_u64 v = map (\<lambda>j. ucast (drop_bit (8 * j) v)) [0..<8]"

definition write_double :: "writer \<Rightarrow> u64 \<Rightarrow> writer" where
  "write_double w v = w @ le_bytes_u64 v"

definition write_binary :: "writer \<Rightarrow> bytes \<Rightarrow> writer" where
  "write_binary w bs = write_uvarint w (of_nat (length bs)) @ bs"

definition write_field_header :: "writer \<Rightarrow> i16 \<Rightarrow> field_type \<Rightarrow> i16 \<Rightarrow> writer" where
  "write_field_header w fid ft prev_id =
     (let type_code = field_type_code ft;
          diff = sint fid - sint prev_id
      in if diff > 0 \<and> diff \<le> 15
         then w @ [push_bit 4 (word_of_int diff) OR type_code]
         else write_zigzag_i16 (w @ [type_code]) fid)"

definition write_field_stop :: "writer \<Rightarrow> writer" where
  "write_field_stop w = w @ [0]"

definition write_list_header :: "writer \<Rightarrow> nat \<Rightarrow> field_type \<Rightarrow> writer" where
  "write_list_header w count et =
     (let type_code = field_type_code et
      in if count < 15 then w @ [push_bit 4 (of_nat count) OR type_code]
         else write_uvarint (w @ [0xF0 OR type_code]) (of_nat count))"

text \<open>\<open>write_list_header\<close> and then one write per element: the shape of every list the code writes.\<close>

definition write_list_of :: "field_type \<Rightarrow> (writer \<Rightarrow> 'a \<Rightarrow> writer) \<Rightarrow> writer \<Rightarrow> 'a list \<Rightarrow> writer" where
  "write_list_of t wr w xs = foldl wr (write_list_header w (length xs) t) xs"

definition write_list_of_o ::
  "field_type \<Rightarrow> (writer \<Rightarrow> 'a \<Rightarrow> ('e, writer) outcome) \<Rightarrow> writer \<Rightarrow> 'a list \<Rightarrow> ('e, writer) outcome" where
  "write_list_of_o t wr w xs = fold_o wr (write_list_header w (length xs) t) xs"

definition write_list_i32 :: "writer \<Rightarrow> i32 list \<Rightarrow> writer" where
  "write_list_i32 = write_list_of FT_I32 write_zigzag_i32"

definition write_list_i64 :: "writer \<Rightarrow> i64 list \<Rightarrow> writer" where
  "write_list_i64 = write_list_of FT_I64 write_zigzag_i64"

definition write_bool_elem :: "writer \<Rightarrow> bool \<Rightarrow> writer" where
  "write_bool_elem w v = w @ [if v then field_type_code FT_BoolTrue else field_type_code FT_BoolFalse]"

definition write_list_bool :: "writer \<Rightarrow> bool list \<Rightarrow> writer" where
  "write_list_bool = write_list_of FT_BoolTrue write_bool_elem"

definition write_list_binary :: "writer \<Rightarrow> bytes list \<Rightarrow> writer" where
  "write_list_binary = write_list_of FT_Binary write_binary"

section \<open>The contract of an encoder and a decoder\<close>

definition codec_o ::
  "(writer \<Rightarrow> 'a \<Rightarrow> (format_error, writer) outcome) \<Rightarrow> 'a reader \<Rightarrow> 'a \<Rightarrow> bool" where
  "codec_o wr rd x \<longleftrightarrow> (\<forall>w w'. wr w x = Ok w' \<longrightarrow> (\<exists>body. w' = w @ body \<and> reads rd body x))"

definition codec :: "(writer \<Rightarrow> 'a \<Rightarrow> writer) \<Rightarrow> 'a reader \<Rightarrow> 'a \<Rightarrow> bool" where
  "codec wr rd x \<longleftrightarrow> (\<forall>w. \<exists>body. wr w x = w @ body \<and> reads rd body x)"

text \<open>The length of a slice fits \<open>usize\<close>; every slice of a running program has it.\<close>

definition fits :: "'a list \<Rightarrow> bool" where
  "fits xs \<longleftrightarrow> length xs < 2 ^ 64"

lemma codecI: "(\<And>w. wr w x = w @ body w) \<Longrightarrow> (\<And>w. reads rd (body w) x) \<Longrightarrow> codec wr rd x"
  by (auto simp: codec_def)

lemma codecE:
  assumes "codec wr rd x"
  obtains body where "wr w x = w @ body" and "reads rd body x"
  using assms unfolding codec_def by blast

lemma codec_oE:
  assumes "codec_o wr rd x" and "wr w x = Ok w'"
  obtains body where "w' = w @ body" and "reads rd body x"
  using assms unfolding codec_o_def by blast

lemma codec_o_iff: "codec_o (\<lambda>w x. Ok (wr w x)) rd x \<longleftrightarrow> codec wr rd x"
  by (auto simp: codec_o_def codec_def)

section \<open>Round trips of the primitives\<close>

lemma unzigzag_zigzag: "unzigzag (zigzag v) = (v :: 'a::len word)"
proof (rule bit_word_eqI)
  fix n assume n: "n < LENGTH('a)"
  define s where "s = bit v (LENGTH('a) - 1)"
  define z where "z = zigzag v"
  have zz: "bit z m \<longleftrightarrow> (1 \<le> m \<and> bit v (m - 1)) \<noteq> s" if "m < LENGTH('a)" for m
  proof -
    have "bit (push_bit 1 v) m \<longleftrightarrow> 1 \<le> m \<and> bit v (m - 1)"
      using that by (simp only: bit_push_bit_iff) auto
    moreover have "bit (signed_drop_bit (LENGTH('a) - 1) v) m \<longleftrightarrow> s"
      using that by (cases m) (auto simp only: bit_signed_drop_bit_iff s_def, auto)
    ultimately show ?thesis
      by (simp only: z_def zigzag_def bit_xor_iff)
  qed
  have "bit z 0 = s"
    using zz [of 0] by simp
  then have "z AND 1 = of_bool s"
    by (simp add: and_one_eq mod_2_eq_odd bit_0)
  then have neg: "bit (- (z AND 1)) n \<longleftrightarrow> s"
    using n by (cases s) simp_all
  have "bit (drop_bit 1 z) n \<longleftrightarrow> n + 1 < LENGTH('a) \<and> (bit v n \<noteq> s)"
    using zz [of "n + 1"] bit_imp_le_length [of z "1 + n"]
    by (auto simp: bit_drop_bit_eq)
  then have "bit (unzigzag z) n \<longleftrightarrow> (n + 1 < LENGTH('a) \<and> (bit v n \<noteq> s)) \<noteq> s"
    by (simp only: unzigzag_def bit_xor_iff neg)
  also have "\<dots> \<longleftrightarrow> bit v n"
  proof (cases "n + 1 < LENGTH('a)")
    case False
    with n have "n = LENGTH('a) - 1"
      by simp
    then show ?thesis
      by (simp add: s_def)
  qed auto
  finally show "bit (unzigzag (zigzag v)) n \<longleftrightarrow> bit v n"
    by (simp only: z_def)
qed

lemma write_uvarint_append: "write_uvarint w v = w @ write_uvarint [] v"
proof (induction "unat v" arbitrary: w v rule: less_induct)
  case less
  show ?case
  proof (cases "v \<ge> 0x80")
    case True
    have "unat (drop_bit 7 v) = unat v div 128"
      by (simp only: unat_drop_bit_eq) (simp add: drop_bit_eq_div)
    moreover have "128 \<le> unat v"
      using True by (simp add: word_le_nat_alt)
    ultimately have "unat (drop_bit 7 v) < unat v"
      by simp
    note IH = less [OF this]
    let ?b = "ucast (v AND 0x7F) OR 0x80 :: u8"
    have unf: "write_uvarint u v = write_uvarint (u @ [?b]) (drop_bit 7 v)" for u
      using True by (subst write_uvarint.simps) simp
    show ?thesis
      by (simp only: unf [of w] unf [of "[]"] IH [of "w @ [?b]"] IH [of "[] @ [?b]"]) simp
  next
    case False
    then show ?thesis
      by (simp add: write_uvarint.simps [of w] write_uvarint.simps [of "[]"])
  qed
qed

lemma write_uvarint_length: "unat v < 2 ^ (7 * Suc k) \<Longrightarrow> length (write_uvarint [] v) \<le> Suc k"
proof (induction k arbitrary: v)
  case 0
  then have "\<not> v \<ge> 0x80" by (simp add: word_le_nat_alt)
  then show ?case by (subst write_uvarint.simps) simp
next
  case (Suc k)
  have "unat (drop_bit 7 v) < 2 ^ (7 * Suc k)"
    using Suc.prems
    by (simp only: unat_drop_bit_eq)
      (simp add: drop_bit_eq_div less_mult_imp_div_less [of _ "2 ^ (7 + 7 * k)" 128, simplified] power_add)
  from Suc.IH [OF this] show ?case
    by (subst write_uvarint.simps) (use write_uvarint_append [of "[_]"] in \<open>auto simp: Let_def\<close>)
qed

lemma reads_uvarint_loop:
  "unat v < 2 ^ (64 - 7 * k) \<Longrightarrow> k < 10 \<Longrightarrow>
     reads (uvarint_loop (10 - k) r (7 * k)) (write_uvarint [] v) (r OR push_bit (7 * k) v)"
proof (induction "unat v" arbitrary: v k r rule: less_induct)
  case less
  obtain m where m: "10 - k = Suc m" and m': "m = 10 - Suc k"
    using less.prems(2) by (cases "10 - k") auto
  show ?case
  proof (cases "v \<ge> 0x80")
    case True
    let ?b = "ucast (v AND 0x7F) OR 0x80 :: u8"
    have v128: "128 \<le> unat v"
      using True by (simp add: word_le_nat_alt)
    have k9: "Suc k < 10"
    proof (rule ccontr)
      assume "\<not> Suc k < 10"
      with less.prems(2) have "k = 9"
        by simp
      with less.prems(1) v128 show False
        by simp
    qed
    have div: "unat (drop_bit 7 v) = unat v div 128"
      by (simp only: unat_drop_bit_eq) (simp add: drop_bit_eq_div)
    have split: "64 - 7 * k = (64 - 7 * Suc k) + 7"
      using k9 by simp
    have "unat v < 2 ^ (64 - 7 * Suc k) * 2 ^ 7"
      using less.prems(1) unfolding split power_add .
    then have bound: "unat (drop_bit 7 v) < 2 ^ (64 - 7 * Suc k)"
      by (simp add: div less_mult_imp_div_less)
    have less_v: "unat (drop_bit 7 v) < unat v"
      unfolding div using v128 by simp
    have IH: "reads (uvarint_loop (10 - Suc k) (r OR push_bit (7 * k) (v AND 0x7F)) (7 * Suc k))
        (write_uvarint [] (drop_bit 7 v))
        ((r OR push_bit (7 * k) (v AND 0x7F)) OR push_bit (7 * Suc k) (drop_bit 7 v))"
      by (rule less.hyps [OF less_v bound k9])
    have "write_uvarint [] v = ?b # write_uvarint [] (drop_bit 7 v)"
      using True write_uvarint_append [of "[?b]"] by (subst write_uvarint.simps) simp
    moreover have "(r OR push_bit (7 * k) (v AND 0x7F)) OR push_bit (7 * Suc k) (drop_bit 7 v)
        = r OR push_bit (7 * k) v"
      using push_bit_split [of "7 * k" v] by (simp add: or.assoc add.commute)
    moreover have "7 * k + 7 = 7 * Suc k"
      by simp
    ultimately show ?thesis
      using IH varint_byte_more [of v] unfolding m uvarint_loop.simps m'
      by (simp only: Let_def) (rule reads_u8_bind, simp add: Let_def)
  next
    case False
    then have "write_uvarint [] v = [ucast v]"
      by (subst write_uvarint.simps) simp
    then show ?thesis
      using False varint_byte_last [of v] unfolding m uvarint_loop.simps
      by (simp only:) (rule reads_u8_bind, simp add: Let_def reads_return not_le)
  qed
qed

lemma reads_uvarint: "reads read_uvarint (write_uvarint [] v) v"
proof -
  have "unat v < 2 ^ LENGTH(64)"
    by (rule unsigned_less)
  then show ?thesis
    using reads_uvarint_loop [of v 0 0] by (simp add: read_uvarint_def)
qed

lemma codec_uvarint: "codec write_uvarint read_uvarint v"
  by (rule codecI [OF write_uvarint_append reads_uvarint])

lemma codec_zigzag_i32 [codec_rules]: "codec write_zigzag_i32 read_zigzag_i32 v"
proof (rule codecI)
  show "write_zigzag_i32 w v = w @ write_uvarint [] (ucast (zigzag v))" for w
    by (simp add: write_zigzag_i32_def Let_def write_uvarint_append [of w])
  have "ucast (ucast (zigzag v) :: u64) = zigzag v"
    by (rule bit_word_eqI) (auto simp: bit_simps)
  then show "reads read_zigzag_i32 (write_uvarint [] (ucast (zigzag v))) v"
    using reads_bind_return [OF reads_uvarint, of "\<lambda>v. unzigzag (ucast v :: u32)" "ucast (zigzag v)"]
    by (simp add: read_zigzag_i32_def Let_def unzigzag_zigzag)
qed

lemma codec_zigzag_i64 [codec_rules]: "codec write_zigzag_i64 read_zigzag_i64 v"
proof (rule codecI)
  show "write_zigzag_i64 w v = w @ write_uvarint [] (zigzag v)" for w
    by (simp add: write_zigzag_i64_def Let_def write_uvarint_append [of w])
  show "reads read_zigzag_i64 (write_uvarint [] (zigzag v)) v"
    using reads_bind_return [OF reads_uvarint, of unzigzag "zigzag v"]
    by (simp add: read_zigzag_i64_def unzigzag_zigzag)
qed

text \<open>A codec of one type carried over to another by two maps that undo each other.\<close>

lemma codec_map:
  assumes "codec wr rd (f x)" and "g (f x) = x"
  shows "codec (\<lambda>w x. wr w (f x)) (bind_r rd (\<lambda>y. return_r (g y))) x"
  unfolding codec_def
proof
  fix w
  obtain body where "wr w (f x) = w @ body" and "reads rd body (f x)"
    using assms(1) by (rule codecE)
  then show "\<exists>body. wr w (f x) = w @ body \<and> reads (bind_r rd (\<lambda>y. return_r (g y))) body x"
    using reads_bind_return [of rd body "f x" g] assms(2) by auto
qed

lemma codec_zigzag_i16 [codec_rules]: "codec write_zigzag_i16 read_zigzag_i16 v"
proof -
  have "ucast (scast v :: i32) = v"
    by (rule bit_word_eqI) (auto simp: bit_simps)
  from codec_map [OF codec_zigzag_i32, where f = "scast :: i16 \<Rightarrow> i32" and g = ucast, OF this]
  show ?thesis
    by (simp add: read_zigzag_i16_def write_zigzag_i16_def [abs_def])
qed

lemma codec_u8: "codec write_u8 read_u8 b"
  by (rule codecI [of _ _ "\<lambda>_. [b]"]) (simp_all add: write_u8_def reads_u8)

lemma codec_i8 [codec_rules]: "codec write_i8 read_i8 b"
  by (rule codecI [of _ _ "\<lambda>_. [b]"])
    (simp_all add: write_i8_def read_i8_def reads_u8_bind reads_return)

lemma unat_of_nat_fits: "fits xs \<Longrightarrow> unat (of_nat (length xs) :: u64) = length xs"
  by (simp add: fits_def unat_of_nat take_bit_nat_eq_self)

lemma codec_binary [codec_rules]: "fits bs \<Longrightarrow> codec write_binary read_binary bs"
proof (rule codecI)
  assume fits: "fits bs"
  show "write_binary w bs = w @ (write_uvarint [] (of_nat (length bs)) @ bs)" for w
    by (simp add: write_binary_def write_uvarint_append [of w])
  show "reads read_binary (write_uvarint [] (of_nat (length bs)) @ bs) bs"
    unfolding read_binary_def
    by (rule reads_bind [OF reads_uvarint]) (simp add: unat_of_nat_fits [OF fits] reads_cur_take)
qed

lemma codec_bool_elem [codec_rules]: "codec write_bool_elem read_bool_elem b"
  by (rule codecI [of _ _ "\<lambda>_. [if b then 1 else 2]"])
    (simp_all add: write_bool_elem_def read_bool_elem_def reads_u8_bind reads_return)

section \<open>Round trips of field and list headers\<close>

lemma decode_field_type_code: "decode_field_type (field_type_code t) = Ok t"
  by (cases t) (simp_all add: decode_field_type_def)

lemma field_type_code_bounds: "field_type_code t < 16" "field_type_code t \<noteq> 0"
  by (cases t; simp)+

lemma header_nibbles:
  assumes "(a :: u8) < 16"
  shows "(push_bit 4 a OR field_type_code t) AND 0x0F = field_type_code t"
    and "drop_bit 4 ((push_bit 4 a OR field_type_code t) AND 0xF0) = a"
    and "push_bit 4 a OR field_type_code t \<noteq> 0"
proof -
  show low: "(push_bit 4 a OR field_type_code t) AND 0x0F = field_type_code t"
    by (rule nibbles(1) [OF assms field_type_code_bounds(1)])
  show "drop_bit 4 ((push_bit 4 a OR field_type_code t) AND 0xF0) = a"
    by (rule nibbles(2) [OF assms field_type_code_bounds(1)])
  show "push_bit 4 a OR field_type_code t \<noteq> 0"
    using low field_type_code_bounds(2) [of t] by force
qed

lemma write_zigzag_i16_append: "write_zigzag_i16 w v = w @ write_zigzag_i16 [] v"
  by (simp add: write_zigzag_i16_def write_zigzag_i32_def Let_def write_uvarint_append [of w])

lemma write_field_header_append:
  "write_field_header w i t p = w @ write_field_header [] i t p"
  by (simp add: write_field_header_def Let_def write_zigzag_i16_append [of "w @ _"]
      write_zigzag_i16_append [of "[_]"])

lemma write_field_header_nonempty: "write_field_header [] i t p \<noteq> []"
  by (simp add: write_field_header_def Let_def write_zigzag_i16_append [of "[_]"])

lemma delta_word:
  assumes "0 < sint i - sint p" and "sint i - sint p \<le> 15"
  defines "d \<equiv> word_of_int (sint i - sint p) :: u8"
  shows "d < 16" and "d \<noteq> 0" and "add_i16 p (ucast d) = Ok (i :: i16)"
proof -
  have ud: "uint d = sint i - sint p"
    unfolding d_def uint_word_of_int_eq using assms(1,2) by (intro take_bit_int_eq_self) simp_all
  then show "d < 16" and "d \<noteq> 0"
    using assms(1,2) by (auto simp: word_less_def)
  have "unat d \<le> 15"
    using ud assms(2) by (simp add: unat_eq_nat_uint)
  then have s: "sint (ucast d :: i16) = sint i - sint p"
    using sint_ucast_nibble(1) ud by simp
  have "p + ucast d = word_of_int (sint p) + word_of_int (sint (ucast d :: i16))"
    by simp
  also have "\<dots> = word_of_int (sint i)"
    unfolding s of_int_add [symmetric] by (rule arg_cong [where f = word_of_int]) simp
  also have "\<dots> = i"
    by simp
  finally have "p + ucast d = i" .
  then show "add_i16 p (ucast d) = Ok i"
    using s sint_ge [of i] sint_lt [of i] by (simp add: add_i16_def)
qed

lemma reads_header_byte:
  assumes "h \<noteq> 0" and "h AND 0x0F = field_type_code t"
    and "reads (if drop_bit 4 (h AND 0xF0) = 0 then bind_r read_zigzag_i32 (\<lambda>z. return_r (ucast z))
                else lift_r (add_i16 p (ucast (drop_bit 4 (h AND 0xF0))))) bs i"
  shows "reads (read_field_header p) (h # bs) (Some \<lparr>fh_id = i, fh_type = t\<rparr>)"
  unfolding read_field_header_def
  using assms
  by (auto simp: Let_def decode_field_type_code
      intro!: reads_u8_bind reads_bind_lift reads_bind_return)

theorem reads_field_header:
  "reads (read_field_header p) (write_field_header [] i t p) (Some \<lparr>fh_id = i, fh_type = t\<rparr>)"
proof (cases "0 < sint i - sint p \<and> sint i - sint p \<le> 15")
  case True
  note d = delta_word [of i p, OF conjunct1 [OF True] conjunct2 [OF True]]
  show ?thesis
    using True d header_nibbles [OF d(1), of t]
    by (simp add: write_field_header_def Let_def)
      (rule reads_header_byte, simp_all add: reads_lift)
next
  case False
  have nib: "field_type_code t AND 0x0F = field_type_code t"
    "drop_bit 4 (field_type_code t AND 0xF0) = 0"
    using header_nibbles [of 0 t] by simp_all
  obtain bs where bs: "write_zigzag_i32 [] (scast i) = [] @ bs" "reads read_zigzag_i32 bs (scast i)"
    using codec_zigzag_i32 by (rule codecE)
  have i: "ucast (scast i :: i32) = i"
    by (rule bit_word_eqI) (auto simp: bit_simps)
  have "reads (bind_r read_zigzag_i32 (\<lambda>z. return_r (ucast z))) (write_zigzag_i16 [] i) i"
    using reads_bind_return [OF bs(2), of "ucast :: i32 \<Rightarrow> i16"] bs(1) i
    by (simp add: write_zigzag_i16_def)
  then have "reads (read_field_header p) (field_type_code t # write_zigzag_i16 [] i)
      (Some \<lparr>fh_id = i, fh_type = t\<rparr>)"
    by - (rule reads_header_byte [OF field_type_code_bounds(2) nib(1)], simp only: nib(2) if_True simp_thms)
  with False show ?thesis
    by (auto simp: write_field_header_def Let_def write_zigzag_i16_append [of "[_]"])
qed

lemma write_list_header_append: "write_list_header w n t = w @ write_list_header [] n t"
  by (simp add: write_list_header_def Let_def write_uvarint_append [of "w @ _"]
      write_uvarint_append [of "[_]"])

lemma list_header_long:
  "(0xF0 OR field_type_code t) AND 0x0F = field_type_code t"
  "drop_bit 4 ((0xF0 OR field_type_code t) AND 0xF0) = 0x0F"
  using header_nibbles(1,2) [of "0x0F" t] by simp_all

lemma reads_list_header:
  assumes "n < 2 ^ 64"
  shows "reads read_list_header (write_list_header [] n t) (n, t)"
proof (cases "n < 15")
  case True
  let ?n = "of_nat n :: u8"
  have n: "unat ?n = n"
    using True by (simp add: unat_of_nat take_bit_nat_eq_self)
  then have small: "?n < 16" "?n < 0x0F"
    using True by (simp_all add: word_less_nat_alt)
  show ?thesis
    using True header_nibbles [OF small(1), of t] small n
    by (auto simp: write_list_header_def read_list_header_def Let_def decode_field_type_code
        intro!: reads_u8_bind reads_bind_lift reads_bind_return [where g = "\<lambda>c. (c, t)"])
      (simp add: reads_return)
next
  case False
  have n: "unat (of_nat n :: u64) = n"
    using assms by (simp add: unat_of_nat take_bit_nat_eq_self)
  have "reads (bind_r read_uvarint (\<lambda>n. return_r (unat n))) (write_uvarint [] (of_nat n)) n"
    using reads_bind_return [OF reads_uvarint, of unat "of_nat n"] n by simp
  then show ?thesis
    using False list_header_long [of t]
    by (auto simp: write_list_header_def read_list_header_def Let_def decode_field_type_code
        write_uvarint_append [of "[_]"]
        intro!: reads_u8_bind reads_bind_lift reads_bind_return [where g = "\<lambda>c. (c, t)"])
qed

section \<open>Round trips of lists\<close>

lemma fold_o_codec:
  assumes "\<And>x. x \<in> set xs \<Longrightarrow> codec_o wr rd x" and "fold_o wr w xs = Ok w'"
  shows "\<exists>bs. w' = w @ bs \<and> reads (read_n rd (length xs)) bs xs"
  using assms
proof (induction xs arbitrary: w)
  case Nil
  then show ?case
    by (simp add: reads_return)
next
  case (Cons x xs)
  from Cons.prems(2) obtain w1 where w1: "wr w x = Ok w1" and w': "fold_o wr w1 xs = Ok w'"
    by (auto simp: bind_o_eq_Ok_iff)
  have "codec_o wr rd x"
    by (rule Cons.prems(1)) simp
  then obtain bs where bs: "w1 = w @ bs" "reads rd bs x"
    using w1 by (rule codec_oE)
  obtain cs where cs: "w' = w1 @ cs" "reads (read_n rd (length xs)) cs xs"
    using Cons.IH [OF _ w'] Cons.prems(1) by auto
  have "reads (read_n rd (length (x # xs))) (bs @ cs) (x # xs)"
    using reads_bind [OF bs(2), of "\<lambda>x. bind_r (read_n rd (length xs)) (\<lambda>xs. return_r (x # xs))"]
      reads_bind_return [OF cs(2), of "(#) x"] by simp
  with bs(1) cs(1) show ?case
    by auto
qed

lemma reads_after_list_header:
  assumes "fits xs" and "k (length xs, t) = read_n rd (length xs)"
    and "reads (read_n rd (length xs)) bs xs"
  shows "reads (bind_r read_list_header k) (write_list_header [] (length xs) t @ bs) xs"
  by (rule reads_bind [OF reads_list_header]) (use assms in \<open>simp_all add: fits_def\<close>)

lemma write_list_of_o_body:
  assumes "\<And>x. x \<in> set xs \<Longrightarrow> codec_o wr rd x" and "write_list_of_o t wr w xs = Ok w'"
  shows "\<exists>bs. w' = w @ write_list_header [] (length xs) t @ bs \<and> reads (read_n rd (length xs)) bs xs"
  using fold_o_codec [of xs wr rd "w @ write_list_header [] (length xs) t" w'] assms
  by (simp add: write_list_of_o_def write_list_header_append [of w])

lemma codec_o_list_of:
  assumes "\<And>x. x \<in> set xs \<Longrightarrow> codec_o wr rd x" and "fits xs"
  shows "codec_o (write_list_of_o t wr) (read_list_of t rd) xs"
  unfolding codec_o_def
proof (intro allI impI)
  fix w w' assume "write_list_of_o t wr w xs = Ok w'"
  from write_list_of_o_body [OF assms(1) this]
  obtain bs where "w' = w @ write_list_header [] (length xs) t @ bs"
    and "reads (read_n rd (length xs)) bs xs" by blast
  then show "\<exists>body. w' = w @ body \<and> reads (read_list_of t rd) body xs"
    using reads_after_list_header [OF assms(2), of _ t rd bs] by (auto simp: read_list_of_def)
qed

lemma fold_o_Ok: "fold_o (\<lambda>w x. Ok (wr w x)) w xs = Ok (foldl wr w xs)"
  by (induction xs arbitrary: w) auto

lemma codec_list_of:
  assumes "\<And>x. x \<in> set xs \<Longrightarrow> codec wr rd x" and "fits xs"
  shows "codec (write_list_of t wr) (read_list_of t rd) xs"
proof -
  have "codec_o (write_list_of_o t (\<lambda>w x. Ok (wr w x))) (read_list_of t rd) xs"
    using assms by (intro codec_o_list_of) (auto simp: codec_o_iff)
  then show ?thesis
    by (simp add: codec_o_def codec_def write_list_of_o_def write_list_of_def fold_o_Ok)
qed

lemma codec_lists [codec_rules]:
  "fits is \<Longrightarrow> codec write_list_i32 read_list_i32 is"
  "fits ls \<Longrightarrow> codec write_list_i64 read_list_i64 ls"
  "fits bss \<Longrightarrow> \<forall>bs \<in> set bss. fits bs \<Longrightarrow> codec write_list_binary read_list_binary bss"
  unfolding write_list_i32_def read_list_i32_def write_list_i64_def read_list_i64_def
    write_list_binary_def read_list_binary_def
  by (auto intro!: codec_list_of codec_rules)

text \<open>What every Rust \<open>Vec\<close> of elements of \<open>sz\<close> bytes satisfies: its length is a \<open>usize\<close> and it takes
  at most \<open>isize::MAX\<close> bytes.\<close>

definition fits_vec :: "nat \<Rightarrow> 'a list \<Rightarrow> bool" where
  "fits_vec sz xs \<longleftrightarrow> length xs < 2 ^ 64 \<and> length xs * sz < 2 ^ 63"

lemma fits_vec_fits: "fits_vec sz xs \<Longrightarrow> fits xs"
  by (simp add: fits_vec_def fits_def)

lemma fits_vec_reserve:
  "fits_vec sz xs \<Longrightarrow> bind_r (lift_r (reserve_o sz (length xs))) (\<lambda>_. r) = r"
  by (rule ext) (simp add: bind_r_def lift_r_def fits_vec_def reserve_o_Ok)

lemma codec_list_bool [codec_rules]:
  assumes "fits_vec 1 bs"
  shows "codec write_list_bool read_list_bool bs"
  unfolding codec_def
proof
  fix w
  have "write_list_of_o FT_BoolTrue (\<lambda>w x. Ok (write_bool_elem w x)) w bs = Ok (write_list_bool w bs)"
    by (simp add: write_list_of_o_def write_list_bool_def write_list_of_def fold_o_Ok)
  from write_list_of_o_body [OF _ this, of read_bool_elem]
  obtain cs where "write_list_bool w bs = w @ write_list_header [] (length bs) FT_BoolTrue @ cs"
    and "reads (read_n read_bool_elem (length bs)) cs bs"
    by (auto simp: codec_o_iff codec_bool_elem)
  then show "\<exists>body. write_list_bool w bs = w @ body \<and> reads read_list_bool body bs"
    using reads_after_list_header [OF fits_vec_fits [OF assms], of _ FT_BoolTrue read_bool_elem cs]
    by (auto simp: read_list_bool_def fits_vec_reserve [OF assms] fits_vec_reserve [OF assms, simplified])
qed

lemma codec_o_list_struct:
  assumes "\<And>x. x \<in> set xs \<Longrightarrow> codec_o wr rd x" and "fits_vec sz xs"
  shows "codec_o (write_list_of_o FT_Struct wr) (read_list_struct sz rd) xs"
  unfolding codec_o_def
proof (intro allI impI)
  fix w w' assume "write_list_of_o FT_Struct wr w xs = Ok w'"
  from write_list_of_o_body [OF assms(1) this]
  obtain bs where "w' = w @ write_list_header [] (length xs) FT_Struct @ bs"
    and "reads (read_n rd (length xs)) bs xs" by blast
  then show "\<exists>body. w' = w @ body \<and> reads (read_list_struct sz rd) body xs"
    using reads_after_list_header [OF fits_vec_fits [OF assms(2)], of _ FT_Struct rd bs]
    by (auto simp: read_list_struct_def fits_vec_reserve [OF assms(2)])
qed

section \<open>What a client may conclude from the contract\<close>

text \<open>
  \<open>panicking_codec\<close> is the interface of an encoder that may refuse its input; \<open>wire_codec\<close> of one that
  never does.  Everything a caller relies on follows from the one law.
\<close>

locale panicking_codec =
  fixes wr :: "writer \<Rightarrow> 'a \<Rightarrow> (format_error, writer) outcome"
    and rd :: "'a reader"
    and good :: "'a \<Rightarrow> bool"
  assumes law: "good x \<Longrightarrow> codec_o wr rd x"
begin

lemma roundtrip_whole:
  "good x \<Longrightarrow> wr [] x = Ok bs \<Longrightarrow> rd (cursor_new bs) = Ok (x, \<lparr>buf = bs, pos = length bs\<rparr>)"
  by (erule codec_oE [OF law]) (auto intro: reads_whole)

lemma unique_encoding:
  assumes "good x" and "good y" and "wr [] x = Ok bs" and "wr [] y = Ok cs" and "bs @ ps = cs @ qs"
  shows "x = y \<and> bs = cs"
  using codec_oE [OF law [OF assms(1)] assms(3)] codec_oE [OF law [OF assms(2)] assms(4)]
    reads_deterministic [OF _ _ assms(5)] by (metis append_Nil)

lemma list_law:
  "list_all good xs \<Longrightarrow> fits_vec sz xs \<Longrightarrow>
     codec_o (write_list_of_o FT_Struct wr) (read_list_struct sz rd) xs"
  by (rule codec_o_list_struct) (auto simp: list_all_iff intro: law)

end

locale wire_codec =
  fixes wr :: "writer \<Rightarrow> 'a \<Rightarrow> writer"
    and rd :: "'a reader"
    and good :: "'a \<Rightarrow> bool"
  assumes plain_law: "good x \<Longrightarrow> codec wr rd x"
begin

lemma plain_reads: "good x \<Longrightarrow> reads rd (wr [] x) x"
  using plain_law [of x] unfolding codec_def by (metis append_Nil)

lemma plain_roundtrip:
  "good x \<Longrightarrow> rd (cursor_new (wr [] x)) = Ok (x, \<lparr>buf = wr [] x, pos = length (wr [] x)\<rparr>)"
  by (rule reads_whole [OF plain_reads])

lemma plain_list_law:
  "list_all good xs \<Longrightarrow> fits_vec sz xs \<Longrightarrow>
     codec (write_list_of FT_Struct wr) (read_list_struct sz rd) xs"
  using codec_o_list_struct [of xs "\<lambda>w x. Ok (wr w x)" rd sz] plain_law
  by (simp add: codec_o_iff list_all_iff codec_o_def codec_def write_list_of_o_def
      write_list_of_def fold_o_Ok)

end

sublocale wire_codec \<subseteq> panicking_codec "\<lambda>w x. Ok (wr w x)" rd good
  by unfold_locales (simp add: codec_o_iff plain_law)

interpretation zz32: wire_codec write_zigzag_i32 read_zigzag_i32 "\<lambda>_. True"
  by unfold_locales (rule codec_rules)

interpretation zz64: wire_codec write_zigzag_i64 read_zigzag_i64 "\<lambda>_. True"
  by unfold_locales (rule codec_rules)

interpretation uv: wire_codec write_uvarint read_uvarint "\<lambda>_. True"
  by unfold_locales (rule codec_uvarint)

interpretation bin: wire_codec write_binary read_binary fits
  by unfold_locales (rule codec_rules)

end
