(* ===== verification/StructCodec.thy ===== *)
theory StructCodec
  imports CompactWriter
begin

text \<open>
  The shapes the struct writers of \<open>metadata_writer.rs\<close> are made of, and the simulation between such
  a writer and the struct loop of its reader.

  A writer threads \<open>(w, prev)\<close>: the bytes so far and the id of the field written last.  \<open>put\<close> is an
  unconditional field with the literal previous id the code passes, \<open>put_opt\<close> is \<open>if let Some(v) = \<dots>
  \{ header; body; prev = id \}\<close>, \<open>put_bool\<close> the same for a boolean carried by the header.

  \<open>sync step a0 w0 st acc\<close>: what the writer has appended to \<open>w0\<close> makes the loop with body \<open>step\<close>
  go from \<open>a0\<close> to \<open>acc\<close>.  One rule per shape; a struct's round trip is the chain of these rules.
\<close>

type_synonym wstate = "writer \<times> i16"

definition put ::
  "i16 \<Rightarrow> field_type \<Rightarrow> i16 \<Rightarrow> (writer \<Rightarrow> 'x \<Rightarrow> writer) \<Rightarrow> 'x \<Rightarrow> wstate \<Rightarrow> wstate" where
  "put i t prev wr x st = (wr (write_field_header (fst st) i t prev) x, i)"

definition put_opt ::
  "i16 \<Rightarrow> field_type \<Rightarrow> (writer \<Rightarrow> 'x \<Rightarrow> writer) \<Rightarrow> 'x option \<Rightarrow> wstate \<Rightarrow> wstate" where
  "put_opt i t wr v st =
     (case v of None \<Rightarrow> st
      | Some x \<Rightarrow> (wr (write_field_header (fst st) i t (snd st)) x, i))"

definition put_bool :: "i16 \<Rightarrow> bool option \<Rightarrow> wstate \<Rightarrow> wstate" where
  "put_bool i v st =
     (case v of None \<Rightarrow> st
      | Some b \<Rightarrow>
          (write_field_header (fst st) i (if b then FT_BoolTrue else FT_BoolFalse) (snd st), i))"

definition put_o ::
  "i16 \<Rightarrow> field_type \<Rightarrow> i16 \<Rightarrow> (writer \<Rightarrow> 'x \<Rightarrow> ('e, writer) outcome) \<Rightarrow> 'x \<Rightarrow> wstate
     \<Rightarrow> ('e, wstate) outcome" where
  "put_o i t prev wr x st =
     bind_o (wr (write_field_header (fst st) i t prev) x) (\<lambda>w. Ok (w, i))"

definition put_opt_o ::
  "i16 \<Rightarrow> field_type \<Rightarrow> (writer \<Rightarrow> 'x \<Rightarrow> ('e, writer) outcome) \<Rightarrow> 'x option \<Rightarrow> wstate
     \<Rightarrow> ('e, wstate) outcome" where
  "put_opt_o i t wr v st =
     (case v of None \<Rightarrow> Ok st
      | Some x \<Rightarrow> bind_o (wr (write_field_header (fst st) i t (snd st)) x) (\<lambda>w. Ok (w, i)))"

text \<open>\<open>if field.is_some() \{ panic!(msg) \}\<close>.\<close>

definition refuse :: "'x option \<Rightarrow> string \<Rightarrow> wstate \<Rightarrow> ('e, wstate) outcome" where
  "refuse v msg st = (if v \<noteq> None then Panic msg else Ok st)"

text \<open>The closing \<open>w.write_field_stop()\<close>.\<close>

definition finish :: "wstate \<Rightarrow> writer" where
  "finish st = write_field_stop (fst st)"

section \<open>The simulation\<close>

definition sync ::
  "(field_header \<Rightarrow> 'a \<Rightarrow> 'a reader) \<Rightarrow> 'a \<Rightarrow> writer \<Rightarrow> wstate \<Rightarrow> 'a \<Rightarrow> bool" where
  "sync step a0 w0 st acc \<longleftrightarrow>
     (\<exists>bs. fst st = w0 @ bs \<and> fields_run step 0 a0 bs (snd st) acc)"

definition sync_o ::
  "(field_header \<Rightarrow> 'a \<Rightarrow> 'a reader) \<Rightarrow> 'a \<Rightarrow> writer \<Rightarrow> (format_error, wstate) outcome \<Rightarrow> 'a \<Rightarrow> bool" where
  "sync_o step a0 w0 m acc \<longleftrightarrow> (\<forall>st. m = Ok st \<longrightarrow> sync step a0 w0 st acc)"

lemma snd_put [simp]: "snd (put i t p wr x st) = i"
  by (simp add: put_def)

lemma sync_start: "sync step a0 w (w, 0) a0"
  by (simp add: sync_def fields_run_refl)

text \<open>One field, whatever its body: the base of the rules below.\<close>

lemma sync_field:
  assumes "sync step a0 w0 st acc"
    and "w' = write_field_header (fst st) i t (snd st) @ body"
    and "reads (step \<lparr>fh_id = i, fh_type = t\<rparr> acc) body acc'"
  shows "sync step a0 w0 (w', i) acc'"
proof -
  obtain bs where bs: "fst st = w0 @ bs" "fields_run step 0 a0 bs (snd st) acc"
    using assms(1) unfolding sync_def by blast
  let ?hb = "write_field_header [] i t (snd st)"
  have "fields_run step (snd st) acc (?hb @ body) i acc'"
    using fields_run_field [OF reads_field_header write_field_header_nonempty, of step] assms(3)
    by fastforce
  from fields_run_trans [OF bs(2) this] bs(1) assms(2) show ?thesis
    by (auto simp: sync_def write_field_header_append [of "w0 @ bs"])
qed

lemma reads_set_some: "reads rd body x \<Longrightarrow> reads (set_some rd upd acc) body (upd (\<lambda>_. Some x) acc)"
  unfolding set_some_def by (rule reads_bind_return)

lemma sync_put:
  assumes "sync step a0 w0 st acc" and "snd st = p"
    and "\<And>a. step \<lparr>fh_id = i, fh_type = t\<rparr> a = set_some rd upd a"
    and "codec wr rd x"
  shows "sync step a0 w0 (put i t p wr x st) (upd (\<lambda>_. Some x) acc)"
proof -
  obtain body where "wr (write_field_header (fst st) i t p) x = write_field_header (fst st) i t p @ body"
    and "reads rd body x"
    using assms(4) by (rule codecE)
  then show ?thesis
    unfolding put_def using assms(1-3) by (intro sync_field) (auto intro: reads_set_some)
qed

lemma sync_put_opt:
  assumes "sync step a0 w0 st acc"
    and "\<And>a. step \<lparr>fh_id = i, fh_type = t\<rparr> a = set_some rd upd a"
    and "upd (\<lambda>_. None) acc = acc"
    and "\<And>x. v = Some x \<Longrightarrow> codec wr rd x"
  shows "sync step a0 w0 (put_opt i t wr v st) (upd (\<lambda>_. v) acc)"
proof (cases v)
  case None
  with assms(1,3) show ?thesis
    by (simp add: put_opt_def)
next
  case (Some x)
  then have "sync step a0 w0 (put i t (snd st) wr x st) (upd (\<lambda>_. Some x) acc)"
    using assms(1,2,4) by (intro sync_put) auto
  with Some show ?thesis
    by (simp add: put_opt_def put_def)
qed

lemma sync_put_bool:
  assumes "sync step a0 w0 st acc"
    and "\<And>a. step \<lparr>fh_id = i, fh_type = FT_BoolTrue\<rparr> a = set_flag True upd a"
    and "\<And>a. step \<lparr>fh_id = i, fh_type = FT_BoolFalse\<rparr> a = set_flag False upd a"
    and "upd (\<lambda>_. None) acc = acc"
  shows "sync step a0 w0 (put_bool i v st) (upd (\<lambda>_. v) acc)"
proof (cases v)
  case None
  with assms(1,4) show ?thesis
    by (simp add: put_bool_def)
next
  case (Some b)
  have "reads (step \<lparr>fh_id = i, fh_type = if b then FT_BoolTrue else FT_BoolFalse\<rparr> acc) []
      (upd (\<lambda>_. Some b) acc)"
    using assms(2,3) by (cases b) (simp_all add: set_flag_def reads_return)
  from sync_field [OF assms(1) _ this] Some show ?thesis
    by (simp add: put_bool_def)
qed

lemma sync_o_Ok: "sync step a0 w0 st acc \<Longrightarrow> sync_o step a0 w0 (Ok st) acc"
  by (simp add: sync_o_def)

lemma sync_o_bind:
  assumes "sync_o step a0 w0 m acc"
    and "\<And>st. sync step a0 w0 st acc \<Longrightarrow> sync_o step a0 w0 (f st) acc'"
  shows "sync_o step a0 w0 (bind_o m f) acc'"
  using assms by (auto simp: sync_o_def bind_o_eq_Ok_iff)

lemma sync_o_refuse: "sync step a0 w0 st acc \<Longrightarrow> sync_o step a0 w0 (refuse v msg st) acc"
  by (auto simp: sync_o_def refuse_def)

lemma sync_put_o:
  assumes "sync step a0 w0 st acc" and "snd st = p"
    and "\<And>a. step \<lparr>fh_id = i, fh_type = t\<rparr> a = set_some rd upd a"
    and "codec_o wr rd x"
  shows "sync_o step a0 w0 (put_o i t p wr x st) (upd (\<lambda>_. Some x) acc)"
  unfolding sync_o_def
proof (intro allI impI)
  fix st' assume "put_o i t p wr x st = Ok st'"
  then obtain w' where w': "wr (write_field_header (fst st) i t p) x = Ok w'" and st': "st' = (w', i)"
    by (auto simp: put_o_def bind_o_eq_Ok_iff)
  from assms(4) w' obtain body where "w' = write_field_header (fst st) i t p @ body"
    and "reads rd body x" by (rule codec_oE)
  then show "sync step a0 w0 st' (upd (\<lambda>_. Some x) acc)"
    unfolding st' using assms(1-3) by (intro sync_field) (auto intro: reads_set_some)
qed

lemma sync_put_opt_o:
  assumes "sync step a0 w0 st acc"
    and "\<And>a. step \<lparr>fh_id = i, fh_type = t\<rparr> a = set_some rd upd a"
    and "upd (\<lambda>_. None) acc = acc"
    and "\<And>x. v = Some x \<Longrightarrow> codec_o wr rd x"
  shows "sync_o step a0 w0 (put_opt_o i t wr v st) (upd (\<lambda>_. v) acc)"
proof (cases v)
  case None
  with assms(1,3) show ?thesis
    by (simp add: put_opt_o_def sync_o_Ok)
next
  case (Some x)
  then have "sync_o step a0 w0 (put_o i t (snd st) wr x st) (upd (\<lambda>_. Some x) acc)"
    using assms(1,2,4) by (intro sync_put_o) auto
  with Some show ?thesis
    by (simp add: put_opt_o_def put_o_def)
qed

text \<open>
  From the simulation of the fields to the contract of the struct: the loop, the closing stop byte,
  and the construction of the value from the locals.
\<close>

lemma codec_struct:
  assumes "\<And>w. wr w x = finish (st w)"
    and "\<And>w. sync step a0 w (st w) acc"
    and "fin acc = return_r x"
  shows "codec wr (bind_r (read_fields step 0 a0) fin) x"
  unfolding codec_def
proof
  fix w
  obtain bs where bs: "fst (st w) = w @ bs" "fields_run step 0 a0 bs (snd (st w)) acc"
    using assms(2) [of w] unfolding sync_def by blast
  have "reads (bind_r (read_fields step 0 a0) fin) ((bs @ [0]) @ []) x"
    by (rule reads_bind [OF fields_run_stop [OF bs(2)]]) (simp add: assms(3) reads_return)
  with bs(1) show "\<exists>body. wr w x = w @ body \<and> reads (bind_r (read_fields step 0 a0) fin) body x"
    by (auto simp: assms(1) finish_def write_field_stop_def)
qed

lemma codec_struct_o:
  assumes "\<And>w. wr w x = bind_o (m w) (\<lambda>st. Ok (finish st))"
    and "\<And>w. sync_o step a0 w (m w) acc"
    and "\<And>w w'. wr w x = Ok w' \<Longrightarrow> fin acc = return_r x"
  shows "codec_o wr (bind_r (read_fields step 0 a0) fin) x"
  unfolding codec_o_def
proof (intro allI impI)
  fix w w' assume wr: "wr w x = Ok w'"
  then obtain st where "m w = Ok st" and w': "w' = finish st"
    by (auto simp: assms(1) bind_o_eq_Ok_iff)
  then have sync: "sync step a0 w st acc"
    using assms(2) [of w] by (simp add: sync_o_def)
  have "codec (\<lambda>w'' _. if w'' = w then finish st else finish st) (bind_r (read_fields step 0 a0) fin) x
    \<or> True" by simp
  obtain bs where bs: "fst st = w @ bs" "fields_run step 0 a0 bs (snd st) acc"
    using sync unfolding sync_def by blast
  have "reads (bind_r (read_fields step 0 a0) fin) ((bs @ [0]) @ []) x"
    by (rule reads_bind [OF fields_run_stop [OF bs(2)]]) (simp add: assms(3) [OF wr] reads_return)
  with bs(1) show "\<exists>body. w' = w @ body \<and> reads (bind_r (read_fields step 0 a0) fin) body x"
    by (auto simp: w' finish_def write_field_stop_def)
qed

lemma required_Some [simp]: "required (Some v) e k = k v"
  by (simp add: required_def)

lemmas sync_rules = sync_start sync_put sync_put_opt sync_put_bool
lemmas sync_o_rules = sync_o_bind sync_o_Ok sync_o_refuse sync_put_o sync_put_opt_o

end
