(* ===== verification/ThriftEnums.thy ===== *)
theory ThriftEnums
  imports StructCodec
begin

text \<open>
  The i32-valued enums of \<open>ematix-parquet-format/src/types.rs\<close>.  The macro \<open>thrift_enum!\<close> takes a list of
  variants with their discriminants and makes the enum, its \<open>as i32\<close> cast and \<open>from_i32\<close>; here the
  enum is a datatype, the cast a function \<open>\<dots>_code\<close>, and \<open>from_i32\<close> the lookup in the macro's list.
  The locale \<open>thrift_enum\<close> states what the list must satisfy; each enum is an interpretation of it.
\<close>

section \<open>The macro\<close>

definition thrift_from_i32 :: "string \<Rightarrow> (int \<times> 'a) list \<Rightarrow> i32 \<Rightarrow> (format_error, 'a) outcome" where
  "thrift_from_i32 type_name variants v =
     (case map_of variants (sint v) of
        Some x \<Rightarrow> Ok x
      | None \<Rightarrow> Err (InvalidEnumValue type_name v))"

definition read_enum :: "string \<Rightarrow> (int \<times> 'a) list \<Rightarrow> 'a reader" where
  "read_enum type_name variants =
     bind_r read_zigzag_i32 (\<lambda>v. lift_r (thrift_from_i32 type_name variants v))"

text \<open>\<open>w.write_zigzag_i32(x as i32)\<close>, as the struct writers write an enum.\<close>

definition write_enum :: "('a \<Rightarrow> i32) \<Rightarrow> writer \<Rightarrow> 'a \<Rightarrow> writer" where
  "write_enum code w x = write_zigzag_i32 w (code x)"

lemma safe_read_enum [safe_rules]: "safe (read_enum name variants)"
  unfolding read_enum_def
  by (intro safe_bind safe_rules safe_lift) (auto simp: thrift_from_i32_def split: option.splits)

locale thrift_enum =
  fixes type_name :: string
    and variants :: "(int \<times> 'a) list"
    and code :: "'a \<Rightarrow> i32"
  assumes listed: "map_of variants (sint (code x)) = Some x"
    and discriminants: "(k, x) \<in> set variants \<Longrightarrow> sint (code x) = k"
begin

lemma from_code: "thrift_from_i32 type_name variants (code x) = Ok x"
  by (simp add: thrift_from_i32_def listed)

lemma from_i32_Ok_iff: "thrift_from_i32 type_name variants v = Ok x \<longleftrightarrow> v = code x"
proof
  assume "thrift_from_i32 type_name variants v = Ok x"
  then have "(sint v, x) \<in> set variants"
    by (auto simp: thrift_from_i32_def split: option.splits dest: map_of_SomeD)
  then have "sint (code x) = sint v"
    by (rule discriminants)
  then have "word_of_int (sint (code x)) = (word_of_int (sint v) :: i32)"
    by (rule arg_cong)
  then show "v = code x"
    by simp
qed (simp add: from_code)

lemma from_i32_Err_iff:
  "thrift_from_i32 type_name variants v = Err e \<longleftrightarrow>
     v \<notin> range code \<and> e = InvalidEnumValue type_name v"
proof (cases "thrift_from_i32 type_name variants v")
  case (Ok x)
  then show ?thesis
    by (auto simp: from_i32_Ok_iff from_code)
next
  case (Err e')
  then have "v \<noteq> code x" for x
    using from_code [of x] by (metis outcome.distinct(1))
  with Err show ?thesis
    by (auto simp: thrift_from_i32_def split: option.splits)
qed (auto simp: thrift_from_i32_def split: option.splits)

lemma codec_enum: "codec (write_enum code) (read_enum type_name variants) x"
  unfolding codec_def
proof
  fix w
  obtain body where w: "write_zigzag_i32 w (code x) = w @ body"
    and body: "reads read_zigzag_i32 body (code x)"
    using codec_zigzag_i32 by (rule codecE)
  have "reads (read_enum type_name variants) (body @ []) x"
    unfolding read_enum_def by (rule reads_bind [OF body], rule reads_lift [OF from_code])
  with w show "\<exists>body. write_enum code w x = w @ body \<and> reads (read_enum type_name variants) body x"
    by (auto simp: write_enum_def)
qed

end

sublocale thrift_enum \<subseteq> wire_codec "write_enum code" "read_enum type_name variants" "\<lambda>_. True"
  by unfold_locales (rule codec_enum)

section \<open>The enums\<close>

datatype parquet_type =
  PT_Boolean | PT_Int32 | PT_Int64 | PT_Int96 | PT_Float | PT_Double | PT_ByteArray |
  PT_FixedLenByteArray

fun parquet_type_code :: "parquet_type \<Rightarrow> i32" where
  "parquet_type_code PT_Boolean = 0"
| "parquet_type_code PT_Int32 = 1"
| "parquet_type_code PT_Int64 = 2"
| "parquet_type_code PT_Int96 = 3"
| "parquet_type_code PT_Float = 4"
| "parquet_type_code PT_Double = 5"
| "parquet_type_code PT_ByteArray = 6"
| "parquet_type_code PT_FixedLenByteArray = 7"

definition parquet_type_variants :: "(int \<times> parquet_type) list" where
  "parquet_type_variants =
     [(0, PT_Boolean), (1, PT_Int32), (2, PT_Int64), (3, PT_Int96), (4, PT_Float), (5,
      PT_Double), (6, PT_ByteArray), (7, PT_FixedLenByteArray)]"

definition parquet_type_from_i32 :: "i32 \<Rightarrow> (format_error, parquet_type) outcome" where
  "parquet_type_from_i32 = thrift_from_i32 ''ParquetType'' parquet_type_variants"

definition read_parquet_type :: "parquet_type reader" where
  "read_parquet_type = read_enum ''ParquetType'' parquet_type_variants"

interpretation parquet_type_enum: thrift_enum "''ParquetType''" parquet_type_variants parquet_type_code
proof
  show "map_of parquet_type_variants (sint (parquet_type_code x)) = Some x" for x
    by (cases x) (simp_all add: parquet_type_variants_def)
  show "(k, x) \<in> set parquet_type_variants \<Longrightarrow> sint (parquet_type_code x) = k" for k x
    by (auto simp: parquet_type_variants_def)
qed

lemma codec_parquet_type [codec_rules]: "codec (write_enum parquet_type_code) read_parquet_type x"
  unfolding read_parquet_type_def by (rule parquet_type_enum.codec_enum)

lemma safe_read_parquet_type [safe_rules]: "safe read_parquet_type"
  unfolding read_parquet_type_def by (rule safe_read_enum)

datatype encoding =
  E_Plain | E_PlainDictionary | E_Rle | E_BitPacked | E_DeltaBinaryPacked |
  E_DeltaLengthByteArray | E_DeltaByteArray | E_RleDictionary | E_ByteStreamSplit

fun encoding_code :: "encoding \<Rightarrow> i32" where
  "encoding_code E_Plain = 0"
| "encoding_code E_PlainDictionary = 2"
| "encoding_code E_Rle = 3"
| "encoding_code E_BitPacked = 4"
| "encoding_code E_DeltaBinaryPacked = 5"
| "encoding_code E_DeltaLengthByteArray = 6"
| "encoding_code E_DeltaByteArray = 7"
| "encoding_code E_RleDictionary = 8"
| "encoding_code E_ByteStreamSplit = 9"

definition encoding_variants :: "(int \<times> encoding) list" where
  "encoding_variants =
     [(0, E_Plain), (2, E_PlainDictionary), (3, E_Rle), (4, E_BitPacked), (5,
      E_DeltaBinaryPacked), (6, E_DeltaLengthByteArray), (7, E_DeltaByteArray), (8,
      E_RleDictionary), (9, E_ByteStreamSplit)]"

definition encoding_from_i32 :: "i32 \<Rightarrow> (format_error, encoding) outcome" where
  "encoding_from_i32 = thrift_from_i32 ''Encoding'' encoding_variants"

definition read_encoding :: "encoding reader" where
  "read_encoding = read_enum ''Encoding'' encoding_variants"

interpretation encoding_enum: thrift_enum "''Encoding''" encoding_variants encoding_code
proof
  show "map_of encoding_variants (sint (encoding_code x)) = Some x" for x
    by (cases x) (simp_all add: encoding_variants_def)
  show "(k, x) \<in> set encoding_variants \<Longrightarrow> sint (encoding_code x) = k" for k x
    by (auto simp: encoding_variants_def)
qed

lemma codec_encoding [codec_rules]: "codec (write_enum encoding_code) read_encoding x"
  unfolding read_encoding_def by (rule encoding_enum.codec_enum)

lemma safe_read_encoding [safe_rules]: "safe read_encoding"
  unfolding read_encoding_def by (rule safe_read_enum)

datatype compression_codec =
  CC_Uncompressed | CC_Snappy | CC_Gzip | CC_Lzo | CC_Brotli | CC_Lz4 | CC_Zstd | CC_Lz4Raw

fun compression_codec_code :: "compression_codec \<Rightarrow> i32" where
  "compression_codec_code CC_Uncompressed = 0"
| "compression_codec_code CC_Snappy = 1"
| "compression_codec_code CC_Gzip = 2"
| "compression_codec_code CC_Lzo = 3"
| "compression_codec_code CC_Brotli = 4"
| "compression_codec_code CC_Lz4 = 5"
| "compression_codec_code CC_Zstd = 6"
| "compression_codec_code CC_Lz4Raw = 7"

definition compression_codec_variants :: "(int \<times> compression_codec) list" where
  "compression_codec_variants =
     [(0, CC_Uncompressed), (1, CC_Snappy), (2, CC_Gzip), (3, CC_Lzo), (4, CC_Brotli), (5,
      CC_Lz4), (6, CC_Zstd), (7, CC_Lz4Raw)]"

definition compression_codec_from_i32 :: "i32 \<Rightarrow> (format_error, compression_codec) outcome" where
  "compression_codec_from_i32 = thrift_from_i32 ''CompressionCodec'' compression_codec_variants"

definition read_compression_codec :: "compression_codec reader" where
  "read_compression_codec = read_enum ''CompressionCodec'' compression_codec_variants"

interpretation compression_codec_enum: thrift_enum "''CompressionCodec''" compression_codec_variants compression_codec_code
proof
  show "map_of compression_codec_variants (sint (compression_codec_code x)) = Some x" for x
    by (cases x) (simp_all add: compression_codec_variants_def)
  show "(k, x) \<in> set compression_codec_variants \<Longrightarrow> sint (compression_codec_code x) = k" for k x
    by (auto simp: compression_codec_variants_def)
qed

lemma codec_compression_codec [codec_rules]: "codec (write_enum compression_codec_code) read_compression_codec x"
  unfolding read_compression_codec_def by (rule compression_codec_enum.codec_enum)

lemma safe_read_compression_codec [safe_rules]: "safe read_compression_codec"
  unfolding read_compression_codec_def by (rule safe_read_enum)

datatype page_type =
  PG_DataPage | PG_IndexPage | PG_DictionaryPage | PG_DataPageV2

fun page_type_code :: "page_type \<Rightarrow> i32" where
  "page_type_code PG_DataPage = 0"
| "page_type_code PG_IndexPage = 1"
| "page_type_code PG_DictionaryPage = 2"
| "page_type_code PG_DataPageV2 = 3"

definition page_type_variants :: "(int \<times> page_type) list" where
  "page_type_variants =
     [(0, PG_DataPage), (1, PG_IndexPage), (2, PG_DictionaryPage), (3, PG_DataPageV2)]"

definition page_type_from_i32 :: "i32 \<Rightarrow> (format_error, page_type) outcome" where
  "page_type_from_i32 = thrift_from_i32 ''PageType'' page_type_variants"

definition read_page_type :: "page_type reader" where
  "read_page_type = read_enum ''PageType'' page_type_variants"

interpretation page_type_enum: thrift_enum "''PageType''" page_type_variants page_type_code
proof
  show "map_of page_type_variants (sint (page_type_code x)) = Some x" for x
    by (cases x) (simp_all add: page_type_variants_def)
  show "(k, x) \<in> set page_type_variants \<Longrightarrow> sint (page_type_code x) = k" for k x
    by (auto simp: page_type_variants_def)
qed

lemma codec_page_type [codec_rules]: "codec (write_enum page_type_code) read_page_type x"
  unfolding read_page_type_def by (rule page_type_enum.codec_enum)

lemma safe_read_page_type [safe_rules]: "safe read_page_type"
  unfolding read_page_type_def by (rule safe_read_enum)

datatype field_repetition_type =
  FR_Required | FR_Optional | FR_Repeated

fun field_repetition_type_code :: "field_repetition_type \<Rightarrow> i32" where
  "field_repetition_type_code FR_Required = 0"
| "field_repetition_type_code FR_Optional = 1"
| "field_repetition_type_code FR_Repeated = 2"

definition field_repetition_type_variants :: "(int \<times> field_repetition_type) list" where
  "field_repetition_type_variants =
     [(0, FR_Required), (1, FR_Optional), (2, FR_Repeated)]"

definition field_repetition_type_from_i32 :: "i32 \<Rightarrow> (format_error, field_repetition_type) outcome" where
  "field_repetition_type_from_i32 = thrift_from_i32 ''FieldRepetitionType'' field_repetition_type_variants"

definition read_field_repetition_type :: "field_repetition_type reader" where
  "read_field_repetition_type = read_enum ''FieldRepetitionType'' field_repetition_type_variants"

interpretation field_repetition_type_enum: thrift_enum "''FieldRepetitionType''" field_repetition_type_variants field_repetition_type_code
proof
  show "map_of field_repetition_type_variants (sint (field_repetition_type_code x)) = Some x" for x
    by (cases x) (simp_all add: field_repetition_type_variants_def)
  show "(k, x) \<in> set field_repetition_type_variants \<Longrightarrow> sint (field_repetition_type_code x) = k" for k x
    by (auto simp: field_repetition_type_variants_def)
qed

lemma codec_field_repetition_type [codec_rules]: "codec (write_enum field_repetition_type_code) read_field_repetition_type x"
  unfolding read_field_repetition_type_def by (rule field_repetition_type_enum.codec_enum)

lemma safe_read_field_repetition_type [safe_rules]: "safe read_field_repetition_type"
  unfolding read_field_repetition_type_def by (rule safe_read_enum)

datatype boundary_order =
  BO_Unordered | BO_Ascending | BO_Descending

fun boundary_order_code :: "boundary_order \<Rightarrow> i32" where
  "boundary_order_code BO_Unordered = 0"
| "boundary_order_code BO_Ascending = 1"
| "boundary_order_code BO_Descending = 2"

definition boundary_order_variants :: "(int \<times> boundary_order) list" where
  "boundary_order_variants =
     [(0, BO_Unordered), (1, BO_Ascending), (2, BO_Descending)]"

definition boundary_order_from_i32 :: "i32 \<Rightarrow> (format_error, boundary_order) outcome" where
  "boundary_order_from_i32 = thrift_from_i32 ''BoundaryOrder'' boundary_order_variants"

definition read_boundary_order :: "boundary_order reader" where
  "read_boundary_order = read_enum ''BoundaryOrder'' boundary_order_variants"

interpretation boundary_order_enum: thrift_enum "''BoundaryOrder''" boundary_order_variants boundary_order_code
proof
  show "map_of boundary_order_variants (sint (boundary_order_code x)) = Some x" for x
    by (cases x) (simp_all add: boundary_order_variants_def)
  show "(k, x) \<in> set boundary_order_variants \<Longrightarrow> sint (boundary_order_code x) = k" for k x
    by (auto simp: boundary_order_variants_def)
qed

lemma codec_boundary_order [codec_rules]: "codec (write_enum boundary_order_code) read_boundary_order x"
  unfolding read_boundary_order_def by (rule boundary_order_enum.codec_enum)

lemma safe_read_boundary_order [safe_rules]: "safe read_boundary_order"
  unfolding read_boundary_order_def by (rule safe_read_enum)

datatype edge_interpolation_algorithm =
  EI_Spherical | EI_Vincenty | EI_Thomas | EI_Andoyer | EI_Karney

fun edge_interpolation_algorithm_code :: "edge_interpolation_algorithm \<Rightarrow> i32" where
  "edge_interpolation_algorithm_code EI_Spherical = 0"
| "edge_interpolation_algorithm_code EI_Vincenty = 1"
| "edge_interpolation_algorithm_code EI_Thomas = 2"
| "edge_interpolation_algorithm_code EI_Andoyer = 3"
| "edge_interpolation_algorithm_code EI_Karney = 4"

definition edge_interpolation_algorithm_variants :: "(int \<times> edge_interpolation_algorithm) list" where
  "edge_interpolation_algorithm_variants =
     [(0, EI_Spherical), (1, EI_Vincenty), (2, EI_Thomas), (3, EI_Andoyer), (4, EI_Karney)]"

definition edge_interpolation_algorithm_from_i32 :: "i32 \<Rightarrow> (format_error, edge_interpolation_algorithm) outcome" where
  "edge_interpolation_algorithm_from_i32 = thrift_from_i32 ''EdgeInterpolationAlgorithm'' edge_interpolation_algorithm_variants"

definition read_edge_interpolation_algorithm :: "edge_interpolation_algorithm reader" where
  "read_edge_interpolation_algorithm = read_enum ''EdgeInterpolationAlgorithm'' edge_interpolation_algorithm_variants"

interpretation edge_interpolation_algorithm_enum: thrift_enum "''EdgeInterpolationAlgorithm''" edge_interpolation_algorithm_variants edge_interpolation_algorithm_code
proof
  show "map_of edge_interpolation_algorithm_variants (sint (edge_interpolation_algorithm_code x)) = Some x" for x
    by (cases x) (simp_all add: edge_interpolation_algorithm_variants_def)
  show "(k, x) \<in> set edge_interpolation_algorithm_variants \<Longrightarrow> sint (edge_interpolation_algorithm_code x) = k" for k x
    by (auto simp: edge_interpolation_algorithm_variants_def)
qed

lemma codec_edge_interpolation_algorithm [codec_rules]: "codec (write_enum edge_interpolation_algorithm_code) read_edge_interpolation_algorithm x"
  unfolding read_edge_interpolation_algorithm_def by (rule edge_interpolation_algorithm_enum.codec_enum)

lemma safe_read_edge_interpolation_algorithm [safe_rules]: "safe read_edge_interpolation_algorithm"
  unfolding read_edge_interpolation_algorithm_def by (rule safe_read_enum)

datatype converted_type =
  CT_Utf8 | CT_Map | CT_MapKeyValue | CT_List | CT_Enum | CT_Decimal | CT_Date | CT_TimeMillis |
  CT_TimeMicros | CT_TimestampMillis | CT_TimestampMicros | CT_Uint8 | CT_Uint16 | CT_Uint32 |
  CT_Uint64 | CT_Int8 | CT_Int16 | CT_Int32 | CT_Int64 | CT_Json | CT_Bson | CT_Interval

fun converted_type_code :: "converted_type \<Rightarrow> i32" where
  "converted_type_code CT_Utf8 = 0"
| "converted_type_code CT_Map = 1"
| "converted_type_code CT_MapKeyValue = 2"
| "converted_type_code CT_List = 3"
| "converted_type_code CT_Enum = 4"
| "converted_type_code CT_Decimal = 5"
| "converted_type_code CT_Date = 6"
| "converted_type_code CT_TimeMillis = 7"
| "converted_type_code CT_TimeMicros = 8"
| "converted_type_code CT_TimestampMillis = 9"
| "converted_type_code CT_TimestampMicros = 10"
| "converted_type_code CT_Uint8 = 11"
| "converted_type_code CT_Uint16 = 12"
| "converted_type_code CT_Uint32 = 13"
| "converted_type_code CT_Uint64 = 14"
| "converted_type_code CT_Int8 = 15"
| "converted_type_code CT_Int16 = 16"
| "converted_type_code CT_Int32 = 17"
| "converted_type_code CT_Int64 = 18"
| "converted_type_code CT_Json = 19"
| "converted_type_code CT_Bson = 20"
| "converted_type_code CT_Interval = 21"

definition converted_type_variants :: "(int \<times> converted_type) list" where
  "converted_type_variants =
     [(0, CT_Utf8), (1, CT_Map), (2, CT_MapKeyValue), (3, CT_List), (4, CT_Enum), (5,
      CT_Decimal), (6, CT_Date), (7, CT_TimeMillis), (8, CT_TimeMicros), (9,
      CT_TimestampMillis), (10, CT_TimestampMicros), (11, CT_Uint8), (12, CT_Uint16), (13,
      CT_Uint32), (14, CT_Uint64), (15, CT_Int8), (16, CT_Int16), (17, CT_Int32), (18,
      CT_Int64), (19, CT_Json), (20, CT_Bson), (21, CT_Interval)]"

definition converted_type_from_i32 :: "i32 \<Rightarrow> (format_error, converted_type) outcome" where
  "converted_type_from_i32 = thrift_from_i32 ''ConvertedType'' converted_type_variants"

definition read_converted_type :: "converted_type reader" where
  "read_converted_type = read_enum ''ConvertedType'' converted_type_variants"

interpretation converted_type_enum: thrift_enum "''ConvertedType''" converted_type_variants converted_type_code
proof
  show "map_of converted_type_variants (sint (converted_type_code x)) = Some x" for x
    by (cases x) (simp_all add: converted_type_variants_def)
  show "(k, x) \<in> set converted_type_variants \<Longrightarrow> sint (converted_type_code x) = k" for k x
    by (auto simp: converted_type_variants_def)
qed

lemma codec_converted_type [codec_rules]: "codec (write_enum converted_type_code) read_converted_type x"
  unfolding read_converted_type_def by (rule converted_type_enum.codec_enum)

lemma safe_read_converted_type [safe_rules]: "safe read_converted_type"
  unfolding read_converted_type_def by (rule safe_read_enum)

definition boundary_order_default :: boundary_order where
  "boundary_order_default = BO_Unordered"

end
