(* ===== verification/MetadataTypes.thy ===== *)
theory MetadataTypes
  imports ThriftEnums
begin

text \<open>
  The metadata structs and unions of \<open>ematix-parquet-format/src/metadata.rs\<close>, one record or datatype
  each, with the source's fields in the source's order.  A field carries its struct's two-letter
  prefix because record fields are global constants.  Borrowed slices are byte lists.
\<close>

section \<open>Logical types\<close>

datatype time_unit = TU_Millis | TU_Micros | TU_Nanos

record decimal_type =
  dt_scale :: i32
  dt_precision :: i32

record int_type =
  it_bit_width :: i8
  it_is_signed :: bool

record timestamp_type =
  ts_is_adjusted_to_utc :: bool
  ts_unit :: time_unit

record time_type =
  tt_is_adjusted_to_utc :: bool
  tt_unit :: time_unit

record variant_type =
  vt_specification_version :: "i8 option"

record geometry_type =
  gm_crs :: "bytes option"

record geography_type =
  gg_crs :: "bytes option"
  gg_algorithm :: "edge_interpolation_algorithm option"

datatype logical_type =
    LT_String | LT_Map | LT_List | LT_Enum
  | LT_Decimal decimal_type
  | LT_Date
  | LT_Time time_type
  | LT_Timestamp timestamp_type
  | LT_Integer int_type
  | LT_Null | LT_Json | LT_Bson | LT_Uuid | LT_Float16
  | LT_Variant variant_type
  | LT_Geometry geometry_type
  | LT_Geography geography_type

section \<open>Schema, statistics, page headers\<close>

record schema_element =
  se_column_type :: "parquet_type option"
  se_type_length :: "i32 option"
  se_repetition_type :: "field_repetition_type option"
  se_name :: bytes
  se_num_children :: "i32 option"
  se_converted_type :: "converted_type option"
  se_scale :: "i32 option"
  se_precision :: "i32 option"
  se_field_id :: "i32 option"
  se_logical_type :: "logical_type option"

record statistics =
  st_max :: "bytes option"
  st_min :: "bytes option"
  st_null_count :: "i64 option"
  st_distinct_count :: "i64 option"
  st_max_value :: "bytes option"
  st_min_value :: "bytes option"
  st_is_max_value_exact :: "bool option"
  st_is_min_value_exact :: "bool option"

record key_value =
  kv_key :: bytes
  kv_value :: "bytes option"

record data_page_header =
  dh_num_values :: i32
  dh_encoding :: encoding
  dh_definition_level_encoding :: encoding
  dh_repetition_level_encoding :: encoding
  dh_statistics :: "statistics option"

datatype index_page_header = IndexPageHeader

record dictionary_page_header =
  di_num_values :: i32
  di_encoding :: encoding
  di_is_sorted :: "bool option"

record data_page_header_v2 =
  d2_num_values :: i32
  d2_num_nulls :: i32
  d2_num_rows :: i32
  d2_encoding :: encoding
  d2_definition_levels_byte_length :: i32
  d2_repetition_levels_byte_length :: i32
  d2_is_compressed :: bool
  d2_statistics :: "statistics option"

record page_header =
  ph_page_type :: page_type
  ph_uncompressed_page_size :: i32
  ph_compressed_page_size :: i32
  ph_crc :: "i32 option"
  ph_data_page_header :: "data_page_header option"
  ph_index_page_header :: "index_page_header option"
  ph_dictionary_page_header :: "dictionary_page_header option"
  ph_data_page_header_v2 :: "data_page_header_v2 option"

section \<open>Page index and bloom filter headers\<close>

record page_location =
  pl_offset :: i64
  pl_compressed_page_size :: i32
  pl_first_row_index :: i64

record offset_index =
  oi_page_locations :: "page_location list"
  oi_unencoded_byte_array_data_bytes :: "i64 list option"

record column_index =
  ci_null_pages :: "bool list"
  ci_min_values :: "bytes list"
  ci_max_values :: "bytes list"
  ci_boundary_order :: boundary_order
  ci_null_counts :: "i64 list option"

datatype bloom_algorithm = SplitBlock

datatype bloom_hash = XxHash

datatype bloom_compression = BloomUncompressed

record bloom_filter_header =
  bf_num_bytes :: i32
  bf_algorithm :: bloom_algorithm
  bf_hash :: bloom_hash
  bf_compression :: bloom_compression

section \<open>Encryption descriptors\<close>

record aes_gcm_v1 =
  ag_aad_prefix :: "bytes option"
  ag_aad_file_unique :: "bytes option"
  ag_supply_aad_prefix :: "bool option"

record aes_gcm_ctr_v1 =
  ac_aad_prefix :: "bytes option"
  ac_aad_file_unique :: "bytes option"
  ac_supply_aad_prefix :: "bool option"

datatype encryption_algorithm = AesGcmV1 aes_gcm_v1 | AesGcmCtrV1 aes_gcm_ctr_v1

record encryption_with_column_key =
  ek_path_in_schema :: "bytes list"
  ek_key_metadata :: "bytes option"

datatype column_crypto_metadata =
    EncryptionWithFooterKey
  | EncryptionWithColumnKey encryption_with_column_key

record file_crypto_metadata =
  fc_encryption_algorithm :: "encryption_algorithm option"
  fc_key_metadata :: "bytes option"

section \<open>Column chunks, row groups, the file\<close>

record sorting_column =
  sc_column_idx :: i32
  sc_descending :: bool
  sc_nulls_first :: bool

record page_encoding_stats =
  pe_page_type :: page_type
  pe_encoding :: encoding
  pe_count :: i32

record size_statistics =
  ss_unencoded_byte_array_data_bytes :: "i64 option"
  ss_repetition_level_histogram :: "i64 list option"
  ss_definition_level_histogram :: "i64 list option"

record column_metadata =
  cm_column_type :: parquet_type
  cm_encodings :: "encoding list"
  cm_path_in_schema :: "bytes list"
  cm_codec :: compression_codec
  cm_num_values :: i64
  cm_total_uncompressed_size :: i64
  cm_total_compressed_size :: i64
  cm_key_value_metadata :: "key_value list option"
  cm_data_page_offset :: i64
  cm_index_page_offset :: "i64 option"
  cm_dictionary_page_offset :: "i64 option"
  cm_statistics :: "statistics option"
  cm_encoding_stats :: "page_encoding_stats list option"
  cm_bloom_filter_offset :: "i64 option"
  cm_bloom_filter_length :: "i32 option"
  cm_size_statistics :: "size_statistics option"

record column_chunk =
  cc_file_path :: "bytes option"
  cc_file_offset :: i64
  cc_meta_data :: "column_metadata option"
  cc_offset_index_offset :: "i64 option"
  cc_offset_index_length :: "i32 option"
  cc_column_index_offset :: "i64 option"
  cc_column_index_length :: "i32 option"
  cc_crypto_metadata :: "column_crypto_metadata option"
  cc_encrypted_column_metadata :: "bytes option"

record row_group =
  rg_columns :: "column_chunk list"
  rg_total_byte_size :: i64
  rg_num_rows :: i64
  rg_sorting_columns :: "sorting_column list option"
  rg_file_offset :: "i64 option"
  rg_total_compressed_size :: "i64 option"
  rg_ordinal :: "i16 option"

datatype column_order = TypeDefinedOrder

record file_metadata =
  fm_version :: i32
  fm_schema :: "schema_element list"
  fm_num_rows :: i64
  fm_row_groups :: "row_group list"
  fm_key_value_metadata :: "key_value list option"
  fm_created_by :: "bytes option"
  fm_column_orders :: "column_order list option"
  fm_encryption_algorithm :: "encryption_algorithm option"
  fm_footer_signing_key_metadata :: "bytes option"

end
