(* ===== verification/MetadataRead.thy ===== *)
theory MetadataRead
  imports MetadataTypes
begin

text \<open>
  The struct readers of \<open>ematix-parquet-format/src/metadata.rs\<close>.  Each reader of the source declares
  its locals, runs the field loop with a \<open>match (h.id, &h.field_type)\<close>, and builds the struct, turning
  a missing required local into an error.  Here the locals are a record (\<open>\<dots>_locals\<close>, or the struct
  itself where the source starts from \<open>default()\<close>), the match is \<open>step_\<dots>\<close>, and \<open>read_\<dots>\<close> is the loop
  followed by the construction.  \<open>safe_read_\<dots>\<close>: no input makes a reader panic, loop or leave its
  buffer.
\<close>

definition unknown :: "string \<Rightarrow> i16 \<Rightarrow> format_error" where
  "unknown struct_name field_id = UnknownStructField struct_name field_id"

definition missing :: "string \<Rightarrow> i16 \<Rightarrow> format_error" where
  "missing struct_name field_id = MissingRequiredField struct_name field_id"

definition read_empty_struct :: "string \<Rightarrow> unit reader" where
  "read_empty_struct struct_name =
     bind_r (read_field_header 0) (\<lambda>ho.
       case ho of Some h \<Rightarrow> fail_r (unknown struct_name (fh_id h)) | None \<Rightarrow> return_r ())"

text \<open>The arms of a union: a marker variant with an empty struct, a variant with a payload, and
  \<open>chosen = Some(\<dots>)\<close>.\<close>

definition marker :: "string \<Rightarrow> 'u \<Rightarrow> 'u reader" where
  "marker struct_name variant = bind_r (read_empty_struct struct_name) (\<lambda>_. return_r variant)"

definition map_r :: "('x \<Rightarrow> 'u) \<Rightarrow> 'x reader \<Rightarrow> 'u reader" where
  "map_r f rd = bind_r rd (\<lambda>x. return_r (f x))"

definition chose :: "'u reader \<Rightarrow> 'u option reader" where
  "chose rd = bind_r rd (\<lambda>x. return_r (Some x))"

lemma safe_struct:
  assumes "\<And>h acc. safe_body h (step h acc)" and "\<And>a. safe (fin a)"
  shows "safe (bind_r (read_fields step 0 a0) fin)"
  by (intro safe_bind safe_read_fields assms safe_rules)

lemma safe_case_option [safe_rules]:
  "safe a \<Longrightarrow> (\<And>x. safe (b x)) \<Longrightarrow> safe (case v of Some x \<Rightarrow> b x | None \<Rightarrow> a)"
  by (cases v) simp_all

lemma safe_read_field_header_0 [safe_rules]: "safe (read_field_header 0)"
  by (rule safe_read_field_header) (simp add: small_id_def)

lemma safe_read_empty_struct [safe_rules]: "safe (read_empty_struct struct_name)"
  unfolding read_empty_struct_def by (intro safe_rules)

lemma safe_union_arms [safe_rules]:
  "safe (marker struct_name v)" "safe rd \<Longrightarrow> safe (map_r f rd)" "safe rd' \<Longrightarrow> safe (chose rd')"
  unfolding marker_def map_r_def chose_def by (intro safe_rules; assumption)+

section \<open>Logical types\<close>

definition step_time_unit :: "field_header \<Rightarrow> time_unit option \<Rightarrow> time_unit option reader" where
  "step_time_unit h chosen =
     (if on h 1 FT_Struct then chose (marker ''MilliSeconds'' TU_Millis)
      else if on h 2 FT_Struct then chose (marker ''MicroSeconds'' TU_Micros)
      else if on h 3 FT_Struct then chose (marker ''NanoSeconds'' TU_Nanos)
      else fail_r (unknown ''TimeUnit'' (fh_id h)))"

definition read_time_unit :: "time_unit reader" where
  "read_time_unit =
     bind_r (read_fields step_time_unit 0 None) (\<lambda>chosen.
       required chosen (EmptyUnion ''TimeUnit'') return_r)"

lemma safe_read_time_unit [safe_rules]: "safe read_time_unit"
  unfolding read_time_unit_def by (rule safe_struct; (unfold step_time_unit_def)?; intro safe_rules)

record decimal_type_locals =
  ldt_scale :: "i32 option"
  ldt_precision :: "i32 option"

definition decimal_type_start :: decimal_type_locals where
  "decimal_type_start =
     \<lparr>ldt_scale = None,
      ldt_precision = None\<rparr>"

definition step_decimal_type :: "field_header \<Rightarrow> decimal_type_locals \<Rightarrow> decimal_type_locals reader" where
  "step_decimal_type h a =
     (if on h 1 FT_I32 then set_some read_zigzag_i32 ldt_scale_update a
      else if on h 2 FT_I32 then set_some read_zigzag_i32 ldt_precision_update a
      else fail_r (unknown ''DecimalType'' (fh_id h)))"

definition read_decimal_type :: "decimal_type reader" where
  "read_decimal_type =
     bind_r (read_fields step_decimal_type 0 decimal_type_start) (\<lambda>a.
       required (ldt_scale a) (missing ''DecimalType'' 1) (\<lambda>scale.
       required (ldt_precision a) (missing ''DecimalType'' 2) (\<lambda>precision.
       return_r \<lparr>dt_scale = scale,
         dt_precision = precision\<rparr>)))"

lemma safe_read_decimal_type [safe_rules]: "safe read_decimal_type"
  unfolding read_decimal_type_def by (rule safe_struct; (unfold step_decimal_type_def)?; intro safe_rules)

record int_type_locals =
  lit_bit_width :: "i8 option"
  lit_is_signed :: "bool option"

definition int_type_start :: int_type_locals where
  "int_type_start =
     \<lparr>lit_bit_width = None,
      lit_is_signed = None\<rparr>"

definition step_int_type :: "field_header \<Rightarrow> int_type_locals \<Rightarrow> int_type_locals reader" where
  "step_int_type h a =
     (if on h 1 FT_Byte then set_some read_i8 lit_bit_width_update a
      else if on h 2 FT_BoolTrue then set_flag True lit_is_signed_update a
      else if on h 2 FT_BoolFalse then set_flag False lit_is_signed_update a
      else fail_r (unknown ''IntType'' (fh_id h)))"

definition read_int_type :: "int_type reader" where
  "read_int_type =
     bind_r (read_fields step_int_type 0 int_type_start) (\<lambda>a.
       required (lit_bit_width a) (missing ''IntType'' 1) (\<lambda>bit_width.
       required (lit_is_signed a) (missing ''IntType'' 2) (\<lambda>is_signed.
       return_r \<lparr>it_bit_width = bit_width,
         it_is_signed = is_signed\<rparr>)))"

lemma safe_read_int_type [safe_rules]: "safe read_int_type"
  unfolding read_int_type_def by (rule safe_struct; (unfold step_int_type_def)?; intro safe_rules)

record timestamp_type_locals =
  lts_is_adjusted_to_utc :: "bool option"
  lts_unit :: "time_unit option"

definition timestamp_type_start :: timestamp_type_locals where
  "timestamp_type_start =
     \<lparr>lts_is_adjusted_to_utc = None,
      lts_unit = None\<rparr>"

definition step_timestamp_type :: "field_header \<Rightarrow> timestamp_type_locals \<Rightarrow> timestamp_type_locals reader" where
  "step_timestamp_type h a =
     (if on h 1 FT_BoolTrue then set_flag True lts_is_adjusted_to_utc_update a
      else if on h 1 FT_BoolFalse then set_flag False lts_is_adjusted_to_utc_update a
      else if on h 2 FT_Struct then set_some read_time_unit lts_unit_update a
      else fail_r (unknown ''TimestampType'' (fh_id h)))"

definition read_timestamp_type :: "timestamp_type reader" where
  "read_timestamp_type =
     bind_r (read_fields step_timestamp_type 0 timestamp_type_start) (\<lambda>a.
       required (lts_is_adjusted_to_utc a) (missing ''TimestampType'' 1) (\<lambda>is_adjusted_to_utc.
       required (lts_unit a) (missing ''TimestampType'' 2) (\<lambda>unit.
       return_r \<lparr>ts_is_adjusted_to_utc = is_adjusted_to_utc,
         ts_unit = unit\<rparr>)))"

lemma safe_read_timestamp_type [safe_rules]: "safe read_timestamp_type"
  unfolding read_timestamp_type_def by (rule safe_struct; (unfold step_timestamp_type_def)?; intro safe_rules)

record time_type_locals =
  ltt_is_adjusted_to_utc :: "bool option"
  ltt_unit :: "time_unit option"

definition time_type_start :: time_type_locals where
  "time_type_start =
     \<lparr>ltt_is_adjusted_to_utc = None,
      ltt_unit = None\<rparr>"

definition step_time_type :: "field_header \<Rightarrow> time_type_locals \<Rightarrow> time_type_locals reader" where
  "step_time_type h a =
     (if on h 1 FT_BoolTrue then set_flag True ltt_is_adjusted_to_utc_update a
      else if on h 1 FT_BoolFalse then set_flag False ltt_is_adjusted_to_utc_update a
      else if on h 2 FT_Struct then set_some read_time_unit ltt_unit_update a
      else fail_r (unknown ''TimeType'' (fh_id h)))"

definition read_time_type :: "time_type reader" where
  "read_time_type =
     bind_r (read_fields step_time_type 0 time_type_start) (\<lambda>a.
       required (ltt_is_adjusted_to_utc a) (missing ''TimeType'' 1) (\<lambda>is_adjusted_to_utc.
       required (ltt_unit a) (missing ''TimeType'' 2) (\<lambda>unit.
       return_r \<lparr>tt_is_adjusted_to_utc = is_adjusted_to_utc,
         tt_unit = unit\<rparr>)))"

lemma safe_read_time_type [safe_rules]: "safe read_time_type"
  unfolding read_time_type_def by (rule safe_struct; (unfold step_time_type_def)?; intro safe_rules)

definition variant_type_default :: variant_type where
  "variant_type_default =
     \<lparr>vt_specification_version = None\<rparr>"

definition step_variant_type :: "field_header \<Rightarrow> variant_type \<Rightarrow> variant_type reader" where
  "step_variant_type h a =
     (if on h 1 FT_Byte then set_some read_i8 vt_specification_version_update a
      else fail_r (unknown ''VariantType'' (fh_id h)))"

definition read_variant_type :: "variant_type reader" where
  "read_variant_type = bind_r (read_fields step_variant_type 0 variant_type_default) (\<lambda>a. return_r a)"

lemma safe_read_variant_type [safe_rules]: "safe read_variant_type"
  unfolding read_variant_type_def by (rule safe_struct; (unfold step_variant_type_def)?; intro safe_rules)

definition geometry_type_default :: geometry_type where
  "geometry_type_default =
     \<lparr>gm_crs = None\<rparr>"

definition step_geometry_type :: "field_header \<Rightarrow> geometry_type \<Rightarrow> geometry_type reader" where
  "step_geometry_type h a =
     (if on h 1 FT_Binary then set_some read_binary gm_crs_update a
      else fail_r (unknown ''GeometryType'' (fh_id h)))"

definition read_geometry_type :: "geometry_type reader" where
  "read_geometry_type = bind_r (read_fields step_geometry_type 0 geometry_type_default) (\<lambda>a. return_r a)"

lemma safe_read_geometry_type [safe_rules]: "safe read_geometry_type"
  unfolding read_geometry_type_def by (rule safe_struct; (unfold step_geometry_type_def)?; intro safe_rules)

definition geography_type_default :: geography_type where
  "geography_type_default =
     \<lparr>gg_crs = None,
      gg_algorithm = None\<rparr>"

definition step_geography_type :: "field_header \<Rightarrow> geography_type \<Rightarrow> geography_type reader" where
  "step_geography_type h a =
     (if on h 1 FT_Binary then set_some read_binary gg_crs_update a
      else if on h 2 FT_I32 then set_some read_edge_interpolation_algorithm gg_algorithm_update a
      else fail_r (unknown ''GeographyType'' (fh_id h)))"

definition read_geography_type :: "geography_type reader" where
  "read_geography_type = bind_r (read_fields step_geography_type 0 geography_type_default) (\<lambda>a. return_r a)"

lemma safe_read_geography_type [safe_rules]: "safe read_geography_type"
  unfolding read_geography_type_def by (rule safe_struct; (unfold step_geography_type_def)?; intro safe_rules)

definition step_logical_type :: "field_header \<Rightarrow> logical_type option \<Rightarrow> logical_type option reader" where
  "step_logical_type h chosen =
     (if on h 1 FT_Struct then chose (marker ''StringType'' LT_String)
      else if on h 2 FT_Struct then chose (marker ''MapType'' LT_Map)
      else if on h 3 FT_Struct then chose (marker ''ListType'' LT_List)
      else if on h 4 FT_Struct then chose (marker ''EnumType'' LT_Enum)
      else if on h 5 FT_Struct then chose (map_r LT_Decimal read_decimal_type)
      else if on h 6 FT_Struct then chose (marker ''DateType'' LT_Date)
      else if on h 7 FT_Struct then chose (map_r LT_Time read_time_type)
      else if on h 8 FT_Struct then chose (map_r LT_Timestamp read_timestamp_type)
      else if on h 10 FT_Struct then chose (map_r LT_Integer read_int_type)
      else if on h 11 FT_Struct then chose (marker ''NullType'' LT_Null)
      else if on h 12 FT_Struct then chose (marker ''JsonType'' LT_Json)
      else if on h 13 FT_Struct then chose (marker ''BsonType'' LT_Bson)
      else if on h 14 FT_Struct then chose (marker ''UUIDType'' LT_Uuid)
      else if on h 15 FT_Struct then chose (marker ''Float16Type'' LT_Float16)
      else if on h 16 FT_Struct then chose (map_r LT_Variant read_variant_type)
      else if on h 17 FT_Struct then chose (map_r LT_Geometry read_geometry_type)
      else if on h 18 FT_Struct then chose (map_r LT_Geography read_geography_type)
      else fail_r (unknown ''LogicalType'' (fh_id h)))"

definition read_logical_type :: "logical_type reader" where
  "read_logical_type =
     bind_r (read_fields step_logical_type 0 None) (\<lambda>chosen.
       required chosen (EmptyUnion ''LogicalType'') return_r)"

lemma safe_read_logical_type [safe_rules]: "safe read_logical_type"
  unfolding read_logical_type_def by (rule safe_struct; (unfold step_logical_type_def)?; intro safe_rules)

section \<open>Schema and page index\<close>

record schema_element_locals =
  lse_column_type :: "parquet_type option"
  lse_type_length :: "i32 option"
  lse_repetition_type :: "field_repetition_type option"
  lse_name :: "bytes option"
  lse_num_children :: "i32 option"
  lse_converted_type :: "converted_type option"
  lse_scale :: "i32 option"
  lse_precision :: "i32 option"
  lse_field_id :: "i32 option"
  lse_logical_type :: "logical_type option"

definition schema_element_start :: schema_element_locals where
  "schema_element_start =
     \<lparr>lse_column_type = None,
      lse_type_length = None,
      lse_repetition_type = None,
      lse_name = None,
      lse_num_children = None,
      lse_converted_type = None,
      lse_scale = None,
      lse_precision = None,
      lse_field_id = None,
      lse_logical_type = None\<rparr>"

definition step_schema_element :: "field_header \<Rightarrow> schema_element_locals \<Rightarrow> schema_element_locals reader" where
  "step_schema_element h a =
     (if on h 1 FT_I32 then set_some read_parquet_type lse_column_type_update a
      else if on h 2 FT_I32 then set_some read_zigzag_i32 lse_type_length_update a
      else if on h 3 FT_I32 then set_some read_field_repetition_type lse_repetition_type_update a
      else if on h 4 FT_Binary then set_some read_binary lse_name_update a
      else if on h 5 FT_I32 then set_some read_zigzag_i32 lse_num_children_update a
      else if on h 6 FT_I32 then set_some read_converted_type lse_converted_type_update a
      else if on h 7 FT_I32 then set_some read_zigzag_i32 lse_scale_update a
      else if on h 8 FT_I32 then set_some read_zigzag_i32 lse_precision_update a
      else if on h 9 FT_I32 then set_some read_zigzag_i32 lse_field_id_update a
      else if on h 10 FT_Struct then set_some read_logical_type lse_logical_type_update a
      else fail_r (unknown ''SchemaElement'' (fh_id h)))"

definition read_schema_element :: "schema_element reader" where
  "read_schema_element =
     bind_r (read_fields step_schema_element 0 schema_element_start) (\<lambda>a.
       required (lse_name a) (missing ''SchemaElement'' 4) (\<lambda>name.
       return_r \<lparr>se_column_type = lse_column_type a,
         se_type_length = lse_type_length a,
         se_repetition_type = lse_repetition_type a,
         se_name = name,
         se_num_children = lse_num_children a,
         se_converted_type = lse_converted_type a,
         se_scale = lse_scale a,
         se_precision = lse_precision a,
         se_field_id = lse_field_id a,
         se_logical_type = lse_logical_type a\<rparr>))"

lemma safe_read_schema_element [safe_rules]: "safe read_schema_element"
  unfolding read_schema_element_def by (rule safe_struct; (unfold step_schema_element_def)?; intro safe_rules)

record page_location_locals =
  lpl_offset :: "i64 option"
  lpl_compressed_page_size :: "i32 option"
  lpl_first_row_index :: "i64 option"

definition page_location_start :: page_location_locals where
  "page_location_start =
     \<lparr>lpl_offset = None,
      lpl_compressed_page_size = None,
      lpl_first_row_index = None\<rparr>"

definition step_page_location :: "field_header \<Rightarrow> page_location_locals \<Rightarrow> page_location_locals reader" where
  "step_page_location h a =
     (if on h 1 FT_I64 then set_some read_zigzag_i64 lpl_offset_update a
      else if on h 2 FT_I32 then set_some read_zigzag_i32 lpl_compressed_page_size_update a
      else if on h 3 FT_I64 then set_some read_zigzag_i64 lpl_first_row_index_update a
      else fail_r (unknown ''PageLocation'' (fh_id h)))"

definition read_page_location :: "page_location reader" where
  "read_page_location =
     bind_r (read_fields step_page_location 0 page_location_start) (\<lambda>a.
       required (lpl_offset a) (missing ''PageLocation'' 1) (\<lambda>offset.
       required (lpl_compressed_page_size a) (missing ''PageLocation'' 2) (\<lambda>compressed_page_size.
       required (lpl_first_row_index a) (missing ''PageLocation'' 3) (\<lambda>first_row_index.
       return_r \<lparr>pl_offset = offset,
         pl_compressed_page_size = compressed_page_size,
         pl_first_row_index = first_row_index\<rparr>))))"

lemma safe_read_page_location [safe_rules]: "safe read_page_location"
  unfolding read_page_location_def by (rule safe_struct; (unfold step_page_location_def)?; intro safe_rules)

record offset_index_locals =
  loi_page_locations :: "page_location list option"
  loi_unencoded_byte_array_data_bytes :: "i64 list option"

definition offset_index_start :: offset_index_locals where
  "offset_index_start =
     \<lparr>loi_page_locations = None,
      loi_unencoded_byte_array_data_bytes = None\<rparr>"

definition step_offset_index :: "field_header \<Rightarrow> offset_index_locals \<Rightarrow> offset_index_locals reader" where
  "step_offset_index h a =
     (if on h 1 FT_List then set_some (read_list_struct sizeof_page_location read_page_location) loi_page_locations_update a
      else if on h 2 FT_List then set_some read_list_i64 loi_unencoded_byte_array_data_bytes_update a
      else fail_r (unknown ''OffsetIndex'' (fh_id h)))"

definition read_offset_index :: "offset_index reader" where
  "read_offset_index =
     bind_r (read_fields step_offset_index 0 offset_index_start) (\<lambda>a.
       required (loi_page_locations a) (missing ''OffsetIndex'' 1) (\<lambda>page_locations.
       return_r \<lparr>oi_page_locations = page_locations,
         oi_unencoded_byte_array_data_bytes = loi_unencoded_byte_array_data_bytes a\<rparr>))"

lemma safe_read_offset_index [safe_rules]: "safe read_offset_index"
  unfolding read_offset_index_def by (rule safe_struct; (unfold step_offset_index_def)?; intro safe_rules)

record column_index_locals =
  lci_null_pages :: "bool list option"
  lci_min_values :: "bytes list option"
  lci_max_values :: "bytes list option"
  lci_boundary_order :: "boundary_order option"
  lci_null_counts :: "i64 list option"

definition column_index_start :: column_index_locals where
  "column_index_start =
     \<lparr>lci_null_pages = None,
      lci_min_values = None,
      lci_max_values = None,
      lci_boundary_order = None,
      lci_null_counts = None\<rparr>"

definition step_column_index :: "field_header \<Rightarrow> column_index_locals \<Rightarrow> column_index_locals reader" where
  "step_column_index h a =
     (if on h 1 FT_List then set_some read_list_bool lci_null_pages_update a
      else if on h 2 FT_List then set_some read_list_binary lci_min_values_update a
      else if on h 3 FT_List then set_some read_list_binary lci_max_values_update a
      else if on h 4 FT_I32 then set_some read_boundary_order lci_boundary_order_update a
      else if on h 5 FT_List then set_some read_list_i64 lci_null_counts_update a
      else fail_r (unknown ''ColumnIndex'' (fh_id h)))"

definition read_column_index :: "column_index reader" where
  "read_column_index =
     bind_r (read_fields step_column_index 0 column_index_start) (\<lambda>a.
       required (lci_null_pages a) (missing ''ColumnIndex'' 1) (\<lambda>null_pages.
       required (lci_min_values a) (missing ''ColumnIndex'' 2) (\<lambda>min_values.
       required (lci_max_values a) (missing ''ColumnIndex'' 3) (\<lambda>max_values.
       required (lci_boundary_order a) (missing ''ColumnIndex'' 4) (\<lambda>boundary_order.
       return_r \<lparr>ci_null_pages = null_pages,
         ci_min_values = min_values,
         ci_max_values = max_values,
         ci_boundary_order = boundary_order,
         ci_null_counts = lci_null_counts a\<rparr>)))))"

lemma safe_read_column_index [safe_rules]: "safe read_column_index"
  unfolding read_column_index_def by (rule safe_struct; (unfold step_column_index_def)?; intro safe_rules)

definition step_column_order :: "field_header \<Rightarrow> column_order option \<Rightarrow> column_order option reader" where
  "step_column_order h chosen =
     (if on h 1 FT_Struct then chose (marker ''TypeDefinedOrder'' TypeDefinedOrder)
      else fail_r (unknown ''ColumnOrder'' (fh_id h)))"

definition read_column_order :: "column_order reader" where
  "read_column_order =
     bind_r (read_fields step_column_order 0 None) (\<lambda>chosen.
       required chosen (EmptyUnion ''ColumnOrder'') return_r)"

lemma safe_read_column_order [safe_rules]: "safe read_column_order"
  unfolding read_column_order_def by (rule safe_struct; (unfold step_column_order_def)?; intro safe_rules)

section \<open>Bloom filter header\<close>

text \<open>
  The three unions of the bloom filter header match the field id only and walk over the payload with
  \<open>while let Some(_inner) = read_field_header(cur, 0)? \{\}\<close>, which expects headers without bodies.
\<close>

function skip_headers :: "unit reader" where
  "skip_headers cur =
     bind_o (read_field_header 0 cur) (\<lambda>(ho, cur').
       case ho of
         None \<Rightarrow> Ok ((), cur')
       | Some _ \<Rightarrow> if remaining cur' < remaining cur then skip_headers cur' else Stuck)"
  by pat_completeness auto
termination
  by (relation "measure remaining") auto

declare skip_headers.simps [simp del]

lemma safe_skip_headers [safe_rules]: "safe skip_headers"
proof (rule safeI)
  fix cur assume "cursor_ok cur"
  then show "safe_result cur (skip_headers cur)"
  proof (induction cur rule: skip_headers.induct)
    case (1 cur)
    show ?case
    proof (cases "read_field_header 0 cur")
      case (Ok p)
      obtain ho cur' where p: "p = (ho, cur')"
        by (cases p)
      have adv: "advances cur cur'" "remaining cur' < remaining cur"
        using read_field_header_progress [OF _ 1(2), of 0 ho cur'] Ok p
        by (auto simp: small_id_def)
      show ?thesis
      proof (cases ho)
        case None
        then show ?thesis
          using Ok p adv by (simp add: skip_headers.simps [of cur])
      next
        case (Some h)
        have "safe_result cur' (skip_headers cur')"
          using 1(1) [OF Ok p [symmetric] Some adv(2) advances_ok [OF adv(1)]] .
        then show ?thesis
          using Ok p adv Some safe_result_mono by (simp add: skip_headers.simps [of cur])
      qed
    qed (use safeD [OF safe_read_field_header_0 1(2)] in \<open>auto simp: skip_headers.simps [of cur]\<close>)
  qed
qed

definition step_bloom_algorithm :: "field_header \<Rightarrow> bloom_algorithm option \<Rightarrow> bloom_algorithm option reader" where
  "step_bloom_algorithm h chosen =
     (if fh_id h = 1 then bind_r skip_headers (\<lambda>_. return_r (Some SplitBlock))
      else fail_r (unknown ''BloomFilterAlgorithm'' (fh_id h)))"

definition read_bloom_algorithm :: "bloom_algorithm reader" where
  "read_bloom_algorithm =
     bind_r (read_fields step_bloom_algorithm 0 None) (\<lambda>chosen.
       required chosen (missing ''BloomFilterAlgorithm'' 1) return_r)"

lemma safe_read_bloom_algorithm [safe_rules]: "safe read_bloom_algorithm"
  unfolding read_bloom_algorithm_def by (rule safe_struct; (unfold step_bloom_algorithm_def)?; intro safe_rules)

definition step_bloom_hash :: "field_header \<Rightarrow> bloom_hash option \<Rightarrow> bloom_hash option reader" where
  "step_bloom_hash h chosen =
     (if fh_id h = 1 then bind_r skip_headers (\<lambda>_. return_r (Some XxHash))
      else fail_r (unknown ''BloomFilterHash'' (fh_id h)))"

definition read_bloom_hash :: "bloom_hash reader" where
  "read_bloom_hash =
     bind_r (read_fields step_bloom_hash 0 None) (\<lambda>chosen.
       required chosen (missing ''BloomFilterHash'' 1) return_r)"

lemma safe_read_bloom_hash [safe_rules]: "safe read_bloom_hash"
  unfolding read_bloom_hash_def by (rule safe_struct; (unfold step_bloom_hash_def)?; intro safe_rules)

definition step_bloom_compression :: "field_header \<Rightarrow> bloom_compression option \<Rightarrow> bloom_compression option reader" where
  "step_bloom_compression h chosen =
     (if fh_id h = 1 then bind_r skip_headers (\<lambda>_. return_r (Some BloomUncompressed))
      else fail_r (unknown ''BloomFilterCompression'' (fh_id h)))"

definition read_bloom_compression :: "bloom_compression reader" where
  "read_bloom_compression =
     bind_r (read_fields step_bloom_compression 0 None) (\<lambda>chosen.
       required chosen (missing ''BloomFilterCompression'' 1) return_r)"

lemma safe_read_bloom_compression [safe_rules]: "safe read_bloom_compression"
  unfolding read_bloom_compression_def by (rule safe_struct; (unfold step_bloom_compression_def)?; intro safe_rules)

record bloom_filter_header_locals =
  lbf_num_bytes :: "i32 option"
  lbf_algorithm :: "bloom_algorithm option"
  lbf_hash :: "bloom_hash option"
  lbf_compression :: "bloom_compression option"

definition bloom_filter_header_start :: bloom_filter_header_locals where
  "bloom_filter_header_start =
     \<lparr>lbf_num_bytes = None,
      lbf_algorithm = None,
      lbf_hash = None,
      lbf_compression = None\<rparr>"

definition step_bloom_filter_header :: "field_header \<Rightarrow> bloom_filter_header_locals \<Rightarrow> bloom_filter_header_locals reader" where
  "step_bloom_filter_header h a =
     (if on h 1 FT_I32 then set_some read_zigzag_i32 lbf_num_bytes_update a
      else if on h 2 FT_Struct then set_some read_bloom_algorithm lbf_algorithm_update a
      else if on h 3 FT_Struct then set_some read_bloom_hash lbf_hash_update a
      else if on h 4 FT_Struct then set_some read_bloom_compression lbf_compression_update a
      else fail_r (unknown ''BloomFilterHeader'' (fh_id h)))"

definition read_bloom_filter_header :: "bloom_filter_header reader" where
  "read_bloom_filter_header =
     bind_r (read_fields step_bloom_filter_header 0 bloom_filter_header_start) (\<lambda>a.
       required (lbf_num_bytes a) (missing ''BloomFilterHeader'' 1) (\<lambda>num_bytes.
       required (lbf_algorithm a) (missing ''BloomFilterHeader'' 2) (\<lambda>algorithm.
       required (lbf_hash a) (missing ''BloomFilterHeader'' 3) (\<lambda>hash.
       required (lbf_compression a) (missing ''BloomFilterHeader'' 4) (\<lambda>compression.
       return_r \<lparr>bf_num_bytes = num_bytes,
         bf_algorithm = algorithm,
         bf_hash = hash,
         bf_compression = compression\<rparr>)))))"

lemma safe_read_bloom_filter_header [safe_rules]: "safe read_bloom_filter_header"
  unfolding read_bloom_filter_header_def by (rule safe_struct; (unfold step_bloom_filter_header_def)?; intro safe_rules)

section \<open>Statistics and page headers\<close>

definition statistics_default :: statistics where
  "statistics_default =
     \<lparr>st_max = None,
      st_min = None,
      st_null_count = None,
      st_distinct_count = None,
      st_max_value = None,
      st_min_value = None,
      st_is_max_value_exact = None,
      st_is_min_value_exact = None\<rparr>"

definition step_statistics :: "field_header \<Rightarrow> statistics \<Rightarrow> statistics reader" where
  "step_statistics h a =
     (if on h 1 FT_Binary then set_some read_binary st_max_update a
      else if on h 2 FT_Binary then set_some read_binary st_min_update a
      else if on h 3 FT_I64 then set_some read_zigzag_i64 st_null_count_update a
      else if on h 4 FT_I64 then set_some read_zigzag_i64 st_distinct_count_update a
      else if on h 5 FT_Binary then set_some read_binary st_max_value_update a
      else if on h 6 FT_Binary then set_some read_binary st_min_value_update a
      else if on h 7 FT_BoolTrue then set_flag True st_is_max_value_exact_update a
      else if on h 7 FT_BoolFalse then set_flag False st_is_max_value_exact_update a
      else if on h 8 FT_BoolTrue then set_flag True st_is_min_value_exact_update a
      else if on h 8 FT_BoolFalse then set_flag False st_is_min_value_exact_update a
      else fail_r (unknown ''Statistics'' (fh_id h)))"

definition read_statistics :: "statistics reader" where
  "read_statistics = bind_r (read_fields step_statistics 0 statistics_default) (\<lambda>a. return_r a)"

lemma safe_read_statistics [safe_rules]: "safe read_statistics"
  unfolding read_statistics_def by (rule safe_struct; (unfold step_statistics_def)?; intro safe_rules)

record key_value_locals =
  lkv_key :: "bytes option"
  lkv_value :: "bytes option"

definition key_value_start :: key_value_locals where
  "key_value_start =
     \<lparr>lkv_key = None,
      lkv_value = None\<rparr>"

definition step_key_value :: "field_header \<Rightarrow> key_value_locals \<Rightarrow> key_value_locals reader" where
  "step_key_value h a =
     (if on h 1 FT_Binary then set_some read_binary lkv_key_update a
      else if on h 2 FT_Binary then set_some read_binary lkv_value_update a
      else fail_r (unknown ''KeyValue'' (fh_id h)))"

definition read_key_value :: "key_value reader" where
  "read_key_value =
     bind_r (read_fields step_key_value 0 key_value_start) (\<lambda>a.
       required (lkv_key a) (missing ''KeyValue'' 1) (\<lambda>key.
       return_r \<lparr>kv_key = key,
         kv_value = lkv_value a\<rparr>))"

lemma safe_read_key_value [safe_rules]: "safe read_key_value"
  unfolding read_key_value_def by (rule safe_struct; (unfold step_key_value_def)?; intro safe_rules)

record data_page_header_locals =
  ldh_num_values :: "i32 option"
  ldh_encoding :: "encoding option"
  ldh_definition_level_encoding :: "encoding option"
  ldh_repetition_level_encoding :: "encoding option"
  ldh_statistics :: "statistics option"

definition data_page_header_start :: data_page_header_locals where
  "data_page_header_start =
     \<lparr>ldh_num_values = None,
      ldh_encoding = None,
      ldh_definition_level_encoding = None,
      ldh_repetition_level_encoding = None,
      ldh_statistics = None\<rparr>"

definition step_data_page_header :: "field_header \<Rightarrow> data_page_header_locals \<Rightarrow> data_page_header_locals reader" where
  "step_data_page_header h a =
     (if on h 1 FT_I32 then set_some read_zigzag_i32 ldh_num_values_update a
      else if on h 2 FT_I32 then set_some read_encoding ldh_encoding_update a
      else if on h 3 FT_I32 then set_some read_encoding ldh_definition_level_encoding_update a
      else if on h 4 FT_I32 then set_some read_encoding ldh_repetition_level_encoding_update a
      else if on h 5 FT_Struct then set_some read_statistics ldh_statistics_update a
      else fail_r (unknown ''DataPageHeader'' (fh_id h)))"

definition read_data_page_header :: "data_page_header reader" where
  "read_data_page_header =
     bind_r (read_fields step_data_page_header 0 data_page_header_start) (\<lambda>a.
       required (ldh_num_values a) (missing ''DataPageHeader'' 1) (\<lambda>num_values.
       required (ldh_encoding a) (missing ''DataPageHeader'' 2) (\<lambda>encoding.
       required (ldh_definition_level_encoding a) (missing ''DataPageHeader'' 3) (\<lambda>definition_level_encoding.
       required (ldh_repetition_level_encoding a) (missing ''DataPageHeader'' 4) (\<lambda>repetition_level_encoding.
       return_r \<lparr>dh_num_values = num_values,
         dh_encoding = encoding,
         dh_definition_level_encoding = definition_level_encoding,
         dh_repetition_level_encoding = repetition_level_encoding,
         dh_statistics = ldh_statistics a\<rparr>)))))"

lemma safe_read_data_page_header [safe_rules]: "safe read_data_page_header"
  unfolding read_data_page_header_def by (rule safe_struct; (unfold step_data_page_header_def)?; intro safe_rules)

definition read_index_page_header :: "index_page_header reader" where
  "read_index_page_header =
     bind_r (read_field_header 0) (\<lambda>ho.
       case ho of Some h \<Rightarrow> fail_r (unknown ''IndexPageHeader'' (fh_id h))
       | None \<Rightarrow> return_r IndexPageHeader)"

lemma safe_read_index_page_header [safe_rules]: "safe read_index_page_header"
  unfolding read_index_page_header_def by (intro safe_rules)

record dictionary_page_header_locals =
  ldi_num_values :: "i32 option"
  ldi_encoding :: "encoding option"
  ldi_is_sorted :: "bool option"

definition dictionary_page_header_start :: dictionary_page_header_locals where
  "dictionary_page_header_start =
     \<lparr>ldi_num_values = None,
      ldi_encoding = None,
      ldi_is_sorted = None\<rparr>"

definition step_dictionary_page_header :: "field_header \<Rightarrow> dictionary_page_header_locals \<Rightarrow> dictionary_page_header_locals reader" where
  "step_dictionary_page_header h a =
     (if on h 1 FT_I32 then set_some read_zigzag_i32 ldi_num_values_update a
      else if on h 2 FT_I32 then set_some read_encoding ldi_encoding_update a
      else if on h 3 FT_BoolTrue then set_flag True ldi_is_sorted_update a
      else if on h 3 FT_BoolFalse then set_flag False ldi_is_sorted_update a
      else fail_r (unknown ''DictionaryPageHeader'' (fh_id h)))"

definition read_dictionary_page_header :: "dictionary_page_header reader" where
  "read_dictionary_page_header =
     bind_r (read_fields step_dictionary_page_header 0 dictionary_page_header_start) (\<lambda>a.
       required (ldi_num_values a) (missing ''DictionaryPageHeader'' 1) (\<lambda>num_values.
       required (ldi_encoding a) (missing ''DictionaryPageHeader'' 2) (\<lambda>encoding.
       return_r \<lparr>di_num_values = num_values,
         di_encoding = encoding,
         di_is_sorted = ldi_is_sorted a\<rparr>)))"

lemma safe_read_dictionary_page_header [safe_rules]: "safe read_dictionary_page_header"
  unfolding read_dictionary_page_header_def by (rule safe_struct; (unfold step_dictionary_page_header_def)?; intro safe_rules)

record data_page_header_v2_locals =
  ld2_num_values :: "i32 option"
  ld2_num_nulls :: "i32 option"
  ld2_num_rows :: "i32 option"
  ld2_encoding :: "encoding option"
  ld2_definition_levels_byte_length :: "i32 option"
  ld2_repetition_levels_byte_length :: "i32 option"
  ld2_is_compressed :: bool
  ld2_statistics :: "statistics option"

definition data_page_header_v2_start :: data_page_header_v2_locals where
  "data_page_header_v2_start =
     \<lparr>ld2_num_values = None,
      ld2_num_nulls = None,
      ld2_num_rows = None,
      ld2_encoding = None,
      ld2_definition_levels_byte_length = None,
      ld2_repetition_levels_byte_length = None,
      ld2_is_compressed = True,
      ld2_statistics = None\<rparr>"

definition step_data_page_header_v2 :: "field_header \<Rightarrow> data_page_header_v2_locals \<Rightarrow> data_page_header_v2_locals reader" where
  "step_data_page_header_v2 h a =
     (if on h 1 FT_I32 then set_some read_zigzag_i32 ld2_num_values_update a
      else if on h 2 FT_I32 then set_some read_zigzag_i32 ld2_num_nulls_update a
      else if on h 3 FT_I32 then set_some read_zigzag_i32 ld2_num_rows_update a
      else if on h 4 FT_I32 then set_some read_encoding ld2_encoding_update a
      else if on h 5 FT_I32 then set_some read_zigzag_i32 ld2_definition_levels_byte_length_update a
      else if on h 6 FT_I32 then set_some read_zigzag_i32 ld2_repetition_levels_byte_length_update a
      else if on h 7 FT_BoolTrue then return_r (a\<lparr>ld2_is_compressed := True\<rparr>)
      else if on h 7 FT_BoolFalse then return_r (a\<lparr>ld2_is_compressed := False\<rparr>)
      else if on h 8 FT_Struct then set_some read_statistics ld2_statistics_update a
      else fail_r (unknown ''DataPageHeaderV2'' (fh_id h)))"

definition read_data_page_header_v2 :: "data_page_header_v2 reader" where
  "read_data_page_header_v2 =
     bind_r (read_fields step_data_page_header_v2 0 data_page_header_v2_start) (\<lambda>a.
       required (ld2_num_values a) (missing ''DataPageHeaderV2'' 1) (\<lambda>num_values.
       required (ld2_num_nulls a) (missing ''DataPageHeaderV2'' 2) (\<lambda>num_nulls.
       required (ld2_num_rows a) (missing ''DataPageHeaderV2'' 3) (\<lambda>num_rows.
       required (ld2_encoding a) (missing ''DataPageHeaderV2'' 4) (\<lambda>encoding.
       required (ld2_definition_levels_byte_length a) (missing ''DataPageHeaderV2'' 5) (\<lambda>definition_levels_byte_length.
       required (ld2_repetition_levels_byte_length a) (missing ''DataPageHeaderV2'' 6) (\<lambda>repetition_levels_byte_length.
       return_r \<lparr>d2_num_values = num_values,
         d2_num_nulls = num_nulls,
         d2_num_rows = num_rows,
         d2_encoding = encoding,
         d2_definition_levels_byte_length = definition_levels_byte_length,
         d2_repetition_levels_byte_length = repetition_levels_byte_length,
         d2_is_compressed = ld2_is_compressed a,
         d2_statistics = ld2_statistics a\<rparr>)))))))"

lemma safe_read_data_page_header_v2 [safe_rules]: "safe read_data_page_header_v2"
  unfolding read_data_page_header_v2_def by (rule safe_struct; (unfold step_data_page_header_v2_def)?; intro safe_rules)

record page_header_locals =
  lph_page_type :: "page_type option"
  lph_uncompressed_page_size :: "i32 option"
  lph_compressed_page_size :: "i32 option"
  lph_crc :: "i32 option"
  lph_data_page_header :: "data_page_header option"
  lph_index_page_header :: "index_page_header option"
  lph_dictionary_page_header :: "dictionary_page_header option"
  lph_data_page_header_v2 :: "data_page_header_v2 option"

definition page_header_start :: page_header_locals where
  "page_header_start =
     \<lparr>lph_page_type = None,
      lph_uncompressed_page_size = None,
      lph_compressed_page_size = None,
      lph_crc = None,
      lph_data_page_header = None,
      lph_index_page_header = None,
      lph_dictionary_page_header = None,
      lph_data_page_header_v2 = None\<rparr>"

definition step_page_header :: "field_header \<Rightarrow> page_header_locals \<Rightarrow> page_header_locals reader" where
  "step_page_header h a =
     (if on h 1 FT_I32 then set_some read_page_type lph_page_type_update a
      else if on h 2 FT_I32 then set_some read_zigzag_i32 lph_uncompressed_page_size_update a
      else if on h 3 FT_I32 then set_some read_zigzag_i32 lph_compressed_page_size_update a
      else if on h 4 FT_I32 then set_some read_zigzag_i32 lph_crc_update a
      else if on h 5 FT_Struct then set_some read_data_page_header lph_data_page_header_update a
      else if on h 6 FT_Struct then set_some read_index_page_header lph_index_page_header_update a
      else if on h 7 FT_Struct then set_some read_dictionary_page_header lph_dictionary_page_header_update a
      else if on h 8 FT_Struct then set_some read_data_page_header_v2 lph_data_page_header_v2_update a
      else fail_r (unknown ''PageHeader'' (fh_id h)))"

definition read_page_header :: "page_header reader" where
  "read_page_header =
     bind_r (read_fields step_page_header 0 page_header_start) (\<lambda>a.
       required (lph_page_type a) (missing ''PageHeader'' 1) (\<lambda>page_type.
       required (lph_uncompressed_page_size a) (missing ''PageHeader'' 2) (\<lambda>uncompressed_page_size.
       required (lph_compressed_page_size a) (missing ''PageHeader'' 3) (\<lambda>compressed_page_size.
       return_r \<lparr>ph_page_type = page_type,
         ph_uncompressed_page_size = uncompressed_page_size,
         ph_compressed_page_size = compressed_page_size,
         ph_crc = lph_crc a,
         ph_data_page_header = lph_data_page_header a,
         ph_index_page_header = lph_index_page_header a,
         ph_dictionary_page_header = lph_dictionary_page_header a,
         ph_data_page_header_v2 = lph_data_page_header_v2 a\<rparr>))))"

lemma safe_read_page_header [safe_rules]: "safe read_page_header"
  unfolding read_page_header_def by (rule safe_struct; (unfold step_page_header_def)?; intro safe_rules)

section \<open>Encryption descriptors\<close>

definition aes_gcm_v1_default :: aes_gcm_v1 where
  "aes_gcm_v1_default =
     \<lparr>ag_aad_prefix = None,
      ag_aad_file_unique = None,
      ag_supply_aad_prefix = None\<rparr>"

definition step_aes_gcm_v1 :: "field_header \<Rightarrow> aes_gcm_v1 \<Rightarrow> aes_gcm_v1 reader" where
  "step_aes_gcm_v1 h a =
     (if on h 1 FT_Binary then set_some read_binary ag_aad_prefix_update a
      else if on h 2 FT_Binary then set_some read_binary ag_aad_file_unique_update a
      else if on h 3 FT_BoolTrue then set_flag True ag_supply_aad_prefix_update a
      else if on h 3 FT_BoolFalse then set_flag False ag_supply_aad_prefix_update a
      else fail_r (unknown ''AesGcmV1'' (fh_id h)))"

definition read_aes_gcm_v1 :: "aes_gcm_v1 reader" where
  "read_aes_gcm_v1 = bind_r (read_fields step_aes_gcm_v1 0 aes_gcm_v1_default) (\<lambda>a. return_r a)"

lemma safe_read_aes_gcm_v1 [safe_rules]: "safe read_aes_gcm_v1"
  unfolding read_aes_gcm_v1_def by (rule safe_struct; (unfold step_aes_gcm_v1_def)?; intro safe_rules)

definition aes_gcm_ctr_v1_default :: aes_gcm_ctr_v1 where
  "aes_gcm_ctr_v1_default =
     \<lparr>ac_aad_prefix = None,
      ac_aad_file_unique = None,
      ac_supply_aad_prefix = None\<rparr>"

definition step_aes_gcm_ctr_v1 :: "field_header \<Rightarrow> aes_gcm_ctr_v1 \<Rightarrow> aes_gcm_ctr_v1 reader" where
  "step_aes_gcm_ctr_v1 h a =
     (if on h 1 FT_Binary then set_some read_binary ac_aad_prefix_update a
      else if on h 2 FT_Binary then set_some read_binary ac_aad_file_unique_update a
      else if on h 3 FT_BoolTrue then set_flag True ac_supply_aad_prefix_update a
      else if on h 3 FT_BoolFalse then set_flag False ac_supply_aad_prefix_update a
      else fail_r (unknown ''AesGcmCtrV1'' (fh_id h)))"

definition read_aes_gcm_ctr_v1 :: "aes_gcm_ctr_v1 reader" where
  "read_aes_gcm_ctr_v1 = bind_r (read_fields step_aes_gcm_ctr_v1 0 aes_gcm_ctr_v1_default) (\<lambda>a. return_r a)"

lemma safe_read_aes_gcm_ctr_v1 [safe_rules]: "safe read_aes_gcm_ctr_v1"
  unfolding read_aes_gcm_ctr_v1_def by (rule safe_struct; (unfold step_aes_gcm_ctr_v1_def)?; intro safe_rules)

definition step_encryption_algorithm :: "field_header \<Rightarrow> encryption_algorithm option \<Rightarrow> encryption_algorithm option reader" where
  "step_encryption_algorithm h chosen =
     (if on h 1 FT_Struct then chose (map_r AesGcmV1 read_aes_gcm_v1)
      else if on h 2 FT_Struct then chose (map_r AesGcmCtrV1 read_aes_gcm_ctr_v1)
      else fail_r (unknown ''EncryptionAlgorithm'' (fh_id h)))"

definition read_encryption_algorithm :: "encryption_algorithm reader" where
  "read_encryption_algorithm =
     bind_r (read_fields step_encryption_algorithm 0 None) (\<lambda>chosen.
       required chosen (EmptyUnion ''EncryptionAlgorithm'') return_r)"

lemma safe_read_encryption_algorithm [safe_rules]: "safe read_encryption_algorithm"
  unfolding read_encryption_algorithm_def by (rule safe_struct; (unfold step_encryption_algorithm_def)?; intro safe_rules)

record encryption_with_column_key_locals =
  lek_path_in_schema :: "bytes list option"
  lek_key_metadata :: "bytes option"

definition encryption_with_column_key_start :: encryption_with_column_key_locals where
  "encryption_with_column_key_start =
     \<lparr>lek_path_in_schema = None,
      lek_key_metadata = None\<rparr>"

definition step_encryption_with_column_key :: "field_header \<Rightarrow> encryption_with_column_key_locals \<Rightarrow> encryption_with_column_key_locals reader" where
  "step_encryption_with_column_key h a =
     (if on h 1 FT_List then set_some read_list_binary lek_path_in_schema_update a
      else if on h 2 FT_Binary then set_some read_binary lek_key_metadata_update a
      else fail_r (unknown ''EncryptionWithColumnKey'' (fh_id h)))"

definition read_encryption_with_column_key :: "encryption_with_column_key reader" where
  "read_encryption_with_column_key =
     bind_r (read_fields step_encryption_with_column_key 0 encryption_with_column_key_start) (\<lambda>a.
       required (lek_path_in_schema a) (missing ''EncryptionWithColumnKey'' 1) (\<lambda>path_in_schema.
       return_r \<lparr>ek_path_in_schema = path_in_schema,
         ek_key_metadata = lek_key_metadata a\<rparr>))"

lemma safe_read_encryption_with_column_key [safe_rules]: "safe read_encryption_with_column_key"
  unfolding read_encryption_with_column_key_def by (rule safe_struct; (unfold step_encryption_with_column_key_def)?; intro safe_rules)

definition read_encryption_with_footer_key :: "unit reader" where
  "read_encryption_with_footer_key =
     bind_r (read_field_header 0) (\<lambda>ho.
       case ho of Some h \<Rightarrow> fail_r (unknown ''EncryptionWithFooterKey'' (fh_id h))
       | None \<Rightarrow> return_r ())"

lemma safe_read_encryption_with_footer_key [safe_rules]: "safe read_encryption_with_footer_key"
  unfolding read_encryption_with_footer_key_def by (intro safe_rules)

definition step_column_crypto_metadata :: "field_header \<Rightarrow> column_crypto_metadata option \<Rightarrow> column_crypto_metadata option reader" where
  "step_column_crypto_metadata h chosen =
     (if on h 1 FT_Struct then chose (map_r (\<lambda>_. EncryptionWithFooterKey) read_encryption_with_footer_key)
      else if on h 2 FT_Struct then chose (map_r EncryptionWithColumnKey read_encryption_with_column_key)
      else fail_r (unknown ''ColumnCryptoMetaData'' (fh_id h)))"

definition read_column_crypto_metadata :: "column_crypto_metadata reader" where
  "read_column_crypto_metadata =
     bind_r (read_fields step_column_crypto_metadata 0 None) (\<lambda>chosen.
       required chosen (EmptyUnion ''ColumnCryptoMetaData'') return_r)"

lemma safe_read_column_crypto_metadata [safe_rules]: "safe read_column_crypto_metadata"
  unfolding read_column_crypto_metadata_def by (rule safe_struct; (unfold step_column_crypto_metadata_def)?; intro safe_rules)

record file_crypto_metadata_locals =
  lfc_encryption_algorithm :: "encryption_algorithm option"
  lfc_key_metadata :: "bytes option"

definition file_crypto_metadata_start :: file_crypto_metadata_locals where
  "file_crypto_metadata_start =
     \<lparr>lfc_encryption_algorithm = None,
      lfc_key_metadata = None\<rparr>"

definition step_file_crypto_metadata :: "field_header \<Rightarrow> file_crypto_metadata_locals \<Rightarrow> file_crypto_metadata_locals reader" where
  "step_file_crypto_metadata h a =
     (if on h 1 FT_Struct then set_some read_encryption_algorithm lfc_encryption_algorithm_update a
      else if on h 2 FT_Binary then set_some read_binary lfc_key_metadata_update a
      else fail_r (unknown ''FileCryptoMetaData'' (fh_id h)))"

definition read_file_crypto_metadata :: "file_crypto_metadata reader" where
  "read_file_crypto_metadata =
     bind_r (read_fields step_file_crypto_metadata 0 file_crypto_metadata_start) (\<lambda>a.
       required (lfc_encryption_algorithm a) (missing ''FileCryptoMetaData'' 1) (\<lambda>encryption_algorithm.
       return_r \<lparr>fc_encryption_algorithm = Some encryption_algorithm,
         fc_key_metadata = lfc_key_metadata a\<rparr>))"

lemma safe_read_file_crypto_metadata [safe_rules]: "safe read_file_crypto_metadata"
  unfolding read_file_crypto_metadata_def by (rule safe_struct; (unfold step_file_crypto_metadata_def)?; intro safe_rules)

section \<open>Column chunks, row groups, the file\<close>

text \<open>Field 2 of \<open>ColumnMetaData\<close>: the list is read first, then every element is mapped.\<close>

definition read_encodings :: "encoding list reader" where
  "read_encodings = bind_r read_list_i32 (\<lambda>raw. lift_r (mapM_o encoding_from_i32 raw))"

lemma mapM_o_no_panic:
  "(\<And>x m. f x \<noteq> Panic m) \<Longrightarrow> (\<And>x. f x \<noteq> Stuck) \<Longrightarrow> mapM_o f xs \<noteq> Panic m \<and> mapM_o f xs \<noteq> Stuck"
proof (induction xs arbitrary: m)
  case (Cons x xs)
  then show ?case
    by (cases "f x"; cases "mapM_o f xs") auto
qed simp

lemma safe_read_encodings [safe_rules]: "safe read_encodings"
proof -
  have "encoding_from_i32 v \<noteq> Panic m" and "encoding_from_i32 v \<noteq> Stuck" for v m
    by (auto simp: encoding_from_i32_def thrift_from_i32_def split: option.splits)
  then have "safe (lift_r (mapM_o encoding_from_i32 raw))" for raw
    using mapM_o_no_panic [of encoding_from_i32] by (intro safe_lift) auto
  then show ?thesis
    unfolding read_encodings_def by (intro safe_bind safe_rules)
qed

record sorting_column_locals =
  lsc_column_idx :: "i32 option"
  lsc_descending :: "bool option"
  lsc_nulls_first :: "bool option"

definition sorting_column_start :: sorting_column_locals where
  "sorting_column_start =
     \<lparr>lsc_column_idx = None,
      lsc_descending = None,
      lsc_nulls_first = None\<rparr>"

definition step_sorting_column :: "field_header \<Rightarrow> sorting_column_locals \<Rightarrow> sorting_column_locals reader" where
  "step_sorting_column h a =
     (if on h 1 FT_I32 then set_some read_zigzag_i32 lsc_column_idx_update a
      else if on h 2 FT_BoolTrue then set_flag True lsc_descending_update a
      else if on h 2 FT_BoolFalse then set_flag False lsc_descending_update a
      else if on h 3 FT_BoolTrue then set_flag True lsc_nulls_first_update a
      else if on h 3 FT_BoolFalse then set_flag False lsc_nulls_first_update a
      else fail_r (unknown ''SortingColumn'' (fh_id h)))"

definition read_sorting_column :: "sorting_column reader" where
  "read_sorting_column =
     bind_r (read_fields step_sorting_column 0 sorting_column_start) (\<lambda>a.
       required (lsc_column_idx a) (missing ''SortingColumn'' 1) (\<lambda>column_idx.
       required (lsc_descending a) (missing ''SortingColumn'' 2) (\<lambda>descending.
       required (lsc_nulls_first a) (missing ''SortingColumn'' 3) (\<lambda>nulls_first.
       return_r \<lparr>sc_column_idx = column_idx,
         sc_descending = descending,
         sc_nulls_first = nulls_first\<rparr>))))"

lemma safe_read_sorting_column [safe_rules]: "safe read_sorting_column"
  unfolding read_sorting_column_def by (rule safe_struct; (unfold step_sorting_column_def)?; intro safe_rules)

record page_encoding_stats_locals =
  lpe_page_type :: "page_type option"
  lpe_encoding :: "encoding option"
  lpe_count :: "i32 option"

definition page_encoding_stats_start :: page_encoding_stats_locals where
  "page_encoding_stats_start =
     \<lparr>lpe_page_type = None,
      lpe_encoding = None,
      lpe_count = None\<rparr>"

definition step_page_encoding_stats :: "field_header \<Rightarrow> page_encoding_stats_locals \<Rightarrow> page_encoding_stats_locals reader" where
  "step_page_encoding_stats h a =
     (if on h 1 FT_I32 then set_some read_page_type lpe_page_type_update a
      else if on h 2 FT_I32 then set_some read_encoding lpe_encoding_update a
      else if on h 3 FT_I32 then set_some read_zigzag_i32 lpe_count_update a
      else fail_r (unknown ''PageEncodingStats'' (fh_id h)))"

definition read_page_encoding_stats :: "page_encoding_stats reader" where
  "read_page_encoding_stats =
     bind_r (read_fields step_page_encoding_stats 0 page_encoding_stats_start) (\<lambda>a.
       required (lpe_page_type a) (missing ''PageEncodingStats'' 1) (\<lambda>page_type.
       required (lpe_encoding a) (missing ''PageEncodingStats'' 2) (\<lambda>encoding.
       required (lpe_count a) (missing ''PageEncodingStats'' 3) (\<lambda>count.
       return_r \<lparr>pe_page_type = page_type,
         pe_encoding = encoding,
         pe_count = count\<rparr>))))"

lemma safe_read_page_encoding_stats [safe_rules]: "safe read_page_encoding_stats"
  unfolding read_page_encoding_stats_def by (rule safe_struct; (unfold step_page_encoding_stats_def)?; intro safe_rules)

definition size_statistics_default :: size_statistics where
  "size_statistics_default =
     \<lparr>ss_unencoded_byte_array_data_bytes = None,
      ss_repetition_level_histogram = None,
      ss_definition_level_histogram = None\<rparr>"

definition step_size_statistics :: "field_header \<Rightarrow> size_statistics \<Rightarrow> size_statistics reader" where
  "step_size_statistics h a =
     (if on h 1 FT_I64 then set_some read_zigzag_i64 ss_unencoded_byte_array_data_bytes_update a
      else if on h 2 FT_List then set_some read_list_i64 ss_repetition_level_histogram_update a
      else if on h 3 FT_List then set_some read_list_i64 ss_definition_level_histogram_update a
      else fail_r (unknown ''SizeStatistics'' (fh_id h)))"

definition read_size_statistics :: "size_statistics reader" where
  "read_size_statistics = bind_r (read_fields step_size_statistics 0 size_statistics_default) (\<lambda>a. return_r a)"

lemma safe_read_size_statistics [safe_rules]: "safe read_size_statistics"
  unfolding read_size_statistics_def by (rule safe_struct; (unfold step_size_statistics_def)?; intro safe_rules)

record column_metadata_locals =
  lcm_column_type :: "parquet_type option"
  lcm_encodings :: "encoding list option"
  lcm_path_in_schema :: "bytes list option"
  lcm_codec :: "compression_codec option"
  lcm_num_values :: "i64 option"
  lcm_total_uncompressed_size :: "i64 option"
  lcm_total_compressed_size :: "i64 option"
  lcm_key_value_metadata :: "key_value list option"
  lcm_data_page_offset :: "i64 option"
  lcm_index_page_offset :: "i64 option"
  lcm_dictionary_page_offset :: "i64 option"
  lcm_statistics :: "statistics option"
  lcm_encoding_stats :: "page_encoding_stats list option"
  lcm_bloom_filter_offset :: "i64 option"
  lcm_bloom_filter_length :: "i32 option"
  lcm_size_statistics :: "size_statistics option"

definition column_metadata_start :: column_metadata_locals where
  "column_metadata_start =
     \<lparr>lcm_column_type = None,
      lcm_encodings = None,
      lcm_path_in_schema = None,
      lcm_codec = None,
      lcm_num_values = None,
      lcm_total_uncompressed_size = None,
      lcm_total_compressed_size = None,
      lcm_key_value_metadata = None,
      lcm_data_page_offset = None,
      lcm_index_page_offset = None,
      lcm_dictionary_page_offset = None,
      lcm_statistics = None,
      lcm_encoding_stats = None,
      lcm_bloom_filter_offset = None,
      lcm_bloom_filter_length = None,
      lcm_size_statistics = None\<rparr>"

definition step_column_metadata :: "field_header \<Rightarrow> column_metadata_locals \<Rightarrow> column_metadata_locals reader" where
  "step_column_metadata h a =
     (if on h 1 FT_I32 then set_some read_parquet_type lcm_column_type_update a
      else if on h 2 FT_List then set_some read_encodings lcm_encodings_update a
      else if on h 3 FT_List then set_some read_list_binary lcm_path_in_schema_update a
      else if on h 4 FT_I32 then set_some read_compression_codec lcm_codec_update a
      else if on h 5 FT_I64 then set_some read_zigzag_i64 lcm_num_values_update a
      else if on h 6 FT_I64 then set_some read_zigzag_i64 lcm_total_uncompressed_size_update a
      else if on h 7 FT_I64 then set_some read_zigzag_i64 lcm_total_compressed_size_update a
      else if on h 8 FT_List then set_some (read_list_struct sizeof_key_value read_key_value) lcm_key_value_metadata_update a
      else if on h 9 FT_I64 then set_some read_zigzag_i64 lcm_data_page_offset_update a
      else if on h 10 FT_I64 then set_some read_zigzag_i64 lcm_index_page_offset_update a
      else if on h 11 FT_I64 then set_some read_zigzag_i64 lcm_dictionary_page_offset_update a
      else if on h 12 FT_Struct then set_some read_statistics lcm_statistics_update a
      else if on h 13 FT_List then set_some (read_list_struct sizeof_page_encoding_stats read_page_encoding_stats) lcm_encoding_stats_update a
      else if on h 14 FT_I64 then set_some read_zigzag_i64 lcm_bloom_filter_offset_update a
      else if on h 15 FT_I32 then set_some read_zigzag_i32 lcm_bloom_filter_length_update a
      else if on h 16 FT_Struct then set_some read_size_statistics lcm_size_statistics_update a
      else fail_r (unknown ''ColumnMetaData'' (fh_id h)))"

definition read_column_metadata :: "column_metadata reader" where
  "read_column_metadata =
     bind_r (read_fields step_column_metadata 0 column_metadata_start) (\<lambda>a.
       required (lcm_column_type a) (missing ''ColumnMetaData'' 1) (\<lambda>column_type.
       required (lcm_encodings a) (missing ''ColumnMetaData'' 2) (\<lambda>encodings.
       required (lcm_path_in_schema a) (missing ''ColumnMetaData'' 3) (\<lambda>path_in_schema.
       required (lcm_codec a) (missing ''ColumnMetaData'' 4) (\<lambda>codec.
       required (lcm_num_values a) (missing ''ColumnMetaData'' 5) (\<lambda>num_values.
       required (lcm_total_uncompressed_size a) (missing ''ColumnMetaData'' 6) (\<lambda>total_uncompressed_size.
       required (lcm_total_compressed_size a) (missing ''ColumnMetaData'' 7) (\<lambda>total_compressed_size.
       required (lcm_data_page_offset a) (missing ''ColumnMetaData'' 9) (\<lambda>data_page_offset.
       return_r \<lparr>cm_column_type = column_type,
         cm_encodings = encodings,
         cm_path_in_schema = path_in_schema,
         cm_codec = codec,
         cm_num_values = num_values,
         cm_total_uncompressed_size = total_uncompressed_size,
         cm_total_compressed_size = total_compressed_size,
         cm_key_value_metadata = lcm_key_value_metadata a,
         cm_data_page_offset = data_page_offset,
         cm_index_page_offset = lcm_index_page_offset a,
         cm_dictionary_page_offset = lcm_dictionary_page_offset a,
         cm_statistics = lcm_statistics a,
         cm_encoding_stats = lcm_encoding_stats a,
         cm_bloom_filter_offset = lcm_bloom_filter_offset a,
         cm_bloom_filter_length = lcm_bloom_filter_length a,
         cm_size_statistics = lcm_size_statistics a\<rparr>)))))))))"

lemma safe_read_column_metadata [safe_rules]: "safe read_column_metadata"
  unfolding read_column_metadata_def by (rule safe_struct; (unfold step_column_metadata_def)?; intro safe_rules)

record column_chunk_locals =
  lcc_file_path :: "bytes option"
  lcc_file_offset :: "i64 option"
  lcc_meta_data :: "column_metadata option"
  lcc_offset_index_offset :: "i64 option"
  lcc_offset_index_length :: "i32 option"
  lcc_column_index_offset :: "i64 option"
  lcc_column_index_length :: "i32 option"
  lcc_crypto_metadata :: "column_crypto_metadata option"
  lcc_encrypted_column_metadata :: "bytes option"

definition column_chunk_start :: column_chunk_locals where
  "column_chunk_start =
     \<lparr>lcc_file_path = None,
      lcc_file_offset = None,
      lcc_meta_data = None,
      lcc_offset_index_offset = None,
      lcc_offset_index_length = None,
      lcc_column_index_offset = None,
      lcc_column_index_length = None,
      lcc_crypto_metadata = None,
      lcc_encrypted_column_metadata = None\<rparr>"

definition step_column_chunk :: "field_header \<Rightarrow> column_chunk_locals \<Rightarrow> column_chunk_locals reader" where
  "step_column_chunk h a =
     (if on h 1 FT_Binary then set_some read_binary lcc_file_path_update a
      else if on h 2 FT_I64 then set_some read_zigzag_i64 lcc_file_offset_update a
      else if on h 3 FT_Struct then set_some read_column_metadata lcc_meta_data_update a
      else if on h 4 FT_I64 then set_some read_zigzag_i64 lcc_offset_index_offset_update a
      else if on h 5 FT_I32 then set_some read_zigzag_i32 lcc_offset_index_length_update a
      else if on h 6 FT_I64 then set_some read_zigzag_i64 lcc_column_index_offset_update a
      else if on h 7 FT_I32 then set_some read_zigzag_i32 lcc_column_index_length_update a
      else if on h 8 FT_Struct then set_some read_column_crypto_metadata lcc_crypto_metadata_update a
      else if on h 9 FT_Binary then set_some read_binary lcc_encrypted_column_metadata_update a
      else fail_r (unknown ''ColumnChunk'' (fh_id h)))"

definition read_column_chunk :: "column_chunk reader" where
  "read_column_chunk =
     bind_r (read_fields step_column_chunk 0 column_chunk_start) (\<lambda>a.
       required (lcc_file_offset a) (missing ''ColumnChunk'' 2) (\<lambda>file_offset.
       return_r \<lparr>cc_file_path = lcc_file_path a,
         cc_file_offset = file_offset,
         cc_meta_data = lcc_meta_data a,
         cc_offset_index_offset = lcc_offset_index_offset a,
         cc_offset_index_length = lcc_offset_index_length a,
         cc_column_index_offset = lcc_column_index_offset a,
         cc_column_index_length = lcc_column_index_length a,
         cc_crypto_metadata = lcc_crypto_metadata a,
         cc_encrypted_column_metadata = lcc_encrypted_column_metadata a\<rparr>))"

lemma safe_read_column_chunk [safe_rules]: "safe read_column_chunk"
  unfolding read_column_chunk_def by (rule safe_struct; (unfold step_column_chunk_def)?; intro safe_rules)

record row_group_locals =
  lrg_columns :: "column_chunk list option"
  lrg_total_byte_size :: "i64 option"
  lrg_num_rows :: "i64 option"
  lrg_sorting_columns :: "sorting_column list option"
  lrg_file_offset :: "i64 option"
  lrg_total_compressed_size :: "i64 option"
  lrg_ordinal :: "i16 option"

definition row_group_start :: row_group_locals where
  "row_group_start =
     \<lparr>lrg_columns = None,
      lrg_total_byte_size = None,
      lrg_num_rows = None,
      lrg_sorting_columns = None,
      lrg_file_offset = None,
      lrg_total_compressed_size = None,
      lrg_ordinal = None\<rparr>"

definition step_row_group :: "field_header \<Rightarrow> row_group_locals \<Rightarrow> row_group_locals reader" where
  "step_row_group h a =
     (if on h 1 FT_List then set_some (read_list_struct sizeof_column_chunk read_column_chunk) lrg_columns_update a
      else if on h 2 FT_I64 then set_some read_zigzag_i64 lrg_total_byte_size_update a
      else if on h 3 FT_I64 then set_some read_zigzag_i64 lrg_num_rows_update a
      else if on h 4 FT_List then set_some (read_list_struct sizeof_sorting_column read_sorting_column) lrg_sorting_columns_update a
      else if on h 5 FT_I64 then set_some read_zigzag_i64 lrg_file_offset_update a
      else if on h 6 FT_I64 then set_some read_zigzag_i64 lrg_total_compressed_size_update a
      else if on h 7 FT_I16 then set_some read_zigzag_i16 lrg_ordinal_update a
      else fail_r (unknown ''RowGroup'' (fh_id h)))"

definition read_row_group :: "row_group reader" where
  "read_row_group =
     bind_r (read_fields step_row_group 0 row_group_start) (\<lambda>a.
       required (lrg_columns a) (missing ''RowGroup'' 1) (\<lambda>columns.
       required (lrg_total_byte_size a) (missing ''RowGroup'' 2) (\<lambda>total_byte_size.
       required (lrg_num_rows a) (missing ''RowGroup'' 3) (\<lambda>num_rows.
       return_r \<lparr>rg_columns = columns,
         rg_total_byte_size = total_byte_size,
         rg_num_rows = num_rows,
         rg_sorting_columns = lrg_sorting_columns a,
         rg_file_offset = lrg_file_offset a,
         rg_total_compressed_size = lrg_total_compressed_size a,
         rg_ordinal = lrg_ordinal a\<rparr>))))"

lemma safe_read_row_group [safe_rules]: "safe read_row_group"
  unfolding read_row_group_def by (rule safe_struct; (unfold step_row_group_def)?; intro safe_rules)

record file_metadata_locals =
  lfm_version :: "i32 option"
  lfm_schema :: "schema_element list option"
  lfm_num_rows :: "i64 option"
  lfm_row_groups :: "row_group list option"
  lfm_key_value_metadata :: "key_value list option"
  lfm_created_by :: "bytes option"
  lfm_column_orders :: "column_order list option"
  lfm_encryption_algorithm :: "encryption_algorithm option"
  lfm_footer_signing_key_metadata :: "bytes option"

definition file_metadata_start :: file_metadata_locals where
  "file_metadata_start =
     \<lparr>lfm_version = None,
      lfm_schema = None,
      lfm_num_rows = None,
      lfm_row_groups = None,
      lfm_key_value_metadata = None,
      lfm_created_by = None,
      lfm_column_orders = None,
      lfm_encryption_algorithm = None,
      lfm_footer_signing_key_metadata = None\<rparr>"

definition step_file_metadata :: "field_header \<Rightarrow> file_metadata_locals \<Rightarrow> file_metadata_locals reader" where
  "step_file_metadata h a =
     (if on h 1 FT_I32 then set_some read_zigzag_i32 lfm_version_update a
      else if on h 2 FT_List then set_some (read_list_struct sizeof_schema_element read_schema_element) lfm_schema_update a
      else if on h 3 FT_I64 then set_some read_zigzag_i64 lfm_num_rows_update a
      else if on h 4 FT_List then set_some (read_list_struct sizeof_row_group read_row_group) lfm_row_groups_update a
      else if on h 5 FT_List then set_some (read_list_struct sizeof_key_value read_key_value) lfm_key_value_metadata_update a
      else if on h 6 FT_Binary then set_some read_binary lfm_created_by_update a
      else if on h 7 FT_List then set_some (read_list_struct sizeof_column_order read_column_order) lfm_column_orders_update a
      else if on h 8 FT_Struct then set_some read_encryption_algorithm lfm_encryption_algorithm_update a
      else if on h 9 FT_Binary then set_some read_binary lfm_footer_signing_key_metadata_update a
      else fail_r (unknown ''FileMetaData'' (fh_id h)))"

definition read_file_metadata :: "file_metadata reader" where
  "read_file_metadata =
     bind_r (read_fields step_file_metadata 0 file_metadata_start) (\<lambda>a.
       required (lfm_version a) (missing ''FileMetaData'' 1) (\<lambda>version.
       required (lfm_schema a) (missing ''FileMetaData'' 2) (\<lambda>schema.
       required (lfm_num_rows a) (missing ''FileMetaData'' 3) (\<lambda>num_rows.
       required (lfm_row_groups a) (missing ''FileMetaData'' 4) (\<lambda>row_groups.
       return_r \<lparr>fm_version = version,
         fm_schema = schema,
         fm_num_rows = num_rows,
         fm_row_groups = row_groups,
         fm_key_value_metadata = lfm_key_value_metadata a,
         fm_created_by = lfm_created_by a,
         fm_column_orders = lfm_column_orders a,
         fm_encryption_algorithm = lfm_encryption_algorithm a,
         fm_footer_signing_key_metadata = lfm_footer_signing_key_metadata a\<rparr>)))))"

lemma safe_read_file_metadata [safe_rules]: "safe read_file_metadata"
  unfolding read_file_metadata_def by (rule safe_struct; (unfold step_file_metadata_def)?; intro safe_rules)

end
