(* ===== verification/MetadataWrite.thy ===== *)
theory MetadataWrite
  imports MetadataRead
begin

text \<open>
  The struct writers of \<open>ematix-parquet-format/src/metadata_writer.rs\<close>, field by field in the source's
  order and with the previous ids the source passes.  A writer that meets a field it does not
  support panics in the source; such a writer returns an outcome here (\<open>refuse\<close>, \<open>Panic\<close>), with the
  check at the place the source has it.
\<close>

section \<open>Statistics, key-value pairs, page headers\<close>

definition encode_statistics :: "writer \<Rightarrow> statistics \<Rightarrow> writer" where
  "encode_statistics w s =
     (let st = (w, 0);
          st = put_opt 1 FT_Binary write_binary (st_max s) st;
          st = put_opt 2 FT_Binary write_binary (st_min s) st;
          st = put_opt 3 FT_I64 write_zigzag_i64 (st_null_count s) st;
          st = put_opt 4 FT_I64 write_zigzag_i64 (st_distinct_count s) st;
          st = put_opt 5 FT_Binary write_binary (st_max_value s) st;
          st = put_opt 6 FT_Binary write_binary (st_min_value s) st;
          st = put_bool 7 (st_is_max_value_exact s) st;
          st = put_bool 8 (st_is_min_value_exact s) st
      in finish st)"

definition encode_key_value :: "writer \<Rightarrow> key_value \<Rightarrow> writer" where
  "encode_key_value w kv =
     (let st = (w, 0);
          st = put 1 FT_Binary 0 write_binary (kv_key kv) st;
          st = put_opt 2 FT_Binary write_binary (kv_value kv) st
      in finish st)"

definition encode_data_page_header :: "writer \<Rightarrow> data_page_header \<Rightarrow> writer" where
  "encode_data_page_header w dph =
     (let st = (w, 0);
          st = put 1 FT_I32 0 write_zigzag_i32 (dh_num_values dph) st;
          st = put 2 FT_I32 1 (write_enum encoding_code) (dh_encoding dph) st;
          st = put 3 FT_I32 2 (write_enum encoding_code) (dh_definition_level_encoding dph) st;
          st = put 4 FT_I32 3 (write_enum encoding_code) (dh_repetition_level_encoding dph) st;
          st = put_opt 5 FT_Struct encode_statistics (dh_statistics dph) st
      in finish st)"

definition encode_dictionary_page_header :: "writer \<Rightarrow> dictionary_page_header \<Rightarrow> writer" where
  "encode_dictionary_page_header w dictph =
     (let st = (w, 0);
          st = put 1 FT_I32 0 write_zigzag_i32 (di_num_values dictph) st;
          st = put 2 FT_I32 1 (write_enum encoding_code) (di_encoding dictph) st;
          st = put_bool 3 (di_is_sorted dictph) st
      in finish st)"

text \<open>\<open>if !dph.is_compressed \{ header with BoolFalse; prev = 7 \}\<close>: the default \<open>true\<close> is not written.\<close>

definition put_false :: "i16 \<Rightarrow> bool \<Rightarrow> wstate \<Rightarrow> wstate" where
  "put_false i b st = (if \<not> b then (write_field_header (fst st) i FT_BoolFalse (snd st), i) else st)"

definition encode_data_page_header_v2 :: "writer \<Rightarrow> data_page_header_v2 \<Rightarrow> writer" where
  "encode_data_page_header_v2 w dph =
     (let st = (w, 0);
          st = put 1 FT_I32 0 write_zigzag_i32 (d2_num_values dph) st;
          st = put 2 FT_I32 1 write_zigzag_i32 (d2_num_nulls dph) st;
          st = put 3 FT_I32 2 write_zigzag_i32 (d2_num_rows dph) st;
          st = put 4 FT_I32 3 (write_enum encoding_code) (d2_encoding dph) st;
          st = put 5 FT_I32 4 write_zigzag_i32 (d2_definition_levels_byte_length dph) st;
          st = put 6 FT_I32 5 write_zigzag_i32 (d2_repetition_levels_byte_length dph) st;
          st = put_false 7 (d2_is_compressed dph) st;
          st = put_opt 8 FT_Struct encode_statistics (d2_statistics dph) st
      in finish st)"

text \<open>An empty struct is its stop byte.\<close>

definition write_empty_struct :: "writer \<Rightarrow> 'u \<Rightarrow> writer" where
  "write_empty_struct w u = write_field_stop w"

definition encode_page_header :: "writer \<Rightarrow> page_header \<Rightarrow> writer" where
  "encode_page_header w hdr =
     (let st = (w, 0);
          st = put 1 FT_I32 0 (write_enum page_type_code) (ph_page_type hdr) st;
          st = put 2 FT_I32 1 write_zigzag_i32 (ph_uncompressed_page_size hdr) st;
          st = put 3 FT_I32 2 write_zigzag_i32 (ph_compressed_page_size hdr) st;
          st = put_opt 4 FT_I32 write_zigzag_i32 (ph_crc hdr) st;
          st = put_opt 5 FT_Struct encode_data_page_header (ph_data_page_header hdr) st;
          st = put_opt 6 FT_Struct write_empty_struct (ph_index_page_header hdr) st;
          st = put_opt 7 FT_Struct encode_dictionary_page_header (ph_dictionary_page_header hdr) st;
          st = put_opt 8 FT_Struct encode_data_page_header_v2 (ph_data_page_header_v2 hdr) st
      in finish st)"

definition write_page_header :: "page_header \<Rightarrow> bytes" where
  "write_page_header hdr = encode_page_header [] hdr"

section \<open>Encryption descriptors\<close>

definition encode_aes_gcm_v1 :: "writer \<Rightarrow> aes_gcm_v1 \<Rightarrow> writer" where
  "encode_aes_gcm_v1 w v =
     (let st = (w, 0);
          st = put_opt 1 FT_Binary write_binary (ag_aad_prefix v) st;
          st = put_opt 2 FT_Binary write_binary (ag_aad_file_unique v) st;
          st = put_bool 3 (ag_supply_aad_prefix v) st
      in finish st)"

definition encode_aes_gcm_ctr_v1 :: "writer \<Rightarrow> aes_gcm_ctr_v1 \<Rightarrow> writer" where
  "encode_aes_gcm_ctr_v1 w v =
     (let st = (w, 0);
          st = put_opt 1 FT_Binary write_binary (ac_aad_prefix v) st;
          st = put_opt 2 FT_Binary write_binary (ac_aad_file_unique v) st;
          st = put_bool 3 (ac_supply_aad_prefix v) st
      in finish st)"

fun encode_encryption_algorithm :: "writer \<Rightarrow> encryption_algorithm \<Rightarrow> writer" where
  "encode_encryption_algorithm w (AesGcmV1 v) =
     finish (put 1 FT_Struct 0 encode_aes_gcm_v1 v (w, 0))"
| "encode_encryption_algorithm w (AesGcmCtrV1 v) =
     finish (put 2 FT_Struct 0 encode_aes_gcm_ctr_v1 v (w, 0))"

definition encode_encryption_with_column_key :: "writer \<Rightarrow> encryption_with_column_key \<Rightarrow> writer" where
  "encode_encryption_with_column_key w k =
     (let st = (w, 0);
          st = put 1 FT_List 0 (write_list_of FT_Binary write_binary) (ek_path_in_schema k) st;
          st = put_opt 2 FT_Binary write_binary (ek_key_metadata k) st
      in finish st)"

fun encode_column_crypto_metadata :: "writer \<Rightarrow> column_crypto_metadata \<Rightarrow> writer" where
  "encode_column_crypto_metadata w EncryptionWithFooterKey =
     finish (put 1 FT_Struct 0 write_empty_struct () (w, 0))"
| "encode_column_crypto_metadata w (EncryptionWithColumnKey k) =
     finish (put 2 FT_Struct 0 encode_encryption_with_column_key k (w, 0))"

definition encode_file_crypto_metadata ::
  "writer \<Rightarrow> file_crypto_metadata \<Rightarrow> (format_error, writer) outcome" where
  "encode_file_crypto_metadata w fcm =
     (case fc_encryption_algorithm fcm of
        None \<Rightarrow> Panic ''FileCryptoMetaData.encryption_algorithm is required''
      | Some alg \<Rightarrow>
          (let st = (w, 0);
               st = put 1 FT_Struct 0 encode_encryption_algorithm alg st;
               st = put_opt 2 FT_Binary write_binary (fc_key_metadata fcm) st
           in Ok (finish st)))"

definition write_file_crypto_metadata ::
  "file_crypto_metadata \<Rightarrow> (format_error, bytes) outcome" where
  "write_file_crypto_metadata fcm = encode_file_crypto_metadata [] fcm"

section \<open>Schema elements, column chunks, row groups, the file\<close>

definition encode_schema_element ::
  "writer \<Rightarrow> schema_element \<Rightarrow> (format_error, writer) outcome" where
  "encode_schema_element w se =
     bind_o
       (let st = (w, 0);
            st = put_opt 1 FT_I32 (write_enum parquet_type_code) (se_column_type se) st;
            st = put_opt 2 FT_I32 write_zigzag_i32 (se_type_length se) st;
            st = put_opt 3 FT_I32 (write_enum field_repetition_type_code) (se_repetition_type se) st;
            st = put 4 FT_Binary (snd st) write_binary (se_name se) st;
            st = put_opt 5 FT_I32 write_zigzag_i32 (se_num_children se) st;
            st = put_opt 6 FT_I32 (write_enum converted_type_code) (se_converted_type se) st;
            st = put_opt 7 FT_I32 write_zigzag_i32 (se_scale se) st;
            st = put_opt 8 FT_I32 write_zigzag_i32 (se_precision se) st;
            st = put_opt 9 FT_I32 write_zigzag_i32 (se_field_id se) st
        in refuse (se_logical_type se) ''SchemaElement.logical_type write not yet implemented'' st)
       (\<lambda>st. Ok (finish st))"

definition write_encodings :: "writer \<Rightarrow> encoding list \<Rightarrow> writer" where
  "write_encodings w encodings = write_list_i32 w (map encoding_code encodings)"

definition encode_column_metadata ::
  "writer \<Rightarrow> column_metadata \<Rightarrow> (format_error, writer) outcome" where
  "encode_column_metadata w cm =
     bind_o
       (let st = (w, 0);
            st = put 1 FT_I32 0 (write_enum parquet_type_code) (cm_column_type cm) st;
            st = put 2 FT_List 1 write_encodings (cm_encodings cm) st;
            st = put 3 FT_List 2 write_list_binary (cm_path_in_schema cm) st;
            st = put 4 FT_I32 3 (write_enum compression_codec_code) (cm_codec cm) st;
            st = put 5 FT_I64 4 write_zigzag_i64 (cm_num_values cm) st;
            st = put 6 FT_I64 5 write_zigzag_i64 (cm_total_uncompressed_size cm) st;
            st = put 7 FT_I64 6 write_zigzag_i64 (cm_total_compressed_size cm) st
        in bind_o (refuse (cm_key_value_metadata cm)
             ''ColumnMetaData.key_value_metadata write not yet implemented'' st) (\<lambda>st.
        let st = put 9 FT_I64 (snd st) write_zigzag_i64 (cm_data_page_offset cm) st;
            st = put_opt 10 FT_I64 write_zigzag_i64 (cm_index_page_offset cm) st;
            st = put_opt 11 FT_I64 write_zigzag_i64 (cm_dictionary_page_offset cm) st;
            st = put_opt 12 FT_Struct encode_statistics (cm_statistics cm) st
        in bind_o (refuse (cm_encoding_stats cm)
             ''ColumnMetaData.encoding_stats write not yet implemented'' st) (\<lambda>st.
        let st = put_opt 14 FT_I64 write_zigzag_i64 (cm_bloom_filter_offset cm) st;
            st = put_opt 15 FT_I32 write_zigzag_i32 (cm_bloom_filter_length cm) st
        in refuse (cm_size_statistics cm)
             ''ColumnMetaData.size_statistics write not yet implemented'' st)))
       (\<lambda>st. Ok (finish st))"

definition encode_column_chunk ::
  "writer \<Rightarrow> column_chunk \<Rightarrow> (format_error, writer) outcome" where
  "encode_column_chunk w cc =
     bind_o
       (let st = (w, 0);
            st = put_opt 1 FT_Binary write_binary (cc_file_path cc) st;
            st = put 2 FT_I64 (snd st) write_zigzag_i64 (cc_file_offset cc) st
        in bind_o (put_opt_o 3 FT_Struct encode_column_metadata (cc_meta_data cc) st) (\<lambda>st.
        let st = put_opt 4 FT_I64 write_zigzag_i64 (cc_offset_index_offset cc) st;
            st = put_opt 5 FT_I32 write_zigzag_i32 (cc_offset_index_length cc) st;
            st = put_opt 6 FT_I64 write_zigzag_i64 (cc_column_index_offset cc) st;
            st = put_opt 7 FT_I32 write_zigzag_i32 (cc_column_index_length cc) st;
            st = put_opt 8 FT_Struct encode_column_crypto_metadata (cc_crypto_metadata cc) st;
            st = put_opt 9 FT_Binary write_binary (cc_encrypted_column_metadata cc) st
        in Ok st))
       (\<lambda>st. Ok (finish st))"

definition write_column_chunk :: "column_chunk \<Rightarrow> (format_error, bytes) outcome" where
  "write_column_chunk cc = encode_column_chunk [] cc"

definition encode_row_group :: "writer \<Rightarrow> row_group \<Rightarrow> (format_error, writer) outcome" where
  "encode_row_group w rg =
     bind_o
       (bind_o (put_o 1 FT_List 0 (write_list_of_o FT_Struct encode_column_chunk) (rg_columns rg)
                  (w, 0)) (\<lambda>st.
        let st = put 2 FT_I64 1 write_zigzag_i64 (rg_total_byte_size rg) st;
            st = put 3 FT_I64 2 write_zigzag_i64 (rg_num_rows rg) st
        in bind_o (refuse (rg_sorting_columns rg)
             ''RowGroup.sorting_columns write not yet implemented'' st) (\<lambda>st.
        let st = put_opt 5 FT_I64 write_zigzag_i64 (rg_file_offset rg) st;
            st = put_opt 6 FT_I64 write_zigzag_i64 (rg_total_compressed_size rg) st;
            st = put_opt 7 FT_I16 write_zigzag_i16 (rg_ordinal rg) st
        in Ok st)))
       (\<lambda>st. Ok (finish st))"

definition encode_file_metadata ::
  "writer \<Rightarrow> file_metadata \<Rightarrow> (format_error, writer) outcome" where
  "encode_file_metadata w md =
     bind_o
       (let st = put 1 FT_I32 0 write_zigzag_i32 (fm_version md) (w, 0)
        in bind_o (put_o 2 FT_List 1 (write_list_of_o FT_Struct encode_schema_element)
             (fm_schema md) st) (\<lambda>st.
        let st = put 3 FT_I64 2 write_zigzag_i64 (fm_num_rows md) st
        in bind_o (put_o 4 FT_List 3 (write_list_of_o FT_Struct encode_row_group)
             (fm_row_groups md) st) (\<lambda>st.
        let st = put_opt 5 FT_List (write_list_of FT_Struct encode_key_value)
                   (fm_key_value_metadata md) st;
            st = put_opt 6 FT_Binary write_binary (fm_created_by md) st
        in bind_o (refuse (fm_column_orders md)
             ''FileMetaData.column_orders write not yet implemented'' st) (\<lambda>st.
        let st = put_opt 8 FT_Struct encode_encryption_algorithm (fm_encryption_algorithm md) st;
            st = put_opt 9 FT_Binary write_binary (fm_footer_signing_key_metadata md) st
        in Ok st))))
       (\<lambda>st. Ok (finish st))"

definition write_file_metadata :: "file_metadata \<Rightarrow> (format_error, bytes) outcome" where
  "write_file_metadata md = encode_file_metadata [] md"

end
