(* ===== verification/MetadataRoundtrip.thy ===== *)
theory MetadataRoundtrip
  imports MetadataWrite
begin

text \<open>
  What the writers of \<open>metadata_writer.rs\<close> encode, the readers of \<open>metadata.rs\<close> decode, struct by
  struct: \<open>codec_X\<close> (writers without a panic) and \<open>codec_o_X\<close> (writers that may panic), by the
  simulation rules of StructCodec.  \<open>good_X\<close> says that every byte string and list of a value has
  fewer than \<open>2^64\<close> elements and every list of structs takes less than \<open>2^63\<close> bytes, which Rust
  guarantees of every slice and \<open>Vec\<close>.
\<close>

section \<open>Extra shapes\<close>

lemma sync_put_false:
  assumes "sync step a0 w0 st acc"
    and "\<And>a. step \<lparr>fh_id = i, fh_type = FT_BoolFalse\<rparr> a = return_r (upd (\<lambda>_. False) a)"
    and "upd (\<lambda>_. True) acc = acc"
  shows "sync step a0 w0 (put_false i b st) (upd (\<lambda>_. b) acc)"
proof (cases b)
  case True
  with assms(1,3) show ?thesis by (simp add: put_false_def)
next
  case False
  have "reads (step \<lparr>fh_id = i, fh_type = FT_BoolFalse\<rparr> acc) [] (upd (\<lambda>_. False) acc)"
    using assms(2) by (simp add: reads_return)
  from sync_field [OF assms(1) _ this] False show ?thesis
    by (simp add: put_false_def)
qed

text \<open>A struct field whose writer may panic, followed by the rest of the fields: the id it leaves
  is the literal the code passes as the next previous id.\<close>

lemma sync_put_o_bind:
  assumes "sync step a0 w0 st acc" and "snd st = p"
    and "\<And>a. step \<lparr>fh_id = i, fh_type = t\<rparr> a = set_some rd upd a"
    and "codec_o wr rd x"
    and "\<And>st'. sync step a0 w0 st' (upd (\<lambda>_. Some x) acc) \<Longrightarrow> snd st' = i \<Longrightarrow> sync_o step a0 w0 (f st') acc'"
  shows "sync_o step a0 w0 (bind_o (put_o i t p wr x st) f) acc'"
proof -
  have "snd st' = i" if "put_o i t p wr x st = Ok st'" for st'
    using that by (auto simp: put_o_def bind_o_eq_Ok_iff)
  with sync_put_o [OF assms(1-4)] assms(5) show ?thesis
    by (auto simp: sync_o_def bind_o_eq_Ok_iff)
qed

text \<open>A union's single field: \<open>chosen\<close> goes from \<open>None\<close> to the variant.\<close>

lemma sync_put_variant:
  assumes "step \<lparr>fh_id = i, fh_type = t\<rparr> None = chose rd"
    and "\<And>w. \<exists>body. wr w x = w @ body \<and> reads rd body v"
  shows "sync step None w (put i t 0 wr x (w, 0)) (Some v)"
proof -
  obtain body where "wr (write_field_header w i t 0) x = write_field_header w i t 0 @ body"
    and "reads rd body v" using assms(2) by blast
  then show ?thesis
    unfolding put_def by (intro sync_field [OF sync_start]) (auto simp: assms(1) chose_def intro: reads_bind_return)
qed

lemma reads_empty_struct:
  "reads (bind_r (read_field_header 0) (\<lambda>ho. case ho of Some h \<Rightarrow> f h | None \<Rightarrow> return_r v)) [0] v"
  using reads_bind [OF reads_stop, of "\<lambda>ho. case ho of Some h \<Rightarrow> f h | None \<Rightarrow> return_r v" "[]" v 0]
  by (simp add: reads_return)

lemma codec_empty_struct [codec_rules]:
  "codec write_empty_struct read_index_page_header i"
  "codec write_empty_struct read_encryption_with_footer_key u"
  unfolding codec_def write_empty_struct_def write_field_stop_def
    read_index_page_header_def read_encryption_with_footer_key_def
  by (cases i; blast intro: reads_empty_struct) (cases u; blast intro: reads_empty_struct)

lemma codec_map_r: "codec wr rd x \<Longrightarrow> \<exists>body. wr w x = w @ body \<and> reads (map_r f rd) body (f x)"
  unfolding codec_def map_r_def using reads_bind_return by fast


section \<open>Statistics, key-value pairs, page headers\<close>

definition good_statistics :: "statistics \<Rightarrow> bool" where
  "good_statistics x \<longleftrightarrow> pred_option fits (st_max x) \<and>
     pred_option fits (st_min x) \<and>
     pred_option fits (st_max_value x) \<and>
     pred_option fits (st_min_value x)"

lemma codec_statistics [codec_rules]:
  "good_statistics x \<Longrightarrow> codec encode_statistics read_statistics x"
  unfolding read_statistics_def good_statistics_def
  by (rule codec_struct, simp only: encode_statistics_def Let_def, (rule sync_rules sync_put_false)+,
      ((rule codec_rules; simp; fail) | simp add: step_statistics_def statistics_default_def | (cases x; simp))+)

definition good_key_value :: "key_value \<Rightarrow> bool" where
  "good_key_value x \<longleftrightarrow> fits (kv_key x) \<and>
     pred_option fits (kv_value x)"

lemma codec_key_value [codec_rules]:
  "good_key_value x \<Longrightarrow> codec encode_key_value read_key_value x"
  unfolding read_key_value_def good_key_value_def
  by (rule codec_struct, simp only: encode_key_value_def Let_def, (rule sync_rules sync_put_false)+,
      ((rule codec_rules; simp; fail) | simp add: step_key_value_def key_value_start_def | (cases x; simp))+)

definition good_data_page_header :: "data_page_header \<Rightarrow> bool" where
  "good_data_page_header x \<longleftrightarrow> pred_option good_statistics (dh_statistics x)"

lemma codec_data_page_header [codec_rules]:
  "good_data_page_header x \<Longrightarrow> codec encode_data_page_header read_data_page_header x"
  unfolding read_data_page_header_def good_data_page_header_def
  by (rule codec_struct, simp only: encode_data_page_header_def Let_def, (rule sync_rules sync_put_false)+,
      ((rule codec_rules; simp; fail) | simp add: step_data_page_header_def data_page_header_start_def | (cases x; simp))+)

lemma codec_dictionary_page_header [codec_rules]:
  "codec encode_dictionary_page_header read_dictionary_page_header x"
  unfolding read_dictionary_page_header_def
  by (rule codec_struct, simp only: encode_dictionary_page_header_def Let_def, (rule sync_rules sync_put_false)+,
      ((rule codec_rules; simp; fail) | simp add: step_dictionary_page_header_def dictionary_page_header_start_def | (cases x; simp))+)

definition good_data_page_header_v2 :: "data_page_header_v2 \<Rightarrow> bool" where
  "good_data_page_header_v2 x \<longleftrightarrow> pred_option good_statistics (d2_statistics x)"

lemma codec_data_page_header_v2 [codec_rules]:
  "good_data_page_header_v2 x \<Longrightarrow> codec encode_data_page_header_v2 read_data_page_header_v2 x"
  unfolding read_data_page_header_v2_def good_data_page_header_v2_def
  by (rule codec_struct, simp only: encode_data_page_header_v2_def Let_def, (rule sync_rules sync_put_false)+,
      ((rule codec_rules; simp; fail) | simp add: step_data_page_header_v2_def data_page_header_v2_start_def | (cases x; simp))+)

definition good_page_header :: "page_header \<Rightarrow> bool" where
  "good_page_header x \<longleftrightarrow> pred_option good_data_page_header (ph_data_page_header x) \<and>
     pred_option good_data_page_header_v2 (ph_data_page_header_v2 x)"

lemma codec_page_header [codec_rules]:
  "good_page_header x \<Longrightarrow> codec encode_page_header read_page_header x"
  unfolding read_page_header_def good_page_header_def
  by (rule codec_struct, simp only: encode_page_header_def Let_def, (rule sync_rules sync_put_false)+,
      ((rule codec_rules; simp; fail) | simp add: step_page_header_def page_header_start_def | (cases x; simp))+)

section \<open>Encryption descriptors\<close>

definition good_aes_gcm_v1 :: "aes_gcm_v1 \<Rightarrow> bool" where
  "good_aes_gcm_v1 x \<longleftrightarrow> pred_option fits (ag_aad_prefix x) \<and>
     pred_option fits (ag_aad_file_unique x)"

lemma codec_aes_gcm_v1 [codec_rules]:
  "good_aes_gcm_v1 x \<Longrightarrow> codec encode_aes_gcm_v1 read_aes_gcm_v1 x"
  unfolding read_aes_gcm_v1_def good_aes_gcm_v1_def
  by (rule codec_struct, simp only: encode_aes_gcm_v1_def Let_def, (rule sync_rules sync_put_false)+,
      ((rule codec_rules; simp; fail) | simp add: step_aes_gcm_v1_def aes_gcm_v1_default_def | (cases x; simp))+)

definition good_aes_gcm_ctr_v1 :: "aes_gcm_ctr_v1 \<Rightarrow> bool" where
  "good_aes_gcm_ctr_v1 x \<longleftrightarrow> pred_option fits (ac_aad_prefix x) \<and>
     pred_option fits (ac_aad_file_unique x)"

lemma codec_aes_gcm_ctr_v1 [codec_rules]:
  "good_aes_gcm_ctr_v1 x \<Longrightarrow> codec encode_aes_gcm_ctr_v1 read_aes_gcm_ctr_v1 x"
  unfolding read_aes_gcm_ctr_v1_def good_aes_gcm_ctr_v1_def
  by (rule codec_struct, simp only: encode_aes_gcm_ctr_v1_def Let_def, (rule sync_rules sync_put_false)+,
      ((rule codec_rules; simp; fail) | simp add: step_aes_gcm_ctr_v1_def aes_gcm_ctr_v1_default_def | (cases x; simp))+)

lemma codec_list_of_binary [codec_rules]:
  "fits bss \<Longrightarrow> list_all fits bss \<Longrightarrow> codec write_list_binary read_list_binary bss"
  "fits bss \<Longrightarrow> list_all fits bss \<Longrightarrow> codec (write_list_of FT_Binary write_binary) read_list_binary bss"
  using codec_lists(3) unfolding write_list_binary_def by (auto simp: list_all_iff)

definition good_encryption_with_column_key :: "encryption_with_column_key \<Rightarrow> bool" where
  "good_encryption_with_column_key x \<longleftrightarrow> fits (ek_path_in_schema x) \<and> list_all fits (ek_path_in_schema x) \<and>
     pred_option fits (ek_key_metadata x)"

lemma codec_encryption_with_column_key [codec_rules]:
  "good_encryption_with_column_key x \<Longrightarrow> codec encode_encryption_with_column_key read_encryption_with_column_key x"
  unfolding read_encryption_with_column_key_def good_encryption_with_column_key_def
  by (rule codec_struct, simp only: encode_encryption_with_column_key_def Let_def, (rule sync_rules sync_put_false)+,
      ((rule codec_rules; simp; fail) | simp add: step_encryption_with_column_key_def encryption_with_column_key_start_def | (cases x; simp))+)

lemma codec_union:
  assumes "\<And>w. wr w x = finish (put i FT_Struct 0 wr' y (w, 0))"
    and "\<And>w. \<exists>body. wr' w y = w @ body \<and> reads rd body x"
    and "step \<lparr>fh_id = i, fh_type = FT_Struct\<rparr> None = chose rd"
  shows "codec wr (bind_r (read_fields step 0 None) (\<lambda>chosen. required chosen e return_r)) x"
  by (rule codec_struct, rule assms(1), rule sync_put_variant, rule assms(3), rule assms(2)) simp

primrec good_encryption_algorithm :: "encryption_algorithm \<Rightarrow> bool" where
  "good_encryption_algorithm (AesGcmV1 v) = good_aes_gcm_v1 v"
| "good_encryption_algorithm (AesGcmCtrV1 v) = good_aes_gcm_ctr_v1 v"

lemma codec_encryption_algorithm [codec_rules]:
  "good_encryption_algorithm x \<Longrightarrow> codec encode_encryption_algorithm read_encryption_algorithm x"
  unfolding read_encryption_algorithm_def
  by (cases x; simp)
    (rule codec_union, simp, rule codec_map_r, erule codec_rules, simp add: step_encryption_algorithm_def)+

primrec good_column_crypto_metadata :: "column_crypto_metadata \<Rightarrow> bool" where
  "good_column_crypto_metadata EncryptionWithFooterKey = True"
| "good_column_crypto_metadata (EncryptionWithColumnKey k) = good_encryption_with_column_key k"

lemma codec_column_crypto_metadata [codec_rules]:
  "good_column_crypto_metadata x \<Longrightarrow> codec encode_column_crypto_metadata read_column_crypto_metadata x"
proof (cases x)
  case EncryptionWithFooterKey
  show ?thesis
    unfolding read_column_crypto_metadata_def EncryptionWithFooterKey
    by (rule codec_union [of _ _ _ write_empty_struct "()"], simp,
        rule codec_map_r [of _ _ _ _ "\<lambda>_. EncryptionWithFooterKey"], rule codec_rules,
        simp add: step_column_crypto_metadata_def)
next
  case (EncryptionWithColumnKey k)
  moreover assume "good_column_crypto_metadata x"
  ultimately show ?thesis
    unfolding read_column_crypto_metadata_def EncryptionWithColumnKey
    by (auto intro!: codec_union codec_map_r codec_rules simp: step_column_crypto_metadata_def)
qed

definition good_file_crypto_metadata :: "file_crypto_metadata \<Rightarrow> bool" where
  "good_file_crypto_metadata x \<longleftrightarrow>
     pred_option good_encryption_algorithm (fc_encryption_algorithm x) \<and>
     pred_option fits (fc_key_metadata x)"

lemma codec_o_file_crypto_metadata [codec_rules]:
  assumes "good_file_crypto_metadata x"
  shows "codec_o encode_file_crypto_metadata read_file_crypto_metadata x"
proof (cases "fc_encryption_algorithm x")
  case None
  then show ?thesis by (simp add: codec_o_def encode_file_crypto_metadata_def)
next
  case (Some alg)
  with assms have good: "good_encryption_algorithm alg" "pred_option fits (fc_key_metadata x)"
    by (simp_all add: good_file_crypto_metadata_def)
  define wr where "wr w (u :: file_crypto_metadata) =
    finish (put_opt 2 FT_Binary write_binary (fc_key_metadata x)
             (put 1 FT_Struct 0 encode_encryption_algorithm alg (w, 0)))" for w u
  have "codec wr read_file_crypto_metadata x"
    unfolding read_file_crypto_metadata_def
    by (rule codec_struct, simp only: wr_def, (rule sync_rules)+,
        ((rule codec_rules; insert good; simp; fail)
         | simp add: step_file_crypto_metadata_def file_crypto_metadata_start_def Some good
         | (cases x; insert Some; simp))+)
  then show ?thesis
    by (simp add: codec_def codec_o_def encode_file_crypto_metadata_def Some wr_def Let_def)
qed

section \<open>When a writer panics\<close>

text \<open>\<open>answers m b\<close>: the writer returns if \<open>b\<close>, and panics if not; there is no third way.\<close>

definition answers :: "('e, 'x) outcome \<Rightarrow> bool \<Rightarrow> bool" where
  "answers m b \<longleftrightarrow> (if b then \<exists>x. m = Ok x else \<exists>msg. m = Panic msg)"

named_theorems answers_rules \<open>when each writer returns\<close>

lemma answers_Ok [answers_rules]: "answers (Ok x) True"
  by (simp add: answers_def)

lemma answers_eq: "answers m b \<Longrightarrow> b = c \<Longrightarrow> answers m c"
  by simp

lemma answers_refuse [answers_rules]: "answers (refuse v msg st) (v = None)"
  by (simp add: answers_def refuse_def)

lemma answers_bind [answers_rules]:
  "answers m b \<Longrightarrow> (\<And>x. answers (f x) c) \<Longrightarrow> answers (bind_o m f) (b \<and> c)"
  by (cases m) (auto simp: answers_def split: if_splits)

lemma answers_put_o [answers_rules]: "(\<And>w. answers (wr w x) b) \<Longrightarrow> answers (put_o i t p wr x st) b"
  unfolding put_o_def by (rule answers_eq, rule answers_bind, assumption, rule answers_Ok) simp

lemma answers_put_opt_o [answers_rules]:
  "(\<And>w x. answers (wr w x) (ok x)) \<Longrightarrow> answers (put_opt_o i t wr v st) (pred_option ok v)"
  unfolding put_opt_o_def
  by (cases v; simp add: answers_Ok) (rule answers_eq, rule answers_bind, assumption, rule answers_Ok, simp)

lemma answers_fold_o: "(\<And>w x. answers (wr w x) (ok x)) \<Longrightarrow> answers (fold_o wr w xs) (list_all ok xs)"
proof (induction xs arbitrary: w)
  case (Cons x xs)
  then show ?case by (auto intro: answers_bind)
qed (simp add: answers_Ok)

lemma answers_write_list_of_o [answers_rules]:
  "(\<And>w x. answers (wr w x) (ok x)) \<Longrightarrow> answers (write_list_of_o t wr w xs) (list_all ok xs)"
  unfolding write_list_of_o_def by (rule answers_fold_o)

lemma answers_Ok_D: "answers m b \<Longrightarrow> m = Ok x \<Longrightarrow> b"
  by (auto simp: answers_def split: if_splits)

section \<open>Column chunks, row groups, the file\<close>

lemma encoding_codes: "mapM_o encoding_from_i32 (map encoding_code es) = Ok es"
  by (induction es) (simp_all add: encoding_from_i32_def encoding_enum.from_code)

lemma codec_encodings [codec_rules]:
  assumes "fits es"
  shows "codec write_encodings read_encodings es"
  unfolding codec_def write_encodings_def read_encodings_def
proof
  fix w
  from assms have "codec write_list_i32 read_list_i32 (map encoding_code es)"
    by (intro codec_rules) (simp add: fits_def)
  then obtain body where "write_list_i32 w (map encoding_code es) = w @ body"
    and body: "reads read_list_i32 body (map encoding_code es)" by (rule codecE)
  moreover have "reads (bind_r read_list_i32 (\<lambda>raw. lift_r (mapM_o encoding_from_i32 raw))) (body @ []) es"
    by (rule reads_bind [OF body]) (rule reads_lift [OF encoding_codes])
  ultimately show "\<exists>body. write_list_i32 w (map encoding_code es) = w @ body \<and>
      reads (bind_r read_list_i32 (\<lambda>raw. lift_r (mapM_o encoding_from_i32 raw))) body es"
    by auto
qed

definition writable_schema_element :: "schema_element \<Rightarrow> bool" where
  "writable_schema_element x \<longleftrightarrow>
     se_logical_type x = None"

lemma answers_encode_schema_element [answers_rules]: "answers (encode_schema_element w x) (writable_schema_element x)"
  unfolding encode_schema_element_def Let_def
  by (rule answers_eq, (rule answers_rules)+) (auto simp: writable_schema_element_def)

definition good_schema_element :: "schema_element \<Rightarrow> bool" where
  "good_schema_element x \<longleftrightarrow>
     fits (se_name x)"

lemma codec_o_schema_element [codec_rules]:
  "good_schema_element x \<Longrightarrow> codec_o encode_schema_element read_schema_element x"
  unfolding read_schema_element_def good_schema_element_def
  by (rule codec_struct_o, simp only: encode_schema_element_def Let_def, 
      (assumption | rule sync_put_o_bind sync_o_rules sync_rules | (rule codec_rules; simp; fail) | simp add: step_schema_element_def schema_element_start_def
       | (drule answers_Ok_D [OF answers_encode_schema_element], cases x, simp add: writable_schema_element_def))+)

definition writable_column_metadata :: "column_metadata \<Rightarrow> bool" where
  "writable_column_metadata x \<longleftrightarrow>
     cm_key_value_metadata x = None \<and> cm_encoding_stats x = None \<and> cm_size_statistics x = None"

lemma answers_encode_column_metadata [answers_rules]: "answers (encode_column_metadata w x) (writable_column_metadata x)"
  unfolding encode_column_metadata_def Let_def
  by (rule answers_eq, (rule answers_rules)+) (auto simp: writable_column_metadata_def)

definition good_column_metadata :: "column_metadata \<Rightarrow> bool" where
  "good_column_metadata x \<longleftrightarrow>
     fits (cm_encodings x) \<and> fits (cm_path_in_schema x) \<and> list_all fits (cm_path_in_schema x) \<and>
     pred_option good_statistics (cm_statistics x)"

lemma codec_o_column_metadata [codec_rules]:
  "good_column_metadata x \<Longrightarrow> codec_o encode_column_metadata read_column_metadata x"
  unfolding read_column_metadata_def good_column_metadata_def
  by (rule codec_struct_o, simp only: encode_column_metadata_def Let_def, 
      (assumption | rule sync_put_o_bind sync_o_rules sync_rules | (rule codec_rules; simp; fail) | simp add: step_column_metadata_def column_metadata_start_def
       | (drule answers_Ok_D [OF answers_encode_column_metadata], cases x, simp add: writable_column_metadata_def))+)

definition writable_column_chunk :: "column_chunk \<Rightarrow> bool" where
  "writable_column_chunk x \<longleftrightarrow>
     pred_option writable_column_metadata (cc_meta_data x)"

lemma answers_encode_column_chunk [answers_rules]: "answers (encode_column_chunk w x) (writable_column_chunk x)"
  unfolding encode_column_chunk_def Let_def
  by (rule answers_eq, (rule answers_rules)+) (auto simp: writable_column_chunk_def)

definition good_column_chunk :: "column_chunk \<Rightarrow> bool" where
  "good_column_chunk x \<longleftrightarrow>
     pred_option fits (cc_file_path x) \<and>
     pred_option fits (cc_encrypted_column_metadata x) \<and>
     pred_option good_column_metadata (cc_meta_data x) \<and>
     pred_option good_column_crypto_metadata (cc_crypto_metadata x)"

lemma codec_o_column_chunk [codec_rules]:
  "good_column_chunk x \<Longrightarrow> codec_o encode_column_chunk read_column_chunk x"
  unfolding read_column_chunk_def good_column_chunk_def
  by (rule codec_struct_o, simp only: encode_column_chunk_def Let_def, 
      (assumption | rule sync_put_o_bind sync_o_rules sync_rules | (rule codec_rules; simp; fail) | simp add: step_column_chunk_def column_chunk_start_def
       | (drule answers_Ok_D [OF answers_encode_column_chunk], cases x, simp add: writable_column_chunk_def))+)

text \<open>The contracts of the list elements, and with them those of the lists.\<close>

interpretation key_value_wire: wire_codec encode_key_value read_key_value good_key_value
  by unfold_locales (rule codec_rules)

interpretation column_chunk_wire: panicking_codec encode_column_chunk read_column_chunk good_column_chunk
  by unfold_locales (rule codec_rules)

interpretation schema_element_wire:
  panicking_codec encode_schema_element read_schema_element good_schema_element
  by unfold_locales (rule codec_rules)

lemmas codec_struct_lists [codec_rules] =
  key_value_wire.plain_list_law column_chunk_wire.list_law schema_element_wire.list_law

definition writable_row_group :: "row_group \<Rightarrow> bool" where
  "writable_row_group x \<longleftrightarrow>
     list_all writable_column_chunk (rg_columns x) \<and> rg_sorting_columns x = None"

lemma answers_encode_row_group [answers_rules]: "answers (encode_row_group w x) (writable_row_group x)"
  unfolding encode_row_group_def Let_def
  by (rule answers_eq, (rule answers_rules)+) (auto simp: writable_row_group_def)

definition good_row_group :: "row_group \<Rightarrow> bool" where
  "good_row_group x \<longleftrightarrow>
     fits_vec sizeof_column_chunk (rg_columns x) \<and> list_all good_column_chunk (rg_columns x)"

lemma codec_o_row_group [codec_rules]:
  "good_row_group x \<Longrightarrow> codec_o encode_row_group read_row_group x"
  unfolding read_row_group_def good_row_group_def
  by (rule codec_struct_o, simp only: encode_row_group_def Let_def, 
      (assumption | rule sync_put_o_bind sync_o_rules sync_rules | (rule codec_rules; simp; fail) | simp add: step_row_group_def row_group_start_def
       | (drule answers_Ok_D [OF answers_encode_row_group], cases x, simp add: writable_row_group_def))+)

interpretation row_group_wire: panicking_codec encode_row_group read_row_group good_row_group
  by unfold_locales (rule codec_rules)

lemmas codec_row_group_list [codec_rules] = row_group_wire.list_law

definition writable_file_metadata :: "file_metadata \<Rightarrow> bool" where
  "writable_file_metadata x \<longleftrightarrow>
     list_all writable_schema_element (fm_schema x) \<and> list_all writable_row_group (fm_row_groups x) \<and>
     fm_column_orders x = None"

lemma answers_encode_file_metadata [answers_rules]: "answers (encode_file_metadata w x) (writable_file_metadata x)"
  unfolding encode_file_metadata_def Let_def
  by (rule answers_eq, (rule answers_rules)+) (auto simp: writable_file_metadata_def)

definition good_file_metadata :: "file_metadata \<Rightarrow> bool" where
  "good_file_metadata x \<longleftrightarrow>
     fits_vec sizeof_schema_element (fm_schema x) \<and> list_all good_schema_element (fm_schema x) \<and>
     fits_vec sizeof_row_group (fm_row_groups x) \<and> list_all good_row_group (fm_row_groups x) \<and>
     pred_option (\<lambda>kvs. fits_vec sizeof_key_value kvs \<and> list_all good_key_value kvs) (fm_key_value_metadata x) \<and>
     pred_option fits (fm_created_by x) \<and>
     pred_option fits (fm_footer_signing_key_metadata x) \<and>
     pred_option good_encryption_algorithm (fm_encryption_algorithm x)"

lemma codec_o_file_metadata [codec_rules]:
  "good_file_metadata x \<Longrightarrow> codec_o encode_file_metadata read_file_metadata x"
  unfolding read_file_metadata_def good_file_metadata_def
  by (rule codec_struct_o, simp only: encode_file_metadata_def Let_def, 
      (assumption | rule sync_put_o_bind sync_o_rules sync_rules | (rule codec_rules; simp; fail) | simp add: step_file_metadata_def file_metadata_start_def
       | (drule answers_Ok_D [OF answers_encode_file_metadata], cases x, simp add: writable_file_metadata_def))+)

text \<open>The contracts of the values that stand alone in a file.\<close>

interpretation page_header_wire: wire_codec encode_page_header read_page_header good_page_header
  by unfold_locales (rule codec_rules)

interpretation file_crypto_metadata_wire:
  panicking_codec encode_file_crypto_metadata read_file_crypto_metadata good_file_crypto_metadata
  by unfold_locales (rule codec_rules)

interpretation file_metadata_wire:
  panicking_codec encode_file_metadata read_file_metadata good_file_metadata
  by unfold_locales (rule codec_rules)

end
