(* ===== verification/FormatProperties.thy ===== *)
theory FormatProperties
  imports MetadataRoundtrip
begin

text \<open>
  The properties of the format crate as a whole: what \<open>metadata_writer.rs\<close> writes is what
  \<open>metadata.rs\<close> reads, when a writer panics, and what no input can make a reader do.
\<close>

section \<open>Round trips\<close>

lemma codec_o_at:
  assumes "codec_o wr rd x" and "wr [] x = Ok bs"
  shows "rd \<lparr>buf = pre @ bs @ post, pos = length pre\<rparr>
           = Ok (x, \<lparr>buf = pre @ bs @ post, pos = length pre + length bs\<rparr>)"
  using codec_oE [OF assms] readsD [of rd bs x "\<lparr>buf = pre @ bs @ post, pos = length pre\<rparr>" post]
  by (auto simp: rest_def adv_def)

lemma codec_at:
  assumes "codec wr rd x"
  shows "rd \<lparr>buf = pre @ wr [] x @ post, pos = length pre\<rparr>
           = Ok (x, \<lparr>buf = pre @ wr [] x @ post, pos = length pre + length (wr [] x)\<rparr>)"
  by (rule codec_o_at [of "\<lambda>w x. Ok (wr w x)"]) (simp_all add: codec_o_iff assms)

text \<open>C19. Every \<open>FileMetaData\<close> value made of the parts the writer supports is written without a
  panic, and reading the bytes back, wherever they stand in a buffer, gives the same value with the
  cursor right behind them.\<close>

theorem file_metadata_roundtrip:
  assumes "good_file_metadata md" and "writable_file_metadata md"
  shows "\<exists>bs. write_file_metadata md = Ok bs \<and>
           (\<forall>pre post. read_file_metadata \<lparr>buf = pre @ bs @ post, pos = length pre\<rparr>
              = Ok (md, \<lparr>buf = pre @ bs @ post, pos = length pre + length bs\<rparr>))"
proof -
  from answers_encode_file_metadata [of "[]" md] assms(2)
  obtain bs where "encode_file_metadata [] md = Ok bs" by (auto simp: answers_def)
  with codec_o_at [OF codec_o_file_metadata [OF assms(1)]] show ?thesis
    by (auto simp: write_file_metadata_def)
qed

definition sample_column :: column_metadata where
  "sample_column = \<lparr>cm_column_type = PT_Int64, cm_encodings = [E_Plain, E_Rle],
     cm_path_in_schema = [[0x78]], cm_codec = CC_Snappy, cm_num_values = 100,
     cm_total_uncompressed_size = 800, cm_total_compressed_size = 420,
     cm_key_value_metadata = None, cm_data_page_offset = 4, cm_index_page_offset = None,
     cm_dictionary_page_offset = Some 4, cm_statistics = Some (statistics_default\<lparr>st_null_count := Some 0\<rparr>),
     cm_encoding_stats = None, cm_bloom_filter_offset = None, cm_bloom_filter_length = None,
     cm_size_statistics = None\<rparr>"

definition sample_chunk :: column_chunk where
  "sample_chunk = \<lparr>cc_file_path = None, cc_file_offset = 4, cc_meta_data = Some sample_column,
     cc_offset_index_offset = Some 500, cc_offset_index_length = Some 12,
     cc_column_index_offset = None, cc_column_index_length = None,
     cc_crypto_metadata = Some EncryptionWithFooterKey, cc_encrypted_column_metadata = None\<rparr>"

definition sample_schema :: schema_element where
  "sample_schema = \<lparr>se_column_type = Some PT_Int64, se_type_length = None,
     se_repetition_type = Some FR_Required, se_name = [0x78], se_num_children = None,
     se_converted_type = None, se_scale = None, se_precision = None, se_field_id = Some 7,
     se_logical_type = None\<rparr>"

definition sample_file :: file_metadata where
  "sample_file = \<lparr>fm_version = 2, fm_schema = [sample_schema], fm_num_rows = 100,
     fm_row_groups = [\<lparr>rg_columns = [sample_chunk], rg_total_byte_size = 420, rg_num_rows = 100,
        rg_sorting_columns = None, rg_file_offset = Some 4, rg_total_compressed_size = None,
        rg_ordinal = Some 0\<rparr>],
     fm_key_value_metadata = Some [\<lparr>kv_key = [0x6B], kv_value = Some [1, 2]\<rparr>],
     fm_created_by = Some [0x65], fm_column_orders = None,
     fm_encryption_algorithm = Some (AesGcmV1 aes_gcm_v1_default),
     fm_footer_signing_key_metadata = None\<rparr>"

lemmas good_defs =
  good_file_metadata_def good_schema_element_def good_row_group_def good_column_chunk_def
  good_column_metadata_def good_statistics_def good_key_value_def good_aes_gcm_v1_def fits_def fits_vec_def
  sizeof_column_chunk_def sizeof_schema_element_def sizeof_row_group_def sizeof_key_value_def

lemmas writable_defs =
  writable_file_metadata_def writable_schema_element_def writable_row_group_def
  writable_column_chunk_def writable_column_metadata_def

lemmas sample_defs =
  sample_file_def sample_schema_def sample_chunk_def sample_column_def
  statistics_default_def aes_gcm_v1_default_def

lemma sample_file_good: "good_file_metadata sample_file"
  by (simp add: good_defs sample_defs)

lemma sample_file_writable: "writable_file_metadata sample_file"
  by (simp add: writable_defs sample_defs)

lemma file_metadata_roundtrip_witness:
  "\<exists>bs. write_file_metadata sample_file = Ok bs \<and>
     (\<forall>pre post. read_file_metadata \<lparr>buf = pre @ bs @ post, pos = length pre\<rparr>
        = Ok (sample_file, \<lparr>buf = pre @ bs @ post, pos = length pre + length bs\<rparr>))"
  by (rule file_metadata_roundtrip [OF sample_file_good sample_file_writable])

text \<open>The footer writer either returns bytes or panics, and it panics exactly when the value has
  a part the writer does not support: a logical type, column orders, sorting columns, or a column's
  own key-value pairs, encoding statistics or size statistics.\<close>

theorem write_file_metadata_panics_iff:
  "if writable_file_metadata md then \<exists>bs. write_file_metadata md = Ok bs
   else \<exists>msg. write_file_metadata md = Panic msg"
  using answers_encode_file_metadata [of "[]" md] by (simp add: answers_def write_file_metadata_def)

text \<open>C20. A page header is read back from its encoding, wherever it stands in a buffer.\<close>

theorem page_header_roundtrip:
  assumes "good_page_header hdr"
  shows "read_page_header \<lparr>buf = pre @ write_page_header hdr @ post, pos = length pre\<rparr>
           = Ok (hdr, \<lparr>buf = pre @ write_page_header hdr @ post,
                       pos = length pre + length (write_page_header hdr)\<rparr>)"
  unfolding write_page_header_def by (rule codec_at [OF codec_page_header [OF assms]])

definition sample_page_header :: page_header where
  "sample_page_header = \<lparr>ph_page_type = PG_DataPageV2, ph_uncompressed_page_size = 64,
     ph_compressed_page_size = -1, ph_crc = Some 0xDEADBEEF, ph_data_page_header = None,
     ph_index_page_header = None, ph_dictionary_page_header = None,
     ph_data_page_header_v2 = Some \<lparr>d2_num_values = 3, d2_num_nulls = 1, d2_num_rows = 3,
       d2_encoding = E_RleDictionary, d2_definition_levels_byte_length = 2,
       d2_repetition_levels_byte_length = 0, d2_is_compressed = False,
       d2_statistics = Some (statistics_default\<lparr>st_max_value := Some [9], st_is_max_value_exact := Some False\<rparr>)\<rparr>\<rparr>"

lemma page_header_roundtrip_witness:
  "read_page_header \<lparr>buf = [7] @ write_page_header sample_page_header @ [8, 9], pos = length [7 :: u8]\<rparr>
     = Ok (sample_page_header, \<lparr>buf = [7] @ write_page_header sample_page_header @ [8, 9],
             pos = length [7 :: u8] + length (write_page_header sample_page_header)\<rparr>)"
  by (rule page_header_roundtrip)
    (simp add: sample_page_header_def good_page_header_def good_data_page_header_v2_def
      good_statistics_def statistics_default_def fits_def)

text \<open>The footer of a file with an encrypted footer is read back from its encoding; writing it
  panics exactly when the mandatory encryption algorithm is absent.\<close>

theorem file_crypto_metadata_roundtrip:
  assumes "good_file_crypto_metadata fcm"
  shows "case fc_encryption_algorithm fcm of
           None \<Rightarrow> \<exists>msg. write_file_crypto_metadata fcm = Panic msg
         | Some alg \<Rightarrow> \<exists>bs. write_file_crypto_metadata fcm = Ok bs \<and>
             (\<forall>post. read_file_crypto_metadata (cursor_new (bs @ post))
                = Ok (fcm, \<lparr>buf = bs @ post, pos = length bs\<rparr>))"
proof (cases "fc_encryption_algorithm fcm")
  case (Some alg)
  then obtain bs where "encode_file_crypto_metadata [] fcm = Ok bs"
    by (auto simp: encode_file_crypto_metadata_def Let_def)
  with codec_o_at [OF codec_o_file_crypto_metadata [OF assms], of bs "[]"] Some show ?thesis
    by (auto simp: write_file_crypto_metadata_def cursor_new_def)
qed (auto simp: write_file_crypto_metadata_def encode_file_crypto_metadata_def)

lemma file_crypto_metadata_roundtrip_witness:
  "\<exists>bs. write_file_crypto_metadata \<lparr>fc_encryption_algorithm = Some (AesGcmV1 aes_gcm_v1_default), fc_key_metadata = Some [1, 2, 3]\<rparr> = Ok bs \<and>
     (\<forall>post. read_file_crypto_metadata (cursor_new (bs @ post))
        = Ok (\<lparr>fc_encryption_algorithm = Some (AesGcmV1 aes_gcm_v1_default), fc_key_metadata = Some [1, 2, 3]\<rparr>, \<lparr>buf = bs @ post, pos = length bs\<rparr>))"
  using file_crypto_metadata_roundtrip [of "\<lparr>fc_encryption_algorithm = Some (AesGcmV1 aes_gcm_v1_default), fc_key_metadata = Some [1, 2, 3]\<rparr>"]
  by (simp add: good_file_crypto_metadata_def good_aes_gcm_v1_def aes_gcm_v1_default_def fits_def)

text \<open>No two footers have encodings one of which is a prefix of the other: the bytes determine
  the value, and the reader cannot take one footer for another.\<close>

theorem file_metadata_encoding_unique:
  assumes "good_file_metadata md" and "good_file_metadata md'"
    and "write_file_metadata md = Ok bs" and "write_file_metadata md' = Ok bs'"
    and "bs @ post = bs' @ post'"
  shows "md = md' \<and> bs = bs'"
  using file_metadata_wire.unique_encoding [OF assms(1,2) _ _ assms(5)] assms(3,4)
  by (simp add: write_file_metadata_def)

lemma file_metadata_encoding_unique_witness:
  "\<exists>bs. write_file_metadata sample_file = Ok bs \<and> sample_file = sample_file \<and> bs = bs"
  using file_metadata_encoding_unique [OF sample_file_good sample_file_good]
    answers_encode_file_metadata [of "[]" sample_file] sample_file_writable
  by (auto simp: answers_def write_file_metadata_def)

section \<open>Arbitrary input\<close>

text \<open>\<open>returns_within bs r\<close>: on the buffer \<open>bs\<close>, \<open>r\<close> terminates; it returns a value and leaves the
  cursor inside the same buffer, or reports an error, or panics with a capacity overflow, and the
  last only when a list header in the buffer announces an oversized count.\<close>

definition returns_within :: "bytes \<Rightarrow> 'a reader \<Rightarrow> bool" where
  "returns_within bs r \<longleftrightarrow>
     (case r (cursor_new bs) of
        Ok (x, cur) \<Rightarrow> buf cur = bs \<and> pos cur \<le> length bs
      | Err e \<Rightarrow> True
      | Panic msg \<Rightarrow> msg = ''capacity overflow'' \<and> oversized_list bs
      | Stuck \<Rightarrow> False)"

lemma returns_within_safe: "safe r \<Longrightarrow> returns_within bs r"
  using safeD [of r "cursor_new bs"]
  by (cases "r (cursor_new bs)") (auto simp: returns_within_def cursor_new_def cursor_ok_def advances_def)

text \<open>Field 2 of the footer, the schema, as a list of structs with the count \<open>2 ^ 64 - 1\<close>: twelve
  bytes.\<close>

definition oversized_footer :: bytes where
  "oversized_footer = [0x29, 0xFC] @ replicate 9 0xFF @ [0x01]"

lemma oversized_footer_panics: "read_file_metadata (cursor_new oversized_footer) = Panic ''capacity overflow''"
proof -
  let ?c = "\<lambda>p. \<lparr>buf = oversized_footer, pos = p\<rparr>"
  have hdr: "read_field_header 0 (?c 0) = Ok (Some \<lparr>fh_id = 2, fh_type = FT_List\<rparr>, ?c 1)"
    by code_simp
  have byte: "read_u8 (?c 1) = Ok (0xFC, ?c 2)" "lift_r (decode_field_type 12) (?c 2) = Ok (FT_Struct, ?c 2)"
    "read_uvarint (?c 2) = Ok (- 1, ?c 12)"
    by code_simp+
  have n: "unat (- 1 :: u64) = 2 ^ 64 - 1"
    by (simp add: unsigned_minus_1_eq_mask mask_eq_exp_minus_1)
  have "read_list_header (?c 1) = Ok ((2 ^ 64 - 1, FT_Struct), ?c 12)"
    using byte n by (simp add: read_list_header_def bind_r_def return_r_def)
  then have "step_file_metadata \<lparr>fh_id = 2, fh_type = FT_List\<rparr> file_metadata_start (?c 1) = Panic ''capacity overflow''"
    by (simp add: step_file_metadata_def set_some_def read_list_struct_def bind_r_def lift_r_def
        sizeof_schema_element_def reserve_o_def)
  with hdr show ?thesis
    by (simp add: read_file_metadata_def cursor_new_def bind_r_def read_fields.simps)
qed

text \<open>C21. No byte string makes the footer reader loop or leave its buffer, and the only way it
  panics is the reservation of memory for a list: then a list header in the bytes announces more
  elements than \<open>Vec::with_capacity\<close> accepts.  That panic is real: a footer of twelve bytes has it.\<close>

theorem read_file_metadata_total:
  "(case read_file_metadata (cursor_new bs) of
      Ok (md, cur) \<Rightarrow> buf cur = bs \<and> pos cur \<le> length bs
    | Err e \<Rightarrow> True
    | Panic msg \<Rightarrow> msg = ''capacity overflow'' \<and>
        (\<exists>p n et cur. p < length bs \<and> read_list_header \<lparr>buf = bs, pos = p\<rparr> = Ok ((n, et), cur) \<and>
           2 ^ 63 \<le> n * max_elem)
    | Stuck \<Rightarrow> False) \<and>
   read_file_metadata (cursor_new oversized_footer) = Panic ''capacity overflow''"
proof
  have "safe read_file_metadata"
    by (rule safe_rules)
  from returns_within_safe [OF this, of bs] show "case read_file_metadata (cursor_new bs) of
      Ok (md, cur) \<Rightarrow> buf cur = bs \<and> pos cur \<le> length bs
    | Err e \<Rightarrow> True
    | Panic msg \<Rightarrow> msg = ''capacity overflow'' \<and>
        (\<exists>p n et cur. p < length bs \<and> read_list_header \<lparr>buf = bs, pos = p\<rparr> = Ok ((n, et), cur) \<and>
           2 ^ 63 \<le> n * max_elem)
    | Stuck \<Rightarrow> False"
    by (simp only: returns_within_def oversized_list_def)
qed (rule oversized_footer_panics)

text \<open>The same holds of the page header reader, which has no list to reserve.\<close>

theorem read_page_header_total: "returns_within bs read_page_header"
  by (rule returns_within_safe) (rule safe_rules)

text \<open>The same holds of the readers of the page index, the bloom filter header and the footer of
  an encrypted file.\<close>

theorem read_index_structures_total:
  "returns_within bs read_offset_index \<and> returns_within bs read_column_index \<and>
   returns_within bs read_bloom_filter_header \<and> returns_within bs read_file_crypto_metadata"
  by (intro conjI returns_within_safe) (rule safe_rules)+

section \<open>Enumerations\<close>

text \<open>The wire code of an encoding identifies it: exactly the codes of the listed encodings are
  accepted, and any other value is reported with the type's name.\<close>

theorem encoding_from_i32_exact:
  "(encoding_from_i32 v = Ok x \<longleftrightarrow> v = encoding_code x) \<and>
   (encoding_from_i32 v = Err e \<longleftrightarrow> v \<notin> range encoding_code \<and> e = InvalidEnumValue ''Encoding'' v)"
  unfolding encoding_from_i32_def
  using encoding_enum.from_i32_Ok_iff encoding_enum.from_i32_Err_iff by simp

section \<open>Varints and lists\<close>

text \<open>C22. Every 64-bit value is read back from its varint, wherever it stands in a buffer, and the
  varint has at most the ten bytes the reader accepts.\<close>

theorem uvarint_roundtrip:
  "read_uvarint \<lparr>buf = pre @ write_uvarint [] v @ post, pos = length pre\<rparr>
     = Ok (v, \<lparr>buf = pre @ write_uvarint [] v @ post, pos = length pre + length (write_uvarint [] v)\<rparr>)
   \<and> length (write_uvarint [] v) \<le> 10"
  using codec_at [OF codec_uvarint] write_uvarint_length [of v 9]
    less_trans [OF unsigned_less [of v, where 'a = nat], of "2 ^ 70"] by simp

text \<open>The reader does not check the last byte of a ten-byte varint: bits that do not fit in 64
  are dropped instead of being reported as \<open>VarintOverflow\<close>.\<close>

theorem uvarint_tenth_byte_unchecked:
  "read_uvarint (cursor_new (replicate 9 0x80 @ [0x7E]))
     = Ok (0, \<lparr>buf = replicate 9 0x80 @ [0x7E], pos = 10\<rparr>)"
  by code_simp

text \<open>A field header is read back for every id and every previous id, in the short form and in
  the long form.\<close>

theorem field_header_roundtrip:
  "read_field_header prev \<lparr>buf = pre @ write_field_header [] i t prev @ post, pos = length pre\<rparr>
     = Ok (Some \<lparr>fh_id = i, fh_type = t\<rparr>,
           \<lparr>buf = pre @ write_field_header [] i t prev @ post,
            pos = length pre + length (write_field_header [] i t prev)\<rparr>)"
  using readsD [OF reads_field_header [of prev i t], of "\<lparr>buf = pre @ _ @ post, pos = length pre\<rparr>" post]
  by (simp add: rest_def adv_def)

text \<open>\<open>consumes k r\<close>: when \<open>r\<close> returns, it has moved the cursor by at least \<open>k\<close> bytes.\<close>

definition consumes :: "nat \<Rightarrow> 'a reader \<Rightarrow> bool" where
  "consumes k r \<longleftrightarrow> (\<forall>cur x cur'. r cur = Ok (x, cur') \<longrightarrow> pos cur + k \<le> pos cur')"

lemma consumes_0:
  "consumes 0 (return_r x)" "consumes k (fail_r e)" "consumes 0 (lift_r m)"
  by (auto simp: consumes_def return_r_def fail_r_def lift_r_def bind_o_eq_Ok_iff)

lemma consumes_bind:
  assumes "consumes k r" and "\<And>x. consumes l (f x)"
  shows "consumes (k + l) (bind_r r f)"
  using assms by (fastforce simp: consumes_def bind_r_def bind_o_eq_Ok_iff)

lemma consumes_mono: "consumes k r \<Longrightarrow> l \<le> k \<Longrightarrow> consumes l r"
  by (fastforce simp: consumes_def)

lemma consumes_u8: "consumes 1 read_u8"
  by (auto simp: consumes_def read_u8_def)

lemma consumes_take: "consumes 0 (cur_take n)"
  by (auto simp: consumes_def cur_take_def split: if_splits)

lemma consumes_first: "consumes 1 r \<Longrightarrow> (\<And>x. consumes 0 (f x)) \<Longrightarrow> consumes 1 (bind_r r f)"
  using consumes_bind [of 1 r 0 f] by simp

lemma consumes_seq: "consumes 0 r \<Longrightarrow> (\<And>x. consumes 0 (f x)) \<Longrightarrow> consumes 0 (bind_r r f)"
  using consumes_bind [of 0 r 0 f] by simp

lemma consumes_uvarint_loop: "consumes 0 (uvarint_loop n r s)"
proof (induction n arbitrary: r s)
  case (Suc n)
  have "consumes 0 (let r' = r OR push_bit s (ucast (b AND 0x7F))
          in if b AND 0x80 = 0 then return_r r' else uvarint_loop n r' (s + 7))" for b
    using Suc by (simp add: Let_def consumes_0)
  then show ?case
    unfolding uvarint_loop.simps by (intro consumes_mono [OF consumes_first [OF consumes_u8]]) auto
qed (simp add: consumes_0)

lemma consumes_uvarint: "consumes 1 read_uvarint"
proof -
  have "consumes 1 (uvarint_loop (Suc n) r s)" for n r s
    unfolding uvarint_loop.simps
    by (intro consumes_first consumes_u8) (simp add: Let_def consumes_0 consumes_uvarint_loop)
  from this [of 9 0 0] show ?thesis by (simp add: read_uvarint_def)
qed

lemma consumes_list_elements:
  "consumes 1 read_zigzag_i32" "consumes 1 read_zigzag_i64" "consumes 1 read_bool_elem"
  "consumes 1 read_binary"
  unfolding read_zigzag_i32_def read_zigzag_i64_def read_bool_elem_def read_binary_def
  by (intro consumes_first consumes_uvarint consumes_u8; simp add: Let_def consumes_0 consumes_take)+

lemma consumes_list_header: "consumes 1 read_list_header"
  unfolding read_list_header_def Let_def
  by (intro consumes_first consumes_u8 consumes_seq consumes_0)
    (auto intro!: consumes_seq consumes_0 consumes_mono [OF consumes_uvarint])

lemma read_n_length:
  assumes "consumes 1 rd" and "read_n rd n cur = Ok (xs, cur')"
  shows "length xs = n \<and> pos cur + n \<le> pos cur'"
  using assms(2)
proof (induction n arbitrary: cur xs)
  case (Suc n)
  from Suc.prems obtain x c ys where "rd cur = Ok (x, c)" "read_n rd n c = Ok (ys, cur')" "xs = x # ys"
    by (auto simp: bind_r_def return_r_def bind_o_eq_Ok_iff)
  with Suc.IH [of c ys] assms(1) show ?case by (fastforce simp: consumes_def)
qed (simp add: return_r_def)

lemma list_after_header_length:
  assumes "consumes 1 rd"
    and "bind_r read_list_header (\<lambda>(n, et). if P et then fail_r (e et) else read_n rd n) cur = Ok (xs, cur')"
  shows "pos cur + length xs < pos cur'"
proof -
  from assms(2) obtain n et c where "read_list_header cur = Ok ((n, et), c)" and "read_n rd n c = Ok (xs, cur')"
    by (auto simp: bind_r_def bind_o_eq_Ok_iff fail_r_def split: if_splits)
  with read_n_length [OF assms(1)] consumes_list_header show ?thesis
    by (fastforce simp: consumes_def)
qed

lemma reserving_list_length:
  assumes "consumes 1 rd"
    and "bind_r read_list_header (\<lambda>(n, et). if P et then fail_r (e et)
           else bind_r (lift_r (reserve_o sz n)) (\<lambda>_. read_n rd n)) cur = Ok (xs, cur')"
  shows "pos cur + length xs < pos cur'"
proof -
  from assms(2) obtain n et c where "read_list_header cur = Ok ((n, et), c)" and "read_n rd n c = Ok (xs, cur')"
    by (auto simp: bind_r_def lift_r_def bind_o_eq_Ok_iff fail_r_def split: if_splits)
  with read_n_length [OF assms(1)] consumes_list_header show ?thesis
    by (fastforce simp: consumes_def)
qed

text \<open>A list header that claims more elements than there are bytes left never yields a list:
  every list of integers, booleans or byte strings read has fewer elements than bytes consumed.\<close>

theorem list_length_bounded_by_input:
  assumes "read_list_i32 a = Ok (xs, a')" and "read_list_i64 b = Ok (ys, b')"
    and "read_list_bool c = Ok (bs, c')" and "read_list_binary d = Ok (bss, d')"
  shows "pos a + length xs < pos a' \<and> pos b + length ys < pos b' \<and>
         pos c + length bs < pos c' \<and> pos d + length bss < pos d'"
  using assms
  unfolding read_list_i32_def read_list_i64_def read_list_bool_def read_list_binary_def read_list_of_def
  by - (intro conjI,
    (rule list_after_header_length [OF consumes_list_elements(1)], assumption)
    | (rule list_after_header_length [OF consumes_list_elements(2)], assumption)
    | (rule reserving_list_length [OF consumes_list_elements(3)], assumption)
    | (rule list_after_header_length [OF consumes_list_elements(3)], assumption)
    | (rule list_after_header_length [OF consumes_list_elements(4)], assumption))+

lemma list_length_bounded_by_input_witness:
  "pos (cursor_new [0x25, 2, 4]) + length [1 :: i32, 2] < (3 :: nat)"
proof -
  have "read_list_i32 (cursor_new [0x25, 2, 4]) = Ok ([1, 2], \<lparr>buf = [0x25, 2, 4], pos = 3\<rparr>)"
    "read_list_i64 (cursor_new [0x06]) = Ok ([], \<lparr>buf = [0x06], pos = 1\<rparr>)"
    "read_list_bool (cursor_new [0x11, 2]) = Ok ([False], \<lparr>buf = [0x11, 2], pos = 2\<rparr>)"
    "read_list_binary (cursor_new [0x18, 0]) = Ok ([[]], \<lparr>buf = [0x18, 0], pos = 2\<rparr>)"
    by code_simp+
  from list_length_bounded_by_input [OF this] show ?thesis by simp
qed

end
