(* ===== verification/BitStream.thy ===== *)
theory BitStream
  imports Compact
begin

text \<open>
  Byte strings as streams of bits, least significant bit of each byte first: the view under which
  the packers and unpackers of \<open>ematix-parquet-codec\<close> are inverse to each other.  \<open>stream_bit bs n\<close>
  is bit \<open>n\<close> of the stream, \<open>field bs off w\<close> the \<open>w\<close>-bit number that starts at bit \<open>off\<close>.
  \<open>acc_bytes\<close> and \<open>shr_mask\<close> are the inner loop all the scalar unpackers share.
\<close>

definition stream_bit :: "bytes \<Rightarrow> nat \<Rightarrow> bool" where
  "stream_bit bs n \<longleftrightarrow> n div 8 < length bs \<and> bit (bs ! (n div 8)) (n mod 8)"

definition field :: "bytes \<Rightarrow> nat \<Rightarrow> nat \<Rightarrow> 'a::len word" where
  "field bs off w = horner_sum of_bool 2 (map (\<lambda>b. stream_bit bs (off + b)) [0..<w])"

lemma bit_field: "bit (field bs off w :: 'a::len word) n \<longleftrightarrow> n < LENGTH('a) \<and> n < w \<and> stream_bit bs (off + n)"
  by (auto simp: field_def bit_horner_sum_bit_iff)

lemma field_eqI:
  fixes x :: "'a::len word"
  assumes "\<And>n. n < LENGTH('a) \<Longrightarrow> bit x n \<longleftrightarrow> n < w \<and> stream_bit bs (off + n)"
  shows "field bs off w = x"
  by (rule bit_word_eqI) (simp add: bit_field assms)

lemma stream_bit_append:
  "stream_bit (as @ bs) n \<longleftrightarrow>
     (if n < 8 * length as then stream_bit as n else stream_bit bs (n - 8 * length as))"
proof (cases "n < 8 * length as")
  case True
  then have "n div 8 < length as" by (simp add: less_mult_imp_div_less mult.commute)
  with True show ?thesis by (simp add: stream_bit_def nth_append)
next
  case False
  then have "n = 8 * length as + (n - 8 * length as)" by simp
  moreover have "(8 * length as + k) div 8 = length as + k div 8" "(8 * length as + k) mod 8 = k mod 8" for k
    by simp_all
  ultimately show ?thesis
    using False by (metis (no_types) add_less_cancel_left length_append nth_append_length_plus stream_bit_def)
qed

lemma stream_bit_replicate_0: "\<not> stream_bit (replicate k 0) n"
  by (auto simp: stream_bit_def)

lemma field_append:
  "off + w \<le> 8 * length as \<Longrightarrow> (field (as @ bs) off w :: 'a::len word) = field as off w"
  by (rule field_eqI) (auto simp: bit_field stream_bit_append)

lemma field_append_right:
  "(field (as @ bs) (8 * length as + off) w :: 'a::len word) = field bs off w"
  by (rule field_eqI) (auto simp: bit_field stream_bit_append add.assoc)

lemma bit_below:
  assumes "unat (x :: 'a::len word) < 2 ^ w" and "bit x n"
  shows "n < w"
proof -
  have "bit (unat x) n"
    using assms(2) by (simp add: bit_unsigned_iff)
  moreover have "take_bit w (unat x) = unat x"
    using assms(1) by (rule take_bit_nat_eq_self)
  ultimately show ?thesis
    by (metis bit_take_bit_iff)
qed

section \<open>The inner loop of the unpackers\<close>

text \<open>\<open>for j in 0..n \{ acc |= (chunk[off + j] as u64) << (j * 8) \}\<close>.  An index past the end of the slice
  panics; so does a shift by the width of the
  accumulator (\<open>u64\<close> or \<open>u128\<close>) or more where overflow checks are on.\<close>

definition acc_step :: "bytes \<Rightarrow> nat \<Rightarrow> 'w::len word \<Rightarrow> nat \<Rightarrow> ('e, 'w word) outcome" where
  "acc_step chunk off acc j =
     (if off + j \<ge> length chunk then Panic ''index out of bounds''
      else if j * 8 \<ge> LENGTH('w) then Panic ''attempt to shift left with overflow''
      else Ok (acc OR push_bit (j * 8) (ucast (chunk ! (off + j)))))"

definition acc_bytes :: "bytes \<Rightarrow> nat \<Rightarrow> nat \<Rightarrow> ('e, 'w::len word) outcome" where
  "acc_bytes chunk off n = fold_o (acc_step chunk off) 0 [0..<n]"

lemma fold_o_append: "fold_o f s (xs @ ys) = bind_o (fold_o f s xs) (\<lambda>s'. fold_o f s' ys)"
  by (induction xs arbitrary: s) (simp_all add: bind_o_assoc)

lemma bit_pushed_byte:
  assumes "n < LENGTH('w)"
  shows "bit (push_bit (j * 8) (ucast b :: 'w::len word)) n \<longleftrightarrow> n div 8 = j \<and> bit (b :: u8) (n mod 8)"
proof (cases "j * 8 \<le> n \<and> n < j * 8 + 8")
  case True
  then obtain r where r: "n = j * 8 + r" "r < 8"
    by (metis le_add_diff_inverse nat_add_left_cancel_less)
  then have "n div 8 = j" and "n mod 8 = n - j * 8"
    by simp_all
  with True assms show ?thesis by (auto simp: bit_simps)
next
  case False
  then have "n div 8 \<noteq> j" by auto
  moreover have "\<not> bit (push_bit (j * 8) (ucast b :: 'w word)) n"
    using False bit_imp_le_length [of b "n - j * 8"] by (auto simp: bit_simps)
  ultimately show ?thesis by simp
qed

lemma acc_bytes_Ok:
  assumes "off + n \<le> length chunk" and "n * 8 \<le> LENGTH('w) + 7"
  shows "(acc_bytes chunk off n :: ('e, 'w::len word) outcome) = Ok (field chunk (8 * off) (8 * n))"
  using assms
proof (induction n)
  case 0
  show ?case by (simp add: acc_bytes_def field_def)
next
  case (Suc n)
  let ?b = "chunk ! (off + n)"
  have "(acc_bytes chunk off (Suc n) :: ('e, 'w word) outcome)
      = Ok (field chunk (8 * off) (8 * n) OR push_bit (n * 8) (ucast ?b))"
    using Suc by (simp add: acc_bytes_def fold_o_append acc_step_def)
  also have "field chunk (8 * off) (8 * n) OR push_bit (n * 8) (ucast ?b) = (field chunk (8 * off) (8 * Suc n) :: 'w word)"
  proof (rule bit_word_eqI)
    fix k assume k: "k < LENGTH('w)"
    have "(8 * off + k) div 8 = off + k div 8" "(8 * off + k) mod 8 = k mod 8" by simp_all
    moreover have "k div 8 = n \<longleftrightarrow> 8 * n \<le> k \<and> k < 8 * Suc n" by auto
    ultimately show "bit (field chunk (8 * off) (8 * n) OR push_bit (n * 8) (ucast ?b) :: 'w word) k =
        bit (field chunk (8 * off) (8 * Suc n) :: 'w word) k"
      using k Suc.prems by (auto simp: bit_or_iff bit_pushed_byte bit_field stream_bit_def)
  qed
  finally show ?case .
qed

text \<open>\<open>if w == 64 \{ u64::MAX \} else \{ (1u64 << w) - 1 \}\<close>.\<close>

definition mask_u64 :: "nat \<Rightarrow> u64" where
  "mask_u64 w = (if w = 64 then - 1 else push_bit w 1 - 1)"

lemma mask_u64_eq: "w \<le> 64 \<Longrightarrow> mask_u64 w = mask w"
  by (simp add: mask_u64_def mask_eq_exp_minus_1 push_bit_of_1)

text \<open>Value \<open>i\<close> of a packed slice: the bytes it touches, shifted and masked.\<close>

definition packed_value :: "bytes \<Rightarrow> nat \<Rightarrow> 'w::len word \<Rightarrow> nat \<Rightarrow> ('e, 'w word) outcome" where
  "packed_value chunk w msk i =
     (let bit_offset = i * w;
          byte_offset = bit_offset div 8;
          bit_in_byte = bit_offset mod 8;
          bits_needed = bit_in_byte + w;
          bytes_needed = (bits_needed + 7) div 8
      in bind_o (acc_bytes chunk byte_offset bytes_needed) (\<lambda>acc.
           Ok (drop_bit bit_in_byte acc AND msk)))"

lemma bytes_touched:
  assumes "p + w \<le> 8 * l"
  shows "p div 8 + (p mod 8 + w + 7) div 8 \<le> (l :: nat)"
proof -
  obtain q r where q: "p = 8 * q + r" "r < 8"
    by (metis mult_div_mod_eq mod_less_divisor zero_less_numeral)
  with assms have "q \<le> l" and "r + w \<le> 8 * (l - q)"
    by auto
  then have "(r + w + 7) div 8 \<le> l - q"
    by linarith
  with q \<open>q \<le> l\<close> show ?thesis by simp
qed

lemma packed_value_Ok:
  assumes "(i + 1) * w \<le> 8 * length chunk" and "i * w mod 8 + w \<le> LENGTH('w)"
  shows "(packed_value chunk w (mask w) i :: ('e, 'w::len word) outcome) = Ok (field chunk (i * w) w)"
proof -
  let ?o = "i * w" let ?n = "(?o mod 8 + w + 7) div 8"
  have o: "8 * (?o div 8) + ?o mod 8 = ?o" by simp
  have "?o div 8 + ?n \<le> length chunk"
    using bytes_touched [of ?o w "length chunk"] assms(1) by (simp add: algebra_simps)
  moreover have n8: "?n * 8 \<le> LENGTH('w) + 7" using assms(2) by linarith
  ultimately have "(acc_bytes chunk (?o div 8) ?n :: ('e, 'w word) outcome) = Ok (field chunk (8 * (?o div 8)) (8 * ?n))"
    by (rule acc_bytes_Ok)
  moreover have "drop_bit (?o mod 8) (field chunk (8 * (?o div 8)) (8 * ?n)) AND mask w
      = (field chunk ?o w :: 'w word)"
  proof (rule bit_word_eqI)
    fix k assume k: "k < LENGTH('w)"
    have "k < w \<Longrightarrow> ?o mod 8 + k < 8 * ?n" by linarith
    moreover have "8 * (?o div 8) + (?o mod 8 + k) = ?o + k" by simp
    ultimately show "bit (drop_bit (?o mod 8) (field chunk (8 * (?o div 8)) (8 * ?n)) AND mask w :: 'w word) k
        = bit (field chunk ?o w :: 'w word) k"
      using k assms(2) by (auto simp: bit_simps bit_field)
  qed
  ultimately show ?thesis
    by (simp add: packed_value_def Let_def)
qed

lemma mod8_width: "w + 7 \<le> l \<Longrightarrow> i * w mod 8 + w \<le> (l :: nat)"
  using mod_less_divisor [of 8 "i * w"] by linarith

text \<open>A slice \<open>bs[a..b]\<close>.\<close>

definition slice :: "bytes \<Rightarrow> nat \<Rightarrow> nat \<Rightarrow> ('e, bytes) outcome" where
  "slice bs a b =
     (if a \<le> b \<and> b \<le> length bs then Ok (take (b - a) (drop a bs))
      else Panic ''range index out of range for slice'')"

lemma field_slice:
  assumes "off + w \<le> 8 * n" and "a + n \<le> length bs"
  shows "(field (take n (drop a bs)) off w :: 'a::len word) = field bs (8 * a + off) w"
proof -
  have "bs = take a bs @ take n (drop a bs) @ drop (a + n) bs"
    by (metis append_take_drop_id drop_drop add.commute)
  then have "(field bs (8 * a + off) w :: 'a word) = field (take a bs @ take n (drop a bs) @ drop (a + n) bs) (8 * length (take a bs) + off) w"
    using assms by simp
  also have "\<dots> = field (take n (drop a bs) @ drop (a + n) bs) off w"
    by (rule field_append_right)
  also have "\<dots> = field (take n (drop a bs)) off w"
    using assms by (intro field_append) simp
  finally show ?thesis by simp
qed

lemma ucast_field: "w \<le> LENGTH('a) \<Longrightarrow> w \<le> LENGTH('b) \<Longrightarrow> ucast (field bs off w :: 'a::len word) = (field bs off w :: 'b::len word)"
  by (rule bit_word_eqI) (auto simp: bit_simps bit_field)

end
