(* ===== verification/CodecBase.thy ===== *)
theory CodecBase
  imports ReaderLaws BitStream
begin

text \<open>
  What the modules of \<open>ematix-parquet-codec\<close> share: \<open>CodecError\<close> of \<open>error.rs\<close>, the wire reader as a
  fallible call of a codec function, and checked \<open>usize\<close> arithmetic.  A bit width, a \<open>u8\<close> the code
  casts to \<open>usize\<close> before every use, is a \<open>nat\<close>.
\<close>

datatype codec_error =
    Wire format_error
  | Decompress string
  | UnalignedPlainBuffer nat nat
  | UnderflowingPlainBuffer nat nat nat
  | BitWidthOutOfRange nat
  | EmptyDictPageBody
  | DictIndexOutOfRange nat nat
  | InvalidInput string
  | Unsupported string
  | Cancelled

type_synonym 'a codec_result = "(codec_error, 'a) outcome"

text \<open>\<open>read_\<dots>(&mut cur)?\<close>: the \<open>From<FormatError>\<close> conversion of the \<open>?\<close> operator.\<close>

definition wire :: "'a reader \<Rightarrow> cursor \<Rightarrow> ('a \<times> cursor) codec_result" where
  "wire r cur = map_err Wire (r cur)"

definition mul_usize :: "nat \<Rightarrow> nat \<Rightarrow> ('e, nat) outcome" where
  "mul_usize a b = (if a * b < 2 ^ 64 then Ok (a * b) else Panic ''attempt to multiply with overflow'')"

definition add_usize :: "nat \<Rightarrow> nat \<Rightarrow> ('e, nat) outcome" where
  "add_usize a b = (if a + b < 2 ^ 64 then Ok (a + b) else Panic ''attempt to add with overflow'')"

text \<open>\<open>a.div_ceil(b)\<close>, which cannot overflow.\<close>

definition div_ceil :: "nat \<Rightarrow> nat \<Rightarrow> nat" where
  "div_ceil a b = (a + b - 1) div b"

lemma map_err_eq_Ok [simp]: "map_err g m = Ok x \<longleftrightarrow> m = Ok x"
  by (cases m) auto

lemma bind_o_Ok_right: "bind_o m Ok = m"
  by (cases m) simp_all

lemma wire_Ok_iff: "wire r cur = Ok y \<longleftrightarrow> r cur = Ok y"
  by (simp add: wire_def)

lemma wire_reads: "reads r bs x \<Longrightarrow> rest cur = bs @ post \<Longrightarrow> wire r cur = Ok (x, adv cur (length bs))"
  by (simp add: wire_def readsD)

lemma reads_take: "reads (cur_take (length bs)) bs bs"
  by (rule readsI) (auto simp: cur_take_def remaining_rest rest_def adv_def)

section \<open>Reading makes the rest of the buffer shorter\<close>

lemma remaining_read_u8: "read_u8 cur = Ok (b, cur') \<Longrightarrow> remaining cur' < remaining cur"
  by (auto simp: read_u8_def remaining_def split: if_splits)

lemma remaining_uvarint_loop: "uvarint_loop n r s cur = Ok (v, cur') \<Longrightarrow> remaining cur' < remaining cur"
proof (induction n arbitrary: r s cur)
  case (Suc n)
  then obtain b c where "read_u8 cur = Ok (b, c)" and
    "(let r' = r OR push_bit s (ucast (b AND 0x7F)) in
      if b AND 0x80 = 0 then return_r r' else uvarint_loop n r' (s + 7)) c = Ok (v, cur')"
    by (auto simp: bind_r_def bind_o_eq_Ok_iff)
  with Suc.IH [of _ _ c] remaining_read_u8 [of cur b c] show ?case
    by (fastforce simp: Let_def return_r_def split: if_splits)
qed (simp add: fail_r_def)

lemma remaining_uvarint: "read_uvarint cur = Ok (v, cur') \<Longrightarrow> remaining cur' < remaining cur"
  unfolding read_uvarint_def by (rule remaining_uvarint_loop)

lemma remaining_take: "cur_take n cur = Ok (bs, cur') \<Longrightarrow> remaining cur' \<le> remaining cur"
  by (auto simp: cur_take_def remaining_def split: if_splits)

end
