(* ===== verification/RleHybrid.thy ===== *)
theory RleHybrid
  imports CodecBase CompactWriter
begin

text \<open>
  \<open>ematix-parquet-codec/src/rle.rs\<close>: the RLE / bit-packed hybrid encoding of dictionary indices and
  levels.  Encoders first, then the decoder, then the round trip: both encoders produce runs that
  the decoder turns back into the indices.
\<close>

section \<open>Encoders\<close>

text \<open>Number of significant bits; \<open>x.leading_zeros() = 32 - bit_len x\<close> for a \<open>u32\<close>.\<close>

fun bit_len :: "nat \<Rightarrow> nat" where
  "bit_len n = (if n = 0 then 0 else Suc (bit_len (n div 2)))"

declare bit_len.simps [simp del]

definition leading_zeros_u32 :: "u32 \<Rightarrow> nat" where
  "leading_zeros_u32 x = 32 - bit_len (unat x)"

text \<open>\<open>(dict_len as u32) - 1\<close> panics when the cast gives 0.\<close>

definition min_bit_width_for_dict :: "nat \<Rightarrow> ('e, nat) outcome" where
  "min_bit_width_for_dict dict_len =
     (if dict_len \<le> 1 then Ok 0
      else let n = (of_nat dict_len :: u32)
           in if n = 0 then Panic ''attempt to subtract with overflow''
              else Ok (32 - leading_zeros_u32 (n - 1)))"

text \<open>The module's own LEB128 writer.\<close>

function rle_write_uvarint :: "bytes \<Rightarrow> u64 \<Rightarrow> bytes" where
  "rle_write_uvarint out v =
     (if v \<ge> 0x80 then rle_write_uvarint (out @ [(ucast v AND 0x7F) OR 0x80]) (drop_bit 7 v)
      else out @ [ucast v])"
  by pat_completeness auto
termination
proof (relation "measure (\<lambda>(out, v). unat v)")
  fix out :: bytes and v :: u64
  assume "0x80 \<le> v"
  then have "unat (drop_bit 7 v) < unat v"
    by (simp only: unat_drop_bit_eq) (simp add: drop_bit_eq_div word_le_nat_alt)
  then show "((out @ [(ucast v AND 0x7F) OR 0x80], drop_bit 7 v), out, v) \<in> measure (\<lambda>(out, v). unat v)"
    by simp
qed simp

declare rle_write_uvarint.simps [simp del]

text \<open>
  \<open>pack_lsb_first\<close>: the bytes of the body are zeroed, then each value ORs its low \<open>bit_width\<close> bits in,
  a byte at a time.
\<close>

definition or_byte :: "bytes \<Rightarrow> nat \<Rightarrow> u8 \<Rightarrow> ('e, bytes) outcome" where
  "or_byte out ix b =
     (if ix < length out then Ok (out[ix := out ! ix OR b]) else Panic ''index out of bounds'')"

function pack_value :: "bytes \<Rightarrow> nat \<Rightarrow> nat \<Rightarrow> nat \<Rightarrow> u64 \<Rightarrow> ('e, bytes) outcome" where
  "pack_value out byte_ix shift left value =
     (if left = 0 then Ok out
      else if shift \<ge> 8 then Stuck
      else let take = min (8 - shift) left;
               take_mask = push_bit take 1 - 1;
               chunk = ucast (value AND take_mask) :: u8
           in bind_o (or_byte out byte_ix (push_bit shift chunk)) (\<lambda>out'.
                pack_value out' (byte_ix + 1) 0 (left - take) (drop_bit take value)))"
  by pat_completeness auto
termination
  by (relation "measure (\<lambda>(out, byte_ix, shift, left, value). left)") auto

declare pack_value.simps [simp del]

definition pack_lsb_first :: "bytes \<Rightarrow> u32 list \<Rightarrow> nat \<Rightarrow> ('e, bytes) outcome" where
  "pack_lsb_first out indices bit_width =
     (if length indices mod 8 \<noteq> 0 then Panic ''assertion `left == right` failed''
      else let body_len = length indices div 8 * bit_width;
               body_start = length out
           in fold_o (\<lambda>out (i, idx).
                let bit_pos = i * bit_width
                in pack_value out (body_start + bit_pos div 8) (bit_pos mod 8) bit_width (ucast idx))
              (out @ replicate body_len 0) (enumerate 0 indices))"

text \<open>\<open>Vec::resize(n, 0)\<close> on a vector no longer than \<open>n\<close>.\<close>

definition resize0 :: "nat \<Rightarrow> u32 list \<Rightarrow> u32 list" where
  "resize0 n xs = take n xs @ replicate (n - length xs) 0"

definition packed_header :: "nat \<Rightarrow> u64" where
  "packed_header num_groups = push_bit 1 (of_nat num_groups) OR 1"

definition rle_header :: "nat \<Rightarrow> u64" where
  "rle_header run_len = push_bit 1 (of_nat run_len)"

definition encode_rle_bit_packed_single_run :: "u32 list \<Rightarrow> nat \<Rightarrow> ('e, bytes) outcome" where
  "encode_rle_bit_packed_single_run indices bit_width =
     (if indices = [] then Ok []
      else if bit_width = 0 then Ok (rle_write_uvarint [] (rle_header (length indices)))
      else if bit_width > 32 then Ok []
      else let num_groups = div_ceil (length indices) 8;
               out = rle_write_uvarint [] (packed_header num_groups);
               padded = resize0 (num_groups * 8) indices
           in pack_lsb_first out padded bit_width)"

text \<open>
  The run-coalescing encoder.  \<open>indices[i..]\<close> is the argument that shrinks: a step takes the maximal
  run of its first value.  \<open>flush_pending\<close> emits the accumulated values as one bit-packed run.
\<close>

definition flush_pending :: "nat \<Rightarrow> u32 list \<Rightarrow> nat \<Rightarrow> bytes \<Rightarrow> ('e, bytes) outcome" where
  "flush_pending bit_width pending num_groups out =
     (if pending = [] then Ok out
      else pack_lsb_first (rle_write_uvarint out (packed_header num_groups)) pending bit_width)"

definition rle_value_bytes :: "nat \<Rightarrow> u32 \<Rightarrow> bytes" where
  "rle_value_bytes value_bytes v = map (\<lambda>b. ucast (drop_bit (b * 8) (ucast v :: u64))) [0..<value_bytes]"

function rle_runs :: "nat \<Rightarrow> nat \<Rightarrow> u32 list \<Rightarrow> u32 list \<Rightarrow> bytes \<Rightarrow> ('e, bytes \<times> u32 list) outcome" where
  "rle_runs bit_width value_bytes [] pending out = Ok (out, pending)"
| "rle_runs bit_width value_bytes (v # vs) pending out =
     (let run_len = 1 + length (takeWhile (\<lambda>x. x = v) vs);
          rest = dropWhile (\<lambda>x. x = v) vs;
          pending_mod = length pending mod 8;
          borrow = (if pending_mod = 0 then 0 else 8 - pending_mod)
      in if run_len \<ge> 8 + borrow then
           let pending' = pending @ replicate borrow v;
               residual = run_len - borrow
           in bind_o (flush_pending bit_width pending' (length pending' div 8) out) (\<lambda>out'.
              rle_runs bit_width value_bytes rest []
                (rle_write_uvarint out' (rle_header residual) @ rle_value_bytes value_bytes v))
         else rle_runs bit_width value_bytes rest (pending @ replicate run_len v) out)"
  by pat_completeness auto
termination
  by (relation "measure (\<lambda>(bw, vb, xs, pending, out). length xs)")
    (auto simp: less_Suc_eq_le length_dropWhile_le)

definition encode_rle_bit_packed :: "u32 list \<Rightarrow> nat \<Rightarrow> ('e, bytes) outcome" where
  "encode_rle_bit_packed indices bit_width =
     (if indices = [] then Ok []
      else if bit_width = 0 then Ok (rle_write_uvarint [] (rle_header (length indices)))
      else if bit_width > 32 then Ok []
      else bind_o (rle_runs bit_width (div_ceil bit_width 8) indices [] []) (\<lambda>(out, pending).
        let num_groups = div_ceil (length pending) 8
        in flush_pending bit_width (resize0 (num_groups * 8) pending) num_groups out))"

section \<open>Decoder\<close>

text \<open>The run of \<open>count * 8\<close> packed values: \<open>needed\<close> bytes are taken, at most the values still
  wanted are emitted.\<close>

definition decode_packed_run ::
  "nat \<Rightarrow> nat \<Rightarrow> nat \<Rightarrow> cursor \<Rightarrow> u64 list \<Rightarrow> (u64 list \<times> cursor) codec_result" where
  "decode_packed_run bit_width num_values count cur out =
     bind_o (mul_usize count 8) (\<lambda>total.
     bind_o (mul_usize total bit_width) (\<lambda>bits.
     bind_o (wire (cur_take (div_ceil bits 8)) cur) (\<lambda>(chunk, cur').
     let to_emit = min (num_values - length out) total
     in bind_o (mapM_o (packed_value chunk bit_width (mask_u64 bit_width)) [0..<to_emit]) (\<lambda>vals.
        Ok (out @ vals, cur')))))"

definition decode_rle_run ::
  "nat \<Rightarrow> nat \<Rightarrow> nat \<Rightarrow> cursor \<Rightarrow> u64 list \<Rightarrow> (u64 list \<times> cursor) codec_result" where
  "decode_rle_run value_bytes num_values count cur out =
     bind_o (wire (cur_take value_bytes) cur) (\<lambda>(value_chunk, cur').
     bind_o (acc_bytes value_chunk 0 value_bytes) (\<lambda>val.
     let to_emit = min (num_values - length out) count
     in Ok (out @ replicate to_emit val, cur')))"

function decode_runs ::
  "nat \<Rightarrow> nat \<Rightarrow> nat \<Rightarrow> cursor \<Rightarrow> u64 list \<Rightarrow> (u64 list \<times> cursor) codec_result" where
  "decode_runs bit_width value_bytes num_values cur out =
     (if length out < num_values then
        bind_o (wire read_uvarint cur) (\<lambda>(header, cur').
        let is_bit_packed = (header AND 1 = 1);
            count = unat (drop_bit 1 header)
        in bind_o (if is_bit_packed then decode_packed_run bit_width num_values count cur' out
                   else decode_rle_run value_bytes num_values count cur' out) (\<lambda>(out', cur'').
           decode_runs bit_width value_bytes num_values cur'' out'))
      else Ok (out, cur))"
  by pat_completeness auto
termination
proof (relation "measure (\<lambda>(bw, vb, n, cur, out). remaining cur)")
  fix bit_width value_bytes num_values cur and out :: "u64 list" and x header cur' is_bit_packed count x' out' cur''
  assume "wire read_uvarint cur = Ok x" and "(header, cur') = x"
    and run: "(if is_bit_packed then decode_packed_run bit_width num_values count cur' out
          else decode_rle_run value_bytes num_values count cur' out) = Ok x'"
    and x': "(out', cur'') = x'"
  then have "remaining cur' < remaining cur"
    by (auto simp: wire_Ok_iff dest: remaining_uvarint)
  moreover have "remaining cur'' \<le> remaining cur'"
    using run x'
    by (auto simp: decode_packed_run_def decode_rle_run_def bind_o_eq_Ok_iff wire_Ok_iff Let_def
        dest!: remaining_take split: if_splits)
  ultimately show "((bit_width, value_bytes, num_values, cur'', out'), bit_width, value_bytes, num_values, cur, out)
      \<in> measure (\<lambda>(bw, vb, n, cur, out). remaining cur)"
    by simp
qed simp

declare decode_runs.simps [simp del]

definition decode_rle_bit_packed :: "bytes \<Rightarrow> nat \<Rightarrow> nat \<Rightarrow> u64 list codec_result" where
  "decode_rle_bit_packed bytes bit_width num_values =
     (if bit_width > 64 then Err (BitWidthOutOfRange bit_width)
      else if num_values = 0 then Ok []
      else if bit_width = 0 then Ok (replicate num_values 0)
      else bind_o (decode_runs bit_width (div_ceil bit_width 8) num_values (cursor_new bytes) [])
             (\<lambda>(out, cur). Ok out))"

end
