(* ===== verification/RleProofs.thy ===== *)
theory RleProofs
  imports RleHybrid
begin

text \<open>
  The packer of \<open>RleHybrid\<close>: \<open>pack_lsb_first\<close> never panics and writes each value as a field of
  \<open>bit_width\<close> bits, so that the fields of its body are the values.
\<close>

section \<open>The packer\<close>

lemma bit_len_bounds: "n < 2 ^ bit_len n \<and> (0 < n \<longrightarrow> 2 ^ (bit_len n - 1) \<le> n)"
proof (induction n rule: bit_len.induct)
  case (1 n)
  show ?case
  proof (cases "n = 0")
    case False
    with 1 have IH: "n div 2 < 2 ^ bit_len (n div 2)" "0 < n div 2 \<longrightarrow> 2 ^ (bit_len (n div 2) - 1) \<le> n div 2"
      by auto
    show ?thesis
    proof (cases "n div 2 = 0")
      case True
      with False have "n = 1" by auto
      then show ?thesis by (simp add: bit_len.simps)
    next
      case pos: False
      then have "bit_len (n div 2) = Suc (bit_len (n div 2) - 1)"
        by (subst (1 2) bit_len.simps) simp
      with IH pos False show ?thesis
        by (subst (1 2) bit_len.simps) (auto, metis power_Suc mult.commute less_mult_imp_div_less div_less_iff_less_mult zero_less_numeral, metis One_nat_def diff_Suc_1 power_Suc2 div_le_mono le_div_geq less_eq_div_iff_mult_less_eq zero_less_numeral mult.commute)
    qed
  qed (simp add: bit_len.simps)
qed

lemma stream_bit_or_byte:
  assumes "ix < length out"
  shows "stream_bit (out[ix := out ! ix OR b]) n \<longleftrightarrow> stream_bit out n \<or> (n div 8 = ix \<and> bit b (n mod 8))"
  using assms by (auto simp: stream_bit_def nth_list_update bit_or_iff)

lemma bit_low_chunk:
  assumes "shift + k \<le> 8" and "m < 8"
  shows "bit (push_bit shift (ucast (v AND (push_bit k 1 - 1)) :: u8)) m
    \<longleftrightarrow> shift \<le> m \<and> m < shift + k \<and> bit (v :: u64) (m - shift)"
proof -
  have "push_bit k 1 - 1 = (mask k :: u64)" by (simp add: mask_eq_exp_minus_1 push_bit_of_1)
  then show ?thesis using assms by (auto simp: bit_simps)
qed

lemma pack_value_bits:
  assumes "8 * ix + shift + left \<le> 8 * length out" and "shift < 8"
  shows "\<exists>out'. (pack_value out ix shift left val :: ('e, bytes) outcome) = Ok out' \<and> length out' = length out \<and>
    (\<forall>n. stream_bit out' n \<longleftrightarrow> stream_bit out n \<or>
       (8 * ix + shift \<le> n \<and> n < 8 * ix + shift + left \<and> bit val (n - (8 * ix + shift))))"
  using assms
proof (induction left arbitrary: out ix shift val rule: less_induct)
  case (less left)
  show ?case
  proof (cases "left = 0")
    case True
    then show ?thesis by (subst pack_value.simps) auto
  next
    case False
    define k where "k = min (8 - shift) left"
    define b where "b = push_bit shift (ucast (val AND (push_bit k 1 - 1)) :: u8)"
    let ?o = "out[ix := out ! ix OR b]"
    have ix: "ix < length out" and k: "0 < k" "shift + k \<le> 8" "k \<le> left"
      using less.prems False by (auto simp: k_def)
    have byte: "(or_byte out ix b :: ('e, bytes) outcome) = Ok ?o"
      using ix by (simp add: or_byte_def)
    have room: "left - k = 0 \<or> 8 * (ix + 1) + 0 + (left - k) \<le> 8 * length out"
      using less.prems(1) k unfolding k_def by auto
    have one: "stream_bit ?o n \<longleftrightarrow> stream_bit out n \<or>
        (8 * ix + shift \<le> n \<and> n < 8 * ix + shift + k \<and> bit val (n - (8 * ix + shift)))" for n
    proof -
      obtain q r where n: "n = 8 * q + r" "r < 8"
        by (metis mult_div_mod_eq mod_less_divisor zero_less_numeral)
      have q: "8 * ix + shift \<le> n \<and> n < 8 * ix + shift + k \<longrightarrow> q = ix"
        using n k(2) by linarith
      have "n div 8 = ix \<and> shift \<le> n mod 8 \<and> n mod 8 < shift + k \<longleftrightarrow> 8 * ix + shift \<le> n \<and> n < 8 * ix + shift + k"
      proof (cases "q = ix")
        case True
        with n show ?thesis by auto
      next
        case False
        with q n show ?thesis by simp
      qed
      moreover have "n div 8 = ix \<Longrightarrow> n mod 8 - shift = n - (8 * ix + shift)" using n by auto
      ultimately show ?thesis
        using bit_low_chunk [OF k(2), of "n mod 8" val] by (auto simp: stream_bit_or_byte [OF ix] b_def)
    qed
    have step: "(pack_value out ix shift left val :: ('e, bytes) outcome)
        = pack_value ?o (ix + 1) 0 (left - k) (drop_bit k val)"
      using False less.prems(2) byte by (subst pack_value.simps) (simp add: Let_def k_def b_def)
    show ?thesis
    proof (cases "left - k = 0")
      case True
      then have "k = left" using k by simp
      with one show ?thesis
        unfolding step by (subst pack_value.simps) (auto simp: True)
    next
      case more: False
      then have kk: "shift + k = 8" using k unfolding k_def by auto
      have "\<exists>out'. (pack_value ?o (ix + 1) 0 (left - k) (drop_bit k val) :: ('e, bytes) outcome) = Ok out' \<and>
        length out' = length ?o \<and> (\<forall>n. stream_bit out' n \<longleftrightarrow> stream_bit ?o n \<or>
          (8 * (ix + 1) + 0 \<le> n \<and> n < 8 * (ix + 1) + 0 + (left - k) \<and> bit (drop_bit k val) (n - (8 * (ix + 1) + 0))))"
        by (rule less.IH) (use k room more in auto)
      then obtain out' where o: "(pack_value ?o (ix + 1) 0 (left - k) (drop_bit k val) :: ('e, bytes) outcome) = Ok out'"
        "length out' = length ?o"
        "\<And>n. stream_bit out' n \<longleftrightarrow> stream_bit ?o n \<or>
          (8 * (ix + 1) \<le> n \<and> n < 8 * (ix + 1) + (left - k) \<and> bit (drop_bit k val) (n - 8 * (ix + 1)))"
        by auto
      have "stream_bit out' n \<longleftrightarrow> stream_bit out n \<or>
         (8 * ix + shift \<le> n \<and> n < 8 * ix + shift + left \<and> bit val (n - (8 * ix + shift)))" for n
      proof -
        have kk8: "8 * ix + shift + k = 8 * (ix + 1)" using kk by simp
        show ?thesis
        proof (cases "8 * (ix + 1) \<le> n")
          case True
          then have "k + (n - 8 * (ix + 1)) = n - (8 * ix + shift)"
            using kk by (auto simp: le_iff_add)
          with True kk8 k show ?thesis by (auto simp: o(3) one bit_drop_bit_eq)
        next
          case False
          with kk8 k show ?thesis by (auto simp: o(3) one)
        qed
      qed
      with o(1,2) show ?thesis unfolding step by auto
    qed
  qed
qed


lemma pack_fold:
  assumes "0 < bw" and "length xs * bw \<le> 8 * L"
  shows "\<exists>b. (fold_o (\<lambda>out (i, idx).
             let bit_pos = i * bw in pack_value out (0 + bit_pos div 8) (bit_pos mod 8) bw (ucast idx))
           (replicate L 0) (enumerate 0 xs) :: ('e, bytes) outcome) = Ok b \<and> length b = L \<and>
     (\<forall>n. stream_bit b n \<longleftrightarrow> n < length xs * bw \<and> bit (ucast (xs ! (n div bw) :: u32) :: u64) (n mod bw))"
  using assms(2)
proof (induction xs rule: rev_induct)
  case Nil
  then show ?case by (simp add: stream_bit_replicate_0)
next
  case (snoc x xs)
  let ?f = "\<lambda>out (i, idx). let bit_pos = i * bw in
    pack_value out (0 + bit_pos div 8) (bit_pos mod 8) bw (ucast (idx :: u32)) :: ('e, bytes) outcome"
  from snoc obtain b where b: "fold_o ?f (replicate L 0) (enumerate 0 xs) = Ok b" "length b = L"
    "\<And>n. stream_bit b n \<longleftrightarrow> n < length xs * bw \<and> bit (ucast (xs ! (n div bw)) :: u64) (n mod bw)"
    by auto
  let ?p = "length xs * bw"
  have p: "8 * (?p div 8) + ?p mod 8 = ?p" by simp
  have "8 * (?p div 8) + ?p mod 8 + bw \<le> 8 * length b" using snoc.prems b(2) unfolding p by (simp add: algebra_simps)
  from pack_value_bits [OF this, of "ucast x"]
  obtain b' where b': "(pack_value b (?p div 8) (?p mod 8) bw (ucast x) :: ('e, bytes) outcome) = Ok b'" "length b' = L"
    "\<And>n. stream_bit b' n \<longleftrightarrow> stream_bit b n \<or> (?p \<le> n \<and> n < ?p + bw \<and> bit (ucast x :: u64) (n - ?p))"
    unfolding p using b(2) by auto
  have "stream_bit b' n \<longleftrightarrow> n < length (xs @ [x]) * bw \<and> bit (ucast ((xs @ [x]) ! (n div bw)) :: u64) (n mod bw)" for n
  proof -
    consider "n < ?p" | "?p \<le> n" "n < ?p + bw" | "?p + bw \<le> n" by linarith
    then show ?thesis
    proof cases
      case 1
      then have "n div bw < length xs" using assms(1) by (simp add: less_mult_imp_div_less)
      with 1 show ?thesis by (auto simp: b'(3) b(3) nth_append)
    next
      case 2
      then obtain r where r: "n = length xs * bw + r" "r < bw"
        by (metis le_add_diff_inverse nat_add_left_cancel_less)
      with 2 show ?thesis using assms(1) by (auto simp: b'(3) b(3) nth_append)
    next
      case 3
      then show ?thesis by (auto simp: b'(3) b(3))
    qed
  qed
  then show ?case
    using b b' by (simp add: enumerate_append_eq fold_o_append)
qed

lemma pack_lsb_first_body:
  assumes "0 < bw" and "length xs mod 8 = 0"
  shows "\<exists>b. (pack_lsb_first [] xs bw :: ('e, bytes) outcome) = Ok b \<and> length b = length xs div 8 * bw \<and>
     (\<forall>i < length xs. field b (i * bw) bw = (take_bit bw (ucast (xs ! i)) :: u64))"
proof -
  have L: "length xs * bw \<le> 8 * (length xs div 8 * bw)"
    using assms(2) by (metis mod_0_imp_dvd dvd_mult_div_cancel mult.assoc order_refl)
  from pack_fold [OF assms(1) L] obtain b where
    b: "(pack_lsb_first [] xs bw :: ('e, bytes) outcome) = Ok b" "length b = length xs div 8 * bw"
    "\<And>n. stream_bit b n \<longleftrightarrow> n < length xs * bw \<and> bit (ucast (xs ! (n div bw)) :: u64) (n mod bw)"
    using assms(2) by (auto simp: pack_lsb_first_def Let_def)
  have "field b (i * bw) bw = (take_bit bw (ucast (xs ! i)) :: u64)" if i: "i < length xs" for i
  proof (rule field_eqI)
    fix n
    have "n < bw \<Longrightarrow> i * bw + n < length xs * bw"
      using i by (metis add_less_cancel_left mult_Suc add.commute less_le_trans mult_le_mono1 Suc_leI)
    then show "bit (take_bit bw (ucast (xs ! i)) :: u64) n \<longleftrightarrow> n < bw \<and> stream_bit b (i * bw + n)"
      using assms(1) by (auto simp: bit_take_bit_iff b(3))
  qed
  with b show ?thesis by auto
qed

lemma or_byte_append:
  "or_byte (out @ body) (length out + ix) c = bind_o (or_byte body ix c) (\<lambda>b. Ok (out @ b))"
  by (simp add: or_byte_def nth_append list_update_append)

lemma pack_value_append:
  "(pack_value (out @ body) (length out + ix) shift left val :: ('e, bytes) outcome)
     = bind_o (pack_value body ix shift left val) (\<lambda>b. Ok (out @ b))"
proof (induction left arbitrary: body ix shift val rule: less_induct)
  case (less left)
  let ?k = "min (8 - shift) left"
  let ?c = "push_bit shift (ucast (val AND (push_bit ?k 1 - 1)) :: u8)"
  show ?case
  proof (cases "left = 0 \<or> shift \<ge> 8")
    case True
    then show ?thesis by (subst (1 2) pack_value.simps) auto
  next
    case False
    then have k: "left - ?k < left" by auto
    have "pack_value (out @ b) (length out + ix + 1) 0 (left - ?k) (drop_bit ?k val)
        = bind_o (pack_value b (ix + 1) 0 (left - ?k) (drop_bit ?k val)) (\<lambda>b. Ok (out @ b) :: ('e, bytes) outcome)" for b
      using less.IH [OF k] by (metis (no_types) add.assoc)
    with False show ?thesis
      by (subst (1 2) pack_value.simps) (simp add: Let_def or_byte_append bind_o_assoc)
  qed
qed

lemma pack_lsb_first_append:
  "(pack_lsb_first out xs bw :: ('e, bytes) outcome) = bind_o (pack_lsb_first [] xs bw) (\<lambda>b. Ok (out @ b))"
proof -
  let ?f = "\<lambda>s out (i, idx). let bit_pos = i * bw in
    pack_value out (s + bit_pos div 8) (bit_pos mod 8) bw (ucast (idx :: u32)) :: ('e, bytes) outcome"
  have "fold_o (?f (length out)) (out @ body) ys = bind_o (fold_o (?f 0) body ys) (\<lambda>b. Ok (out @ b))" for body ys
  proof (induction ys arbitrary: body)
    case (Cons y ys)
    then show ?case
      by (cases y) (simp add: Let_def pack_value_append bind_o_assoc)
  qed simp
  then show ?thesis by (simp add: pack_lsb_first_def Let_def)
qed

end
