(* ===== verification/RleRoundtrip.thy ===== *)
theory RleRoundtrip
  imports RleProofs
begin

text \<open>
  Both encoders of \<open>RleHybrid\<close> are inverted by its decoder.  \<open>emits bw bs vs\<close>: the bytes \<open>bs\<close> are whole
  runs that decode to \<open>vs\<close>, wherever they stand; runs compose by concatenation.  The encoders are
  verified once, in the locale \<open>run_reader\<close>, against any reader that reads the two kinds of run and
  their concatenations; \<open>emits\<close> is the first interpretation.  Then the exact width of a dictionary,
  the length of a decoded list and two overflows of the decoder.
\<close>

section \<open>Run headers\<close>

lemma rle_write_uvarint_eq: "rle_write_uvarint out v = out @ write_uvarint [] v"
proof (induction out v rule: rle_write_uvarint.induct)
  case (1 out v)
  have byte: "(ucast v AND 0x7F) OR 0x80 = (ucast (v AND 0x7F) OR 0x80 :: u8)"
    by (simp only: and_7F, rule bit_word_eqI) (auto simp: bit_simps)
  show ?case
  proof (cases "v \<ge> 0x80")
    case True
    with 1 have "rle_write_uvarint out v = out @ [ucast (v AND 0x7F) OR 0x80] @ write_uvarint [] (drop_bit 7 v)"
      by (subst rle_write_uvarint.simps) (simp add: byte)
    also have "[ucast (v AND 0x7F) OR 0x80] @ write_uvarint [] (drop_bit 7 v) = write_uvarint [] v"
      using True by (subst (2) write_uvarint.simps) (simp add: write_uvarint_append [of "[_]"])
    finally show ?thesis .
  next
    case False
    then show ?thesis by (subst rle_write_uvarint.simps, subst write_uvarint.simps) simp
  qed
qed

lemma header_bits:
  assumes "n < 2 ^ 63"
  shows "packed_header n AND 1 = 1" and "rle_header n AND 1 = 0"
    and "unat (drop_bit 1 (packed_header n)) = n" and "unat (drop_bit 1 (rle_header n)) = n"
proof -
  have n: "unat (of_nat n :: u64) = n" using assms by (simp add: unsigned_of_nat take_bit_nat_eq_self)
  have top: "bit (of_nat n :: u64) k \<Longrightarrow> k < 63" for k
    using bit_below [of "of_nat n :: u64" 63 k] assms n by simp
  show "packed_header n AND 1 = 1" "rle_header n AND 1 = 0"
    unfolding packed_header_def rle_header_def
    by (rule bit_word_eqI; simp only: bit_and_iff bit_or_iff bit_push_bit_iff bit_1_iff; auto)+
  have "drop_bit 1 (packed_header n) = of_nat n" "drop_bit 1 (rle_header n) = of_nat n"
    unfolding packed_header_def rle_header_def
    by (rule bit_word_eqI; simp only: bit_drop_bit_eq bit_or_iff bit_push_bit_iff bit_1_iff o_apply; auto dest: top)+
  then show "unat (drop_bit 1 (packed_header n)) = n" "unat (drop_bit 1 (rle_header n)) = n"
    by (simp_all add: n)
qed

section \<open>What a run decodes to\<close>

definition decoded :: "nat \<Rightarrow> nat \<Rightarrow> cursor \<Rightarrow> u64 list \<Rightarrow> u64 list codec_result" where
  "decoded bw num cur acc =
     bind_o (decode_runs bw (div_ceil bw 8) num cur acc) (\<lambda>(out, cur). Ok out)"

text \<open>\<open>emits bw run ys\<close>: the bytes \<open>run\<close>, wherever they stand, append \<open>ys\<close> to the output, cut to the
  number of values wanted.\<close>

definition emits :: "nat \<Rightarrow> bytes \<Rightarrow> u64 list \<Rightarrow> bool" where
  "emits bw run ys \<longleftrightarrow>
     (\<forall>cur post acc num. rest cur = run @ post \<longrightarrow>
        decoded bw num cur acc = decoded bw num (adv cur (length run)) (acc @ take (num - length acc) ys))"

lemma decoded_full: "num \<le> length acc \<Longrightarrow> decoded bw num cur acc = Ok acc"
  unfolding decoded_def by (subst decode_runs.simps) simp

lemma emits_Nil: "emits bw [] []"
  by (simp add: emits_def)

lemma emits_append:
  assumes "emits bw r ys" and "emits bw s zs"
  shows "emits bw (r @ s) (ys @ zs)"
  unfolding emits_def
proof (intro allI impI)
  fix cur post acc num assume rest: "rest cur = (r @ s) @ post"
  then have "decoded bw num cur acc = decoded bw num (adv cur (length r)) (acc @ take (num - length acc) ys)"
    using assms(1) unfolding emits_def by (metis append.assoc)
  also have "\<dots> = decoded bw num (adv cur (length (r @ s)))
      ((acc @ take (num - length acc) ys) @ take (num - length (acc @ take (num - length acc) ys)) zs)"
    using assms(2) rest_adv [of cur r "s @ post"] rest unfolding emits_def by (metis adv_adv append.assoc length_append)
  also have "(acc @ take (num - length acc) ys) @ take (num - length (acc @ take (num - length acc) ys)) zs
      = acc @ take (num - length acc) (ys @ zs)"
    by (simp add: min_def)
  finally show "decoded bw num cur acc = decoded bw num (adv cur (length (r @ s))) (acc @ take (num - length acc) (ys @ zs))" .
qed

lemma emits_one_run:
  assumes "\<And>cur post acc num. rest cur = body @ post \<Longrightarrow> length acc < num \<Longrightarrow>
      (if h AND 1 = 1 then decode_packed_run bw num (unat (drop_bit 1 h)) cur acc
       else decode_rle_run (div_ceil bw 8) num (unat (drop_bit 1 h)) cur acc)
      = Ok (acc @ take (num - length acc) ys, adv cur (length body))"
  shows "emits bw (rle_write_uvarint [] h @ body) ys"
  unfolding emits_def
proof (intro allI impI)
  fix cur post acc num assume rest: "rest cur = (rle_write_uvarint [] h @ body) @ post"
  let ?hb = "write_uvarint [] h"
  have rest': "rest cur = ?hb @ body @ post" using rest by (simp add: rle_write_uvarint_eq)
  show "decoded bw num cur acc = decoded bw num (adv cur (length (rle_write_uvarint [] h @ body)))
      (acc @ take (num - length acc) ys)"
  proof (cases "length acc < num")
    case True
    have hdr: "wire read_uvarint cur = Ok (h, adv cur (length ?hb))"
      by (rule wire_reads [OF reads_uvarint rest'])
    have body: "rest (adv cur (length ?hb)) = body @ post" by (rule rest_adv [OF rest'])
    show ?thesis
      unfolding decoded_def
      by (subst decode_runs.simps) (simp only: True if_True hdr bind_o.simps case_prod_conv Let_def
          assms [OF body True] rle_write_uvarint_eq adv_adv length_append append_Nil)
  next
    case False
    then show ?thesis by (simp add: decoded_full)
  qed
qed

lemma mapM_o_packed:
  assumes "n * w \<le> 8 * length chunk" and "w \<le> 57"
  shows "(mapM_o (packed_value chunk w (mask_u64 w)) [0..<n] :: ('e, u64 list) outcome) = Ok (map (\<lambda>i. field chunk (i * w) w) [0..<n])"
proof (rule mapM_o_all_Ok)
  fix i assume "i \<in> set [0..<n]"
  then have "(i + 1) * w \<le> n * w" by (intro mult_le_mono1) simp
  with assms show "packed_value chunk w (mask_u64 w) i = Ok (field chunk (i * w) w)"
    by (simp add: mask_u64_eq packed_value_Ok mod8_width)
qed

lemma emits_packed:
  assumes "0 < bw" "bw \<le> 57" "g * 8 * bw < 2 ^ 64" "length body = g * bw"
  shows "emits bw (rle_write_uvarint [] (packed_header g) @ body) (map (\<lambda>i. field body (i * bw) bw) [0..<8 * g])"
proof (rule emits_one_run)
  fix cur post and acc :: "u64 list" and num
  assume rest: "rest cur = body @ post" and len: "length acc < num"
  have "g \<le> g * bw" using assms(1) by simp
  moreover have "g * bw < 2 ^ 61" using assms(3) by (simp add: mult.commute mult.left_commute)
  ultimately have "g < 2 ^ 61" by (rule le_less_trans)
  then have g63: "g < 2 ^ 63" and g8: "g * 8 < 2 ^ 64" by simp_all
  have bytes: "div_ceil (g * 8 * bw) 8 = length body"
    by (simp add: div_ceil_def assms(4) algebra_simps)
  let ?n = "min (num - length acc) (g * 8)"
  have "?n * bw \<le> 8 * length body"
    unfolding assms(4) by (metis min.cobounded2 mult_le_mono1 mult.assoc mult.commute)
  note vals = mapM_o_packed [OF this assms(2)]
  have "take (num - length acc) (map (\<lambda>i. field body (i * bw) bw) [0..<8 * g]) = (map (\<lambda>i. field body (i * bw) bw) [0..<?n] :: u64 list)"
    by (rule nth_equalityI) (auto simp: mult.commute)
  then show "(if packed_header g AND 1 = 1 then decode_packed_run bw num (unat (drop_bit 1 (packed_header g))) cur acc
       else decode_rle_run (div_ceil bw 8) num (unat (drop_bit 1 (packed_header g))) cur acc)
      = Ok (acc @ take (num - length acc) (map (\<lambda>i. field body (i * bw) bw) [0..<8 * g]), adv cur (length body))"
    using g8 assms(3)
    by (simp add: vals header_bits [OF g63] decode_packed_run_def mul_usize_def bytes Let_def wire_reads [OF reads_take rest]
        del: One_nat_def)
qed

lemma bit_rle_value_bytes:
  "8 * k \<le> 64 \<Longrightarrow> field (rle_value_bytes k v) 0 (8 * k) = take_bit (8 * k) (ucast v :: u64)"
proof (rule field_eqI)
  fix n :: nat assume "8 * k \<le> 64"
  show "bit (take_bit (8 * k) (ucast v) :: u64) n \<longleftrightarrow> n < 8 * k \<and> stream_bit (rle_value_bytes k v) (0 + n)"
  proof (cases "n < 8 * k")
    case True
    then have "n div 8 < k" and "n div 8 * 8 + n mod 8 = n" by (simp_all add: less_mult_imp_div_less mult.commute)
    with True show ?thesis
      by (auto simp: stream_bit_def rle_value_bytes_def bit_simps)
  qed (simp add: bit_take_bit_iff)
qed

lemma emits_rle:
  assumes "0 < bw" "bw \<le> 32" "n < 2 ^ 63" "unat v < 2 ^ bw"
  shows "emits bw (rle_write_uvarint [] (rle_header n) @ rle_value_bytes (div_ceil bw 8) v) (replicate n (ucast v))"
proof (rule emits_one_run)
  fix cur post and acc :: "u64 list" and num
  let ?k = "div_ceil bw 8"
  let ?body = "rle_value_bytes ?k v"
  assume rest: "rest cur = ?body @ post" and len: "length acc < num"
  have k: "?k \<le> 4" "bw \<le> 8 * ?k" using assms(2) unfolding div_ceil_def by linarith+
  have lenb: "length ?body = ?k" by (simp add: rle_value_bytes_def)
  have "bit v m \<Longrightarrow> m < bw" for m
    by (rule bit_below [OF assms(4)])
  then have "take_bit (8 * ?k) (ucast v :: u64) = ucast v"
    using k(2) by (intro bit_word_eqI) (fastforce simp: bit_simps)
  then have "(acc_bytes ?body 0 ?k :: u64 codec_result) = Ok (ucast v)"
    using bit_rle_value_bytes [of ?k v] k(1) lenb by (simp add: acc_bytes_Ok)
  moreover have "take (num - length acc) (replicate n (ucast v)) = replicate (min (num - length acc) n) (ucast v :: u64)"
    by simp
  moreover have "wire (cur_take ?k) cur = Ok (?body, adv cur ?k)"
    using wire_reads [OF reads_take rest] by (simp add: lenb)
  ultimately show "(if rle_header n AND 1 = 1 then decode_packed_run bw num (unat (drop_bit 1 (rle_header n))) cur acc
       else decode_rle_run ?k num (unat (drop_bit 1 (rle_header n))) cur acc)
      = Ok (acc @ take (num - length acc) (replicate n (ucast v)), adv cur (length ?body))"
    by (simp add: header_bits [OF assms(3)] decode_rle_run_def Let_def lenb del: One_nat_def)
qed


section \<open>The encoders produce runs of their input\<close>

text \<open>Indices that fit the width, and few enough that no size computed from them overflows.\<close>

definition fit_width :: "nat \<Rightarrow> u32 list \<Rightarrow> bool" where
  "fit_width bw xs \<longleftrightarrow> list_all (\<lambda>x. unat x < 2 ^ bw) xs"

lemma fit_width_simps [simp]:
  "fit_width bw []" "fit_width bw (x # xs) \<longleftrightarrow> unat x < 2 ^ bw \<and> fit_width bw xs"
  "fit_width bw (xs @ ys) \<longleftrightarrow> fit_width bw xs \<and> fit_width bw ys"
  "fit_width bw (replicate n x) \<longleftrightarrow> n = 0 \<or> unat x < 2 ^ bw"
  by (auto simp: fit_width_def list_all_iff)

lemma take_bit_fits: "unat (x :: u32) < 2 ^ bw \<Longrightarrow> take_bit bw (ucast x :: u64) = ucast x"
  by (rule bit_word_eqI) (auto simp: bit_simps dest: bit_below)

text \<open>A packed field that holds a \<open>u32\<close> which fits is that \<open>u32\<close>.\<close>

lemma field_narrow:
  assumes "bw \<le> 32" and "unat (x :: u32) < 2 ^ bw" and "field b off bw = (take_bit bw (ucast x) :: u64)"
  shows "field b off bw = x"
proof -
  have "(field b off bw :: u32) = ucast (field b off bw :: u64)"
    using assms(1) by (simp add: ucast_field)
  also have "\<dots> = x"
    unfolding assms(3) take_bit_fits [OF assms(2)] by (rule bit_word_eqI) (simp add: bit_simps)
  finally show ?thesis .
qed

lemma take_run:
  "v # vs = replicate (Suc (length (takeWhile (\<lambda>x. x = v) vs))) v @ dropWhile (\<lambda>x. x = v) vs"
  by (induction vs) auto

lemma padded:
  assumes "length xs < 2 ^ 56" and "fit_width bw xs"
  shows "length (resize0 (div_ceil (length xs) 8 * 8) xs) = 8 * div_ceil (length xs) 8"
    and "fit_width bw (resize0 (div_ceil (length xs) 8 * 8) xs)"
    and "resize0 (div_ceil (length xs) 8 * 8) xs = xs @ replicate (div_ceil (length xs) 8 * 8 - length xs) 0"
    and "div_ceil (length xs) 8 < 2 ^ 56"
proof -
  have le: "length xs \<le> div_ceil (length xs) 8 * 8"
    unfolding div_ceil_def by linarith
  then show "resize0 (div_ceil (length xs) 8 * 8) xs = xs @ replicate (div_ceil (length xs) 8 * 8 - length xs) 0"
    by (simp add: resize0_def)
  then show "length (resize0 (div_ceil (length xs) 8 * 8) xs) = 8 * div_ceil (length xs) 8"
    "fit_width bw (resize0 (div_ceil (length xs) 8 * 8) xs)"
    using le assms(2) by simp_all
  show "div_ceil (length xs) 8 < 2 ^ 56"
    using assms(1) unfolding div_ceil_def by linarith
qed

text \<open>
  What the encoders rely on in a reader of runs: \<open>reads_runs bw bs xs\<close>, the whole runs \<open>bs\<close> are read as the
  indices \<open>xs\<close>, holds of no bytes, of concatenations and of the two runs the encoders write.  The decoder
  below is one such reader, the dictionary page readers are another.
\<close>

locale run_reader =
  fixes reads_runs :: "nat \<Rightarrow> bytes \<Rightarrow> u32 list \<Rightarrow> bool"
  assumes reads_Nil: "reads_runs bw [] []"
    and reads_append: "reads_runs bw r xs \<Longrightarrow> reads_runs bw s ys \<Longrightarrow> reads_runs bw (r @ s) (xs @ ys)"
    and reads_packed: "0 < bw \<Longrightarrow> bw \<le> 32 \<Longrightarrow> g * 8 * bw < 2 ^ 64 \<Longrightarrow> length body = g * bw \<Longrightarrow>
      reads_runs bw (rle_write_uvarint [] (packed_header g) @ body) (map (\<lambda>i. field body (i * bw) bw) [0..<8 * g])"
    and reads_rle: "0 < bw \<Longrightarrow> bw \<le> 32 \<Longrightarrow> 0 < n \<Longrightarrow> n < 2 ^ 63 \<Longrightarrow> unat v < 2 ^ bw \<Longrightarrow>
      reads_runs bw (rle_write_uvarint [] (rle_header n) @ rle_value_bytes (div_ceil bw 8) v) (replicate n v)"
begin

lemma flush_reads:
  assumes "0 < bw" "bw \<le> 32" "fit_width bw xs" "length xs = 8 * g" "g < 2 ^ 56"
  shows "\<exists>run. (flush_pending bw xs g out :: ('e, bytes) outcome) = Ok (out @ run) \<and> reads_runs bw run xs"
proof (cases "xs = []")
  case True
  then show ?thesis by (auto simp: flush_pending_def intro: exI [of _ "[]"] reads_Nil)
next
  case False
  from pack_lsb_first_body [OF assms(1), of xs] assms(4) obtain b where
    b: "(pack_lsb_first [] xs bw :: ('e, bytes) outcome) = Ok b" "length b = g * bw"
    "\<And>i. i < length xs \<Longrightarrow> field b (i * bw) bw = (take_bit bw (ucast (xs ! i)) :: u64)"
    by auto
  have "field b (i * bw) bw = xs ! i" if "i < length xs" for i
    by (rule field_narrow [OF assms(2)]) (use that assms(3) b(3) in \<open>simp_all add: fit_width_def list_all_length\<close>)
  then have "map (\<lambda>i. field b (i * bw) bw) [0..<8 * g] = xs"
    using assms(4) by (intro nth_equalityI) simp_all
  moreover have "g * 8 * bw < 2 ^ 64"
    using assms(5) by (intro le_less_trans [OF mult_le_mono2 [OF assms(2)]]) simp
  ultimately have "reads_runs bw (rle_write_uvarint [] (packed_header g) @ b) xs"
    using reads_packed [of bw g b] assms(1,2) b(2) by simp
  moreover have "flush_pending bw xs g out = (Ok (out @ (rle_write_uvarint [] (packed_header g) @ b)) :: ('e, bytes) outcome)"
    unfolding flush_pending_def using False b(1)
    by (simp add: rle_write_uvarint_eq) (subst pack_lsb_first_append, simp)
  ultimately show ?thesis by blast
qed

lemma rle_runs_reads:
  assumes "0 < bw" "bw \<le> 32"
  shows "fit_width bw (pending @ xs) \<Longrightarrow> length pending + length xs < 2 ^ 56 \<Longrightarrow> reads_runs bw out ds \<Longrightarrow>
    \<exists>out' pending' ds'. (rle_runs bw (div_ceil bw 8) xs pending out :: ('e, bytes \<times> u32 list) outcome) = Ok (out', pending') \<and>
      reads_runs bw out' ds' \<and> ds' @ pending' = ds @ pending @ xs \<and> length pending' < 2 ^ 56"
proof (induction xs arbitrary: pending out ds rule: length_induct)
  case (1 xs)
  show ?case
  proof (cases xs)
    case Nil
    with 1 show ?thesis by auto
  next
    case (Cons v vs)
    define run_len where "run_len = 1 + length (takeWhile (\<lambda>x. x = v) vs)"
    define rest where "rest = dropWhile (\<lambda>x. x = v) vs"
    define borrow where "borrow = (if length pending mod 8 = 0 then 0 else 8 - length pending mod 8)"
    have xs: "xs = replicate run_len v @ rest"
      using take_run [of v vs] by (simp add: Cons run_len_def rest_def)
    have shorter: "length rest < length xs"
      by (simp add: xs run_len_def)
    show ?thesis
    proof (cases "run_len \<ge> 8 + borrow")
      case True
      define pending' where "pending' = pending @ replicate borrow v"
      have mod8: "length pending' mod 8 = 0"
        unfolding pending'_def borrow_def by simp presburger
      then have len8: "length pending' = 8 * (length pending' div 8)" by auto
      have "length pending' < 2 ^ 56"
        using 1(3) True by (simp add: pending'_def xs)
      then have "length pending' div 8 < 2 ^ 56" by linarith
      with flush_reads [OF assms _ len8] 1(2) obtain r where
        r: "(flush_pending bw pending' (length pending' div 8) out :: ('e, bytes) outcome) = Ok (out @ r)" "reads_runs bw r pending'"
        by (auto simp: pending'_def xs run_len_def)
      let ?n = "run_len - borrow"
      have "?n < 2 ^ 63" using 1(3) by (simp add: xs)
      then have "reads_runs bw (rle_write_uvarint [] (rle_header ?n) @ rle_value_bytes (div_ceil bw 8) v) (replicate ?n v)"
        using reads_rle [of bw ?n v] assms 1(2) True by (simp add: xs run_len_def)
      with 1(4) r(2) have "reads_runs bw ((out @ r) @ rle_write_uvarint [] (rle_header ?n) @ rle_value_bytes (div_ceil bw 8) v)
          (ds @ pending' @ replicate ?n v)"
        using reads_append by (metis append.assoc)
      moreover have "replicate borrow v @ replicate ?n v = replicate run_len v"
        using True by (simp add: replicate_add [symmetric])
      then have "pending' @ replicate ?n v @ rest = pending @ xs"
        unfolding pending'_def xs by (metis append.assoc)
      moreover have "fit_width bw ([] @ rest)" "length ([] :: u32 list) + length rest < 2 ^ 56"
        using 1(2,3) shorter by (auto simp: xs)
      moreover have "(rle_runs bw (div_ceil bw 8) xs pending out :: ('e, bytes \<times> u32 list) outcome)
          = rle_runs bw (div_ceil bw 8) rest []
              ((out @ r) @ rle_write_uvarint [] (rle_header ?n) @ rle_value_bytes (div_ceil bw 8) v)"
        using True r(1) unfolding Cons run_len_def rest_def borrow_def pending'_def
        by (simp add: Let_def rle_write_uvarint_eq)
      ultimately show ?thesis
        using 1(1) [rule_format, OF shorter, of "[]" _ "ds @ pending' @ replicate ?n v"] by simp
    next
      case False
      have "fit_width bw ((pending @ replicate run_len v) @ rest)"
        "length (pending @ replicate run_len v) + length rest < 2 ^ 56"
        using 1(2,3) by (auto simp: xs)
      note IH = 1(1) [rule_format, OF shorter this 1(4)]
      have "(rle_runs bw (div_ceil bw 8) xs pending out :: ('e, bytes \<times> u32 list) outcome)
          = rle_runs bw (div_ceil bw 8) rest (pending @ replicate run_len v) out"
        using False unfolding Cons run_len_def rest_def borrow_def by (simp add: Let_def)
      with IH show ?thesis by (simp only: xs append.assoc)
    qed
  qed
qed

lemma encoded_reads:
  assumes "0 < bw" and "bw \<le> 32" and "fit_width bw xs" and "length xs < 2 ^ 56" and "xs \<noteq> []"
  shows "\<exists>bs zs. (encode_rle_bit_packed xs bw :: ('e, bytes) outcome) = Ok bs \<and> reads_runs bw bs (xs @ zs)"
proof -
  from rle_runs_reads [of bw "[]" xs "[]" "[]"] assms reads_Nil obtain out pending ds where
    runs: "(rle_runs bw (div_ceil bw 8) xs [] [] :: ('e, bytes \<times> u32 list) outcome) = Ok (out, pending)"
    "reads_runs bw out ds" "ds @ pending = xs" "length pending < 2 ^ 56" by auto
  then have fit: "fit_width bw pending" using assms(3) by auto
  let ?g = "div_ceil (length pending) 8" let ?p = "resize0 (?g * 8) pending"
  note p = padded [OF runs(4) fit]
  from flush_reads [OF assms(1,2) p(2,1,4)] obtain r where
    r: "(flush_pending bw ?p ?g out :: ('e, bytes) outcome) = Ok (out @ r)" "reads_runs bw r ?p" by blast
  from reads_append [OF runs(2) r(2)] have "reads_runs bw (out @ r) (xs @ replicate (?g * 8 - length pending) 0)"
    by (simp add: p(3) runs(3) [symmetric])
  with runs(1) r(1) assms(1,2,5) show ?thesis by (auto simp: encode_rle_bit_packed_def Let_def)
qed

lemma encoded_single_run_reads:
  assumes "0 < bw" and "bw \<le> 32" and "fit_width bw xs" and "length xs < 2 ^ 56" and "xs \<noteq> []"
  shows "\<exists>bs zs. (encode_rle_bit_packed_single_run xs bw :: ('e, bytes) outcome) = Ok bs \<and> reads_runs bw bs (xs @ zs)"
proof -
  let ?g = "div_ceil (length xs) 8" let ?p = "resize0 (?g * 8) xs"
  note p = padded [OF assms(4,3)]
  from assms(5) p(3) have ne: "?p \<noteq> []" by simp
  from flush_reads [OF assms(1,2) p(2,1,4), of "[]"] obtain r where
    r: "(flush_pending bw ?p ?g [] :: ('e, bytes) outcome) = Ok r" "reads_runs bw r ?p" by auto
  from r(2) have "reads_runs bw r (xs @ replicate (?g * 8 - length xs) 0)" unfolding p(3) .
  with r(1) ne assms(1,2,5) show ?thesis
    by (auto simp: encode_rle_bit_packed_single_run_def flush_pending_def Let_def)
qed

end

section \<open>The decoder reads them\<close>

lemma ucast_field_64: "bw \<le> 32 \<Longrightarrow> ucast (field b off bw :: u32) = (field b off bw :: u64)"
  by (rule ucast_field) simp_all

interpretation rle: run_reader "\<lambda>bw bs xs. emits bw bs (map ucast xs)"
proof
  show "emits bw (r @ s) (map ucast (xs @ ys))" if "emits bw r (map ucast xs)" "emits bw s (map ucast ys)" for bw r s xs ys
    using emits_append [OF that] by simp
  show "emits bw (rle_write_uvarint [] (packed_header g) @ body) (map ucast (map (\<lambda>i. field body (i * bw) bw :: u32) [0..<8 * g]))"
    if "0 < bw" "bw \<le> 32" "g * 8 * bw < 2 ^ 64" "length body = g * bw" for bw g body
    using emits_packed [OF that(1) _ that(3,4)] that(2) by (simp add: o_def ucast_field_64)
  show "emits bw (rle_write_uvarint [] (rle_header n) @ rle_value_bytes (div_ceil bw 8) v) (map ucast (replicate n v))"
    if "0 < bw" "bw \<le> 32" "0 < n" "n < 2 ^ 63" "unat v < 2 ^ bw" for bw n v
    using emits_rle [OF that(1,2,4,5)] by simp
qed (simp add: emits_Nil)

lemma decode_emitted:
  assumes "emits bw bs (map ucast (xs @ zs))" and "0 < bw" "bw \<le> 32"
  shows "decode_rle_bit_packed bs bw (length xs) = Ok (map ucast xs)"
proof -
  have "rest (cursor_new bs) = bs @ []" by (simp add: rest_def cursor_new_def)
  with assms(1) have "decoded bw (length xs) (cursor_new bs) []
      = decoded bw (length xs) (adv (cursor_new bs) (length bs)) ([] @ take (length xs - length ([] :: u64 list)) (map ucast (xs @ zs)))"
    unfolding emits_def by blast
  then have "decoded bw (length xs) (cursor_new bs) [] = Ok (map ucast xs)"
    by (simp add: decoded_full)
  with assms show ?thesis by (auto simp: decode_rle_bit_packed_def decoded_def)
qed

lemma decode_zero_width: "fit_width 0 xs \<Longrightarrow> decode_rle_bit_packed bs 0 (length xs) = Ok (map ucast xs)"
proof -
  assume "fit_width 0 xs"
  then have "map ucast xs = (replicate (length xs) 0 :: u64 list)"
    by (induction xs) (auto simp: unat_eq_zero)
  then show ?thesis by (cases xs) (simp_all add: decode_rle_bit_packed_def)
qed

lemma rle_decodes_encoded:
  assumes "bw \<le> 32" and "fit_width bw xs" and "length xs < 2 ^ 56"
  shows "\<exists>bs. (encode_rle_bit_packed xs bw :: bytes codec_result) = Ok bs \<and>
    decode_rle_bit_packed bs bw (length xs) = Ok (map ucast xs)"
proof -
  consider "xs = []" | "xs \<noteq> []" "bw = 0" | "xs \<noteq> []" "0 < bw" by blast
  then show ?thesis
  proof cases
    case 1
    with assms(1) show ?thesis by (simp add: encode_rle_bit_packed_def decode_rle_bit_packed_def)
  next
    case 2
    then show ?thesis using assms(2) by (simp add: encode_rle_bit_packed_def decode_zero_width)
  next
    case 3
    from rle.encoded_reads [OF 3(2) assms 3(1)] decode_emitted [OF _ 3(2) assms(1)] show ?thesis by blast
  qed
qed

text \<open>C23. The run-coalescing encoder never panics, and decoding what it produced gives back the
  indices.\<close>

theorem encode_rle_bit_packed_roundtrip:
  assumes "bw \<le> 32" and "fit_width bw xs" and "length xs < 2 ^ 56"
  shows "\<exists>bs. (encode_rle_bit_packed xs bw :: bytes codec_result) = Ok bs \<and>
    decode_rle_bit_packed bs bw (length xs) = Ok (map ucast xs)"
  using assms by (rule rle_decodes_encoded)

text \<open>The same for the encoder that emits a single bit-packed run.\<close>

theorem encode_single_run_roundtrip:
  assumes "bw \<le> 32" and "fit_width bw xs" and "length xs < 2 ^ 56"
  shows "\<exists>bs. (encode_rle_bit_packed_single_run xs bw :: bytes codec_result) = Ok bs \<and>
    decode_rle_bit_packed bs bw (length xs) = Ok (map ucast xs)"
proof -
  consider "xs = []" | "xs \<noteq> []" "bw = 0" | "xs \<noteq> []" "0 < bw" by blast
  then show ?thesis
  proof cases
    case 1
    with assms(1) show ?thesis by (simp add: encode_rle_bit_packed_single_run_def decode_rle_bit_packed_def)
  next
    case 2
    then show ?thesis using assms(2) by (simp add: encode_rle_bit_packed_single_run_def decode_zero_width)
  next
    case 3
    from rle.encoded_single_run_reads [OF 3(2) assms 3(1)] decode_emitted [OF _ 3(2) assms(1)] show ?thesis by blast
  qed
qed

lemma encode_rle_bit_packed_roundtrip_witness:
  "\<exists>bs. (encode_rle_bit_packed (replicate 20 5 @ [1, 2, 3]) 3 :: bytes codec_result) = Ok bs \<and>
    decode_rle_bit_packed bs 3 23 = Ok (replicate 20 5 @ [1, 2, 3])"
  using encode_rle_bit_packed_roundtrip [of 3 "replicate 20 5 @ [1, 2, 3]"] by simp

lemma encode_single_run_roundtrip_witness:
  "\<exists>bs. (encode_rle_bit_packed_single_run [7, 0, 4] 3 :: bytes codec_result) = Ok bs \<and>
    decode_rle_bit_packed bs 3 3 = Ok [7, 0, 4]"
  using encode_single_run_roundtrip [of 3 "[7, 0, 4]"] by (simp add: numeral_3_eq_3)

lemma min_bit_width_for_dict_bounds:
  assumes "1 < n" and "n < 2 ^ 32"
  shows "\<exists>w. (min_bit_width_for_dict n :: nat codec_result) = Ok w \<and> n \<le> 2 ^ w \<and> 2 ^ (w - 1) < n \<and> w \<le> 32"
proof -
  have n: "unat (of_nat n :: u32) = n" using assms(2) by (simp add: unsigned_of_nat take_bit_nat_eq_self)
  then have n0: "(of_nat n :: u32) \<noteq> 0" using assms(1) by (metis not_less_zero unat_0)
  with n have n1: "unat (of_nat n - 1 :: u32) = n - 1" by (simp add: unat_minus_one)
  let ?w = "bit_len (n - 1)"
  have b: "n - 1 < 2 ^ ?w" "2 ^ (?w - 1) \<le> n - 1" using bit_len_bounds [of "n - 1"] assms(1) by auto
  then have "2 ^ (?w - 1) < (2 :: nat) ^ 32" using assms(2) by simp
  then have "?w - 1 < 32" by (rule power_less_imp_less_exp [rotated]) simp
  then have "?w \<le> 32" by simp
  with b assms n0 n1 show ?thesis
    by (intro exI [of _ ?w]) (auto simp: min_bit_width_for_dict_def Let_def leading_zeros_u32_def)
qed

text \<open>The width computed for a dictionary holds every index into it, and no smaller width does.\<close>

theorem min_bit_width_for_dict_exact:
  assumes "1 < n" and "n < 2 ^ 32"
  shows "\<exists>w. (min_bit_width_for_dict n :: nat codec_result) = Ok w \<and> n \<le> 2 ^ w \<and> 2 ^ (w - 1) < n \<and> w \<le> 32"
  using assms by (rule min_bit_width_for_dict_bounds)

lemma min_bit_width_for_dict_exact_witness:
  "\<exists>w. (min_bit_width_for_dict 1000 :: nat codec_result) = Ok w \<and> 1000 \<le> (2 :: nat) ^ w \<and> (2 :: nat) ^ (w - 1) < 1000 \<and> w \<le> 32"
  by (rule min_bit_width_for_dict_exact) simp_all

section \<open>Arbitrary streams\<close>

lemma mapM_o_length: "mapM_o f xs = Ok ys \<Longrightarrow> length ys = length xs"
  by (induction xs arbitrary: ys) (auto simp: bind_o_eq_Ok_iff)

lemma decode_runs_length:
  "decode_runs bw vb num cur acc = Ok (out, cur') \<Longrightarrow> length acc \<le> num \<Longrightarrow> length out = num"
proof (induction "remaining cur" arbitrary: cur acc rule: less_induct)
  case less
  show ?case
  proof (cases "length acc < num")
    case False
    with less.prems show ?thesis by (subst (asm) decode_runs.simps) simp
  next
    case True
    from less.prems(1) True obtain h c acc' c' where
      h: "read_uvarint cur = Ok (h, c)" and
      run: "(if h AND 1 = 1 then decode_packed_run bw num (unat (drop_bit 1 h)) c acc
             else decode_rle_run vb num (unat (drop_bit 1 h)) c acc) = Ok (acc', c')" and
      more: "decode_runs bw vb num c' acc' = Ok (out, cur')"
      by (subst (asm) decode_runs.simps) (auto simp: bind_o_eq_Ok_iff wire_Ok_iff Let_def simp del: One_nat_def)
    have "length acc' \<le> num"
      using run True by (auto simp: decode_packed_run_def decode_rle_run_def bind_o_eq_Ok_iff Let_def
          dest!: mapM_o_length split: if_splits)
    moreover have "remaining c' < remaining cur"
      using run remaining_uvarint [OF h]
      by (fastforce simp: decode_packed_run_def decode_rle_run_def bind_o_eq_Ok_iff Let_def wire_Ok_iff
          dest!: remaining_take split: if_splits)
    ultimately show ?thesis using less.hyps more by blast
  qed
qed

text \<open>A successful decode yields exactly the number of values asked for, whatever the bytes.\<close>

theorem decode_rle_bit_packed_length:
  assumes "decode_rle_bit_packed bs bw n = Ok vs"
  shows "length vs = n"
  using assms decode_runs_length [of bw "div_ceil bw 8" n "cursor_new bs" "[]" vs]
  by (auto simp: decode_rle_bit_packed_def bind_o_eq_Ok_iff split: if_splits)

lemma decode_rle_bit_packed_length_witness: "length [5 :: u64, 5, 5] = 3"
proof -
  have "decode_rle_bit_packed [0x08, 5] 3 3 = Ok [5, 5, 5]" by code_simp
  from decode_rle_bit_packed_length [OF this] show ?thesis .
qed

lemma acc_bytes_nine:
  "off + 9 \<le> length chunk \<Longrightarrow> (acc_bytes chunk off 9 :: ('e, u64) outcome) = Panic ''attempt to shift left with overflow''"
proof -
  assume len: "off + 9 \<le> length chunk"
  have "[0..<9] = [0..<8] @ [8 :: nat]" by (simp add: upt_rec)
  then have "(acc_bytes chunk off 9 :: ('e, u64) outcome) = bind_o (acc_bytes chunk off 8) (\<lambda>acc. acc_step chunk off acc 8)"
    by (simp add: acc_bytes_def fold_o_append bind_o_Ok_right)
  with len show ?thesis
    by (simp add: acc_bytes_Ok acc_step_def)
qed

lemma decode_first_run:
  assumes "0 < n" "0 < bw" "bw \<le> 64"
  shows "decode_rle_bit_packed (rle_write_uvarint [] h @ body) bw n
    = bind_o (bind_o (if h AND 1 = 1 then decode_packed_run bw n (unat (drop_bit 1 h))
                        \<lparr>buf = rle_write_uvarint [] h @ body, pos = length (rle_write_uvarint [] h)\<rparr> []
                      else decode_rle_run (div_ceil bw 8) n (unat (drop_bit 1 h))
                        \<lparr>buf = rle_write_uvarint [] h @ body, pos = length (rle_write_uvarint [] h)\<rparr> [])
        (\<lambda>(out, cur). decode_runs bw (div_ceil bw 8) n cur out)) (\<lambda>(out, cur). Ok out)"
proof -
  have "rest (cursor_new (rle_write_uvarint [] h @ body)) = write_uvarint [] h @ body"
    by (simp add: rest_def cursor_new_def rle_write_uvarint_eq)
  from wire_reads [OF reads_uvarint this] assms show ?thesis
    unfolding decode_rle_bit_packed_def
    by (subst decode_runs.simps)
      (simp add: adv_def cursor_new_def Let_def rle_write_uvarint_eq del: One_nat_def)
qed

text \<open>Bit widths the decoder's range check admits can still make it panic: a value of 63 bits that
  starts at bit 7 of its first byte needs nine bytes, and the ninth is shifted by 64.\<close>

theorem decode_rle_wide_width_panics:
  "decode_rle_bit_packed (3 # replicate 63 0) 63 2 = Panic ''attempt to shift left with overflow''"
proof -
  have bytes: "3 # replicate 63 0 = rle_write_uvarint [] (packed_header 1) @ replicate 63 0"
    by (simp add: rle_write_uvarint.simps packed_header_def)
  have 0: "(packed_value (replicate 63 0) 63 (mask_u64 63) 0 :: u64 codec_result) = Ok (field (replicate 63 0) 0 63)"
    by (simp add: mask_u64_eq packed_value_Ok)
  have 1: "(packed_value (replicate 63 0) 63 (mask_u64 63) 1 :: u64 codec_result) = Panic ''attempt to shift left with overflow''"
    by (simp add: packed_value_def Let_def acc_bytes_nine del: One_nat_def)
  have "[0..<2] = [0, 1 :: nat]" by (simp add: upt_rec)
  with 0 1 show ?thesis
    unfolding bytes
    by (simp add: decode_first_run header_bits [of 1] decode_packed_run_def mul_usize_def div_ceil_def
        wire_def cur_take_def remaining_def Let_def del: One_nat_def)
qed

text \<open>A run header that claims \<open>2^61\<close> groups overflows the size computation before the bytes are
  checked against it.\<close>

theorem decode_rle_group_count_overflow:
  assumes "2 ^ 61 \<le> g" and "g < 2 ^ 63" and "0 < n" and "0 < bw" and "bw \<le> 64"
  shows "decode_rle_bit_packed (rle_write_uvarint [] (packed_header g) @ body) bw n
     = Panic ''attempt to multiply with overflow''"
  using assms(1) decode_first_run [OF assms(3-5)]
  by (simp add: header_bits [OF assms(2)] decode_packed_run_def mul_usize_def del: One_nat_def)

lemma decode_rle_group_count_overflow_witness:
  "decode_rle_bit_packed (rle_write_uvarint [] (packed_header (2 ^ 61)) @ [0]) 1 1
     = Panic ''attempt to multiply with overflow''"
  by (rule decode_rle_group_count_overflow) simp_all

end
