(* ===== verification/BitPack.thy ===== *)
theory BitPack
  imports CodecBase
begin

text \<open>
  \<open>ematix-parquet-codec/src/bitpack.rs\<close>, the portable unpackers.  The three monomorphised workers of
  the source (\<open>unpack_chunks\<close>, \<open>unpack_chunks_indices\<close>, \<open>unpack_chunks_indices64\<close>) run the same loops
  over a \<open>u64\<close> or \<open>u128\<close> accumulator and differ in what they do with an unpacked value; here they are
  one function, \<open>unpack_with\<close>, over that last step, with \<open>NUM_BITS\<close> as an argument.  Values are
  appended to \<open>out\<close>; a vector the source leaves half filled on an error is dropped by every caller and
  is not part of the result.  The NEON and AVX2 kernels the entry points may branch to are not
  modelled.
\<close>

section \<open>Full chunks of 32 values, and the streaming tail\<close>

definition unpack_chunk ::
  "('w::len word \<Rightarrow> ('e, 'v) outcome) \<Rightarrow> bytes \<Rightarrow> nat \<Rightarrow> 'w word \<Rightarrow> nat \<Rightarrow> ('e, 'v list) outcome" where
  "unpack_chunk emit packed w msk k =
     (let chunk_bytes = w * 32 div 8
      in bind_o (slice packed (k * chunk_bytes) (k * chunk_bytes + chunk_bytes)) (\<lambda>chunk.
         mapM_o (\<lambda>i. bind_o (packed_value chunk w msk i) emit) [0..<32]))"

definition unpack_full_chunks ::
  "('w::len word \<Rightarrow> ('e, 'v) outcome) \<Rightarrow> bytes \<Rightarrow> nat \<Rightarrow> 'w word \<Rightarrow> nat \<Rightarrow> 'v list \<Rightarrow> ('e, 'v list) outcome" where
  "unpack_full_chunks emit packed w msk full_chunks out =
     fold_o (\<lambda>out k. bind_o (unpack_chunk emit packed w msk k) (\<lambda>vs. Ok (out @ vs))) out [0..<full_chunks]"

text \<open>\<open>while bits < NUM_BITS \{ buf |= chunk[byte_idx] << bits; byte_idx += 1; bits += 8 \}\<close>.\<close>

function refill ::
  "bytes \<Rightarrow> nat \<Rightarrow> 'w::len word \<Rightarrow> nat \<Rightarrow> nat \<Rightarrow> ('e, 'w word \<times> nat \<times> nat) outcome" where
  "refill chunk w acc bits byte_idx =
     (if bits < w then
        if byte_idx \<ge> length chunk then Panic ''index out of bounds''
        else if bits \<ge> LENGTH('w) then Panic ''attempt to shift left with overflow''
        else refill chunk w (acc OR push_bit bits (ucast (chunk ! byte_idx))) (bits + 8) (byte_idx + 1)
      else Ok (acc, bits, byte_idx))"
  by pat_completeness auto
termination
  by (relation "measure (\<lambda>(chunk, w, acc, bits, byte_idx). w - bits)") auto

declare refill.simps [simp del]

fun unpack_tail ::
  "('w::len word \<Rightarrow> ('e, 'v) outcome) \<Rightarrow> bytes \<Rightarrow> nat \<Rightarrow> 'w word \<Rightarrow> nat \<Rightarrow> 'w word \<Rightarrow> nat \<Rightarrow> nat
     \<Rightarrow> 'v list \<Rightarrow> ('e, 'v list) outcome" where
  "unpack_tail emit chunk w msk 0 acc bits byte_idx out = Ok out"
| "unpack_tail emit chunk w msk (Suc tail) acc bits byte_idx out =
     bind_o (refill chunk w acc bits byte_idx) (\<lambda>(acc, bits, byte_idx).
     bind_o (emit (acc AND msk)) (\<lambda>v.
       unpack_tail emit chunk w msk tail (drop_bit w acc) (bits - w) byte_idx (out @ [v])))"

definition unpack_with ::
  "('w::len word \<Rightarrow> ('e, 'v) outcome) \<Rightarrow> bytes \<Rightarrow> nat \<Rightarrow> nat \<Rightarrow> 'w word \<Rightarrow> 'v list \<Rightarrow> ('e, 'v list) outcome" where
  "unpack_with emit packed num_values w msk out =
     (let chunk_bytes = w * 32 div 8;
          full_chunks = num_values div 32;
          tail = num_values mod 32
      in bind_o (unpack_full_chunks emit packed w msk full_chunks out) (\<lambda>out.
         if tail > 0 then
           let packed_idx = full_chunks * chunk_bytes;
               tail_bytes = div_ceil (tail * w) 8
           in bind_o (slice packed packed_idx (packed_idx + tail_bytes)) (\<lambda>chunk.
              unpack_tail emit chunk w msk tail 0 0 0 out)
         else Ok out))"

section \<open>The workers and entry points\<close>

definition mask_u32_in_u64 :: "nat \<Rightarrow> u64" where
  "mask_u32_in_u64 w = (if w = 32 then ucast (- 1 :: u32) else push_bit w 1 - 1)"

definition mask_u128 :: "nat \<Rightarrow> 128 word" where
  "mask_u128 w = (if w = 64 then ucast (- 1 :: u64) else push_bit w 1 - 1)"

definition unpack_chunks_indices :: "nat \<Rightarrow> bytes \<Rightarrow> nat \<Rightarrow> u32 list \<Rightarrow> u32 list codec_result" where
  "unpack_chunks_indices w packed num_values out =
     unpack_with (\<lambda>v. Ok (ucast v)) packed num_values w (mask_u32_in_u64 w) out"

definition unpack_chunks_indices64 :: "nat \<Rightarrow> bytes \<Rightarrow> nat \<Rightarrow> u64 list \<Rightarrow> u64 list codec_result" where
  "unpack_chunks_indices64 w packed num_values out =
     unpack_with (\<lambda>v. Ok (ucast v)) packed num_values w (mask_u128 w) out"

text \<open>
  \<open>*dict_ptr.add(idx)\<close> is a raw read: past the end of the dictionary it is undefined behaviour, here
  \<open>Stuck\<close>.  The bounds check is skipped when every masked index is below \<open>dict.len()\<close>.
\<close>

definition dict_read :: "'v list \<Rightarrow> nat \<Rightarrow> 'v codec_result" where
  "dict_read dict idx = (if idx < length dict then Ok (dict ! idx) else Stuck)"

definition lookup_emit :: "'v list \<Rightarrow> bool \<Rightarrow> u64 \<Rightarrow> 'v codec_result" where
  "lookup_emit dict bounds_safe v =
     (let idx = unat v
      in if \<not> bounds_safe \<and> idx \<ge> length dict
         then Err (DictIndexOutOfRange (unat (ucast v :: u32)) (length dict))
         else dict_read dict idx)"

definition unpack_chunks :: "nat \<Rightarrow> bytes \<Rightarrow> nat \<Rightarrow> 'v list \<Rightarrow> 'v list \<Rightarrow> 'v list codec_result" where
  "unpack_chunks w packed num_values dict out =
     (let msk = mask_u32_in_u64 w;
          bounds_safe = unat msk < length dict
      in unpack_with (lookup_emit dict bounds_safe) packed num_values w msk out)"

definition unpack_indices_into :: "bytes \<Rightarrow> nat \<Rightarrow> nat \<Rightarrow> u32 list \<Rightarrow> u32 list codec_result" where
  "unpack_indices_into packed num_values bit_width out =
     (if bit_width > 32 then Err (BitWidthOutOfRange bit_width)
      else if num_values = 0 then Ok out
      else if bit_width = 0 then Ok (out @ replicate num_values 0)
      else unpack_chunks_indices bit_width packed num_values out)"

definition unpack_indices64_into :: "bytes \<Rightarrow> nat \<Rightarrow> nat \<Rightarrow> u64 list \<Rightarrow> u64 list codec_result" where
  "unpack_indices64_into packed num_values bit_width out =
     (if bit_width > 64 then Err (BitWidthOutOfRange bit_width)
      else if num_values = 0 then Ok out
      else if bit_width = 0 then Ok (out @ replicate num_values 0)
      else unpack_chunks_indices64 bit_width packed num_values out)"

definition unpack_lookup_into ::
  "bytes \<Rightarrow> nat \<Rightarrow> nat \<Rightarrow> 'v list \<Rightarrow> 'v list \<Rightarrow> 'v list codec_result" where
  "unpack_lookup_into packed num_values bit_width dict out =
     (if bit_width > 32 then Err (BitWidthOutOfRange bit_width)
      else if num_values = 0 then Ok out
      else if bit_width = 0 then
        if dict = [] then Err (DictIndexOutOfRange 0 0)
        else Ok (out @ replicate num_values (dict ! 0))
      else unpack_chunks bit_width packed num_values dict out)"

section \<open>The unpackers compute the packed values\<close>

lemma mapM_o_append: "mapM_o f (xs @ ys) = bind_o (mapM_o f xs) (\<lambda>us. bind_o (mapM_o f ys) (\<lambda>vs. Ok (us @ vs)))"
  by (induction xs) (auto simp: bind_o_assoc bind_o_Ok_right)

lemma mapM_o_cong: "(\<And>x. x \<in> set xs \<Longrightarrow> f x = g x) \<Longrightarrow> mapM_o f xs = mapM_o g xs"
  by (induction xs) auto

lemma mapM_o_map: "mapM_o f (map g xs) = mapM_o (\<lambda>x. f (g x)) xs"
  by (induction xs) auto

text \<open>The reference: value \<open>i\<close> is the field of \<open>w\<close> bits at bit \<open>i * w\<close>.\<close>

definition fields_emitted ::
  "('w::len word \<Rightarrow> ('e, 'v) outcome) \<Rightarrow> bytes \<Rightarrow> nat \<Rightarrow> nat \<Rightarrow> nat \<Rightarrow> ('e, 'v list) outcome" where
  "fields_emitted emit packed w i n = mapM_o (\<lambda>k. emit (field packed (k * w) w)) [i..<n]"

lemma fields_emitted_append:
  "i \<le> m \<Longrightarrow> m \<le> n \<Longrightarrow> fields_emitted emit packed w i n
     = bind_o (fields_emitted emit packed w i m) (\<lambda>us. bind_o (fields_emitted emit packed w m n) (\<lambda>vs. Ok (us @ vs)))"
  unfolding fields_emitted_def mapM_o_append [symmetric]
  by (metis le_Suc_ex upt_add_eq_append)

lemma unpack_chunk_fields:
  fixes emit :: "'w::len word \<Rightarrow> ('e, 'v) outcome"
  assumes "32 * (k + 1) * w \<le> 8 * length packed" and "w + 7 \<le> LENGTH('w)"
  shows "unpack_chunk emit packed w (mask w) k = fields_emitted emit packed w (32 * k) (32 * (k + 1))"
proof -
  let ?b = "w * 32 div 8"
  let ?c = "take ?b (drop (k * ?b) packed)"
  have b: "8 * ?b = 32 * w" by simp
  have room: "k * ?b + ?b \<le> length packed" using assms(1) by (simp add: algebra_simps)
  have "bind_o (packed_value ?c w (mask w :: 'w word) i) emit = emit (field packed ((32 * k + i) * w) w)" if "i \<in> set [0..<32]" for i
  proof -
    have "(i + 1) * w \<le> 32 * w" using that by (intro mult_le_mono1) simp
    then have i: "(i + 1) * w \<le> 8 * ?b" by simp
    have "(packed_value ?c w (mask w :: 'w word) i :: ('e, 'w word) outcome) = Ok (field ?c (i * w) w)"
      using i room mod8_width [OF assms(2)] by (intro packed_value_Ok) simp_all
    also have "(field ?c (i * w) w :: 'w word) = field packed (8 * (k * ?b) + i * w) w"
      using i room by (intro field_slice) simp_all
    also have "8 * (k * ?b) + i * w = (32 * k + i) * w" by (simp add: algebra_simps)
    finally show ?thesis by simp
  qed
  then have "mapM_o (\<lambda>i. bind_o (packed_value ?c w (mask w :: 'w word) i) emit) [0..<32]
      = mapM_o (\<lambda>i. emit (field packed ((32 * k + i) * w) w)) [0..<32]"
    by (rule mapM_o_cong)
  also have "\<dots> = mapM_o (\<lambda>j. emit (field packed (j * w) w)) (map (\<lambda>i. 32 * k + i) [0..<32])"
    by (simp add: mapM_o_map)
  also have "map (\<lambda>i. 32 * k + i) [0..<32] = [32 * k..<32 * (k + 1)]"
    by (rule nth_equalityI) simp_all
  finally show ?thesis
    using room by (simp add: unpack_chunk_def fields_emitted_def slice_def Let_def)
qed

lemma unpack_full_chunks_fields:
  assumes "32 * n * w \<le> 8 * length packed" and "w + 7 \<le> LENGTH('w)"
  shows "unpack_full_chunks emit packed w (mask w :: 'w::len word) n out
    = bind_o (fields_emitted emit packed w 0 (32 * n)) (\<lambda>vs. Ok (out @ vs))"
  using assms(1)
proof (induction n)
  case 0
  show ?case by (simp add: unpack_full_chunks_def fields_emitted_def)
next
  case (Suc n)
  have "32 * n * w \<le> 32 * Suc n * w" by (intro mult_le_mono1) simp
  with Suc have IH: "unpack_full_chunks emit packed w (mask w :: 'w word) n out
      = bind_o (fields_emitted emit packed w 0 (32 * n)) (\<lambda>vs. Ok (out @ vs))" by linarith
  have "unpack_full_chunks emit packed w (mask w :: 'w word) (Suc n) out
      = bind_o (unpack_full_chunks emit packed w (mask w) n out) (\<lambda>out.
          bind_o (unpack_chunk emit packed w (mask w) n) (\<lambda>vs. Ok (out @ vs)))"
    by (simp add: unpack_full_chunks_def fold_o_append bind_o_Ok_right)
  also have "\<dots> = bind_o (fields_emitted emit packed w 0 (32 * Suc n)) (\<lambda>vs. Ok (out @ vs))"
    using Suc.prems unpack_chunk_fields [of n w packed emit] assms(2)
      fields_emitted_append [of 0 "32 * n" "32 * Suc n" emit packed w]
    by (simp add: IH bind_o_assoc)
  finally show ?case .
qed


text \<open>The streaming buffer: with \<open>bits\<close> bits read ahead of bit \<open>o\<close> of the chunk, it holds exactly them.\<close>

definition holds :: "bytes \<Rightarrow> nat \<Rightarrow> 'w::len word \<Rightarrow> nat \<Rightarrow> nat \<Rightarrow> bool" where
  "holds chunk off acc bits byte_idx \<longleftrightarrow>
     8 * byte_idx = off + bits \<and> bits \<le> LENGTH('w) \<and>
     (\<forall>n < LENGTH('w). bit acc n \<longleftrightarrow> n < bits \<and> stream_bit chunk (off + n))"

lemma refill_holds:
  assumes "holds chunk off (acc :: 'w::len word) bits byte_idx" and "off + w \<le> 8 * length chunk" and "w + 7 \<le> LENGTH('w)"
  shows "\<exists>acc' bits' byte_idx'. (refill chunk w acc bits byte_idx :: ('e, 'w word \<times> nat \<times> nat) outcome) = Ok (acc', bits', byte_idx') \<and>
    holds chunk off acc' bits' byte_idx' \<and> w \<le> bits'"
  using assms(1)
proof (induction "w - bits" arbitrary: acc bits byte_idx rule: less_induct)
  case less
  show ?case
  proof (cases "bits < w")
    case False
    with less.prems show ?thesis by (subst refill.simps) auto
  next
    case True
    let ?acc = "acc OR push_bit bits (ucast (chunk ! byte_idx))"
    from less.prems have 8: "8 * byte_idx = off + bits"
      and bit: "\<And>n. n < LENGTH('w) \<Longrightarrow> bit acc n \<longleftrightarrow> n < bits \<and> stream_bit chunk (off + n)"
      by (auto simp: holds_def)
    have ix: "byte_idx < length chunk" using 8 True assms(2) by linarith
    have "bit ?acc n \<longleftrightarrow> n < bits + 8 \<and> stream_bit chunk (off + n)" if n: "n < LENGTH('w)" for n
    proof (cases "n < bits")
      case True
      then show ?thesis using n by (simp add: bit bit_simps)
    next
      case False
      then obtain r where r: "n = bits + r" by (metis le_add_diff_inverse linorder_not_less)
      then have "off + n = 8 * byte_idx + r" using 8 by simp
      then have "r < 8 \<Longrightarrow> stream_bit chunk (off + n) \<longleftrightarrow> bit (chunk ! byte_idx) r"
        using ix by (simp add: stream_bit_def)
      then show ?thesis
        using n r bit_imp_le_length [of "chunk ! byte_idx" r]
        by (cases "r < 8") (auto simp: bit bit_simps)
    qed
    then have "holds chunk off ?acc (bits + 8) (byte_idx + 1)"
      using 8 True assms(3) by (auto simp: holds_def)
    from less.hyps [OF _ this] True ix assms(3) show ?thesis
      by (subst refill.simps) auto
  qed
qed

lemma unpack_tail_fields:
  assumes "holds chunk (i * w) (acc :: 'w::len word) bits byte_idx" and "(i + n) * w \<le> 8 * length chunk" and "w + 7 \<le> LENGTH('w)"
  shows "unpack_tail emit chunk w (mask w) n acc bits byte_idx out
    = bind_o (fields_emitted emit chunk w i (i + n)) (\<lambda>vs. Ok (out @ vs))"
  using assms(1,2)
proof (induction n arbitrary: i acc bits byte_idx out)
  case 0
  show ?case by (simp add: fields_emitted_def)
next
  case (Suc n)
  have "i * w + w \<le> (i + Suc n) * w" by (simp add: algebra_simps)
  with Suc.prems(2) have "i * w + w \<le> 8 * length chunk" by linarith
  from refill_holds [OF Suc.prems(1) this assms(3)] obtain acc' bits' byte_idx' where
    r: "(refill chunk w acc bits byte_idx :: ('a, 'w word \<times> nat \<times> nat) outcome) = Ok (acc', bits', byte_idx')"
    and h: "holds chunk (i * w) acc' bits' byte_idx'" and w: "w \<le> bits'" by blast
  have and_mask: "acc' AND mask w = field chunk (i * w) w"
    using h w by (intro bit_word_eqI) (auto simp: holds_def bit_simps bit_field)
  have "holds chunk (Suc i * w) (drop_bit w acc') (bits' - w) byte_idx'"
    unfolding holds_def
  proof (intro conjI allI impI)
    show "8 * byte_idx' = Suc i * w + (bits' - w)" "bits' - w \<le> LENGTH('w)"
      using h w by (auto simp: holds_def)
    fix m assume "m < LENGTH('w)"
    show "bit (drop_bit w acc') m \<longleftrightarrow> m < bits' - w \<and> stream_bit chunk (Suc i * w + m)"
    proof (cases "w + m < LENGTH('w)")
      case True
      with h have "bit acc' (w + m) \<longleftrightarrow> w + m < bits' \<and> stream_bit chunk (i * w + (w + m))"
        by (auto simp: holds_def)
      then show ?thesis by (auto simp: bit_drop_bit_eq algebra_simps)
    next
      case False
      moreover from this have "\<not> m < bits' - w" using h by (auto simp: holds_def)
      ultimately show ?thesis by (auto simp: bit_drop_bit_eq dest: bit_imp_le_length)
    qed
  qed
  note buffer = this
  have "(Suc i + n) * w \<le> 8 * length chunk" using Suc.prems(2) by simp
  note IH = Suc.IH [OF buffer this]
  from and_mask have "unpack_tail emit chunk w (mask w) (Suc n) acc bits byte_idx out
      = bind_o (emit (field chunk (i * w) w)) (\<lambda>v. bind_o (fields_emitted emit chunk w (Suc i) (Suc i + n)) (\<lambda>vs. Ok ((out @ [v]) @ vs)))"
    using r by (simp add: IH)
  also have "\<dots> = bind_o (fields_emitted emit chunk w i (i + Suc n)) (\<lambda>vs. Ok (out @ vs))"
    by (simp add: fields_emitted_def upt_conv_Cons bind_o_assoc del: upt_Suc)
  finally show ?case .
qed

lemma fields_emitted_slice:
  fixes emit :: "'w::len word \<Rightarrow> ('e, 'v) outcome"
  assumes "n * w \<le> 8 * t" and "a + t \<le> length packed" and "8 * a = m * w"
  shows "fields_emitted emit (take t (drop a packed)) w 0 n = fields_emitted emit packed w m (m + n)"
proof -
  have "(field (take t (drop a packed)) (i * w) w :: 'w word) = field packed ((m + i) * w) w" if "i \<in> set [0..<n]" for i
  proof -
    have "(i + 1) * w \<le> n * w" using that by (intro mult_le_mono1) simp
    with assms(1,2) have "(field (take t (drop a packed)) (i * w) w :: 'w word) = field packed (8 * a + i * w) w"
      by (intro field_slice) simp_all
    also have "8 * a + i * w = (m + i) * w" using assms(3) by (simp add: algebra_simps)
    finally show ?thesis .
  qed
  then have "fields_emitted emit (take t (drop a packed)) w 0 n = mapM_o (\<lambda>i. emit (field packed ((m + i) * w) w)) [0..<n]"
    unfolding fields_emitted_def by (intro mapM_o_cong) simp
  also have "\<dots> = mapM_o (\<lambda>j. emit (field packed (j * w) w)) (map (\<lambda>i. m + i) [0..<n])"
    by (simp add: mapM_o_map)
  also have "map (\<lambda>i. m + i) [0..<n] = [m..<m + n]" by (rule nth_equalityI) simp_all
  finally show ?thesis by (simp add: fields_emitted_def)
qed

lemma unpack_with_fields:
  assumes "n * w \<le> 8 * length packed" and "w + 7 \<le> LENGTH('w)"
  shows "unpack_with emit packed n w (mask w :: 'w::len word) out
    = bind_o (fields_emitted emit packed w 0 n) (\<lambda>vs. Ok (out @ vs))"
proof -
  define f where "f = n div 32" define t where "t = n mod 32"
  have n: "n = 32 * f + t" by (simp add: f_def t_def)
  have full: "32 * f * w \<le> 8 * length packed"
    using assms(1) mult_le_mono1 [of "32 * f" n w] n by linarith
  note F = unpack_full_chunks_fields [OF full assms(2), of emit]
  show ?thesis
  proof (cases "t = 0")
    case True
    then show ?thesis
      by (simp add: unpack_with_def f_def [symmetric] t_def [symmetric] F n [symmetric] Let_def bind_o_Ok_right)
        (simp add: n)
  next
    case False
    let ?a = "f * (w * 32 div 8)" let ?t = "div_ceil (t * w) 8"
    have a: "8 * ?a = (32 * f) * w" by simp
    have t8: "t * w \<le> 8 * ?t" unfolding div_ceil_def by linarith
    have "8 * ?a + t * w \<le> 8 * length packed" using assms(1) unfolding n a by (simp add: algebra_simps)
    then have room: "?a + ?t \<le> length packed" unfolding div_ceil_def by linarith
    then have sl: "(slice packed ?a (?a + ?t) :: ('a, bytes) outcome) = Ok (take ?t (drop ?a packed))"
      by (simp add: slice_def)
    have "holds (take ?t (drop ?a packed)) (0 * w) (0 :: 'w word) 0 0" by (simp add: holds_def)
    then have "unpack_tail emit (take ?t (drop ?a packed)) w (mask w) t (0 :: 'w word) 0 0 out
        = bind_o (fields_emitted emit (take ?t (drop ?a packed)) w 0 (0 + t)) (\<lambda>vs. Ok (out @ vs))" for out
      using t8 room assms(2) by (intro unpack_tail_fields) simp_all
    then have T: "unpack_tail emit (take ?t (drop ?a packed)) w (mask w) t (0 :: 'w word) 0 0 out
        = bind_o (fields_emitted emit packed w (32 * f) n) (\<lambda>vs. Ok (out @ vs))" for out
      using fields_emitted_slice [OF t8 room a, of emit] by (simp add: n)
    have "unpack_with emit packed n w (mask w :: 'w word) out
      = bind_o (bind_o (fields_emitted emit packed w 0 (32 * f)) (\<lambda>vs. Ok (out @ vs)))
          (\<lambda>out. bind_o (fields_emitted emit packed w (32 * f) n) (\<lambda>vs. Ok (out @ vs)))"
      using False sl T by (simp add: unpack_with_def f_def [symmetric] t_def [symmetric] F Let_def)
    also have "\<dots> = bind_o (fields_emitted emit packed w 0 n) (\<lambda>vs. Ok (out @ vs))"
      using fields_emitted_append [of 0 "32 * f" n emit packed w] n by (simp add: bind_o_assoc)
    finally show ?thesis .
  qed
qed


section \<open>The entry points\<close>

lemma ucast_max: "ucast (- 1 :: u32) = (mask 32 :: u64)" "ucast (- 1 :: u64) = (mask 64 :: 128 word)"
  by (rule bit_word_eqI; simp only: bit_simps; simp)+

lemma mask_u32_in_u64_eq: "w \<le> 32 \<Longrightarrow> mask_u32_in_u64 w = mask w"
  by (simp add: mask_u32_in_u64_def ucast_max) (simp add: mask_eq_exp_minus_1 push_bit_of_1)

lemma mask_u128_eq: "w \<le> 64 \<Longrightarrow> mask_u128 w = mask w"
  by (simp add: mask_u128_def ucast_max) (simp add: mask_eq_exp_minus_1 push_bit_of_1)

lemma field_0 [simp]: "field bs off 0 = 0"
  by (simp add: field_def)

lemma fields_emitted_Ok:
  "fields_emitted (\<lambda>v. Ok (g v)) packed w 0 n = Ok (map (\<lambda>i. g (field packed (i * w) w)) [0..<n])"
  unfolding fields_emitted_def by (rule mapM_o_all_Ok) simp

lemma unpack_indices_into_Ok:
  assumes "w \<le> 32" and "n * w \<le> 8 * length packed"
  shows "unpack_indices_into packed n w out = Ok (out @ map (\<lambda>i. field packed (i * w) w) [0..<n])"
proof (cases "n = 0 \<or> w = 0")
  case True
  with assms show ?thesis by (auto simp: unpack_indices_into_def map_replicate_const)
next
  case False
  have "ucast (field packed (i * w) w :: u64) = (field packed (i * w) w :: u32)" for i
    using assms(1) by (intro ucast_field) simp_all
  with False assms show ?thesis
    by (simp add: unpack_indices_into_def unpack_chunks_indices_def mask_u32_in_u64_eq unpack_with_fields
        fields_emitted_Ok)
qed

lemma unpack_indices64_into_Ok:
  assumes "w \<le> 64" and "n * w \<le> 8 * length packed"
  shows "unpack_indices64_into packed n w out = Ok (out @ map (\<lambda>i. field packed (i * w) w) [0..<n])"
proof (cases "n = 0 \<or> w = 0")
  case True
  with assms show ?thesis by (auto simp: unpack_indices64_into_def map_replicate_const)
next
  case False
  have "ucast (field packed (i * w) w :: 128 word) = (field packed (i * w) w :: u64)" for i
    using assms(1) by (intro ucast_field) simp_all
  with False assms show ?thesis
    by (simp add: unpack_indices64_into_def unpack_chunks_indices64_def mask_u128_eq unpack_with_fields
        fields_emitted_Ok)
qed

text \<open>C24. For every width up to 32 the unpacker appends the packed values, full chunks and streaming
  tail alike: value \<open>i\<close> is the field of \<open>w\<close> bits at bit \<open>i * w\<close>.\<close>

theorem unpack_indices_into_fields:
  assumes "w \<le> 32" and "n * w \<le> 8 * length packed"
  shows "unpack_indices_into packed n w out = Ok (out @ map (\<lambda>i. field packed (i * w) w) [0..<n])"
  by (rule unpack_indices_into_Ok [OF assms])

lemma unpack_indices_into_fields_witness:
  "unpack_indices_into [0xB1, 0x2C] 5 3 [9] = Ok ([9] @ map (\<lambda>i. field [0xB1, 0x2C] (i * 3) 3) [0..<5])"
  by (rule unpack_indices_into_fields) simp_all

text \<open>The same for the 64-bit unpacker, for every width up to 64; values that span nine bytes are
  included.\<close>

theorem unpack_indices64_into_fields:
  assumes "w \<le> 64" and "n * w \<le> 8 * length packed"
  shows "unpack_indices64_into packed n w out = Ok (out @ map (\<lambda>i. field packed (i * w) w) [0..<n])"
  by (rule unpack_indices64_into_Ok [OF assms])

lemma unpack_indices64_into_fields_witness:
  "unpack_indices64_into (replicate 16 0xFF) 2 63 [] = Ok ([] @ map (\<lambda>i. field (replicate 16 0xFF) (i * 63) 63) [0..<2])"
  by (rule unpack_indices64_into_fields) simp_all

text \<open>The checked lookup the fused unpacker is meant to be.\<close>

definition checked_lookup :: "'v list \<Rightarrow> nat \<Rightarrow> 'v codec_result" where
  "checked_lookup dict idx =
     (if idx < length dict then Ok (dict ! idx) else Err (DictIndexOutOfRange idx (length dict)))"

lemma unat_field_bound: "unat (field bs off w :: 'a::len word) \<le> unat (mask w :: 'a word)"
proof -
  have "field bs off w AND mask w = (field bs off w :: 'a word)"
    by (rule bit_word_eqI) (auto simp: bit_simps bit_field)
  then show ?thesis by (metis word_and_le1 word_le_nat_alt)
qed

lemma unat_ucast_32_64: "unat (ucast (x :: u32) :: u64) = unat x"
  using unsigned_less [of x, where 'a = nat] by (simp add: unsigned_ucast_eq take_bit_nat_eq_self)

lemma lookup_emit_field:
  assumes "w \<le> 32"
  shows "lookup_emit dict (unat (mask w :: u64) < length dict) (field bs off w)
    = checked_lookup dict (unat (field bs off w :: u32))"
proof -
  have u: "ucast (field bs off w :: u64) = (field bs off w :: u32)"
    using assms by (intro ucast_field) simp_all
  have "ucast (field bs off w :: u32) = (field bs off w :: u64)"
    using assms by (intro ucast_field) simp_all
  then have "unat (field bs off w :: u64) = unat (field bs off w :: u32)"
    by (metis unat_ucast_32_64)
  with u unat_field_bound [of bs off w, where 'a = 64] show ?thesis
    by (auto simp: lookup_emit_def dict_read_def checked_lookup_def Let_def)
qed

lemma unpack_lookup_into_eq:
  assumes "w \<le> 32" and "n * w \<le> 8 * length packed"
  shows "unpack_lookup_into packed n w dict out
    = bind_o (mapM_o (\<lambda>i. checked_lookup dict (unat (field packed (i * w) w :: u32))) [0..<n]) (\<lambda>vs. Ok (out @ vs))"
proof (cases "n = 0 \<or> w = 0")
  case True
  have "mapM_o (\<lambda>i. checked_lookup dict 0) [0..<n] =
      (if n = 0 then Ok [] else if dict = [] then Err (DictIndexOutOfRange 0 0) else Ok (replicate n (dict ! 0)))"
    by (induction n) (auto simp: checked_lookup_def mapM_o_append replicate_append_same)
  with True assms(1) show ?thesis by (auto simp: unpack_lookup_into_def)
next
  case False
  with assms show ?thesis
    by (simp add: unpack_lookup_into_def unpack_chunks_def mask_u32_in_u64_eq unpack_with_fields Let_def
        fields_emitted_def lookup_emit_field)
qed

text \<open>Unpacking fused with the dictionary lookup is the checked lookup of every index: the first
  index past the dictionary is reported, and no raw read leaves the dictionary even where the bounds
  check is skipped.\<close>

theorem unpack_lookup_into_checked:
  assumes "w \<le> 32" and "n * w \<le> 8 * length packed"
  shows "unpack_lookup_into packed n w dict out
    = bind_o (mapM_o (\<lambda>i. checked_lookup dict (unat (field packed (i * w) w :: u32))) [0..<n]) (\<lambda>vs. Ok (out @ vs))"
  by (rule unpack_lookup_into_eq [OF assms])

lemma unpack_lookup_into_checked_witness:
  "unpack_lookup_into [0xE4] 4 2 [''a'', ''b'', ''c''] []
    = bind_o (mapM_o (\<lambda>i. checked_lookup [''a'', ''b'', ''c''] (unat (field [0xE4] (i * 2) 2 :: u32))) [0..<4]) (\<lambda>vs. Ok ([] @ vs))"
  by (rule unpack_lookup_into_checked) simp_all

end
