(* ===== verification/DeltaProofs.thy ===== *)
theory DeltaProofs
  imports Delta
begin

text \<open>
  The decoders of \<open>Delta\<close> against the format: \<open>delta_stream\<close> serialises blocks, \<open>delta_values\<close> are the
  partial sums they stand for.  The locale \<open>delta_mini\<close> states what a mini-block step promises; the
  induction over blocks is done once in it and holds for the 32- and the 64-bit decoder.
\<close>

section \<open>Partial sums\<close>

fun sums :: "'o::len word \<Rightarrow> 'o word list \<Rightarrow> 'o word list" where
  "sums p [] = []"
| "sums p (d # ds) = (p + d) # sums (p + d) ds"

lemma sums_append: "sums p (xs @ ys) = sums p xs @ sums (p + sum_list xs) ys"
  by (induction xs arbitrary: p) (simp_all add: add.assoc)

lemma length_sums [simp]: "length (sums p ds) = length ds"
  by (induction ds arbitrary: p) simp_all

lemma ucast_add_down:
  assumes "LENGTH('o) \<le> LENGTH('w)"
  shows "ucast (a + b :: 'w::len word) = (ucast a + ucast b :: 'o::len word)"
proof (rule word_uint_eqI)
  have "uint (ucast (a + b) :: 'o word) = take_bit LENGTH('o) (take_bit LENGTH('w) (uint a + uint b))"
    by (simp add: unsigned_ucast_eq uint_word_ariths(1) take_bit_eq_mod)
  also have "\<dots> = take_bit LENGTH('o) (take_bit LENGTH('o) (uint a) + take_bit LENGTH('o) (uint b))"
    using assms by (simp add: min_absorb1 take_bit_add)
  also have "\<dots> = uint (ucast a + ucast b :: 'o word)"
    by (simp add: unsigned_ucast_eq uint_word_ariths(1) take_bit_eq_mod)
  finally show "uint (ucast (a + b) :: 'o word) = uint (ucast a + ucast b :: 'o word)" .
qed

lemma push_deltas_eq:
  fixes prev min_delta :: "'w::len word" and out :: "'o::len word list"
  assumes "LENGTH('o) \<le> LENGTH('w)"
  shows "\<exists>prev'. push_deltas min_delta ds prev left out
       = (prev', left - min left (length ds),
          out @ sums (ucast prev) (map (\<lambda>d. ucast min_delta + ucast (ucast d :: 'w word)) (take left ds))) \<and>
     ucast prev' = (ucast prev + sum_list (map (\<lambda>d. ucast min_delta + ucast (ucast d :: 'w word)) (take left ds)) :: 'o word)"
proof (induction ds arbitrary: prev left out)
  case (Cons d ds)
  show ?case
  proof (cases left)
    case (Suc l)
    have "ucast (prev + min_delta + ucast d) = (ucast prev + (ucast min_delta + ucast (ucast d :: 'w word)) :: 'o word)"
      by (simp add: ucast_add_down [OF assms] add.assoc)
    with Cons.IH [where prev = "prev + min_delta + ucast d" and left = l and out = "out @ [ucast (prev + min_delta + ucast d)]"] Suc
    show ?thesis by (auto simp: Let_def add.assoc)
  qed simp
qed simp

lemma push_deltas_ucast: "push_deltas m (map ucast ds :: 'w word list) prev left out = push_deltas (m :: 'w::len word) ds prev left out"
  by (induction ds arbitrary: prev left out) (simp_all add: Let_def)

section \<open>The wire format\<close>

text \<open>A block: its minimum, the bit widths of its mini-blocks, the bodies of those that are present.\<close>

type_synonym delta_block = "i64 \<times> u8 list \<times> bytes list"

definition delta_block_bytes :: "delta_block \<Rightarrow> bytes" where
  "delta_block_bytes b = (case b of (m, widths, bodies) \<Rightarrow> write_zigzag_i64 [] m @ widths @ concat bodies)"

text \<open>A mini-block holds \<open>mbs\<close> deltas; its bodies are present as long as values are wanted.\<close>

fun blocks_ok :: "nat \<Rightarrow> nat \<Rightarrow> nat \<Rightarrow> nat \<Rightarrow> delta_block list \<Rightarrow> bool" where
  "blocks_ok maxw mbs mb n [] \<longleftrightarrow> n = 0"
| "blocks_ok maxw mbs mb n ((m, widths, bodies) # bs) \<longleftrightarrow>
     0 < n \<and> length widths = mb \<and> length bodies = min mb (div_ceil n mbs) \<and>
     list_all2 (\<lambda>w body. unat w \<le> maxw \<and> 8 * length body = mbs * unat w) (take (length bodies) widths) bodies \<and>
     blocks_ok maxw mbs mb (n - mb * mbs) bs"

text \<open>The differences a block encodes, in the column's type.\<close>

definition mini_deltas :: "nat \<Rightarrow> i64 \<Rightarrow> u8 \<times> bytes \<Rightarrow> 'o::len word list" where
  "mini_deltas mbs m b = (case b of (w, body) \<Rightarrow> map (\<lambda>i. ucast m + field body (i * unat w) (unat w)) [0..<mbs])"

definition block_deltas :: "nat \<Rightarrow> delta_block \<Rightarrow> 'o::len word list" where
  "block_deltas mbs b = (case b of (m, widths, bodies) \<Rightarrow> concat (map (mini_deltas mbs m) (zip widths bodies)))"

definition delta_values :: "nat \<Rightarrow> nat \<Rightarrow> 'o::len word \<Rightarrow> delta_block list \<Rightarrow> 'o word list" where
  "delta_values mbs n first blocks = first # sums first (take (n - 1) (concat (map (block_deltas mbs) blocks)))"

lemma div_ceil_step:
  assumes "0 < k" and "0 < m"
  shows "div_ceil k m = Suc (div_ceil (k - m) m)"
proof (cases "m \<le> k")
  case True
  then obtain r where r: "k = m + r" by (metis le_Suc_ex)
  then have "k + m - 1 = (r + m - 1) + m" using assms by simp
  moreover have "((r + m - 1) + m) div m = Suc ((r + m - 1) div m)" using assms(2) by (subst div_add_self2) simp_all
  ultimately show ?thesis by (simp only: div_ceil_def r add_diff_cancel_left')
next
  case False
  then have "(k + m - 1) div m = 1" using assms by (intro div_nat_eqI) auto
  with False assms show ?thesis by (simp add: div_ceil_def)
qed

lemma length_block_deltas:
  assumes "list_all2 P (take (length bodies) ws) bodies"
  shows "length (block_deltas mbs (m, ws, bodies) :: 'o::len word list) = length bodies * mbs"
proof -
  have "length (concat (map (mini_deltas mbs m) ps) :: 'o word list) = length ps * mbs" for ps
    by (induction ps) (auto simp: mini_deltas_def split: prod.splits)
  moreover have "length (zip ws bodies) = length bodies"
    using list_all2_lengthD [OF assms] by auto
  ultimately show ?thesis by (simp add: block_deltas_def)
qed

text \<open>After a block, the count the remaining blocks are checked against is what the loop has left.\<close>

lemma remaining_block:
  assumes "blocks_ok maxw mbs mb k (b # bs)" and "0 < mbs"
  shows "blocks_ok maxw mbs mb (k - length (block_deltas mbs b :: 'o::len word list)) bs"
proof -
  obtain m ws bodies where b: "b = (m, ws, bodies)" by (cases b)
  have "k - length bodies * mbs = k - mb * mbs"
  proof (cases "mb \<le> div_ceil k mbs")
    case False
    have "k \<le> div_ceil k mbs * mbs"
      using assms(2) dividend_less_div_times [of mbs "k + mbs - 1"] by (simp add: div_ceil_def)
    moreover have "div_ceil k mbs * mbs \<le> mb * mbs" using False by (intro mult_le_mono1) simp
    ultimately have "k \<le> mb * mbs" by (rule le_trans)
    with \<open>k \<le> div_ceil k mbs * mbs\<close> show ?thesis using False assms(1) by (simp add: b)
  qed (use assms(1) in \<open>simp add: b\<close>)
  with assms(1) show ?thesis
    using length_block_deltas [of _ bodies ws mbs m, where 'o = 'o] by (auto simp: b)
qed

section \<open>The loops over mini-blocks and blocks\<close>

text \<open>
  What the block loop relies on: a mini-block of an admitted width consumes its body and pushes its
  deltas; when no value is wanted any more, nothing is read.
\<close>

locale delta_mini =
  fixes conv :: "i64 \<Rightarrow> 'w::len word"
    and mini :: "nat \<Rightarrow> 'w word \<Rightarrow> nat \<Rightarrow> ('w, 'o::len) delta_state \<Rightarrow> ('w, 'o) delta_state codec_result"
    and maxw :: nat
  assumes narrow: "LENGTH('o) \<le> LENGTH('w)"
    and maxw: "maxw \<le> LENGTH('o)"
    and conv: "ucast (conv m) = (ucast m :: 'o word)"
    and mini_done: "mini mbs c w (prev, 0, out, cur) = Ok (prev, 0, out, cur)"
    and mini_step: "0 < left \<Longrightarrow> w \<le> maxw \<Longrightarrow> 8 * length body = mbs * w \<Longrightarrow> mbs * w < 2 ^ 64 \<Longrightarrow>
      rest cur = body @ post \<Longrightarrow>
      mini mbs c w (prev, left, out, cur) =
        (case push_deltas c (map (\<lambda>i. field body (i * w) w :: 'w word) [0..<mbs]) prev left out of
           (prev', left', out') \<Rightarrow> Ok (prev', left', out', adv cur (length body)))"
begin

text \<open>The state after the differences \<open>ds\<close> have been pushed, of \<open>n\<close> wanted.\<close>

definition reached :: "'o word \<Rightarrow> nat \<Rightarrow> 'o word list \<Rightarrow> ('w, 'o) delta_state \<Rightarrow> bool" where
  "reached first n ds s \<longleftrightarrow> (case s of (prev, left, out, cur) \<Rightarrow>
     ucast prev = first + sum_list ds \<and> left = n - length ds \<and> length ds \<le> n \<and> out = first # sums first ds)"

definition cur_of :: "('w, 'o) delta_state \<Rightarrow> cursor" where
  "cur_of s = (case s of (prev, left, out, cur) \<Rightarrow> cur)"

lemma reached_done: "reached first n ds s \<Longrightarrow> n \<le> length ds \<Longrightarrow> mini mbs c w s = Ok s"
  by (cases s) (auto simp: reached_def mini_done)

lemma mini_reached:
  assumes "reached first n ds s" and "length ds < n" and "unat w \<le> maxw" and "8 * length body = mbs * unat w"
    and "mbs * unat w < 2 ^ 64" and "rest (cur_of s) = body @ post"
  shows "\<exists>s'. mini mbs (conv m) (unat w) s = Ok s' \<and> reached first n (take n (ds @ mini_deltas mbs m (w, body))) s' \<and>
    cur_of s' = adv (cur_of s) (length body)"
proof -
  obtain prev left out cur where s: "s = (prev, left, out, cur)" by (cases s)
  let ?fs = "map (\<lambda>i. field body (i * unat w) (unat w) :: 'w word) [0..<mbs]"
  have inv: "ucast prev = first + sum_list ds" "left = n - length ds" "out = first # sums first ds"
    using assms(1) by (auto simp: reached_def s)
  from push_deltas_eq [OF narrow, of "conv m" ?fs prev left out] obtain prev' where
    p: "push_deltas (conv m) ?fs prev left out = (prev', left - min left (length ?fs),
          out @ sums (ucast prev) (map (\<lambda>d. ucast (conv m) + ucast (ucast d :: 'w word)) (take left ?fs)))"
    "ucast prev' = (ucast prev + sum_list (map (\<lambda>d. ucast (conv m) + ucast (ucast d :: 'w word)) (take left ?fs)) :: 'o word)"
    by blast
  have "ucast (field body (i * unat w) (unat w) :: 'w word) = (field body (i * unat w) (unat w) :: 'o word)" for i
    using assms(3) maxw narrow by (intro ucast_field) simp_all
  then have ds: "map (\<lambda>d. ucast (conv m) + ucast (ucast d :: 'w word)) (take left ?fs) = take left (mini_deltas mbs m (w, body) :: 'o word list)"
    by (simp add: mini_deltas_def conv take_map)
  have "mini mbs (conv m) (unat w) s = Ok (prev', left - min left (length ?fs), out @ sums (ucast prev) (take left (mini_deltas mbs m (w, body))), adv cur (length body))"
    using mini_step [of left "unat w" body mbs cur post "conv m" prev out] assms inv(2) s p(1) ds
    by (simp add: cur_of_def)
  moreover have "reached first n (take n (ds @ mini_deltas mbs m (w, body)))
      (prev', left - min left (length ?fs), out @ sums (ucast prev) (take left (mini_deltas mbs m (w, body))), adv cur (length body))"
    using assms(2) p(2) inv unfolding ds
    by (auto simp: reached_def sums_append mini_deltas_def add.assoc)
  ultimately show ?thesis by (auto simp: cur_of_def s)
qed

lemma minis_done: "reached first n ds s \<Longrightarrow> n \<le> length ds \<Longrightarrow> fold_minis (\<lambda>s w. mini mbs c w s) s ws = Ok s"
  by (induction ws) (simp_all add: fold_minis_def reached_done)

lemma minis_reached:
  assumes "list_all2 (\<lambda>w body. unat w \<le> maxw \<and> 8 * length body = mbs * unat w) (take (length bodies) ws) bodies"
    and "reached first n ds s" and "length ds \<le> n" and "length bodies = min (length ws) (div_ceil (n - length ds) mbs)"
    and "mbs * maxw < 2 ^ 64" and "0 < mbs" and "rest (cur_of s) = concat bodies @ post"
  shows "\<exists>s'. fold_minis (\<lambda>s w. mini mbs (conv m) w s) s ws = Ok s' \<and>
    reached first n (take n (ds @ concat (map (mini_deltas mbs m) (zip ws bodies)))) s' \<and>
    cur_of s' = adv (cur_of s) (length (concat bodies))"
  using assms(1-4,7)
proof (induction ws arbitrary: bodies ds s)
  case Nil
  then show ?case by (auto simp: fold_minis_def)
next
  case (Cons w ws)
  show ?case
  proof (cases "length ds = n")
    case True
    then have "bodies = []" using Cons.prems(4) assms(6) by (simp add: div_ceil_def)
    with True Cons.prems(2) minis_done [OF Cons.prems(2), of mbs "conv m" "w # ws"] show ?thesis by simp
  next
    case False
    then have lt: "length ds < n" using Cons.prems(3) by simp
    then have "0 < div_ceil (n - length ds) mbs" using assms(6) by (simp add: div_ceil_def div_greater_zero_iff)
    then obtain body bodies' where b: "bodies = body # bodies'"
      using Cons.prems(4) by (cases bodies) auto
    have w: "unat w \<le> maxw" "8 * length body = mbs * unat w" using Cons.prems(1) by (auto simp: b)
    then have "mbs * unat w < 2 ^ 64" using assms(5) by (meson le_less_trans mult_le_mono2)
    moreover have "rest (cur_of s) = body @ concat bodies' @ post" using Cons.prems(5) by (simp add: b)
    ultimately obtain s' where
      s': "mini mbs (conv m) (unat w) s = Ok s'" "reached first n (take n (ds @ mini_deltas mbs m (w, body))) s'"
      "cur_of s' = adv (cur_of s) (length body)"
      using mini_reached [OF Cons.prems(2) lt w] by blast
    let ?ds = "take n (ds @ mini_deltas mbs m (w, body))"
    have len: "n - length ?ds = n - length ds - mbs"
      by (auto simp: mini_deltas_def min_def)
    have bodies': "length bodies' = min (length ws) (div_ceil (n - length ?ds) mbs)"
    proof -
      have "div_ceil (n - length ds) mbs = Suc (div_ceil (n - length ds - mbs) mbs)"
        using lt assms(6) by (intro div_ceil_step) simp_all
      then show ?thesis using Cons.prems(4) unfolding len b by simp
    qed
    have rest': "rest (cur_of s') = concat bodies' @ post"
      using Cons.prems(5) rest_adv [of "cur_of s" body] by (simp add: b s'(3))
    have "list_all2 (\<lambda>w body. unat w \<le> maxw \<and> 8 * length body = mbs * unat w) (take (length bodies') ws) bodies'"
      "length ?ds \<le> n" using Cons.prems(1) by (simp_all add: b)
    then obtain s'' where
      s'': "fold_minis (\<lambda>s w. mini mbs (conv m) w s) s' ws = Ok s''"
      "reached first n (take n (?ds @ concat (map (mini_deltas mbs m) (zip ws bodies')))) s''"
      "cur_of s'' = adv (cur_of s') (length (concat bodies'))"
      using Cons.IH [OF _ s'(2) _ bodies' rest'] by blast
    have "take n (?ds @ xs) = take n (ds @ mini_deltas mbs m (w, body) @ xs)" for xs :: "'o word list"
      using lt by (cases "n \<le> length (ds @ (mini_deltas mbs m (w, body) :: 'o word list))") simp_all
    with s' s'' show ?thesis by (auto simp: fold_minis_def b)
  qed
qed

lemma remaining_adv: "rest cur = bs @ post \<Longrightarrow> remaining (adv cur (length bs)) + length bs = remaining cur"
  using rest_adv [of cur bs post] by (simp add: remaining_rest)

lemma reads_widths: "reads (read_n read_u8 (length ws)) ws ws"
proof (induction ws)
  case (Cons w ws)
  have "reads (bind_r (read_n read_u8 (length ws)) (\<lambda>xs. return_r (w # xs))) ws (w # ws)"
    using reads_bind_return [OF Cons, of "\<lambda>xs. w # xs"] .
  then show ?case unfolding length_Cons read_n.simps by (rule reads_u8_bind)
qed (simp add: reads_return)

lemma block_reached:
  assumes "blocks_ok maxw mbs mb (n - length ds) (b # bs)" and "reached first n ds s" and "length ds \<le> n"
    and "mb \<le> 64" and "0 < mbs" and "mbs * maxw < 2 ^ 64" and "rest (cur_of s) = delta_block_bytes b @ post"
  shows "\<exists>s'. read_block conv (mini mbs) mb s = Ok s' \<and> reached first n (take n (ds @ block_deltas mbs b)) s' \<and>
    cur_of s' = adv (cur_of s) (length (delta_block_bytes b)) \<and> remaining (cur_of s') < remaining (cur_of s)"
proof -
  obtain m ws bodies where b: "b = (m, ws, bodies)" by (cases b)
  obtain prev left out cur where s: "s = (prev, left, out, cur)" by (cases s)
  obtain zs where zs: "write_zigzag_i64 [] m = [] @ zs" "reads read_zigzag_i64 zs m"
    using codec_zigzag_i64 by (rule codecE)
  have ok: "length ws = mb" "length bodies = min mb (div_ceil (n - length ds) mbs)"
    "list_all2 (\<lambda>w body. unat w \<le> maxw \<and> 8 * length body = mbs * unat w) (take (length bodies) ws) bodies"
    using assms(1) by (auto simp: b)
  have rest0: "rest cur = zs @ ws @ concat bodies @ post"
    using assms(7) zs(1) by (simp add: delta_block_bytes_def b s cur_of_def)
  define cur1 where "cur1 = adv cur (length zs)"
  define cur2 where "cur2 = adv cur1 (length ws)"
  have h1: "wire read_zigzag_i64 cur = Ok (m, cur1)"
    unfolding cur1_def by (rule wire_reads [OF zs(2) rest0])
  have rest1: "rest cur1 = ws @ concat bodies @ post" unfolding cur1_def by (rule rest_adv [OF rest0])
  have h2: "wire (read_n read_u8 mb) cur1 = Ok (ws, cur2)"
    using wire_reads [OF reads_widths rest1] ok(1) by (simp add: cur2_def)
  have rest2: "rest cur2 = concat bodies @ post" unfolding cur2_def by (rule rest_adv [OF rest1])
  have "reached first n ds (prev, left, out, cur2)" using assms(2) by (simp add: reached_def s)
  from minis_reached [OF ok(3) this assms(3) _ assms(6,5), of post m] ok(1,2) rest2 obtain s' where
    s': "fold_minis (\<lambda>s w. mini mbs (conv m) w s) (prev, left, out, cur2) ws = Ok s'"
    "reached first n (take n (ds @ concat (map (mini_deltas mbs m) (zip ws bodies)))) s'"
    "cur_of s' = adv cur2 (length (concat bodies))" by (auto simp: cur_of_def)
  have c: "cur_of s' = adv (cur_of s) (length (delta_block_bytes b))"
    using s'(3) zs(1) by (simp add: cur2_def cur1_def cur_of_def s delta_block_bytes_def b add.assoc)
  have "remaining cur1 < remaining cur"
    using h1 remaining_uvarint by (auto simp: wire_Ok_iff read_zigzag_i64_def bind_r_def bind_o_eq_Ok_iff return_r_def)
  then have "0 < length zs" using remaining_adv [OF rest0] by (auto simp: cur1_def)
  then have len: "0 < length (delta_block_bytes b)" using zs(1) by (simp add: delta_block_bytes_def b)
  have "remaining (cur_of s') < remaining (cur_of s)"
    unfolding c using remaining_adv [OF assms(7)] len by linarith
  with s' c show ?thesis
    using h1 h2 assms(4) by (auto simp: read_block_def s block_deltas_def b)
qed

lemma blocks_reached:
  assumes "mb \<le> 64" and "0 < mbs" and "mbs * maxw < 2 ^ 64"
  shows "blocks_ok maxw mbs mb (n - length ds) bs \<Longrightarrow> reached first n ds s \<Longrightarrow> length ds \<le> n \<Longrightarrow>
    rest (cur_of s) = concat (map delta_block_bytes bs) @ post \<Longrightarrow>
    \<exists>s'. read_blocks (read_block conv (mini mbs) mb) s = Ok s' \<and>
      reached first n (take n (ds @ concat (map (block_deltas mbs) bs))) s' \<and>
      cur_of s' = adv (cur_of s) (length (concat (map delta_block_bytes bs)))"
proof (induction bs arbitrary: ds s)
  case Nil
  obtain prev left out cur where s: "s = (prev, left, out, cur)" by (cases s)
  have "left = 0" using Nil(1,2) by (simp add: reached_def s)
  then have "read_blocks (read_block conv (mini mbs) mb) s = Ok s"
    unfolding s by (subst read_blocks.simps) simp
  with Nil show ?case by simp
next
  case (Cons b bs)
  obtain prev left out cur where s: "s = (prev, left, out, cur)" by (cases s)
  have rest: "rest (cur_of s) = delta_block_bytes b @ concat (map delta_block_bytes bs) @ post"
    using Cons.prems(4) by simp
  from block_reached [OF Cons.prems(1-3) assms rest] obtain s' where
    s': "read_block conv (mini mbs) mb s = Ok s'" "reached first n (take n (ds @ block_deltas mbs b)) s'"
    "cur_of s' = adv (cur_of s) (length (delta_block_bytes b))" "remaining (cur_of s') < remaining (cur_of s)" by blast
  obtain prev' left' out' cur' where t: "s' = (prev', left', out', cur')" by (cases s')
  have "0 < left" using Cons.prems(1,2) by (cases b) (simp add: reached_def s)
  then have step: "read_blocks (read_block conv (mini mbs) mb) s = read_blocks (read_block conv (mini mbs) mb) s'"
    unfolding s t using s'(1,4) by (subst read_blocks.simps) (simp add: cur_of_def s t)
  let ?ds = "take n (ds @ block_deltas mbs b) :: 'o word list"
  have "n - length ?ds = n - length ds - length (block_deltas mbs b :: 'o word list)"
    by (auto simp: min_def)
  then have ok: "blocks_ok maxw mbs mb (n - length ?ds) bs"
    using Cons.prems(1) remaining_block [of maxw mbs mb "n - length ds" b bs] Cons.prems(3) assms(2) by simp
  have "length ?ds \<le> n" by simp
  moreover have "rest (cur_of s') = concat (map delta_block_bytes bs) @ post"
    unfolding s'(3) by (rule rest_adv [OF rest])
  ultimately obtain s'' where s'': "read_blocks (read_block conv (mini mbs) mb) s' = Ok s''"
      "reached first n (take n (?ds @ concat (map (block_deltas mbs) bs))) s''"
      "cur_of s'' = adv (cur_of s') (length (concat (map delta_block_bytes bs)))"
    using Cons.IH [OF ok s'(2)] by blast
  have "take n (?ds @ xs) = take n (ds @ block_deltas mbs b @ xs)" for xs :: "'o word list"
    using Cons.prems(3) by (cases "n \<le> length (ds @ (block_deltas mbs b :: 'o word list))") simp_all
  with step s'(3) s'' show ?case by auto
qed

text \<open>From the header's values on, the decoder returns the partial sums.\<close>

lemma blocks_decode:
  assumes "blocks_ok maxw mbs mb (num_values - 1) bs" and "mb \<le> 64" and "0 < mbs" and "mbs * maxw < 2 ^ 64"
    and "ucast prev = first" and "rest cur = concat (map delta_block_bytes bs) @ post"
  shows "\<exists>p l. read_blocks (read_block conv (mini mbs) mb) (prev, num_values - 1, [first], cur)
    = Ok (p, l, delta_values mbs num_values first bs, adv cur (length (concat (map delta_block_bytes bs))))"
proof -
  have "reached first (num_values - 1) [] (prev, num_values - 1, [first], cur)"
    using assms(5) by (simp add: reached_def)
  from blocks_reached [OF assms(2-4) _ this, of bs post] assms(1,6) obtain s where
    "read_blocks (read_block conv (mini mbs) mb) (prev, num_values - 1, [first], cur) = Ok s"
    "reached first (num_values - 1) (take (num_values - 1) (concat (map (block_deltas mbs) bs))) s"
    "cur_of s = adv cur (length (concat (map delta_block_bytes bs)))" by (auto simp: cur_of_def)
  then show ?thesis by (cases s) (auto simp: reached_def delta_values_def cur_of_def)
qed

end

section \<open>The two decoders are instances\<close>

interpretation delta32: delta_mini id mini_block32 32
proof
  show "LENGTH(32) \<le> LENGTH(64)" "(32 :: nat) \<le> LENGTH(32)" by simp_all
  fix m :: i64
  show "ucast (id m) = (ucast m :: i32)" by simp
next
  fix mbs c w prev out cur
  show "mini_block32 mbs c w (prev, 0, out, cur) = Ok (prev, 0, out, cur)" by (simp add: mini_block32_def)
next
  fix left w :: nat and body :: bytes and mbs cur post and c prev :: i64 and out :: "i32 list"
  assume *: "0 < left" "w \<le> 32" "8 * length body = mbs * w" "mbs * w < 2 ^ 64" "rest cur = body @ post"
  have "map ucast (map (\<lambda>i. field body (i * w) w :: u32) [0..<mbs]) = (map (\<lambda>i. field body (i * w) w) [0..<mbs] :: i64 list)"
    using *(2) by (simp add: ucast_field)
  then have eq: "push_deltas c (map (\<lambda>i. field body (i * w) w :: i64) [0..<mbs]) prev left out
      = push_deltas c (map (\<lambda>i. field body (i * w) w :: u32) [0..<mbs]) prev left out"
    by (metis push_deltas_ucast)
  have "wire (cur_take (mbs * w div 8)) cur = Ok (body, adv cur (length body))"
    using wire_reads [OF reads_take *(5)] *(3) by (metis nonzero_mult_div_cancel_left zero_neq_numeral)
  then show "mini_block32 mbs c w (prev, left, out, cur) =
      (case push_deltas c (map (\<lambda>i. field body (i * w) w :: i64) [0..<mbs]) prev left out of
         (prev', left', out') \<Rightarrow> Ok (prev', left', out', adv cur (length body)))"
    unfolding eq using * by (simp add: mini_block32_def mul_usize_def unpack_indices_into_Ok)
qed

interpretation delta64: delta_mini scast mini_block64 64
proof
  show "LENGTH(64) \<le> LENGTH(128)" "(64 :: nat) \<le> LENGTH(64)" by simp_all
  fix m :: i64
  show "ucast (scast m :: 128 word) = (ucast m :: i64)"
    by (rule bit_word_eqI) (auto simp: bit_simps)
next
  fix mbs c w prev out cur
  show "mini_block64 mbs c w (prev, 0, out, cur) = Ok (prev, 0, out, cur)" by (simp add: mini_block64_def)
next
  fix left w :: nat and body :: bytes and mbs cur post and c prev :: "128 word" and out :: "i64 list"
  assume *: "0 < left" "w \<le> 64" "8 * length body = mbs * w" "mbs * w < 2 ^ 64" "rest cur = body @ post"
  have tk: "wire (cur_take (mbs * w div 8)) cur = Ok (body, adv cur (length body))"
    using wire_reads [OF reads_take *(5)] *(3) by (metis nonzero_mult_div_cancel_left zero_neq_numeral)
  show "mini_block64 mbs c w (prev, left, out, cur) =
      (case push_deltas c (map (\<lambda>i. field body (i * w) w :: 128 word) [0..<mbs]) prev left out of
         (prev', left', out') \<Rightarrow> Ok (prev', left', out', adv cur (length body)))"
  proof (cases "w \<le> 32")
    case True
    then have "map ucast (map (\<lambda>i. field body (i * w) w :: u32) [0..<mbs]) = (map (\<lambda>i. field body (i * w) w) [0..<mbs] :: 128 word list)"
      by (simp add: ucast_field)
    then have eq: "push_deltas c (map (\<lambda>i. field body (i * w) w :: 128 word) [0..<mbs]) prev left out
        = push_deltas c (map (\<lambda>i. field body (i * w) w :: u32) [0..<mbs]) prev left out"
      by (metis push_deltas_ucast)
    show ?thesis
      unfolding eq using * True tk by (simp add: mini_block64_def mul_usize_def unpack_indices_into_Ok)
  next
    case False
    have "map ucast (map (\<lambda>i. field body (i * w) w :: u64) [0..<mbs]) = (map (\<lambda>i. field body (i * w) w) [0..<mbs] :: 128 word list)"
      using *(2) by (simp add: ucast_field)
    then have eq: "push_deltas c (map (\<lambda>i. field body (i * w) w :: 128 word) [0..<mbs]) prev left out
        = push_deltas c (map (\<lambda>i. field body (i * w) w :: u64) [0..<mbs]) prev left out"
      by (metis push_deltas_ucast)
    show ?thesis
      unfolding eq using * False tk by (simp add: mini_block64_def mul_usize_def unpack_indices64_into_Ok)
  qed
qed

section \<open>Whole streams\<close>

text \<open>The header: block size, mini-blocks per block, number of values, first value.  The writer of the
  first value is \<open>write_zigzag_i32\<close> or \<open>write_zigzag_i64\<close>.\<close>

definition delta_stream ::
  "('o::len word \<Rightarrow> bytes) \<Rightarrow> nat \<Rightarrow> nat \<Rightarrow> nat \<Rightarrow> 'o word \<Rightarrow> delta_block list \<Rightarrow> bytes" where
  "delta_stream zz mbs mb n first blocks =
     write_uvarint [] (of_nat (mb * mbs)) @ write_uvarint [] (of_nat mb) @ write_uvarint [] (of_nat n) @
     zz first @ concat (map delta_block_bytes blocks)"

text \<open>A stream the format admits: at most 64 mini-blocks per block, sizes that fit.  The \<open>n\<close> values of
  \<open>maxw\<close> bits are the content of a \<open>Vec\<close>, which takes less than \<open>2 ^ 63\<close> bytes.\<close>

definition delta_stream_ok :: "nat \<Rightarrow> nat \<Rightarrow> nat \<Rightarrow> nat \<Rightarrow> delta_block list \<Rightarrow> bool" where
  "delta_stream_ok maxw mbs mb n blocks \<longleftrightarrow>
     0 < n \<and> n < 2 ^ 64 \<and> n * (maxw div 8) < 2 ^ 63 \<and> 0 < mb \<and> mb \<le> 64 \<and> 0 < mbs \<and> mbs < 2 ^ 57 \<and> blocks_ok maxw mbs mb (n - 1) blocks"

lemma unat_of_nat_64: "n < 2 ^ 64 \<Longrightarrow> unat (of_nat n :: u64) = n"
  by (simp add: unsigned_of_nat take_bit_nat_eq_self)

lemma delta_sizes:
  assumes "delta_stream_ok maxw mbs mb n blocks" and "maxw \<le> 64"
  shows "unat (of_nat (mb * mbs) :: u64) = mb * mbs" and "unat (of_nat mb :: u64) = mb"
    and "unat (of_nat n :: u64) = n" and "mbs * maxw < 2 ^ 64" and "(of_nat mb :: u64) \<noteq> 0" and "(of_nat n :: u64) \<noteq> 0"
proof -
  have "mb * mbs \<le> 64 * mbs" "64 * mbs < 2 ^ 64"
    using assms(1) by (intro mult_le_mono1, simp_all add: delta_stream_ok_def)
  then have "mb * mbs < 2 ^ 64" by (rule le_less_trans)
  then show "unat (of_nat (mb * mbs) :: u64) = mb * mbs" by (rule unat_of_nat_64)
  show mb: "unat (of_nat mb :: u64) = mb" and n: "unat (of_nat n :: u64) = n"
    using assms(1) by (simp_all only: delta_stream_ok_def) (intro unat_of_nat_64; simp)+
  show "(of_nat mb :: u64) \<noteq> 0" "(of_nat n :: u64) \<noteq> 0"
    using mb n assms(1) by (auto simp: delta_stream_ok_def simp del: of_nat_eq_0_iff)
  have "mbs * maxw \<le> mbs * 64" "mbs * 64 < 2 ^ 64"
    using assms by (intro mult_le_mono2, simp_all add: delta_stream_ok_def)
  then show "mbs * maxw < 2 ^ 64" by (rule le_less_trans)
qed

lemma decode_delta_i32_from_stream:
  assumes "delta_stream_ok 32 mbs mb n blocks"
    and "rest cur = delta_stream (write_zigzag_i32 []) mbs mb n first blocks @ post"
  shows "decode_delta_i32_from cur = Ok (delta_values mbs n first blocks,
    adv cur (length (delta_stream (write_zigzag_i32 []) mbs mb n first blocks)))"
proof -
  note sz = delta_sizes [OF assms(1)]
  obtain zs where zs: "write_zigzag_i32 [] first = [] @ zs" "reads read_zigzag_i32 zs first"
    using codec_zigzag_i32 by (rule codecE)
  let ?a = "write_uvarint [] (of_nat (mb * mbs))" and ?b = "write_uvarint [] (of_nat mb)" and ?c = "write_uvarint [] (of_nat n)"
    and ?bs = "concat (map delta_block_bytes blocks)"
  define c1 where "c1 = adv cur (length ?a)"
  define c2 where "c2 = adv c1 (length ?b)"
  define c3 where "c3 = adv c2 (length ?c)"
  define c4 where "c4 = adv c3 (length zs)"
  have r0: "rest cur = ?a @ ?b @ ?c @ zs @ ?bs @ post" using assms(2) zs(1) by (simp add: delta_stream_def)
  have r1: "rest c1 = ?b @ ?c @ zs @ ?bs @ post" unfolding c1_def by (rule rest_adv [OF r0])
  have r2: "rest c2 = ?c @ zs @ ?bs @ post" unfolding c2_def by (rule rest_adv [OF r1])
  have r3: "rest c3 = zs @ ?bs @ post" unfolding c3_def by (rule rest_adv [OF r2])
  have r4: "rest c4 = ?bs @ post" unfolding c4_def by (rule rest_adv [OF r3])
  note h = wire_reads [OF reads_uvarint r0, folded c1_def] wire_reads [OF reads_uvarint r1, folded c2_def]
    wire_reads [OF reads_uvarint r2, folded c3_def] wire_reads [OF zs(2) r3, folded c4_def]
  have "ucast (scast first :: i64) = first" by (rule bit_word_eqI) (auto simp: bit_simps)
  from delta32.blocks_decode [OF _ _ _ _ this r4, of mbs mb n] assms(1) sz(4) obtain p l where
    "read_blocks (read_block id (mini_block32 mbs) mb) (scast first, n - 1, [first], c4)
      = Ok (p, l, delta_values mbs n first blocks, adv c4 (length ?bs))"
    by (auto simp: delta_stream_ok_def)
  moreover have "adv c4 (length ?bs) = adv cur (length (delta_stream (write_zigzag_i32 []) mbs mb n first blocks))"
    by (simp add: c1_def c2_def c3_def c4_def delta_stream_def zs(1) add.assoc)
  ultimately show ?thesis
    unfolding decode_delta_i32_from_def using assms(1)
    by (simp add: h sz Let_def delta_stream_ok_def reserve_o_def del: of_nat_mult of_nat_eq_0_iff)
qed

lemma decode_delta_i64_from_stream:
  assumes "delta_stream_ok 64 mbs mb n blocks"
    and "rest cur = delta_stream (write_zigzag_i64 []) mbs mb n first blocks @ post"
  shows "decode_delta_i64_from cur = Ok (delta_values mbs n first blocks,
    adv cur (length (delta_stream (write_zigzag_i64 []) mbs mb n first blocks)))"
proof -
  note sz = delta_sizes [OF assms(1)]
  obtain zs where zs: "write_zigzag_i64 [] first = [] @ zs" "reads read_zigzag_i64 zs first"
    using codec_zigzag_i64 by (rule codecE)
  let ?a = "write_uvarint [] (of_nat (mb * mbs))" and ?b = "write_uvarint [] (of_nat mb)" and ?c = "write_uvarint [] (of_nat n)"
    and ?bs = "concat (map delta_block_bytes blocks)"
  define c1 where "c1 = adv cur (length ?a)"
  define c2 where "c2 = adv c1 (length ?b)"
  define c3 where "c3 = adv c2 (length ?c)"
  define c4 where "c4 = adv c3 (length zs)"
  have r0: "rest cur = ?a @ ?b @ ?c @ zs @ ?bs @ post" using assms(2) zs(1) by (simp add: delta_stream_def)
  have r1: "rest c1 = ?b @ ?c @ zs @ ?bs @ post" unfolding c1_def by (rule rest_adv [OF r0])
  have r2: "rest c2 = ?c @ zs @ ?bs @ post" unfolding c2_def by (rule rest_adv [OF r1])
  have r3: "rest c3 = zs @ ?bs @ post" unfolding c3_def by (rule rest_adv [OF r2])
  have r4: "rest c4 = ?bs @ post" unfolding c4_def by (rule rest_adv [OF r3])
  note h = wire_reads [OF reads_uvarint r0, folded c1_def] wire_reads [OF reads_uvarint r1, folded c2_def]
    wire_reads [OF reads_uvarint r2, folded c3_def] wire_reads [OF zs(2) r3, folded c4_def]
  have "ucast (scast first :: 128 word) = first" by (rule bit_word_eqI) (auto simp: bit_simps)
  from delta64.blocks_decode [OF _ _ _ _ this r4, of mbs mb n] assms(1) sz(4) obtain p l where
    "read_blocks (read_block scast (mini_block64 mbs) mb) (scast first, n - 1, [first], c4)
      = Ok (p, l, delta_values mbs n first blocks, adv c4 (length ?bs))"
    by (auto simp: delta_stream_ok_def)
  moreover have "adv c4 (length ?bs) = adv cur (length (delta_stream (write_zigzag_i64 []) mbs mb n first blocks))"
    by (simp add: c1_def c2_def c3_def c4_def delta_stream_def zs(1) add.assoc)
  ultimately show ?thesis
    unfolding decode_delta_i64_from_def using assms(1)
    by (simp add: h sz Let_def delta_stream_ok_def reserve_o_def del: of_nat_mult of_nat_eq_0_iff)
qed

section \<open>The decoders invert the format\<close>

text \<open>A DELTA_BINARY_PACKED stream of 32-bit values decodes to its first value followed by the
  partial sums of minimum plus packed difference, in wrapping 32-bit arithmetic; bytes behind the
  stream are ignored.\<close>

theorem decode_delta_i32_inverts_format:
  assumes "delta_stream_ok 32 mbs mb n blocks"
  shows "decode_delta_i32 (delta_stream (write_zigzag_i32 []) mbs mb n first blocks @ post)
    = Ok (delta_values mbs n first blocks)"
  unfolding decode_delta_i32_def
  by (subst decode_delta_i32_from_stream [OF assms, of _ first post]) (simp_all add: rest_def cursor_new_def)

text \<open>C25. The same for 64-bit values, with mini-block widths up to 64.\<close>

theorem decode_delta_i64_inverts_format:
  assumes "delta_stream_ok 64 mbs mb n blocks"
  shows "decode_delta_i64 (delta_stream (write_zigzag_i64 []) mbs mb n first blocks @ post)
    = Ok (delta_values mbs n first blocks)"
  unfolding decode_delta_i64_def
  by (subst decode_delta_i64_from_stream [OF assms, of _ first post]) (simp_all add: rest_def cursor_new_def)

lemma decode_delta_i32_inverts_format_witness:
  "decode_delta_i32 (delta_stream (write_zigzag_i32 []) 32 4 5 7 [(-2, [3, 0, 0, 0], [replicate 12 0xFF])] @ [1])
    = Ok (delta_values 32 5 7 [(-2, [3, 0, 0, 0], [replicate 12 0xFF])])"
  by (rule decode_delta_i32_inverts_format) (simp add: delta_stream_ok_def div_ceil_def)

lemma decode_delta_i64_inverts_format_witness:
  "decode_delta_i64 (delta_stream (write_zigzag_i64 []) 32 1 3 7 [(5, [63], [replicate 252 0x55])] @ [])
    = Ok (delta_values 32 3 7 [(5, [63], [replicate 252 0x55])])"
  by (rule decode_delta_i64_inverts_format) (simp add: delta_stream_ok_def div_ceil_def)

definition len32 :: "bytes \<Rightarrow> i32" where
  "len32 v = of_nat (length v)"

lemma of_nat_i32:
  assumes "n < 2 ^ 31"
  shows "unat (of_nat n :: i32) = n" and "\<not> sint (of_nat n :: i32) < 0"
proof -
  show "unat (of_nat n :: i32) = n" using assms by (simp add: unsigned_of_nat take_bit_nat_eq_self)
  have "sint (of_nat n :: i32) = int n"
    using assms by (simp add: signed_of_nat signed_take_bit_int_eq_self)
  then show "\<not> sint (of_nat n :: i32) < 0" by simp
qed

lemma take_values_Ok:
  "list_all (\<lambda>v. length v < 2 ^ 31) vals \<Longrightarrow> rest cur = concat vals @ post \<Longrightarrow>
     take_values (map len32 vals) cur = Ok vals"
proof (induction vals arbitrary: cur)
  case (Cons v vals)
  have rest: "rest cur = v @ concat vals @ post" using Cons.prems(2) by simp
  have "length v < 2 ^ 31" using Cons.prems(1) by simp
  note len = of_nat_i32 [OF this]
  show ?case
    using Cons.IH [OF _ rest_adv [OF rest]] Cons.prems(1) wire_reads [OF reads_take rest] len
    by (simp add: len32_def)
qed simp

text \<open>A DELTA_LENGTH_BYTE_ARRAY body, the stream of the lengths followed by the bytes, decodes to
  the values.\<close>

theorem decode_delta_length_byte_array_roundtrip:
  assumes "delta_stream_ok 32 mbs mb n blocks" and "delta_values mbs n first blocks = map len32 vals"
    and "list_all (\<lambda>v. length v < 2 ^ 31) vals" and "length vals * 24 < 2 ^ 63"
  shows "decode_delta_length_byte_array (delta_stream (write_zigzag_i32 []) mbs mb n first blocks @ concat vals) = Ok vals"
proof -
  let ?s = "delta_stream (write_zigzag_i32 []) mbs mb n first blocks"
  have r: "rest (cursor_new (?s @ concat vals)) = ?s @ concat vals" by (simp add: rest_def cursor_new_def)
  have "rest (adv (cursor_new (?s @ concat vals)) (length ?s)) = concat vals @ []" using rest_adv [OF r] by simp
  from take_values_Ok [OF assms(3) this] decode_delta_i32_from_stream [OF assms(1) r] assms(2,4) show ?thesis
    by (simp add: decode_delta_length_byte_array_def reserve_o_def)
qed

lemma decode_delta_length_byte_array_roundtrip_witness:
  "decode_delta_length_byte_array (delta_stream (write_zigzag_i32 []) 32 1 2 2 [(1, [0], [[]])] @ concat [[1, 2], [3, 4, 5]])
    = Ok [[1, 2], [3, 4, 5]]"
  by (rule decode_delta_length_byte_array_roundtrip)
    (simp_all add: delta_stream_ok_def div_ceil_def delta_values_def block_deltas_def mini_deltas_def len32_def upt_rec)

text \<open>Front coding: each value shares \<open>p\<close> bytes with the one before.\<close>

fun front_coded :: "bytes \<Rightarrow> nat list \<Rightarrow> bytes list \<Rightarrow> bool" where
  "front_coded prev [] [] \<longleftrightarrow> True"
| "front_coded prev (p # ps) (v # vs) \<longleftrightarrow>
     p \<le> length prev \<and> p \<le> length v \<and> take p v = take p prev \<and> length v < 2 ^ 31 \<and> front_coded v ps vs"
| "front_coded prev _ _ \<longleftrightarrow> False"

fun suffixes_of :: "nat list \<Rightarrow> bytes list \<Rightarrow> bytes list" where
  "suffixes_of (p # ps) (v # vs) = drop p v # suffixes_of ps vs"
| "suffixes_of _ _ = []"

lemma front_coded_length: "front_coded prev ps vs \<Longrightarrow> length ps = length vs \<and> length (suffixes_of ps vs) = length vs"
  by (induction prev ps vs rule: front_coded.induct) auto

lemma join_values_Ok:
  "front_coded prev ps vals \<Longrightarrow> rest cur = concat (suffixes_of ps vals) @ post \<Longrightarrow>
     join_values (zip (map of_nat ps) (map len32 (suffixes_of ps vals))) prev cur = Ok vals"
proof (induction prev ps vals arbitrary: cur rule: front_coded.induct)
  case (2 prev p ps v vs)
  have rest: "rest cur = drop p v @ concat (suffixes_of ps vs) @ post" using 2(3) by simp
  have "p < 2 ^ 31" "length v - p < 2 ^ 31" using 2(2) by auto
  note len = of_nat_i32 [OF this(1)] of_nat_i32 [OF this(2)]
  have "take p prev @ drop p v = v" using 2(2) by (metis append_take_drop_id front_coded.simps(2))
  moreover have "wire (cur_take (length v - p)) cur = Ok (drop p v, adv cur (length v - p))"
    using wire_reads [OF reads_take rest] by simp
  moreover have "rest (adv cur (length v - p)) = concat (suffixes_of ps vs) @ post"
    using rest_adv [OF rest] by simp
  ultimately show ?case
    using 2(1) [of "adv cur (length v - p)"] 2(2) len by (simp add: len32_def Let_def)
qed simp_all

text \<open>C26. A DELTA_BYTE_ARRAY body, the streams of the prefix lengths and of the suffix lengths followed
  by the suffixes, decodes to the front-coded values, whose vector takes 24 bytes a value and, like
  every vector, less than \<open>2 ^ 63\<close> bytes.\<close>

theorem decode_delta_byte_array_roundtrip:
  assumes "front_coded [] ps vals" and "length vals * 24 < 2 ^ 63"
    and "delta_stream_ok 32 mbs mb n blocks" and "delta_values mbs n first blocks = map of_nat ps"
    and "delta_stream_ok 32 mbs' mb' n' blocks'" and "delta_values mbs' n' first' blocks' = map len32 (suffixes_of ps vals)"
  shows "decode_delta_byte_array (delta_stream (write_zigzag_i32 []) mbs mb n first blocks @
    delta_stream (write_zigzag_i32 []) mbs' mb' n' first' blocks' @ concat (suffixes_of ps vals)) = Ok vals"
proof -
  let ?s = "delta_stream (write_zigzag_i32 []) mbs mb n first blocks"
  let ?t = "delta_stream (write_zigzag_i32 []) mbs' mb' n' first' blocks'"
  let ?c = "concat (suffixes_of ps vals)"
  have r: "rest (cursor_new (?s @ ?t @ ?c)) = ?s @ ?t @ ?c" by (simp add: rest_def cursor_new_def)
  note r1 = rest_adv [OF r]
  have r2: "rest (adv (adv (cursor_new (?s @ ?t @ ?c)) (length ?s)) (length ?t)) = ?c @ []"
    using rest_adv [OF r1] by simp
  have "length (map of_nat ps :: i32 list) = length (map len32 (suffixes_of ps vals))"
    using front_coded_length [OF assms(1)] by simp
  moreover have "reserve_o 24 (length (map of_nat ps :: i32 list)) = (Ok () :: unit codec_result)"
    using front_coded_length [OF assms(1)] assms(2) by (simp add: reserve_o_def)
  ultimately show ?thesis
    using decode_delta_i32_from_stream [OF assms(3) r] decode_delta_i32_from_stream [OF assms(5) r1]
      join_values_Ok [OF assms(1) r2]
    unfolding assms(4,6) by (simp add: decode_delta_byte_array_def del: length_map adv_adv)
qed

lemma decode_delta_byte_array_roundtrip_witness:
  "decode_delta_byte_array (delta_stream (write_zigzag_i32 []) 32 1 2 0 [(2, [0], [[]])] @
    delta_stream (write_zigzag_i32 []) 32 1 2 2 [(1, [0], [[]])] @ concat (suffixes_of [0, 2] [[7, 8], [7, 8, 4, 5, 6]]))
    = Ok [[7, 8], [7, 8, 4, 5, 6]]"
  by (rule decode_delta_byte_array_roundtrip)
    (simp_all add: delta_stream_ok_def div_ceil_def delta_values_def block_deltas_def mini_deltas_def len32_def upt_rec)

lemma unaligned_mini_block_steps:
  fixes c
  defines "c \<equiv> \<lambda>p. \<lparr>buf = [1, 1, 2, 0, 0, 1], pos = p\<rparr>"
  shows "wire read_uvarint (c 0) = Ok (1, c 1)" "wire read_uvarint (c 1) = Ok (1, c 2)"
    "wire read_uvarint (c 2) = Ok (2, c 3)" "wire read_zigzag_i32 (c 3) = Ok (0, c 4)"
    "wire read_zigzag_i64 (c 4) = Ok (0, c 5)" "wire (read_n read_u8 1) (c 5) = Ok ([1], c 6)"
    "wire (cur_take 0) (c 6) = Ok ([], c 6)"
  unfolding c_def by code_simp+

text \<open>The decoder does not check that a mini-block holds a multiple of 8 values: with one value per
  mini-block the body is sized to 0 bytes and the unpacker then indexes past it.\<close>

theorem decode_delta_unaligned_mini_block_panics:
  "decode_delta_i32 [1, 1, 2, 0, 0, 1] = Panic ''range index out of range for slice''"
proof -
  have "unpack_indices_into [] 1 1 [] = Panic ''range index out of range for slice''"
    by (simp add: unpack_indices_into_def unpack_chunks_indices_def unpack_with_def unpack_full_chunks_def
        slice_def div_ceil_def)
  then have "mini_block32 1 0 1 (0, 1, [0], \<lparr>buf = [1, 1, 2, 0, 0, 1], pos = 6\<rparr>)
      = Panic ''range index out of range for slice''"
    using unaligned_mini_block_steps by (simp add: mini_block32_def mul_usize_def)
  then show ?thesis
    using unaligned_mini_block_steps
    by (simp add: decode_delta_i32_def decode_delta_i32_from_def cursor_new_def Let_def read_blocks.simps
        read_block_def fold_minis_def reserve_o_def)
qed

end
