(* ===== verification/DeltaTotal.thy ===== *)
theory DeltaTotal
  imports DeltaProofs
begin

text \<open>
  The delta decoders terminate on every input: no outcome of the model is \<open>Stuck\<close>, so the guard that
  makes \<open>read_blocks\<close> well-founded never fires.  Where the headers ask for no impossible memory and
  for mini-blocks of whole bytes (\<open>bad_header\<close> fails), they do not panic either.  A decoded stream has
  at most the announced number of values.
\<close>
section \<open>Nothing gets stuck\<close>

named_theorems not_stuck \<open>calls that are never stuck\<close>

lemma bind_o_eq_Stuck_iff: "bind_o m f = Stuck \<longleftrightarrow> m = Stuck \<or> (\<exists>x. m = Ok x \<and> f x = Stuck)"
  by (cases m) auto

lemma wire_not_stuck [not_stuck]: "r cur \<noteq> Stuck \<Longrightarrow> wire r cur \<noteq> Stuck"
  by (cases "r cur") (auto simp: wire_def)

lemma read_u8_not_stuck [not_stuck]: "read_u8 cur \<noteq> Stuck"
  by (simp add: read_u8_def)

lemma cur_take_not_stuck [not_stuck]: "cur_take n cur \<noteq> Stuck"
  by (simp add: cur_take_def)

lemma uvarint_loop_not_stuck: "uvarint_loop n r s cur \<noteq> Stuck"
  by (induction n arbitrary: r s cur)
    (auto simp: fail_r_def bind_r_def return_r_def Let_def bind_o_eq_Stuck_iff not_stuck)

lemma read_uvarint_not_stuck [not_stuck]: "read_uvarint cur \<noteq> Stuck"
  by (simp add: read_uvarint_def uvarint_loop_not_stuck)

lemma read_zigzag_not_stuck [not_stuck]: "read_zigzag_i32 cur \<noteq> Stuck" "read_zigzag_i64 cur \<noteq> Stuck"
  by (auto simp: read_zigzag_i32_def read_zigzag_i64_def bind_r_def return_r_def bind_o_eq_Stuck_iff not_stuck)

lemma read_n_not_stuck [not_stuck]: "read_n read_u8 n cur \<noteq> Stuck"
  by (induction n arbitrary: cur) (auto simp: bind_r_def return_r_def bind_o_eq_Stuck_iff not_stuck)

lemma mapM_o_not_stuck [not_stuck]: "(\<And>x. x \<in> set xs \<Longrightarrow> f x \<noteq> Stuck) \<Longrightarrow> mapM_o f xs \<noteq> Stuck"
  by (induction xs) (auto simp: bind_o_eq_Stuck_iff not_stuck)

lemma fold_o_not_stuck [not_stuck]: "(\<And>s x. f s x \<noteq> Stuck) \<Longrightarrow> fold_o f s xs \<noteq> Stuck"
  by (induction xs arbitrary: s) (auto simp: bind_o_eq_Stuck_iff not_stuck)

lemma arith_not_stuck [not_stuck]:
  "mul_usize a b \<noteq> Stuck" "add_usize a b \<noteq> Stuck" "slice bs i j \<noteq> Stuck" "reserve_o sz n \<noteq> Stuck"
  by (simp_all add: mul_usize_def add_usize_def slice_def reserve_o_def)

lemma acc_bytes_not_stuck [not_stuck]: "acc_bytes chunk off n \<noteq> Stuck"
  by (auto simp: acc_bytes_def acc_step_def bind_o_eq_Stuck_iff not_stuck)

lemma packed_value_not_stuck [not_stuck]: "packed_value chunk w msk i \<noteq> Stuck"
  by (auto simp: packed_value_def Let_def bind_o_eq_Stuck_iff not_stuck)

lemma refill_not_stuck [not_stuck]: "refill chunk w acc bits byte_idx \<noteq> Stuck"
  by (induction chunk w acc bits byte_idx rule: refill.induct) (subst refill.simps, auto)

lemma unpack_tail_not_stuck [not_stuck]:
  assumes "\<And>v. emit v \<noteq> Stuck"
  shows "unpack_tail emit chunk w msk tail acc bits byte_idx out \<noteq> Stuck"
proof (induction tail arbitrary: acc bits byte_idx out)
  case (Suc tail)
  then show ?case using assms by (auto simp: bind_o_eq_Stuck_iff not_stuck)
qed simp

lemma unpack_with_not_stuck [not_stuck]:
  assumes "\<And>v. emit v \<noteq> Stuck"
  shows "unpack_with emit packed num_values w msk out \<noteq> Stuck"
  using assms unpack_tail_not_stuck [of emit, OF assms]
  by (auto simp: unpack_with_def unpack_full_chunks_def unpack_chunk_def Let_def bind_o_eq_Stuck_iff not_stuck mapM_o_not_stuck fold_o_not_stuck not_stuck)

lemma unpack_indices_not_stuck [not_stuck]:
  "unpack_indices_into packed n w out \<noteq> Stuck" "unpack_indices64_into packed n w out' \<noteq> Stuck"
  by (auto simp: unpack_indices_into_def unpack_indices64_into_def unpack_chunks_indices_def
      unpack_chunks_indices64_def bind_o_eq_Stuck_iff not_stuck)

section \<open>Blocks shorten the input\<close>

lemma remaining_read_n: "read_n read_u8 n cur = Ok (bs, cur') \<Longrightarrow> remaining cur' \<le> remaining cur"
proof (induction n arbitrary: cur bs)
  case (Suc n)
  then obtain b c bs' where "read_u8 cur = Ok (b, c)" "read_n read_u8 n c = Ok (bs', cur')"
    by (auto simp: bind_r_def return_r_def bind_o_eq_Ok_iff)
  then show ?case using Suc.IH remaining_read_u8 by fastforce
qed (simp add: return_r_def)

lemma remaining_zigzag_i64: "read_zigzag_i64 cur = Ok (v, cur') \<Longrightarrow> remaining cur' < remaining cur"
  by (auto simp: read_zigzag_i64_def bind_r_def return_r_def bind_o_eq_Ok_iff dest: remaining_uvarint)

text \<open>A mini-block step is never stuck and never moves back.\<close>

fun state_cursor :: "('w::len, 'o::len) delta_state \<Rightarrow> cursor" where
  "state_cursor (prev, left, out, cur) = cur"

definition forward :: "(('w::len, 'o::len) delta_state \<Rightarrow> ('w, 'o) delta_state codec_result) \<Rightarrow> bool" where
  "forward f \<longleftrightarrow> (\<forall>s. f s \<noteq> Stuck \<and> (\<forall>s'. f s = Ok s' \<longrightarrow> remaining (state_cursor s') \<le> remaining (state_cursor s)))"

lemma forward_mini32: "forward (mini_block32 mbs m w)"
  by (auto simp: forward_def mini_block32_def bind_o_eq_Ok_iff wire_Ok_iff bind_o_eq_Stuck_iff not_stuck
      dest!: remaining_take split: prod.split_asm if_splits)

lemma forward_mini64: "forward (mini_block64 mbs m w)"
  by (auto simp: forward_def mini_block64_def bind_o_eq_Ok_iff wire_Ok_iff bind_o_eq_Stuck_iff not_stuck
      dest!: remaining_take split: prod.split_asm if_splits)

lemma forward_bind:
  "forward f \<Longrightarrow> f s \<noteq> Stuck"
  "forward f \<Longrightarrow> f s = Ok s' \<Longrightarrow> remaining (state_cursor s') \<le> remaining (state_cursor s)"
  unfolding forward_def by blast+

lemma fold_minis_forward:
  assumes "\<And>w. forward (f w)"
  shows "forward (\<lambda>s. fold_minis (\<lambda>s w. f w s) s ws)"
proof (induction ws)
  case (Cons w ws)
  have eq: "fold_minis (\<lambda>s w. f w s) s (w # ws) = bind_o (f (unat w) s) (\<lambda>s. fold_minis (\<lambda>s w. f w s) s ws)" for s
    by (simp add: fold_minis_def)
  show ?case
    unfolding forward_def eq bind_o_eq_Stuck_iff bind_o_eq_Ok_iff
    using forward_bind [OF assms] forward_bind [OF Cons] by (blast intro: order_trans)
qed (simp add: forward_def fold_minis_def)

lemma read_block_shortens:
  assumes "\<And>m w. forward (mini m w)"
  shows "read_block conv mini mb s \<noteq> Stuck"
    and "read_block conv mini mb s = Ok s' \<Longrightarrow> remaining (state_cursor s') < remaining (state_cursor s)"
proof -
  note f = fold_minis_forward [of "mini _", OF assms, unfolded forward_def, rule_format]
  show "read_block conv mini mb s \<noteq> Stuck"
    using f by (auto simp: read_block_def bind_o_eq_Stuck_iff not_stuck split: prod.splits)
  show "remaining (state_cursor s') < remaining (state_cursor s)" if "read_block conv mini mb s = Ok s'"
  proof -
    obtain prev left out cur where s: "s = (prev, left, out, cur)" by (cases s)
    with that obtain m c1 ws c2 where r: "read_zigzag_i64 cur = Ok (m, c1)" "read_n read_u8 mb c1 = Ok (ws, c2)"
      and fm: "fold_minis (\<lambda>s w. mini (conv m) w s) (prev, left, out, c2) ws = Ok s'"
      by (auto simp: read_block_def bind_o_eq_Ok_iff wire_Ok_iff split: if_splits prod.split_asm)
    from remaining_zigzag_i64 [OF r(1)] remaining_read_n [OF r(2)] f [THEN conjunct2, rule_format, OF fm]
    show ?thesis by (simp add: s)
  qed
qed

lemma read_blocks_not_stuck:
  assumes "\<And>m w. forward (mini m w)"
  shows "read_blocks (read_block conv mini mb) s \<noteq> Stuck"
proof (induction "remaining (state_cursor s)" arbitrary: s rule: less_induct)
  case less
  obtain prev left out cur where s: "s = (prev, left, out, cur)" by (cases s)
  show ?case
    using read_block_shortens [where mini = mini, OF assms] less
    unfolding s by (subst read_blocks.simps) (auto simp: bind_o_eq_Stuck_iff not_stuck)
qed

lemma decode_delta_from_not_stuck [not_stuck]: "decode_delta_i32_from cur \<noteq> Stuck" "decode_delta_i64_from cur \<noteq> Stuck"
  by (auto simp: decode_delta_i32_from_def decode_delta_i64_from_def Let_def bind_o_eq_Stuck_iff not_stuck
      read_blocks_not_stuck forward_mini32 forward_mini64)

lemma take_values_not_stuck [not_stuck]: "take_values lens cur \<noteq> Stuck"
  by (induction lens arbitrary: cur) (auto simp: bind_o_eq_Stuck_iff not_stuck)

lemma join_values_not_stuck [not_stuck]: "join_values lens prev cur \<noteq> Stuck"
  by (induction lens prev cur rule: join_values.induct) (auto simp: Let_def bind_o_eq_Stuck_iff not_stuck)

section \<open>When nothing panics\<close>

text \<open>
  \<open>returns m\<close>: a value or an error.  A decoder returns unless the header of its stream asks for
  memory no vector can have, or for mini-blocks whose body the code sizes wrongly: a mini-block that
  is not a whole number of bytes at every width, or so long that its size in bits overflows.
\<close>

fun returns :: "('e, 'x) outcome \<Rightarrow> bool" where
  "returns (Ok x) \<longleftrightarrow> True"
| "returns (Err e) \<longleftrightarrow> True"
| "returns (Panic m) \<longleftrightarrow> False"
| "returns Stuck \<longleftrightarrow> False"

definition bad_header :: "nat \<Rightarrow> cursor \<Rightarrow> bool" where
  "bad_header sz cur =
     (case bind_o (read_uvarint cur) (\<lambda>(block_size, cur).
           bind_o (read_uvarint cur) (\<lambda>(mini_blocks_per_block, cur).
           bind_o (read_uvarint cur) (\<lambda>(num_values, cur). Ok (block_size, mini_blocks_per_block, num_values)))) of
        Ok (block_size, mini_blocks_per_block, num_values) \<Rightarrow>
          let mini_block_size = unat block_size div unat mini_blocks_per_block
          in 2 ^ 63 \<le> unat num_values * sz \<or> 2 ^ 56 \<le> mini_block_size \<or> mini_block_size mod 8 \<noteq> 0
      | _ \<Rightarrow> False)"

named_theorems returns_rules \<open>calls that return\<close>

lemma returns_bind: "returns m \<Longrightarrow> (\<And>x. m = Ok x \<Longrightarrow> returns (f x)) \<Longrightarrow> returns (bind_o m f)"
  by (cases m) auto

lemma returns_iff: "returns m \<longleftrightarrow> m \<noteq> Stuck \<and> (\<forall>msg. m \<noteq> Panic msg)"
  by (cases m) auto

lemma returns_wire [returns_rules]: "returns (r cur) \<Longrightarrow> returns (wire r cur)"
  by (cases "r cur") (auto simp: wire_def)

lemma returns_bind_r: "returns (r cur) \<Longrightarrow> (\<And>x c. returns (f x c)) \<Longrightarrow> returns (bind_r r f cur)"
  by (auto simp: bind_r_def intro!: returns_bind)

lemma returns_primitives [returns_rules]:
  "returns (read_u8 cur)" "returns (cur_take n cur)" "returns (return_r x cur)" "returns (fail_r e cur)"
  by (simp_all add: read_u8_def cur_take_def return_r_def fail_r_def)

lemma returns_uvarint_loop: "returns (uvarint_loop n r s cur)"
proof (induction n arbitrary: r s cur)
  case (Suc n)
  then show ?case
    by (auto simp: Let_def intro!: returns_bind_r returns_rules)
qed (simp add: returns_rules)

lemma returns_readers [returns_rules]:
  "returns (read_uvarint cur)" "returns (read_zigzag_i32 cur)" "returns (read_zigzag_i64 cur)"
  by (auto simp: read_uvarint_def read_zigzag_i32_def read_zigzag_i64_def Let_def returns_uvarint_loop
      intro!: returns_bind_r returns_rules)

lemma returns_read_n [returns_rules]: "returns (read_n read_u8 n cur)"
  by (induction n arbitrary: cur) (auto intro!: returns_bind_r returns_rules)

text \<open>A mini-block of whole bytes is unpacked without a panic, at every width a byte can hold.\<close>

definition whole_bytes :: "nat \<Rightarrow> bool" where
  "whole_bytes mbs \<longleftrightarrow> mbs < 2 ^ 56 \<and> mbs mod 8 = 0"

lemma whole_bytes_mul:
  assumes "whole_bytes mbs" and "w < 256"
  shows "mul_usize mbs w = Ok (mbs * w)" and "8 * (mbs * w div 8) = mbs * w"
proof -
  have "mbs * w \<le> mbs * 256" "mbs * 256 < 2 ^ 64"
    using assms by (intro mult_le_mono2, simp_all add: whole_bytes_def)
  then have "mbs * w < 2 ^ 64" by (rule le_less_trans)
  then show "mul_usize mbs w = Ok (mbs * w)" by (simp add: mul_usize_def)
  have "8 dvd mbs * w" using assms(1) by (intro dvd_mult2) (simp add: whole_bytes_def dvd_eq_mod_eq_0)
  then show "8 * (mbs * w div 8) = mbs * w" by simp
qed

lemma taken_length: "wire (cur_take n) cur = Ok (bs, cur') \<Longrightarrow> length bs = n"
  by (auto simp: wire_Ok_iff cur_take_def remaining_def split: if_splits)

lemma returns_mini32:
  assumes "whole_bytes mbs" and "w < 256"
  shows "returns (mini_block32 mbs m w s)"
proof -
  obtain prev left out cur where s: "s = (prev, left, out, cur)" by (cases s)
  have unpack: "returns (unpack_indices_into chunk mbs w [])" if "length chunk = mbs * w div 8" for chunk
  proof (cases "w \<le> 32")
    case True
    then show ?thesis using that whole_bytes_mul(2) [OF assms] unpack_indices_into_Ok [of w mbs chunk] by simp
  qed (simp add: unpack_indices_into_def)
  show ?thesis
    by (auto simp: mini_block32_def s whole_bytes_mul(1) [OF assms] dest!: taken_length
        intro!: returns_bind returns_rules unpack split: prod.split)
qed

lemma returns_mini64:
  assumes "whole_bytes mbs" and "w < 256"
  shows "returns (mini_block64 mbs m w s)"
proof -
  obtain prev left out cur where s: "s = (prev, left, out, cur)" by (cases s)
  have unpack: "returns (unpack_indices_into chunk mbs w [])" if "length chunk = mbs * w div 8" "w \<le> 32" for chunk
    using that whole_bytes_mul(2) [OF assms] unpack_indices_into_Ok [of w mbs chunk] by simp
  have unpack64: "returns (unpack_indices64_into chunk mbs w [])" if "length chunk = mbs * w div 8" "w \<le> 64" for chunk
    using that whole_bytes_mul(2) [OF assms] unpack_indices64_into_Ok [of w mbs chunk] by simp
  show ?thesis
    by (auto simp: mini_block64_def s whole_bytes_mul(1) [OF assms] dest!: taken_length
        intro!: returns_bind returns_rules unpack unpack64 split: prod.split)
qed

lemma unat_byte: "unat (w :: u8) < 256"
  using unsigned_less [of w, where 'a = nat] by simp

lemma returns_fold_minis: "(\<And>s w. w < 256 \<Longrightarrow> returns (f s w)) \<Longrightarrow> returns (fold_minis f s ws)"
  by (induction ws arbitrary: s) (auto simp: fold_minis_def unat_byte intro!: returns_bind)

lemma returns_read_block:
  "(\<And>m w s. w < 256 \<Longrightarrow> returns (mini m w s)) \<Longrightarrow> returns (read_block conv mini mb s)"
  by (cases s) (auto simp: read_block_def intro!: returns_bind returns_rules returns_fold_minis)

lemma returns_read_blocks:
  assumes "\<And>m w. forward (mini m w)" and "\<And>m w s. w < 256 \<Longrightarrow> returns (mini m w s)"
  shows "returns (read_blocks (read_block conv mini mb) s)"
proof (induction "remaining (state_cursor s)" arbitrary: s rule: less_induct)
  case less
  obtain prev left out cur where s: "s = (prev, left, out, cur)" by (cases s)
  show ?case
    using read_block_shortens(2) [where mini = mini, OF assms(1)] less returns_read_block [of mini, OF assms(2)]
    unfolding s by (subst read_blocks.simps) (fastforce intro!: returns_bind)
qed

section \<open>How many values a stream gives\<close>

text \<open>Values pushed and values still wanted add up to the announced count.\<close>

fun counted :: "('w::len, 'o::len) delta_state \<Rightarrow> nat" where
  "counted (prev, left, out, cur) = left + length out"

lemma push_deltas_counted:
  "push_deltas m ds prev left out = (prev', left', out') \<Longrightarrow> left' + length out' = left + length out"
  by (induction ds arbitrary: prev left out) (auto simp: Let_def split: if_splits)

lemma mini32_counted:
  assumes "mini_block32 mbs m w s = Ok s'"
  shows "counted s' = counted s"
proof -
  obtain prev left out cur where s: "s = (prev, left, out, cur)" by (cases s)
  show ?thesis
  proof (cases "left = 0")
    case False
    with assms obtain deltas :: "u32 list" and cur' where
      d: "(case push_deltas m deltas prev left out of (prev', left', out') \<Rightarrow> Ok (prev', left', out', cur')) = (Ok s' :: (64, 32) delta_state codec_result)"
      by (auto simp: mini_block32_def s bind_o_eq_Ok_iff Let_def)
    obtain prev' left' out' where p: "push_deltas m deltas prev left out = (prev', left', out')"
      by (metis surj_pair)
    from push_deltas_counted [OF p] d show ?thesis by (auto simp: s p)
  qed (use assms in \<open>simp add: mini_block32_def s\<close>)
qed

lemma fold_minis_counted:
  "(\<And>s w s'. f s w = Ok s' \<Longrightarrow> counted s' = counted s) \<Longrightarrow> fold_minis f s ws = Ok s' \<Longrightarrow> counted s' = counted s"
  by (induction ws arbitrary: s) (auto simp: fold_minis_def bind_o_eq_Ok_iff)

lemma read_block_counted:
  assumes "\<And>m w s s'. mini m w s = Ok s' \<Longrightarrow> counted s' = counted s" and "read_block conv mini mb s = Ok s'"
  shows "counted s' = counted s"
proof -
  obtain prev left out cur where s: "s = (prev, left, out, cur)" by (cases s)
  with assms(2) obtain m ws cur2 where "fold_minis (\<lambda>s w. mini (conv m) w s) (prev, left, out, cur2) ws = Ok s'"
    by (auto simp: read_block_def bind_o_eq_Ok_iff split: if_splits prod.split_asm)
  from fold_minis_counted [OF assms(1) this] show ?thesis by (simp add: s)
qed

lemma read_blocks_counted:
  assumes "\<And>s s'. block s = Ok s' \<Longrightarrow> counted s' = counted s"
  shows "read_blocks block s = Ok s' \<Longrightarrow> counted s' = counted s"
proof (induction "remaining (state_cursor s)" arbitrary: s rule: less_induct)
  case less
  obtain prev left out cur where s: "s = (prev, left, out, cur)" by (cases s)
  show ?case
  proof (cases "left = 0")
    case True
    with less.prems show ?thesis unfolding s by (subst (asm) read_blocks.simps) simp
  next
    case False
    with less.prems obtain t where t: "block s = Ok t" "remaining (state_cursor t) < remaining (state_cursor s)"
      "read_blocks block t = Ok s'"
      unfolding s by (subst (asm) read_blocks.simps) (auto simp: bind_o_eq_Ok_iff split: if_splits prod.split_asm)
    from less.hyps [OF t(2,3)] assms [OF t(1)] show ?thesis by simp
  qed
qed

lemma decode_delta_i32_from_length:
  assumes "decode_delta_i32_from cur = Ok (out, cur')"
  shows "\<exists>block_size c1 mb c2 n c3. read_uvarint cur = Ok (block_size, c1) \<and> read_uvarint c1 = Ok (mb, c2) \<and>
    read_uvarint c2 = Ok (n, c3) \<and> length out \<le> unat n"
proof -
  from assms obtain block_size c1 mb c2 n c3 first c4 where h: "read_uvarint cur = Ok (block_size, c1)"
    "read_uvarint c1 = Ok (mb, c2)" "read_uvarint c2 = Ok (n, c3)" "read_zigzag_i32 c3 = Ok (first, c4)"
    by (auto simp: decode_delta_i32_from_def bind_o_eq_Ok_iff wire_Ok_iff)
  show ?thesis
  proof (cases "n = 0")
    case True
    with assms h show ?thesis by (auto simp: decode_delta_i32_from_def wire_def)
  next
    case False
    define s where "s = (scast first :: i64, unat n - 1, [first], c4)"
    from assms False h obtain prev left where
      "read_blocks (read_block id (mini_block32 (unat block_size div unat mb)) (unat mb)) s = Ok (prev, left, out, cur')"
      by (auto simp: decode_delta_i32_from_def wire_def Let_def bind_o_eq_Ok_iff s_def split: if_splits)
    from read_blocks_counted [OF read_block_counted [OF mini32_counted] this]
    have "left + length out = unat n - 1 + 1" by (simp add: s_def)
    moreover have "0 < unat n" using False by (simp add: unat_gt_0)
    ultimately have "length out \<le> unat n" by linarith
    with h show ?thesis by blast
  qed
qed

section \<open>The decoders\<close>

lemma bad_headerI:
  assumes "read_uvarint cur = Ok (block_size, c1)" and "read_uvarint c1 = Ok (mb, c2)" and "read_uvarint c2 = Ok (n, c3)"
  shows "\<not> bad_header sz cur \<longleftrightarrow> unat n * sz < 2 ^ 63 \<and> whole_bytes (unat block_size div unat mb)"
  using assms by (auto simp: bad_header_def whole_bytes_def Let_def not_le)

lemma bad_header_mono:
  assumes "\<not> bad_header sz cur" and "sz' \<le> sz"
  shows "\<not> bad_header sz' cur"
proof -
  have "2 ^ 63 \<le> n * sz" if "2 ^ 63 \<le> n * sz'" for n
    using that mult_le_mono2 [OF assms(2), of n] by linarith
  then show ?thesis using assms(1) unfolding bad_header_def Let_def by (auto split: outcome.splits)
qed

lemma returns_decode_i32_from:
  assumes "\<not> bad_header 4 cur"
  shows "returns (decode_delta_i32_from cur)"
proof -
  have loop: "returns (bind_o (reserve_o 4 (unat n)) (\<lambda>_. bind_o (reserve_o 4 mbs) (\<lambda>_.
      bind_o (read_blocks (read_block id (mini_block32 mbs) mb) s) (\<lambda>(prev, left, out, cur). Ok (out, cur)))))"
    if "unat n * 4 < 2 ^ 63" "whole_bytes mbs" for n :: u64 and mbs mb s
  proof -
    have "mbs * 8 < 2 ^ 63" using that(2) by (simp add: whole_bytes_def)
    then show ?thesis using that
      by (auto simp: reserve_o_def intro!: returns_bind returns_read_blocks forward_mini32 returns_mini32)
  qed
  have "returns (if n = 0 then Ok ([], c4) else if mb = 0 then Err e1 else if unat block_size mod unat mb \<noteq> 0 then Err e2
      else bind_o (reserve_o 4 (unat n)) (\<lambda>_. bind_o (reserve_o 4 (unat block_size div unat mb)) (\<lambda>_.
        bind_o (read_blocks (read_block id (mini_block32 (unat block_size div unat mb)) (unat mb)) (scast first, unat n - 1, [first], c4))
          (\<lambda>(prev, left, out, cur). Ok (out, cur)))))"
    if "read_uvarint cur = Ok (block_size, c1)" "read_uvarint c1 = Ok (mb, c2)" "read_uvarint c2 = Ok (n, c3)"
    for block_size mb n :: u64 and c1 c2 c3 c4 first e1 e2
    using loop [of n] bad_headerI [OF that, of 4] assms by simp
  then show ?thesis
    unfolding decode_delta_i32_from_def Let_def
    by (auto simp: wire_Ok_iff intro!: returns_bind [of "wire _ _"] returns_rules)
qed

lemma returns_decode_i64_from:
  assumes "\<not> bad_header 8 cur"
  shows "returns (decode_delta_i64_from cur)"
proof -
  have loop: "returns (bind_o (reserve_o 8 (unat n)) (\<lambda>_. bind_o (reserve_o 4 mbs) (\<lambda>_. bind_o (reserve_o 8 mbs) (\<lambda>_.
      bind_o (read_blocks (read_block scast (mini_block64 mbs) mb) s) (\<lambda>(prev, left, out, cur). Ok (out, cur))))))"
    if "unat n * 8 < 2 ^ 63" "whole_bytes mbs" for n :: u64 and mbs mb s
  proof -
    have "mbs * 8 < 2 ^ 63" using that(2) by (simp add: whole_bytes_def)
    then show ?thesis using that
      by (auto simp: reserve_o_def intro!: returns_bind returns_read_blocks forward_mini64 returns_mini64)
  qed
  have "returns (if n = 0 then Ok ([], c4) else if mb = 0 then Err e1 else if unat block_size mod unat mb \<noteq> 0 then Err e2
      else bind_o (reserve_o 8 (unat n)) (\<lambda>_. bind_o (reserve_o 4 (unat block_size div unat mb)) (\<lambda>_. bind_o (reserve_o 8 (unat block_size div unat mb)) (\<lambda>_.
        bind_o (read_blocks (read_block scast (mini_block64 (unat block_size div unat mb)) (unat mb)) (scast first, unat n - 1, [first], c4))
          (\<lambda>(prev, left, out, cur). Ok (out, cur))))))"
    if "read_uvarint cur = Ok (block_size, c1)" "read_uvarint c1 = Ok (mb, c2)" "read_uvarint c2 = Ok (n, c3)"
    for block_size mb n :: u64 and c1 c2 c3 c4 first e1 e2
    using loop [of n] bad_headerI [OF that, of 8] assms by simp
  then show ?thesis
    unfolding decode_delta_i64_from_def Let_def
    by (auto simp: wire_Ok_iff intro!: returns_bind [of "wire _ _"] returns_rules)
qed

lemma returns_take_values [returns_rules]: "returns (take_values lens cur)"
  by (induction lens arbitrary: cur) (auto intro!: returns_bind returns_rules)

lemma returns_join_values [returns_rules]: "returns (join_values lens prev cur)"
  by (induction lens prev cur rule: join_values.induct) (auto simp: Let_def intro!: returns_bind returns_rules)

lemma lengths_reserved:
  assumes "\<not> bad_header 24 cur" and "decode_delta_i32_from cur = Ok (lengths, cur')"
  shows "reserve_o 24 (length lengths) = (Ok () :: unit codec_result)"
proof -
  from decode_delta_i32_from_length [OF assms(2)] obtain n where "unat (n :: u64) * 24 < 2 ^ 63" "length lengths \<le> unat n"
    using assms(1) by (auto simp: bad_headerI)
  then show ?thesis by (simp add: reserve_o_def)
qed

text \<open>C27. No input makes a delta decoder loop: each block read consumes input.  And unless a stream's header
  announces more values than a vector can hold (4 bytes an \<open>i32\<close>, 8 an \<open>i64\<close>, 24 a byte string), or
  mini-blocks that are no multiple of 8 values or hold \<open>2 ^ 56\<close> of them, the decoder returns: it gives the values
  or an error and does not panic.  The byte-array decoder reads a second stream behind the first, of
  which the same is asked.\<close>

theorem delta_decoders_return:
  "decode_delta_i32 bs \<noteq> Stuck \<and> decode_delta_i64 bs \<noteq> Stuck \<and>
    decode_delta_length_byte_array bs \<noteq> Stuck \<and> decode_delta_byte_array bs \<noteq> Stuck \<and>
   (\<not> bad_header 4 (cursor_new bs) \<longrightarrow> returns (decode_delta_i32 bs)) \<and>
   (\<not> bad_header 8 (cursor_new bs) \<longrightarrow> returns (decode_delta_i64 bs)) \<and>
   (\<not> bad_header 24 (cursor_new bs) \<longrightarrow> returns (decode_delta_length_byte_array bs)) \<and>
   (\<not> bad_header 24 (cursor_new bs) \<and>
      (\<forall>lengths cur. decode_delta_i32_from (cursor_new bs) = Ok (lengths, cur) \<longrightarrow> \<not> bad_header 4 cur) \<longrightarrow>
    returns (decode_delta_byte_array bs))"
proof (intro conjI impI)
  show "decode_delta_i32 bs \<noteq> Stuck" "decode_delta_i64 bs \<noteq> Stuck"
    "decode_delta_length_byte_array bs \<noteq> Stuck" "decode_delta_byte_array bs \<noteq> Stuck"
    by (auto simp: decode_delta_i32_def decode_delta_i64_def decode_delta_length_byte_array_def
        decode_delta_byte_array_def bind_o_eq_Stuck_iff not_stuck)
  show "returns (decode_delta_i32 bs)" if "\<not> bad_header 4 (cursor_new bs)"
    using that by (auto simp: decode_delta_i32_def intro!: returns_bind returns_decode_i32_from)
  show "returns (decode_delta_i64 bs)" if "\<not> bad_header 8 (cursor_new bs)"
    using that by (auto simp: decode_delta_i64_def intro!: returns_bind returns_decode_i64_from)
  show "returns (decode_delta_length_byte_array bs)" if "\<not> bad_header 24 (cursor_new bs)"
    using bad_header_mono [OF that, of 4] lengths_reserved [OF that]
    by (auto simp: decode_delta_length_byte_array_def intro!: returns_bind [of "decode_delta_i32_from _"] returns_decode_i32_from returns_rules)
  show "returns (decode_delta_byte_array bs)"
    if "\<not> bad_header 24 (cursor_new bs) \<and>
      (\<forall>lengths cur. decode_delta_i32_from (cursor_new bs) = Ok (lengths, cur) \<longrightarrow> \<not> bad_header 4 cur)"
    using that bad_header_mono [OF conjunct1 [OF that], of 4] lengths_reserved [OF conjunct1 [OF that]]
    by (auto simp: decode_delta_byte_array_def intro!: returns_bind [of "decode_delta_i32_from _"] returns_decode_i32_from returns_rules)
qed

text \<open>The bound on the count is sharp: this header announces \<open>2 ^ 64 - 1\<close> values.\<close>

theorem decode_delta_oversized_count_panics:
  "decode_delta_i32 ([8, 1] @ replicate 9 0xFF @ [1, 0]) = Panic ''capacity overflow''"
proof -
  let ?c = "\<lambda>p. \<lparr>buf = [8, 1] @ replicate 9 0xFF @ [1, 0], pos = p\<rparr>"
  have "wire read_uvarint (?c 0) = Ok (8, ?c 1)" "wire read_uvarint (?c 1) = Ok (1, ?c 2)"
    "wire read_uvarint (?c 2) = Ok (- 1, ?c 12)" "wire read_zigzag_i32 (?c 12) = Ok (0, ?c 13)"
    by code_simp+
  moreover have "unat (- 1 :: u64) = 2 ^ 64 - 1"
    by (simp add: unsigned_minus_1_eq_mask mask_eq_exp_minus_1)
  ultimately show ?thesis
    by (simp add: decode_delta_i32_def decode_delta_i32_from_def cursor_new_def Let_def reserve_o_def)
qed

text \<open>The bytes of two byte strings with a shared prefix, whose headers are good.\<close>

lemma delta_decoders_return_witness:
  "returns (decode_delta_byte_array ([8, 1, 2, 0, 4, 0] @ [8, 1, 2, 4, 2, 0] @ [7, 8, 4, 5, 6]))"
proof -
  let ?s = "[8, 1, 2, 0, 4, 0] :: bytes" and ?t = "[8, 1, 2, 4, 2, 0, 7, 8, 4, 5, 6] :: bytes"
  let ?bs = "?s @ ?t" and ?blocks = "[(2, [0], [[]])] :: delta_block list"
  have stream: "delta_stream (write_zigzag_i32 []) 8 1 2 0 ?blocks = ?s"
    by code_simp
  have ok: "delta_stream_ok 32 8 1 2 ?blocks"
    by (simp add: delta_stream_ok_def div_ceil_def)
  have c: "cursor_new ?bs = \<lparr>buf = ?bs, pos = 0\<rparr>" by (simp add: cursor_new_def)
  have first: "decode_delta_i32_from (cursor_new ?bs)
      = Ok (delta_values 8 2 0 ?blocks, \<lparr>buf = ?bs, pos = 6\<rparr>)"
    using decode_delta_i32_from_stream [OF ok, of "cursor_new ?bs" 0 ?t]
    unfolding stream by (simp add: rest_def cursor_new_def adv_def)
  have h: "read_uvarint \<lparr>buf = ?bs, pos = 0\<rparr> = Ok (8, \<lparr>buf = ?bs, pos = 1\<rparr>)"
    "read_uvarint \<lparr>buf = ?bs, pos = 1\<rparr> = Ok (1, \<lparr>buf = ?bs, pos = 2\<rparr>)"
    "read_uvarint \<lparr>buf = ?bs, pos = 2\<rparr> = Ok (2, \<lparr>buf = ?bs, pos = 3\<rparr>)"
    "read_uvarint \<lparr>buf = ?bs, pos = 6\<rparr> = Ok (8, \<lparr>buf = ?bs, pos = 7\<rparr>)"
    "read_uvarint \<lparr>buf = ?bs, pos = 7\<rparr> = Ok (1, \<lparr>buf = ?bs, pos = 8\<rparr>)"
    "read_uvarint \<lparr>buf = ?bs, pos = 8\<rparr> = Ok (2, \<lparr>buf = ?bs, pos = 9\<rparr>)"
    by code_simp+
  have "\<not> bad_header 24 (cursor_new ?bs)" "\<not> bad_header 4 \<lparr>buf = ?bs, pos = 6\<rparr>"
    unfolding c using bad_headerI [OF h(1-3)] bad_headerI [OF h(4-6)] by (simp_all add: whole_bytes_def)
  with first delta_decoders_return [of ?bs] show ?thesis by simp
qed

end
