(* ===== verification/ErrorText.thy ===== *)
theory ErrorText
  imports CodecBase
begin

text \<open>
  The text of errors: decimal and hexadecimal numbers as \<open>format!\<close> writes them, and the \<open>Display\<close> of
  \<open>FormatError\<close> in \<open>ematix-parquet-format/src/error.rs\<close>.
\<close>

fun decimal :: "nat \<Rightarrow> string" where
  "decimal n = (if n < 10 then [char_of (48 + n)] else decimal (n div 10) @ [char_of (48 + n mod 10)])"

declare decimal.simps [simp del]

definition decimal_signed :: "'w::len word \<Rightarrow> string" where
  "decimal_signed w = (if sint w < 0 then ''-'' @ decimal (nat (- sint w)) else decimal (nat (sint w)))"

definition hex_digit :: "nat \<Rightarrow> string" where
  "hex_digit d = [if d < 10 then char_of (48 + d) else char_of (87 + d)]"

text \<open>\<open>\{b:#x\}\<close>: no leading zero.\<close>

definition hex_byte :: "u8 \<Rightarrow> string" where
  "hex_byte b = ''0x'' @ (if unat b < 16 then [] else hex_digit (unat b div 16)) @ hex_digit (unat b mod 16)"

fun field_type_name :: "field_type \<Rightarrow> string" where
  "field_type_name FT_BoolTrue = ''BoolTrue''"
| "field_type_name FT_BoolFalse = ''BoolFalse''"
| "field_type_name FT_Byte = ''Byte''"
| "field_type_name FT_I16 = ''I16''"
| "field_type_name FT_I32 = ''I32''"
| "field_type_name FT_I64 = ''I64''"
| "field_type_name FT_Double = ''Double''"
| "field_type_name FT_Binary = ''Binary''"
| "field_type_name FT_List = ''List''"
| "field_type_name FT_Set = ''Set''"
| "field_type_name FT_Map = ''Map''"
| "field_type_name FT_Struct = ''Struct''"

fun format_error_text :: "format_error \<Rightarrow> string" where
  "format_error_text (UnexpectedEof needed left) =
     ''unexpected EOF: needed '' @ decimal needed @ '' bytes, '' @ decimal left @ '' remaining''"
| "format_error_text VarintOverflow = ''varint exceeded 10 continuation bytes''"
| "format_error_text (InvalidEnumValue type_name v) =
     ''invalid '' @ type_name @ '' discriminant: '' @ decimal_signed v"
| "format_error_text (InvalidFieldType b) = ''invalid compact field type nibble: '' @ hex_byte b"
| "format_error_text (UnknownStructField struct_name field_id) =
     struct_name @ '': unknown field id '' @ decimal_signed field_id"
| "format_error_text (MissingRequiredField struct_name field_id) =
     struct_name @ '': required field id '' @ decimal_signed field_id @ '' missing''"
| "format_error_text (UnexpectedFieldType struct_name field_id) =
     struct_name @ '': unexpected wire type for field id '' @ decimal_signed field_id"
| "format_error_text (UnexpectedListElementType expected actual) =
     ''list element type: expected '' @ field_type_name expected @ '', got '' @ field_type_name actual"
| "format_error_text (EmptyUnion union_name) = ''union '' @ union_name @ '' had no variant set''"
| "format_error_text (InvalidBoolByte b) = ''invalid list<bool> element byte '' @ hex_byte b"

end
