(* ===== verification/LeBytes.thy ===== *)
theory LeBytes
  imports ErrorText
begin

text \<open>
  Little-endian words (\<open>to_le_bytes\<close>, \<open>from_le_bytes\<close> of the standard library) and vector access by
  index, with the panic out of range.
\<close>

definition to_le_bytes :: "'w::len word \<Rightarrow> bytes" where
  "to_le_bytes w = map (\<lambda>b. ucast (drop_bit (8 * b) w)) [0..<LENGTH('w) div 8]"

fun from_le_bytes :: "bytes \<Rightarrow> 'w::len word" where
  "from_le_bytes [] = 0"
| "from_le_bytes (b # bs) = ucast b OR push_bit 8 (from_le_bytes bs)"

lemma length_to_le_bytes [simp]: "length (to_le_bytes (w :: 'w::len word)) = LENGTH('w) div 8"
  by (simp add: to_le_bytes_def)

lemma bit_from_le_bytes: "bit (from_le_bytes bs :: 'w::len word) n \<longleftrightarrow> n < LENGTH('w) \<and> stream_bit bs n"
proof (induction bs arbitrary: n)
  case (Cons b bs)
  show ?case
  proof (cases "n < 8")
    case True
    then show ?thesis by (auto simp: bit_simps stream_bit_def)
  next
    case False
    then obtain m where m: "n = m + 8" by (metis add.commute le_Suc_ex linorder_not_less)
    have "\<not> bit b n" using False bit_imp_le_length [of b n] by auto
    moreover have "(m + 8) div 8 = Suc (m div 8)" by simp
    ultimately show ?thesis by (auto simp: m bit_simps stream_bit_def Cons)
  qed
qed (simp add: stream_bit_def)

lemma from_le_bytes_field: "(from_le_bytes bs :: 'w::len word) = field bs 0 (8 * length bs)"
  by (rule field_eqI [symmetric]) (auto simp: bit_from_le_bytes stream_bit_def)

lemma stream_bit_to_le_bytes:
  "n < 8 * (LENGTH('w) div 8) \<Longrightarrow> stream_bit (to_le_bytes (w :: 'w::len word)) n \<longleftrightarrow> bit w n"
  using div_mult_mod_eq [of n 8]
  by (auto simp: stream_bit_def to_le_bytes_def bit_simps less_mult_imp_div_less mult.commute)

lemma from_to_le_bytes: "8 dvd LENGTH('w) \<Longrightarrow> from_le_bytes (to_le_bytes w) = (w :: 'w::len word)"
  by (rule bit_word_eqI) (simp add: bit_from_le_bytes stream_bit_to_le_bytes)

lemma from_to_le_bytes_sizes [simp]:
  "from_le_bytes (to_le_bytes (w :: 32 word)) = w"
  "from_le_bytes (to_le_bytes (v :: 64 word)) = v"
  by (simp_all add: from_to_le_bytes)

lemma to_from_le_bytes:
  assumes "8 * length bs = LENGTH('w)"
  shows "to_le_bytes (from_le_bytes bs :: 'w::len word) = bs"
proof (rule nth_equalityI)
  have len: "LENGTH('w) div 8 = length bs" using assms by linarith
  fix i assume "i < length (to_le_bytes (from_le_bytes bs :: 'w word))"
  then have i: "i < length bs" using assms by simp
  have "to_le_bytes (from_le_bytes bs :: 'w word) ! i = ucast (drop_bit (8 * i) (from_le_bytes bs :: 'w word))"
    using i len by (simp add: to_le_bytes_def)
  also have "\<dots> = bs ! i"
  proof (rule bit_word_eqI)
    fix n assume "n < LENGTH(8)"
    then have n: "n < 8" by simp
    then have "8 * i + n < LENGTH('w)" using i assms by linarith
    then show "bit (ucast (drop_bit (8 * i) (from_le_bytes bs :: 'w word)) :: 8 word) n \<longleftrightarrow> bit (bs ! i) n"
      using n i by (simp add: bit_simps bit_from_le_bytes stream_bit_def)
  qed
  finally show "to_le_bytes (from_le_bytes bs :: 'w word) ! i = bs ! i" .
qed (use assms in simp)

section \<open>Indexing\<close>

definition index_o :: "'a list \<Rightarrow> nat \<Rightarrow> ('e, 'a) outcome" where
  "index_o xs i = (if i < length xs then Ok (xs ! i) else Panic ''index out of bounds'')"

definition set_o :: "'a list \<Rightarrow> nat \<Rightarrow> 'a \<Rightarrow> ('e, 'a list) outcome" where
  "set_o xs i x = (if i < length xs then Ok (xs[i := x]) else Panic ''index out of bounds'')"

lemma index_o_Ok [simp]: "i < length xs \<Longrightarrow> index_o xs i = Ok (xs ! i)"
  by (simp add: index_o_def)

lemma set_o_Ok [simp]: "i < length xs \<Longrightarrow> set_o xs i x = Ok (xs[i := x])"
  by (simp add: set_o_def)

text \<open>Writes in range that agree where they meet all take effect.\<close>

lemma fold_set_o:
  assumes "\<forall>(i, x) \<in> set ups. i < length xs" and "\<forall>(i, x) \<in> set ups. \<forall>(j, y) \<in> set ups. i = j \<longrightarrow> x = y"
  shows "\<exists>ys. (fold_o (\<lambda>xs (i, x). set_o xs i x) xs ups :: ('e, 'a list) outcome) = Ok ys \<and> length ys = length xs \<and>
    (\<forall>(i, x) \<in> set ups. ys ! i = x) \<and> (\<forall>i < length xs. i \<notin> fst ` set ups \<longrightarrow> ys ! i = xs ! i)"
  using assms
proof (induction ups arbitrary: xs)
  case (Cons u ups)
  obtain i x where u: "u = (i, x)" by (cases u)
  from Cons.prems have i: "i < length xs" and same: "\<forall>(j, y) \<in> set ups. i = j \<longrightarrow> x = y" by (auto simp: u)
  from Cons.prems have "\<forall>(j, y) \<in> set ups. j < length (xs[i := x])"
    "\<forall>(i, x) \<in> set ups. \<forall>(j, y) \<in> set ups. i = j \<longrightarrow> x = y" by (auto simp: u)
  from Cons.IH [OF this, unfolded length_list_update] obtain ys where
      ys: "(fold_o (\<lambda>xs (i, x). set_o xs i x) (xs[i := x]) ups :: ('e, 'a list) outcome) = Ok ys"
      "length ys = length xs" "\<forall>(j, y) \<in> set ups. ys ! j = y"
      "\<forall>j < length xs. j \<notin> fst ` set ups \<longrightarrow> ys ! j = xs[i := x] ! j" by blast
  have "ys ! i = x"
  proof (cases "i \<in> fst ` set ups")
    case True
    then obtain y where "(i, y) \<in> set ups" by auto
    with same ys(3) show ?thesis by fastforce
  next
    case False
    then show ?thesis using ys(4) i by simp
  qed
  moreover have "ys ! j = xs ! j" if "j < length xs" "j \<notin> fst ` set (u # ups)" for j
    using ys(4) that by (auto simp: u)
  ultimately show ?case using ys(1-3) i by (auto simp: u)
qed simp

lemma fold_o_concat: "fold_o f s (concat xss) = fold_o (fold_o f) s xss"
  by (induction xss arbitrary: s) (simp_all add: fold_o_append)

lemma fold_o_map: "fold_o f s (map g xs) = fold_o (\<lambda>s x. f s (g x)) s xs"
  by (induction xs arbitrary: s) simp_all

end
