(* ===== verification/Levels.thy ===== *)
theory Levels
  imports LeBytes RleRoundtrip MetadataTypes
begin

text \<open>
  \<open>ematix-parquet-codec/src/levels.rs\<close>: the repetition and definition levels of a v1 data page and the
  maximal levels of a leaf of the schema.  A Rust slice \<open>&body[off..]\<close> is a suffix of the list; the
  child counters of the schema walk are the code's \<open>i32\<close>, its levels the code's \<open>u16\<close>, with the overflow
  traps of both.
\<close>

section \<open>Level streams\<close>

definition bit_width_for :: "u16 \<Rightarrow> nat" where
  "bit_width_for max_level =
     (if max_level = 0 then 0 else 32 - leading_zeros_u32 (ucast max_level))"

definition decode_levels :: "bytes \<Rightarrow> nat \<Rightarrow> nat \<Rightarrow> (u16 list \<times> nat) codec_result" where
  "decode_levels body bit_width num_values =
     (if bit_width = 0 then Ok (replicate num_values 0, 0)
      else if length body < 4
        then Err (Decompress (''level stream: need 4-byte length prefix, have '' @ decimal (length body)))
      else let len = unat (from_le_bytes (take 4 body) :: u32); end = 4 + len
        in if length body < end
           then Err (Decompress (''level stream: prefix says '' @ decimal len @ '' body bytes, have '' @
                  decimal (length body - 4)))
           else bind_o (decode_rle_bit_packed (take (end - 4) (drop 4 body)) bit_width num_values) (\<lambda>levels.
             Ok (map ucast levels, end)))"

definition parse_v1_data_page_body ::
  "bytes \<Rightarrow> u16 \<Rightarrow> u16 \<Rightarrow> nat \<Rightarrow> (u16 list \<times> u16 list \<times> bytes) codec_result" where
  "parse_v1_data_page_body body max_rep_level max_def_level num_values =
     (let rep_bw = bit_width_for max_rep_level; def_bw = bit_width_for max_def_level
      in bind_o (decode_levels body rep_bw num_values) (\<lambda>(rep, rep_consumed).
         bind_o (decode_levels (drop rep_consumed body) def_bw num_values) (\<lambda>(def, def_consumed).
         Ok (rep, def, drop (rep_consumed + def_consumed) body))))"

definition skip_level_prefix :: "bytes \<Rightarrow> nat \<Rightarrow> nat \<Rightarrow> nat codec_result" where
  "skip_level_prefix body off bw =
     (if bw = 0 then Ok off
      else if length body < off + 4
        then Err (Decompress (''level stream: need 4-byte length prefix at offset '' @ decimal off @
               '', body.len()='' @ decimal (length body)))
      else let len = unat (from_le_bytes (take 4 (drop off body)) :: u32); end = off + 4 + len
        in if length body < end
           then Err (Decompress (''level stream: prefix says '' @ decimal len @ '' body bytes at offset '' @
                  decimal off @ '', body.len()='' @ decimal (length body)))
           else Ok end)"

definition skip_v1_level_prefixes :: "bytes \<Rightarrow> u16 \<Rightarrow> u16 \<Rightarrow> nat codec_result" where
  "skip_v1_level_prefixes body max_rep_level max_def_level =
     fold_o (skip_level_prefix body) 0 [bit_width_for max_rep_level, bit_width_for max_def_level]"

section \<open>Maximal levels of a leaf\<close>

definition add1_u16 :: "u16 \<Rightarrow> ('e, u16) outcome" where
  "add1_u16 x = (if x = - 1 then Panic ''attempt to add with overflow'' else Ok (x + 1))"

definition sub1_i32 :: "i32 \<Rightarrow> ('e, i32) outcome" where
  "sub1_i32 x = (if sint x = - (2 ^ 31) then Panic ''attempt to subtract with overflow'' else Ok (x - 1))"

text \<open>A stack frame: maximal repetition and definition level, children still to come.  The head of the
  list is the top of the stack.\<close>

type_synonym frame = "u16 \<times> u16 \<times> i32"

definition node_levels :: "u16 \<Rightarrow> u16 \<Rightarrow> schema_element \<Rightarrow> (u16 \<times> u16) codec_result" where
  "node_levels parent_rep parent_def el =
     (case se_repetition_type el of
        Some FR_Required \<Rightarrow> Ok (parent_rep, parent_def)
      | Some FR_Optional \<Rightarrow> bind_o (add1_u16 parent_def) (\<lambda>d. Ok (parent_rep, d))
      | Some FR_Repeated \<Rightarrow> bind_o (add1_u16 parent_rep) (\<lambda>r. bind_o (add1_u16 parent_def) (\<lambda>d. Ok (r, d)))
      | None \<Rightarrow> Ok (parent_rep, parent_def))"

text \<open>\<open>while let Some(&(_, _, remaining)) = stack.last()\<close>: finished groups are popped, each counted
  as a child of the one below.\<close>

fun unwind :: "frame list \<Rightarrow> frame list codec_result" where
  "unwind ((r, d, n) # (r', d', n') # stack) =
     (if sint n \<le> 0 then bind_o (sub1_i32 n') (\<lambda>n''. unwind ((r', d', n'') # stack))
      else Ok ((r, d, n) # (r', d', n') # stack))"
| "unwind stack = Ok stack"

definition count_child :: "frame list \<Rightarrow> frame list codec_result" where
  "count_child stack =
     (case stack of [] \<Rightarrow> Ok [] | (r, d, n) # st \<Rightarrow> bind_o (sub1_i32 n) (\<lambda>n'. Ok ((r, d, n') # st)))"

fun levels_walk :: "nat \<Rightarrow> frame list \<Rightarrow> nat \<Rightarrow> schema_element list \<Rightarrow> (u16 \<times> u16) codec_result" where
  "levels_walk leaf_index stack leaf_count [] =
     Err (InvalidInput (''leaf index '' @ decimal leaf_index @ '' out of range (schema has '' @
       decimal leaf_count @ '' leaves)''))"
| "levels_walk leaf_index stack leaf_count (el # els) =
     (case stack of
        [] \<Rightarrow> Err (InvalidInput ''schema tree underflow'')
      | (parent_rep, parent_def, _) # _ \<Rightarrow>
          bind_o (node_levels parent_rep parent_def el) (\<lambda>(this_rep, this_def).
          let n_children = (case se_num_children el of None \<Rightarrow> 0 | Some n \<Rightarrow> n)
          in if n_children = 0 then
               if leaf_count = leaf_index then Ok (this_rep, this_def)
               else bind_o (count_child stack) (\<lambda>stack. bind_o (unwind stack) (\<lambda>stack.
                      levels_walk leaf_index stack (leaf_count + 1) els))
             else levels_walk leaf_index ((this_rep, this_def, n_children) # stack) leaf_count els))"

definition compute_max_levels :: "schema_element list \<Rightarrow> nat \<Rightarrow> (u16 \<times> u16) codec_result" where
  "compute_max_levels schema leaf_index =
     (case schema of
        [] \<Rightarrow> Err (InvalidInput ''empty schema'')
      | root # els \<Rightarrow>
          let root_children = (case se_num_children root of None \<Rightarrow> 0 | Some n \<Rightarrow> n)
          in if sint root_children \<le> 0 then Err (InvalidInput ''schema root has no children'')
             else levels_walk leaf_index [(0, 0, root_children)] 0 els)"

end
