(* ===== verification/SchemaLevels.thy ===== *)
theory SchemaLevels
  imports LevelsProofs
begin

text \<open>
  \<open>compute_max_levels\<close> against the schema as a tree.  The specification, \<open>leaf_levels\<close>, recurses over
  the tree; the code walks the depth-first list with a stack of open groups.  \<open>walk_tree\<close> relates one
  subtree of the list to one recursive call, for any stack.
\<close>

section \<open>Schema trees\<close>

datatype schema_tree = Schema_Node schema_element "schema_tree list"

fun flatten :: "schema_tree \<Rightarrow> schema_element list" where
  "flatten (Schema_Node el ts) = el # concat (map flatten ts)"

text \<open>The child counts of the elements match the tree.\<close>

fun tree_ok :: "schema_tree \<Rightarrow> bool" where
  "tree_ok (Schema_Node el ts) \<longleftrightarrow>
     (if ts = [] then se_num_children el = None \<or> se_num_children el = Some 0
      else se_num_children el = Some (of_nat (length ts)) \<and> length ts < 2 ^ 31) \<and> list_all tree_ok ts"

fun tree_depth :: "schema_tree \<Rightarrow> nat" where
  "tree_depth (Schema_Node el ts) = Suc (foldr max (map tree_depth ts) 0)"

definition rep_step :: "schema_element \<Rightarrow> nat" where
  "rep_step el = (if se_repetition_type el = Some FR_Repeated then 1 else 0)"

definition def_step :: "schema_element \<Rightarrow> nat" where
  "def_step el = (if se_repetition_type el \<in> {Some FR_Optional, Some FR_Repeated} then 1 else 0)"

text \<open>The levels of the leaves, left to right: one repetition level per repeated field on the path, one
  definition level per optional or repeated field.\<close>

fun leaf_levels :: "nat \<Rightarrow> nat \<Rightarrow> schema_tree \<Rightarrow> (nat \<times> nat) list" where
  "leaf_levels r d (Schema_Node el ts) =
     (let r' = r + rep_step el; d' = d + def_step el
      in if ts = [] then [(r', d')] else concat (map (leaf_levels r' d') ts))"

definition levels16 :: "nat \<times> nat \<Rightarrow> u16 \<times> u16" where
  "levels16 p = (of_nat (fst p), of_nat (snd p))"

section \<open>Counters\<close>

lemma sint_of_nat_i32: "m < 2 ^ 31 \<Longrightarrow> sint (of_nat m :: i32) = int m"
  by (simp add: signed_of_nat signed_take_bit_int_eq_self)

lemma sub1_i32_of_nat: "0 < m \<Longrightarrow> m < 2 ^ 31 \<Longrightarrow> (sub1_i32 (of_nat m) :: ('e, i32) outcome) = Ok (of_nat (m - 1))"
  by (simp add: sub1_i32_def sint_of_nat_i32)

lemma of_nat_i32_eq_0: "m < 2 ^ 31 \<Longrightarrow> (of_nat m :: i32) = 0 \<longleftrightarrow> m = 0"
  using sint_of_nat_i32 [of m] by auto

lemma add1_u16_of_nat: "m < 65535 \<Longrightarrow> (add1_u16 (of_nat m) :: ('e, u16) outcome) = Ok (of_nat (m + 1))"
proof -
  assume m: "m < 65535"
  then have "unat (of_nat m :: u16) = m" by (simp add: unsigned_of_nat take_bit_nat_eq_self)
  moreover have "unat (- 1 :: u16) = 65535" by (simp add: unsigned_minus_1_eq_mask mask_eq_exp_minus_1)
  ultimately have "(of_nat m :: u16) \<noteq> - 1" using m by (metis less_irrefl)
  then show ?thesis by (simp add: add1_u16_def add.commute)
qed

lemma node_levels_of_nat:
  assumes "r < 65535" "d < 65535"
  shows "node_levels (of_nat r) (of_nat d) el = Ok (of_nat (r + rep_step el), of_nat (d + def_step el))"
proof (cases "se_repetition_type el")
  case (Some t)
  then show ?thesis
    using assms by (cases t) (simp_all add: node_levels_def rep_step_def def_step_def add1_u16_of_nat del: of_nat_Suc of_nat_add)
qed (simp add: node_levels_def rep_step_def def_step_def)

lemma depth_child: "t \<in> set ts \<Longrightarrow> tree_depth t \<le> foldr max (map tree_depth ts) 0"
  by (induction ts) auto

lemma unwind_open: "0 < m \<Longrightarrow> m < 2 ^ 31 \<Longrightarrow> unwind ((r, d, of_nat m) # st) = Ok ((r, d, of_nat m) # st)"
  by (cases st) (auto simp: sint_of_nat_i32)

lemma unwind_done: "unwind ((r, d, 0) # f # st) = bind_o (count_child (f # st)) unwind"
  by (cases f) (simp add: count_child_def bind_o_assoc)

section \<open>The walk\<close>

text \<open>What the walk does with the leaves \<open>ls\<close> of a part of the list: it stops in them or goes on behind.\<close>

definition walk_leaves ::
  "nat \<Rightarrow> nat \<Rightarrow> (nat \<times> nat) list \<Rightarrow> (nat \<Rightarrow> (u16 \<times> u16) codec_result) \<Rightarrow> (u16 \<times> u16) codec_result" where
  "walk_leaves idx cnt ls k = (if idx - cnt < length ls then Ok (levels16 (ls ! (idx - cnt))) else k (cnt + length ls))"

lemma walk_leaves_append:
  assumes "cnt \<le> idx" and "\<And>c. c \<le> idx \<Longrightarrow> k c = walk_leaves idx c ms k'"
  shows "walk_leaves idx cnt ls k = walk_leaves idx cnt (ls @ ms) k'"
proof (cases "idx - cnt < length ls")
  case False
  then have "cnt + length ls \<le> idx" using assms(1) by simp
  with False assms(1) show ?thesis
    by (simp add: walk_leaves_def assms(2) nth_append diff_diff_left add.assoc less_diff_conv2)
qed (simp add: walk_leaves_def nth_append)

lemma walk_forest:
  assumes "\<And>t n st cnt els. t \<in> set ts \<Longrightarrow> cnt \<le> idx \<Longrightarrow>
      levels_walk idx ((r, d, n) # st) cnt (flatten t @ els) = walk_leaves idx cnt (ls t)
        (\<lambda>cnt. bind_o (count_child ((r, d, n) # st)) (\<lambda>s. bind_o (unwind s) (\<lambda>s. levels_walk idx s cnt els)))"
    and "ts \<noteq> []" and "length ts \<le> m" and "m < 2 ^ 31" and "cnt \<le> idx"
  shows "levels_walk idx ((r, d, of_nat m) # st) cnt (concat (map flatten ts) @ els) =
    walk_leaves idx cnt (concat (map ls ts))
      (\<lambda>cnt. bind_o (unwind ((r, d, of_nat (m - length ts)) # st)) (\<lambda>s. levels_walk idx s cnt els))"
  using assms
proof (induction ts arbitrary: m cnt)
  case (Cons t ts)
  have m: "0 < m" using Cons.prems(3) by simp
  let ?els = "concat (map flatten ts) @ els"
  have "levels_walk idx ((r, d, of_nat m) # st) cnt (flatten t @ ?els) = walk_leaves idx cnt (ls t)
      (\<lambda>cnt. bind_o (unwind ((r, d, of_nat (m - 1)) # st)) (\<lambda>s. levels_walk idx s cnt ?els))"
    using Cons.prems(1) [of t cnt "of_nat m" st ?els] Cons.prems(5) m Cons.prems(4)
    by (simp add: count_child_def sub1_i32_of_nat)
  also have "\<dots> = walk_leaves idx cnt (concat (map ls (t # ts)))
      (\<lambda>cnt. bind_o (unwind ((r, d, of_nat (m - length (t # ts))) # st)) (\<lambda>s. levels_walk idx s cnt els))"
  proof (cases "ts = []")
    case False
    have len: "length ts \<le> m - 1" "m - 1 < 2 ^ 31" "0 < m - 1"
      using Cons.prems(3,4) False by (cases ts; simp)+
    have eq: "m - 1 - length ts = m - length (t # ts)" by simp
    have "bind_o (unwind ((r, d, of_nat (m - 1)) # st)) (\<lambda>s. levels_walk idx s c ?els) =
        walk_leaves idx c (concat (map ls ts))
          (\<lambda>cnt. bind_o (unwind ((r, d, of_nat (m - length (t # ts))) # st)) (\<lambda>s. levels_walk idx s cnt els))"
      if "c \<le> idx" for c
      using Cons.IH [OF Cons.prems(1) False len(1,2) that] unfolding unwind_open [OF len(3,2)] eq by simp
    then show ?thesis using Cons.prems(5) by (simp add: walk_leaves_append del: of_nat_diff)
  qed simp
  finally show ?case by simp
qed simp

lemma walk_tree:
  assumes "tree_ok t" and "r + tree_depth t < 65536" and "d + tree_depth t < 65536" and "cnt \<le> idx"
  shows "levels_walk idx ((of_nat r, of_nat d, n) # st) cnt (flatten t @ els) =
    walk_leaves idx cnt (leaf_levels r d t)
      (\<lambda>cnt. bind_o (count_child ((of_nat r, of_nat d, n) # st)) (\<lambda>s. bind_o (unwind s) (\<lambda>s. levels_walk idx s cnt els)))"
  using assms
proof (induction t arbitrary: r d cnt n st els)
  case (Schema_Node el ts)
  let ?r = "r + rep_step el" and ?d = "d + def_step el"
  have "r < 65535" "d < 65535" using Schema_Node.prems(2,3) by simp_all
  note nl = node_levels_of_nat [OF this, of el]
  show ?case
  proof (cases "ts = []")
    case True
    then have "(case se_num_children el of None \<Rightarrow> 0 | Some n \<Rightarrow> n) = 0" using Schema_Node.prems(1) by auto
    then show ?thesis
      using True Schema_Node.prems(4) nl by (auto simp: walk_leaves_def levels16_def)
  next
    case False
    then have len: "length ts < 2 ^ 31" "se_num_children el = Some (of_nat (length ts))" "\<forall>t \<in> set ts. tree_ok t"
      using Schema_Node.prems(1) by (simp_all add: list_all_iff)
    then have ne: "(of_nat (length ts) :: i32) \<noteq> 0" using False of_nat_i32_eq_0 by auto
    have fit: "?r + tree_depth t < 65536" "?d + tree_depth t < 65536" if "t \<in> set ts" for t
      using depth_child [OF that] Schema_Node.prems(2,3) by (auto simp: rep_step_def def_step_def)
    have "levels_walk idx ((of_nat r, of_nat d, n) # st) cnt (flatten (Schema_Node el ts) @ els) =
        levels_walk idx ((of_nat ?r, of_nat ?d, of_nat (length ts)) # (of_nat r, of_nat d, n) # st) cnt (concat (map flatten ts) @ els)"
      using nl len(2) ne by (simp del: of_nat_add of_nat_eq_0_iff)
    also have "\<dots> = walk_leaves idx cnt (concat (map (leaf_levels ?r ?d) ts))
        (\<lambda>cnt. bind_o (unwind ((of_nat ?r, of_nat ?d, of_nat (length ts - length ts)) # (of_nat r, of_nat d, n) # st))
          (\<lambda>s. levels_walk idx s cnt els))"
      using Schema_Node.IH len fit False Schema_Node.prems(4) by (intro walk_forest) blast+
    finally show ?thesis using False by (simp add: unwind_done count_child_def bind_o_assoc del: of_nat_add)
  qed
qed

text \<open>C30. For every schema tree that is not deeper than the level type counts, the walk over its
  depth-first list returns the levels of the leaf asked for, and an error for an index behind the last
  leaf: it neither panics nor confuses the groups.\<close>

theorem compute_max_levels_tree:
  assumes "tree_ok (Schema_Node root ts)" and "ts \<noteq> []" and "tree_depth (Schema_Node root ts) < 65536"
  shows "compute_max_levels (flatten (Schema_Node root ts)) i =
    (let ls = concat (map (leaf_levels 0 0) ts)
     in if i < length ls then Ok (levels16 (ls ! i))
        else Err (InvalidInput (''leaf index '' @ decimal i @ '' out of range (schema has '' @
          decimal (length ls) @ '' leaves)'')))"
proof -
  have len: "length ts < 2 ^ 31" "se_num_children root = Some (of_nat (length ts))" "\<forall>t \<in> set ts. tree_ok t"
    using assms(1,2) by (simp_all add: list_all_iff)
  have fit: "0 + tree_depth t < 65536" if "t \<in> set ts" for t
    using depth_child [OF that] assms(3) by simp
  have "levels_walk i [(of_nat 0, of_nat 0, of_nat (length ts))] 0 (concat (map flatten ts) @ []) =
      walk_leaves i 0 (concat (map (leaf_levels 0 0) ts))
        (\<lambda>cnt. bind_o (unwind [(of_nat 0, of_nat 0, of_nat (length ts - length ts))]) (\<lambda>s. levels_walk i s cnt []))"
    using walk_tree len fit assms(2) by (intro walk_forest) blast+
  then show ?thesis
    using len assms(2) by (simp add: compute_max_levels_def sint_of_nat_i32 walk_leaves_def Let_def)
qed

text \<open>An optional list of optional integers next to a required column.\<close>

definition sample_node :: "field_repetition_type option \<Rightarrow> i32 option \<Rightarrow> schema_element" where
  "sample_node rep n = \<lparr>se_column_type = None, se_type_length = None, se_repetition_type = rep, se_name = [],
     se_num_children = n, se_converted_type = None, se_scale = None, se_precision = None, se_field_id = None,
     se_logical_type = None\<rparr>"

lemma compute_max_levels_tree_witness:
  "compute_max_levels (flatten (Schema_Node (sample_node None (Some 2))
      [Schema_Node (sample_node (Some FR_Optional) (Some 1))
         [Schema_Node (sample_node (Some FR_Repeated) (Some 1)) [Schema_Node (sample_node (Some FR_Optional) None) []]],
       Schema_Node (sample_node (Some FR_Required) None) []])) 0 = Ok (1, 3)"
  by (subst compute_max_levels_tree)
    (simp_all add: sample_node_def Let_def levels16_def rep_step_def def_step_def)

end
