(* ===== verification/ByteStreamSplit.thy ===== *)
theory ByteStreamSplit
  imports LeBytes
begin

text \<open>
  \<open>ematix-parquet-codec/src/byte_stream_split.rs\<close>.  A float is the word of its bits
  (\<open>f32::to_le_bytes\<close>, \<open>from_le_bytes\<close> move bits only).  The encoder writes byte \<open>p\<close> of value \<open>i\<close> at
  \<open>p * n + i\<close>; the decoder gathers it from there.  Both directions are inverse to each other.
\<close>

section \<open>Decoders\<close>

definition decode_byte_stream_split_f32 :: "bytes \<Rightarrow> nat \<Rightarrow> 32 word list codec_result" where
  "decode_byte_stream_split_f32 bytes num_values =
     bind_o (mul_usize num_values 4) (\<lambda>expected.
     if length bytes \<noteq> expected then Err (UnalignedPlainBuffer 4 (length bytes))
     else mapM_o (\<lambda>i. bind_o (mapM_o (index_o bytes)
            [i, num_values + i, 2 * num_values + i, 3 * num_values + i]) (\<lambda>bs. Ok (from_le_bytes bs)))
          [0..<num_values])"

definition decode_byte_stream_split_f64 :: "bytes \<Rightarrow> nat \<Rightarrow> 64 word list codec_result" where
  "decode_byte_stream_split_f64 bytes num_values =
     bind_o (mul_usize num_values 8) (\<lambda>expected.
     if length bytes \<noteq> expected then Err (UnalignedPlainBuffer 8 (length bytes))
     else mapM_o (\<lambda>i. bind_o (mapM_o (index_o bytes)
            [i, num_values + i, 2 * num_values + i, 3 * num_values + i,
             4 * num_values + i, 5 * num_values + i, 6 * num_values + i, 7 * num_values + i])
            (\<lambda>bs. Ok (from_le_bytes bs)))
          [0..<num_values])"

section \<open>Encoders\<close>

definition encode_byte_stream_split_f32 :: "32 word list \<Rightarrow> bytes codec_result" where
  "encode_byte_stream_split_f32 values =
     (let n = length values
      in bind_o (mul_usize n 4) (\<lambda>len.
         fold_o (\<lambda>out (i, v).
             let b = to_le_bytes v
             in bind_o (set_o out i (b ! 0)) (\<lambda>out.
                bind_o (set_o out (n + i) (b ! 1)) (\<lambda>out.
                bind_o (set_o out (2 * n + i) (b ! 2)) (\<lambda>out.
                set_o out (3 * n + i) (b ! 3)))))
           (replicate len 0) (enumerate 0 values)))"

definition encode_byte_stream_split_f64 :: "64 word list \<Rightarrow> bytes codec_result" where
  "encode_byte_stream_split_f64 values =
     (let n = length values
      in bind_o (mul_usize n 8) (\<lambda>len.
         fold_o (\<lambda>out (i, v).
             let b = to_le_bytes v
             in fold_o (\<lambda>out byte_pos. set_o out (byte_pos * n + i) (b ! byte_pos)) out [0..<8])
           (replicate len 0) (enumerate 0 values)))"

section \<open>Both as one encoding of \<open>w\<close>-byte values\<close>

definition split_updates :: "nat \<Rightarrow> 'w::len word list \<Rightarrow> (nat \<times> u8) list" where
  "split_updates w values =
     concat (map (\<lambda>(i, v). map (\<lambda>p. (p * length values + i, to_le_bytes v ! p)) [0..<w]) (enumerate 0 values))"

definition gather :: "nat \<Rightarrow> nat \<Rightarrow> bytes \<Rightarrow> nat \<Rightarrow> bytes" where
  "gather w n bs i = map (\<lambda>p. bs ! (p * n + i)) [0..<w]"

lemma split_index: "i < n \<Longrightarrow> p < w \<Longrightarrow> p * n + i < w * (n :: nat)"
proof -
  assume "i < n" "p < w"
  then have "p * n + i < Suc p * n" by simp
  also have "\<dots> \<le> w * n" using \<open>p < w\<close> by (intro mult_le_mono1) simp
  finally show ?thesis .
qed

lemma split_index_inj:
  assumes "i < n" "j < n" "p * n + i = q * n + (j :: nat)"
  shows "p = q \<and> i = j"
proof -
  have "(p * n + i) div n = p" "(q * n + j) div n = q" using assms(1,2) by simp_all
  with assms(3) show ?thesis by simp
qed

lemma set_split_updates:
  "(k, x) \<in> set (split_updates w values) \<longleftrightarrow>
     (\<exists>i p. i < length values \<and> p < w \<and> k = p * length values + i \<and> x = to_le_bytes (values ! i) ! p)"
proof
  assume "(k, x) \<in> set (split_updates w values)"
  then show "\<exists>i p. i < length values \<and> p < w \<and> k = p * length values + i \<and> x = to_le_bytes (values ! i) ! p"
    by (auto simp: split_updates_def in_set_enumerate_eq) blast
next
  assume "\<exists>i p. i < length values \<and> p < w \<and> k = p * length values + i \<and> x = to_le_bytes (values ! i) ! p"
  then obtain i p where "i < length values" "p < w" "k = p * length values + i" "x = to_le_bytes (values ! i) ! p" by blast
  moreover from this have "(i, values ! i) \<in> set (enumerate 0 values)" by (simp add: in_set_enumerate_eq)
  ultimately show "(k, x) \<in> set (split_updates w values)"
    by (auto simp: split_updates_def intro!: bexI [of _ "(i, values ! i)"] image_eqI [of _ _ p])
qed

lemma split_updates_write:
  fixes vals :: "'w::len word list"
  assumes "w * length vals = len"
  shows "\<exists>out. (fold_o (\<lambda>xs (i, x). set_o xs i x) (replicate len 0) (split_updates w vals) :: ('e, bytes) outcome) = Ok out \<and>
    length out = len \<and> (\<forall>i < length vals. gather w (length vals) out i = map ((!) (to_le_bytes (vals ! i))) [0..<w])"
proof -
  have "\<forall>(i, x) \<in> set (split_updates w vals). i < length (replicate len (0 :: u8))"
    using assms by (auto simp: set_split_updates split_index)
  moreover have "\<forall>(i, x) \<in> set (split_updates w vals). \<forall>(j, y) \<in> set (split_updates w vals). i = j \<longrightarrow> x = y"
    by (auto simp: set_split_updates dest: split_index_inj)
  ultimately obtain out where out: "(fold_o (\<lambda>xs (i, x). set_o xs i x) (replicate len 0) (split_updates w vals) :: ('e, bytes) outcome) = Ok out"
    "length out = len" "\<forall>(i, x) \<in> set (split_updates w vals). out ! i = x"
    using fold_set_o [of "split_updates w vals" "replicate len 0"] by auto
  have "out ! (p * length vals + i) = to_le_bytes (vals ! i) ! p" if "i < length vals" "p < w" for i p
  proof -
    have "(p * length vals + i, to_le_bytes (vals ! i) ! p) \<in> set (split_updates w vals)"
      using that set_split_updates by blast
    from bspec [OF out(3) this] show ?thesis by simp
  qed
  then show ?thesis using out(1,2) by (auto simp: gather_def)
qed

lemma map_nth_bytes: "LENGTH('w) div 8 = w \<Longrightarrow> map ((!) (to_le_bytes v)) [0..<w] = to_le_bytes (v :: 'w::len word)"
  by (metis length_to_le_bytes map_nth)

lemma upt_4: "[0..<4] = [0, 1, 2, 3]" and upt_8: "[0..<8] = [0, 1, 2, 3, 4, 5, 6, 7]"
  by (simp_all add: upt_rec)

lemma decode_f32_gather:
  assumes "4 * n = length bs" and "length bs < 2 ^ 64"
  shows "decode_byte_stream_split_f32 bs n = Ok (map (\<lambda>i. from_le_bytes (gather 4 n bs i)) [0..<n])"
proof -
  have "mapM_o (\<lambda>i. bind_o (mapM_o (index_o bs) [i, n + i, 2 * n + i, 3 * n + i]) (\<lambda>bs. Ok (from_le_bytes bs)))
      [0..<n] = (Ok (map (\<lambda>i. from_le_bytes (gather 4 n bs i)) [0..<n]) :: 32 word list codec_result)"
    using assms(1) by (intro mapM_o_all_Ok) (simp add: gather_def upt_4)
  then show ?thesis using assms by (simp add: decode_byte_stream_split_f32_def mul_usize_def mult.commute)
qed

lemma decode_f64_gather:
  assumes "8 * n = length bs" and "length bs < 2 ^ 64"
  shows "decode_byte_stream_split_f64 bs n = Ok (map (\<lambda>i. from_le_bytes (gather 8 n bs i)) [0..<n])"
proof -
  have "mapM_o (\<lambda>i. bind_o (mapM_o (index_o bs) [i, n + i, 2 * n + i, 3 * n + i, 4 * n + i, 5 * n + i, 6 * n + i, 7 * n + i])
      (\<lambda>bs. Ok (from_le_bytes bs))) [0..<n] = (Ok (map (\<lambda>i. from_le_bytes (gather 8 n bs i)) [0..<n]) :: 64 word list codec_result)"
    using assms(1) by (intro mapM_o_all_Ok) (simp add: gather_def upt_8)
  then show ?thesis using assms by (simp add: decode_byte_stream_split_f64_def mul_usize_def mult.commute)
qed

lemma encode_f32_updates:
  "4 * length values < 2 ^ 64 \<Longrightarrow> encode_byte_stream_split_f32 values =
     fold_o (\<lambda>xs (i, x). set_o xs i x) (replicate (4 * length values) 0) (split_updates 4 values)"
  unfolding encode_byte_stream_split_f32_def split_updates_def fold_o_concat fold_o_map
  by (simp add: mul_usize_def Let_def upt_4 case_prod_unfold bind_o_Ok_right mult.commute)

lemma encode_f64_updates:
  "8 * length values < 2 ^ 64 \<Longrightarrow> encode_byte_stream_split_f64 values =
     fold_o (\<lambda>xs (i, x). set_o xs i x) (replicate (8 * length values) 0) (split_updates 8 values)"
  unfolding encode_byte_stream_split_f64_def split_updates_def fold_o_concat fold_o_map
  by (simp add: mul_usize_def Let_def fold_o_map case_prod_unfold mult.commute)

text \<open>C31. Encoding never panics while the sizes fit, and decoding the bytes gives back the bit patterns,
  for both widths.\<close>

theorem byte_stream_split_roundtrip:
  assumes "4 * length xs < 2 ^ 64" and "8 * length ys < 2 ^ 64"
  shows "(\<exists>bs. encode_byte_stream_split_f32 xs = Ok bs \<and> decode_byte_stream_split_f32 bs (length xs) = Ok xs) \<and>
    (\<exists>bs. encode_byte_stream_split_f64 ys = Ok bs \<and> decode_byte_stream_split_f64 bs (length ys) = Ok ys)"
proof
  obtain bs where "encode_byte_stream_split_f32 xs = Ok bs" "length bs = 4 * length xs"
      "\<forall>i < length xs. gather 4 (length xs) bs i = map ((!) (to_le_bytes (xs ! i))) [0..<4]"
    using split_updates_write [of 4 xs, OF refl] unfolding encode_f32_updates [OF assms(1)] by auto
  then show "\<exists>bs. encode_byte_stream_split_f32 xs = Ok bs \<and> decode_byte_stream_split_f32 bs (length xs) = Ok xs"
    using assms(1) by (intro exI [of _ bs]) (auto simp: decode_f32_gather map_nth_bytes intro: nth_equalityI)
  obtain bs where "encode_byte_stream_split_f64 ys = Ok bs" "length bs = 8 * length ys"
      "\<forall>i < length ys. gather 8 (length ys) bs i = map ((!) (to_le_bytes (ys ! i))) [0..<8]"
    using split_updates_write [of 8 ys, OF refl] unfolding encode_f64_updates [OF assms(2)] by auto
  then show "\<exists>bs. encode_byte_stream_split_f64 ys = Ok bs \<and> decode_byte_stream_split_f64 bs (length ys) = Ok ys"
    using assms(2) by (intro exI [of _ bs]) (auto simp: decode_f64_gather map_nth_bytes intro: nth_equalityI)
qed

lemma byte_stream_split_roundtrip_witness:
  "(\<exists>bs. encode_byte_stream_split_f32 [0x3F800000, 0xC0000000] = Ok bs \<and>
      decode_byte_stream_split_f32 bs 2 = Ok [0x3F800000, 0xC0000000]) \<and>
    (\<exists>bs. encode_byte_stream_split_f64 [0x7FF8000000000000] = Ok bs \<and>
      decode_byte_stream_split_f64 bs 1 = Ok [0x7FF8000000000000])"
  using byte_stream_split_roundtrip [of "[0x3F800000, 0xC0000000]" "[0x7FF8000000000000]"]
  by (simp flip: numeral_2_eq_2)

end
