(* ===== verification/Bloom.thy ===== *)
theory Bloom
  imports LeBytes MetadataRead CompactWriter
begin

text \<open>
  \<open>ematix-parquet-codec/src/bloom.rs\<close>: the split-block bloom filter, its builder, its header and the
  xxHash64 of the values.  \<open>optimal_num_blocks\<close> computes in floating point and is not modelled.
\<close>

section \<open>xxHash64\<close>

definition xxh_P1 :: u64 where "xxh_P1 = 0x9E3779B185EBCA87"
definition xxh_P2 :: u64 where "xxh_P2 = 0xC2B2AE3D27D4EB4F"
definition xxh_P3 :: u64 where "xxh_P3 = 0x165667B19E3779F9"
definition xxh_P4 :: u64 where "xxh_P4 = 0x85EBCA77C2B2AE63"
definition xxh_P5 :: u64 where "xxh_P5 = 0x27D4EB2F165667C5"

definition xxh_round :: "u64 \<Rightarrow> u64 \<Rightarrow> u64" where
  "xxh_round acc input = word_rotl 31 (acc + input * xxh_P2) * xxh_P1"

definition merge_round :: "u64 \<Rightarrow> u64 \<Rightarrow> u64" where
  "merge_round acc val = (let v = xxh_round 0 val in (acc XOR v) * xxh_P1 + xxh_P4)"

text \<open>\<open>b[..8]\<close> and \<open>b[..4]\<close> panic on a shorter slice.\<close>

definition read_u64_le :: "bytes \<Rightarrow> ('e, u64) outcome" where
  "read_u64_le b = bind_o (slice b 0 8) (\<lambda>s. Ok (from_le_bytes s))"

definition read_u32_le :: "bytes \<Rightarrow> ('e, u32) outcome" where
  "read_u32_le b = bind_o (slice b 0 4) (\<lambda>s. Ok (from_le_bytes s))"

text \<open>The loops over \<open>i\<close>; \<open>&input[i..]\<close> is \<open>drop i input\<close>.\<close>

function xxh_stripes :: "bytes \<Rightarrow> nat \<Rightarrow> u64 \<times> u64 \<times> u64 \<times> u64 \<Rightarrow> ('e, nat \<times> u64 \<times> u64 \<times> u64 \<times> u64) outcome" where
  "xxh_stripes input i (v1, v2, v3, v4) =
     (if i + 32 \<le> length input then
        bind_o (read_u64_le (drop i input)) (\<lambda>k1.
        bind_o (read_u64_le (drop (i + 8) input)) (\<lambda>k2.
        bind_o (read_u64_le (drop (i + 16) input)) (\<lambda>k3.
        bind_o (read_u64_le (drop (i + 24) input)) (\<lambda>k4.
        xxh_stripes input (i + 32) (xxh_round v1 k1, xxh_round v2 k2, xxh_round v3 k3, xxh_round v4 k4)))))
      else Ok (i, v1, v2, v3, v4))"
  by pat_completeness auto
termination
  by (relation "measure (\<lambda>(input, i, v). length input - i)") auto

declare xxh_stripes.simps [simp del]

function xxh_words :: "bytes \<Rightarrow> nat \<Rightarrow> u64 \<Rightarrow> ('e, nat \<times> u64) outcome" where
  "xxh_words input i acc =
     (if i + 8 \<le> length input then
        bind_o (read_u64_le (drop i input)) (\<lambda>w.
        xxh_words input (i + 8) (word_rotl 27 (acc XOR xxh_round 0 w) * xxh_P1 + xxh_P4))
      else Ok (i, acc))"
  by pat_completeness auto
termination
  by (relation "measure (\<lambda>(input, i, acc). length input - i)") auto

declare xxh_words.simps [simp del]

definition xxh_half :: "bytes \<Rightarrow> nat \<Rightarrow> u64 \<Rightarrow> ('e, nat \<times> u64) outcome" where
  "xxh_half input i acc =
     (if i + 4 \<le> length input then
        bind_o (read_u32_le (drop i input)) (\<lambda>w.
        Ok (i + 4, word_rotl 23 (acc XOR (ucast w * xxh_P1)) * xxh_P2 + xxh_P3))
      else Ok (i, acc))"

function xxh_bytes :: "bytes \<Rightarrow> nat \<Rightarrow> u64 \<Rightarrow> ('e, u64) outcome" where
  "xxh_bytes input i acc =
     (if i < length input then
        bind_o (index_o input i) (\<lambda>b.
        xxh_bytes input (i + 1) (word_rotl 11 (acc XOR (ucast b * xxh_P5)) * xxh_P1))
      else Ok acc)"
  by pat_completeness auto
termination
  by (relation "measure (\<lambda>(input, i, acc). length input - i)") auto

declare xxh_bytes.simps [simp del]

definition xxh_avalanche :: "u64 \<Rightarrow> u64" where
  "xxh_avalanche acc =
     (let acc = acc XOR drop_bit 33 acc; acc = acc * xxh_P2;
          acc = acc XOR drop_bit 29 acc; acc = acc * xxh_P3
      in acc XOR drop_bit 32 acc)"

definition parquet_xxh64_seed :: "bytes \<Rightarrow> u64 \<Rightarrow> ('e, u64) outcome" where
  "parquet_xxh64_seed input seed =
     (let len = length input
      in bind_o (if len \<ge> 32 then
           bind_o (xxh_stripes input 0 (seed + xxh_P1 + xxh_P2, seed + xxh_P2, seed, seed - xxh_P1)) (\<lambda>(i, v1, v2, v3, v4).
           let acc = word_rotl 1 v1 + word_rotl 7 v2 + word_rotl 12 v3 + word_rotl 18 v4
           in Ok (i, merge_round (merge_round (merge_round (merge_round acc v1) v2) v3) v4))
         else Ok (0, seed + xxh_P5)) (\<lambda>(i, acc).
         bind_o (xxh_words input i (acc + of_nat len)) (\<lambda>(i, acc).
         bind_o (xxh_half input i acc) (\<lambda>(i, acc).
         bind_o (xxh_bytes input i acc) (\<lambda>acc. Ok (xxh_avalanche acc))))))"

definition parquet_xxh64 :: "bytes \<Rightarrow> ('e, u64) outcome" where
  "parquet_xxh64 input = parquet_xxh64_seed input 0"

section \<open>Words of a block\<close>

definition SALT :: "u32 list" where
  "SALT = [0x47b6137b, 0x44974d91, 0x8824ad5b, 0xa2b7289d, 0x705495c7, 0x2df1424b, 0x9efc4947, 0x5c6bfb31]"

definition salt_mask :: "u32 \<Rightarrow> nat \<Rightarrow> ('e, u32) outcome" where
  "salt_mask h_lo i = bind_o (index_o SALT i) (\<lambda>s.
     let mask_bit = drop_bit 27 (h_lo * s) in Ok (push_bit (unat mask_bit) 1))"

definition word_at :: "bytes \<Rightarrow> nat \<Rightarrow> ('e, u32) outcome" where
  "word_at bs off = bind_o (mapM_o (index_o bs) [off, off + 1, off + 2, off + 3]) (\<lambda>b. Ok (from_le_bytes b))"

definition set_word_at :: "bytes \<Rightarrow> nat \<Rightarrow> u32 \<Rightarrow> ('e, bytes) outcome" where
  "set_word_at bs off w =
     (let b = to_le_bytes w
      in bind_o (set_o bs off (b ! 0)) (\<lambda>bs.
         bind_o (set_o bs (off + 1) (b ! 1)) (\<lambda>bs.
         bind_o (set_o bs (off + 2) (b ! 2)) (\<lambda>bs.
         set_o bs (off + 3) (b ! 3)))))"

text \<open>\<open>((h >> 32) * num_blocks) >> 32\<close> in \<open>u64\<close>.\<close>

definition block_index :: "u64 \<Rightarrow> nat \<Rightarrow> ('e, nat) outcome" where
  "block_index h num_blocks = bind_o (mul_usize (unat (drop_bit 32 h)) num_blocks) (\<lambda>p. Ok (p div 2 ^ 32))"

section \<open>The builder\<close>

record bloom_builder =
  bb_bitset :: bytes
  bb_num_blocks :: u32

definition bloom_builder_new :: "u32 \<Rightarrow> bloom_builder" where
  "bloom_builder_new num_blocks = \<lparr>bb_bitset = replicate (32 * unat num_blocks) 0, bb_num_blocks = num_blocks\<rparr>"

definition or_mask :: "nat \<Rightarrow> u32 \<Rightarrow> bytes \<Rightarrow> nat \<Rightarrow> ('e, bytes) outcome" where
  "or_mask block_off h_lo bitset i =
     bind_o (salt_mask h_lo i) (\<lambda>msk.
     let word_off = block_off + i * 4
     in bind_o (word_at bitset word_off) (\<lambda>word. set_word_at bitset word_off (word OR msk)))"

definition insert_hash :: "bloom_builder \<Rightarrow> u64 \<Rightarrow> ('e, bloom_builder) outcome" where
  "insert_hash b h =
     (if bb_num_blocks b = 0 then Ok b
      else bind_o (block_index h (unat (bb_num_blocks b))) (\<lambda>block_idx.
           bind_o (fold_o (or_mask (block_idx * 32) (ucast h)) (bb_bitset b) [0..<8]) (\<lambda>bitset.
           Ok (b\<lparr>bb_bitset := bitset\<rparr>))))"

definition insert_bytes :: "bloom_builder \<Rightarrow> bytes \<Rightarrow> ('e, bloom_builder) outcome" where
  "insert_bytes b bytes = bind_o (parquet_xxh64 bytes) (insert_hash b)"

function bloom_write_zigzag_loop :: "bytes \<Rightarrow> u32 \<Rightarrow> bytes" where
  "bloom_write_zigzag_loop out z =
     (if z AND NOT 0x7F = 0 then out @ [ucast z]
      else bloom_write_zigzag_loop (out @ [ucast ((z AND 0x7F) OR 0x80)]) (drop_bit 7 z))"
  by pat_completeness auto
termination
proof (relation "measure (\<lambda>(out, z). unat z)")
  fix out :: bytes and z :: u32
  assume "z AND NOT 0x7F \<noteq> 0"
  then have "z \<noteq> 0" by auto
  then have "0 < unat z" by (simp add: unat_gt_0)
  then have "unat z div 2 ^ 7 < unat z" by (intro div_less_dividend) simp_all
  moreover have "unat (drop_bit 7 z) = unat z div 2 ^ 7"
    unfolding unat_drop_bit_eq by (simp add: drop_bit_eq_div)
  ultimately show "((out @ [ucast ((z AND 0x7F) OR 0x80)], drop_bit 7 z), out, z) \<in> measure (\<lambda>(out, z). unat z)"
    by simp
qed simp

declare bloom_write_zigzag_loop.simps [simp del]

definition bloom_write_zigzag_i32 :: "bytes \<Rightarrow> i32 \<Rightarrow> bytes" where
  "bloom_write_zigzag_i32 out v = bloom_write_zigzag_loop out (push_bit 1 v XOR signed_drop_bit 31 v)"

definition write_bloom_filter_header :: "bytes \<Rightarrow> i32 \<Rightarrow> bytes" where
  "write_bloom_filter_header out num_bytes =
     bloom_write_zigzag_i32 (out @ [push_bit 4 1 OR 5]) num_bytes @
     [push_bit 4 1 OR 12, push_bit 4 1 OR 12, 0, 0] @
     [push_bit 4 1 OR 12, push_bit 4 1 OR 12, 0, 0] @
     [push_bit 4 1 OR 12, push_bit 4 1 OR 12, 0, 0] @ [0]"

text \<open>\<open>self.bitset.len() as i32\<close> truncates.\<close>

definition bloom_into_bytes :: "bloom_builder \<Rightarrow> bytes" where
  "bloom_into_bytes b = write_bloom_filter_header [] (of_nat (length (bb_bitset b))) @ bb_bitset b"

section \<open>The filter\<close>

record bloom_filter =
  sb_bitset :: bytes

definition format_to_codec :: "format_error \<Rightarrow> codec_error" where
  "format_to_codec e = InvalidInput (''format: '' @ format_error_text e)"

text \<open>\<open>num_bytes as usize\<close> sign-extends.\<close>

definition bloom_from_bytes :: "bytes \<Rightarrow> bloom_filter codec_result" where
  "bloom_from_bytes bytes =
     bind_o (map_err format_to_codec (read_bloom_filter_header (cursor_new bytes))) (\<lambda>(header, cur).
     if bf_algorithm header \<noteq> SplitBlock then Err (Unsupported ''bloom filter algorithm not supported'')
     else if bf_hash header \<noteq> XxHash then Err (Unsupported ''bloom filter hash not supported'')
     else if bf_compression header \<noteq> BloomUncompressed then Err (Unsupported ''bloom filter compression not supported'')
     else let num_bytes = unat (scast (bf_num_bytes header) :: u64)
       in if num_bytes mod 32 \<noteq> 0
          then Err (InvalidInput (''bloom filter num_bytes must be a multiple of 32, got '' @ decimal num_bytes))
          else let header_len = position cur
            in bind_o (add_usize header_len num_bytes) (\<lambda>bitset_end.
               if length bytes < bitset_end
               then Err (InvalidInput (''bloom filter byte buffer too short: have '' @ decimal (length bytes) @
                      '', need '' @ decimal bitset_end))
               else bind_o (slice bytes header_len bitset_end) (\<lambda>bs. Ok \<lparr>sb_bitset = bs\<rparr>)))"

definition bloom_num_blocks :: "bloom_filter \<Rightarrow> nat" where
  "bloom_num_blocks f = length (sb_bitset f) div 32"

fun all_words_hit :: "bytes \<Rightarrow> u32 \<Rightarrow> nat list \<Rightarrow> ('e, bool) outcome" where
  "all_words_hit block h_lo [] = Ok True"
| "all_words_hit block h_lo (i # is) =
     bind_o (salt_mask h_lo i) (\<lambda>msk.
     bind_o (word_at block (i * 4)) (\<lambda>word.
     if word AND msk = 0 then Ok False else all_words_hit block h_lo is))"

definition contains_hash :: "bloom_filter \<Rightarrow> u64 \<Rightarrow> ('e, bool) outcome" where
  "contains_hash f h =
     (let num_blocks = bloom_num_blocks f
      in if num_blocks = 0 then Ok False
         else bind_o (block_index h num_blocks) (\<lambda>block_idx.
              let block_off = block_idx * 32
              in bind_o (slice (sb_bitset f) block_off (block_off + 32)) (\<lambda>block.
                 all_words_hit block (ucast h) [0..<8])))"

definition contains_bytes :: "bloom_filter \<Rightarrow> bytes \<Rightarrow> ('e, bool) outcome" where
  "contains_bytes f bytes = bind_o (parquet_xxh64 bytes) (contains_hash f)"

end
