(* ===== verification/BloomProofs.thy ===== *)
theory BloomProofs
  imports Bloom
begin

text \<open>
  The hash never panics and agrees with the published vectors; a split-block filter as a set of bits:
  what each operation of \<open>Bloom\<close> reads and sets.
\<close>

section \<open>The hash\<close>

lemma read_le_Ok:
  "8 \<le> length b \<Longrightarrow> (read_u64_le b :: ('e, u64) outcome) = Ok (from_le_bytes (take 8 b))"
  "4 \<le> length b \<Longrightarrow> (read_u32_le b :: ('e, u32) outcome) = Ok (from_le_bytes (take 4 b))"
  by (simp_all add: read_u64_le_def read_u32_le_def slice_def)

lemma xxh_stripes_total: "\<exists>i' v'. (xxh_stripes input i v :: ('e, nat \<times> u64 \<times> u64 \<times> u64 \<times> u64) outcome) = Ok (i', v')"
proof (induction "length input - i" arbitrary: i v rule: less_induct)
  case less
  obtain v1 v2 v3 v4 where v: "v = (v1, v2, v3, v4)" by (cases v)
  show ?case
  proof (cases "i + 32 \<le> length input")
    case True
    then show ?thesis using less by (subst v, subst xxh_stripes.simps) (simp add: read_le_Ok)
  next
    case False
    then show ?thesis by (subst v, subst xxh_stripes.simps) auto
  qed
qed

lemma xxh_words_total: "\<exists>r. (xxh_words input i acc :: ('e, nat \<times> u64) outcome) = Ok r"
proof (induction "length input - i" arbitrary: i acc rule: less_induct)
  case less
  show ?case
  proof (cases "i + 8 \<le> length input")
    case True
    then show ?thesis using less by (subst xxh_words.simps) (simp add: read_le_Ok)
  next
    case False
    then show ?thesis by (subst xxh_words.simps) auto
  qed
qed

lemma xxh_bytes_total: "\<exists>r. (xxh_bytes input i acc :: ('e, u64) outcome) = Ok r"
proof (induction "length input - i" arbitrary: i acc rule: less_induct)
  case less
  show ?case
  proof (cases "i < length input")
    case True
    then show ?thesis using less by (subst xxh_bytes.simps) simp
  next
    case False
    then show ?thesis by (subst xxh_bytes.simps) auto
  qed
qed

lemma parquet_xxh64_total: "\<exists>h. (parquet_xxh64_seed bs seed :: ('e, u64) outcome) = Ok h"
proof -
  let ?start = "if length bs \<ge> 32 then
      bind_o (xxh_stripes bs 0 (seed + xxh_P1 + xxh_P2, seed + xxh_P2, seed, seed - xxh_P1)) (\<lambda>(i, v1, v2, v3, v4).
        let acc = word_rotl 1 v1 + word_rotl 7 v2 + word_rotl 12 v3 + word_rotl 18 v4
        in Ok (i, merge_round (merge_round (merge_round (merge_round acc v1) v2) v3) v4))
    else Ok (0, seed + xxh_P5) :: ('e, nat \<times> u64) outcome"
  obtain i v1 v2 v3 v4 where
    "(xxh_stripes bs 0 (seed + xxh_P1 + xxh_P2, seed + xxh_P2, seed, seed - xxh_P1) :: ('e, nat \<times> u64 \<times> u64 \<times> u64 \<times> u64) outcome) = Ok (i, v1, v2, v3, v4)"
    using xxh_stripes_total by (metis prod.exhaust)
  then obtain i acc where start: "?start = Ok (i, acc)" by (cases "length bs \<ge> 32") (simp_all add: Let_def)
  obtain i1 a1 where words: "(xxh_words bs i (acc + of_nat (length bs)) :: ('e, nat \<times> u64) outcome) = Ok (i1, a1)"
    using xxh_words_total by (metis prod.exhaust)
  have "\<exists>r. (xxh_half bs i1 a1 :: ('e, nat \<times> u64) outcome) = Ok r" by (simp add: xxh_half_def read_le_Ok)
  then obtain i2 a2 where half: "(xxh_half bs i1 a1 :: ('e, nat \<times> u64) outcome) = Ok (i2, a2)" by (metis prod.exhaust)
  obtain a3 where "(xxh_bytes bs i2 a2 :: ('e, u64) outcome) = Ok a3" using xxh_bytes_total by blast
  then show ?thesis
    unfolding parquet_xxh64_seed_def Let_def [of "length bs"] start by (simp add: words half)
qed

lemma xxh_long_vector:
  "parquet_xxh64 (map (\<lambda>c. of_char c) ''The quick brown fox jumps over the lazy dog'') =
     (Ok 0x0B242D361FDA71BC :: u64 codec_result)"
  by code_simp

text \<open>The hash agrees with the reference values of XXH64 with seed 0, on inputs that
  reach every loop.\<close>

theorem xxh64_known_vectors:
  "parquet_xxh64 [] = (Ok 0xEF46DB3751D8E999 :: u64 codec_result) \<and>
   parquet_xxh64 [0x61] = (Ok 0xD24EC4F1A98C6E5B :: u64 codec_result) \<and>
   parquet_xxh64 [0x61, 0x62, 0x63] = (Ok 0x44BC2CF5AD770999 :: u64 codec_result) \<and>
   parquet_xxh64 (map (\<lambda>c. of_char c) ''The quick brown fox jumps over the lazy dog'') =
     (Ok 0x0B242D361FDA71BC :: u64 codec_result)"
  by (intro conjI, code_simp, code_simp, code_simp, rule xxh_long_vector)

section \<open>A bit set per operation\<close>

definition set_bits :: "bytes \<Rightarrow> nat set" where
  "set_bits bs = {n. stream_bit bs n}"

definition bloom_block :: "nat \<Rightarrow> u64 \<Rightarrow> nat" where
  "bloom_block nb h = unat (drop_bit 32 h) * nb div 2 ^ 32"

definition salt_bit :: "u64 \<Rightarrow> nat \<Rightarrow> nat" where
  "salt_bit h i = unat (drop_bit 27 ((ucast h :: u32) * SALT ! i))"

text \<open>The eight bits a hash stands for: one in each word of its block.\<close>

definition bloom_positions :: "nat \<Rightarrow> u64 \<Rightarrow> nat set" where
  "bloom_positions nb h = (\<lambda>i. 8 * (bloom_block nb h * 32 + i * 4) + salt_bit h i) ` {..<8}"

lemma unat_high: "unat (drop_bit 32 (h :: u64)) < 2 ^ 32"
proof -
  have "unat h < 2 ^ LENGTH(64)" by (rule unsigned_less)
  then have "unat h div 2 ^ 32 < 2 ^ 32" by (simp add: div_less_iff_less_mult)
  then show ?thesis unfolding unat_drop_bit_eq by (simp add: drop_bit_eq_div)
qed

lemma block_index_Ok:
  assumes "0 < nb" and "nb < 2 ^ 32"
  shows "(block_index h nb :: ('e, nat) outcome) = Ok (bloom_block nb h)" and "bloom_block nb h < nb"
proof -
  have "unat (drop_bit 32 h) * nb < 2 ^ 32 * nb" using assms(1) unat_high by simp
  then show "bloom_block nb h < nb" by (simp add: bloom_block_def div_less_iff_less_mult mult.commute)
  have "2 ^ 32 * nb < 2 ^ 32 * 2 ^ 32" using assms(2) by simp
  with \<open>unat (drop_bit 32 h) * nb < 2 ^ 32 * nb\<close> have "unat (drop_bit 32 h) * nb < 2 ^ 32 * 2 ^ 32" by (rule less_trans)
  also have "(2 :: nat) ^ 32 * 2 ^ 32 = 2 ^ 64" by simp
  finally show "(block_index h nb :: ('e, nat) outcome) = Ok (bloom_block nb h)"
    by (simp add: block_index_def mul_usize_def bloom_block_def)
qed

lemma salt_bit_less: "salt_bit h i < 32"
proof -
  have "unat x div 2 ^ 27 < 32" for x :: u32
  proof -
    have "unat x < 2 ^ LENGTH(32)" by (rule unsigned_less)
    then show ?thesis by (simp add: div_less_iff_less_mult)
  qed
  then show ?thesis unfolding salt_bit_def unat_drop_bit_eq by (simp add: drop_bit_eq_div)
qed

lemma salt_mask_Ok: "i < 8 \<Longrightarrow> (salt_mask (ucast h) i :: ('e, u32) outcome) = Ok (push_bit (salt_bit h i) 1)"
  by (simp add: salt_mask_def salt_bit_def SALT_def Let_def)

lemma take4: "off + 4 \<le> length bs \<Longrightarrow> take 4 (drop off bs) = [bs ! off, bs ! (off + 1), bs ! (off + 2), bs ! (off + 3)]"
  by (rule nth_equalityI) (auto simp: less_Suc_eq numeral_eq_Suc)

lemma word_at_Ok:
  assumes "off + 4 \<le> length bs"
  shows "(word_at bs off :: ('e, u32) outcome) = Ok (field bs (8 * off) 32)"
proof -
  have "from_le_bytes (take 4 (drop off bs)) = (field bs (8 * off) 32 :: u32)"
    using field_slice [of 0 32 4 off bs] assms by (simp add: from_le_bytes_field)
  then show ?thesis using assms take4 [OF assms] by (simp add: word_at_def)
qed

lemma set_word_at_Ok:
  assumes "off + 4 \<le> length bs"
  shows "(set_word_at bs off w :: ('e, bytes) outcome) = Ok (take off bs @ to_le_bytes w @ drop (off + 4) bs)"
proof -
  have "bs[off := b ! 0, off + 1 := b ! 1, off + 2 := b ! 2, off + 3 := b ! 3] = take off bs @ b @ drop (off + 4) bs"
    if "length b = 4" for b
    using assms that by (intro nth_equalityI) (auto simp: nth_append nth_list_update)
  then show ?thesis using assms by (simp add: set_word_at_def Let_def)
qed

lemma or_mask_Ok:
  assumes "off + 32 \<le> length bs" and "i < 8"
  shows "\<exists>bs'. (or_mask off (ucast h) bs i :: ('e, bytes) outcome) = Ok bs' \<and> length bs' = length bs \<and>
    set_bits bs' = insert (8 * (off + i * 4) + salt_bit h i) (set_bits bs)"
proof -
  let ?o = "off + i * 4" let ?w = "field bs (8 * ?o) 32 OR push_bit (salt_bit h i) 1 :: u32"
  have o: "?o + 4 \<le> length bs" using assms by linarith
  let ?bs = "take ?o bs @ to_le_bytes ?w @ drop (?o + 4) bs"
  have bs: "bs = take ?o bs @ take 4 (drop ?o bs) @ drop (?o + 4) bs"
    by (metis add.commute append_take_drop_id drop_drop)
  have bit: "stream_bit (to_le_bytes ?w) n \<longleftrightarrow> stream_bit bs (8 * ?o + n) \<or> n = salt_bit h i" if "n < 32" for n
    using that by (subst stream_bit_to_le_bytes) (auto simp: bit_simps bit_field)
  have bits: "stream_bit ?bs n \<longleftrightarrow> stream_bit bs n \<or> n = 8 * ?o + salt_bit h i" for n
  proof -
    have bsn: "stream_bit bs n = stream_bit (take ?o bs @ take 4 (drop ?o bs) @ drop (?o + 4) bs) n"
      using bs by (rule arg_cong [where f = "\<lambda>b. stream_bit b n"])
    consider "n < 8 * ?o" | m where "n = 8 * ?o + m" "m < 32" | "8 * ?o + 32 \<le> n"
      by (metis add_less_cancel_left le_add_diff_inverse linorder_not_less)
    then show ?thesis
    proof cases
      case 1
      then show ?thesis using o by (simp add: bsn stream_bit_append)
    next
      case 2
      then show ?thesis using o bit [of m] by (simp add: stream_bit_append)
    next
      case 3
      then show ?thesis using o salt_bit_less [of h i] by (auto simp: bsn stream_bit_append)
    qed
  qed
  have "(or_mask off (ucast h) bs i :: ('e, bytes) outcome) = Ok ?bs"
    using assms(2) by (simp add: or_mask_def salt_mask_Ok word_at_Ok [OF o] set_word_at_Ok [OF o] Let_def)
  moreover have "length ?bs = length bs" using o by simp
  moreover have "set_bits ?bs = insert (8 * ?o + salt_bit h i) (set_bits bs)"
    unfolding set_bits_def bits by auto
  ultimately show ?thesis by blast
qed

lemma or_masks_Ok:
  assumes "off + 32 \<le> length bs" and "n \<le> 8"
  shows "\<exists>bs'. (fold_o (or_mask off (ucast h)) bs [0..<n] :: ('e, bytes) outcome) = Ok bs' \<and> length bs' = length bs \<and>
    set_bits bs' = set_bits bs \<union> (\<lambda>i. 8 * (off + i * 4) + salt_bit h i) ` {..<n}"
  using assms(2)
proof (induction n)
  case (Suc n)
  then obtain bs' where bs': "(fold_o (or_mask off (ucast h)) bs [0..<n] :: ('e, bytes) outcome) = Ok bs'"
    "length bs' = length bs" "set_bits bs' = set_bits bs \<union> (\<lambda>i. 8 * (off + i * 4) + salt_bit h i) ` {..<n}" by auto
  from or_mask_Ok [of off bs' n h] bs'(2) assms(1) Suc.prems obtain bs'' where
    "(or_mask off (ucast h) bs' n :: ('e, bytes) outcome) = Ok bs''" "length bs'' = length bs"
    "set_bits bs'' = insert (8 * (off + n * 4) + salt_bit h n) (set_bits bs')" by auto
  with bs' show ?case by (auto simp: fold_o_append lessThan_Suc bind_o_Ok_right)
qed simp

lemma all_words_hit_Ok:
  assumes "length block = 32" and "\<forall>i \<in> set is. i < 8"
  shows "(all_words_hit block (ucast h) is :: ('e, bool) outcome) = Ok (\<forall>i \<in> set is. 8 * (i * 4) + salt_bit h i \<in> set_bits block)"
  using assms(2)
proof (induction "is")
  case (Cons i js)
  have w: "i * 4 + 4 \<le> length block" using Cons.prems assms(1) by simp
  have "(field block (8 * (i * 4)) 32 :: u32) AND push_bit (salt_bit h i) 1 = 0 \<longleftrightarrow> 8 * (i * 4) + salt_bit h i \<notin> set_bits block"
    using salt_bit_less [of h i] by (simp add: and_exp_eq_0_iff_not_bit bit_field set_bits_def)
  then show ?case using Cons by (auto simp: salt_mask_Ok word_at_Ok [OF w])
qed simp

end
