(* ===== verification/BloomSpec.thy ===== *)
theory BloomSpec
  imports BloomProofs
begin

text \<open>
  The bloom filter as a set of bit positions.  The locale \<open>bit_filter\<close> states what a client relies on:
  inserting adds the positions of the value, membership asks whether all of them are there; no false
  negatives follows in it.  It is interpreted on the code's builder and filter.  Then the header: what
  the builder serialises, the filter reads.
\<close>

section \<open>The interface\<close>

locale bit_filter =
  fixes insert_v :: "'s \<Rightarrow> 'v \<Rightarrow> 's codec_result"
    and member_v :: "'s \<Rightarrow> 'v \<Rightarrow> bool codec_result"
    and bits_of :: "'s \<Rightarrow> nat set"
    and size_of :: "'s \<Rightarrow> nat"
    and positions :: "nat \<Rightarrow> 'v \<Rightarrow> nat set"
    and invar :: "'s \<Rightarrow> bool"
  assumes insert_v: "invar s \<Longrightarrow> \<exists>s'. insert_v s v = Ok s' \<and> invar s' \<and> size_of s' = size_of s \<and>
      bits_of s' = bits_of s \<union> positions (size_of s) v"
    and member_v: "invar s \<Longrightarrow> member_v s v = Ok (positions (size_of s) v \<subseteq> bits_of s)"
begin

lemma insert_all:
  "invar s \<Longrightarrow> \<exists>s'. fold_o insert_v s vs = Ok s' \<and> invar s' \<and> size_of s' = size_of s \<and>
     bits_of s' = bits_of s \<union> (\<Union>v \<in> set vs. positions (size_of s) v)"
proof (induction vs arbitrary: s)
  case (Cons v vs)
  from insert_v [OF Cons.prems, of v] obtain t where t: "insert_v s v = Ok t" "invar t" "size_of t = size_of s"
    "bits_of t = bits_of s \<union> positions (size_of s) v" by blast
  from Cons.IH [OF t(2)] t show ?case by auto
qed auto

lemma no_false_negative:
  assumes "invar s" and "v \<in> set vs"
  shows "\<exists>s'. fold_o insert_v s vs = Ok s' \<and> invar s' \<and> size_of s' = size_of s \<and> member_v s' v = Ok True"
proof -
  from insert_all [OF assms(1), of vs] obtain s' where s': "fold_o insert_v s vs = Ok s'" "invar s'"
    "size_of s' = size_of s" "bits_of s' = bits_of s \<union> (\<Union>v \<in> set vs. positions (size_of s) v)" by blast
  with assms(2) have "positions (size_of s') v \<subseteq> bits_of s'" by auto
  with s' member_v [OF s'(2), of v] show ?thesis by simp
qed

lemma absent:
  "invar s \<Longrightarrow> bits_of s = {} \<Longrightarrow> positions (size_of s) v \<noteq> {} \<Longrightarrow> member_v s v = Ok False"
  using member_v [of s v] by auto

end

section \<open>The code's filter\<close>

text \<open>The invariant of the builder: as many bytes as the block count says, and at least one block.\<close>

definition bloom_invar :: "bloom_builder \<Rightarrow> bool" where
  "bloom_invar b \<longleftrightarrow> bb_num_blocks b \<noteq> 0 \<and> length (bb_bitset b) = 32 * unat (bb_num_blocks b)"

definition bloom_bits :: "bloom_builder \<Rightarrow> nat set" where
  "bloom_bits b = set_bits (bb_bitset b)"

definition bloom_size :: "bloom_builder \<Rightarrow> nat" where
  "bloom_size b = unat (bb_num_blocks b)"

definition view :: "bloom_builder \<Rightarrow> bloom_filter" where
  "view b = \<lparr>sb_bitset = bb_bitset b\<rparr>"

lemma unat_u32: "unat (x :: u32) < 2 ^ 32"
proof -
  have "unat x < 2 ^ LENGTH(32)" by (rule unsigned_less)
  then show ?thesis by simp
qed

lemma bloom_size_pos: "bloom_invar b \<Longrightarrow> 0 < bloom_size b \<and> bloom_size b < 2 ^ 32"
  using unat_u32 [of "bb_num_blocks b"] by (auto simp: bloom_invar_def bloom_size_def unat_gt_0)

lemma block_room: "k < n \<Longrightarrow> k * 32 + 32 \<le> 32 * (n :: nat)"
  by simp

lemma insert_hash_refines:
  assumes "bloom_invar b"
  shows "\<exists>b'. (insert_hash b h :: bloom_builder codec_result) = Ok b' \<and> bloom_invar b' \<and> bloom_size b' = bloom_size b \<and>
    bloom_bits b' = bloom_bits b \<union> bloom_positions (bloom_size b) h"
proof -
  note nb = bloom_size_pos [OF assms] and blk = block_index_Ok(1) [of "bloom_size b" h, where 'e = codec_error] block_index_Ok(2) [of "bloom_size b" h]
  let ?off = "bloom_block (bloom_size b) h * 32"
  have "?off + 32 \<le> length (bb_bitset b)"
    using block_room [OF blk(2)] nb assms by (simp add: bloom_invar_def bloom_size_def)
  from or_masks_Ok [OF this, of 8 h] obtain bs where
    "(fold_o (or_mask ?off (ucast h)) (bb_bitset b) [0..<8] :: bytes codec_result) = Ok bs"
    "length bs = length (bb_bitset b)"
    "set_bits bs = set_bits (bb_bitset b) \<union> (\<lambda>i. 8 * (?off + i * 4) + salt_bit h i) ` {..<8}" by auto
  then show ?thesis
    using assms nb blk(1)
    by (intro exI [of _ "b\<lparr>bb_bitset := bs\<rparr>"])
      (simp add: insert_hash_def bloom_invar_def bloom_bits_def bloom_size_def bloom_positions_def)
qed

lemma set_bits_slice:
  "k + 32 \<le> length bs \<Longrightarrow> n < 256 \<Longrightarrow> n \<in> set_bits (take 32 (drop k bs)) \<longleftrightarrow> 8 * k + n \<in> set_bits bs"
proof -
  assume k: "k + 32 \<le> length bs" and "n < 256"
  then have "n div 8 < 32" by (simp add: less_mult_imp_div_less)
  with k have "n div 8 < 32" "k + n div 8 < length bs" by simp_all
  then show ?thesis using k by (simp add: set_bits_def stream_bit_def)
qed

lemma contains_hash_refines:
  assumes "bloom_invar b"
  shows "(contains_hash (view b) h :: bool codec_result) = Ok (bloom_positions (bloom_size b) h \<subseteq> bloom_bits b)"
proof -
  note nb = bloom_size_pos [OF assms] and blk = block_index_Ok(1) [of "bloom_size b" h, where 'e = codec_error] block_index_Ok(2) [of "bloom_size b" h]
  let ?k = "bloom_block (bloom_size b) h * 32" and ?bs = "bb_bitset b"
  have room: "?k + 32 \<le> length ?bs"
    using block_room [OF blk(2)] nb assms by (simp add: bloom_invar_def bloom_size_def)
  have n: "bloom_num_blocks (view b) = bloom_size b"
    using assms by (simp add: bloom_num_blocks_def view_def bloom_invar_def bloom_size_def)
  have "8 * (i * 4) + salt_bit h i \<in> set_bits (take 32 (drop ?k ?bs)) \<longleftrightarrow> 8 * (?k + i * 4) + salt_bit h i \<in> set_bits ?bs"
    if "i < 8" for i
    using set_bits_slice [OF room, of "8 * (i * 4) + salt_bit h i"] salt_bit_less [of h i] that
    by (simp add: add.assoc distrib_left)
  then have "(\<forall>i \<in> set [0..<8]. 8 * (i * 4) + salt_bit h i \<in> set_bits (take 32 (drop ?k ?bs))) \<longleftrightarrow>
      bloom_positions (bloom_size b) h \<subseteq> bloom_bits b"
    by (auto simp: bloom_positions_def bloom_bits_def)
  moreover have "(all_words_hit (take 32 (drop ?k ?bs)) (ucast h) [0..<8] :: bool codec_result)
      = Ok (\<forall>i \<in> set [0..<8]. 8 * (i * 4) + salt_bit h i \<in> set_bits (take 32 (drop ?k ?bs)))"
    using room by (intro all_words_hit_Ok) simp_all
  moreover have "(slice ?bs ?k (?k + 32) :: bytes codec_result) = Ok (take 32 (drop ?k ?bs))"
    using room by (simp add: slice_def)
  ultimately show ?thesis
    using nb blk(1) n by (simp add: contains_hash_def Let_def view_def)
qed

text \<open>Values are hashed; the hash is total.\<close>

definition xxh_value :: "bytes \<Rightarrow> u64" where
  "xxh_value v = (case parquet_xxh64 v :: u64 codec_result of Ok h \<Rightarrow> h | _ \<Rightarrow> 0)"

lemma parquet_xxh64_value: "(parquet_xxh64 v :: u64 codec_result) = Ok (xxh_value v)"
  using parquet_xxh64_total [of v 0, where 'e = codec_error] by (auto simp: xxh_value_def parquet_xxh64_def)

interpretation hashes: bit_filter insert_hash "\<lambda>b. contains_hash (view b)" bloom_bits bloom_size bloom_positions bloom_invar
  by unfold_locales (simp_all add: insert_hash_refines contains_hash_refines)

interpretation values_filter: bit_filter insert_bytes "\<lambda>b. contains_bytes (view b)" bloom_bits bloom_size
  "\<lambda>n v. bloom_positions n (xxh_value v)" bloom_invar
  by unfold_locales
    (simp_all add: insert_bytes_def contains_bytes_def parquet_xxh64_value insert_hash_refines contains_hash_refines)

text \<open>C32. The builder refines a set of bit positions: inserting a hash never fails, keeps the invariant
  and adds exactly the eight positions of the hash; membership asks exactly whether they are all set.\<close>

theorem bloom_refines_bit_set:
  assumes "bloom_invar b"
  shows "\<exists>b'. (insert_hash b h :: bloom_builder codec_result) = Ok b' \<and> bloom_invar b' \<and> bloom_size b' = bloom_size b \<and>
    bloom_bits b' = bloom_bits b \<union> bloom_positions (bloom_size b) h \<and>
    (\<forall>g. (contains_hash (view b') g :: bool codec_result) =
      Ok (bloom_positions (bloom_size b) g \<subseteq> bloom_bits b \<union> bloom_positions (bloom_size b) h))"
  using hashes.insert_v [OF assms, of h] hashes.member_v by metis

section \<open>The header\<close>

lemma high_bits_zero: "(z :: u32) AND NOT 0x7F = 0 \<longleftrightarrow> unat z < 128"
proof -
  have m: "(0x7F :: u32) = mask 7" by (simp add: mask_eq_exp_minus_1)
  have "z AND NOT 0x7F = 0 \<longleftrightarrow> drop_bit 7 z = 0"
  proof
    assume *: "drop_bit 7 z = 0"
    have "\<not> bit z n" if "7 \<le> n" for n
    proof -
      have "\<not> bit (drop_bit 7 z) (n - 7)" using * by simp
      with that show ?thesis by (simp add: bit_drop_bit_eq)
    qed
    then show "z AND NOT 0x7F = 0" unfolding m by (intro bit_word_eqI) (auto simp: bit_simps, metis linorder_not_less)
  next
    assume *: "z AND NOT 0x7F = 0"
    show "drop_bit 7 z = 0"
    proof (rule bit_word_eqI)
      fix n assume "n < LENGTH(32)"
      have "\<not> bit (z AND NOT 0x7F) (7 + n)" using * by simp
      then show "bit (drop_bit 7 z) n = bit 0 n" unfolding m by (auto simp: bit_simps dest: bit_imp_le_length)
    qed
  qed
  also have "\<dots> \<longleftrightarrow> unat (drop_bit 7 z) = 0" by (simp add: unat_eq_zero)
  also have "\<dots> \<longleftrightarrow> unat z div 2 ^ 7 = 0" unfolding unat_drop_bit_eq by (simp add: drop_bit_eq_div)
  finally show ?thesis by (simp add: div_eq_0_iff)
qed

lemma bloom_zigzag_loop: "bloom_write_zigzag_loop out z = write_uvarint out (ucast z)"
proof (induction out z rule: bloom_write_zigzag_loop.induct)
  case (1 out z)
  have le: "(0x80 :: u64) \<le> ucast z \<longleftrightarrow> 128 \<le> unat z"
  proof -
    have "take_bit 64 (unat z) = unat z" using unat_u32 [of z] by (intro take_bit_nat_eq_self) simp
    then show ?thesis by (simp add: word_le_nat_alt unsigned_ucast_eq)
  qed
  have last: "ucast (ucast z :: u64) = (ucast z :: u8)" by (rule bit_word_eqI) (auto simp: bit_simps)
  have byte: "(ucast ((z AND 0x7F) OR 0x80) :: u8) = ucast ((ucast z :: u64) AND 0x7F) OR 0x80"
    by (simp only: and_7F, rule bit_word_eqI) (auto simp: bit_simps)
  have rest: "(ucast (drop_bit 7 z) :: u64) = drop_bit 7 (ucast z)"
    by (rule bit_word_eqI) (auto simp: bit_simps dest: bit_imp_le_length)
  show ?case
  proof (cases "unat z < 128")
    case True
    with high_bits_zero [of z] le show ?thesis
      by (subst bloom_write_zigzag_loop.simps, subst write_uvarint.simps) (simp add: last)
  next
    case False
    with 1 high_bits_zero [of z] le show ?thesis
      by (subst bloom_write_zigzag_loop.simps, subst write_uvarint.simps) (simp add: byte rest)
  qed
qed

lemma bloom_zigzag_i32: "bloom_write_zigzag_i32 out v = write_zigzag_i32 out v"
  by (simp add: bloom_write_zigzag_i32_def bloom_zigzag_loop write_zigzag_i32_def zigzag_def Let_def)

lemma header_bytes:
  "write_field_header [] 1 FT_I32 0 = [0x15]" "write_field_header [] 1 FT_Struct 0 = [0x1C]"
  "write_field_header [] 2 FT_Struct 1 = [0x1C]" "write_field_header [] 3 FT_Struct 2 = [0x1C]"
  "write_field_header [] 4 FT_Struct 3 = [0x1C]"
  by code_simp+

lemma reads_skip_headers: "reads skip_headers [0] ()"
proof (rule readsI)
  fix cur post assume "rest cur = [0] @ post"
  then have "read_field_header 0 cur = Ok (None, adv cur (length [0 :: u8]))" by (rule readsD [OF reads_stop])
  then show "skip_headers cur = Ok ((), adv cur (length [0 :: u8]))" by (simp add: skip_headers.simps [of cur])
qed

lemmas reads_header = reads_field_header [of 0 1 FT_Struct, unfolded header_bytes]

lemma reads_bloom_union:
  assumes "reads skip_headers bs ()" and "\<And>h. fh_id h = 1 \<Longrightarrow> step h None = bind_r skip_headers (\<lambda>_. return_r (Some v))"
  shows "reads (bind_r (read_fields step 0 None) (\<lambda>c. required c e return_r)) (0x1C # bs @ [0]) v"
proof -
  have "reads (step \<lparr>fh_id = 1, fh_type = FT_Struct\<rparr> None) bs (Some v)"
    using assms(2) reads_bind_return [OF assms(1), of "\<lambda>_. Some v"] by simp
  then have "fields_run step 0 None ([0x1C] @ bs) 1 (Some v)"
    using fields_run_field [of 0 "[0x1C]" "\<lparr>fh_id = 1, fh_type = FT_Struct\<rparr>" step None bs "Some v"] reads_header by simp
  from reads_bind [OF fields_run_stop [OF this], of "\<lambda>c. required c e return_r" "[]" v] show ?thesis
    by (simp add: reads_return)
qed

lemma reads_bloom_unions:
  assumes "reads skip_headers bs ()"
  shows "reads read_bloom_algorithm (0x1C # bs @ [0]) SplitBlock" "reads read_bloom_hash (0x1C # bs @ [0]) XxHash"
    "reads read_bloom_compression (0x1C # bs @ [0]) BloomUncompressed"
  unfolding read_bloom_algorithm_def read_bloom_hash_def read_bloom_compression_def
  by (rule reads_bloom_union [OF assms]; simp add: step_bloom_algorithm_def step_bloom_hash_def step_bloom_compression_def)+

lemma fields_run_header_field:
  assumes "write_field_header [] i t p = [b]" and "step \<lparr>fh_id = i, fh_type = t\<rparr> a = set_some rd upd a"
    and "reads rd bs x"
  shows "fields_run step p a (b # bs) i (upd (\<lambda>_. Some x) a)"
  using fields_run_field [of p "[b]" "\<lparr>fh_id = i, fh_type = t\<rparr>" step a bs] reads_field_header [of p i t]
    reads_set_some [OF assms(3), of upd a] assms(1,2) by simp

definition bloom_header :: "i32 \<Rightarrow> bloom_filter_header" where
  "bloom_header n = \<lparr>bf_num_bytes = n, bf_algorithm = SplitBlock, bf_hash = XxHash, bf_compression = BloomUncompressed\<rparr>"

lemma reads_bloom_fields:
  assumes "reads read_zigzag_i32 zs n" and "reads read_bloom_algorithm al SplitBlock"
  shows "reads read_bloom_filter_header
    (((0x15 # zs) @ (0x1C # al) @ (0x1C # [0x1C, 0, 0]) @ (0x1C # [0x1C, 0, 0])) @ [0]) (bloom_header n)"
proof -
  note unions = reads_bloom_unions [OF reads_skip_headers, simplified]
  let ?step = step_bloom_filter_header
  have 1: "fields_run ?step 0 a (0x15 # zs) 1 (lbf_num_bytes_update (\<lambda>_. Some n) a)" for a
    by (rule fields_run_header_field [OF header_bytes(1) _ assms(1)]) (simp add: step_bloom_filter_header_def on_def)
  have 2: "fields_run ?step 1 a (0x1C # al) 2 (lbf_algorithm_update (\<lambda>_. Some SplitBlock) a)" for a
    by (rule fields_run_header_field [OF header_bytes(3) _ assms(2)]) (simp add: step_bloom_filter_header_def on_def)
  have 3: "fields_run ?step 2 a (0x1C # [0x1C, 0, 0]) 3 (lbf_hash_update (\<lambda>_. Some XxHash) a)" for a
    by (rule fields_run_header_field [OF header_bytes(4) _ unions(2)]) (simp add: step_bloom_filter_header_def on_def)
  have 4: "fields_run ?step 3 a (0x1C # [0x1C, 0, 0]) 4 (lbf_compression_update (\<lambda>_. Some BloomUncompressed) a)" for a
    by (rule fields_run_header_field [OF header_bytes(5) _ unions(3)]) (simp add: step_bloom_filter_header_def on_def)
  note run = fields_run_trans [OF 1 fields_run_trans [OF 2 fields_run_trans [OF 3 4]]]
  show ?thesis
    unfolding read_bloom_filter_header_def
    using reads_bind [OF fields_run_stop [OF run [of bloom_filter_header_start]], of _ "[]" "bloom_header n"]
    by (simp add: bloom_filter_header_start_def reads_return bloom_header_def)
qed

lemma reads_bloom_header: "reads read_bloom_filter_header (write_bloom_filter_header [] n) (bloom_header n)"
proof -
  obtain zs where zs: "write_zigzag_i32 [0x15] n = [0x15] @ zs" "reads read_zigzag_i32 zs n"
    using codec_zigzag_i32 by (rule codecE)
  have "(push_bit 4 1 OR 5 :: u8) = 0x15" "(push_bit 4 1 OR 12 :: u8) = 0x1C" by code_simp+
  then have "write_bloom_filter_header [] n =
      ((0x15 # zs) @ (0x1C # [0x1C, 0, 0]) @ (0x1C # [0x1C, 0, 0]) @ (0x1C # [0x1C, 0, 0])) @ [0]"
    by (simp add: write_bloom_filter_header_def bloom_zigzag_i32 zs(1))
  then show ?thesis
    using reads_bloom_fields [OF zs(2) reads_bloom_unions(1) [OF reads_skip_headers, simplified]] by simp
qed

text \<open>The readers of the unions accept any number of field headers without bodies as padding.\<close>

lemma reads_padding: "reads skip_headers (replicate k 0x11 @ [0]) ()"
proof (induction k)
  case (Suc k)
  have hdr: "reads (read_field_header 0) [0x11] (Some \<lparr>fh_id = 1, fh_type = FT_BoolTrue\<rparr>)"
  proof -
    have "write_field_header [] 1 FT_BoolTrue 0 = [0x11]" by code_simp
    then show ?thesis using reads_field_header [of 0 1 FT_BoolTrue] by simp
  qed
  show ?case
  proof (rule readsI)
    fix cur post assume "rest cur = (replicate (Suc k) 0x11 @ [0]) @ post"
    then have r: "rest cur = [0x11] @ (replicate k 0x11 @ [0]) @ post" by simp
    note h = readsD [OF hdr r] and r' = rest_adv [OF r]
    have "remaining (adv cur (length [0x11 :: u8])) < remaining cur"
      unfolding remaining_rest r r' by simp
    then show "skip_headers cur = Ok ((), adv cur (length (replicate (Suc k) 0x11 @ [0 :: u8])))"
      using h readsD [OF Suc r'] by (simp add: skip_headers.simps [of cur])
  qed
qed (simp add: reads_skip_headers)

lemma bloom_header_length: "length (write_bloom_filter_header [] n) \<le> 24"
proof -
  have "unat v < 2 ^ (7 * Suc 9)" for v :: u64
  proof -
    have "unat v < 2 ^ LENGTH(64)" by (rule unsigned_less)
    then show ?thesis by simp
  qed
  then have "length (write_uvarint [] v) \<le> 10" for v using write_uvarint_length [of v 9] by simp
  then show ?thesis
    by (simp add: write_bloom_filter_header_def bloom_zigzag_i32 write_zigzag_i32_def Let_def write_uvarint_append [of "[_]"])
qed

lemma sign_extended_length:
  assumes "n < 2 ^ 31"
  shows "unat (scast (of_nat n :: i32) :: u64) = n"
proof -
  have "sint (of_nat n :: i32) = int n" using assms by (simp add: signed_of_nat signed_take_bit_int_eq_self)
  then have "(scast (of_nat n :: i32) :: u64) = of_nat n" by (simp add: scast_eq)
  then show ?thesis using assms by (simp add: unsigned_of_nat take_bit_nat_eq_self)
qed

lemma bloom_from_into_bytes:
  assumes "length (bb_bitset b) < 2 ^ 31" and "32 dvd length (bb_bitset b)"
  shows "bloom_from_bytes (bloom_into_bytes b @ post) = Ok (view b)"
proof -
  let ?n = "length (bb_bitset b)"
  define h where "h = write_bloom_filter_header [] (of_nat ?n)"
  have "rest (cursor_new (h @ bb_bitset b @ post)) = h @ bb_bitset b @ post" by (simp add: rest_def cursor_new_def)
  from readsD [OF reads_bloom_header [of "of_nat ?n", folded h_def] this] have
    "read_bloom_filter_header (cursor_new (h @ bb_bitset b @ post)) =
      Ok (bloom_header (of_nat ?n), adv (cursor_new (h @ bb_bitset b @ post)) (length h))" .
  moreover have "length h \<le> 24" unfolding h_def by (rule bloom_header_length)
  moreover have "position (adv (cursor_new (h @ bb_bitset b @ post)) (length h)) = length h"
    by (simp add: position_def adv_def cursor_new_def)
  ultimately show ?thesis
    using assms sign_extended_length [OF assms(1)]
    by (simp add: bloom_from_bytes_def bloom_into_bytes_def h_def [symmetric] bloom_header_def Let_def add_usize_def
        slice_def view_def dvd_imp_mod_0)
qed

text \<open>C33. A filter that was built by inserting values is serialised and read back with the same bits, and
  every inserted value is reported present: no false negatives from end to end.\<close>

theorem bloom_no_false_negatives:
  assumes "0 < unat nb" and "32 * unat nb < 2 ^ 31" and "v \<in> set vs"
  shows "\<exists>b f. (fold_o insert_bytes (bloom_builder_new nb) vs :: bloom_builder codec_result) = Ok b \<and>
    bloom_from_bytes (bloom_into_bytes b @ post) = Ok f \<and> sb_bitset f = bb_bitset b \<and>
    (contains_bytes f v :: bool codec_result) = Ok True"
proof -
  have "bloom_invar (bloom_builder_new nb)"
    using assms(1) by (auto simp: bloom_invar_def bloom_builder_new_def)
  from values_filter.no_false_negative [OF this assms(3)] obtain b where
    b: "fold_o insert_bytes (bloom_builder_new nb) vs = (Ok b :: bloom_builder codec_result)" "bloom_invar b"
      "bloom_size b = bloom_size (bloom_builder_new nb)" "contains_bytes (view b) v = (Ok True :: bool codec_result)" by blast
  then have "length (bb_bitset b) = 32 * unat nb" by (simp add: bloom_invar_def bloom_size_def bloom_builder_new_def)
  then have "bloom_from_bytes (bloom_into_bytes b @ post) = Ok (view b)" using assms(2) by (intro bloom_from_into_bytes) simp_all
  with b show ?thesis by (auto simp: view_def)
qed

lemma bloom_no_false_negatives_witness:
  "\<exists>b f. (fold_o insert_bytes (bloom_builder_new 4) [[1], [2, 3]] :: bloom_builder codec_result) = Ok b \<and>
    bloom_from_bytes (bloom_into_bytes b @ [7]) = Ok f \<and> sb_bitset f = bb_bitset b \<and>
    (contains_bytes f [2, 3] :: bool codec_result) = Ok True"
  by (rule bloom_no_false_negatives) simp_all

lemma bloom_refines_bit_set_witness:
  "\<exists>b'. (insert_hash (bloom_builder_new 1) 9 :: bloom_builder codec_result) = Ok b' \<and> bloom_invar b' \<and>
    bloom_size b' = bloom_size (bloom_builder_new 1) \<and>
    bloom_bits b' = bloom_bits (bloom_builder_new 1) \<union> bloom_positions (bloom_size (bloom_builder_new 1)) 9 \<and>
    (\<forall>g. (contains_hash (view b') g :: bool codec_result) =
      Ok (bloom_positions (bloom_size (bloom_builder_new 1)) g
        \<subseteq> bloom_bits (bloom_builder_new 1) \<union> bloom_positions (bloom_size (bloom_builder_new 1)) 9))"
  by (rule bloom_refines_bit_set) (simp add: bloom_invar_def bloom_builder_new_def)

text \<open>A fresh filter reports every value absent.\<close>

theorem bloom_empty_contains_nothing:
  assumes "nb \<noteq> 0"
  shows "(contains_bytes (view (bloom_builder_new nb)) v :: bool codec_result) = Ok False"
proof (rule values_filter.absent)
  show "bloom_invar (bloom_builder_new nb)" using assms by (simp add: bloom_invar_def bloom_builder_new_def)
  show "bloom_bits (bloom_builder_new nb) = {}"
    by (simp add: bloom_bits_def bloom_builder_new_def set_bits_def stream_bit_replicate_0)
  show "bloom_positions (bloom_size (bloom_builder_new nb)) (xxh_value v) \<noteq> {}"
    by (auto simp: bloom_positions_def lessThan_empty_iff)
qed

lemma bloom_empty_contains_nothing_witness:
  "(contains_bytes (view (bloom_builder_new 1)) [1] :: bool codec_result) = Ok False"
  by (rule bloom_empty_contains_nothing) simp

text \<open>A negative size in the header is sign-extended to a huge length, and adding the header's length
  to it overflows: with enough padding in a union, 35 bytes make the reader panic.\<close>

theorem bloom_negative_size_panics:
  "bloom_from_bytes ([0x15, 0x3F, 0x1C, 0x1C] @ replicate 20 0x11 @ [0, 0, 0x1C, 0x1C, 0, 0, 0x1C, 0x1C, 0, 0, 0])
    = Panic ''attempt to add with overflow''"
proof -
  let ?bs = "[0x15, 0x3F, 0x1C, 0x1C] @ replicate 20 0x11 @ [0, 0, 0x1C, 0x1C, 0, 0, 0x1C, 0x1C, 0, 0, 0 :: u8]"
  have "write_zigzag_i32 [] (- 32) = [0x3F]" by code_simp
  moreover obtain zs where "write_zigzag_i32 [] (- 32) = [] @ zs" "reads read_zigzag_i32 zs (- 32)"
    using codec_zigzag_i32 by (rule codecE)
  ultimately have "reads read_zigzag_i32 [0x3F] (- 32)" by simp
  from reads_bloom_fields [OF this reads_bloom_unions(1) [OF reads_padding [of 20]]]
  have "reads read_bloom_filter_header ?bs (bloom_header (- 32))" by simp
  then have "read_bloom_filter_header (cursor_new ?bs) = Ok (bloom_header (- 32), adv (cursor_new ?bs) (length ?bs))"
    by (rule readsD [where post = "[]"]) (simp add: rest_def cursor_new_def)
  moreover have "position (adv (cursor_new ?bs) (length ?bs)) = 35" by (simp add: position_def adv_def cursor_new_def)
  moreover have "unat (scast (- 32 :: i32) :: u64) = 2 ^ 64 - 32" by simp
  ultimately show ?thesis
    by (simp add: bloom_from_bytes_def bloom_header_def Let_def add_usize_def)
qed

text \<open>The builder does not bound the size: with \<open>2 ^ 26\<close> blocks the length written to the header wraps to
  a negative number, and the filter reads its own bytes as too short.\<close>

theorem bloom_two_gib_unreadable:
  "\<exists>msg. bloom_from_bytes (bloom_into_bytes (bloom_builder_new 0x4000000)) = Err (InvalidInput msg)"
proof -
  define b where "b = bloom_builder_new 0x4000000"
  have len: "length (bb_bitset b) = 2 ^ 31" by (simp add: b_def bloom_builder_new_def)
  define n where "n = (of_nat (length (bb_bitset b)) :: i32)"
  define h where "h = write_bloom_filter_header [] n"
  have into: "bloom_into_bytes b = h @ bb_bitset b" by (simp add: bloom_into_bytes_def h_def n_def)
  have "rest (cursor_new (h @ bb_bitset b)) = h @ bb_bitset b" by (simp add: rest_def cursor_new_def)
  from readsD [OF reads_bloom_header [of n, folded h_def] this] have
    "read_bloom_filter_header (cursor_new (h @ bb_bitset b)) = Ok (bloom_header n, adv (cursor_new (h @ bb_bitset b)) (length h))" .
  moreover have "length h \<le> 24" unfolding h_def by (rule bloom_header_length)
  moreover have "position (adv (cursor_new (h @ bb_bitset b)) (length h)) = length h"
    by (simp add: position_def adv_def cursor_new_def)
  moreover have "unat (scast n :: u64) = 2 ^ 64 - 2 ^ 31" by (simp add: n_def len)
  ultimately show ?thesis
    unfolding b_def [symmetric] into
    by (simp add: bloom_from_bytes_def bloom_header_def Let_def add_usize_def len)
qed

end
