(* ===== verification/Plain.thy ===== *)
theory Plain
  imports LeBytes ReaderLaws
begin

text \<open>
  \<open>ematix-parquet-codec/src/plain.rs\<close>: the PLAIN decoders of every physical type and their sparse
  variants, with the encoders of \<open>write.rs\<close> they invert.  A float is the word of its bits.  On a
  little-endian target a run of fixed-width values is copied as memory; the bytes of the model are
  split and read little-endian, which is what the copy means and what the portable branch does.
  Appending to \<open>out\<close> is concatenation; what an error leaves in \<open>out\<close> is not part of the result.
\<close>

section \<open>Fixed-width values\<close>

definition chunks_exact :: "nat \<Rightarrow> bytes \<Rightarrow> bytes list" where
  "chunks_exact width bytes = map (\<lambda>i. take width (drop (i * width) bytes)) [0..<length bytes div width]"

definition plain_memcpy :: "bytes \<Rightarrow> nat \<Rightarrow> 'w::len word list" where
  "plain_memcpy bytes width = map from_le_bytes (chunks_exact width bytes)"

definition decode_plain_i64 :: "bytes \<Rightarrow> i64 list codec_result" where
  "decode_plain_i64 bytes =
     (if length bytes mod 8 \<noteq> 0 then Err (UnalignedPlainBuffer 8 (length bytes))
      else Ok (plain_memcpy bytes 8))"

definition decode_plain_i64_n :: "bytes \<Rightarrow> nat \<Rightarrow> i64 list codec_result" where
  "decode_plain_i64_n bytes n =
     bind_o (mul_usize n 8) (\<lambda>needed.
     if length bytes < needed then Err (UnderflowingPlainBuffer 8 (length bytes) n)
     else Ok (plain_memcpy (take needed bytes) 8))"

definition decode_plain_i32 :: "bytes \<Rightarrow> i32 list codec_result" where
  "decode_plain_i32 bytes =
     (if length bytes mod 4 \<noteq> 0 then Err (UnalignedPlainBuffer 4 (length bytes))
      else Ok (plain_memcpy bytes 4))"

definition decode_plain_i32_n :: "bytes \<Rightarrow> nat \<Rightarrow> i32 list codec_result" where
  "decode_plain_i32_n bytes n =
     bind_o (mul_usize n 4) (\<lambda>needed.
     if length bytes < needed then Err (UnderflowingPlainBuffer 4 (length bytes) n)
     else Ok (plain_memcpy (take needed bytes) 4))"

definition decode_plain_f32 :: "bytes \<Rightarrow> 32 word list codec_result" where
  "decode_plain_f32 bytes =
     (if length bytes mod 4 \<noteq> 0 then Err (UnalignedPlainBuffer 4 (length bytes))
      else Ok (plain_memcpy bytes 4))"

definition decode_plain_f32_n :: "bytes \<Rightarrow> nat \<Rightarrow> 32 word list codec_result" where
  "decode_plain_f32_n bytes n =
     bind_o (mul_usize n 4) (\<lambda>needed.
     if length bytes < needed then Err (UnderflowingPlainBuffer 4 (length bytes) n)
     else Ok (plain_memcpy (take needed bytes) 4))"

definition decode_plain_f64 :: "bytes \<Rightarrow> 64 word list codec_result" where
  "decode_plain_f64 bytes =
     (if length bytes mod 8 \<noteq> 0 then Err (UnalignedPlainBuffer 8 (length bytes))
      else Ok (plain_memcpy bytes 8))"

definition decode_plain_f64_n :: "bytes \<Rightarrow> nat \<Rightarrow> 64 word list codec_result" where
  "decode_plain_f64_n bytes n =
     bind_o (mul_usize n 8) (\<lambda>needed.
     if length bytes < needed then Err (UnderflowingPlainBuffer 8 (length bytes) n)
     else Ok (plain_memcpy (take needed bytes) 8))"

section \<open>Sparse decoding\<close>

text \<open>The three sparse decoders are the same loops at width 4 or 8.  Rows go in blocks of eight while they
  last, one mask byte per block; the assertion on the alignment is a debug assertion.\<close>

definition plain_value :: "nat \<Rightarrow> bytes \<Rightarrow> nat \<Rightarrow> ('e, 'w::len word) outcome" where
  "plain_value width bytes row = bind_o (slice bytes (row * width) (row * width + width)) (\<lambda>s. Ok (from_le_bytes s))"

definition sparse_lane ::
  "nat \<Rightarrow> bytes \<Rightarrow> nat \<Rightarrow> u8 \<Rightarrow> 'w::len word list \<Rightarrow> nat \<Rightarrow> ('e, 'w word list) outcome" where
  "sparse_lane width bytes row mask_byte out lane =
     (if drop_bit lane mask_byte AND 1 = 1
      then bind_o (plain_value width bytes (row + lane)) (\<lambda>v. Ok (out @ [v]))
      else Ok out)"

function sparse_blocks ::
  "nat \<Rightarrow> bytes \<Rightarrow> nat \<Rightarrow> bytes \<Rightarrow> nat \<Rightarrow> nat \<Rightarrow> 'w::len word list \<Rightarrow> ('e, nat \<times> 'w word list) outcome" where
  "sparse_blocks width bytes num_values msk bitmap_offset row out =
     (if row + 8 \<le> num_values then
        let bit_pos_base = bitmap_offset + row
        in if bit_pos_base mod 8 \<noteq> 0 then Panic ''bitmap_offset must be byte-aligned''
           else bind_o (index_o msk (bit_pos_base div 8)) (\<lambda>mask_byte.
                bind_o (if mask_byte \<noteq> 0 then fold_o (sparse_lane width bytes row mask_byte) out [0..<8] else Ok out) (\<lambda>out.
                sparse_blocks width bytes num_values msk bitmap_offset (row + 8) out))
      else Ok (row, out))"
  by pat_completeness auto
termination
  by (relation "measure (\<lambda>(width, bytes, num_values, msk, off, row, out). num_values - row)") auto

declare sparse_blocks.simps [simp del]

definition mask_bit :: "bytes \<Rightarrow> nat \<Rightarrow> ('e, bool) outcome" where
  "mask_bit msk bit_pos = bind_o (index_o msk (bit_pos div 8)) (\<lambda>b. Ok (drop_bit (bit_pos mod 8) b AND 1 = 1))"

function sparse_rows ::
  "nat \<Rightarrow> bytes \<Rightarrow> nat \<Rightarrow> bytes \<Rightarrow> nat \<Rightarrow> nat \<Rightarrow> 'w::len word list \<Rightarrow> ('e, 'w word list) outcome" where
  "sparse_rows width bytes num_values msk bitmap_offset row out =
     (if row < num_values then
        bind_o (mask_bit msk (bitmap_offset + row)) (\<lambda>set.
        bind_o (if set then bind_o (plain_value width bytes row) (\<lambda>v. Ok (out @ [v])) else Ok out) (\<lambda>out.
        sparse_rows width bytes num_values msk bitmap_offset (row + 1) out))
      else Ok out)"
  by pat_completeness auto
termination
  by (relation "measure (\<lambda>(width, bytes, num_values, msk, off, row, out). num_values - row)") auto

declare sparse_rows.simps [simp del]

definition plain_sparse_decode ::
  "nat \<Rightarrow> bytes \<Rightarrow> nat \<Rightarrow> bytes \<Rightarrow> nat \<Rightarrow> 'w::len word list \<Rightarrow> 'w word list codec_result" where
  "plain_sparse_decode width bytes num_values msk bitmap_offset out =
     bind_o (mul_usize num_values width) (\<lambda>needed.
     if length bytes < needed then Err (UnderflowingPlainBuffer width (length bytes) num_values)
     else bind_o (sparse_blocks width bytes num_values msk bitmap_offset 0 out) (\<lambda>(row, out).
          sparse_rows width bytes num_values msk bitmap_offset row out))"

definition plain_sparse_decode_i64_into :: "bytes \<Rightarrow> nat \<Rightarrow> bytes \<Rightarrow> nat \<Rightarrow> i64 list \<Rightarrow> i64 list codec_result" where
  "plain_sparse_decode_i64_into = plain_sparse_decode 8"

definition plain_sparse_decode_i32_into :: "bytes \<Rightarrow> nat \<Rightarrow> bytes \<Rightarrow> nat \<Rightarrow> i32 list \<Rightarrow> i32 list codec_result" where
  "plain_sparse_decode_i32_into = plain_sparse_decode 4"

definition plain_sparse_decode_f64_into ::
  "bytes \<Rightarrow> nat \<Rightarrow> bytes \<Rightarrow> nat \<Rightarrow> 64 word list \<Rightarrow> 64 word list codec_result" where
  "plain_sparse_decode_f64_into = plain_sparse_decode 8"

section \<open>Booleans\<close>

definition decode_plain_bool :: "bytes \<Rightarrow> nat \<Rightarrow> bool list codec_result" where
  "decode_plain_bool bytes num_values =
     (let needed = div_ceil num_values 8
      in if length bytes < needed then Err (UnderflowingPlainBuffer 1 (length bytes) num_values)
         else mapM_o (\<lambda>i. bind_o (index_o bytes (i div 8)) (\<lambda>b. Ok (drop_bit (i mod 8) b AND 1 = 1))) [0..<num_values])"

section \<open>Byte arrays\<close>

definition plain_read_u32_le :: "cursor \<Rightarrow> (u32 \<times> cursor) codec_result" where
  "plain_read_u32_le cur = bind_o (wire (cur_take 4) cur) (\<lambda>(bytes, cur). Ok (from_le_bytes bytes, cur))"

definition take_byte_array :: "cursor \<Rightarrow> (bytes \<times> cursor) codec_result" where
  "take_byte_array cur = bind_o (plain_read_u32_le cur) (\<lambda>(len, cur). wire (cur_take (unat len)) cur)"

function byte_array_loop :: "cursor \<Rightarrow> bytes list \<Rightarrow> bytes list codec_result" where
  "byte_array_loop cur out =
     (if cur_is_empty cur then Ok out
      else bind_o (take_byte_array cur) (\<lambda>(v, cur'). byte_array_loop cur' (out @ [v])))"
  by pat_completeness auto
termination
proof (relation "measure (\<lambda>(cur, out). remaining cur)")
  fix cur x and out :: "bytes list" and v cur'
  assume "\<not> cur_is_empty cur" and "take_byte_array cur = Ok x" and "(v, cur') = x"
  then show "((cur', out @ [v]), cur, out) \<in> measure (\<lambda>(cur, out). remaining cur)"
    by (auto simp: take_byte_array_def plain_read_u32_le_def bind_o_eq_Ok_iff wire_Ok_iff cur_take_def remaining_def
        split: if_splits)
qed simp

declare byte_array_loop.simps [simp del]

definition decode_plain_byte_array :: "bytes \<Rightarrow> bytes list codec_result" where
  "decode_plain_byte_array bytes = byte_array_loop (cursor_new bytes) []"

fun byte_array_rows :: "nat \<Rightarrow> cursor \<Rightarrow> bytes list \<Rightarrow> bytes list codec_result" where
  "byte_array_rows 0 cur out = Ok out"
| "byte_array_rows (Suc n) cur out = bind_o (take_byte_array cur) (\<lambda>(v, cur). byte_array_rows n cur (out @ [v]))"

definition decode_plain_byte_array_n :: "bytes \<Rightarrow> nat \<Rightarrow> bytes list codec_result" where
  "decode_plain_byte_array_n bytes n = byte_array_rows n (cursor_new bytes) []"

fun sparse_byte_arrays ::
  "nat list \<Rightarrow> bytes \<Rightarrow> nat \<Rightarrow> cursor \<Rightarrow> bytes list \<Rightarrow> bytes list codec_result" where
  "sparse_byte_arrays [] msk bitmap_offset cur out = Ok out"
| "sparse_byte_arrays (row # rows) msk bitmap_offset cur out =
     bind_o (take_byte_array cur) (\<lambda>(v, cur).
     bind_o (mask_bit msk (bitmap_offset + row)) (\<lambda>set.
     sparse_byte_arrays rows msk bitmap_offset cur (if set then out @ [v] else out)))"

definition plain_sparse_decode_byte_array_into ::
  "bytes \<Rightarrow> nat \<Rightarrow> bytes \<Rightarrow> nat \<Rightarrow> bytes list \<Rightarrow> bytes list codec_result" where
  "plain_sparse_decode_byte_array_into bytes num_values msk bitmap_offset out =
     sparse_byte_arrays [0..<num_values] msk bitmap_offset (cursor_new bytes) out"

text \<open>The running offset is checked to fit a \<open>u32\<close>.\<close>

fun sparse_offsets ::
  "nat list \<Rightarrow> bytes \<Rightarrow> nat \<Rightarrow> cursor \<Rightarrow> u32 \<Rightarrow> bytes \<Rightarrow> u32 list \<Rightarrow> (bytes \<times> u32 list) codec_result" where
  "sparse_offsets [] msk bitmap_offset cur running out_bytes out_offsets = Ok (out_bytes, out_offsets)"
| "sparse_offsets (row # rows) msk bitmap_offset cur running out_bytes out_offsets =
     bind_o (take_byte_array cur) (\<lambda>(v, cur).
     bind_o (mask_bit msk (bitmap_offset + row)) (\<lambda>set.
     if set then
       if unat running + length v < 2 ^ 32 then
         let running = running + of_nat (length v)
         in sparse_offsets rows msk bitmap_offset cur running (out_bytes @ v) (out_offsets @ [running])
       else Err (InvalidInput ''byte_array sparse-decode: offset overflow > u32::MAX'')
     else sparse_offsets rows msk bitmap_offset cur running out_bytes out_offsets))"

definition plain_sparse_decode_byte_array_offsets_into ::
  "bytes \<Rightarrow> nat \<Rightarrow> bytes \<Rightarrow> nat \<Rightarrow> bytes \<Rightarrow> u32 list \<Rightarrow> (bytes \<times> u32 list) codec_result" where
  "plain_sparse_decode_byte_array_offsets_into bytes num_values msk bitmap_offset out_bytes out_offsets =
     (let out_offsets = (if out_offsets = [] then [0] else out_offsets)
      in sparse_offsets [0..<num_values] msk bitmap_offset (cursor_new bytes) (last out_offsets) out_bytes out_offsets)"

section \<open>INT96 and fixed-length byte arrays\<close>

datatype int96 = Int96 u32 u32 u32

definition int96_new :: "u32 \<Rightarrow> u32 \<Rightarrow> u32 \<Rightarrow> int96" where
  "int96_new a b c = Int96 a b c"

fun int96_data :: "int96 \<Rightarrow> u32 list" where
  "int96_data (Int96 a b c) = [a, b, c]"

definition decode_plain_int96 :: "bytes \<Rightarrow> int96 list codec_result" where
  "decode_plain_int96 bytes =
     (if length bytes mod 12 \<noteq> 0 then Err (UnalignedPlainBuffer 12 (length bytes))
      else mapM_o (\<lambda>chunk.
             bind_o (slice chunk 0 4) (\<lambda>a. bind_o (slice chunk 4 8) (\<lambda>b. bind_o (slice chunk 8 12) (\<lambda>c.
             Ok (Int96 (from_le_bytes a) (from_le_bytes b) (from_le_bytes c))))))
           (chunks_exact 12 bytes))"

definition decode_plain_fixed_len_byte_array :: "bytes \<Rightarrow> i32 \<Rightarrow> bytes list codec_result" where
  "decode_plain_fixed_len_byte_array bytes type_length =
     (if sint type_length \<le> 0
      then Err (InvalidInput (''FIXED_LEN_BYTE_ARRAY requires type_length > 0, got '' @ decimal_signed type_length))
      else let stride = unat type_length
        in if length bytes mod stride \<noteq> 0 then Err (UnalignedPlainBuffer stride (length bytes))
           else mapM_o (\<lambda>i. slice bytes (i * stride) (i * stride + stride)) [0..<length bytes div stride])"

section \<open>The encoders of \<open>write.rs\<close>\<close>

definition encode_plain_i64 :: "i64 list \<Rightarrow> bytes" where
  "encode_plain_i64 values = foldl (\<lambda>out v. out @ to_le_bytes v) [] values"

definition encode_plain_u64 :: "u64 list \<Rightarrow> bytes" where
  "encode_plain_u64 values = foldl (\<lambda>out v. out @ to_le_bytes v) [] values"

definition encode_plain_i32 :: "i32 list \<Rightarrow> bytes" where
  "encode_plain_i32 values = foldl (\<lambda>out v. out @ to_le_bytes v) [] values"

definition encode_plain_f64 :: "64 word list \<Rightarrow> bytes" where
  "encode_plain_f64 values = foldl (\<lambda>out v. out @ to_le_bytes v) [] values"

definition set_plain_bit :: "bytes \<Rightarrow> nat \<times> bool \<Rightarrow> ('e, bytes) outcome" where
  "set_plain_bit out p = (case p of (i, v) \<Rightarrow>
     if v then bind_o (index_o out (i div 8)) (\<lambda>b. set_o out (i div 8) (b OR push_bit (i mod 8) 1)) else Ok out)"

definition encode_plain_bool :: "bool list \<Rightarrow> ('e, bytes) outcome" where
  "encode_plain_bool values =
     (let n_bytes = div_ceil (length values) 8
      in fold_o set_plain_bit (replicate n_bytes 0) (enumerate 0 values))"

definition encode_plain_byte_array :: "bytes list \<Rightarrow> bytes" where
  "encode_plain_byte_array values = foldl (\<lambda>out v. out @ to_le_bytes (of_nat (length v) :: u32) @ v) [] values"

end
