(* ===== verification/PlainProofs.thy ===== *)
theory PlainProofs
  imports Plain
begin

text \<open>
  The PLAIN decoders invert the encoders; the sparse decoders select from what the dense ones return;
  the offsets variant flattens the sparse byte arrays.  The locale \<open>fixed_width\<close> states what the
  fixed-width decoders share; it is interpreted for each physical type.
\<close>

section \<open>Chunks\<close>

lemma concat_nth_chunk:
  "\<forall>x \<in> set xss. length x = w \<Longrightarrow> i < length xss \<Longrightarrow> take w (drop (i * w) (concat xss)) = xss ! i"
proof (induction xss arbitrary: i)
  case (Cons x xss)
  then show ?case by (cases i) (simp_all add: drop_append)
qed simp

lemma length_concat_chunks: "\<forall>x \<in> set xss. length x = w \<Longrightarrow> length (concat xss) = length xss * w"
  by (induction xss) simp_all

lemma chunks_exact_concat:
  assumes "\<forall>x \<in> set xss. length x = w" and "0 < w"
  shows "chunks_exact w (concat xss) = xss"
  using concat_nth_chunk [OF assms(1)] length_concat_chunks [OF assms(1)] assms(2)
  by (intro nth_equalityI) (simp_all add: chunks_exact_def)

lemma concat_chunks_exact:
  assumes "length bs mod w = 0"
  shows "concat (chunks_exact w bs) = bs"
proof -
  have "concat (map (\<lambda>i. take w (drop (i * w) bs)) [0..<k]) = take (k * w) bs" for k
    by (induction k) (simp_all add: take_add [symmetric] add.commute)
  from this [of "length bs div w"] show ?thesis
    using assms by (simp add: chunks_exact_def minus_mod_eq_div_mult [symmetric])
qed

section \<open>Fixed-width types\<close>

definition encode_le :: "'w::len word list \<Rightarrow> bytes" where
  "encode_le vs = concat (map to_le_bytes vs)"

lemma foldl_le: "foldl (\<lambda>out v. out @ to_le_bytes v) out vs = out @ encode_le vs"
  by (induction vs arbitrary: out) (simp_all add: encode_le_def)

lemma encoders_le:
  "encode_plain_i64 vs = encode_le vs" "encode_plain_u64 vs = encode_le vs" "encode_plain_i32 ws = encode_le ws"
  "encode_plain_f64 vs = encode_le vs"
  by (simp_all add: encode_plain_i64_def encode_plain_u64_def encode_plain_i32_def encode_plain_f64_def foldl_le)

locale fixed_width =
  fixes decode :: "bytes \<Rightarrow> 'w::len word list codec_result"
    and decode_n :: "bytes \<Rightarrow> nat \<Rightarrow> 'w word list codec_result"
    and width :: nat
  assumes width: "0 < width" "8 * width = LENGTH('w)"
    and decode: "decode bs = (if length bs mod width \<noteq> 0 then Err (UnalignedPlainBuffer width (length bs))
      else Ok (plain_memcpy bs width))"
    and decode_n: "decode_n bs n = bind_o (mul_usize n width) (\<lambda>needed.
      if length bs < needed then Err (UnderflowingPlainBuffer width (length bs) n)
      else Ok (plain_memcpy (take needed bs) width))"
begin

lemma le_width: "LENGTH('w) div 8 = width"
  using width(2) by linarith

lemma length_encode: "length (encode_le (vs :: 'w word list)) = length vs * width"
  by (simp add: encode_le_def length_concat_chunks [where w = width] le_width)

lemma memcpy_encode: "plain_memcpy (encode_le vs) width = (vs :: 'w word list)"
proof -
  have "8 dvd LENGTH('w)" by (metis dvd_triv_left width(2))
  then have "map from_le_bytes (map to_le_bytes vs) = vs" by (simp add: from_to_le_bytes map_idI)
  then show ?thesis
    by (simp add: plain_memcpy_def encode_le_def chunks_exact_concat width(1) le_width)
qed

lemma encode_memcpy: "length bs mod width = 0 \<Longrightarrow> encode_le (plain_memcpy bs width :: 'w word list) = bs"
proof -
  assume "length bs mod width = 0"
  have "map to_le_bytes (plain_memcpy bs width :: 'w word list) = chunks_exact width bs"
    unfolding plain_memcpy_def map_map comp_def
  proof (rule map_idI)
    fix c assume "c \<in> set (chunks_exact width bs)"
    then have "length c = width"
      by (auto simp: chunks_exact_def less_eq_div_iff_mult_less_eq [OF width(1)] Suc_le_eq [symmetric])
    then show "to_le_bytes (from_le_bytes c :: 'w word) = c" using width(2) by (intro to_from_le_bytes) simp
  qed
  then show ?thesis using concat_chunks_exact \<open>length bs mod width = 0\<close> by (simp add: encode_le_def)
qed

lemma roundtrip: "decode (encode_le vs) = Ok vs"
  by (simp add: decode memcpy_encode length_encode)

lemma roundtrip_n: "length vs * width < 2 ^ 64 \<Longrightarrow> decode_n (encode_le vs @ post) (length vs) = Ok vs"
  by (simp add: decode_n mul_usize_def length_encode memcpy_encode)

lemma decode_encode: "decode bs = Ok vs \<Longrightarrow> encode_le vs = bs"
  by (auto simp: decode encode_memcpy split: if_splits)

end

interpretation plain_i64: fixed_width decode_plain_i64 decode_plain_i64_n 8
  by unfold_locales (simp_all add: decode_plain_i64_def decode_plain_i64_n_def)

interpretation plain_i32: fixed_width decode_plain_i32 decode_plain_i32_n 4
  by unfold_locales (simp_all add: decode_plain_i32_def decode_plain_i32_n_def)

interpretation plain_f64: fixed_width decode_plain_f64 decode_plain_f64_n 8
  by unfold_locales (simp_all add: decode_plain_f64_def decode_plain_f64_n_def)

interpretation plain_f32: fixed_width decode_plain_f32 decode_plain_f32_n 4
  by unfold_locales (simp_all add: decode_plain_f32_def decode_plain_f32_n_def)

text \<open>C34. The PLAIN decoders of the integer and floating-point types invert the encoders, with bytes
  behind the values left alone by the counted variants; and they are injective, since encoding what
  they return gives back the bytes.\<close>

theorem plain_fixed_width_roundtrip:
  "decode_plain_i64 (encode_plain_i64 xs) = Ok xs \<and> decode_plain_i64 (encode_plain_u64 xs) = Ok xs \<and>
   decode_plain_i32 (encode_plain_i32 ys) = Ok ys \<and> decode_plain_f64 (encode_plain_f64 zs) = Ok zs \<and>
   (length xs * 8 < 2 ^ 64 \<longrightarrow> decode_plain_i64_n (encode_plain_i64 xs @ post) (length xs) = Ok xs) \<and>
   (decode_plain_i64 bs = Ok xs \<longrightarrow> encode_plain_i64 xs = bs) \<and>
   (decode_plain_i32 bs = Ok ys \<longrightarrow> encode_plain_i32 ys = bs) \<and>
   (decode_plain_f64 bs = Ok zs \<longrightarrow> encode_plain_f64 zs = bs)"
  unfolding encoders_le
  by (simp add: plain_i64.roundtrip plain_i32.roundtrip plain_f64.roundtrip plain_i64.roundtrip_n
      plain_i64.decode_encode plain_i32.decode_encode plain_f64.decode_encode)

lemma plain_fixed_width_roundtrip_witness:
  "decode_plain_i64_n (encode_plain_i64 [1, - 1] @ [7]) (length [1, - 1 :: i64]) = Ok [1, - 1]"
  using plain_fixed_width_roundtrip [of "[1, - 1]" "[]" "[]" "[7]" "[]"] by simp

section \<open>Sparse decoding\<close>

lemma bit_test: "drop_bit k b AND 1 = 1 \<longleftrightarrow> bit (b :: u8) k"
  by (simp only: and_one_eq bit_iff_odd_drop_bit odd_iff_mod_2_eq_one)

lemma mask_bit_Ok: "p < 8 * length msk \<Longrightarrow> (mask_bit msk p :: ('e, bool) outcome) = Ok (stream_bit msk p)"
  by (simp add: mask_bit_def bit_test stream_bit_def less_mult_imp_div_less mult.commute)

text \<open>Row \<open>r\<close> of a fixed-width page, and the rows a mask selects.\<close>

definition row_value :: "nat \<Rightarrow> bytes \<Rightarrow> nat \<Rightarrow> 'w::len word" where
  "row_value width bytes r = from_le_bytes (take width (drop (r * width) bytes))"

definition selected :: "bytes \<Rightarrow> nat \<Rightarrow> nat \<Rightarrow> nat \<Rightarrow> nat list" where
  "selected msk off i n = filter (\<lambda>r. stream_bit msk (off + r)) [i..<n]"

lemma selected_split: "i \<le> m \<Longrightarrow> m \<le> n \<Longrightarrow> selected msk off i n = selected msk off i m @ selected msk off m n"
  unfolding selected_def by (metis filter_append le_Suc_ex upt_add_eq_append)

lemma plain_value_Ok:
  assumes "r < n" and "n * width \<le> length bytes"
  shows "(plain_value width bytes r :: ('e, 'w::len word) outcome) = Ok (row_value width bytes r)"
proof -
  have "Suc r * width \<le> n * width" using assms(1) by (intro mult_le_mono1) simp
  then show ?thesis using assms(2) by (simp add: plain_value_def slice_def row_value_def)
qed

lemma sparse_rows_Ok:
  assumes "row \<le> n" and "n * width \<le> length bytes" and "off + n \<le> 8 * length msk"
  shows "(sparse_rows width bytes n msk off row out :: ('e, 'w::len word list) outcome)
    = Ok (out @ map (row_value width bytes) (selected msk off row n))"
  using assms(1)
proof (induction "n - row" arbitrary: row out)
  case 0
  then show ?case by (subst sparse_rows.simps) (simp add: selected_def)
next
  case (Suc k)
  then have row: "row < n" by simp
  have sel: "selected msk off row n = (if stream_bit msk (off + row) then [row] else []) @ selected msk off (Suc row) n"
    using selected_split [of row "Suc row" n msk off] row by (simp add: selected_def)
  show ?case
    using Suc row assms(2,3)
    by (subst sparse_rows.simps) (simp add: mask_bit_Ok plain_value_Ok [OF row] sel)
qed

lemma sparse_lanes_Ok:
  assumes "row + 8 \<le> n" and "n * width \<le> length bytes" and "off + n \<le> 8 * length msk" and "(off + row) mod 8 = 0" and "k \<le> 8"
  shows "(fold_o (sparse_lane width bytes row (msk ! ((off + row) div 8))) out [0..<k] :: ('e, 'w::len word list) outcome)
    = Ok (out @ map (row_value width bytes) (selected msk off row (row + k)))"
  using assms(5)
proof (induction k)
  case 0
  show ?case by (simp add: selected_def)
next
  case (Suc k)
  obtain q where q: "off + row = 8 * q" using assms(4) by auto
  have "q < length msk" using q assms(1,3) by linarith
  then have bit: "bit (msk ! q) k \<longleftrightarrow> stream_bit msk (off + row + k)" using q Suc.prems by (simp add: stream_bit_def)
  have pos: "off + (row + k) = 8 * q + k" using q by simp
  have sel: "selected msk off row (Suc (row + k)) =
      selected msk off row (row + k) @ (if stream_bit msk (8 * q + k) then [row + k] else [])"
    using selected_split [of row "row + k" "Suc (row + k)" msk off] by (simp add: selected_def pos)
  have "row + k < n" using Suc.prems assms(1) by simp
  note v = plain_value_Ok [OF this assms(2)]
  show ?case
    using Suc.prems Suc.IH
    by (simp add: fold_o_append sparse_lane_def bit_test q bit sel v)
qed

lemma sparse_blocks_Ok:
  assumes "row \<le> n" and "n * width \<le> length bytes" and "off + n \<le> 8 * length msk" and "(off + row) mod 8 = 0 \<or> n < row + 8"
  shows "\<exists>row'. (sparse_blocks width bytes n msk off row out :: ('e, nat \<times> 'w::len word list) outcome)
    = Ok (row', out @ map (row_value width bytes) (selected msk off row row')) \<and> row \<le> row' \<and> row' \<le> n"
  using assms(1,4)
proof (induction "n - row" arbitrary: row out rule: less_induct)
  case less
  show ?case
  proof (cases "row + 8 \<le> n")
    case False
    then show ?thesis using less.prems by (subst sparse_blocks.simps) (auto simp: selected_def)
  next
    case True
    then have al: "(off + row) mod 8 = 0" using less.prems by simp
    let ?out = "out @ map (row_value width bytes) (selected msk off row (row + 8))"
    have ix: "(off + row) div 8 < length msk" using True assms(3) by linarith
    have zero: "selected msk off row (row + 8) = []" if zero_byte: "msk ! ((off + row) div 8) = 0"
    proof -
      have "\<not> stream_bit msk (off + row + k)" if "k < 8" for k
      proof -
        obtain q where "off + row = 8 * q" using al by auto
        then have "(off + row + k) div 8 = (off + row) div 8" using that by simp
        with zero_byte have z: "msk ! ((off + row + k) div 8) = 0" by (simp only:)
        show ?thesis unfolding stream_bit_def z by simp
      qed
      then show ?thesis by (auto simp: selected_def filter_empty_conv dest!: le_Suc_ex simp: add.assoc [symmetric])
    qed
    have al': "(off + (row + 8)) mod 8 = 0 \<or> n < row + 8 + 8" and dec: "n - (row + 8) < n - row"
      using al True by (presburger, linarith)
    from less.hyps [OF dec True al', of ?out] obtain row' where "(sparse_blocks width bytes n msk off (row + 8) ?out :: ('e, nat \<times> 'w word list) outcome)
        = Ok (row', ?out @ map (row_value width bytes) (selected msk off (row + 8) row'))" "row + 8 \<le> row'" "row' \<le> n"
      by blast
    moreover from this have "selected msk off row row' = selected msk off row (row + 8) @ selected msk off (row + 8) row'"
      by (intro selected_split) simp_all
    moreover have "(if msk ! ((off + row) div 8) \<noteq> 0 then fold_o (sparse_lane width bytes row (msk ! ((off + row) div 8))) out [0..<8]
        else Ok out) = (Ok ?out :: ('e, 'w word list) outcome)"
      using sparse_lanes_Ok [OF True assms(2,3) al, of 8 out, where 'e = 'e] zero by simp
    ultimately show ?thesis
      using True al ix by (subst sparse_blocks.simps) (auto simp: Let_def)
  qed
qed

lemma plain_sparse_decode_Ok:
  fixes out :: "'w::len word list"
  assumes "n * width \<le> length bytes" and "length bytes < 2 ^ 64" and "off + n \<le> 8 * length msk" and "off mod 8 = 0"
  shows "plain_sparse_decode width bytes n msk off out = Ok (out @ map (row_value width bytes) (selected msk off 0 n))"
proof -
  from sparse_blocks_Ok [of 0 n width bytes off msk out, where 'e = codec_error] assms obtain row where
    b: "sparse_blocks width bytes n msk off 0 out = (Ok (row, out @ map (row_value width bytes) (selected msk off 0 row)) :: (nat \<times> 'w word list) codec_result)"
    "row \<le> n" by auto
  from selected_split [of 0 row n msk off] b(2)
  have "selected msk off 0 n = selected msk off 0 row @ selected msk off row n" by simp
  then show ?thesis
    using assms b sparse_rows_Ok [of row n width bytes off msk "out @ map (row_value width bytes) (selected msk off 0 row)", where 'e = codec_error]
    by (simp add: plain_sparse_decode_def mul_usize_def)
qed

lemma row_value_memcpy:
  "n * width \<le> length bytes \<Longrightarrow> 0 < width \<Longrightarrow> r < n \<Longrightarrow> plain_memcpy (take (n * width) bytes) width ! r = row_value width bytes r"
proof -
  assume n: "n * width \<le> length bytes" "0 < width" "r < n"
  then have "Suc r * width \<le> n * width" by (intro mult_le_mono1) simp
  then have "take width (drop (r * width) (take (n * width) bytes)) = take width (drop (r * width) bytes)"
    by (simp add: take_drop min_def)
  then show ?thesis using n by (simp add: plain_memcpy_def chunks_exact_def row_value_def min_def)
qed

lemma selected_memcpy:
  "n * w \<le> length bytes \<Longrightarrow> 0 < w \<Longrightarrow> map (row_value w bytes) (selected msk off 0 n)
     = map ((!) (plain_memcpy (take (n * w) bytes) w)) (filter (\<lambda>r. stream_bit msk (off + r)) [0..<n])"
  by (auto simp: selected_def row_value_memcpy)

lemma sparse_memcpy:
  assumes "n * w \<le> length bytes" and "length bytes < 2 ^ 64" and "off mod 8 = 0" and "off + n \<le> 8 * length msk" and "0 < w"
  shows "plain_sparse_decode w bytes n msk off out
    = Ok (out @ map ((!) (plain_memcpy (take (n * w) bytes) w)) (filter (\<lambda>r. stream_bit msk (off + r)) [0..<n]))"
  using plain_sparse_decode_Ok [OF assms(1,2,4,3)] selected_memcpy [OF assms(1,5)] by metis

text \<open>C35. The sparse decoders return, behind what was there, exactly the values of the dense decoder whose
  bit is set in the mask, in row order; for the three types.\<close>

theorem plain_sparse_selects_dense:
  assumes "off mod 8 = 0" and "off + n \<le> 8 * length msk" and "length bytes < 2 ^ 64"
  shows "(decode_plain_i64_n bytes n = Ok vs \<longrightarrow> plain_sparse_decode_i64_into bytes n msk off out
      = Ok (out @ map ((!) vs) (filter (\<lambda>r. stream_bit msk (off + r)) [0..<n]))) \<and>
    (decode_plain_f64_n bytes n = Ok vs \<longrightarrow> plain_sparse_decode_f64_into bytes n msk off out
      = Ok (out @ map ((!) vs) (filter (\<lambda>r. stream_bit msk (off + r)) [0..<n]))) \<and>
    (decode_plain_i32_n bytes n = Ok ws \<longrightarrow> plain_sparse_decode_i32_into bytes n msk off out'
      = Ok (out' @ map ((!) ws) (filter (\<lambda>r. stream_bit msk (off + r)) [0..<n])))"
  unfolding plain_i64.decode_n plain_i32.decode_n plain_f64.decode_n plain_sparse_decode_i64_into_def
    plain_sparse_decode_i32_into_def plain_sparse_decode_f64_into_def
  using assms by (intro conjI impI) (auto simp: mul_usize_def sparse_memcpy split: if_splits)

lemma plain_sparse_selects_dense_witness:
  "plain_sparse_decode_i32_into [1, 0, 0, 0, 2, 0, 0, 0, 3, 0, 0, 0] 3 [5] 0 [9] = Ok [9, 1, 3]"
proof -
  have "decode_plain_i32_n [1, 0, 0, 0, 2, 0, 0, 0, 3, 0, 0, 0] 3 = Ok [1, 2, 3]"
    by (simp add: decode_plain_i32_n_def mul_usize_def plain_memcpy_def chunks_exact_def upt_rec)
  moreover have "filter (\<lambda>r. stream_bit [5] (0 + r)) [0..<3] = [0, 2]" by code_simp
  ultimately show ?thesis
    using plain_sparse_selects_dense [of 0 3 "[5]" "[1, 0, 0, 0, 2, 0, 0, 0, 3, 0, 0, 0]" "[]" "[]" "[1, 2, 3]" "[9]"] by simp
qed

section \<open>Booleans\<close>

lemma set_plain_bits_Ok:
  "k + length vs \<le> 8 * length bs \<Longrightarrow> \<exists>bs'. (fold_o set_plain_bit bs (enumerate k vs) :: ('e, bytes) outcome) = Ok bs' \<and>
    length bs' = length bs \<and> (\<forall>n. stream_bit bs' n \<longleftrightarrow> stream_bit bs n \<or> k \<le> n \<and> n < k + length vs \<and> vs ! (n - k))"
proof (induction vs arbitrary: k bs)
  case (Cons v vs)
  let ?bs = "if v then bs[k div 8 := bs ! (k div 8) OR push_bit (k mod 8) 1] else bs"
  have ix: "k div 8 < length bs" using Cons.prems by (simp add: less_mult_imp_div_less)
  have step: "(set_plain_bit bs (k, v) :: ('e, bytes) outcome) = Ok ?bs" using ix by (simp add: set_plain_bit_def)
  have bit: "stream_bit ?bs n \<longleftrightarrow> stream_bit bs n \<or> n = k \<and> v" for n
  proof (cases "n div 8 = k div 8")
    case True
    then have "n = k \<longleftrightarrow> n mod 8 = k mod 8" by (metis div_mult_mod_eq)
    then show ?thesis using True ix by (auto simp: stream_bit_def bit_simps)
  next
    case False
    then show ?thesis by (auto simp: stream_bit_def nth_list_update)
  qed
  have "Suc k + length vs \<le> 8 * length ?bs" using Cons.prems by simp
  from Cons.IH [OF this] obtain bs' where
    "(fold_o set_plain_bit ?bs (enumerate (Suc k) vs) :: ('e, bytes) outcome) = Ok bs'" "length bs' = length ?bs"
    "\<forall>n. stream_bit bs' n \<longleftrightarrow> stream_bit ?bs n \<or> Suc k \<le> n \<and> n < Suc k + length vs \<and> vs ! (n - Suc k)" by blast
  moreover from this(3) have "stream_bit bs' n \<longleftrightarrow> stream_bit bs n \<or> k \<le> n \<and> n < k + length (v # vs) \<and> (v # vs) ! (n - k)" for n
    unfolding bit by (cases "n = k") (auto simp: nth_Cons' Suc_le_eq)
  ultimately show ?case using step by auto
qed auto

text \<open>C36. Booleans: encoding never panics and decoding the packed bytes gives the values back.\<close>

theorem plain_bool_roundtrip:
  "\<exists>bs. (encode_plain_bool vs :: bytes codec_result) = Ok bs \<and> decode_plain_bool (bs @ post) (length vs) = Ok vs"
proof -
  let ?n = "div_ceil (length vs) 8"
  have room: "0 + length vs \<le> 8 * length (replicate ?n (0 :: u8))" by (simp add: div_ceil_def)
  from set_plain_bits_Ok [OF room] obtain bs where
    bs: "(fold_o set_plain_bit (replicate ?n 0) (enumerate 0 vs) :: bytes codec_result) = Ok bs" "length bs = ?n"
      "\<forall>n. stream_bit bs n \<longleftrightarrow> n < length vs \<and> vs ! n" by (auto simp: stream_bit_replicate_0)
  have "bind_o (index_o (bs @ post) (i div 8)) (\<lambda>b. Ok (drop_bit (i mod 8) b AND 1 = 1)) = (Ok (vs ! i) :: bool codec_result)"
    if "i \<in> set [0..<length vs]" for i
  proof -
    have "i div 8 < length bs" using that room bs(2) by (simp add: less_mult_imp_div_less)
    then show ?thesis using bs(3) [rule_format, of i] that by (simp add: bit_test nth_append stream_bit_def)
  qed
  then have "mapM_o (\<lambda>i. bind_o (index_o (bs @ post) (i div 8)) (\<lambda>b. Ok (drop_bit (i mod 8) b AND 1 = 1))) [0..<length vs]
      = (Ok (map ((!) vs) [0..<length vs]) :: bool list codec_result)"
    by (rule mapM_o_all_Ok)
  then have "decode_plain_bool (bs @ post) (length vs) = Ok vs"
    using bs(2) by (simp add: decode_plain_bool_def Let_def map_nth)
  with bs(1) show ?thesis by (auto simp: encode_plain_bool_def Let_def)
qed

section \<open>Byte arrays\<close>

definition byte_array_bytes :: "bytes \<Rightarrow> bytes" where
  "byte_array_bytes v = to_le_bytes (of_nat (length v) :: u32) @ v"

lemma encode_byte_arrays: "encode_plain_byte_array vs = concat (map byte_array_bytes vs)"
proof -
  have "foldl (\<lambda>out v. out @ to_le_bytes (of_nat (length v) :: u32) @ v) out vs = out @ concat (map byte_array_bytes vs)" for out
    by (induction vs arbitrary: out) (simp_all add: byte_array_bytes_def)
  then show ?thesis by (simp add: encode_plain_byte_array_def)
qed

lemma take_byte_array_Ok:
  assumes "length v < 2 ^ 32" and "rest cur = byte_array_bytes v @ post"
  shows "take_byte_array cur = Ok (v, adv cur (length (byte_array_bytes v)))"
    and "rest (adv cur (length (byte_array_bytes v))) = post"
proof -
  let ?l = "to_le_bytes (of_nat (length v) :: u32)"
  have r: "rest cur = ?l @ v @ post" using assms(2) by (simp add: byte_array_bytes_def)
  have "wire (cur_take 4) cur = Ok (?l, adv cur 4)" using wire_reads [OF reads_take r] by simp
  moreover have r': "rest (adv cur 4) = v @ post" using rest_adv [OF r] by simp
  moreover have "wire (cur_take (length v)) (adv cur 4) = Ok (v, adv (adv cur 4) (length v))"
    using wire_reads [OF reads_take r'] .
  moreover have "unat (of_nat (length v) :: u32) = length v"
    using assms(1) by (simp add: unsigned_of_nat take_bit_nat_eq_self)
  ultimately show "take_byte_array cur = Ok (v, adv cur (length (byte_array_bytes v)))"
    by (simp add: take_byte_array_def plain_read_u32_le_def byte_array_bytes_def)
  show "rest (adv cur (length (byte_array_bytes v))) = post" using assms(2) by (rule rest_adv)
qed

lemma rest_empty: "cursor_ok cur \<Longrightarrow> cur_is_empty cur \<longleftrightarrow> rest cur = []"
  by (auto simp: cur_is_empty_def rest_def cursor_ok_def)

lemma byte_array_loop_Ok:
  "\<forall>v \<in> set vs. length v < 2 ^ 32 \<Longrightarrow> rest cur = concat (map byte_array_bytes vs) \<Longrightarrow>
     byte_array_loop cur out = Ok (out @ vs)"
proof (induction vs arbitrary: cur out)
  case Nil
  then have "cur_is_empty cur" by (simp add: cur_is_empty_def rest_def)
  then show ?case by (subst byte_array_loop.simps) simp
next
  case (Cons v vs)
  then have r: "rest cur = byte_array_bytes v @ concat (map byte_array_bytes vs)" and v: "length v < 2 ^ 32" by simp_all
  from r have "0 < length (rest cur)" by (simp add: byte_array_bytes_def)
  then have "\<not> cur_is_empty cur" by (simp add: cur_is_empty_def rest_def)
  then show ?case
    using Cons.IH [OF _ take_byte_array_Ok(2) [OF v r]] Cons.prems(1) take_byte_array_Ok(1) [OF v r]
    by (subst byte_array_loop.simps) simp
qed

lemma byte_array_rows_Ok:
  "\<forall>v \<in> set vs. length v < 2 ^ 32 \<Longrightarrow> rest cur = concat (map byte_array_bytes vs) @ post \<Longrightarrow>
     byte_array_rows (length vs) cur out = Ok (out @ vs)"
proof (induction vs arbitrary: cur out)
  case (Cons v vs)
  then have r: "rest cur = byte_array_bytes v @ concat (map byte_array_bytes vs) @ post" and v: "length v < 2 ^ 32" by simp_all
  show ?case
    using Cons.IH [OF _ take_byte_array_Ok(2) [OF v r]] Cons.prems(1) take_byte_array_Ok(1) [OF v r] by simp
qed simp

text \<open>C37. Byte arrays round trip, and the counted decoder leaves what follows alone.\<close>

theorem plain_byte_array_roundtrip:
  assumes "\<forall>v \<in> set vs. length v < 2 ^ 32"
  shows "decode_plain_byte_array (encode_plain_byte_array vs) = Ok vs \<and>
    decode_plain_byte_array_n (encode_plain_byte_array vs @ post) (length vs) = Ok vs"
  using byte_array_loop_Ok [OF assms, of "cursor_new (encode_plain_byte_array vs)" "[]"]
    byte_array_rows_Ok [OF assms, of "cursor_new (encode_plain_byte_array vs @ post)" post "[]"]
  by (simp add: decode_plain_byte_array_def decode_plain_byte_array_n_def encode_byte_arrays rest_def cursor_new_def)

lemma plain_byte_array_roundtrip_witness:
  "decode_plain_byte_array (encode_plain_byte_array [[1, 2], [], [3]]) = Ok [[1, 2], [], [3]] \<and>
    decode_plain_byte_array_n (encode_plain_byte_array [[1, 2], [], [3]] @ [9]) (length [[1, 2], [], [3 :: u8]]) = Ok [[1, 2], [], [3]]"
  by (rule plain_byte_array_roundtrip) simp

text \<open>The offsets variant is a flattening of the other: the bytes are the concatenation of the values and
  each offset is the end of one value.\<close>

fun ends_from :: "u32 \<Rightarrow> bytes list \<Rightarrow> u32 list" where
  "ends_from start [] = []"
| "ends_from start (v # vs) = (start + of_nat (length v)) # ends_from (start + of_nat (length v)) vs"

lemma sparse_byte_arrays_append:
  "sparse_byte_arrays rows msk off cur out = bind_o (sparse_byte_arrays rows msk off cur []) (\<lambda>vs. Ok (out @ vs))"
proof (induction rows arbitrary: cur out)
  case (Cons row rows)
  have eq: "sparse_byte_arrays rows msk off c (if b then out @ [v] else out)
      = bind_o (sparse_byte_arrays rows msk off c (if b then [v] else [])) (\<lambda>vs. Ok (out @ vs))" for c v b
    using Cons [of c "out @ [v]"] Cons [of c "[v]"] Cons [of c out] by (simp add: bind_o_assoc)
  show ?case by (simp add: bind_o_assoc case_prod_unfold eq cong: if_cong)
qed simp

lemma sparse_offsets_flatten:
  assumes "sparse_byte_arrays rows msk off cur [] = Ok vs" and "unat running + length (concat vs) < 2 ^ 32"
  shows "sparse_offsets rows msk off cur running out_bytes out_offsets
    = Ok (out_bytes @ concat vs, out_offsets @ ends_from running vs)"
  using assms
proof (induction rows arbitrary: cur running out_bytes out_offsets vs)
  case (Cons row rows)
  from Cons.prems(1) obtain v cur' b where t: "take_byte_array cur = Ok (v, cur')"
    and b: "(mask_bit msk (off + row) :: bool codec_result) = Ok b"
    and r: "sparse_byte_arrays rows msk off cur' (if b then [v] else []) = Ok vs"
    by (auto simp: bind_o_eq_Ok_iff cong: if_cong)
  show ?case
  proof (cases b)
    case True
    then have "sparse_byte_arrays rows msk off cur' [v] = Ok vs" using r by simp
    then obtain vs' where vs': "sparse_byte_arrays rows msk off cur' [] = Ok vs'" "vs = v # vs'"
      unfolding sparse_byte_arrays_append [of rows msk off cur' "[v]"] by (auto simp: bind_o_eq_Ok_iff)
    have fit: "unat running + length v < 2 ^ 32" using Cons.prems(2) vs'(2) by simp
    then have "unat (running + of_nat (length v)) = unat running + length v"
      by (simp add: unat_word_ariths unsigned_of_nat take_bit_nat_eq_self)
    then have "unat (running + of_nat (length v)) + length (concat vs') < 2 ^ 32" using Cons.prems(2) vs'(2) by simp
    from Cons.IH [OF vs'(1) this] show ?thesis using t b True fit vs'(2) by (simp add: Let_def)
  next
    case False
    with r have "sparse_byte_arrays rows msk off cur' [] = Ok vs" by simp
    from Cons.IH [OF this Cons.prems(2)] show ?thesis using t b False by simp
  qed
qed simp

text \<open>The Arrow-style sparse decoder returns the concatenation of what the plain one returns and the
  running ends of the values, continuing from the last offset, as long as the ends fit 32 bits.\<close>

theorem plain_sparse_offsets_flatten:
  assumes "plain_sparse_decode_byte_array_into bytes n msk off [] = Ok vs"
    and "unat (last (0 # offsets)) + length (concat vs) < 2 ^ 32"
  shows "plain_sparse_decode_byte_array_offsets_into bytes n msk off out_bytes offsets =
    Ok (out_bytes @ concat vs, (if offsets = [] then [0] else offsets) @ ends_from (last (0 # offsets)) vs)"
  using sparse_offsets_flatten [of "[0..<n]" msk off "cursor_new bytes" vs "last (0 # offsets)"] assms
  by (auto simp: plain_sparse_decode_byte_array_into_def plain_sparse_decode_byte_array_offsets_into_def Let_def)

lemma plain_sparse_offsets_flatten_witness:
  "plain_sparse_decode_byte_array_offsets_into [1, 0, 0, 0, 7, 2, 0, 0, 0, 8, 9] 2 [2] 0 [5] [0, 1] = Ok ([5, 8, 9], [0, 1, 3])"
proof -
  have "plain_sparse_decode_byte_array_into [1, 0, 0, 0, 7, 2, 0, 0, 0, 8, 9] 2 [2] 0 [] = Ok [[8, 9]]" by code_simp
  from plain_sparse_offsets_flatten [OF this, of "[0, 1]" "[5]"] show ?thesis by simp
qed

end
