(* ===== verification/Dict.thy ===== *)
theory Dict
  imports ErrorText PlainProofs RleRoundtrip BitPack
begin

text \<open>
  \<open>ematix-parquet-codec/src/dict.rs\<close>: the readers of \<open>RLE_DICTIONARY\<close> data pages.  A page body is one
  byte of bit width and a stream of runs.  The five readers of the source repeat one loop over the
  runs and differ in what they do with a run; here the loop is \<open>dict_runs\<close>, with a handler per
  reader.  A handler gets the run, the number of rows before it and the number of its values still
  wanted.  Vectors are lists, \<open>Vec::reserve\<close> and the prefetch hints have no effect on values.
\<close>

section \<open>Runs\<close>

datatype dict_run = Packed_Run bytes nat | Rle_Run u32 nat

fun run_count :: "dict_run \<Rightarrow> nat" where
  "run_count (Packed_Run chunk nvals) = nvals"
| "run_count (Rle_Run idx count) = count"

definition read_run :: "nat \<Rightarrow> cursor \<Rightarrow> (dict_run \<times> cursor) codec_result" where
  "read_run bit_width cur =
     bind_o (wire read_uvarint cur) (\<lambda>(header, cur).
     let is_bit_packed = (header AND 1 = 1);
         count = unat (drop_bit 1 header)
     in if is_bit_packed then
          bind_o (mul_usize count 8) (\<lambda>nvals.
          bind_o (mul_usize nvals bit_width) (\<lambda>bits.
          bind_o (wire (cur_take (div_ceil bits 8)) cur) (\<lambda>(chunk, cur).
          Ok (Packed_Run chunk nvals, cur))))
        else
          let value_bytes = div_ceil bit_width 8
          in bind_o (wire (cur_take value_bytes) cur) (\<lambda>(value_chunk, cur).
             bind_o (acc_bytes value_chunk 0 value_bytes) (\<lambda>idx.
             Ok (Rle_Run idx count, cur))))"

lemma remaining_read_run: "read_run bw cur = Ok (run, cur') \<Longrightarrow> remaining cur' < remaining cur"
  by (fastforce simp: read_run_def bind_o_eq_Ok_iff wire_Ok_iff Let_def split: if_splits
      dest: remaining_uvarint remaining_take)

function dict_runs ::
  "(dict_run \<Rightarrow> nat \<Rightarrow> nat \<Rightarrow> 's \<Rightarrow> 's codec_result) \<Rightarrow> nat \<Rightarrow> nat \<Rightarrow> cursor \<Rightarrow> nat \<Rightarrow> 's \<Rightarrow> 's codec_result" where
  "dict_runs handle bit_width num_values cur emitted s =
     (if emitted < num_values then
        bind_o (read_run bit_width cur) (\<lambda>(run, cur').
        let to_emit = min (num_values - emitted) (run_count run)
        in bind_o (handle run emitted to_emit s) (\<lambda>s'.
           dict_runs handle bit_width num_values cur' (emitted + to_emit) s'))
      else Ok s)"
  by pat_completeness auto
termination
  by (relation "measure (\<lambda>(handle, bw, num, cur, emitted, s). remaining cur)")
    (auto dest: remaining_read_run)

declare dict_runs.simps [simp del]

section \<open>Indices\<close>

fun index_run :: "nat \<Rightarrow> dict_run \<Rightarrow> nat \<Rightarrow> nat \<Rightarrow> u32 list \<Rightarrow> u32 list codec_result" where
  "index_run bit_width (Packed_Run chunk nvals) emitted to_emit out = unpack_indices_into chunk to_emit bit_width out"
| "index_run bit_width (Rle_Run idx count) emitted to_emit out = Ok (out @ replicate to_emit idx)"

definition decode_rle_dictionary_indices_into :: "bytes \<Rightarrow> nat \<Rightarrow> u32 list \<Rightarrow> u32 list codec_result" where
  "decode_rle_dictionary_indices_into body num_values out =
     (if body = [] then Err EmptyDictPageBody
      else let bit_width = unat (hd body)
      in if bit_width > 32 then Err (BitWidthOutOfRange bit_width)
      else if num_values = 0 then Ok out
      else if bit_width = 0 then
        bind_o (add_usize (length out) num_values) (\<lambda>new_len. Ok (out @ replicate (new_len - length out) 0))
      else dict_runs (index_run bit_width) bit_width num_values (cursor_new (tl body)) 0 out)"

definition decode_rle_dictionary_indices :: "bytes \<Rightarrow> nat \<Rightarrow> u32 list codec_result" where
  "decode_rle_dictionary_indices body num_values = decode_rle_dictionary_indices_into body num_values []"

text \<open>The UTF-8 bytes of the sign in the source's messages.\<close>

definition geq_sign :: string where
  "geq_sign = [CHR 0xE2, CHR 0x89, CHR 0xA5]"

text \<open>Narrowing to \<open>u8\<close>, with the debug assertion on every index.\<close>

definition narrow_u8 :: "u32 \<Rightarrow> u8 codec_result" where
  "narrow_u8 v = (if v < 256 then Ok (ucast v) else Panic (''u8-narrow: dict index '' @ decimal (unat v) @ '' '' @ geq_sign @ '' 256''))"

definition decode_rle_dictionary_indices_u8_into :: "bytes \<Rightarrow> nat \<Rightarrow> u8 list \<Rightarrow> u8 list codec_result" where
  "decode_rle_dictionary_indices_u8_into body num_values out =
     (if body = [] then Err EmptyDictPageBody
      else let bit_width = unat (hd body)
      in if bit_width > 8 then Err (BitWidthOutOfRange bit_width)
      else bind_o (decode_rle_dictionary_indices body num_values) (\<lambda>wide.
           bind_o (mapM_o narrow_u8 wide) (\<lambda>vs. Ok (out @ vs))))"

definition decode_rle_dictionary_indices_u8 :: "bytes \<Rightarrow> nat \<Rightarrow> u8 list codec_result" where
  "decode_rle_dictionary_indices_u8 body num_values =
     (if body = [] then Err EmptyDictPageBody
      else let bit_width = unat (hd body)
      in if bit_width > 8 then Err (BitWidthOutOfRange bit_width)
      else bind_o (decode_rle_dictionary_indices body num_values) (mapM_o narrow_u8))"

section \<open>Values\<close>

definition dict_entry :: "'v list \<Rightarrow> u32 \<Rightarrow> 'v codec_result" where
  "dict_entry dict idx =
     (if unat idx \<ge> length dict then Err (DictIndexOutOfRange (unat idx) (length dict)) else Ok (dict ! unat idx))"

definition lookup_dict :: "'v list \<Rightarrow> u32 list \<Rightarrow> 'v list codec_result" where
  "lookup_dict dict indices = mapM_o (dict_entry dict) indices"

fun value_run :: "nat \<Rightarrow> 'v list \<Rightarrow> dict_run \<Rightarrow> nat \<Rightarrow> nat \<Rightarrow> 'v list \<Rightarrow> 'v list codec_result" where
  "value_run bit_width dict (Packed_Run chunk nvals) emitted to_emit out = unpack_lookup_into chunk to_emit bit_width dict out"
| "value_run bit_width dict (Rle_Run idx count) emitted to_emit out =
     bind_o (dict_entry dict idx) (\<lambda>v. Ok (out @ replicate to_emit v))"

definition decode_rle_dictionary_into :: "bytes \<Rightarrow> 'v list \<Rightarrow> nat \<Rightarrow> 'v list \<Rightarrow> 'v list codec_result" where
  "decode_rle_dictionary_into body dict num_values out =
     (if body = [] then Err EmptyDictPageBody
      else let bit_width = unat (hd body)
      in if bit_width > 32 then Err (BitWidthOutOfRange bit_width)
      else if num_values = 0 then Ok out
      else if bit_width = 0 then
        if dict = [] then Err (DictIndexOutOfRange 0 0) else Ok (out @ replicate num_values (dict ! 0))
      else dict_runs (value_run bit_width dict) bit_width num_values (cursor_new (tl body)) 0 out)"

end
