(* ===== verification/DictBitmap.thy ===== *)
theory DictBitmap
  imports Dict
begin

text \<open>
  \<open>ematix-parquet-codec/src/dict.rs\<close>, continued: the readers that work on bitmaps of rows.  The
  predicate reader turns a page into a bitmap of the rows whose dictionary entry satisfies a
  predicate, the gather reader materialises the rows of such a bitmap.  Sums of row numbers are
  natural numbers: one that overflows a \<open>usize\<close> is past the end of every bitmap.  The NEON and AVX2
  kernels \<open>fused_bitmap_chunk\<close> branches to for six widths are not modelled.
\<close>

section \<open>Predicate bitmaps\<close>

text \<open>A raw read \<open>*dict_mask.get_unchecked(idx)\<close>: \<open>Stuck\<close> where it is undefined behaviour.\<close>

definition get_unchecked :: "'a list \<Rightarrow> nat \<Rightarrow> ('e, 'a) outcome" where
  "get_unchecked xs i = (if i < length xs then Ok (xs ! i) else Stuck)"

definition splat_bit :: "bytes \<Rightarrow> nat \<Rightarrow> nat \<Rightarrow> ('e, bytes) outcome" where
  "splat_bit out out_start row = or_byte out (out_start + row div 8) (push_bit (row mod 8) 1)"

function splat_head :: "bytes \<Rightarrow> nat \<Rightarrow> nat \<Rightarrow> nat \<Rightarrow> ('e, bytes \<times> nat) outcome" where
  "splat_head out out_start row end_row =
     (if row < end_row \<and> row mod 8 \<noteq> 0
      then bind_o (splat_bit out out_start row) (\<lambda>out. splat_head out out_start (row + 1) end_row)
      else Ok (out, row))"
  by pat_completeness auto
termination by (relation "measure (\<lambda>(out, out_start, row, end_row). end_row - row)") auto

function splat_bytes :: "bytes \<Rightarrow> nat \<Rightarrow> nat \<Rightarrow> nat \<Rightarrow> ('e, bytes \<times> nat) outcome" where
  "splat_bytes out out_start row end_row =
     (if row + 8 \<le> end_row
      then bind_o (set_o out (out_start + row div 8) 0xFF) (\<lambda>out. splat_bytes out out_start (row + 8) end_row)
      else Ok (out, row))"
  by pat_completeness auto
termination by (relation "measure (\<lambda>(out, out_start, row, end_row). end_row - row)") auto

function splat_tail :: "bytes \<Rightarrow> nat \<Rightarrow> nat \<Rightarrow> nat \<Rightarrow> ('e, bytes) outcome" where
  "splat_tail out out_start row end_row =
     (if row < end_row
      then bind_o (splat_bit out out_start row) (\<lambda>out. splat_tail out out_start (row + 1) end_row)
      else Ok out)"
  by pat_completeness auto
termination by (relation "measure (\<lambda>(out, out_start, row, end_row). end_row - row)") auto

declare splat_head.simps [simp del] splat_bytes.simps [simp del] splat_tail.simps [simp del]

definition splat_ones :: "bytes \<Rightarrow> nat \<Rightarrow> nat \<Rightarrow> nat \<Rightarrow> ('e, bytes) outcome" where
  "splat_ones out out_start start_row end_row =
     (if start_row \<ge> end_row then Ok out
      else bind_o (splat_head out out_start start_row end_row) (\<lambda>(out, row).
           bind_o (splat_bytes out out_start row end_row) (\<lambda>(out, row).
           splat_tail out out_start row end_row)))"

text \<open>The portable path of \<open>fused_bitmap_chunk\<close>: unpack the indices, then eight mask entries a byte.\<close>

definition mask_lane :: "bytes \<Rightarrow> u32 list \<Rightarrow> nat \<Rightarrow> u8 \<Rightarrow> nat \<Rightarrow> u8 codec_result" where
  "mask_lane dict_mask idxs base byte lane =
     bind_o (get_unchecked idxs (base + lane)) (\<lambda>idx.
     bind_o (get_unchecked dict_mask (unat idx)) (\<lambda>b.
     Ok (byte OR push_bit lane b)))"

definition mask_byte_at :: "bytes \<Rightarrow> u32 list \<Rightarrow> nat \<Rightarrow> nat \<Rightarrow> u8 codec_result" where
  "mask_byte_at dict_mask idxs base lanes = fold_o (mask_lane dict_mask idxs base) 0 [0..<lanes]"

definition fused_bitmap_chunk :: "bytes \<Rightarrow> nat \<Rightarrow> nat \<Rightarrow> bytes \<Rightarrow> bytes \<Rightarrow> bytes codec_result" where
  "fused_bitmap_chunk chunk bit_width n dict_mask out =
     bind_o (unpack_indices_into chunk n bit_width []) (\<lambda>idxs.
     if length idxs \<noteq> n then Panic ''assertion `left == right` failed''
     else let full_blocks = n div 8; tail = n mod 8
          in bind_o (mapM_o (\<lambda>blk. mask_byte_at dict_mask idxs (blk * 8) 8) [0..<full_blocks]) (\<lambda>bs.
             if tail > 0
             then bind_o (mask_byte_at dict_mask idxs (full_blocks * 8) tail) (\<lambda>byte. Ok (out @ bs @ [byte]))
             else Ok (out @ bs)))"

text \<open>\<open>out[a..a + n].copy_from_slice(&tmp)\<close>.\<close>

definition copy_from_slice :: "bytes \<Rightarrow> nat \<Rightarrow> nat \<Rightarrow> bytes \<Rightarrow> ('e, bytes) outcome" where
  "copy_from_slice out a n tmp =
     (if a + n > length out then Panic ''range end index out of range for slice''
      else if length tmp \<noteq> n then Panic ''source slice length does not match destination slice length''
      else Ok (take a out @ tmp @ drop (a + n) out))"

definition merge_bit :: "bytes \<Rightarrow> nat \<Rightarrow> nat \<Rightarrow> bytes \<Rightarrow> nat \<Rightarrow> ('e, bytes) outcome" where
  "merge_bit tmp out_start emitted out i =
     bind_o (index_o tmp (i div 8)) (\<lambda>b.
     let src_bit = drop_bit (i mod 8) b AND 1; row = emitted + i
     in or_byte out (out_start + row div 8) (push_bit (row mod 8) src_bit))"

fun bitmap_run ::
  "nat \<Rightarrow> nat \<Rightarrow> bytes \<Rightarrow> nat \<Rightarrow> dict_run \<Rightarrow> nat \<Rightarrow> nat \<Rightarrow> bytes \<Rightarrow> bytes codec_result" where
  "bitmap_run bit_width required_mask dict_mask out_start (Packed_Run chunk nvals) emitted to_emit out =
     bind_o (fused_bitmap_chunk chunk bit_width to_emit dict_mask []) (\<lambda>tmp.
     if emitted mod 8 = 0 \<and> to_emit mod 8 = 0
     then let dst_byte = out_start + emitted div 8; dst_bytes = to_emit div 8
          in if length tmp \<noteq> dst_bytes then Panic ''assertion `left == right` failed''
             else copy_from_slice out dst_byte dst_bytes tmp
     else fold_o (merge_bit tmp out_start emitted) out [0..<to_emit])"
| "bitmap_run bit_width required_mask dict_mask out_start (Rle_Run idx count) emitted to_emit out =
     (if unat idx \<ge> required_mask then Err (DictIndexOutOfRange (unat idx) required_mask)
      else bind_o (get_unchecked dict_mask (unat idx)) (\<lambda>b.
           if b \<noteq> 0 then splat_ones out out_start emitted (emitted + to_emit) else Ok out))"

definition decode_rle_dictionary_predicate_bitmap :: "bytes \<Rightarrow> nat \<Rightarrow> bytes \<Rightarrow> bytes \<Rightarrow> bytes codec_result" where
  "decode_rle_dictionary_predicate_bitmap body num_values dict_mask out =
     (if body = [] then Err EmptyDictPageBody
      else let bit_width = unat (hd body)
      in if bit_width > 32 then Err (BitWidthOutOfRange bit_width)
      else if bit_width \<ge> 32 then Err (BitWidthOutOfRange bit_width)
      else let required_mask = (if bit_width = 0 then 1 else 2 ^ bit_width)
      in if length dict_mask < required_mask
         then Err (Decompress (''dict_mask must be '' @ geq_sign @ '' '' @ decimal required_mask @ '' entries for bw='' @
                decimal bit_width @ '' (got '' @ decimal (length dict_mask) @ '')''))
      else if num_values = 0 then Ok out
      else let out_start = length out;
               out' = out @ replicate (div_ceil num_values 8) 0
      in if bit_width = 0 then
           if dict_mask ! 0 \<noteq> 0 then splat_ones out' out_start 0 num_values else Ok out'
         else dict_runs (bitmap_run bit_width required_mask dict_mask out_start) bit_width num_values
                (cursor_new (tl body)) 0 out')"

definition decode_rle_dictionary_predicate_bitmap_bw12 :: "bytes \<Rightarrow> nat \<Rightarrow> bytes \<Rightarrow> bytes \<Rightarrow> bytes codec_result" where
  "decode_rle_dictionary_predicate_bitmap_bw12 body num_values dict_mask out =
     (if body = [] then Err EmptyDictPageBody
      else let bit_width = unat (hd body)
      in if bit_width \<noteq> 12
         then Err (Decompress (''decode_rle_dictionary_predicate_bitmap_bw12: expected bit_width=12, got '' @ decimal bit_width))
         else decode_rle_dictionary_predicate_bitmap body num_values dict_mask out)"

definition build_dict_predicate_mask :: "'v list \<Rightarrow> nat \<Rightarrow> ('v \<Rightarrow> bool) \<Rightarrow> bytes codec_result" where
  "build_dict_predicate_mask dict bit_width pred =
     (if bit_width > 32 \<or> bit_width = 0 then Err (BitWidthOutOfRange bit_width)
      else let len = 2 ^ bit_width
      in if length dict > len
         then Err (Decompress (''dict has '' @ decimal (length dict) @ '' entries, exceeds bit_width='' @
                decimal bit_width @ '' addressable space ('' @ decimal len @ '')''))
         else fold_o (\<lambda>msk (i, v). if pred v then set_o msk i 1 else Ok msk) (replicate len 0) (enumerate 0 dict))"

section \<open>Gathering the rows of a bitmap\<close>

definition count_ones :: "u8 \<Rightarrow> nat" where
  "count_ones b = length (filter (\<lambda>i. drop_bit i b AND 1 = 1) [0..<8])"

text \<open>The three loops of \<open>popcount_range\<close>.\<close>

function pop_head :: "bytes \<Rightarrow> nat \<Rightarrow> nat \<Rightarrow> nat \<Rightarrow> ('e, nat \<times> nat) outcome" where
  "pop_head bitmap k end_bit pop =
     (if k < end_bit \<and> k mod 8 \<noteq> 0
      then bind_o (mask_bit bitmap k) (\<lambda>b. pop_head bitmap (k + 1) end_bit (if b then pop + 1 else pop))
      else Ok (k, pop))"
  by pat_completeness auto
termination by (relation "measure (\<lambda>(bitmap, k, end_bit, pop). end_bit - k)") auto

function pop_bytes :: "bytes \<Rightarrow> nat \<Rightarrow> nat \<Rightarrow> nat \<Rightarrow> ('e, nat \<times> nat) outcome" where
  "pop_bytes bitmap k end_bit pop =
     (if k + 8 \<le> end_bit
      then bind_o (index_o bitmap (k div 8)) (\<lambda>b. pop_bytes bitmap (k + 8) end_bit (pop + count_ones b))
      else Ok (k, pop))"
  by pat_completeness auto
termination by (relation "measure (\<lambda>(bitmap, k, end_bit, pop). end_bit - k)") auto

function pop_tail :: "bytes \<Rightarrow> nat \<Rightarrow> nat \<Rightarrow> nat \<Rightarrow> ('e, nat) outcome" where
  "pop_tail bitmap k end_bit pop =
     (if k < end_bit
      then bind_o (mask_bit bitmap k) (\<lambda>b. pop_tail bitmap (k + 1) end_bit (if b then pop + 1 else pop))
      else Ok pop)"
  by pat_completeness auto
termination by (relation "measure (\<lambda>(bitmap, k, end_bit, pop). end_bit - k)") auto

declare pop_head.simps [simp del] pop_bytes.simps [simp del] pop_tail.simps [simp del]

definition popcount_range :: "bytes \<Rightarrow> nat \<Rightarrow> nat \<Rightarrow> ('e, nat) outcome" where
  "popcount_range bitmap start_bit end_bit =
     (if start_bit \<ge> end_bit then Ok 0
      else bind_o (pop_head bitmap start_bit end_bit 0) (\<lambda>(k, pop).
           bind_o (pop_bytes bitmap k end_bit pop) (\<lambda>(k, pop).
           pop_tail bitmap k end_bit pop)))"

text \<open>\<open>unpack_8_indices\<close>: eight values through a streaming \<open>u64\<close> buffer.\<close>

definition unpack_8_indices :: "bytes \<Rightarrow> nat \<Rightarrow> u32 list codec_result" where
  "unpack_8_indices packed bit_width =
     (if length packed \<noteq> bit_width then Panic ''assertion `left == right` failed''
      else unpack_tail (\<lambda>v. Ok (ucast v)) packed bit_width (mask_u32_in_u64 bit_width) 8 0 0 0 [])"

text \<open>One row: \<open>p\<close> is the row's bit in the bitmap.\<close>

definition gather_row :: "bytes \<Rightarrow> 'v list \<Rightarrow> 'v list \<Rightarrow> nat \<times> u32 \<Rightarrow> 'v list codec_result" where
  "gather_row bitmap dict out p_idx =
     (case p_idx of (p, idx) \<Rightarrow>
        bind_o (mask_bit bitmap p) (\<lambda>b.
        if b then bind_o (dict_entry dict idx) (\<lambda>v. Ok (out @ [v])) else Ok out))"

definition gather_lane :: "u8 \<Rightarrow> u32 list \<Rightarrow> 'v list \<Rightarrow> 'v list \<Rightarrow> nat \<Rightarrow> 'v list codec_result" where
  "gather_lane mask_byte scratch dict out lane =
     (if drop_bit lane mask_byte AND 1 = 1
      then bind_o (dict_entry dict (scratch ! lane)) (\<lambda>v. Ok (out @ [v]))
      else Ok out)"

text \<open>The aligned blocks: \<open>base\<close> is \<open>bitmap_offset + row\<close>.\<close>

function gather_blocks ::
  "bytes \<Rightarrow> nat \<Rightarrow> bytes \<Rightarrow> nat \<Rightarrow> nat \<Rightarrow> 'v list \<Rightarrow> nat \<Rightarrow> nat \<Rightarrow> 'v list \<Rightarrow> (nat \<times> nat \<times> 'v list) codec_result" where
  "gather_blocks chunk bit_width bitmap base to_consume dict byte_cursor block_row out =
     (if block_row + 8 \<le> to_consume then
        let bit_pos_base = base + block_row
        in if bit_pos_base mod 8 \<noteq> 0 then Panic ''fast path requires byte-aligned offset''
        else bind_o (index_o bitmap (bit_pos_base div 8)) (\<lambda>mask_byte.
        bind_o (if mask_byte \<noteq> 0
                then bind_o (slice chunk byte_cursor (byte_cursor + bit_width)) (\<lambda>packed.
                     bind_o (unpack_8_indices packed bit_width) (\<lambda>scratch.
                     fold_o (gather_lane mask_byte scratch dict) out [0..<8]))
                else Ok out) (\<lambda>out.
        gather_blocks chunk bit_width bitmap base to_consume dict (byte_cursor + bit_width) (block_row + 8) out))
      else Ok (byte_cursor, block_row, out))"
  by pat_completeness auto
termination
  by (relation "measure (\<lambda>(chunk, bw, bitmap, base, to_consume, dict, byte_cursor, block_row, out). to_consume - block_row)") auto

declare gather_blocks.simps [simp del]

fun gather_run ::
  "nat \<Rightarrow> bytes \<Rightarrow> nat \<Rightarrow> 'v list \<Rightarrow> dict_run \<Rightarrow> nat \<Rightarrow> nat \<Rightarrow> 'v list \<Rightarrow> 'v list codec_result" where
  "gather_run bit_width bitmap bitmap_offset dict (Packed_Run chunk nvals) row to_consume out =
     (let base = bitmap_offset + row;
          head_unaligned = base mod 8
      in if head_unaligned \<noteq> 0 then
           let head_rows = min (8 - head_unaligned) to_consume
           in bind_o (slice chunk 0 (div_ceil (head_rows * bit_width) 8)) (\<lambda>head_bytes.
              bind_o (unpack_indices_into head_bytes head_rows bit_width []) (\<lambda>head_idxs.
              bind_o (fold_o (gather_row bitmap dict) out (enumerate base head_idxs)) (\<lambda>out.
              bind_o (slice chunk 0 (div_ceil (to_consume * bit_width) 8)) (\<lambda>all_bytes.
              bind_o (unpack_indices_into all_bytes to_consume bit_width []) (\<lambda>all_idxs.
              fold_o (gather_row bitmap dict) out (drop head_rows (enumerate base all_idxs)))))))
         else
           bind_o (gather_blocks chunk bit_width bitmap base to_consume dict 0 0 out) (\<lambda>(byte_cursor, block_row, out).
           if block_row < to_consume then
             let tail = to_consume - block_row
             in bind_o (slice chunk byte_cursor (byte_cursor + div_ceil (tail * bit_width) 8)) (\<lambda>tail_bytes.
                bind_o (unpack_indices_into tail_bytes tail bit_width []) (\<lambda>tail_idxs.
                fold_o (gather_row bitmap dict) out (enumerate (base + block_row) tail_idxs)))
           else Ok out))"
| "gather_run bit_width bitmap bitmap_offset dict (Rle_Run idx count) row to_consume out =
     bind_o (dict_entry dict idx) (\<lambda>v.
     bind_o (popcount_range bitmap (bitmap_offset + row) (bitmap_offset + row + to_consume)) (\<lambda>matched.
     Ok (out @ replicate matched v)))"

definition gather_dict_at_bitmap_into ::
  "bytes \<Rightarrow> nat \<Rightarrow> bytes \<Rightarrow> nat \<Rightarrow> 'v list \<Rightarrow> 'v list \<Rightarrow> 'v list codec_result" where
  "gather_dict_at_bitmap_into body num_values bitmap bitmap_offset dict out =
     (if body = [] then Err EmptyDictPageBody
      else let bit_width = unat (hd body)
      in if bit_width > 32 then Err (BitWidthOutOfRange bit_width)
      else if num_values = 0 then Ok out
      else if bit_width = 0 then
        if dict = [] then Err (DictIndexOutOfRange 0 0)
        else fold_o (\<lambda>out row. bind_o (mask_bit bitmap (bitmap_offset + row)) (\<lambda>b.
               Ok (if b then out @ [dict ! 0] else out))) out [0..<num_values]
      else dict_runs (gather_run bit_width bitmap bitmap_offset dict) bit_width num_values (cursor_new (tl body)) 0 out)"

end
