(* ===== verification/DictProofs.thy ===== *)
theory DictProofs
  imports DictBitmap
begin

text \<open>
  The dictionary readers succeed exactly on the pages whose runs can be read and whose values their
  handlers accept.  \<open>stream_runs\<close> is the list of runs a page is read through; every reader is a fold
  over it (\<open>dict_runs_Ok_iff\<close>), so the readers are compared run by run.
\<close>

section \<open>The runs of a page\<close>

function stream_runs :: "nat \<Rightarrow> nat \<Rightarrow> cursor \<Rightarrow> nat \<Rightarrow> (dict_run \<times> nat \<times> nat) list codec_result" where
  "stream_runs bw num cur e =
     (if e < num then
        bind_o (read_run bw cur) (\<lambda>(run, cur').
        let n = min (num - e) (run_count run)
        in bind_o (stream_runs bw num cur' (e + n)) (\<lambda>rs. Ok ((run, e, n) # rs)))
      else Ok [])"
  by pat_completeness auto
termination
  by (relation "measure (\<lambda>(bw, num, cur, e). remaining cur)") (auto dest: remaining_read_run)

declare stream_runs.simps [simp del]

abbreviation fold_runs where
  "fold_runs handle \<equiv> fold_o (\<lambda>s (run, e, n). handle run e n s)"

lemma dict_runs_Ok_iff:
  "dict_runs handle bw num cur e s = Ok s' \<longleftrightarrow>
     (\<exists>rs. stream_runs bw num cur e = Ok rs \<and> fold_runs handle s rs = Ok s')"
proof (induction "remaining cur" arbitrary: cur e s rule: less_induct)
  case less
  show ?case
  proof (cases "e < num")
    case False
    then show ?thesis by (subst dict_runs.simps, subst stream_runs.simps) auto
  next
    case True
    show ?thesis
    proof (cases "read_run bw cur")
      case (Ok x)
      obtain run cur' where x: "x = (run, cur')" by (cases x)
      have "remaining cur' < remaining cur" using Ok x remaining_read_run by simp
      note IH = less.hyps [OF this]
      show ?thesis
        using True Ok x
        by (subst dict_runs.simps, subst stream_runs.simps)
          (fastforce simp: Let_def bind_o_eq_Ok_iff IH)
    qed (use True in \<open>subst dict_runs.simps, subst stream_runs.simps, simp\<close>)+
  qed
qed

text \<open>Every run holds the values taken from it; together they are the rows of the page.\<close>

fun run_ok :: "nat \<Rightarrow> dict_run \<Rightarrow> bool" where
  "run_ok bw (Packed_Run chunk nvals) \<longleftrightarrow> nvals * bw \<le> 8 * length chunk"
| "run_ok bw (Rle_Run idx count) \<longleftrightarrow> (bw \<le> 8 \<longrightarrow> unat idx < 256)"

fun runs_ok :: "nat \<Rightarrow> nat \<Rightarrow> nat \<Rightarrow> (dict_run \<times> nat \<times> nat) list \<Rightarrow> bool" where
  "runs_ok bw num e [] \<longleftrightarrow> e = num"
| "runs_ok bw num e ((run, e', n) # rs) \<longleftrightarrow>
     e' = e \<and> n \<le> run_count run \<and> e + n \<le> num \<and> run_ok bw run \<and> runs_ok bw num (e + n) rs"

lemma unat_field_less: "bw \<le> LENGTH('a) \<Longrightarrow> unat (field bs off bw :: 'a::len word) < 2 ^ bw"
proof -
  have "take_bit bw (field bs off bw) = (field bs off bw :: 'a word)"
    by (rule bit_word_eqI) (auto simp: bit_simps bit_field)
  then have "unat (field bs off bw :: 'a word) = take_bit bw (unat (field bs off bw :: 'a word))"
    by (metis unsigned_take_bit_eq)
  then show ?thesis by (metis take_bit_nat_less_exp)
qed

lemma acc_byte_less:
  assumes "bw \<le> 8" and "length chunk = div_ceil bw 8" and "(acc_bytes chunk 0 (div_ceil bw 8) :: u32 codec_result) = Ok idx"
  shows "unat idx < 256"
proof -
  have k: "div_ceil bw 8 \<le> 1" using assms(1) unfolding div_ceil_def by linarith
  then have "idx = field chunk 0 (8 * div_ceil bw 8)"
    using acc_bytes_Ok [of 0 "div_ceil bw 8" chunk, where 'w = 32 and 'e = codec_error] assms(2,3) by simp
  moreover have "unat (field chunk 0 (8 * div_ceil bw 8) :: u32) < 2 ^ (8 * div_ceil bw 8)"
    using k by (intro unat_field_less) simp
  moreover have "(2 :: nat) ^ (8 * div_ceil bw 8) \<le> 2 ^ 8" using k by (intro power_increasing) simp_all
  ultimately show ?thesis by simp
qed

lemma read_run_ok: "read_run bw cur = Ok (run, cur') \<Longrightarrow> run_ok bw run"
proof (cases run)
  case (Packed_Run chunk nvals)
  then show "read_run bw cur = Ok (run, cur') \<Longrightarrow> ?thesis"
    by (fastforce simp: read_run_def bind_o_eq_Ok_iff wire_Ok_iff mul_usize_def cur_take_def remaining_def div_ceil_def
        Let_def split: if_splits)
next
  case (Rle_Run idx count)
  assume "read_run bw cur = Ok (run, cur')"
  then obtain c c' chunk where "cur_take (div_ceil bw 8) c = Ok (chunk, c')" "(acc_bytes chunk 0 (div_ceil bw 8) :: u32 codec_result) = Ok idx"
    by (auto simp: Rle_Run read_run_def bind_o_eq_Ok_iff wire_Ok_iff Let_def split: if_splits)
  moreover from this have "length chunk = div_ceil bw 8"
    by (auto simp: cur_take_def remaining_def split: if_splits)
  ultimately show ?thesis using acc_byte_less by (auto simp: Rle_Run)
qed

lemma stream_runs_ok: "stream_runs bw num cur e = Ok rs \<Longrightarrow> e \<le> num \<Longrightarrow> runs_ok bw num e rs"
proof (induction "remaining cur" arbitrary: cur e rs rule: less_induct)
  case less
  show ?case
  proof (cases "e < num")
    case False
    with less.prems show ?thesis by (subst (asm) stream_runs.simps) simp
  next
    case True
    with less.prems obtain run cur' rs' where run: "read_run bw cur = Ok (run, cur')"
      and rs': "stream_runs bw num cur' (e + min (num - e) (run_count run)) = Ok rs'"
      and rs: "rs = (run, e, min (num - e) (run_count run)) # rs'"
      by (subst (asm) stream_runs.simps) (auto simp: bind_o_eq_Ok_iff Let_def)
    have "runs_ok bw num (e + min (num - e) (run_count run)) rs'"
      using less.hyps [OF remaining_read_run [OF run] rs'] True by simp
    then show ?thesis
      using True read_run_ok [OF run] by (simp add: rs)
  qed
qed

fun run_vals :: "nat \<Rightarrow> dict_run \<Rightarrow> nat \<Rightarrow> u32 list" where
  "run_vals bw (Packed_Run chunk nvals) n = map (\<lambda>i. field chunk (i * bw) bw) [0..<n]"
| "run_vals bw (Rle_Run idx count) n = replicate n idx"

lemma length_run_vals [simp]: "length (run_vals bw run n) = n"
  by (cases run) simp_all

definition stream_vals :: "nat \<Rightarrow> (dict_run \<times> nat \<times> nat) list \<Rightarrow> u32 list" where
  "stream_vals bw rs = concat (map (\<lambda>(run, e, n). run_vals bw run n) rs)"

lemma stream_vals_simps [simp]:
  "stream_vals bw [] = []"
  "stream_vals bw ((run, e, n) # rs) = run_vals bw run n @ stream_vals bw rs"
  by (simp_all add: stream_vals_def)

lemma length_stream_vals: "runs_ok bw num e rs \<Longrightarrow> e + length (stream_vals bw rs) = num"
  by (induction bw num e rs rule: runs_ok.induct) auto

text \<open>An invariant of the rows read so far, kept by a handler on the runs it accepts.\<close>

lemma fold_runs_inv:
  assumes "runs_ok bw num (length rows) rs" and "I rows s"
    and "list_all (\<lambda>(run, e, n). Q run e n) rs"
    and step: "\<And>run n s rows. run_ok bw run \<Longrightarrow> n \<le> run_count run \<Longrightarrow> length rows + n \<le> num \<Longrightarrow> Q run (length rows) n \<Longrightarrow> I rows s \<Longrightarrow>
      \<exists>s'. handle run (length rows) n s = Ok s' \<and> I (rows @ run_vals bw run n) s'"
  shows "\<exists>s'. (fold_runs handle s rs :: 's codec_result) = Ok s' \<and> I (rows @ stream_vals bw rs) s'"
  using assms(1-3)
proof (induction rs arbitrary: rows s)
  case Nil
  then show ?case by simp
next
  case (Cons r rs)
  obtain run e n where r: "r = (run, e, n)" by (cases r)
  from Cons.prems r have "run_ok bw run" "n \<le> run_count run" "length rows + n \<le> num" "Q run (length rows) n" "I rows s"
    and e: "e = length rows" by auto
  from step [OF this(1-5)] obtain s' where s': "handle run e n s = Ok s'" "I (rows @ run_vals bw run n) s'"
    by (auto simp: e)
  then show ?case
    using Cons.IH [of "rows @ run_vals bw run n" s'] Cons.prems by (simp add: r)
qed

lemma fold_runs_only:
  assumes "runs_ok bw num e rs" and "fold_runs handle s rs = Ok s'"
    and "\<And>run e n s s'. run_ok bw run \<Longrightarrow> n \<le> run_count run \<Longrightarrow> handle run e n s = Ok s' \<Longrightarrow> Q run e n"
  shows "list_all (\<lambda>(run, e, n). Q run e n) rs"
  using assms(1,2)
proof (induction rs arbitrary: e s)
  case (Cons r rs)
  then show ?case by (cases r) (auto simp: bind_o_eq_Ok_iff dest: assms(3))
qed simp

text \<open>A handler that accepts exactly the runs with \<open>Q\<close>.\<close>

lemma fold_runs_iff:
  assumes "runs_ok bw num (length rows) rs" and "I rows s"
    and step: "\<And>run n s rows. run_ok bw run \<Longrightarrow> n \<le> run_count run \<Longrightarrow> length rows + n \<le> num \<Longrightarrow> Q run (length rows) n \<Longrightarrow> I rows s \<Longrightarrow>
      \<exists>s'. handle run (length rows) n s = Ok s' \<and> I (rows @ run_vals bw run n) s'"
    and only: "\<And>run e n s s'. run_ok bw run \<Longrightarrow> n \<le> run_count run \<Longrightarrow> handle run e n s = Ok s' \<Longrightarrow> Q run e n"
    and det: "\<And>rows s s'. I rows s \<Longrightarrow> I rows s' \<Longrightarrow> s = s'"
  shows "(fold_runs handle s rs :: 's codec_result) = Ok s' \<longleftrightarrow>
    list_all (\<lambda>(run, e, n). Q run e n) rs \<and> I (rows @ stream_vals bw rs) s'"
proof
  assume ok: "fold_runs handle s rs = Ok s'"
  have Q: "list_all (\<lambda>(run, e, n). Q run e n) rs"
    using assms(1) ok by (rule fold_runs_only) (rule only)
  from fold_runs_inv [where I = I and Q = Q and handle = handle, OF assms(1,2) Q step] ok Q
  show "list_all (\<lambda>(run, e, n). Q run e n) rs \<and> I (rows @ stream_vals bw rs) s'" by auto
next
  assume Q: "list_all (\<lambda>(run, e, n). Q run e n) rs \<and> I (rows @ stream_vals bw rs) s'"
  from fold_runs_inv [where I = I and Q = Q and handle = handle, OF assms(1,2) conjunct1 [OF Q] step] Q det
  show "fold_runs handle s rs = Ok s'" by blast
qed

section \<open>Indices\<close>

lemma packed_prefix: "nvals * bw \<le> 8 * length chunk \<Longrightarrow> n \<le> nvals \<Longrightarrow> n * bw \<le> 8 * length (chunk :: bytes)"
  by (meson le_trans mult_le_mono1)

lemma index_run_vals:
  "run_ok bw run \<Longrightarrow> n \<le> run_count run \<Longrightarrow> bw \<le> 32 \<Longrightarrow> index_run bw run e n out = Ok (out @ run_vals bw run n)"
  by (cases run) (simp_all add: unpack_indices_into_Ok packed_prefix)

lemma index_runs: 
  assumes "runs_ok bw num e rs" and "bw \<le> 32"
  shows "fold_runs (index_run bw) out rs = Ok (out @ stream_vals bw rs)"
  using assms
proof (induction rs arbitrary: e out)
  case (Cons r rs)
  then show ?case by (cases r) (auto simp: index_run_vals)
qed simp

text \<open>The rows of a page: what every reader of the page works on.\<close>

definition page_runs :: "bytes \<Rightarrow> nat \<Rightarrow> (dict_run \<times> nat \<times> nat) list codec_result" where
  "page_runs body num =
     (if body = [] then Err EmptyDictPageBody
      else let bw = unat (hd body)
      in if bw > 32 then Err (BitWidthOutOfRange bw)
      else if num = 0 then Ok []
      else if bw = 0 then Ok [(Rle_Run 0 num, 0, num)]
      else stream_runs bw num (cursor_new (tl body)) 0)"

lemma page_runs_ok: "page_runs body num = Ok rs \<Longrightarrow> runs_ok (unat (hd body)) num 0 rs"
  by (auto simp: page_runs_def Let_def dest: stream_runs_ok split: if_splits)

lemma page_width: "page_runs body num = Ok rs \<Longrightarrow> unat (hd body) \<le> 32 \<and> body \<noteq> []"
  by (auto simp: page_runs_def Let_def split: if_splits)

lemma indices_into_Ok_iff:
  assumes "length out + num < 2 ^ 64"
  shows "decode_rle_dictionary_indices_into body num out = Ok r \<longleftrightarrow>
    (\<exists>rs. page_runs body num = Ok rs \<and> r = out @ stream_vals (unat (hd body)) rs)"
proof -
  have "dict_runs (index_run bw) bw num cur 0 out = Ok r \<longleftrightarrow>
      (\<exists>rs. stream_runs bw num cur 0 = Ok rs \<and> r = out @ stream_vals bw rs)" if "bw \<le> 32" for bw cur
    using that stream_runs_ok index_runs by (fastforce simp: dict_runs_Ok_iff)
  then show ?thesis
    using assms by (auto simp: decode_rle_dictionary_indices_into_def page_runs_def Let_def add_usize_def)
qed

lemma indices_Ok_iff:
  "num < 2 ^ 64 \<Longrightarrow> decode_rle_dictionary_indices body num = Ok r \<longleftrightarrow>
    (\<exists>rs. page_runs body num = Ok rs \<and> r = stream_vals (unat (hd body)) rs)"
  by (simp add: decode_rle_dictionary_indices_def indices_into_Ok_iff)

end
