(* ===== verification/DictEquiv.thy ===== *)
theory DictEquiv
  imports DictProofs
begin

text \<open>
  The fused reader and the gather reader against the plain ones: they succeed exactly when the
  indices can be decoded, every index they look up is in the dictionary and the index of every
  repeated run is, and then return the entries of the (selected) rows.  The one difference is the
  index of a run of which no row is wanted: it is checked all the same.
\<close>

definition rle_index_ok :: "(u32 \<Rightarrow> bool) \<Rightarrow> dict_run \<Rightarrow> bool" where
  "rle_index_ok P run = (case run of Packed_Run chunk nvals \<Rightarrow> True | Rle_Run idx count \<Rightarrow> P idx)"

lemma rle_index_ok_simps [simp]:
  "rle_index_ok P (Packed_Run chunk nvals)" "rle_index_ok P (Rle_Run idx count) = P idx"
  by (simp_all add: rle_index_ok_def)

definition page_rle_ok :: "bytes \<Rightarrow> nat \<Rightarrow> (u32 \<Rightarrow> bool) \<Rightarrow> bool" where
  "page_rle_ok body num P =
     (case page_runs body num of Ok rs \<Rightarrow> list_all (\<lambda>(run, e, n). rle_index_ok P run) rs | _ \<Rightarrow> False)"

section \<open>Decoding to values\<close>

lemma dict_entry_Ok_iff [simp]: "dict_entry dict idx = Ok v \<longleftrightarrow> unat idx < length dict \<and> v = dict ! unat idx"
  by (auto simp: dict_entry_def)

lemma mapM_o_Ok_iff: "mapM_o f xs = Ok ys \<longleftrightarrow> list_all2 (\<lambda>x y. f x = Ok y) xs ys"
  by (induction xs arbitrary: ys) (auto simp: bind_o_eq_Ok_iff list_all2_Cons1)

lemma lookup_dict_Ok_iff:
  "lookup_dict dict is = Ok vs \<longleftrightarrow> list_all (\<lambda>i. unat i < length dict) is \<and> vs = map (\<lambda>i. dict ! unat i) is"
  unfolding lookup_dict_def by (induction "is" arbitrary: vs) (auto simp: bind_o_eq_Ok_iff)

lemma checked_lookup_Ok_iff:
  "mapM_o (\<lambda>i. checked_lookup dict (unat (f i :: u32))) xs = Ok vs \<longleftrightarrow>
     list_all (\<lambda>i. unat i < length dict) (map f xs) \<and> vs = map (\<lambda>i. dict ! unat i) (map f xs)"
  by (induction xs arbitrary: vs) (auto simp: bind_o_eq_Ok_iff checked_lookup_def)

lemma value_run_Ok_iff:
  assumes "run_ok bw run" and "n \<le> run_count run" and "bw \<le> 32"
  shows "value_run bw dict run e n out = Ok r \<longleftrightarrow>
    rle_index_ok (\<lambda>i. unat i < length dict) run \<and> list_all (\<lambda>i. unat i < length dict) (run_vals bw run n) \<and>
    r = out @ map (\<lambda>i. dict ! unat i) (run_vals bw run n)"
proof (cases run)
  case (Packed_Run chunk nvals)
  with assms have "n * bw \<le> 8 * length chunk" by (simp add: packed_prefix)
  note eq = unpack_lookup_into_eq [OF assms(3) this, of dict out]
  show ?thesis
    unfolding Packed_Run value_run.simps eq bind_o_eq_Ok_iff checked_lookup_Ok_iff by auto
next
  case (Rle_Run idx count)
  then show ?thesis by (auto simp: bind_o_eq_Ok_iff list_all_iff)
qed

lemma list_all_stream_vals:
  "list_all P (stream_vals bw rs) \<longleftrightarrow> list_all (\<lambda>(run, e, n). list_all P (run_vals bw run n)) rs"
  by (induction rs) auto

lemma list_all_runs_conj:
  "list_all (\<lambda>(run, e, n). P run e n \<and> Q run e n) rs \<longleftrightarrow>
     list_all (\<lambda>(run, e, n). P run e n) rs \<and> list_all (\<lambda>(run, e, n). Q run e n) rs"
  by (induction rs) auto

lemma fold_value_runs:
  assumes "runs_ok bw num 0 rs" and "bw \<le> 32"
  shows "fold_runs (value_run bw dict) out rs = Ok r \<longleftrightarrow>
    list_all (\<lambda>(run, e, n). rle_index_ok (\<lambda>i. unat i < length dict) run) rs \<and>
    list_all (\<lambda>i. unat i < length dict) (stream_vals bw rs) \<and> r = out @ map (\<lambda>i. dict ! unat i) (stream_vals bw rs)"
  (is "_ \<longleftrightarrow> ?rhs")
proof -
  let ?P = "\<lambda>i. unat i < length dict"
  let ?Q = "\<lambda>run (e :: nat) n. rle_index_ok ?P run \<and> list_all ?P (run_vals bw run n)"
  have "fold_runs (value_run bw dict) out rs = Ok r \<longleftrightarrow>
      list_all (\<lambda>(run, e, n). ?Q run e n) rs \<and> r = out @ map (\<lambda>i. dict ! unat i) ([] @ stream_vals bw rs)"
    by (rule fold_runs_iff [where I = "\<lambda>rows s. s = out @ map (\<lambda>i. dict ! unat i) rows" and rows = "[]" and num = num])
      (use assms in \<open>auto simp: value_run_Ok_iff\<close>)
  also have "\<dots> \<longleftrightarrow> ?rhs"
    unfolding list_all_stream_vals list_all_runs_conj by simp
  finally show ?thesis .
qed

lemma dict_values_iff:
  assumes "num < 2 ^ 64"
  shows "decode_rle_dictionary_into body dict num out = Ok r \<longleftrightarrow>
    (\<exists>is vs. decode_rle_dictionary_indices body num = Ok is \<and> lookup_dict dict is = Ok vs \<and> r = out @ vs \<and>
       page_rle_ok body num (\<lambda>i. unat i < length dict))"
proof -
  let ?P = "\<lambda>i. unat i < length dict" and ?bw = "unat (hd body)"
  have loop: "dict_runs (value_run bw dict) bw num cur 0 out = Ok r \<longleftrightarrow>
      (\<exists>rs. stream_runs bw num cur 0 = Ok rs \<and> list_all (\<lambda>(run, e, n). rle_index_ok ?P run) rs \<and>
        list_all ?P (stream_vals bw rs) \<and> r = out @ map (\<lambda>i. dict ! unat i) (stream_vals bw rs))" if "bw \<le> 32" for bw cur
    using that stream_runs_ok fold_value_runs by (fastforce simp: dict_runs_Ok_iff)
  have eq: "decode_rle_dictionary_into body dict num out = Ok r \<longleftrightarrow>
      (\<exists>rs. page_runs body num = Ok rs \<and> list_all (\<lambda>(run, e, n). rle_index_ok ?P run) rs \<and>
        list_all ?P (stream_vals ?bw rs) \<and> r = out @ map (\<lambda>i. dict ! unat i) (stream_vals ?bw rs))"
  proof -
    consider "body = [] \<or> ?bw > 32 \<or> num = 0" | "body \<noteq> []" "?bw \<le> 32" "num \<noteq> 0" "?bw = 0" | "body \<noteq> []" "?bw \<le> 32" "num \<noteq> 0" "?bw \<noteq> 0"
      by linarith
    then show ?thesis
    proof cases
      case 1
      then show ?thesis by (auto simp: decode_rle_dictionary_into_def page_runs_def Let_def)
    next
      case 2
      then show ?thesis by (auto simp: decode_rle_dictionary_into_def page_runs_def list_all_iff)
    next
      case 3
      then show ?thesis by (simp add: decode_rle_dictionary_into_def page_runs_def Let_def loop)
    qed
  qed
  show ?thesis
    unfolding eq indices_Ok_iff [OF assms] lookup_dict_Ok_iff page_rle_ok_def
    by (cases "page_runs body num") auto
qed

section \<open>Bitmaps as sets of rows\<close>

lemma bits_of_byte: "q < length bs \<Longrightarrow> k < 8 \<Longrightarrow> stream_bit bs (8 * q + k) \<longleftrightarrow> bit (bs ! q) k"
  by (simp add: stream_bit_def)

lemma count_ones_bits: "q < length bs \<Longrightarrow> count_ones (bs ! q) = length (filter (stream_bit bs) [8 * q..<8 * q + 8])"
proof -
  assume q: "q < length bs"
  have "[8 * q..<8 * q + 8] = map (\<lambda>k. 8 * q + k) [0..<8]"
    by (rule nth_equalityI) simp_all
  then have "length (filter (stream_bit bs) [8 * q..<8 * q + 8]) = length (filter (\<lambda>k. stream_bit bs (8 * q + k)) [0..<8])"
    by (simp add: filter_map o_def)
  also have "filter (\<lambda>k. stream_bit bs (8 * q + k)) [0..<8] = filter (\<lambda>k. drop_bit k (bs ! q) AND 1 = 1) [0..<8]"
    by (rule filter_cong) (use q in \<open>simp_all add: bits_of_byte bit_test\<close>)
  finally show ?thesis by (simp add: count_ones_def)
qed

definition ones_in :: "bytes \<Rightarrow> nat \<Rightarrow> nat \<Rightarrow> nat" where
  "ones_in bs a b = length (filter (stream_bit bs) [a..<b])"

lemma ones_in_split: "a \<le> m \<Longrightarrow> m \<le> b \<Longrightarrow> ones_in bs a b = ones_in bs a m + ones_in bs m b"
  unfolding ones_in_def by (metis filter_append le_Suc_ex length_append upt_add_eq_append)

lemma ones_in_step: "a < b \<Longrightarrow> ones_in bs a b = (if stream_bit bs a then 1 else 0) + ones_in bs (Suc a) b"
  by (simp add: ones_in_def upt_conv_Cons)

lemma ones_in_empty [simp]: "ones_in bs a a = 0"
  by (simp add: ones_in_def)

lemma pop_head_Ok:
  "k \<le> e \<Longrightarrow> e \<le> 8 * length bs \<Longrightarrow> \<exists>k'. (pop_head bs k e pop :: ('e, nat \<times> nat) outcome) = Ok (k', pop + ones_in bs k k') \<and>
     k \<le> k' \<and> k' \<le> e \<and> (k' < e \<longrightarrow> k' mod 8 = 0)"
proof (induction "e - k" arbitrary: k pop rule: less_induct)
  case less
  show ?case
  proof (cases "k < e \<and> k mod 8 \<noteq> 0")
    case True
    then have "mask_bit bs k = (Ok (stream_bit bs k) :: ('e, bool) outcome)"
      using less.prems by (intro mask_bit_Ok) simp
    with True less.hyps [of "k + 1" "if stream_bit bs k then pop + 1 else pop"] less.prems show ?thesis
      by (subst pop_head.simps) (fastforce simp: ones_in_step [of k])
  next
    case False
    with less.prems show ?thesis by (subst pop_head.simps) auto
  qed
qed

lemma pop_bytes_Ok:
  "k \<le> e \<Longrightarrow> e \<le> 8 * length bs \<Longrightarrow> k < e \<longrightarrow> k mod 8 = 0 \<Longrightarrow>
    \<exists>k'. (pop_bytes bs k e pop :: ('e, nat \<times> nat) outcome) = Ok (k', pop + ones_in bs k k') \<and> k \<le> k' \<and> k' \<le> e"
proof (induction "e - k" arbitrary: k pop rule: less_induct)
  case less
  show ?case
  proof (cases "k + 8 \<le> e")
    case True
    with less.prems obtain q where q: "k = 8 * q" by auto
    with True less.prems have "q < length bs" by linarith
    then have ones: "count_ones (bs ! q) = ones_in bs k (k + 8)" and "q < length bs"
      using q by (simp_all add: count_ones_bits ones_in_def)
    moreover have "(k + 8) mod 8 = 0" using q by simp
    moreover have "e - (k + 8) < e - k" using True by simp
    from less.hyps [OF this True less.prems(2), of "pop + ones_in bs k (k + 8)"] q obtain k' where
      "(pop_bytes bs (k + 8) e (pop + ones_in bs k (k + 8)) :: ('e, nat \<times> nat) outcome)
         = Ok (k', pop + ones_in bs k (k + 8) + ones_in bs (k + 8) k')" "k + 8 \<le> k'" "k' \<le> e" by auto
    ultimately show ?thesis
      using True q ones_in_split [of k "k + 8" k' bs]
      by (subst pop_bytes.simps) auto
  next
    case False
    with less.prems show ?thesis by (subst pop_bytes.simps) auto
  qed
qed

lemma pop_tail_Ok:
  "k \<le> e \<Longrightarrow> e \<le> 8 * length bs \<Longrightarrow> (pop_tail bs k e pop :: ('e, nat) outcome) = Ok (pop + ones_in bs k e)"
proof (induction "e - k" arbitrary: k pop rule: less_induct)
  case less
  show ?case
  proof (cases "k < e")
    case True
    then have "mask_bit bs k = (Ok (stream_bit bs k) :: ('e, bool) outcome)"
      using less.prems by (intro mask_bit_Ok) simp
    with True less show ?thesis by (subst pop_tail.simps) (simp add: ones_in_step [of k])
  next
    case False
    with less.prems show ?thesis by (subst pop_tail.simps) auto
  qed
qed

lemma popcount_range_Ok:
  assumes "a \<le> b" and "b \<le> 8 * length bs"
  shows "(popcount_range bs a b :: ('e, nat) outcome) = Ok (ones_in bs a b)"
proof (cases "a = b")
  case True
  then show ?thesis by (simp add: popcount_range_def)
next
  case False
  from pop_head_Ok [OF assms, of 0] obtain k where
    k: "(pop_head bs a b 0 :: ('e, nat \<times> nat) outcome) = Ok (k, ones_in bs a k)" "a \<le> k" "k \<le> b" "k < b \<longrightarrow> k mod 8 = 0" by auto
  from pop_bytes_Ok [OF k(3) assms(2) k(4), of "ones_in bs a k"] obtain k' where
    k': "(pop_bytes bs k b (ones_in bs a k) :: ('e, nat \<times> nat) outcome) = Ok (k', ones_in bs a k + ones_in bs k k')" "k \<le> k'" "k' \<le> b" by auto
  have "ones_in bs a b = ones_in bs a k + ones_in bs k k' + ones_in bs k' b"
    using ones_in_split [of a k b bs] ones_in_split [of k k' b bs] k(2,3) k'(2,3) by simp
  with False assms(1) k(1) k'(1) pop_tail_Ok [OF k'(3) assms(2)] show ?thesis
    by (simp add: popcount_range_def)
qed

end
