(* ===== verification/DictGather.thy ===== *)
theory DictGather
  imports DictEquiv
begin

text \<open>
  The gather reader: on every alignment of the bitmap, and through each of its four loops, it appends
  the dictionary entries of exactly the rows whose bit is set.
\<close>

section \<open>A packed run, row by row\<close>

lemma fold_o_cong:
  "(\<And>s x. x \<in> set xs \<Longrightarrow> f s x = g s x) \<Longrightarrow> fold_o f s xs = fold_o g s xs"
  by (induction xs arbitrary: s) (auto cong: bind_o_cong)

lemma enumerate_map_upt: "enumerate p (map f [i..<j]) = map (\<lambda>k. (p + (k - i), f k)) [i..<j]"
  by (rule nth_equalityI) (simp_all add: nth_enumerate_eq)

lemma fold_o_skip: "fold_o (\<lambda>s x. Ok s) s xs = Ok s"
  by (induction xs) simp_all

lemma le8: "8 * a \<le> 8 * b \<Longrightarrow> a \<le> (b :: nat)"
  by simp

lemma drop_enumerate: "h \<le> length xs \<Longrightarrow> drop h (enumerate p xs) = enumerate (p + h) (drop h xs)"
  by (rule nth_equalityI) (simp_all add: nth_enumerate_eq)

lemma unpack_8_fields:
  assumes "bw \<le> 32" and "length packed = bw"
  shows "unpack_8_indices packed bw = Ok (map (\<lambda>i. field packed (i * bw) bw) [0..<8])"
proof -
  have "holds packed (0 * bw) (0 :: u64) 0 0" by (simp add: holds_def)
  from unpack_tail_fields [OF this, of 8 "\<lambda>v. Ok (ucast v)" "[]"] assms
  have "unpack_tail (\<lambda>v. Ok (ucast v)) packed bw (mask bw :: u64) 8 0 0 0 []
      = (Ok (map (\<lambda>i. ucast (field packed (i * bw) bw :: u64)) [0..<8]) :: u32 list codec_result)"
    by (simp add: fields_emitted_Ok)
  moreover have "ucast (field packed (i * bw) bw :: u64) = (field packed (i * bw) bw :: u32)" for i
    using assms(1) by (intro ucast_field) simp_all
  ultimately show ?thesis
    using assms by (simp add: unpack_8_indices_def mask_u32_in_u64_eq)
qed

definition gather_rows :: "bytes \<Rightarrow> 'v list \<Rightarrow> bytes \<Rightarrow> nat \<Rightarrow> nat \<Rightarrow> nat \<Rightarrow> nat \<Rightarrow> 'v list \<Rightarrow> 'v list codec_result" where
  "gather_rows bitmap dict chunk bw base i j out =
     fold_o (\<lambda>out k. gather_row bitmap dict out (base + k, field chunk (k * bw) bw)) out [i..<j]"

lemma gather_rows_split:
  "i \<le> m \<Longrightarrow> m \<le> j \<Longrightarrow> gather_rows bitmap dict chunk bw base i j out
     = bind_o (gather_rows bitmap dict chunk bw base i m out) (gather_rows bitmap dict chunk bw base m j)"
proof -
  assume "i \<le> m" "m \<le> j"
  then have "[i..<j] = [i..<m] @ [m..<j]" by (metis le_Suc_ex upt_add_eq_append)
  then show ?thesis unfolding gather_rows_def by (simp add: fold_o_append)
qed

lemma gather_block:
  assumes "(base + 8 * q) mod 8 = 0" and "base + 8 * q + 8 \<le> 8 * length bitmap" and "bw \<le> 32"
    and "8 * (q + 1) * bw \<le> 8 * length chunk"
  shows "bind_o (index_o bitmap ((base + 8 * q) div 8)) (\<lambda>mask_byte.
      if mask_byte \<noteq> 0
      then bind_o (slice chunk (q * bw) (q * bw + bw)) (\<lambda>packed.
           bind_o (unpack_8_indices packed bw) (\<lambda>scratch.
           fold_o (gather_lane mask_byte scratch dict) out [0..<8]))
      else Ok out)
    = gather_rows bitmap dict chunk bw base (8 * q) (8 * (q + 1)) out"
proof -
  obtain b where b: "base + 8 * q = 8 * b" using assms(1) by (metis mod_0_imp_dvd dvdE)
  have bl: "b < length bitmap" using b assms(2) by linarith
  let ?m = "bitmap ! b"
  have "8 * (q * bw + bw) \<le> 8 * length chunk" using assms(4) by (simp add: algebra_simps)
  then have room: "q * bw + bw \<le> length chunk" by (rule le8)
  let ?packed = "take bw (drop (q * bw) chunk)"
  have len: "length ?packed = bw" using room by simp
  have row: "gather_row bitmap dict out (base + (8 * q + k), v) = (if bit ?m k then bind_o (dict_entry dict v) (\<lambda>v. Ok (out @ [v])) else Ok out)"
    if "k < 8" for k v out
  proof -
    have p: "base + (8 * q + k) = 8 * b + k" using b by simp
    have "8 * b + k < 8 * length bitmap" using bl that by linarith
    then have "mask_bit bitmap (8 * b + k) = (Ok (bit ?m k) :: bool codec_result)"
      using that bl by (simp add: mask_bit_Ok bits_of_byte)
    then show ?thesis by (simp add: gather_row_def p)
  qed
  have fld: "field ?packed (k * bw) bw = (field chunk ((8 * q + k) * bw) bw :: u32)" if "k < 8" for k
  proof -
    have "(k + 1) * bw \<le> 8 * bw" using that by (intro mult_le_mono1) simp
    then have "field ?packed (k * bw) bw = (field chunk (8 * (q * bw) + k * bw) bw :: u32)"
      using room by (intro field_slice) simp_all
    then show ?thesis by (simp add: algebra_simps)
  qed
  have "[8 * q..<8 * (q + 1)] = map (\<lambda>k. 8 * q + k) [0..<8]"
    by (rule nth_equalityI) simp_all
  then have rows: "gather_rows bitmap dict chunk bw base (8 * q) (8 * (q + 1)) out
      = fold_o (\<lambda>out k. gather_row bitmap dict out (base + (8 * q + k), field chunk ((8 * q + k) * bw) bw)) out [0..<8]"
    by (simp only: gather_rows_def fold_o_map)
  show ?thesis
  proof (cases "?m = 0")
    case True
    have "fold_o (\<lambda>out k. gather_row bitmap dict out (base + (8 * q + k), field chunk ((8 * q + k) * bw) bw)) out [0..<8]
        = fold_o (\<lambda>out k. Ok out) out [0..<8]"
      by (rule fold_o_cong) (simp add: row True)
    also have "\<dots> = Ok out" by (rule fold_o_skip)
    finally show ?thesis unfolding rows using b bl by (simp add: True)
  next
    case False
    have "fold_o (gather_lane ?m (map (\<lambda>i. field ?packed (i * bw) bw) [0..<8]) dict) out [0..<8]
        = fold_o (\<lambda>out k. gather_row bitmap dict out (base + (8 * q + k), field chunk ((8 * q + k) * bw) bw)) out [0..<8]"
      by (rule fold_o_cong) (simp add: row gather_lane_def bit_test fld del: upt_Suc)
    then show ?thesis
      unfolding rows using False b bl room by (simp add: slice_def unpack_8_fields [OF assms(3) len] del: upt_Suc)
  qed
qed

lemma gather_blocks_rows:
  assumes "base mod 8 = 0" and "base + n \<le> 8 * length bitmap" and "bw \<le> 32" and "n * bw \<le> 8 * length chunk" and "8 * q \<le> n"
  shows "gather_blocks chunk bw bitmap base n dict (q * bw) (8 * q) out
    = bind_o (gather_rows bitmap dict chunk bw base (8 * q) (8 * (n div 8)) out) (\<lambda>out. Ok (n div 8 * bw, 8 * (n div 8), out))"
  using assms(5)
proof (induction "n - 8 * q" arbitrary: q out rule: less_induct)
  case less
  show ?case
  proof (cases "8 * q + 8 \<le> n")
    case False
    with less.prems have "n div 8 = q" by linarith
    with False show ?thesis by (subst gather_blocks.simps) (simp add: gather_rows_def)
  next
    case True
    have "8 * (q + 1) * bw \<le> n * bw" using True by (intro mult_le_mono1) simp
    then have fit: "8 * (q + 1) * bw \<le> 8 * length chunk" using assms(4) by linarith
    have al: "(base + 8 * q) mod 8 = 0" using assms(1) by presburger
    have "base + 8 * q + 8 \<le> 8 * length bitmap" using True assms(2) by linarith
    note blk = gather_block [OF al this assms(3) fit, of dict out]
    have "n - 8 * (q + 1) < n - 8 * q" "8 * (q + 1) \<le> n" using True by simp_all
    note IH = less.hyps [OF this]
    have q8: "8 * (q + 1) \<le> 8 * (n div 8)" 
    proof -
      have "q + 1 \<le> n div 8" using True by (simp add: less_eq_div_iff_mult_less_eq)
      then show ?thesis by simp
    qed
    have "gather_blocks chunk bw bitmap base n dict (q * bw) (8 * q) out
        = bind_o (gather_rows bitmap dict chunk bw base (8 * q) (8 * (q + 1)) out) (\<lambda>out.
            gather_blocks chunk bw bitmap base n dict ((q + 1) * bw) (8 * (q + 1)) out)"
      using True al unfolding blk [symmetric]
      by (subst gather_blocks.simps) (simp add: bind_o_assoc add.commute)
    also have "\<dots> = bind_o (bind_o (gather_rows bitmap dict chunk bw base (8 * q) (8 * (q + 1)) out)
          (gather_rows bitmap dict chunk bw base (8 * (q + 1)) (8 * (n div 8)))) (\<lambda>out. Ok (n div 8 * bw, 8 * (n div 8), out))"
      unfolding bind_o_assoc IH ..
    also have "bind_o (gather_rows bitmap dict chunk bw base (8 * q) (8 * (q + 1)) out)
          (gather_rows bitmap dict chunk bw base (8 * (q + 1)) (8 * (n div 8)))
        = gather_rows bitmap dict chunk bw base (8 * q) (8 * (n div 8)) out"
      by (rule gather_rows_split [OF _ q8, symmetric]) simp
    finally show ?thesis .
  qed
qed

lemma slice_0 [simp]: "n \<le> length bs \<Longrightarrow> slice bs 0 n = Ok (take n bs)"
  by (simp add: slice_def)

lemma div_ceil_bytes: "a \<le> 8 * l \<Longrightarrow> div_ceil a 8 \<le> l \<and> a \<le> 8 * div_ceil a 8"
  unfolding div_ceil_def by linarith

lemma unpack_prefix:
  assumes "bw \<le> 32" and "a * bw \<le> 8 * length chunk"
  shows "bind_o (slice chunk 0 (div_ceil (a * bw) 8)) (\<lambda>bs. unpack_indices_into bs a bw [])
    = Ok (map (\<lambda>i. field chunk (i * bw) bw) [0..<a])"
proof -
  let ?b = "div_ceil (a * bw) 8"
  note b = div_ceil_bytes [OF assms(2)]
  have "field (take ?b chunk) (i * bw) bw = (field chunk (i * bw) bw :: u32)" if "i < a" for i
  proof -
    have "(i + 1) * bw \<le> a * bw" using that by (intro mult_le_mono1) simp
    then show ?thesis using field_slice [of "i * bw" bw ?b 0 chunk] b by simp
  qed
  then show ?thesis using b assms(1) by (simp add: unpack_indices_into_Ok)
qed

lemma unpack_suffix:
  assumes "bw \<le> 32" and "(8 * q + a) * bw \<le> 8 * length chunk"
  shows "bind_o (slice chunk (q * bw) (q * bw + div_ceil (a * bw) 8)) (\<lambda>bs. unpack_indices_into bs a bw [])
    = Ok (map (\<lambda>i. field chunk (i * bw) bw) [8 * q..<8 * q + a])"
proof -
  let ?b = "div_ceil (a * bw) 8"
  have "a * bw \<le> 8 * (length chunk - q * bw)" using assms(2) by (simp add: algebra_simps)
  note b = div_ceil_bytes [OF this]
  have room: "q * bw \<le> length chunk" using assms(2) by (simp add: algebra_simps)
  have "field (take ?b (drop (q * bw) chunk)) (i * bw) bw = (field chunk ((8 * q + i) * bw) bw :: u32)" if "i < a" for i
  proof -
    have "(i + 1) * bw \<le> a * bw" using that by (intro mult_le_mono1) simp
    moreover have "q * bw + ?b \<le> length chunk" using b room by linarith
    ultimately have "field (take ?b (drop (q * bw) chunk)) (i * bw) bw = (field chunk (8 * (q * bw) + i * bw) bw :: u32)"
      using b by (intro field_slice) simp_all
    then show ?thesis by (simp add: algebra_simps)
  qed
  then have "map (\<lambda>i. field (take ?b (drop (q * bw) chunk)) (i * bw) bw :: u32) [0..<a] = map (\<lambda>i. field chunk (i * bw) bw) [8 * q..<8 * q + a]"
    by (intro nth_equalityI) simp_all
  moreover have "q * bw + ?b \<le> length chunk" using b room by linarith
  ultimately show ?thesis using b assms(1) by (simp add: unpack_indices_into_Ok slice_def)
qed

lemma fold_gather_rows:
  "fold_o (gather_row bitmap dict) out (enumerate (base + i) (map (\<lambda>k. field chunk (k * bw) bw) [i..<j]))
     = gather_rows bitmap dict chunk bw base i j out"
  unfolding enumerate_map_upt gather_rows_def fold_o_map by (rule fold_o_cong) auto

lemma gather_packed_rows:
  assumes "n * bw \<le> 8 * length chunk" and "n \<le> nvals" and "bw \<le> 32" and "off + row + n \<le> 8 * length bitmap"
  shows "gather_run bw bitmap off dict (Packed_Run chunk nvals) row n out
    = gather_rows bitmap dict chunk bw (off + row) 0 n out"
proof (cases "(off + row) mod 8 = 0")
  case False
  let ?h = "min (8 - (off + row) mod 8) n"
  let ?f = "map (\<lambda>i. field chunk (i * bw) bw) [0..<n] :: u32 list"
  have "?h * bw \<le> n * bw" by (intro mult_le_mono1) simp
  then have "?h * bw \<le> 8 * length chunk" using assms(1) by linarith
  note head = unpack_prefix [OF assms(3) this] and all = unpack_prefix [OF assms(3,1)]
  have "drop ?h (enumerate (off + row) ?f) = enumerate (off + row + ?h) (map (\<lambda>i. field chunk (i * bw) bw) [?h..<n])"
    by (simp add: drop_enumerate drop_map)
  with False head all show ?thesis
    using fold_gather_rows [of bitmap dict _ "off + row" 0 chunk bw ?h]
    by (simp add: Let_def bind_o_assoc [symmetric] fold_gather_rows gather_rows_split [of 0 ?h n])
next
  case True
  have "n = 8 * (n div 8) + n mod 8" by simp
  have blocks: "gather_blocks chunk bw bitmap (off + row) n dict 0 0 out
      = bind_o (gather_rows bitmap dict chunk bw (off + row) 0 (8 * (n div 8)) out) (\<lambda>out. Ok (n div 8 * bw, 8 * (n div 8), out))"
    using gather_blocks_rows [OF True assms(4,3,1), of 0] by simp
  have "(8 * (n div 8) + (n - 8 * (n div 8))) * bw \<le> 8 * length chunk" using assms(1) by simp
  note tail = unpack_suffix [OF assms(3) this]
  have n: "8 * (n div 8) + (n - 8 * (n div 8)) = n" by simp
  have tail': "bind_o (slice chunk (n div 8 * bw) (n div 8 * bw + div_ceil ((n - 8 * (n div 8)) * bw) 8)) (\<lambda>bs.
      bind_o (unpack_indices_into bs (n - 8 * (n div 8)) bw []) f)
    = f (map (\<lambda>i. field chunk (i * bw) bw) [8 * (n div 8)..<n])" for f :: "u32 list \<Rightarrow> 'a list codec_result"
    using tail unfolding n by (metis bind_o_assoc bind_o.simps(1))
  show ?thesis
  proof (cases "8 * (n div 8) < n")
    case less: True
    then show ?thesis
      using True blocks
      by (simp add: Let_def bind_o_assoc tail' fold_gather_rows gather_rows_split [of 0 "8 * (n div 8)" n])
  next
    case False
    then have "8 * (n div 8) = n" by linarith
    then show ?thesis
      using True blocks by (simp add: Let_def bind_o_assoc bind_o_Ok_right)
  qed
qed

section \<open>The rows of a bitmap\<close>

definition gathered :: "'v list \<Rightarrow> bytes \<Rightarrow> nat \<Rightarrow> u32 list \<Rightarrow> 'v list" where
  "gathered dict bitmap off is = map (\<lambda>(p, i). dict ! unat i) (filter (\<lambda>(p, i). stream_bit bitmap p) (enumerate off is))"

definition selected_ok :: "'v list \<Rightarrow> bytes \<Rightarrow> nat \<Rightarrow> u32 list \<Rightarrow> bool" where
  "selected_ok dict bitmap off is \<longleftrightarrow> list_all (\<lambda>(p, i). stream_bit bitmap p \<longrightarrow> unat i < length dict) (enumerate off is)"

lemma gathered_simps [simp]:
  "gathered dict bitmap off [] = []"
  "gathered dict bitmap off (i # is) = (if stream_bit bitmap off then [dict ! unat i] else []) @ gathered dict bitmap (Suc off) is"
  "gathered dict bitmap off (is @ js) = gathered dict bitmap off is @ gathered dict bitmap (off + length is) js"
  by (simp_all add: gathered_def enumerate_append_eq)

lemma selected_ok_simps [simp]:
  "selected_ok dict bitmap off []"
  "selected_ok dict bitmap off (i # is) \<longleftrightarrow> (stream_bit bitmap off \<longrightarrow> unat i < length dict) \<and> selected_ok dict bitmap (Suc off) is"
  "selected_ok dict bitmap off (is @ js) \<longleftrightarrow> selected_ok dict bitmap off is \<and> selected_ok dict bitmap (off + length is) js"
  by (simp_all add: selected_ok_def enumerate_append_eq)

lemma fold_gather_row:
  "p + length is \<le> 8 * length bitmap \<Longrightarrow> fold_o (gather_row bitmap dict) out (enumerate p is) = Ok r \<longleftrightarrow>
     selected_ok dict bitmap p is \<and> r = out @ gathered dict bitmap p is"
proof (induction "is" arbitrary: p out)
  case (Cons i "is")
  then have "mask_bit bitmap p = (Ok (stream_bit bitmap p) :: bool codec_result)"
    by (intro mask_bit_Ok) simp
  with Cons show ?case by (auto simp: gather_row_def bind_o_eq_Ok_iff)
qed auto

lemma gathered_replicate:
  "gathered dict bitmap p (replicate n i) = replicate (ones_in bitmap p (p + n)) (dict ! unat i)"
  by (induction n arbitrary: p) (simp_all add: ones_in_step)

lemma selected_ok_replicate: "unat i < length dict \<Longrightarrow> selected_ok dict bitmap p (replicate n i)"
  by (induction n arbitrary: p) simp_all

lemma gather_run_Ok_iff:
  assumes "run_ok bw run" and "n \<le> run_count run" and "bw \<le> 32" and "off + e + n \<le> 8 * length bitmap"
  shows "gather_run bw bitmap off dict run e n out = Ok r \<longleftrightarrow>
    rle_index_ok (\<lambda>i. unat i < length dict) run \<and> selected_ok dict bitmap (off + e) (run_vals bw run n) \<and>
    r = out @ gathered dict bitmap (off + e) (run_vals bw run n)"
proof (cases run)
  case (Packed_Run chunk nvals)
  with assms(1,2) have "n * bw \<le> 8 * length chunk" "n \<le> nvals" by (simp_all add: packed_prefix)
  then have "gather_run bw bitmap off dict run e n out = gather_rows bitmap dict chunk bw (off + e) 0 n out"
    unfolding Packed_Run by (rule gather_packed_rows [OF _ _ assms(3,4)])
  also have "\<dots> = fold_o (gather_row bitmap dict) out (enumerate (off + e) (run_vals bw run n))"
    using fold_gather_rows [of bitmap dict out "off + e" 0 chunk bw n] by (simp add: Packed_Run)
  finally show ?thesis
    using fold_gather_row [of "off + e" "run_vals bw run n" bitmap dict out r] assms(4) by (simp add: Packed_Run)
next
  case (Rle_Run idx count)
  from popcount_range_Ok [OF _ assms(4), of "off + e"]
  have "(popcount_range bitmap (off + e) (off + e + n) :: nat codec_result) = Ok (ones_in bitmap (off + e) (off + e + n))"
    by simp
  then show ?thesis
    by (auto simp: Rle_Run bind_o_eq_Ok_iff gathered_replicate selected_ok_replicate)
qed

lemma selected_ok_stream:
  "runs_ok bw num e rs \<Longrightarrow> list_all (\<lambda>(run, e, n). selected_ok dict bitmap (off + e) (run_vals bw run n)) rs \<longleftrightarrow>
     selected_ok dict bitmap (off + e) (stream_vals bw rs)"
  by (induction bw num e rs rule: runs_ok.induct) (auto simp: add.assoc)

lemma runs_ok_bound:
  "runs_ok bw num e rs \<Longrightarrow>
    list_all (\<lambda>(run, e, n). e + n \<le> num \<longrightarrow> Q run e n) rs \<longleftrightarrow> list_all (\<lambda>(run, e, n). Q run e n) rs"
  by (induction bw num e rs rule: runs_ok.induct) auto

lemma fold_gather_runs:
  assumes "runs_ok bw num 0 rs" and "bw \<le> 32" and "off + num \<le> 8 * length bitmap"
  shows "fold_runs (gather_run bw bitmap off dict) out rs = Ok r \<longleftrightarrow>
    list_all (\<lambda>(run, e, n). rle_index_ok (\<lambda>i. unat i < length dict) run) rs \<and>
    selected_ok dict bitmap off (stream_vals bw rs) \<and> r = out @ gathered dict bitmap off (stream_vals bw rs)"
  (is "_ \<longleftrightarrow> ?rhs")
proof -
  let ?P = "\<lambda>i. unat i < length dict"
  let ?Q = "\<lambda>run e n. e + n \<le> num \<longrightarrow> rle_index_ok ?P run \<and> selected_ok dict bitmap (off + e) (run_vals bw run n)"
  have "fold_runs (gather_run bw bitmap off dict) out rs = Ok r \<longleftrightarrow>
      list_all (\<lambda>(run, e, n). ?Q run e n) rs \<and> r = out @ gathered dict bitmap off ([] @ stream_vals bw rs)"
    by (rule fold_runs_iff [where I = "\<lambda>rows s. s = out @ gathered dict bitmap off rows" and rows = "[]" and num = num])
      (use assms in \<open>auto simp: gather_run_Ok_iff\<close>)
  also have "list_all (\<lambda>(run, e, n). ?Q run e n) rs \<longleftrightarrow>
      list_all (\<lambda>(run, e, n). rle_index_ok ?P run \<and> selected_ok dict bitmap (off + e) (run_vals bw run n)) rs"
    by (rule runs_ok_bound [OF assms(1)])
  finally show ?thesis
    unfolding list_all_runs_conj selected_ok_stream [OF assms(1), of dict bitmap off] by simp
qed

end
