(* ===== verification/DictBits.thy ===== *)
theory DictBits
  imports DictEquiv
begin

text \<open>
  The predicate reader: whatever the alignment of its runs, the bitmap it appends has exactly the bits
  of the rows whose entry of the mask is set.
\<close>

section \<open>Setting bits\<close>

lemma bytes_eqI:
  assumes "length as = length bs" and "\<And>j. stream_bit as j \<longleftrightarrow> stream_bit bs j"
  shows "as = bs"
proof (rule nth_equalityI [OF assms(1)])
  fix q assume q: "q < length as"
  show "as ! q = bs ! q"
  proof (rule bit_word_eqI)
    fix k :: nat assume "k < LENGTH(8)"
    then show "bit (as ! q) k \<longleftrightarrow> bit (bs ! q) k"
      using assms q bits_of_byte [of q as k] bits_of_byte [of q bs k] by simp
  qed
qed

lemma stream_bit_set:
  "r < 8 * (length bs - os) \<Longrightarrow> stream_bit (bs[os + r div 8 := x]) j \<longleftrightarrow>
    (if os + r div 8 = j div 8 then bit x (j mod 8) else stream_bit bs j)"
  by (auto simp: stream_bit_def nth_list_update)

lemma or_bit_Ok:
  assumes "r < 8 * (length out - os)"
  shows "\<exists>out'. (or_byte out (os + r div 8) (push_bit (r mod 8) (of_bool c)) :: ('e, bytes) outcome) = Ok out' \<and>
    length out' = length out \<and> (\<forall>j. stream_bit out' j \<longleftrightarrow> stream_bit out j \<or> c \<and> j = 8 * os + r)"
proof -
  let ?i = "os + r div 8"
  have i: "?i < length out" using assms by linarith
  have "stream_bit (out[?i := out ! ?i OR push_bit (r mod 8) (of_bool c)]) j \<longleftrightarrow> stream_bit out j \<or> c \<and> j = 8 * os + r" for j
  proof (cases "?i = j div 8")
    case True
    have "j = 8 * (j div 8) + j mod 8" "r = 8 * (r div 8) + r mod 8" by simp_all
    moreover have "8 * (j div 8) = 8 * os + 8 * (r div 8)" unfolding True [symmetric] by simp
    ultimately have "j = 8 * os + r \<longleftrightarrow> j mod 8 = r mod 8" by (intro iffI; linarith)
    moreover have "bit (push_bit (r mod 8) (of_bool c :: u8)) (j mod 8) \<longleftrightarrow> c \<and> j mod 8 = r mod 8"
      by (simp only: bit_push_bit_iff bit_of_bool_iff) auto
    ultimately show ?thesis
      using True i by (simp add: stream_bit_def bit_or_iff)
  next
    case False
    then have "j \<noteq> 8 * os + r" by auto
    with False assms show ?thesis by (simp add: stream_bit_set)
  qed
  with i show ?thesis by (simp add: or_byte_def)
qed

lemma splat_bit_Ok:
  assumes "r < 8 * (length out - os)"
  shows "\<exists>out'. (splat_bit out os r :: ('e, bytes) outcome) = Ok out' \<and> length out' = length out \<and>
    (\<forall>j. stream_bit out' j \<longleftrightarrow> stream_bit out j \<or> j = 8 * os + r)"
  using or_bit_Ok [OF assms, where c = True] by (simp add: splat_bit_def)

text \<open>\<open>sets os a b out out'\<close>: \<open>out'\<close> is \<open>out\<close> with the rows from \<open>a\<close> up to \<open>b\<close> set.\<close>

definition sets :: "nat \<Rightarrow> nat \<Rightarrow> nat \<Rightarrow> bytes \<Rightarrow> bytes \<Rightarrow> bool" where
  "sets os a b out out' \<longleftrightarrow> length out' = length out \<and>
     (\<forall>j. stream_bit out' j \<longleftrightarrow> stream_bit out j \<or> 8 * os + a \<le> j \<and> j < 8 * os + b)"

lemma sets_refl: "sets os a a out out"
  by (auto simp: sets_def)

lemma sets_trans: "sets os a m out out' \<Longrightarrow> sets os m b out' out'' \<Longrightarrow> a \<le> m \<Longrightarrow> m \<le> b \<Longrightarrow> sets os a b out out''"
  unfolding sets_def
proof (intro conjI allI)
  fix j
  assume 1: "length out' = length out \<and> (\<forall>j. stream_bit out' j \<longleftrightarrow> stream_bit out j \<or> 8 * os + a \<le> j \<and> j < 8 * os + m)"
    and 2: "length out'' = length out' \<and> (\<forall>j. stream_bit out'' j \<longleftrightarrow> stream_bit out' j \<or> 8 * os + m \<le> j \<and> j < 8 * os + b)"
    and le: "a \<le> m" "m \<le> b"
  show "length out'' = length out" using 1 2 by simp
  have "stream_bit out'' j \<longleftrightarrow> (stream_bit out j \<or> 8 * os + a \<le> j \<and> j < 8 * os + m) \<or> 8 * os + m \<le> j \<and> j < 8 * os + b"
    using 1 2 by blast
  then show "stream_bit out'' j \<longleftrightarrow> stream_bit out j \<or> 8 * os + a \<le> j \<and> j < 8 * os + b"
    using le by linarith
qed

lemma sets_one: "length out' = length out \<Longrightarrow> \<forall>j. stream_bit out' j \<longleftrightarrow> stream_bit out j \<or> j = 8 * os + r \<Longrightarrow> sets os r (Suc r) out out'"
proof -
  have "8 * os + r \<le> j \<and> j < 8 * os + Suc r \<longleftrightarrow> j = 8 * os + r" for j by auto
  then show "length out' = length out \<Longrightarrow> \<forall>j. stream_bit out' j \<longleftrightarrow> stream_bit out j \<or> j = 8 * os + r \<Longrightarrow> ?thesis"
    by (simp add: sets_def)
qed

lemma splat_head_Ok:
  "a \<le> b \<Longrightarrow> b \<le> 8 * (length out - os) \<Longrightarrow> \<exists>out' m. (splat_head out os a b :: ('e, bytes \<times> nat) outcome) = Ok (out', m) \<and>
     sets os a m out out' \<and> a \<le> m \<and> m \<le> b \<and> (m < b \<longrightarrow> m mod 8 = 0)"
proof (induction "b - a" arbitrary: a out rule: less_induct)
  case less
  show ?case
  proof (cases "a < b \<and> a mod 8 \<noteq> 0")
    case True
    then have "a < 8 * (length out - os)" using less.prems by simp
    from splat_bit_Ok [OF this] obtain out1 where
      1: "(splat_bit out os a :: ('e, bytes) outcome) = Ok out1" "length out1 = length out" "sets os a (Suc a) out out1"
      using sets_one by blast
    have "b - Suc a < b - a" "Suc a \<le> b" "b \<le> 8 * (length out1 - os)" using True less.prems 1(2) by auto
    from less.hyps [OF this] obtain out' m where
      "(splat_head out1 os (Suc a) b :: ('e, bytes \<times> nat) outcome) = Ok (out', m)" "sets os (Suc a) m out1 out'" "Suc a \<le> m" "m \<le> b" "m < b \<longrightarrow> m mod 8 = 0"
      by auto
    with True 1 sets_trans [OF 1(3) this(2)] show ?thesis by (subst splat_head.simps) auto
  next
    case False
    with less.prems show ?thesis by (subst splat_head.simps) (auto simp: sets_refl)
  qed
qed

lemma splat_bytes_Ok:
  "a \<le> b \<Longrightarrow> b \<le> 8 * (length out - os) \<Longrightarrow> a < b \<longrightarrow> a mod 8 = 0 \<Longrightarrow>
    \<exists>out' m. (splat_bytes out os a b :: ('e, bytes \<times> nat) outcome) = Ok (out', m) \<and> sets os a m out out' \<and> a \<le> m \<and> m \<le> b"
proof (induction "b - a" arbitrary: a out rule: less_induct)
  case less
  show ?case
  proof (cases "a + 8 \<le> b")
    case True
    with less.prems(3) obtain q where q: "a = 8 * q" by auto
    let ?out = "out[os + q := 0xFF]"
    have ix: "os + q < length out" using q True less.prems(2) by linarith
    have ff: "bit (0xFF :: u8) k \<longleftrightarrow> k < 8" for k
    proof -
      have "(0xFF :: u8) = mask 8" by (simp add: mask_eq_exp_minus_1)
      then show ?thesis by (simp only: bit_mask_iff) simp
    qed
    have set: "sets os a (a + 8) out ?out"
      unfolding sets_def
    proof (intro conjI allI)
      fix j
      show "stream_bit ?out j \<longleftrightarrow> stream_bit out j \<or> 8 * os + a \<le> j \<and> j < 8 * os + (a + 8)"
      proof (cases "os + q = j div 8")
        case True
        then have "8 * os + a \<le> j \<and> j < 8 * os + (a + 8)" using q by linarith
        with True ix ff [of "j mod 8"] show ?thesis by (simp add: stream_bit_def)
      next
        case False
        then have "\<not> (8 * os + a \<le> j \<and> j < 8 * os + (a + 8))" using q by linarith
        with False show ?thesis by (auto simp: stream_bit_def nth_list_update)
      qed
    qed simp
    have "b - (a + 8) < b - a" "b \<le> 8 * (length ?out - os)" "(a + 8) mod 8 = 0" using True less.prems(2) q by simp_all
    from less.hyps [OF this(1) True this(2)] this(3) obtain out' m where
      "(splat_bytes ?out os (a + 8) b :: ('e, bytes \<times> nat) outcome) = Ok (out', m)" "sets os (a + 8) m ?out out'" "a + 8 \<le> m" "m \<le> b"
      by blast
    with True ix q sets_trans [OF set this(2)] show ?thesis by (subst splat_bytes.simps) auto
  next
    case False
    with less.prems show ?thesis by (subst splat_bytes.simps) (auto simp: sets_refl)
  qed
qed

lemma splat_tail_Ok:
  "a \<le> b \<Longrightarrow> b \<le> 8 * (length out - os) \<Longrightarrow> \<exists>out'. (splat_tail out os a b :: ('e, bytes) outcome) = Ok out' \<and> sets os a b out out'"
proof (induction "b - a" arbitrary: a out rule: less_induct)
  case less
  show ?case
  proof (cases "a < b")
    case True
    then have "a < 8 * (length out - os)" using less.prems by simp
    from splat_bit_Ok [OF this] obtain out1 where
      1: "(splat_bit out os a :: ('e, bytes) outcome) = Ok out1" "length out1 = length out" "sets os a (Suc a) out out1"
      using sets_one by blast
    have "b - Suc a < b - a" "Suc a \<le> b" "b \<le> 8 * (length out1 - os)" using True less.prems 1(2) by auto
    from less.hyps [OF this] obtain out' where
      "(splat_tail out1 os (Suc a) b :: ('e, bytes) outcome) = Ok out'" "sets os (Suc a) b out1 out'"
      by blast
    with True 1 sets_trans [OF 1(3) this(2)] show ?thesis by (subst splat_tail.simps) auto
  next
    case False
    with less.prems show ?thesis by (subst splat_tail.simps) (auto simp: sets_refl)
  qed
qed

lemma splat_ones_Ok:
  assumes "a \<le> b" and "b \<le> 8 * (length out - os)"
  shows "\<exists>out'. (splat_ones out os a b :: ('e, bytes) outcome) = Ok out' \<and> sets os a b out out'"
proof (cases "a = b")
  case True
  then show ?thesis by (auto simp: splat_ones_def sets_refl)
next
  case False
  from splat_head_Ok [OF assms, where 'e = 'e] obtain o1 m where
    1: "(splat_head out os a b :: ('e, bytes \<times> nat) outcome) = Ok (o1, m)" "sets os a m out o1" "a \<le> m" "m \<le> b" "m < b \<longrightarrow> m mod 8 = 0" by auto
  then have "b \<le> 8 * (length o1 - os)" using assms(2) by (simp add: sets_def)
  from splat_bytes_Ok [OF 1(4) this 1(5), where 'e = 'e] obtain o2 m2 where
    2: "(splat_bytes o1 os m b :: ('e, bytes \<times> nat) outcome) = Ok (o2, m2)" "sets os m m2 o1 o2" "m \<le> m2" "m2 \<le> b" by blast
  then have "b \<le> 8 * (length o2 - os)" using assms(2) 1(2) by (simp add: sets_def)
  from splat_tail_Ok [OF 2(4) this, where 'e = 'e] obtain o3 where
    3: "(splat_tail o2 os m2 b :: ('e, bytes) outcome) = Ok o3" "sets os m2 b o2 o3" by blast
  from sets_trans [OF sets_trans [OF 1(2) 2(2) 1(3) 2(3)] 3(2)] 1(3) 2(3,4) have "sets os a b out o3" by simp
  with False assms(1) 1(1) 2(1) 3(1) show ?thesis by (simp add: splat_ones_def)
qed

section \<open>Mask bytes\<close>

lemma bit_push_of_bool: "l < 8 \<Longrightarrow> bit (push_bit n (of_bool c :: u8)) l \<longleftrightarrow> c \<and> l = n"
  by (simp only: bit_push_bit_iff bit_of_bool_iff) auto

definition mask01 :: "bytes \<Rightarrow> bool" where
  "mask01 msk \<longleftrightarrow> (\<forall>x \<in> set msk. x = 0 \<or> x = 1)"

lemma mask01_nth: "mask01 msk \<Longrightarrow> i < length msk \<Longrightarrow> msk ! i = of_bool (msk ! i \<noteq> 0)"
  unfolding mask01_def using nth_mem by fastforce

lemma mask_byte_at_Ok:
  assumes "mask01 msk" and "\<forall>i \<in> set idxs. unat i < length msk" and "base + lanes \<le> length idxs" and "lanes \<le> 8"
  shows "\<exists>b. mask_byte_at msk idxs base lanes = Ok b \<and>
    (\<forall>l < 8. bit b l \<longleftrightarrow> l < lanes \<and> msk ! unat (idxs ! (base + l)) \<noteq> 0)"
  using assms(3,4)
proof (induction lanes)
  case 0
  then show ?case by (simp add: mask_byte_at_def)
next
  case (Suc n)
  then obtain b where b: "mask_byte_at msk idxs base n = Ok b"
    "\<forall>l < 8. bit b l \<longleftrightarrow> l < n \<and> msk ! unat (idxs ! (base + l)) \<noteq> 0" by auto
  let ?x = "msk ! unat (idxs ! (base + n))"
  have ix: "base + n < length idxs" using Suc.prems by simp
  then have "unat (idxs ! (base + n)) < length msk" using assms(2) by simp
  moreover from mask01_nth [OF assms(1) this] have "bit (push_bit n ?x) l \<longleftrightarrow> ?x \<noteq> 0 \<and> l = n" if "l < 8" for l
    using bit_push_of_bool [OF that] by metis
  ultimately show ?case
    using b ix Suc.prems by (auto simp: mask_byte_at_def fold_o_append mask_lane_def get_unchecked_def bit_or_iff less_Suc_eq)
qed

lemma div_ceil_8: "div_ceil n 8 = n div 8 + (if n mod 8 = 0 then 0 else 1)"
proof -
  obtain q r where n: "n = 8 * q + r" "r < 8" by (metis mult_div_mod_eq mod_less_divisor zero_less_numeral)
  have "(8 * q + r + 8 - 1) div 8 = q + (if r = 0 then 0 else 1)"
  proof (cases "r = 0")
    case False
    with n(2) have "(8 * q + r + 8 - 1) div 8 = q + 1" by linarith
    with False show ?thesis by simp
  qed simp
  with n show ?thesis by (simp add: div_ceil_def)
qed
lemma fused_bitmap_chunk_Ok:
  assumes "mask01 msk" and "2 ^ bw \<le> length msk" and "bw \<le> 32" and "n * bw \<le> 8 * length chunk"
  shows "\<exists>tmp. fused_bitmap_chunk chunk bw n msk [] = Ok tmp \<and> length tmp = div_ceil n 8 \<and>
    (\<forall>j. stream_bit tmp j \<longleftrightarrow> j < n \<and> msk ! unat (field chunk (j * bw) bw :: u32) \<noteq> 0)"
proof -
  let ?idxs = "map (\<lambda>i. field chunk (i * bw) bw) [0..<n] :: u32 list"
  let ?hit = "\<lambda>j. msk ! unat (field chunk (j * bw) bw :: u32) \<noteq> 0"
  have ix: "\<forall>i \<in> set ?idxs. unat i < length msk"
    using assms(2,3) unat_field_less [of bw chunk, where 'a = 32] by (auto intro: less_le_trans)
  have byte: "\<exists>b. mask_byte_at msk ?idxs (8 * q) l = Ok b \<and> (\<forall>k < 8. bit b k \<longleftrightarrow> k < l \<and> ?hit (8 * q + k))"
    if "8 * q + l \<le> n" "l \<le> 8" for q l
  proof -
    from that have "8 * q + l \<le> length ?idxs" by simp
    from mask_byte_at_Ok [OF assms(1) ix this that(2)] obtain b where
      "mask_byte_at msk ?idxs (8 * q) l = Ok b" "\<forall>k < 8. bit b k \<longleftrightarrow> k < l \<and> msk ! unat (?idxs ! (8 * q + k)) \<noteq> 0" by blast
    moreover have "k < l \<Longrightarrow> ?idxs ! (8 * q + k) = field chunk ((8 * q + k) * bw) bw" for k using that by simp
    ultimately show ?thesis by auto
  qed
  have "\<forall>q. \<exists>b. q < n div 8 \<longrightarrow> mask_byte_at msk ?idxs (q * 8) 8 = Ok b \<and> (\<forall>k < 8. bit b k \<longleftrightarrow> ?hit (8 * q + k))"
  proof
    fix q
    have "q < n div 8 \<Longrightarrow> 8 * q + 8 \<le> n" by linarith
    with byte [of q 8] show "\<exists>b. q < n div 8 \<longrightarrow> mask_byte_at msk ?idxs (q * 8) 8 = Ok b \<and> (\<forall>k < 8. bit b k \<longleftrightarrow> ?hit (8 * q + k))"
      by (auto simp: mult.commute)
  qed
  then obtain f where f: "\<And>q. q < n div 8 \<Longrightarrow> mask_byte_at msk ?idxs (q * 8) 8 = Ok (f q)"
    "\<And>q k. q < n div 8 \<Longrightarrow> k < 8 \<Longrightarrow> bit (f q) k \<longleftrightarrow> ?hit (8 * q + k)" by metis
  have bs: "mapM_o (\<lambda>blk. mask_byte_at msk ?idxs (blk * 8) 8) [0..<n div 8] = Ok (map f [0..<n div 8])"
    by (rule mapM_o_all_Ok) (simp add: f(1))
  have "8 * (n div 8) + n mod 8 \<le> n" "n mod 8 \<le> 8" by simp_all
  from byte [OF this] obtain b where b: "mask_byte_at msk ?idxs (n div 8 * 8) (n mod 8) = Ok b"
    "\<And>k. k < 8 \<Longrightarrow> bit b k \<longleftrightarrow> k < n mod 8 \<and> ?hit (8 * (n div 8) + k)" by (auto simp: mult.commute)
  let ?tmp = "map f [0..<n div 8] @ (if n mod 8 > 0 then [b] else [])"
  have "fused_bitmap_chunk chunk bw n msk [] = Ok ?tmp"
    using bs b(1) assms(3,4) by (simp add: fused_bitmap_chunk_def unpack_indices_into_Ok Let_def)
  moreover have len: "length ?tmp = div_ceil n 8" by (simp add: div_ceil_8)
  moreover have "stream_bit ?tmp j \<longleftrightarrow> j < n \<and> ?hit j" for j
  proof -
    have j: "8 * (j div 8) + j mod 8 = j" "j mod 8 < 8" "8 * (n div 8) + n mod 8 = n" by simp_all
    consider "j div 8 < n div 8" | "j div 8 = n div 8" | "n div 8 < j div 8" by linarith
    then show ?thesis
    proof cases
      case 1
      then have "j < n" by linarith
      with 1 f(2) [OF 1 j(2)] show ?thesis by (simp add: stream_bit_def nth_append)
    next
      case 2
      then have "j < n \<longleftrightarrow> j mod 8 < n mod 8" using j by (intro iffI; linarith)
      with 2 b(2) [OF j(2)] j(1) show ?thesis by (auto simp: stream_bit_def nth_append)
    next
      case 3
      then have "\<not> j < n" by linarith
      with 3 show ?thesis by (simp add: stream_bit_def)
    qed
  qed
  ultimately show ?thesis by blast
qed

section \<open>The bitmap of a page\<close>

text \<open>\<open>marks msk out0 nb rows out\<close>: \<open>out\<close> is \<open>out0\<close> and \<open>nb\<close> bytes more, in which the rows read so far are marked.\<close>

definition marks :: "bytes \<Rightarrow> bytes \<Rightarrow> nat \<Rightarrow> u32 list \<Rightarrow> bytes \<Rightarrow> bool" where
  "marks msk out0 nb rows out \<longleftrightarrow> length out = length out0 + nb \<and>
     (\<forall>j. stream_bit out j \<longleftrightarrow> stream_bit out0 j \<or>
        (\<exists>k < length rows. j = 8 * length out0 + k \<and> msk ! unat (rows ! k) \<noteq> 0))"

lemma marks_unique: "marks msk out0 nb rows out \<Longrightarrow> marks msk out0 nb rows out' \<Longrightarrow> out = out'"
  by (rule bytes_eqI) (simp_all add: marks_def)

lemma stream_bit_bound: "stream_bit bs j \<Longrightarrow> j < 8 * length bs"
  by (simp add: stream_bit_def div_less_iff_less_mult mult.commute)

lemma marks_start: "marks msk out0 nb [] (out0 @ replicate nb 0)"
  by (auto simp: marks_def stream_bit_append stream_bit_replicate_0 dest: stream_bit_bound)

lemma marks_fresh:
  assumes "marks msk out0 nb rows out" and "8 * length out0 + length rows \<le> j"
  shows "\<not> stream_bit out j"
proof -
  have "\<not> j div 8 < length out0" using assms(2) by linarith
  with assms show ?thesis by (auto simp: marks_def stream_bit_def [of out0])
qed

lemma marks_step:
  assumes "marks msk out0 nb rows out" and "length out' = length out"
    and "\<And>j. stream_bit out' j \<longleftrightarrow> stream_bit out j \<or>
      (\<exists>k < length vs. j = 8 * length out0 + (length rows + k) \<and> msk ! unat (vs ! k) \<noteq> 0)"
  shows "marks msk out0 nb (rows @ vs) out'"
proof -
  have "(\<exists>k < length (rows @ vs). j = 8 * length out0 + k \<and> msk ! unat ((rows @ vs) ! k) \<noteq> 0) \<longleftrightarrow>
      (\<exists>k < length rows. j = 8 * length out0 + k \<and> msk ! unat (rows ! k) \<noteq> 0) \<or>
      (\<exists>k < length vs. j = 8 * length out0 + (length rows + k) \<and> msk ! unat (vs ! k) \<noteq> 0)" (is "?l \<longleftrightarrow> ?a \<or> ?b") for j
  proof
    assume ?l
    then obtain k where k: "k < length rows + length vs" "j = 8 * length out0 + k" "msk ! unat ((rows @ vs) ! k) \<noteq> 0" by auto
    show "?a \<or> ?b"
    proof (cases "k < length rows")
      case True
      with k show ?thesis by (auto simp: nth_append)
    next
      case False
      then obtain i where "k = length rows + i" by (metis le_add_diff_inverse linorder_not_less)
      with k show ?thesis by auto
    qed
  next
    assume "?a \<or> ?b"
    then show ?l
    proof
      assume ?a
      then obtain k where "k < length rows" "j = 8 * length out0 + k" "msk ! unat (rows ! k) \<noteq> 0" by blast
      then show ?l by (intro exI [of _ k]) (simp add: nth_append)
    next
      assume ?b
      then obtain k where "k < length vs" "j = 8 * length out0 + (length rows + k)" "msk ! unat (vs ! k) \<noteq> 0" by blast
      then show ?l by (intro exI [of _ "length rows + k"]) simp
    qed
  qed
  with assms show ?thesis unfolding marks_def by metis
qed

lemma stream_bit_copy:
  assumes "a + length tmp \<le> length out"
  shows "stream_bit (take a out @ tmp @ drop (a + length tmp) out) j \<longleftrightarrow>
    (if 8 * a \<le> j \<and> j < 8 * (a + length tmp) then stream_bit tmp (j - 8 * a) else stream_bit out j)"
proof -
  let ?q = "j div 8"
  have q: "8 * a \<le> j \<longleftrightarrow> a \<le> ?q" "j < 8 * (a + length tmp) \<longleftrightarrow> ?q < a + length tmp" "(j - 8 * a) div 8 = ?q - a"
    by (simp_all add: less_eq_div_iff_mult_less_eq div_less_iff_less_mult mult.commute)
  have m: "a \<le> ?q \<Longrightarrow> (j - 8 * a) mod 8 = j mod 8"
    using q(1) by (metis mod_mult_self4 mult.commute le_add_diff_inverse)
  consider "?q < a" | "a \<le> ?q" "?q < a + length tmp" | "a + length tmp \<le> ?q" by linarith
  then show ?thesis
  proof cases
    case 1
    with assms show ?thesis unfolding q by (simp add: stream_bit_def nth_append)
  next
    case 2
    then have "?q - a < length tmp" by linarith
    with 2 assms m show ?thesis unfolding q by (simp add: q stream_bit_def nth_append)
  next
    case 3
    then have "?q - a - length tmp + (a + length tmp) = ?q" "\<not> ?q - a < length tmp" "\<not> ?q < a" "\<not> ?q < a + length tmp" by linarith+
    with 3 assms show ?thesis unfolding q by (simp add: stream_bit_def nth_append add.commute)
  qed
qed

lemma merge_bits_Ok:
  assumes "n \<le> 8 * length tmp" and "e + n \<le> 8 * (length out - os)"
  shows "\<exists>out'. (fold_o (merge_bit tmp os e) out [0..<n] :: ('e, bytes) outcome) = Ok out' \<and> length out' = length out \<and>
    (\<forall>j. stream_bit out' j \<longleftrightarrow> stream_bit out j \<or> (\<exists>i < n. stream_bit tmp i \<and> j = 8 * os + (e + i)))"
  using assms
proof (induction n)
  case 0
  then show ?case by simp
next
  case (Suc n)
  then obtain o1 where o1: "(fold_o (merge_bit tmp os e) out [0..<n] :: ('e, bytes) outcome) = Ok o1" "length o1 = length out"
    "\<forall>j. stream_bit o1 j \<longleftrightarrow> stream_bit out j \<or> (\<exists>i < n. stream_bit tmp i \<and> j = 8 * os + (e + i))" by auto
  have ix: "n div 8 < length tmp" using Suc.prems by linarith
  have bit: "drop_bit (n mod 8) (tmp ! (n div 8)) AND 1 = (of_bool (stream_bit tmp n) :: u8)"
    using ix by (simp add: stream_bit_def bit_iff_odd_drop_bit and_one_eq odd_iff_mod_2_eq_one)
  have "e + n < 8 * (length o1 - os)" using Suc.prems o1(2) by simp
  from or_bit_Ok [OF this, of "stream_bit tmp n", where 'e = 'e] obtain o2 where
    o2: "(or_byte o1 (os + (e + n) div 8) (push_bit ((e + n) mod 8) (of_bool (stream_bit tmp n))) :: ('e, bytes) outcome) = Ok o2"
    "length o2 = length o1" "\<forall>j. stream_bit o2 j \<longleftrightarrow> stream_bit o1 j \<or> stream_bit tmp n \<and> j = 8 * os + (e + n)" by blast
  have step: "(merge_bit tmp os e o1 n :: ('e, bytes) outcome)
      = or_byte o1 (os + (e + n) div 8) (push_bit ((e + n) mod 8) (of_bool (stream_bit tmp n)))"
    by (simp only: merge_bit_def index_o_Ok [OF ix] bind_o.simps Let_def bit)
  have "(fold_o (merge_bit tmp os e) out [0..<Suc n] :: ('e, bytes) outcome) = Ok o2"
    using o1(1) o2(1) by (simp add: fold_o_append step bind_o_Ok_right)
  moreover have "stream_bit o2 j \<longleftrightarrow> stream_bit out j \<or> (\<exists>i < Suc n. stream_bit tmp i \<and> j = 8 * os + (e + i))" for j
    using o1(3) o2(3) by (auto simp: less_Suc_eq)
  ultimately show ?case using o1(2) o2(2) by simp
qed

lemma bitmap_run_Ok:
  assumes "run_ok bw run" and "n \<le> run_count run" and "length rows + n \<le> num" and "rle_index_ok (\<lambda>i. unat i < 2 ^ bw) run"
    and "marks msk out0 (div_ceil num 8) rows out" and "mask01 msk" and "2 ^ bw \<le> length msk" and "bw \<le> 32"
  shows "\<exists>out'. bitmap_run bw (2 ^ bw) msk (length out0) run (length rows) n out = Ok out' \<and>
    marks msk out0 (div_ceil num 8) (rows @ run_vals bw run n) out'"
proof -
  have len: "length out = length out0 + div_ceil num 8" using assms(5) by (simp add: marks_def)
  have num: "num \<le> 8 * div_ceil num 8" unfolding div_ceil_def by linarith
  then have room: "length rows + n \<le> 8 * (length out - length out0)" using assms(3) len by simp
  show ?thesis
  proof (cases run)
    case (Rle_Run idx count)
    then have idx: "unat idx < 2 ^ bw" "unat idx < length msk" using assms(4,7) by simp_all
    show ?thesis
    proof (cases "msk ! unat idx = 0")
      case True
      then have "marks msk out0 (div_ceil num 8) (rows @ replicate n idx) out"
        by (intro marks_step [OF assms(5)]) auto
      with True idx show ?thesis by (simp add: Rle_Run get_unchecked_def)
    next
      case False
      from splat_ones_Ok [OF le_add1 room, where 'e = codec_error] obtain out' where
        out': "(splat_ones out (length out0) (length rows) (length rows + n) :: bytes codec_result) = Ok out'"
        "sets (length out0) (length rows) (length rows + n) out out'" by blast
      have "stream_bit out' j \<longleftrightarrow> stream_bit out j \<or>
          (\<exists>k < length (replicate n idx). j = 8 * length out0 + (length rows + k) \<and> msk ! unat (replicate n idx ! k) \<noteq> 0)" for j
      proof -
        have "8 * length out0 + length rows \<le> j \<and> j < 8 * length out0 + (length rows + n) \<longleftrightarrow>
            (\<exists>k < n. j = 8 * length out0 + (length rows + k))" (is "?a \<longleftrightarrow> ?b")
        proof
          assume ?a
          then show ?b by (intro exI [of _ "j - (8 * length out0 + length rows)"]) linarith
        qed auto
        with out'(2) False show ?thesis by (auto simp: sets_def)
      qed
      with out'(2) have "marks msk out0 (div_ceil num 8) (rows @ replicate n idx) out'"
        by (intro marks_step [OF assms(5)]) (simp_all add: sets_def)
      with False idx out'(1) show ?thesis by (simp add: Rle_Run get_unchecked_def)
    qed
  next
    case (Packed_Run chunk nvals)
    then have "n * bw \<le> 8 * length chunk" using assms(1,2) by (simp add: packed_prefix)
    from fused_bitmap_chunk_Ok [OF assms(6-8) this] obtain tmp where
      tmp: "fused_bitmap_chunk chunk bw n msk [] = Ok tmp" "length tmp = div_ceil n 8"
      "\<And>j. stream_bit tmp j \<longleftrightarrow> j < n \<and> msk ! unat (field chunk (j * bw) bw :: u32) \<noteq> 0" by blast
    let ?vs = "run_vals bw run n"
    have vs: "(\<exists>k < length ?vs. j = 8 * length out0 + (length rows + k) \<and> msk ! unat (?vs ! k) \<noteq> 0) \<longleftrightarrow>
        (\<exists>k < n. stream_bit tmp k \<and> j = 8 * length out0 + (length rows + k))" for j
      by (auto simp: Packed_Run tmp(3))
    show ?thesis
    proof (cases "length rows mod 8 = 0 \<and> n mod 8 = 0")
      case False
      have "n \<le> 8 * length tmp" unfolding tmp(2) div_ceil_def by linarith
      from merge_bits_Ok [OF this room, where 'e = codec_error] obtain out' where
        out': "(fold_o (merge_bit tmp (length out0) (length rows)) out [0..<n] :: bytes codec_result) = Ok out'" "length out' = length out"
        "\<forall>j. stream_bit out' j \<longleftrightarrow> stream_bit out j \<or> (\<exists>i < n. stream_bit tmp i \<and> j = 8 * length out0 + (length rows + i))" by blast
      have "marks msk out0 (div_ceil num 8) (rows @ ?vs) out'"
        by (rule marks_step [OF assms(5) out'(2)]) (simp only: vs out'(3))
      with False tmp(1) out'(1) show ?thesis by (auto simp: Packed_Run)
    next
      case True
      then obtain a b where ab: "length rows = 8 * a" "n = 8 * b" by (metis mod_0_imp_dvd dvdE)
      have b: "length tmp = b" unfolding tmp(2) ab(2) div_ceil_def by simp
      have fit: "length out0 + a + length tmp \<le> length out" using room ab b len by linarith
      let ?out = "take (length out0 + a) out @ tmp @ drop (length out0 + a + length tmp) out"
      have "stream_bit ?out j \<longleftrightarrow> stream_bit out j \<or>
          (\<exists>k < length ?vs. j = 8 * length out0 + (length rows + k) \<and> msk ! unat (?vs ! k) \<noteq> 0)" for j
      proof (cases "8 * (length out0 + a) \<le> j \<and> j < 8 * (length out0 + a + length tmp)")
        case True
        then have "\<not> stream_bit out j" using marks_fresh [OF assms(5)] ab by simp
        moreover have "(\<exists>k < n. stream_bit tmp k \<and> j = 8 * length out0 + (length rows + k)) \<longleftrightarrow> stream_bit tmp (j - 8 * (length out0 + a))"
        proof
          assume "stream_bit tmp (j - 8 * (length out0 + a))"
          with True ab b show "\<exists>k < n. stream_bit tmp k \<and> j = 8 * length out0 + (length rows + k)"
            by (intro exI [of _ "j - 8 * (length out0 + a)"]) auto
        qed (auto simp: ab)
        ultimately show ?thesis
          unfolding vs stream_bit_copy [OF fit] using True by simp
      next
        case False
        then have "\<not> (\<exists>k < n. stream_bit tmp k \<and> j = 8 * length out0 + (length rows + k))" using ab b by auto
        with False show ?thesis unfolding vs stream_bit_copy [OF fit] by auto
      qed
      moreover have "length ?out = length out" using fit by simp
      ultimately have "marks msk out0 (div_ceil num 8) (rows @ ?vs) ?out"
        by (intro marks_step [OF assms(5)]) blast+
      moreover have "copy_from_slice out (length out0 + length rows div 8) (n div 8) tmp = (Ok ?out :: bytes codec_result)"
        using fit b ab by (simp add: copy_from_slice_def)
      ultimately show ?thesis using True tmp(1) ab b by (simp add: Packed_Run Let_def)
    qed
  qed
qed

lemma bitmap_run_only:
  "bitmap_run bw req msk os run e n out = Ok out' \<Longrightarrow> rle_index_ok (\<lambda>i. unat i < req) run"
  by (cases run) (auto split: if_splits)

lemma fold_bitmap_runs:
  assumes "runs_ok bw num 0 rs" and "bw \<le> 32" and "mask01 msk" and "2 ^ bw \<le> length msk"
  shows "fold_runs (bitmap_run bw (2 ^ bw) msk (length out0)) (out0 @ replicate (div_ceil num 8) 0) rs = Ok r \<longleftrightarrow>
    list_all (\<lambda>(run, e, n). rle_index_ok (\<lambda>i. unat i < 2 ^ bw) run) rs \<and>
    marks msk out0 (div_ceil num 8) (stream_vals bw rs) r"
proof -
  have "fold_runs (bitmap_run bw (2 ^ bw) msk (length out0)) (out0 @ replicate (div_ceil num 8) 0) rs = Ok r \<longleftrightarrow>
      list_all (\<lambda>(run, e, n). rle_index_ok (\<lambda>i. unat i < 2 ^ bw) run) rs \<and>
      marks msk out0 (div_ceil num 8) ([] @ stream_vals bw rs) r"
    by (rule fold_runs_iff [where I = "marks msk out0 (div_ceil num 8)" and rows = "[]" and num = num])
      (use assms marks_start bitmap_run_Ok in \<open>auto intro: marks_unique dest: bitmap_run_only\<close>)
  then show ?thesis by simp
qed

lemma marks_all_0: "marks msk out0 nb rows out \<Longrightarrow> marks msk out0 nb (rows @ replicate n i) out" if "msk ! unat i = 0"
  by (rule marks_step) (use that in auto)

lemma bitmap_zero_width:
  assumes "hd msk = msk ! 0" and "0 < num"
  shows "(if msk ! 0 \<noteq> 0 then splat_ones (out0 @ replicate (div_ceil num 8) 0) (length out0) 0 num
      else Ok (out0 @ replicate (div_ceil num 8) 0)) = (Ok r :: bytes codec_result) \<longleftrightarrow>
    marks msk out0 (div_ceil num 8) (replicate num 0) r"
proof -
  let ?o = "out0 @ replicate (div_ceil num 8) 0"
  have "\<exists>r'. (if msk ! 0 \<noteq> 0 then splat_ones ?o (length out0) 0 num else Ok ?o) = (Ok r' :: bytes codec_result) \<and>
      marks msk out0 (div_ceil num 8) ([] @ replicate num 0) r'"
  proof (cases "msk ! 0 = 0")
    case True
    then have "msk ! unat (0 :: u32) = 0" by simp
    from marks_all_0 [OF this marks_start] True show ?thesis by simp
  next
    case False
    have "num \<le> 8 * (length ?o - length out0)" unfolding div_ceil_def by simp
    from splat_ones_Ok [OF le0 this, where 'e = codec_error] obtain r' where
      r': "(splat_ones ?o (length out0) 0 num :: bytes codec_result) = Ok r'" "sets (length out0) 0 num ?o r'" by blast
    have range: "(\<exists>k < num. j = 8 * length out0 + k) \<longleftrightarrow> 8 * length out0 \<le> j \<and> j < 8 * length out0 + num" for j
      by (auto intro: exI [of _ "j - 8 * length out0"])
    have hits: "(\<exists>k < length (replicate num (0 :: u32)). j = 8 * length out0 + (length ([] :: u32 list) + k) \<and> msk ! unat (replicate num (0 :: u32) ! k) \<noteq> 0)
        \<longleftrightarrow> 8 * length out0 \<le> j \<and> j < 8 * length out0 + num" for j
      unfolding range [symmetric] using False by auto
    have "marks msk out0 (div_ceil num 8) ([] @ replicate num 0) r'"
      by (rule marks_step [OF marks_start]) (use r'(2) in \<open>simp_all only: hits sets_def add_0_right\<close>)
    with r'(1) False show ?thesis by simp
  qed
  then show ?thesis using marks_unique by fastforce
qed

lemma dict_bitmap_iff:
  assumes "num < 2 ^ 64" and "mask01 msk"
  shows "decode_rle_dictionary_predicate_bitmap body num msk out = Ok r \<longleftrightarrow>
    (\<exists>is. decode_rle_dictionary_indices body num = Ok is \<and> unat (hd body) < 32 \<and> 2 ^ unat (hd body) \<le> length msk \<and>
       page_rle_ok body num (\<lambda>i. unat i < 2 ^ unat (hd body)) \<and> marks msk out (div_ceil num 8) is r)"
proof -
  let ?bw = "unat (hd body)"
  consider "body = [] \<or> ?bw \<ge> 32 \<or> length msk < 2 ^ ?bw" | "body \<noteq> []" "?bw < 32" "2 ^ ?bw \<le> length msk" "num = 0"
    | "body \<noteq> []" "?bw < 32" "2 ^ ?bw \<le> length msk" "num \<noteq> 0" "?bw = 0" | "body \<noteq> []" "?bw < 32" "2 ^ ?bw \<le> length msk" "num \<noteq> 0" "?bw \<noteq> 0"
    using leI by blast
  then show ?thesis
  proof cases
    case 1
    have "(if ?bw = 0 then 1 else 2 ^ ?bw) = (2 ^ ?bw :: nat)" by simp
    with 1 show ?thesis
      by (auto simp: decode_rle_dictionary_predicate_bitmap_def indices_Ok_iff [OF assms(1)] page_runs_def Let_def)
  next
    case 2
    have "marks msk out 0 [] r \<longleftrightarrow> out = r"
      using marks_start [of msk out 0] marks_unique by auto
    moreover have "decode_rle_dictionary_indices body 0 = Ok []"
      using 2 by (simp add: decode_rle_dictionary_indices_def decode_rle_dictionary_indices_into_def)
    ultimately show ?thesis
      using 2 by (auto simp: decode_rle_dictionary_predicate_bitmap_def page_runs_def page_rle_ok_def Let_def div_ceil_def)
  next
    case 3
    have "hd msk = msk ! 0" using 3(3) by (cases msk) auto
    note zero = bitmap_zero_width [OF this, of num out r]
    have "msk \<noteq> []" using 3(3) by auto
    then show ?thesis
      using 3 zero
      by (simp add: decode_rle_dictionary_predicate_bitmap_def indices_Ok_iff [OF assms(1)] page_runs_def page_rle_ok_def Let_def not_less)
  next
    case 4
    have "dict_runs (bitmap_run ?bw (2 ^ ?bw) msk (length out)) ?bw num cur 0 (out @ replicate (div_ceil num 8) 0) = Ok r \<longleftrightarrow>
        (\<exists>rs. stream_runs ?bw num cur 0 = Ok rs \<and> list_all (\<lambda>(run, e, n). rle_index_ok (\<lambda>i. unat i < 2 ^ ?bw) run) rs \<and>
          marks msk out (div_ceil num 8) (stream_vals ?bw rs) r)" for cur
      unfolding dict_runs_Ok_iff
      using fold_bitmap_runs [OF stream_runs_ok _ assms(2) 4(3)] 4(2) by (metis le0 less_imp_le_nat)
    with 4 show ?thesis
      by (cases "stream_runs ?bw num (cursor_new (tl body)) 0")
        (auto simp: decode_rle_dictionary_predicate_bitmap_def indices_Ok_iff [OF assms(1)] page_runs_def page_rle_ok_def Let_def)
  qed
qed

end
