(* ===== verification/DictSpec.thy ===== *)
theory DictSpec
  imports DictGather DictBits
begin

text \<open>
  The dictionary readers as a whole.  A page the encoder of \<open>RleHybrid\<close> wrote is read back by each of
  them (the locale \<open>run_reader\<close> is interpreted on \<open>dict_reads\<close>, the runs \<open>read_run\<close> finds); on any page
  the fused reader is lookup after decoding; a predicate bitmap followed by a gather is the filter of
  the decoded values.
\<close>

section \<open>Pages the encoder wrote\<close>

definition reads_one :: "nat \<Rightarrow> bytes \<Rightarrow> dict_run \<Rightarrow> bool" where
  "reads_one bw bs run \<longleftrightarrow> (\<forall>cur post. rest cur = bs @ post \<longrightarrow> read_run bw cur = Ok (run, adv cur (length bs)))"

fun reads_list :: "nat \<Rightarrow> bytes \<Rightarrow> dict_run list \<Rightarrow> bool" where
  "reads_list bw bs [] \<longleftrightarrow> bs = []"
| "reads_list bw bs (run # runs) \<longleftrightarrow> (\<exists>b1 b2. bs = b1 @ b2 \<and> reads_one bw b1 run \<and> reads_list bw b2 runs)"

fun repeats :: "dict_run \<Rightarrow> bool" where
  "repeats (Packed_Run chunk nvals) \<longleftrightarrow> True"
| "repeats (Rle_Run idx count) \<longleftrightarrow> 0 < count"

definition dict_reads :: "nat \<Rightarrow> bytes \<Rightarrow> u32 list \<Rightarrow> bool" where
  "dict_reads bw bs xs \<longleftrightarrow> (\<exists>runs. reads_list bw bs runs \<and> list_all repeats runs \<and>
     xs = concat (map (\<lambda>run. run_vals bw run (run_count run)) runs))"

lemma reads_list_append: "reads_list bw bs rs \<Longrightarrow> reads_list bw cs ss \<Longrightarrow> reads_list bw (bs @ cs) (rs @ ss)"
proof (induction rs arbitrary: bs)
  case (Cons r rs)
  then show ?case by (metis (no_types, opaque_lifting) append.assoc append_Cons reads_list.simps(2))
qed simp

lemma dict_reads_one: "reads_one bw bs run \<Longrightarrow> repeats run \<Longrightarrow> dict_reads bw bs (run_vals bw run (run_count run))"
  unfolding dict_reads_def by (intro exI [of _ "[run]"]) simp

lemma reads_one_packed:
  assumes "0 < bw" "g * 8 * bw < 2 ^ 64" "length body = g * bw"
  shows "reads_one bw (rle_write_uvarint [] (packed_header g) @ body) (Packed_Run body (8 * g))"
  unfolding reads_one_def
proof (intro allI impI)
  fix cur post assume rest: "rest cur = (rle_write_uvarint [] (packed_header g) @ body) @ post"
  have "g \<le> g * bw" using assms(1) by simp
  moreover have "g * bw < 2 ^ 61" using assms(2) by (simp add: mult.commute mult.left_commute)
  ultimately have "g < 2 ^ 61" by (rule le_less_trans)
  then have g: "g < 2 ^ 63" "g * 8 < 2 ^ 64" by simp_all
  have bytes: "div_ceil (g * 8 * bw) 8 = length body"
    by (simp add: div_ceil_def assms(3) algebra_simps)
  let ?hb = "write_uvarint [] (packed_header g)"
  have rest': "rest cur = ?hb @ body @ post" using rest by (simp add: rle_write_uvarint_eq)
  note hdr = wire_reads [OF reads_uvarint rest'] and body = wire_reads [OF reads_take rest_adv [OF rest']]
  show "read_run bw cur = Ok (Packed_Run body (8 * g), adv cur (length (rle_write_uvarint [] (packed_header g) @ body)))"
    using g(2) assms(2)
    by (simp add: read_run_def hdr header_bits [OF g(1)] mul_usize_def bytes body Let_def rle_write_uvarint_eq mult.commute [of 8 g]
        del: One_nat_def)
qed

lemma rle_value_field:
  assumes "bw \<le> 32" "unat v < 2 ^ bw"
  shows "(acc_bytes (rle_value_bytes (div_ceil bw 8) v) 0 (div_ceil bw 8) :: u32 codec_result) = Ok v"
proof -
  let ?k = "div_ceil bw 8" let ?b = "rle_value_bytes ?k v"
  have k: "?k \<le> 4" "bw \<le> 8 * ?k" using assms(1) unfolding div_ceil_def by linarith+
  have len: "length ?b = ?k" by (simp add: rle_value_bytes_def)
  have "field ?b 0 (8 * ?k) = v"
  proof (rule field_narrow)
    show "8 * ?k \<le> 32" using k by simp
    show "unat v < 2 ^ (8 * ?k)"
      using assms(2) k(2) by (meson less_le_trans one_le_numeral power_increasing)
    show "field ?b 0 (8 * ?k) = (take_bit (8 * ?k) (ucast v) :: u64)"
      using k by (intro bit_rle_value_bytes) simp
  qed
  then show ?thesis using acc_bytes_Ok [of 0 ?k ?b, where 'w = 32 and 'e = codec_error] k len by simp
qed

lemma reads_one_rle:
  assumes "0 < bw" "bw \<le> 32" "n < 2 ^ 63" "unat v < 2 ^ bw"
  shows "reads_one bw (rle_write_uvarint [] (rle_header n) @ rle_value_bytes (div_ceil bw 8) v) (Rle_Run v n)"
  unfolding reads_one_def
proof (intro allI impI)
  let ?b = "rle_value_bytes (div_ceil bw 8) v"
  fix cur post assume rest: "rest cur = (rle_write_uvarint [] (rle_header n) @ ?b) @ post"
  let ?hb = "write_uvarint [] (rle_header n)"
  have len: "length ?b = div_ceil bw 8" by (simp add: rle_value_bytes_def)
  have rest': "rest cur = ?hb @ ?b @ post" using rest by (simp add: rle_write_uvarint_eq)
  note hdr = wire_reads [OF reads_uvarint rest'] and body = wire_reads [OF reads_take rest_adv [OF rest'], unfolded len]
  show "read_run bw cur = Ok (Rle_Run v n, adv cur (length (rle_write_uvarint [] (rle_header n) @ ?b)))"
    by (simp add: read_run_def hdr header_bits [OF assms(3)] body Let_def rle_write_uvarint_eq len
        rle_value_field [OF assms(2,4)] del: One_nat_def)
qed

interpretation dict: run_reader dict_reads
proof
  show "dict_reads bw [] []" for bw
    unfolding dict_reads_def by (intro exI [of _ "[]"]) simp
  show "dict_reads bw (r @ s) (xs @ ys)" if "dict_reads bw r xs" "dict_reads bw s ys" for bw r s xs ys
  proof -
    from that obtain rs ss where "reads_list bw r rs" "list_all repeats rs" "xs = concat (map (\<lambda>run. run_vals bw run (run_count run)) rs)"
      and "reads_list bw s ss" "list_all repeats ss" "ys = concat (map (\<lambda>run. run_vals bw run (run_count run)) ss)"
      unfolding dict_reads_def by blast
    then show ?thesis
      unfolding dict_reads_def by (intro exI [of _ "rs @ ss"]) (simp add: reads_list_append)
  qed
  show "dict_reads bw (rle_write_uvarint [] (packed_header g) @ body) (map (\<lambda>i. field body (i * bw) bw) [0..<8 * g])"
    if "0 < bw" "bw \<le> 32" "g * 8 * bw < 2 ^ 64" "length body = g * bw" for bw g body
    using dict_reads_one [OF reads_one_packed [OF that(1,3,4)]] by simp
  show "dict_reads bw (rle_write_uvarint [] (rle_header n) @ rle_value_bytes (div_ceil bw 8) v) (replicate n v)"
    if "0 < bw" "bw \<le> 32" "0 < n" "n < 2 ^ 63" "unat v < 2 ^ bw" for bw n v
    using dict_reads_one [OF reads_one_rle [OF that(1,2,4,5)]] that(3) by simp
qed

lemma run_vals_take: "run_vals bw run (min k (run_count run)) = take k (run_vals bw run (run_count run))"
  by (cases run) (simp_all add: take_map min_def)

lemma stream_runs_reads:
  assumes "reads_list bw bs runs" and "list_all repeats runs" and "rest cur = bs @ post"
    and "num - e \<le> length (concat (map (\<lambda>run. run_vals bw run (run_count run)) runs))"
  shows "\<exists>rs. stream_runs bw num cur e = Ok rs \<and>
    stream_vals bw rs = take (num - e) (concat (map (\<lambda>run. run_vals bw run (run_count run)) runs)) \<and>
    list_all (\<lambda>(run, e, n). rle_index_ok (\<lambda>i. i \<in> set (stream_vals bw rs)) run) rs"
  using assms
proof (induction runs arbitrary: bs cur e)
  case Nil
  then show ?case by (subst stream_runs.simps) simp
next
  case (Cons run runs)
  show ?case
  proof (cases "e < num")
    case False
    then show ?thesis by (subst stream_runs.simps) simp
  next
    case True
    let ?vs = "concat (map (\<lambda>run. run_vals bw run (run_count run)) runs)"
    let ?n = "min (num - e) (run_count run)"
    from Cons.prems(1) obtain b1 b2 where b: "bs = b1 @ b2" "reads_one bw b1 run" "reads_list bw b2 runs" by auto
    with Cons.prems(3) have read: "read_run bw cur = Ok (run, adv cur (length b1))" and
      rest: "rest (adv cur (length b1)) = b2 @ post"
      unfolding reads_one_def by (auto intro: rest_adv)
    have "num - (e + ?n) \<le> length ?vs" using Cons.prems(4) by auto
    moreover have "list_all repeats runs" using Cons.prems(2) by simp
    ultimately obtain rs where
      rs: "stream_runs bw num (adv cur (length b1)) (e + ?n) = Ok rs"
      "stream_vals bw rs = take (num - (e + ?n)) ?vs"
      "list_all (\<lambda>(run, e, n). rle_index_ok (\<lambda>i. i \<in> set (stream_vals bw rs)) run) rs"
      using Cons.IH [OF b(3) _ rest] by blast
    let ?rs = "(run, e, ?n) # rs"
    have 1: "stream_runs bw num cur e = Ok ?rs"
      using True read rs(1) by (subst stream_runs.simps) (simp add: Let_def)
    have "num - (e + ?n) = num - e - run_count run" by (simp add: min_def)
    then have 2: "stream_vals bw ?rs = take (num - e) (concat (map (\<lambda>run. run_vals bw run (run_count run)) (run # runs)))"
      by (simp only: stream_vals_simps run_vals_take rs(2) take_append length_run_vals list.map concat.simps)
    have 3: "rle_index_ok (\<lambda>i. i \<in> set (stream_vals bw ?rs)) run"
      using Cons.prems(2) True by (cases run) auto
    have 4: "list_all (\<lambda>(run, e, n). rle_index_ok (\<lambda>i. i \<in> set (stream_vals bw ?rs)) run) rs"
      using rs(3) by (auto simp: list_all_iff rle_index_ok_def split: dict_run.splits)
    show ?thesis
      by (intro exI [of _ ?rs] conjI 1 2) (simp only: list.pred_inject case_prod_conv 3 4 simp_thms)
  qed
qed

lemma page_of_encoded:
  assumes "bw \<le> 32" and "fit_width bw xs" and "length xs < 2 ^ 56"
  shows "\<exists>bs rs. (encode_rle_bit_packed xs bw :: bytes codec_result) = Ok bs \<and>
    page_runs (of_nat bw # bs) (length xs) = Ok rs \<and> stream_vals bw rs = xs \<and>
    list_all (\<lambda>(run, e, n). rle_index_ok (\<lambda>i. i \<in> set xs) run) rs"
proof -
  have bw: "unat (of_nat bw :: u8) = bw"
    using assms(1) by (simp add: unsigned_of_nat take_bit_nat_eq_self)
  consider "xs = []" | "xs \<noteq> []" "bw = 0" | "xs \<noteq> []" "0 < bw" by blast
  then show ?thesis
  proof cases
    case 1
    with assms(1) show ?thesis by (simp add: encode_rle_bit_packed_def page_runs_def bw)
  next
    case 2
    then have "xs = replicate (length xs) 0"
      using assms(2) by (intro replicate_eqI) (auto simp: fit_width_def list_all_iff unat_eq_zero)
    moreover have "0 \<in> set xs" using 2 assms(2) by (cases xs) (auto simp: unat_eq_zero)
    ultimately show ?thesis using 2 by (simp add: encode_rle_bit_packed_def page_runs_def)
  next
    case 3
    from dict.encoded_reads [OF 3(2) assms 3(1), where 'e = codec_error] obtain bs zs where
      bs: "(encode_rle_bit_packed xs bw :: bytes codec_result) = Ok bs" "dict_reads bw bs (xs @ zs)" by blast
    then obtain runs where runs: "reads_list bw bs runs" "list_all repeats runs"
      "xs @ zs = concat (map (\<lambda>run. run_vals bw run (run_count run)) runs)"
      unfolding dict_reads_def by blast
    have "rest (cursor_new bs) = bs @ []" by (simp add: rest_def cursor_new_def)
    from stream_runs_reads [OF runs(1,2) this, of "length xs" 0] show ?thesis
      using bs(1) 3 assms(1) by (auto simp: page_runs_def bw runs(3) [symmetric])
  qed
qed

section \<open>Masks\<close>

lemma build_mask_fold:
  "p + length dict \<le> length msk \<Longrightarrow>
    \<exists>msk'. (fold_o (\<lambda>msk (i, v). if pred v then set_o msk i 1 else Ok msk) msk (enumerate p dict) :: bytes codec_result) = Ok msk' \<and>
      length msk' = length msk \<and>
      (\<forall>i < length msk. msk' ! i = (if p \<le> i \<and> i < p + length dict \<and> pred (dict ! (i - p)) then 1 else msk ! i))"
proof (induction dict arbitrary: p msk)
  case (Cons v dict)
  let ?m = "if pred v then msk[p := 1] else msk"
  have "Suc p + length dict \<le> length ?m" using Cons.prems by simp
  from Cons.IH [OF this] obtain m where
    m: "(fold_o (\<lambda>msk (i, v). if pred v then set_o msk i 1 else Ok msk) ?m (enumerate (Suc p) dict) :: bytes codec_result) = Ok m"
    "length m = length ?m"
    "\<forall>i < length ?m. m ! i = (if Suc p \<le> i \<and> i < Suc p + length dict \<and> pred (dict ! (i - Suc p)) then 1 else ?m ! i)" by blast
  have "m ! i = (if p \<le> i \<and> i < p + length (v # dict) \<and> pred ((v # dict) ! (i - p)) then 1 else msk ! i)" if "i < length msk" for i
  proof (cases "i = p")
    case True
    with m(3) that show ?thesis by simp
  next
    case False
    then have "i - p = Suc (i - Suc p)" if "p \<le> i" using that by simp
    with False m(3) that show ?thesis by (auto simp: not_less_eq_eq)
  qed
  with m(1,2) Cons.prems show ?case by (intro exI [of _ m]) (simp split: if_splits)
qed auto

lemma build_mask_Ok:
  assumes "build_dict_predicate_mask dict bw pred = Ok msk"
  shows "1 \<le> bw \<and> bw \<le> 32 \<and> length dict \<le> 2 ^ bw \<and> length msk = 2 ^ bw \<and> mask01 msk \<and>
    (\<forall>i < length dict. msk ! i \<noteq> 0 \<longleftrightarrow> pred (dict ! i))"
proof -
  from assms have bw: "1 \<le> bw" "bw \<le> 32" "length dict \<le> 2 ^ bw"
    and fold: "(fold_o (\<lambda>msk (i, v). if pred v then set_o msk i 1 else Ok msk) (replicate (2 ^ bw) 0) (enumerate 0 dict) :: bytes codec_result) = Ok msk"
    by (auto simp: build_dict_predicate_mask_def Let_def split: if_splits)
  from bw(3) have "0 + length dict \<le> length (replicate (2 ^ bw) (0 :: u8))" by simp
  from build_mask_fold [OF this, of pred] fold have len: "length msk = 2 ^ bw"
    and nth: "\<forall>i < 2 ^ bw. msk ! i = (if i < length dict \<and> pred (dict ! i) then 1 else 0)" by auto
  have "mask01 msk" unfolding mask01_def using len nth by (auto simp: in_set_conv_nth)
  moreover have "\<forall>i < length dict. msk ! i \<noteq> 0 \<longleftrightarrow> pred (dict ! i)" using nth bw(3) by auto
  ultimately show ?thesis using bw len by simp
qed

section \<open>Properties\<close>

lemma dict_gather_iff:
  assumes "num < 2 ^ 64" and "off + num \<le> 8 * length bitmap"
  shows "gather_dict_at_bitmap_into body num bitmap off dict out = Ok r \<longleftrightarrow>
    (\<exists>is. decode_rle_dictionary_indices body num = Ok is \<and> selected_ok dict bitmap off is \<and>
       page_rle_ok body num (\<lambda>i. unat i < length dict) \<and> r = out @ gathered dict bitmap off is)"
proof -
  let ?bw = "unat (hd body)"
  consider "body = [] \<or> ?bw > 32" | "body \<noteq> []" "?bw \<le> 32" "num = 0" | "body \<noteq> []" "?bw \<le> 32" "num \<noteq> 0" "?bw = 0"
    | "body \<noteq> []" "?bw \<le> 32" "num \<noteq> 0" "?bw \<noteq> 0"
    using leI by blast
  then show ?thesis
  proof cases
    case 1
    then show ?thesis
      by (auto simp: gather_dict_at_bitmap_into_def indices_Ok_iff [OF assms(1)] page_runs_def Let_def)
  next
    case 2
    moreover have "decode_rle_dictionary_indices body 0 = Ok []"
      using 2 by (simp add: decode_rle_dictionary_indices_def decode_rle_dictionary_indices_into_def)
    ultimately show ?thesis
      by (auto simp: gather_dict_at_bitmap_into_def page_runs_def page_rle_ok_def Let_def)
  next
    case 3
    have "n \<le> num \<Longrightarrow> fold_o (\<lambda>out row. bind_o (mask_bit bitmap (off + row)) (\<lambda>b. Ok (if b then out @ [dict ! 0] else out))) out [0..<n]
        = (Ok (out @ gathered dict bitmap off (replicate n 0)) :: 'a list codec_result)" for n
    proof (induction n)
      case (Suc n)
      then have "off + n < 8 * length bitmap" using assms(2) by simp
      then have "mask_bit bitmap (off + n) = (Ok (stream_bit bitmap (off + n)) :: bool codec_result)" by (rule mask_bit_Ok)
      moreover have "gathered dict bitmap off (replicate (Suc n) 0)
          = gathered dict bitmap off (replicate n 0) @ (if stream_bit bitmap (off + n) then [dict ! 0] else [])"
        using gathered_simps(3) [of dict bitmap off "replicate n 0" "[0]"] by (simp add: replicate_append_same)
      ultimately show ?case using Suc by (simp add: fold_o_append)
    qed simp
    note rows = this [OF order_refl]
    have "dict \<noteq> [] \<Longrightarrow> selected_ok dict bitmap off (replicate num 0)" by (rule selected_ok_replicate) simp
    then show ?thesis
      using 3 by (auto simp: gather_dict_at_bitmap_into_def indices_Ok_iff [OF assms(1)] page_runs_def page_rle_ok_def rows)
  next
    case 4
    have "dict_runs (gather_run ?bw bitmap off dict) ?bw num cur 0 out = Ok r \<longleftrightarrow>
        (\<exists>rs. stream_runs ?bw num cur 0 = Ok rs \<and> list_all (\<lambda>(run, e, n). rle_index_ok (\<lambda>i. unat i < length dict) run) rs \<and>
          selected_ok dict bitmap off (stream_vals ?bw rs) \<and> r = out @ gathered dict bitmap off (stream_vals ?bw rs))" for cur
      unfolding dict_runs_Ok_iff
      using fold_gather_runs [OF stream_runs_ok 4(2) assms(2)] by (metis le0)
    with 4 show ?thesis
      by (cases "stream_runs ?bw num (cursor_new (tl body)) 0")
        (auto simp: gather_dict_at_bitmap_into_def indices_Ok_iff [OF assms(1)] page_runs_def page_rle_ok_def Let_def)
  qed
qed

lemma indices_u8_iff:
  assumes "num < 2 ^ 64" and "unat (hd body) \<le> 8"
  shows "decode_rle_dictionary_indices_u8 body num = Ok r \<longleftrightarrow>
    (\<exists>is. decode_rle_dictionary_indices body num = Ok is \<and> r = map ucast is)"
proof (cases "decode_rle_dictionary_indices body num")
  case (Ok js)
  with assms(1) obtain rs where rs: "page_runs body num = Ok rs" "js = stream_vals (unat (hd body)) rs"
    by (auto simp: indices_Ok_iff)
  have "list_all (\<lambda>i. unat i < 256) (stream_vals bw rs)" if "runs_ok bw n e rs" "bw \<le> 8" for bw n e
    using that
  proof (induction bw n e rs rule: runs_ok.induct)
    case (2 bw num e run e' n rs)
    have "unat (field chunk off bw :: u32) < 256" for chunk off
      using unat_field_less [of bw chunk off, where 'a = 32] 2(3) power_increasing [of bw 8 "2 :: nat"] by simp
    with 2 show ?case by (cases run) (auto simp: list_all_iff)
  qed simp
  with page_runs_ok [OF rs(1)] assms(2) have "list_all (\<lambda>i. unat i < 256) js" by (simp add: rs(2))
  then have "mapM_o narrow_u8 js = Ok (map ucast js)"
    by (intro mapM_o_all_Ok) (auto simp: narrow_u8_def list_all_iff word_less_nat_alt)
  with Ok show ?thesis
    using assms page_width [OF rs(1)] by (auto simp: decode_rle_dictionary_indices_u8_def Let_def not_less)
qed (use assms in \<open>auto simp: decode_rle_dictionary_indices_u8_def Let_def not_less\<close>)

lemma index_page_decodes:
  assumes "length dict < 2 ^ 32" and "\<forall>i \<in> set xs. unat i < length dict" and "length xs < 2 ^ 56"
  obtains w bs where "(min_bit_width_for_dict (length dict) :: nat codec_result) = Ok w" "w \<le> 32"
    "(encode_rle_bit_packed xs w :: bytes codec_result) = Ok bs"
    "decode_rle_dictionary_indices (of_nat w # bs) (length xs) = Ok xs"
    "page_rle_ok (of_nat w # bs) (length xs) (\<lambda>i. unat i < length dict)"
proof -
  have "\<exists>w. (min_bit_width_for_dict (length dict) :: nat codec_result) = Ok w \<and> length dict \<le> 2 ^ w \<and> w \<le> 32"
    using min_bit_width_for_dict_bounds [of "length dict"] assms(1)
    by (cases "length dict \<le> 1") (auto simp: min_bit_width_for_dict_def)
  then obtain w where w: "(min_bit_width_for_dict (length dict) :: nat codec_result) = Ok w" "length dict \<le> 2 ^ w" "w \<le> 32" by blast
  have "fit_width w xs" using assms(2) w(2) by (auto simp: fit_width_def list_all_iff)
  from page_of_encoded [OF w(3) this assms(3)] obtain bs rs where
    bs: "(encode_rle_bit_packed xs w :: bytes codec_result) = Ok bs" "page_runs (of_nat w # bs) (length xs) = Ok rs"
    "stream_vals w rs = xs" "list_all (\<lambda>(run, e, n). rle_index_ok (\<lambda>i. i \<in> set xs) run) rs" by blast
  have n: "length xs < 2 ^ 64" using assms(3) by simp
  have hd: "unat (hd (of_nat w # bs :: bytes)) = w" using w(3) by (simp add: unsigned_of_nat take_bit_nat_eq_self)
  have "page_rle_ok (of_nat w # bs) (length xs) (\<lambda>i. unat i < length dict)"
    using bs(2,4) assms(2) by (auto simp: page_rle_ok_def rle_index_ok_def list_all_iff split: dict_run.splits)
  moreover have "decode_rle_dictionary_indices (of_nat w # bs) (length xs) = Ok xs"
    unfolding indices_Ok_iff [OF n] hd using bs(2,3) by simp
  ultimately show ?thesis using that w(1,3) bs(1) by blast
qed

text \<open>C38. A dictionary page written by the encoder at the width computed for its dictionary is read back, as
  indices and as values, by the two readers.\<close>

theorem dict_page_roundtrip:
  assumes "length dict < 2 ^ 32" and "\<forall>i \<in> set xs. unat i < length dict" and "length xs < 2 ^ 56"
  shows "\<exists>w bs. (min_bit_width_for_dict (length dict) :: nat codec_result) = Ok w \<and>
    (encode_rle_bit_packed xs w :: bytes codec_result) = Ok bs \<and>
    decode_rle_dictionary_indices (of_nat w # bs) (length xs) = Ok xs \<and>
    decode_rle_dictionary_into (of_nat w # bs) dict (length xs) out = Ok (out @ map (\<lambda>i. dict ! unat i) xs)"
proof -
  from index_page_decodes [OF assms] obtain w bs where
    w: "(min_bit_width_for_dict (length dict) :: nat codec_result) = Ok w" "w \<le> 32"
      "(encode_rle_bit_packed xs w :: bytes codec_result) = Ok bs"
      "decode_rle_dictionary_indices (of_nat w # bs) (length xs) = Ok xs"
      "page_rle_ok (of_nat w # bs) (length xs) (\<lambda>i. unat i < length dict)" .
  have n: "length xs < 2 ^ 64" using assms(3) by simp
  have "decode_rle_dictionary_into (of_nat w # bs) dict (length xs) out = Ok (out @ map (\<lambda>i. dict ! unat i) xs)"
    unfolding dict_values_iff [OF n] using assms(2) w(4,5) by (auto simp: lookup_dict_Ok_iff list_all_iff)
  then show ?thesis using w by blast
qed

lemma dict_page_roundtrip_witness:
  "\<exists>w bs. (min_bit_width_for_dict (length [''a'', ''b'', ''c'']) :: nat codec_result) = Ok w \<and>
    (encode_rle_bit_packed [2, 0, 1, 1] w :: bytes codec_result) = Ok bs \<and>
    decode_rle_dictionary_indices (of_nat w # bs) (length [2, 0, 1, 1 :: u32]) = Ok [2, 0, 1, 1] \<and>
    decode_rle_dictionary_into (of_nat w # bs) [''a'', ''b'', ''c''] (length [2, 0, 1, 1 :: u32]) [''x'']
      = Ok ([''x''] @ map (\<lambda>i. [''a'', ''b'', ''c''] ! unat i) [2, 0, 1, 1 :: u32])"
  by (rule dict_page_roundtrip) simp_all

text \<open>C39. On any page, whoever wrote it: the fused reader succeeds exactly when the indices can be decoded and
  looked up, and the index of every repeated run is in the dictionary, and then gives the looked-up values; the
  reader of 8-bit indices gives the same indices and its debug assertion never fires.\<close>

theorem dict_readers_agree:
  assumes "num < 2 ^ 64"
  shows "(decode_rle_dictionary_into body dict num out = Ok r \<longleftrightarrow>
      (\<exists>is vs. decode_rle_dictionary_indices body num = Ok is \<and> lookup_dict dict is = Ok vs \<and> r = out @ vs \<and>
         page_rle_ok body num (\<lambda>i. unat i < length dict))) \<and>
    (unat (hd body) \<le> 8 \<longrightarrow> (decode_rle_dictionary_indices_u8 body num = Ok rs \<longleftrightarrow>
      (\<exists>is. decode_rle_dictionary_indices body num = Ok is \<and> rs = map ucast is)))"
  using dict_values_iff [OF assms] indices_u8_iff [OF assms] by blast

lemma dict_readers_agree_witness:
  "(decode_rle_dictionary_into [2, 3, 0xE4, 0] [''a'', ''b'', ''c'', ''d''] 4 [] = Ok [''a'', ''b'', ''c'', ''d''] \<longleftrightarrow>
      (\<exists>is vs. decode_rle_dictionary_indices [2, 3, 0xE4, 0] 4 = Ok is \<and> lookup_dict [''a'', ''b'', ''c'', ''d''] is = Ok vs \<and> [''a'', ''b'', ''c'', ''d''] = [] @ vs \<and>
         page_rle_ok [2, 3, 0xE4, 0] 4 (\<lambda>i. unat i < length [''a'', ''b'', ''c'', ''d'']))) \<and>
    (decode_rle_dictionary_indices_u8 [2, 3, 0xE4, 0] 4 = Ok [0, 1, 2, 3] \<longleftrightarrow>
      (\<exists>is. decode_rle_dictionary_indices [2, 3, 0xE4, 0] 4 = Ok is \<and> [0, 1, 2, 3 :: u8] = map ucast is))"
  by (intro conjI conjunct1 [OF dict_readers_agree] conjunct2 [OF dict_readers_agree, rule_format]) simp_all

lemma gathered_filter:
  assumes "\<forall>k < length is. stream_bit bm (p + k) \<longleftrightarrow> P (dict ! unat (is ! k))"
  shows "gathered dict bm p is = filter P (map (\<lambda>i. dict ! unat i) is)"
  using assms
proof (induction "is" arbitrary: p)
  case (Cons i "is")
  have "stream_bit bm p \<longleftrightarrow> P (dict ! unat i)" using Cons.prems by (metis add.right_neutral length_greater_0_conv list.distinct(1) nth_Cons_0)
  moreover have "\<forall>k < length is. stream_bit bm (Suc p + k) \<longleftrightarrow> P (dict ! unat (is ! k))"
    using Cons.prems by fastforce
  ultimately show ?case using Cons.IH by simp
qed simp

text \<open>C40. Predicate pushdown is sound and complete: the bitmap of a page under the mask of a predicate, then the
  gather of the bitmap's rows, is the filter of the decoded values, for runs and bitmaps of every alignment.\<close>

theorem dict_predicate_then_gather:
  assumes "num < 2 ^ 64" and "decode_rle_dictionary_into body dict num [] = Ok vs"
    and "build_dict_predicate_mask dict (unat (hd body)) P = Ok msk" and "unat (hd body) < 32"
  shows "\<exists>bm. decode_rle_dictionary_predicate_bitmap body num msk [] = Ok bm \<and> length bm = div_ceil num 8 \<and>
    gather_dict_at_bitmap_into body num bm 0 dict [] = Ok (filter P vs)"
proof -
  let ?bw = "unat (hd body)"
  from assms(2) obtain "is" where "is": "decode_rle_dictionary_indices body num = Ok is" "list_all (\<lambda>i. unat i < length dict) is"
    "vs = map (\<lambda>i. dict ! unat i) is" "page_rle_ok body num (\<lambda>i. unat i < length dict)"
    by (auto simp: dict_values_iff [OF assms(1)] lookup_dict_Ok_iff)
  from "is"(1) obtain rs where rs: "page_runs body num = Ok rs" "is = stream_vals ?bw rs"
    by (auto simp: indices_Ok_iff [OF assms(1)])
  have len: "length is = num" using length_stream_vals [OF page_runs_ok [OF rs(1)]] rs(2) by simp
  note m = build_mask_Ok [OF assms(3)]
  have rle: "page_rle_ok body num (\<lambda>i. unat i < 2 ^ ?bw)"
    using "is"(4) rs(1) m by (auto simp: page_rle_ok_def rle_index_ok_def list_all_iff split: dict_run.splits)
  have "\<exists>bm. marks msk [] (div_ceil num 8) is bm"
  proof -
    let ?bm = "map (\<lambda>q. horner_sum of_bool 2 (map (\<lambda>k. 8 * q + k < num \<and> msk ! unat (is ! (8 * q + k)) \<noteq> 0) [0..<8]) :: u8) [0..<div_ceil num 8]"
    have "j < num \<Longrightarrow> j div 8 < div_ceil num 8" for j unfolding div_ceil_def by linarith
    then have "marks msk [] (div_ceil num 8) is ?bm"
      by (auto simp: marks_def stream_bit_def [of ?bm] stream_bit_def [of "[]"] bit_horner_sum_bit_iff len)
    then show ?thesis by blast
  qed
  then obtain bm where bm: "marks msk [] (div_ceil num 8) is bm" by blast
  have dec: "decode_rle_dictionary_predicate_bitmap body num msk [] = Ok bm"
    using "is"(1) assms(4) m rle bm by (auto simp: dict_bitmap_iff [OF assms(1)])
  have num: "0 + num \<le> 8 * length bm" using bm unfolding marks_def div_ceil_def by simp
  have bits: "stream_bit bm (0 + k) \<longleftrightarrow> P (dict ! unat (is ! k))" if "k < length is" for k
  proof -
    have "unat (is ! k) < length dict" using "is"(2) that by (auto simp: list_all_length)
    with m bm that show ?thesis by (auto simp: marks_def stream_bit_def [of "[]"])
  qed
  have "selected_ok dict bm 0 is"
    using "is"(2) by (auto simp: selected_ok_def list_all_iff in_set_enumerate_eq)
  moreover have "gathered dict bm 0 is = filter P vs"
    using gathered_filter bits unfolding "is"(3) by blast
  ultimately show ?thesis
    using dec bm "is"(1,4) dict_gather_iff [OF assms(1) num, of body dict "[]"] by (auto simp: marks_def)
qed

lemma dict_predicate_then_gather_witness:
  "\<exists>bm. decode_rle_dictionary_predicate_bitmap [2, 4, 1, 4, 3] 4 [0, 1, 1, 0] [] = Ok bm \<and> length bm = div_ceil 4 8 \<and>
    gather_dict_at_bitmap_into [2, 4, 1, 4, 3] 4 bm 0 [3, 5, 7, 9 :: nat] [] = Ok (filter (\<lambda>v. 3 < v \<and> v < 9) [5, 5, 9, 9])"
proof (rule dict_predicate_then_gather)
  show "decode_rle_dictionary_into [2, 4, 1, 4, 3] [3, 5, 7, 9 :: nat] 4 [] = Ok [5, 5, 9, 9]" by code_simp
  have "unat (hd [2 :: u8, 4, 1, 4, 3]) = 2" by simp
  moreover have "build_dict_predicate_mask [3, 5, 7, 9 :: nat] 2 (\<lambda>v. 3 < v \<and> v < 9) = Ok [0, 1, 1, 0]" by code_simp
  ultimately show "build_dict_predicate_mask [3, 5, 7, 9 :: nat] (unat (hd [2 :: u8, 4, 1, 4, 3])) (\<lambda>v. 3 < v \<and> v < 9) = Ok [0, 1, 1, 0]"
    by simp
qed simp_all

end
