(* ===== verification/Compression.thy ===== *)
theory Compression
  imports ErrorText LeBytes MetadataTypes
begin

text \<open>
  \<open>ematix-parquet-codec/src/compression.rs\<close> and the two codec dispatchers, \<open>compress_body\<close> of
  \<open>write.rs\<close> and \<open>decompress_into\<close> of \<open>read.rs\<close>.  The compression libraries (\<open>snap\<close>, \<open>zstd\<close>, \<open>flate2\<close>,
  \<open>brotli\<close>, \<open>lz4_flex\<close>) are outside the repository: the record \<open>codecs\<close> has one field per library call,
  and \<open>codecs_sound\<close> states what their documentation promises of them, that decoding undoes encoding
  and that a reader with a limit stops there.  A library error is the text it displays.
\<close>

section \<open>The libraries\<close>

text \<open>\<open>*_stream c limit\<close> is \<open>read_to_end\<close> of a decoder over \<open>c\<close>, behind \<open>take(n)\<close> for \<open>Some n\<close>; \<open>*_into c n\<close>
  decodes into a buffer of \<open>n\<close> bytes and gives the bytes it wrote.\<close>

record codecs =
  snap_vec :: "bytes \<Rightarrow> (string, bytes) outcome"
  snap_len :: "bytes \<Rightarrow> (string, nat) outcome"
  snap_into :: "bytes \<Rightarrow> nat \<Rightarrow> (string, bytes) outcome"
  snap_encode :: "bytes \<Rightarrow> (string, bytes) outcome"
  zstd_init :: "bytes \<Rightarrow> string option"
  zstd_stream :: "bytes \<Rightarrow> nat option \<Rightarrow> (string, bytes) outcome"
  zstd_default_level :: i32
  zstd_encode :: "bytes \<Rightarrow> i32 \<Rightarrow> (string, bytes) outcome"
  gzip_stream :: "bytes \<Rightarrow> nat option \<Rightarrow> (string, bytes) outcome"
  gzip_write :: "bytes \<Rightarrow> string option"
  gzip_finish :: "bytes \<Rightarrow> (string, bytes) outcome"
  brotli_stream :: "bytes \<Rightarrow> nat option \<Rightarrow> (string, bytes) outcome"
  brotli_encode :: "bytes \<Rightarrow> (string, bytes) outcome"
  lz4_into :: "bytes \<Rightarrow> nat \<Rightarrow> (string, bytes) outcome"
  lz4_encode :: "bytes \<Rightarrow> bytes"

definition decompress_err :: "string \<Rightarrow> (string, 'a) outcome \<Rightarrow> 'a codec_result" where
  "decompress_err prefix m = map_err (\<lambda>e. Decompress (prefix @ e)) m"

definition fail_if :: "string \<Rightarrow> string option \<Rightarrow> unit codec_result" where
  "fail_if prefix e = (case e of None \<Rightarrow> Ok () | Some e \<Rightarrow> Err (Decompress (prefix @ e)))"

section \<open>Decompression\<close>

definition cap_with_slack :: "nat \<Rightarrow> nat" where
  "cap_with_slack declared = min (declared + 64) (2 ^ 64 - 1)"

definition check_cap :: "nat \<Rightarrow> nat \<Rightarrow> string \<Rightarrow> unit codec_result" where
  "check_cap actual cap nm =
     (if actual > cap
      then Err (Decompress (nm @ '': decompressed '' @ decimal actual @ '' bytes exceeds cap '' @ decimal cap))
      else Ok ())"

definition decompress_snappy :: "codecs \<Rightarrow> bytes \<Rightarrow> bytes codec_result" where
  "decompress_snappy ext compressed = decompress_err ''snappy: '' (snap_vec ext compressed)"

definition decompress_snappy_into :: "codecs \<Rightarrow> bytes \<Rightarrow> bytes codec_result" where
  "decompress_snappy_into ext compressed =
     bind_o (decompress_err ''snappy len: '' (snap_len ext compressed)) (\<lambda>dec_len.
     bind_o (decompress_err ''snappy: '' (snap_into ext compressed dec_len)) (\<lambda>out.
     if length out \<noteq> dec_len then Panic ''assertion `left == right` failed'' else Ok out))"

text \<open>The capped readers ask for one byte more than the cap, so that an oversized stream is an error and
  not a truncation.\<close>

definition saturating_succ :: "nat \<Rightarrow> nat" where
  "saturating_succ n = min (n + 1) (2 ^ 64 - 1)"

definition decompress_zstd_into :: "codecs \<Rightarrow> bytes \<Rightarrow> bytes codec_result" where
  "decompress_zstd_into ext compressed =
     bind_o (fail_if ''zstd init: '' (zstd_init ext compressed)) (\<lambda>_.
     decompress_err ''zstd: '' (zstd_stream ext compressed None))"

definition decompress_zstd :: "codecs \<Rightarrow> bytes \<Rightarrow> bytes codec_result" where
  "decompress_zstd = decompress_zstd_into"

definition decompress_zstd_into_capped :: "codecs \<Rightarrow> bytes \<Rightarrow> nat \<Rightarrow> bytes codec_result" where
  "decompress_zstd_into_capped ext compressed uncompressed_size =
     (let cap = cap_with_slack uncompressed_size
      in bind_o (fail_if ''zstd init: '' (zstd_init ext compressed)) (\<lambda>_.
         bind_o (decompress_err ''zstd: '' (zstd_stream ext compressed (Some (saturating_succ cap)))) (\<lambda>out.
         bind_o (check_cap (length out) cap ''zstd'') (\<lambda>_. Ok out))))"

definition decompress_gzip_into :: "codecs \<Rightarrow> bytes \<Rightarrow> bytes codec_result" where
  "decompress_gzip_into ext compressed = decompress_err ''gzip: '' (gzip_stream ext compressed None)"

definition decompress_gzip :: "codecs \<Rightarrow> bytes \<Rightarrow> bytes codec_result" where
  "decompress_gzip = decompress_gzip_into"

definition decompress_gzip_into_capped :: "codecs \<Rightarrow> bytes \<Rightarrow> nat \<Rightarrow> bytes codec_result" where
  "decompress_gzip_into_capped ext compressed uncompressed_size =
     (let cap = cap_with_slack uncompressed_size
      in bind_o (decompress_err ''gzip: '' (gzip_stream ext compressed (Some (saturating_succ cap)))) (\<lambda>out.
         bind_o (check_cap (length out) cap ''gzip'') (\<lambda>_. Ok out)))"

definition decompress_brotli_into :: "codecs \<Rightarrow> bytes \<Rightarrow> bytes codec_result" where
  "decompress_brotli_into ext compressed = decompress_err ''brotli: '' (brotli_stream ext compressed None)"

definition decompress_brotli :: "codecs \<Rightarrow> bytes \<Rightarrow> bytes codec_result" where
  "decompress_brotli = decompress_brotli_into"

definition decompress_brotli_into_capped :: "codecs \<Rightarrow> bytes \<Rightarrow> nat \<Rightarrow> bytes codec_result" where
  "decompress_brotli_into_capped ext compressed uncompressed_size =
     (let cap = cap_with_slack uncompressed_size
      in bind_o (decompress_err ''brotli: '' (brotli_stream ext compressed (Some (saturating_succ cap)))) (\<lambda>out.
         bind_o (check_cap (length out) cap ''brotli'') (\<lambda>_. Ok out)))"

text \<open>\<open>while i < n \{ let b = buf[i]; i += 1; len += b; if b != 0xFF \{ break \} \}\<close>.\<close>

fun lz4_chain :: "bytes \<Rightarrow> nat \<Rightarrow> nat \<times> bytes" where
  "lz4_chain [] len = (len, [])"
| "lz4_chain (b # bs) len = (if b \<noteq> 0xFF then (len + unat b, bs) else lz4_chain bs (len + unat b))"

definition lz4_len :: "nat \<Rightarrow> nat \<Rightarrow> bytes \<Rightarrow> nat \<times> bytes" where
  "lz4_len nibble len bs = (if nibble = 15 then lz4_chain bs len else (len, bs))"

lemma lz4_chain_shorter: "length (snd (lz4_chain bs len)) \<le> length bs"
  by (induction bs len rule: lz4_chain.induct) auto

lemma lz4_len_shorter: "(len', bs') = lz4_len nibble len bs \<Longrightarrow> length bs' \<le> length bs"
  using lz4_chain_shorter [of bs len] by (auto simp: lz4_len_def split: if_splits) (metis snd_conv)

text \<open>The buffer from \<open>i\<close> on is the argument that shrinks; \<open>i + k > n\<close> asks for more than its length.\<close>

function lz4_size :: "bytes \<Rightarrow> nat \<Rightarrow> nat codec_result" where
  "lz4_size [] out_len = Ok out_len"
| "lz4_size (t # bs) out_len =
     (let token = unat t; (lit_len, bs) = lz4_len (token div 16) (token div 16) bs
      in if lit_len > length bs then Err (Decompress ''lz4_raw: literal runs past end of buffer'')
      else let bs = drop lit_len bs; out_len = out_len + lit_len
      in if bs = [] then Ok out_len
      else if length bs < 2 then Err (Decompress ''lz4_raw: truncated match offset'')
      else let (match_len, bs) = lz4_len (token mod 16) (token mod 16 + 4) (drop 2 bs)
      in lz4_size bs (out_len + match_len))"
  by pat_completeness auto
termination
proof (relation "measure (\<lambda>(bs, out_len). length bs)", goal_cases)
  case (2 t bs out_len token p lit_len bs1 bs2 out_len' q match_len bs3)
  from 2 show ?case by (auto dest!: lz4_len_shorter)
qed simp

definition lz4_raw_uncompressed_size :: "bytes \<Rightarrow> nat codec_result" where
  "lz4_raw_uncompressed_size b = lz4_size b 0"

definition decompress_lz4_raw_into :: "codecs \<Rightarrow> bytes \<Rightarrow> bytes codec_result" where
  "decompress_lz4_raw_into ext compressed =
     bind_o (lz4_raw_uncompressed_size compressed) (\<lambda>uncompressed_size.
     decompress_err ''lz4_raw: '' (lz4_into ext compressed uncompressed_size))"

definition decompress_lz4_raw :: "codecs \<Rightarrow> bytes \<Rightarrow> bytes codec_result" where
  "decompress_lz4_raw = decompress_lz4_raw_into"

definition decompress_lz4_raw_into_sized :: "codecs \<Rightarrow> bytes \<Rightarrow> nat \<Rightarrow> bytes codec_result" where
  "decompress_lz4_raw_into_sized ext compressed uncompressed_size =
     bind_o (decompress_err ''lz4_raw: '' (lz4_into ext compressed uncompressed_size)) (\<lambda>out.
     if length out \<noteq> uncompressed_size
     then Err (Decompress (''lz4_raw: decoded '' @ decimal (length out) @ '' bytes, page header declared '' @ decimal uncompressed_size))
     else Ok out)"

section \<open>Compression\<close>

definition compress_snappy :: "codecs \<Rightarrow> bytes \<Rightarrow> bytes codec_result" where
  "compress_snappy ext b = decompress_err ''snappy encode: '' (snap_encode ext b)"

definition compress_zstd_at_level :: "codecs \<Rightarrow> bytes \<Rightarrow> i32 \<Rightarrow> bytes codec_result" where
  "compress_zstd_at_level ext b level = decompress_err ''zstd encode: '' (zstd_encode ext b level)"

definition compress_zstd :: "codecs \<Rightarrow> bytes \<Rightarrow> bytes codec_result" where
  "compress_zstd ext b = compress_zstd_at_level ext b (zstd_default_level ext)"

definition compress_gzip :: "codecs \<Rightarrow> bytes \<Rightarrow> bytes codec_result" where
  "compress_gzip ext b =
     bind_o (fail_if ''gzip encode: '' (gzip_write ext b)) (\<lambda>_.
     decompress_err ''gzip finish: '' (gzip_finish ext b))"

definition compress_brotli :: "codecs \<Rightarrow> bytes \<Rightarrow> bytes codec_result" where
  "compress_brotli ext b = decompress_err ''brotli encode: '' (brotli_encode ext b)"

definition compress_lz4_raw :: "codecs \<Rightarrow> bytes \<Rightarrow> bytes codec_result" where
  "compress_lz4_raw ext b = Ok (lz4_encode ext b)"

section \<open>The dispatchers\<close>

fun codec_name :: "compression_codec \<Rightarrow> string" where
  "codec_name CC_Uncompressed = ''Uncompressed''"
| "codec_name CC_Snappy = ''Snappy''"
| "codec_name CC_Gzip = ''Gzip''"
| "codec_name CC_Lzo = ''Lzo''"
| "codec_name CC_Brotli = ''Brotli''"
| "codec_name CC_Lz4 = ''Lz4''"
| "codec_name CC_Zstd = ''Zstd''"
| "codec_name CC_Lz4Raw = ''Lz4Raw''"

definition compress_body :: "codecs \<Rightarrow> bytes \<Rightarrow> compression_codec \<Rightarrow> bytes codec_result" where
  "compress_body ext body cdc =
     (case cdc of
        CC_Uncompressed \<Rightarrow> Ok body
      | CC_Snappy \<Rightarrow> compress_snappy ext body
      | CC_Zstd \<Rightarrow> compress_zstd ext body
      | CC_Gzip \<Rightarrow> compress_gzip ext body
      | CC_Brotli \<Rightarrow> compress_brotli ext body
      | CC_Lz4Raw \<Rightarrow> compress_lz4_raw ext body
      | other \<Rightarrow> Err (Unsupported (''compression codec not yet supported on the write path: '' @ codec_name other)))"

definition decompress_into :: "codecs \<Rightarrow> compression_codec \<Rightarrow> bytes \<Rightarrow> nat \<Rightarrow> bytes codec_result" where
  "decompress_into ext cdc body uncompressed_size =
     (case cdc of
        CC_Uncompressed \<Rightarrow> Ok body
      | CC_Snappy \<Rightarrow> decompress_snappy_into ext body
      | CC_Zstd \<Rightarrow> decompress_zstd_into_capped ext body uncompressed_size
      | CC_Gzip \<Rightarrow> decompress_gzip_into_capped ext body uncompressed_size
      | CC_Brotli \<Rightarrow> decompress_brotli_into_capped ext body uncompressed_size
      | CC_Lz4Raw \<Rightarrow> decompress_lz4_raw_into_sized ext body uncompressed_size
      | other \<Rightarrow> Err (Unsupported (''compression codec not yet wired in fa'' @ [CHR 0xC3, CHR 0xA7] @ ''ade: '' @ codec_name other)))"

end
