(* ===== verification/CompressionSpec.thy ===== *)
theory CompressionSpec
  imports Compression
begin

text \<open>
  What the compression module owes its callers: the dispatcher that reads a page body undoes the one that
  wrote it, for every codec the writer supports, provided the libraries keep their documented promises
  (\<open>codecs_sound\<close>); and the size that is computed from the tokens of an LZ4 block is the size of what it
  decodes to, for every block the format can express.
\<close>

section \<open>LZ4 blocks\<close>

text \<open>The block format: a sequence is a run of literals and a match, an offset and a length of at least
  four; the last sequence is literals only.  Lengths of 15 and more go on in extra bytes.\<close>

fun lz4_extra :: "nat \<Rightarrow> bytes" where
  "lz4_extra n = (if n < 255 then [of_nat n] else 0xFF # lz4_extra (n - 255))"

declare lz4_extra.simps [simp del]

definition lz4_tail :: "nat \<Rightarrow> bytes" where
  "lz4_tail n = (if n < 15 then [] else lz4_extra (n - 15))"

definition lz4_token :: "nat \<Rightarrow> nat \<Rightarrow> u8" where
  "lz4_token lits mlen = of_nat (min lits 15 * 16 + min mlen 15)"

type_synonym lz4_seq = "bytes \<times> u8 \<times> u8 \<times> nat"

fun lz4_seq_bytes :: "lz4_seq \<Rightarrow> bytes" where
  "lz4_seq_bytes (lits, lo, hi, mlen) =
     lz4_token (length lits) (mlen - 4) # lz4_tail (length lits) @ lits @ [lo, hi] @ lz4_tail (mlen - 4)"

definition lz4_block :: "lz4_seq list \<Rightarrow> bytes \<Rightarrow> bytes" where
  "lz4_block sqs lits = concat (map lz4_seq_bytes sqs) @ lz4_token (length lits) 0 # lz4_tail (length lits) @ lits"

definition lz4_block_size :: "lz4_seq list \<Rightarrow> bytes \<Rightarrow> nat" where
  "lz4_block_size sqs lits = (\<Sum>(ls, _, _, mlen)\<leftarrow>sqs. length ls + mlen) + length lits"

lemma unat_u8: "n < 256 \<Longrightarrow> unat (of_nat n :: u8) = n" for n
  by (simp add: unsigned_of_nat take_bit_nat_eq_self)

lemma lz4_chain_extra: "lz4_chain (lz4_extra n @ bs) len = (len + n, bs)"
proof (induction n arbitrary: len rule: lz4_extra.induct)
  case (1 n)
  show ?case
  proof (cases "n < 255")
    case True
    then have u: "unat (of_nat n :: u8) = n" by (intro unat_u8) simp
    then have "(of_nat n :: u8) \<noteq> 0xFF" using True by (auto dest: arg_cong [of _ _ unat])
    then show ?thesis using True u by (simp add: lz4_extra.simps [of n] del: unat_of_nat)
  next
    case False
    then show ?thesis using 1 by (simp add: lz4_extra.simps [of n])
  qed
qed

lemma lz4_len_tail: "lz4_len (min n 15) (min n 15 + c) (lz4_tail n @ bs) = (n + c, bs)"
  by (cases "n < 15") (simp_all add: lz4_len_def lz4_tail_def lz4_chain_extra)

lemma lz4_token_nibbles:
  "unat (lz4_token a b) div 16 = min a 15" "unat (lz4_token a b) mod 16 = min b 15"
proof -
  have "unat (lz4_token a b) = min a 15 * 16 + min b 15"
    unfolding lz4_token_def by (rule unat_u8) (simp add: min_def)
  then show "unat (lz4_token a b) div 16 = min a 15" "unat (lz4_token a b) mod 16 = min b 15" by auto
qed

lemma lz4_size_seq:
  assumes "4 \<le> mlen"
  shows "lz4_size (lz4_seq_bytes (lits, lo, hi, mlen) @ bs) n = lz4_size bs (n + length lits + mlen)"
proof -
  have "lz4_len (min (length lits) 15) (min (length lits) 15) (lz4_tail (length lits) @ b) = (length lits, b)" for b
    using lz4_len_tail [of "length lits" 0 b] by simp
  moreover have "lz4_len (min (mlen - 4) 15) (min (mlen - 4) 15 + 4) (lz4_tail (mlen - 4) @ b) = (mlen, b)" for b
    using lz4_len_tail [of "mlen - 4" 4 b] assms by simp
  ultimately show ?thesis by (simp add: Let_def lz4_token_nibbles add.assoc)
qed

lemma lz4_size_block:
  "list_all (\<lambda>(_, _, _, mlen). 4 \<le> mlen) sqs \<Longrightarrow>
   lz4_size (lz4_block sqs lits) n = Ok (n + lz4_block_size sqs lits)"
proof (induction sqs arbitrary: n)
  case Nil
  have "lz4_len (min (length lits) 15) (min (length lits) 15) (lz4_tail (length lits) @ lits) = (length lits, lits)"
    using lz4_len_tail [of "length lits" 0 lits] by simp
  then show ?case by (simp add: lz4_block_def lz4_block_size_def Let_def lz4_token_nibbles)
next
  case (Cons s sqs)
  obtain ls lo hi mlen where s: "s = (ls, lo, hi, mlen)" by (cases s)
  have "lz4_block (s # sqs) lits = lz4_seq_bytes s @ lz4_block sqs lits" by (simp add: lz4_block_def)
  then show ?case using Cons lz4_size_seq [of mlen ls lo hi "lz4_block sqs lits" n]
    by (simp add: s lz4_block_size_def add.assoc del: lz4_seq_bytes.simps)
qed

text \<open>C18. The size computed from the tokens of an LZ4 block is the size of the data the block stands for, for
  every sequence of literals and matches and for lengths of any number of extension bytes.\<close>

theorem lz4_raw_uncompressed_size_exact:
  assumes "list_all (\<lambda>(_, _, _, mlen). 4 \<le> mlen) sqs"
  shows "lz4_raw_uncompressed_size (lz4_block sqs lits) = Ok (lz4_block_size sqs lits)"
  using lz4_size_block [OF assms, of lits 0] by (simp add: lz4_raw_uncompressed_size_def)

lemma lz4_raw_uncompressed_size_exact_witness:
  "lz4_raw_uncompressed_size (lz4_block [([1, 2], 2, 0, 300)] [7, 8, 9 :: u8]) = Ok 305"
  using lz4_raw_uncompressed_size_exact [of "[([1, 2], 2, 0, 300)]" "[7, 8, 9 :: u8]"]
  by (simp add: lz4_block_size_def)

section \<open>Bodies\<close>

text \<open>The promises of the libraries, for bodies of the size a page can have: encoding succeeds, decoding a
  stream behind a limit gives the first bytes of the body, and a decoder into a buffer of the body's size
  fills it.\<close>

definition stream_sound :: "(nat option \<Rightarrow> (string, bytes) outcome) \<Rightarrow> bytes \<Rightarrow> bool" where
  "stream_sound stream body \<longleftrightarrow> (\<forall>limit. stream (Some limit) = Ok (take limit body))"

definition snap_sound :: "codecs \<Rightarrow> bytes \<Rightarrow> bool" where
  "snap_sound ext body \<longleftrightarrow> (\<exists>c. snap_encode ext body = Ok c \<and> snap_len ext c = Ok (length body) \<and>
     snap_into ext c (length body) = Ok body)"

definition zstd_sound :: "codecs \<Rightarrow> bytes \<Rightarrow> bool" where
  "zstd_sound ext body \<longleftrightarrow> (\<exists>c. zstd_encode ext body (zstd_default_level ext) = Ok c \<and> zstd_init ext c = None \<and>
     stream_sound (zstd_stream ext c) body)"

definition gzip_sound :: "codecs \<Rightarrow> bytes \<Rightarrow> bool" where
  "gzip_sound ext body \<longleftrightarrow> (\<exists>c. gzip_write ext body = None \<and> gzip_finish ext body = Ok c \<and>
     stream_sound (gzip_stream ext c) body)"

definition brotli_sound :: "codecs \<Rightarrow> bytes \<Rightarrow> bool" where
  "brotli_sound ext body \<longleftrightarrow> (\<exists>c. brotli_encode ext body = Ok c \<and> stream_sound (brotli_stream ext c) body)"

definition lz4_sound :: "codecs \<Rightarrow> bytes \<Rightarrow> bool" where
  "lz4_sound ext body \<longleftrightarrow> lz4_into ext (lz4_encode ext body) (length body) = Ok body"

definition codecs_sound :: "codecs \<Rightarrow> bool" where
  "codecs_sound ext \<longleftrightarrow> (\<forall>body. length body < 2 ^ 31 \<longrightarrow>
     snap_sound ext body \<and> zstd_sound ext body \<and> gzip_sound ext body \<and> brotli_sound ext body \<and> lz4_sound ext body)"

lemmas library_promises = snap_sound_def zstd_sound_def gzip_sound_def brotli_sound_def lz4_sound_def stream_sound_def

fun supported_codec :: "compression_codec \<Rightarrow> bool" where
  "supported_codec CC_Lzo = False"
| "supported_codec CC_Lz4 = False"
| "supported_codec _ = True"

lemma cap_covers: "n < 2 ^ 31 \<Longrightarrow> n \<le> saturating_succ (cap_with_slack n) \<and> \<not> cap_with_slack n < n"
  by (auto simp: saturating_succ_def cap_with_slack_def min_def)

lemma compress_body_inverse:
  assumes "codecs_sound ext" and "length body < 2 ^ 31" and "supported_codec cdc"
  shows "\<exists>c. compress_body ext body cdc = Ok c \<and> decompress_into ext cdc c (length body) = Ok body"
proof -
  have s: "snap_sound ext body" "zstd_sound ext body" "gzip_sound ext body" "brotli_sound ext body" "lz4_sound ext body"
    using assms(1,2) by (simp_all add: codecs_sound_def)
  note cap = cap_covers [OF assms(2)]
  note d = decompress_err_def fail_if_def compress_body_def decompress_into_def Let_def
  show ?thesis
  proof (cases cdc)
    case CC_Snappy
    then show ?thesis using s(1) by (auto simp: d library_promises compress_snappy_def decompress_snappy_into_def)
  next
    case CC_Zstd
    then show ?thesis using s(2) cap
      by (auto simp: d library_promises compress_zstd_def compress_zstd_at_level_def decompress_zstd_into_capped_def check_cap_def)
  next
    case CC_Gzip
    then show ?thesis using s(3) cap
      by (auto simp: d library_promises compress_gzip_def decompress_gzip_into_capped_def check_cap_def)
  next
    case CC_Brotli
    then show ?thesis using s(4) cap
      by (auto simp: d library_promises compress_brotli_def decompress_brotli_into_capped_def check_cap_def)
  next
    case CC_Lz4Raw
    then show ?thesis using s(5) by (simp add: d library_promises compress_lz4_raw_def decompress_lz4_raw_into_sized_def)
  qed (use assms(3) in \<open>simp_all add: d\<close>)
qed

text \<open>Libraries that store bodies as they are: the promises can hold.\<close>

definition stored_stream :: "bytes \<Rightarrow> nat option \<Rightarrow> (string, bytes) outcome" where
  "stored_stream c limit = Ok (case limit of None \<Rightarrow> c | Some n \<Rightarrow> take n c)"

definition stored_codecs :: codecs where
  "stored_codecs = \<lparr>snap_vec = Ok, snap_len = (\<lambda>c. Ok (length c)), snap_into = (\<lambda>c n. Ok (take n c)), snap_encode = Ok,
     zstd_init = (\<lambda>_. None), zstd_stream = stored_stream, zstd_default_level = 3, zstd_encode = (\<lambda>b _. Ok b),
     gzip_stream = stored_stream, gzip_write = (\<lambda>_. None), gzip_finish = Ok,
     brotli_stream = stored_stream, brotli_encode = Ok, lz4_into = (\<lambda>c n. Ok (take n c)), lz4_encode = (\<lambda>b. b)\<rparr>"

lemma stored_codecs_sound: "codecs_sound stored_codecs"
  by (simp add: codecs_sound_def library_promises stored_codecs_def stored_stream_def)

text \<open>A decoder whose stream is longer than the declared size and its slack is an error, never a truncation:
  what the capped readers return has at most the declared size and 64 bytes more.\<close>

lemma capped_readers_bounded:
  "decompress_zstd_into_capped ext c n = Ok out \<Longrightarrow> length out \<le> n + 64"
  "decompress_gzip_into_capped ext c n = Ok out \<Longrightarrow> length out \<le> n + 64"
  "decompress_brotli_into_capped ext c n = Ok out \<Longrightarrow> length out \<le> n + 64"
  by (auto simp: decompress_zstd_into_capped_def decompress_gzip_into_capped_def decompress_brotli_into_capped_def
      Let_def bind_o_eq_Ok_iff check_cap_def cap_with_slack_def split: if_splits)

end
