(* ===== verification/ColumnData.thy ===== *)
theory ColumnData
  imports DictSpec Plain Bloom MetadataTypes
begin

text \<open>
  The column payload of the table writer in \<open>ematix-parquet-codec/src/write.rs\<close>: \<open>ColumnData\<close> and its
  methods, the statistics of a column slice, its dictionary and its bloom filter.  An \<open>f64\<close> is its bit
  pattern, and the comparison of the language is written out on bit patterns.
\<close>

datatype column_data =
    Col_I32 "i32 list"
  | Col_I64 "i64 list"
  | Col_U64 "u64 list"
  | Col_F64 "64 word list"
  | Col_Bool "bool list"
  | Col_ByteArray "bytes list"

fun row_count :: "column_data \<Rightarrow> nat" where
  "row_count (Col_I32 v) = length v"
| "row_count (Col_I64 v) = length v"
| "row_count (Col_U64 v) = length v"
| "row_count (Col_F64 v) = length v"
| "row_count (Col_Bool v) = length v"
| "row_count (Col_ByteArray v) = length v"

fun column_parquet_type :: "column_data \<Rightarrow> parquet_type" where
  "column_parquet_type (Col_I32 _) = PT_Int32"
| "column_parquet_type (Col_I64 _) = PT_Int64"
| "column_parquet_type (Col_U64 _) = PT_Int64"
| "column_parquet_type (Col_F64 _) = PT_Double"
| "column_parquet_type (Col_Bool _) = PT_Boolean"
| "column_parquet_type (Col_ByteArray _) = PT_ByteArray"

fun encode_plain :: "column_data \<Rightarrow> ('e, bytes) outcome" where
  "encode_plain (Col_I32 v) = Ok (encode_plain_i32 v)"
| "encode_plain (Col_I64 v) = Ok (encode_plain_i64 v)"
| "encode_plain (Col_U64 v) = Ok (encode_plain_u64 v)"
| "encode_plain (Col_F64 v) = Ok (encode_plain_f64 v)"
| "encode_plain (Col_Bool v) = encode_plain_bool v"
| "encode_plain (Col_ByteArray v) = Ok (encode_plain_byte_array v)"

text \<open>\<open>&v[range]\<close>.\<close>

definition list_range :: "'a list \<Rightarrow> nat \<Rightarrow> nat \<Rightarrow> ('e, 'a list) outcome" where
  "list_range v a b =
     (if a > b then Panic ''slice index starts after its end''
      else if b > length v then Panic ''range end index out of range''
      else Ok (take (b - a) (drop a v)))"

fun column_slice :: "column_data \<Rightarrow> nat \<Rightarrow> nat \<Rightarrow> ('e, column_data) outcome" where
  "column_slice (Col_I32 v) a b = bind_o (list_range v a b) (\<lambda>s. Ok (Col_I32 s))"
| "column_slice (Col_I64 v) a b = bind_o (list_range v a b) (\<lambda>s. Ok (Col_I64 s))"
| "column_slice (Col_U64 v) a b = bind_o (list_range v a b) (\<lambda>s. Ok (Col_U64 s))"
| "column_slice (Col_F64 v) a b = bind_o (list_range v a b) (\<lambda>s. Ok (Col_F64 s))"
| "column_slice (Col_Bool v) a b = bind_o (list_range v a b) (\<lambda>s. Ok (Col_Bool s))"
| "column_slice (Col_ByteArray v) a b = bind_o (list_range v a b) (\<lambda>s. Ok (Col_ByteArray s))"

fun column_converted_type :: "column_data \<Rightarrow> converted_type option" where
  "column_converted_type (Col_U64 _) = Some CT_Uint64"
| "column_converted_type _ = None"

section \<open>Dictionaries\<close>

text \<open>One step of \<open>build_dict_with\<close>: the hash map from keys to dictionary slots, the positions of the first
  occurrences, the indices so far.\<close>

fun dict_scan :: "('a \<Rightarrow> 'k) \<Rightarrow> ('k \<rightharpoonup> u32) \<Rightarrow> nat list \<Rightarrow> u32 list \<Rightarrow> (nat \<times> 'a) list \<Rightarrow> nat list \<times> u32 list" where
  "dict_scan key_of m dict_positions indices [] = (dict_positions, indices)"
| "dict_scan key_of m dict_positions indices ((ix, v) # vs) =
     (let key = key_of v
      in case m key of
           Some existing \<Rightarrow> dict_scan key_of m dict_positions (indices @ [existing]) vs
         | None \<Rightarrow>
             (let new_ix = of_nat (length dict_positions) :: u32
              in dict_scan key_of (m(key \<mapsto> new_ix)) (dict_positions @ [ix]) (indices @ [new_ix]) vs))"

definition build_dict_with :: "'a list \<Rightarrow> ('a \<Rightarrow> 'k) \<Rightarrow> nat list \<times> u32 list" where
  "build_dict_with vs key_of = dict_scan key_of Map.empty [] [] (enumerate 0 vs)"

definition build_dict_i64 :: "i64 list \<Rightarrow> i64 list \<times> u32 list" where
  "build_dict_i64 vs = (let (positions, indices) = build_dict_with vs (\<lambda>x. x) in (map ((!) vs) positions, indices))"

definition build_dict_i32 :: "i32 list \<Rightarrow> i32 list \<times> u32 list" where
  "build_dict_i32 vs = (let (positions, indices) = build_dict_with vs (\<lambda>x. x) in (map ((!) vs) positions, indices))"

definition build_dict_f64 :: "64 word list \<Rightarrow> 64 word list \<times> u32 list" where
  "build_dict_f64 vs = (let (positions, indices) = build_dict_with vs (\<lambda>x. x) in (map ((!) vs) positions, indices))"

definition build_dict_byte_array :: "bytes list \<Rightarrow> bytes list \<times> u32 list" where
  "build_dict_byte_array vs = (let (positions, indices) = build_dict_with vs (\<lambda>x. x) in (map ((!) vs) positions, indices))"

fun encode_dict :: "column_data \<Rightarrow> (bytes \<times> nat \<times> u32 list) option" where
  "encode_dict (Col_I32 v) = (let (dict, indices) = build_dict_i32 v in Some (encode_plain_i32 dict, length dict, indices))"
| "encode_dict (Col_I64 v) = (let (dict, indices) = build_dict_i64 v in Some (encode_plain_i64 dict, length dict, indices))"
| "encode_dict (Col_F64 v) = (let (dict, indices) = build_dict_f64 v in Some (encode_plain_f64 dict, length dict, indices))"
| "encode_dict (Col_ByteArray v) =
     (let (dict, indices) = build_dict_byte_array v in Some (encode_plain_byte_array dict, length dict, indices))"
| "encode_dict (Col_U64 _) = None"
| "encode_dict (Col_Bool _) = None"

section \<open>Statistics\<close>

record column_stats =
  cs_min :: "bytes option"
  cs_max :: "bytes option"
  cs_null_count :: i64

definition column_stats_default :: column_stats where
  "column_stats_default = \<lparr>cs_min = None, cs_max = None, cs_null_count = 0\<rparr>"

definition as_statistics :: "column_stats \<Rightarrow> statistics" where
  "as_statistics s = \<lparr>
     st_max = cs_max s,
     st_min = cs_min s,
     st_null_count = Some (cs_null_count s),
     st_distinct_count = None,
     st_max_value = cs_max s,
     st_min_value = cs_min s,
     st_is_max_value_exact = map_option (\<lambda>_. True) (cs_max s),
     st_is_min_value_exact = map_option (\<lambda>_. True) (cs_min s)\<rparr>"

text \<open>\<open>for x in it \{ if x < mn \{ mn = x \} if x > mx \{ mx = x \} \}\<close>.\<close>

fun extremes :: "('a \<Rightarrow> 'a \<Rightarrow> bool) \<Rightarrow> 'a \<Rightarrow> 'a \<Rightarrow> 'a list \<Rightarrow> 'a \<times> 'a" where
  "extremes lt mn mx [] = (mn, mx)"
| "extremes lt mn mx (x # xs) = extremes lt (if lt x mn then x else mn) (if lt mx x then x else mx) xs"

fun stats_i32 :: "i32 list \<Rightarrow> column_stats" where
  "stats_i32 [] = column_stats_default"
| "stats_i32 (v # vs) = (let (mn, mx) = extremes (\<lambda>x y. sint x < sint y) v v vs
     in \<lparr>cs_min = Some (to_le_bytes mn), cs_max = Some (to_le_bytes mx), cs_null_count = 0\<rparr>)"

fun stats_i64 :: "i64 list \<Rightarrow> column_stats" where
  "stats_i64 [] = column_stats_default"
| "stats_i64 (v # vs) = (let (mn, mx) = extremes (\<lambda>x y. sint x < sint y) v v vs
     in \<lparr>cs_min = Some (to_le_bytes mn), cs_max = Some (to_le_bytes mx), cs_null_count = 0\<rparr>)"

fun stats_u64 :: "u64 list \<Rightarrow> column_stats" where
  "stats_u64 [] = column_stats_default"
| "stats_u64 (v # vs) = (let (mn, mx) = extremes (<) v v vs
     in \<lparr>cs_min = Some (to_le_bytes mn), cs_max = Some (to_le_bytes mx), cs_null_count = 0\<rparr>)"

text \<open>The comparison of \<open>f64\<close> on bit patterns: NaN compares with nothing, the zeros are equal.\<close>

definition f64_is_nan :: "64 word \<Rightarrow> bool" where
  "f64_is_nan x \<longleftrightarrow> x AND 0x7FFFFFFFFFFFFFFF > 0x7FF0000000000000"

definition f64_key :: "64 word \<Rightarrow> int" where
  "f64_key x = (if bit x 63 then - uint (x AND 0x7FFFFFFFFFFFFFFF) else uint (x AND 0x7FFFFFFFFFFFFFFF))"

definition f64_lt :: "64 word \<Rightarrow> 64 word \<Rightarrow> bool" where
  "f64_lt x y \<longleftrightarrow> \<not> f64_is_nan x \<and> \<not> f64_is_nan y \<and> f64_key x < f64_key y"

fun f64_extremes :: "64 word option \<Rightarrow> 64 word option \<Rightarrow> 64 word list \<Rightarrow> 64 word option \<times> 64 word option" where
  "f64_extremes mn mx [] = (mn, mx)"
| "f64_extremes mn mx (x # xs) =
     (if f64_is_nan x then f64_extremes mn mx xs
      else f64_extremes
        (Some (case mn of None \<Rightarrow> x | Some m \<Rightarrow> if f64_lt x m then x else m))
        (Some (case mx of None \<Rightarrow> x | Some m \<Rightarrow> if f64_lt m x then x else m)) xs)"

definition stats_f64 :: "64 word list \<Rightarrow> column_stats" where
  "stats_f64 v =
     (let (mn, mx) = f64_extremes None None v;
          (min_b, max_b) =
            (case (mn, mx) of
               (Some mn, Some mx) \<Rightarrow>
                 (let mn = (if mn = 0 then 0x8000000000000000 else mn);
                      mx = (if mx = 0x8000000000000000 then 0 else mx)
                  in (Some (to_le_bytes mn), Some (to_le_bytes mx)))
             | _ \<Rightarrow> (None, None))
      in \<lparr>cs_min = min_b, cs_max = max_b, cs_null_count = 0\<rparr>)"

definition bool_byte :: "bool \<Rightarrow> u8" where
  "bool_byte b = (if b then 1 else 0)"

definition stats_bool :: "bool list \<Rightarrow> column_stats" where
  "stats_bool v =
     (if v = [] then column_stats_default
      else let any_true = list_ex (\<lambda>b. b) v; any_false = list_ex (\<lambda>b. \<not> b) v;
               mn = \<not> any_false; mx = any_true
           in \<lparr>cs_min = Some [bool_byte mn], cs_max = Some [bool_byte mx], cs_null_count = 0\<rparr>)"

text \<open>The order of byte slices.\<close>

fun bytes_lt :: "bytes \<Rightarrow> bytes \<Rightarrow> bool" where
  "bytes_lt [] ys = (ys \<noteq> [])"
| "bytes_lt (x # xs) [] = False"
| "bytes_lt (x # xs) (y # ys) = (x < y \<or> x = y \<and> bytes_lt xs ys)"

fun stats_byte_array :: "bytes list \<Rightarrow> column_stats" where
  "stats_byte_array [] = column_stats_default"
| "stats_byte_array (v # vs) = (let (mn, mx) = extremes bytes_lt v v vs
     in \<lparr>cs_min = Some mn, cs_max = Some mx, cs_null_count = 0\<rparr>)"

fun compute_stats :: "column_data \<Rightarrow> column_stats" where
  "compute_stats (Col_I32 v) = stats_i32 v"
| "compute_stats (Col_I64 v) = stats_i64 v"
| "compute_stats (Col_U64 v) = stats_u64 v"
| "compute_stats (Col_F64 v) = stats_f64 v"
| "compute_stats (Col_Bool v) = stats_bool v"
| "compute_stats (Col_ByteArray v) = stats_byte_array v"

section \<open>Bloom filters of a column\<close>

text \<open>\<open>optimal_num_blocks\<close> computes the byte count of the filter with \<open>f64\<close> logarithms; that part,
  \<open>(m / 8.0).ceil() as u64\<close>, is the argument \<open>sbbf_bytes\<close>.  \<open>is_power_of_two\<close> and \<open>next_power_of_two\<close> are
  written over \<open>nat\<close>, with the overflow of the latter.\<close>

fun power_above :: "nat \<Rightarrow> nat \<Rightarrow> nat \<Rightarrow> nat" where
  "power_above 0 p n = p"
| "power_above (Suc k) p n = (if n \<le> p then p else power_above k (2 * p) n)"

definition next_power_of_two :: "nat \<Rightarrow> ('e, nat) outcome" where
  "next_power_of_two n = (let p = power_above 64 1 n in if p < 2 ^ 64 then Ok p else Panic ''attempt to add with overflow'')"

definition optimal_num_blocks :: "(nat \<Rightarrow> 64 word \<Rightarrow> u64) \<Rightarrow> nat \<Rightarrow> 64 word \<Rightarrow> ('e, u32) outcome" where
  "optimal_num_blocks sbbf_bytes n fpp =
     (if n = 0 then Ok 1
      else let blocks = max (div_ceil (unat (sbbf_bytes n fpp)) 32) 1
           in bind_o (if power_above 64 1 blocks = blocks then Ok blocks else next_power_of_two blocks) (\<lambda>blocks.
              Ok (of_nat (min blocks (2 ^ 32 - 1)))))"

fun bloom_values :: "column_data \<Rightarrow> bytes list" where
  "bloom_values (Col_I32 vs) = map to_le_bytes vs"
| "bloom_values (Col_I64 vs) = map to_le_bytes vs"
| "bloom_values (Col_U64 vs) = map to_le_bytes vs"
| "bloom_values (Col_F64 vs) = map to_le_bytes vs"
| "bloom_values (Col_Bool vs) = map (\<lambda>v. [bool_byte v]) vs"
| "bloom_values (Col_ByteArray vs) = vs"

definition build_bloom_for_column :: "(nat \<Rightarrow> 64 word \<Rightarrow> u64) \<Rightarrow> column_data \<Rightarrow> 64 word \<Rightarrow> ('e, bytes) outcome" where
  "build_bloom_for_column sbbf_bytes col target_fpp =
     bind_o (optimal_num_blocks sbbf_bytes (row_count col) target_fpp) (\<lambda>num_blocks.
     bind_o (fold_o insert_bytes (bloom_builder_new num_blocks) (bloom_values col)) (\<lambda>b.
     Ok (bloom_into_bytes b)))"

end
