(* ===== verification/ColumnStats.thy ===== *)
theory ColumnStats
  imports ColumnData
begin

text \<open>
  Soundness of the statistics the writer puts into pages and footers.  The scan for the extremes is proved
  once, for any strict weak order, and used for signed and unsigned integers, byte strings and, on the
  values that are not NaN, for floats.
\<close>

section \<open>Extremes in a strict weak order\<close>

definition tight_bounds :: "('a \<Rightarrow> 'a \<Rightarrow> bool) \<Rightarrow> 'a list \<Rightarrow> 'a \<Rightarrow> 'a \<Rightarrow> bool" where
  "tight_bounds lt vs mn mx \<longleftrightarrow> mn \<in> set vs \<and> mx \<in> set vs \<and> list_all (\<lambda>v. \<not> lt v mn \<and> \<not> lt mx v) vs"

locale weak_order =
  fixes lt :: "'a \<Rightarrow> 'a \<Rightarrow> bool"
  assumes irrefl: "\<not> lt x x"
    and trans: "lt x y \<Longrightarrow> lt y z \<Longrightarrow> lt x z"
    and not_trans: "\<not> lt x y \<Longrightarrow> \<not> lt y z \<Longrightarrow> \<not> lt x z"
begin

lemma asym: "lt x y \<Longrightarrow> \<not> lt y x"
  using irrefl trans by blast

lemma extremes_step:
  assumes "tight_bounds lt seen mn mx"
  shows "tight_bounds lt (seen @ [x]) (if lt x mn then x else mn) (if lt mx x then x else mx)"
proof -
  have "\<not> lt v x" if "lt x mn" "\<not> lt v mn" for v using that not_trans asym by blast
  moreover have "\<not> lt x v" if "lt mx x" "\<not> lt mx v" for v using that not_trans asym by blast
  ultimately show ?thesis using assms irrefl by (auto simp: tight_bounds_def list_all_iff)
qed

lemma extremes_tight:
  "tight_bounds lt seen mn mx \<Longrightarrow>
   tight_bounds lt (seen @ vs) (fst (extremes lt mn mx vs)) (snd (extremes lt mn mx vs))"
proof (induction vs arbitrary: seen mn mx)
  case (Cons x vs)
  from Cons.IH [OF extremes_step [OF Cons.prems]] show ?case by simp
qed simp

lemma extremes_bounds: "tight_bounds lt (v # vs) (fst (extremes lt v v vs)) (snd (extremes lt v v vs))"
  using extremes_tight [of "[v]" v v vs] irrefl by (simp add: tight_bounds_def)

end

interpretation signed: weak_order "\<lambda>x y. sint (x :: 'w::len word) < sint y"
  by unfold_locales auto

interpretation unsigned: weak_order "(<) :: 'w::len word \<Rightarrow> 'w word \<Rightarrow> bool"
  by unfold_locales auto

lemma bytes_lt_irrefl: "\<not> bytes_lt x x"
  by (induction x) auto

lemma bytes_lt_trans: "bytes_lt x y \<Longrightarrow> bytes_lt y z \<Longrightarrow> bytes_lt x z"
proof (induction x y arbitrary: z rule: bytes_lt.induct)
  case (3 x xs y ys)
  then show ?case by (cases z) auto
qed (auto elim: bytes_lt.elims)

lemma bytes_lt_total: "bytes_lt x y \<or> x = y \<or> bytes_lt y x"
  by (induction x y rule: bytes_lt.induct) auto

interpretation byte_strings: weak_order bytes_lt
proof
  fix x y z assume "\<not> bytes_lt x y" "\<not> bytes_lt y z"
  then show "\<not> bytes_lt x z" using bytes_lt_total [of x y] bytes_lt_total [of y z] bytes_lt_trans bytes_lt_irrefl by metis
qed (use bytes_lt_irrefl bytes_lt_trans in blast)+

interpretation float_keys: weak_order "\<lambda>x y. f64_key x < f64_key y"
  by unfold_locales auto

section \<open>Floats\<close>

lemma f64_extremes_Some:
  "\<not> f64_is_nan mn \<Longrightarrow> \<not> f64_is_nan mx \<Longrightarrow>
   f64_extremes (Some mn) (Some mx) vs =
     (let (mn', mx') = extremes (\<lambda>x y. f64_key x < f64_key y) mn mx (filter (\<lambda>v. \<not> f64_is_nan v) vs) in (Some mn', Some mx'))"
  by (induction vs arbitrary: mn mx) (auto simp: f64_lt_def)

lemma f64_extremes_None:
  "f64_extremes None None vs = (case filter (\<lambda>v. \<not> f64_is_nan v) vs of
     [] \<Rightarrow> (None, None)
   | v # ws \<Rightarrow> (let (mn, mx) = extremes (\<lambda>x y. f64_key x < f64_key y) v v ws in (Some mn, Some mx)))"
  by (induction vs) (auto simp: f64_extremes_Some)

lemma f64_zero_keys: "f64_key 0 = 0" "f64_key 0x8000000000000000 = 0"
  by (simp_all add: f64_key_def)

lemma f64_zero_not_nan: "\<not> f64_is_nan 0" "\<not> f64_is_nan 0x8000000000000000"
  by (simp_all add: f64_is_nan_def)

text \<open>The bounds of floats: not NaN, around every value that is not NaN, met by such values up to the sign of
  a zero, the lower bound never \<open>+0\<close> and the upper never \<open>-0\<close>.\<close>

definition float_bounds :: "64 word list \<Rightarrow> 64 word \<Rightarrow> 64 word \<Rightarrow> bool" where
  "float_bounds vs mn mx \<longleftrightarrow> \<not> f64_is_nan mn \<and> \<not> f64_is_nan mx \<and> mn \<noteq> 0 \<and> mx \<noteq> 0x8000000000000000 \<and>
     list_all (\<lambda>v. \<not> f64_lt v mn \<and> \<not> f64_lt mx v) vs \<and>
     list_ex (\<lambda>v. \<not> f64_is_nan v \<and> f64_key v = f64_key mn) vs \<and> list_ex (\<lambda>v. \<not> f64_is_nan v \<and> f64_key v = f64_key mx) vs"

lemma stats_f64_sound:
  "(if list_all f64_is_nan vs then stats_f64 vs = column_stats_default
    else \<exists>mn mx. stats_f64 vs = \<lparr>cs_min = Some (to_le_bytes mn), cs_max = Some (to_le_bytes mx), cs_null_count = 0\<rparr> \<and>
           float_bounds vs mn mx)"
proof (cases "filter (\<lambda>v. \<not> f64_is_nan v) vs")
  case Nil
  then have "list_all f64_is_nan vs" by (simp add: filter_empty_conv list_all_iff)
  with Nil show ?thesis by (simp add: stats_f64_def f64_extremes_None column_stats_default_def)
next
  case (Cons v ws)
  then have "v \<in> set (filter (\<lambda>v. \<not> f64_is_nan v) vs)" by simp
  then have v: "v \<in> set vs" "\<not> f64_is_nan v" by auto
  obtain mn mx where e: "extremes (\<lambda>x y. f64_key x < f64_key y) v v ws = (mn, mx)" by fastforce
  from float_keys.extremes_bounds [of v ws] Cons e
  have tight: "tight_bounds (\<lambda>x y. f64_key x < f64_key y) (filter (\<lambda>v. \<not> f64_is_nan v) vs) mn mx" by simp
  let ?mn = "if mn = 0 then 0x8000000000000000 else mn" and ?mx = "if mx = 0x8000000000000000 then 0 else mx"
  have "float_bounds vs ?mn ?mx"
    using tight by (auto simp: float_bounds_def tight_bounds_def f64_lt_def list_all_iff list_ex_iff f64_zero_keys f64_zero_not_nan)
  moreover have "stats_f64 vs = \<lparr>cs_min = Some (to_le_bytes ?mn), cs_max = Some (to_le_bytes ?mx), cs_null_count = 0\<rparr>"
    using Cons e by (simp add: stats_f64_def f64_extremes_None)
  moreover have some: "\<not> list_all f64_is_nan vs" using v by (auto simp: list_all_iff)
  ultimately show ?thesis unfolding if_not_P [OF some] by blast
qed

section \<open>The statistics of a column\<close>

definition stats_of :: "('a \<Rightarrow> bytes) \<Rightarrow> ('a \<Rightarrow> 'a \<Rightarrow> bool) \<Rightarrow> 'a list \<Rightarrow> column_stats \<Rightarrow> bool" where
  "stats_of enc lt vs st \<longleftrightarrow> (if vs = [] then st = column_stats_default
     else \<exists>mn mx. st = \<lparr>cs_min = Some (enc mn), cs_max = Some (enc mx), cs_null_count = 0\<rparr> \<and> tight_bounds lt vs mn mx)"

lemma stats_ints_sound:
  "stats_of to_le_bytes (\<lambda>x y. sint x < sint y) is32 (stats_i32 is32)"
  "stats_of to_le_bytes (\<lambda>x y. sint x < sint y) is64 (stats_i64 is64)"
  "stats_of to_le_bytes (<) us (stats_u64 us)"
  "stats_of (\<lambda>b. b) bytes_lt bas (stats_byte_array bas)"
proof -
  show "stats_of to_le_bytes (\<lambda>x y. sint x < sint y) is32 (stats_i32 is32)"
    using signed.extremes_bounds [of "hd is32" "tl is32"] by (cases is32) (force simp: stats_of_def split_beta)+
  show "stats_of to_le_bytes (\<lambda>x y. sint x < sint y) is64 (stats_i64 is64)"
    using signed.extremes_bounds [of "hd is64" "tl is64"] by (cases is64) (force simp: stats_of_def split_beta)+
  show "stats_of to_le_bytes (<) us (stats_u64 us)"
    using unsigned.extremes_bounds [of "hd us" "tl us"] by (cases us) (force simp: stats_of_def split_beta)+
  show "stats_of (\<lambda>b. b) bytes_lt bas (stats_byte_array bas)"
    using byte_strings.extremes_bounds [of "hd bas" "tl bas"] by (cases bas) (force simp: stats_of_def split_beta)+
qed

lemma stats_bool_sound: "stats_of (\<lambda>b. [bool_byte b]) (\<lambda>x y. \<not> x \<and> y) bs (stats_bool bs)"
proof (cases "bs = []")
  case False
  have ex: "list_ex (\<lambda>b. b) bs \<longleftrightarrow> True \<in> set bs" "list_ex (\<lambda>b. \<not> b) bs \<longleftrightarrow> False \<in> set bs"
    by (auto simp: list_ex_iff)
  have "hd bs \<in> set bs" using False by simp
  then have "tight_bounds (\<lambda>x y. \<not> x \<and> y) bs (False \<notin> set bs) (True \<in> set bs)"
    unfolding tight_bounds_def list_all_iff by (metis (full_types))
  then have "tight_bounds (\<lambda>x y. \<not> x \<and> y) bs (\<not> list_ex (\<lambda>b. \<not> b) bs) (list_ex (\<lambda>b. b) bs)" by (simp only: ex)
  then show ?thesis using False by (auto simp: stats_of_def stats_bool_def Let_def)
qed (simp add: stats_of_def stats_bool_def)

text \<open>C15. The minimum and maximum the writer stores are values of the column and bound all of them, in the order
  of the column's type: signed for \<open>I32\<close> and \<open>I64\<close>, unsigned for \<open>U64\<close>, lexicographic for byte arrays; NaN
  is left out, and a bound that is a zero has the sign that covers both zeros.\<close>

theorem column_statistics_sound:
  "stats_of to_le_bytes (\<lambda>x y. sint x < sint y) is32 (compute_stats (Col_I32 is32)) \<and>
   stats_of to_le_bytes (\<lambda>x y. sint x < sint y) is64 (compute_stats (Col_I64 is64)) \<and>
   stats_of to_le_bytes (<) us (compute_stats (Col_U64 us)) \<and>
   stats_of (\<lambda>b. [bool_byte b]) (\<lambda>x y. \<not> x \<and> y) bs (compute_stats (Col_Bool bs)) \<and>
   stats_of (\<lambda>b. b) bytes_lt bas (compute_stats (Col_ByteArray bas)) \<and>
   (if list_all f64_is_nan fs then compute_stats (Col_F64 fs) = column_stats_default
    else \<exists>mn mx. compute_stats (Col_F64 fs) = \<lparr>cs_min = Some (to_le_bytes mn), cs_max = Some (to_le_bytes mx), cs_null_count = 0\<rparr> \<and>
           float_bounds fs mn mx)"
  using stats_ints_sound stats_bool_sound stats_f64_sound by simp

end
