(* ===== verification/WriteTable.thy ===== *)
theory WriteTable
  imports ColumnData Compression MetadataWrite
begin

text \<open>
  The multi-column table writer of \<open>ematix-parquet-codec/src/write.rs\<close>: \<open>write_table_inner_full_v2\<close> with
  its option checks, the loop over row groups and columns, pages, bloom filters and the footer.  The sink
  is a growable buffer, whose \<open>write_all\<close> cannot fail; the result of a writer is the bytes it appends.  A
  \<open>&str\<close> is its bytes.
\<close>

section \<open>The sink\<close>

record sink =
  sk_out :: bytes
  sk_written :: u64

definition parquet_magic :: bytes where
  "parquet_magic = [0x50, 0x41, 0x52, 0x31]"

definition sink_start :: sink where
  "sink_start = \<lparr>sk_out = parquet_magic, sk_written = 4\<rparr>"

text \<open>\<open>out.write_all(&bytes)?; written += bytes.len() as u64;\<close>.\<close>

definition put_bytes :: "bytes \<Rightarrow> sink \<Rightarrow> sink" where
  "put_bytes bs sk = \<lparr>sk_out = sk_out sk @ bs, sk_written = sk_written sk + of_nat (length bs)\<rparr>"

section \<open>Pages\<close>

datatype page_version = Pages_V1 | Pages_V2

definition dict_page_header :: "nat \<Rightarrow> nat \<Rightarrow> nat \<Rightarrow> page_header" where
  "dict_page_header dict_uncomp dict_comp dict_len = \<lparr>
     ph_page_type = PG_DictionaryPage,
     ph_uncompressed_page_size = of_nat dict_uncomp,
     ph_compressed_page_size = of_nat dict_comp,
     ph_crc = None,
     ph_data_page_header = None,
     ph_index_page_header = None,
     ph_dictionary_page_header = Some \<lparr>
       di_num_values = of_nat dict_len,
       di_encoding = E_Plain,
       di_is_sorted = Some False\<rparr>,
     ph_data_page_header_v2 = None\<rparr>"

definition v1_page_header :: "encoding \<Rightarrow> nat \<Rightarrow> nat \<Rightarrow> nat \<Rightarrow> column_stats \<Rightarrow> page_header" where
  "v1_page_header enc uncomp_len comp_len chunk_rows stats = \<lparr>
     ph_page_type = PG_DataPage,
     ph_uncompressed_page_size = of_nat uncomp_len,
     ph_compressed_page_size = of_nat comp_len,
     ph_crc = None,
     ph_data_page_header = Some \<lparr>
       dh_num_values = of_nat chunk_rows,
       dh_encoding = enc,
       dh_definition_level_encoding = E_Rle,
       dh_repetition_level_encoding = E_Rle,
       dh_statistics = Some (as_statistics stats)\<rparr>,
     ph_index_page_header = None,
     ph_dictionary_page_header = None,
     ph_data_page_header_v2 = None\<rparr>"

definition v2_page_header :: "nat \<Rightarrow> nat \<Rightarrow> nat \<Rightarrow> bool \<Rightarrow> column_stats \<Rightarrow> page_header" where
  "v2_page_header uncomp_len comp_len chunk_rows compressed stats = \<lparr>
     ph_page_type = PG_DataPageV2,
     ph_uncompressed_page_size = of_nat uncomp_len,
     ph_compressed_page_size = of_nat comp_len,
     ph_crc = None,
     ph_data_page_header = None,
     ph_index_page_header = None,
     ph_dictionary_page_header = None,
     ph_data_page_header_v2 = Some \<lparr>
       d2_num_values = of_nat chunk_rows,
       d2_num_nulls = 0,
       d2_num_rows = of_nat chunk_rows,
       d2_encoding = E_Plain,
       d2_definition_levels_byte_length = 0,
       d2_repetition_levels_byte_length = 0,
       d2_is_compressed = compressed,
       d2_statistics = Some (as_statistics stats)\<rparr>\<rparr>"

text \<open>A page: its header and its compressed body, and where it landed.\<close>

definition write_page :: "page_header \<Rightarrow> bytes \<Rightarrow> sink \<Rightarrow> i64 \<times> sink" where
  "write_page hdr body sk = (sk_written sk, put_bytes body (put_bytes (write_page_header hdr) sk))"

text \<open>What the code keeps of a column chunk until the footer is built.\<close>

record prepared_column =
  pc_data_page_offset :: i64
  pc_dictionary_page_offset :: "i64 option"
  pc_total_uncompressed_size :: i64
  pc_total_compressed_size :: i64
  pc_stats :: column_stats
  pc_bloom_filter_offset :: "i64 option"
  pc_bloom_filter_length :: "i32 option"

type_synonym chunk_place = "i64 \<times> i64 option \<times> i64 \<times> i64"

text \<open>The dictionary page and the page of its indices.\<close>

definition write_dict_pages ::
  "codecs \<Rightarrow> compression_codec \<Rightarrow> nat \<Rightarrow> column_stats \<Rightarrow> bytes \<times> nat \<times> u32 list \<Rightarrow> sink \<Rightarrow> (chunk_place \<times> sink) codec_result" where
  "write_dict_pages ext cdc chunk_rows stats d sk =
     (let (dict_body, dict_len, indices) = d
      in bind_o (compress_body ext dict_body cdc) (\<lambda>dict_compressed.
         let dict_header = dict_page_header (length dict_body) (length dict_compressed) dict_len;
             (dict_page_offset, sk) = write_page dict_header dict_compressed sk
         in bind_o (min_bit_width_for_dict dict_len) (\<lambda>bit_width.
         bind_o (encode_rle_bit_packed indices bit_width) (\<lambda>packed.
         let data_body = of_nat bit_width # packed
         in bind_o (compress_body ext data_body cdc) (\<lambda>data_compressed.
         let data_header = v1_page_header E_PlainDictionary (length data_body) (length data_compressed) chunk_rows stats;
             (data_page_off, sk) = write_page data_header data_compressed sk;
             headers = length (write_page_header dict_header) + length (write_page_header data_header)
         in Ok ((data_page_off, Some dict_page_offset,
                 of_nat (headers + length dict_body + length data_body),
                 of_nat (headers + length dict_compressed + length data_compressed)), sk))))))"

text \<open>The PLAIN page, with a header of either version.\<close>

definition write_plain_page ::
  "codecs \<Rightarrow> page_version \<Rightarrow> compression_codec \<Rightarrow> nat \<Rightarrow> column_stats \<Rightarrow> bytes \<Rightarrow> sink \<Rightarrow> (chunk_place \<times> sink) codec_result" where
  "write_plain_page ext page_version cdc chunk_rows stats body sk =
     bind_o (compress_body ext body cdc) (\<lambda>compressed_body.
     let header = (case page_version of
           Pages_V1 \<Rightarrow> v1_page_header E_Plain (length body) (length compressed_body) chunk_rows stats
         | Pages_V2 \<Rightarrow> v2_page_header (length body) (length compressed_body) chunk_rows (cdc \<noteq> CC_Uncompressed) stats);
         (data_page_off, sk) = write_page header compressed_body sk;
         hlen = length (write_page_header header)
     in Ok ((data_page_off, None, of_nat (hlen + length body), of_nat (hlen + length compressed_body)), sk))"

definition write_bloom :: "bytes option \<Rightarrow> sink \<Rightarrow> (i64 option \<times> i32 option) \<times> sink" where
  "write_bloom bloom_bytes sk =
     (case bloom_bytes of
        Some blob \<Rightarrow> ((Some (sk_written sk), Some (of_nat (length blob))), put_bytes blob sk)
      | None \<Rightarrow> ((None, None), sk))"

section \<open>The loops\<close>

text \<open>What the loop bodies read of the arguments; \<open>wt_sbbf_bytes\<close> is the float part of \<open>optimal_num_blocks\<close>.\<close>

record table_options =
  wt_default_codec :: compression_codec
  wt_row_group_size :: nat
  wt_page_version :: page_version
  wt_bloom_fpps :: "64 word option list option"
  wt_dict_per_column :: "bool list option"
  wt_codec_per_column :: "compression_codec list option"
  wt_kv_metadata :: "(bytes \<times> bytes) list option"

text \<open>\<open>xs.map(|v| v[ix]).unwrap_or(default)\<close>.\<close>

definition per_column :: "'a \<Rightarrow> 'a list option \<Rightarrow> nat \<Rightarrow> ('e, 'a) outcome" where
  "per_column dflt xs ix = (case xs of None \<Rightarrow> Ok dflt | Some v \<Rightarrow> index_o v ix)"

definition write_column ::
  "codecs \<Rightarrow> (nat \<Rightarrow> 64 word \<Rightarrow> u64) \<Rightarrow> table_options \<Rightarrow> nat \<Rightarrow> nat \<Rightarrow>
   sink \<times> prepared_column list \<Rightarrow> nat \<times> bytes \<times> column_data \<Rightarrow> (sink \<times> prepared_column list) codec_result" where
  "write_column ext sbbf opts row_start row_end s c =
     (let (sk, prepared) = s; (col_ix, nm, col) = c; chunk_rows = row_end - row_start
      in bind_o (column_slice col row_start row_end) (\<lambda>col_slice.
         let stats = compute_stats col_slice
         in bind_o (per_column (wt_default_codec opts) (wt_codec_per_column opts) col_ix) (\<lambda>col_codec.
         bind_o (per_column None (wt_bloom_fpps opts) col_ix) (\<lambda>fpp.
         bind_o (case fpp of None \<Rightarrow> Ok None
                 | Some fpp \<Rightarrow> bind_o (build_bloom_for_column sbbf col_slice fpp) (\<lambda>b. Ok (Some b))) (\<lambda>bloom_bytes.
         bind_o (per_column False (wt_dict_per_column opts) col_ix) (\<lambda>is_dict.
         bind_o (if is_dict then
                   (case encode_dict col_slice of
                      None \<Rightarrow> Panic ''encode_dict None already rejected by precondition checks''
                    | Some d \<Rightarrow> write_dict_pages ext col_codec chunk_rows stats d sk)
                 else bind_o (encode_plain col_slice) (\<lambda>body.
                      write_plain_page ext (wt_page_version opts) col_codec chunk_rows stats body sk))
           (\<lambda>((data_page_offset, dictionary_page_offset, total_uncomp, total_comp), sk).
         let ((bloom_filter_offset, bloom_filter_length), sk) = write_bloom bloom_bytes sk
         in Ok (sk, prepared @ [\<lparr>
              pc_data_page_offset = data_page_offset,
              pc_dictionary_page_offset = dictionary_page_offset,
              pc_total_uncompressed_size = total_uncomp,
              pc_total_compressed_size = total_comp,
              pc_stats = stats,
              pc_bloom_filter_offset = bloom_filter_offset,
              pc_bloom_filter_length = bloom_filter_length\<rparr>]))))))))"

type_synonym prepared_group = "nat \<times> prepared_column list"

text \<open>\<open>while row_start < total_rows || !emitted_any\<close>.  \<open>Stuck\<close> marks an iteration that does not advance, which
  only a row group size of 0, refused before the loop, could cause.\<close>

function write_row_groups ::
  "codecs \<Rightarrow> (nat \<Rightarrow> 64 word \<Rightarrow> u64) \<Rightarrow> table_options \<Rightarrow> (bytes \<times> column_data) list \<Rightarrow> nat \<Rightarrow>
   sink \<Rightarrow> prepared_group list \<Rightarrow> nat \<Rightarrow> bool \<Rightarrow> (sink \<times> prepared_group list) codec_result" where
  "write_row_groups ext sbbf opts columns total_rows sk groups row_start emitted_any =
     (if row_start < total_rows \<or> \<not> emitted_any then
        bind_o (if total_rows = 0 then Ok 0
                else bind_o (add_usize row_start (wt_row_group_size opts)) (\<lambda>e. Ok (min e total_rows))) (\<lambda>row_end.
        bind_o (fold_o (write_column ext sbbf opts row_start row_end) (sk, []) (enumerate 0 columns)) (\<lambda>(sk, prepared).
        if row_end \<le> row_start \<and> row_start < total_rows then Stuck
        else write_row_groups ext sbbf opts columns total_rows sk (groups @ [(row_end - row_start, prepared)]) row_end True))
      else Ok (sk, groups))"
  by pat_completeness auto
termination
  by (relation "measures [\<lambda>(ext, sbbf, opts, columns, total_rows, sk, groups, row_start, emitted_any). if emitted_any then 0 else 1,
        \<lambda>(ext, sbbf, opts, columns, total_rows, sk, groups, row_start, emitted_any). total_rows - row_start]") auto

declare write_row_groups.simps [simp del]

section \<open>The footer\<close>

definition root_element :: "nat \<Rightarrow> schema_element" where
  "root_element num_children = \<lparr>
     se_column_type = None,
     se_type_length = None,
     se_repetition_type = None,
     se_name = [0x73, 0x63, 0x68, 0x65, 0x6D, 0x61],
     se_num_children = Some (of_nat num_children),
     se_converted_type = None,
     se_scale = None,
     se_precision = None,
     se_field_id = None,
     se_logical_type = None\<rparr>"

definition leaf_element :: "bytes \<Rightarrow> parquet_type \<Rightarrow> converted_type option \<Rightarrow> schema_element" where
  "leaf_element nm pt ct = \<lparr>
     se_column_type = Some pt,
     se_type_length = None,
     se_repetition_type = Some FR_Required,
     se_name = nm,
     se_num_children = None,
     se_converted_type = ct,
     se_scale = None,
     se_precision = None,
     se_field_id = None,
     se_logical_type = None\<rparr>"

definition prepared_metadata :: "bytes \<Rightarrow> parquet_type \<Rightarrow> compression_codec \<Rightarrow> nat \<Rightarrow> prepared_column \<Rightarrow> column_metadata" where
  "prepared_metadata nm pt cdc chunk_rows prep = \<lparr>
     cm_column_type = pt,
     cm_encodings = (if pc_dictionary_page_offset prep \<noteq> None then [E_Plain, E_Rle, E_PlainDictionary] else [E_Plain, E_Rle]),
     cm_path_in_schema = [nm],
     cm_codec = cdc,
     cm_num_values = of_nat chunk_rows,
     cm_total_uncompressed_size = pc_total_uncompressed_size prep,
     cm_total_compressed_size = pc_total_compressed_size prep,
     cm_key_value_metadata = None,
     cm_data_page_offset = pc_data_page_offset prep,
     cm_index_page_offset = None,
     cm_dictionary_page_offset = pc_dictionary_page_offset prep,
     cm_statistics = Some (as_statistics (pc_stats prep)),
     cm_encoding_stats = None,
     cm_bloom_filter_offset = pc_bloom_filter_offset prep,
     cm_bloom_filter_length = pc_bloom_filter_length prep,
     cm_size_statistics = None\<rparr>"

definition prepared_chunk :: "column_metadata \<Rightarrow> column_chunk" where
  "prepared_chunk cm = \<lparr>
     cc_file_path = None,
     cc_file_offset = (case cm_dictionary_page_offset cm of None \<Rightarrow> cm_data_page_offset cm | Some off \<Rightarrow> off),
     cc_meta_data = Some cm,
     cc_offset_index_offset = None,
     cc_offset_index_length = None,
     cc_column_index_offset = None,
     cc_column_index_length = None,
     cc_crypto_metadata = None,
     cc_encrypted_column_metadata = None\<rparr>"

definition footer_row_group ::
  "table_options \<Rightarrow> (bytes \<times> column_data) list \<Rightarrow> nat \<Rightarrow> prepared_group \<Rightarrow> ('e, row_group) outcome" where
  "footer_row_group opts columns rg_ix g =
     (let (chunk_rows, prepared) = g
      in bind_o (mapM_o (\<lambda>(col_ix, (nm, col), prep).
             bind_o (per_column (wt_default_codec opts) (wt_codec_per_column opts) col_ix) (\<lambda>col_codec.
             Ok (prepared_chunk (prepared_metadata nm (column_parquet_type col) col_codec chunk_rows prep))))
           (enumerate 0 (zip columns prepared))) (\<lambda>row_group_columns.
         Ok \<lparr>rg_columns = row_group_columns,
             rg_total_byte_size = foldl (\<lambda>acc ((nm, col), prep). acc + pc_total_uncompressed_size prep) 0 (zip columns prepared),
             rg_num_rows = of_nat chunk_rows,
             rg_sorting_columns = None,
             rg_file_offset = None,
             rg_total_compressed_size = None,
             rg_ordinal = Some (of_nat rg_ix)\<rparr>))"

definition created_by :: bytes where
  "created_by = map of_char ''ematix-parquet 0.0.1''"

definition footer_metadata ::
  "schema_element list \<Rightarrow> nat \<Rightarrow> row_group list \<Rightarrow> (bytes \<times> bytes) list option \<Rightarrow> file_metadata" where
  "footer_metadata schema total_rows row_groups kv_metadata = \<lparr>
     fm_version = 1,
     fm_schema = schema,
     fm_num_rows = of_nat total_rows,
     fm_row_groups = row_groups,
     fm_key_value_metadata = map_option (map (\<lambda>(k, v). \<lparr>kv_key = k, kv_value = Some v\<rparr>)) kv_metadata,
     fm_created_by = Some created_by,
     fm_column_orders = None,
     fm_encryption_algorithm = None,
     fm_footer_signing_key_metadata = None\<rparr>"

definition write_footer :: "file_metadata \<Rightarrow> bytes \<Rightarrow> bytes codec_result" where
  "write_footer md out =
     bind_o (map_err Wire (write_file_metadata md)) (\<lambda>footer.
     Ok (out @ footer @ to_le_bytes (of_nat (length footer) :: u32) @ parquet_magic))"

definition footer_schema :: "(bytes \<times> column_data) list \<Rightarrow> schema_element list" where
  "footer_schema columns = root_element (length columns) #
     map (\<lambda>(nm, col). leaf_element nm (column_parquet_type col) (column_converted_type col)) columns"

section \<open>The writer\<close>

text \<open>\<open>\{name:?\}\<close>: quotes, backslashes and control characters escaped; the bytes of other characters stand.\<close>

definition debug_char :: "u8 \<Rightarrow> string" where
  "debug_char b =
     (if b = 0x22 then [CHR 0x5C, CHR 0x22] else if b = 0x5C then [CHR 0x5C, CHR 0x5C]
      else if b = 0x09 then [CHR 0x5C, CHR ''t''] else if b = 0x0A then [CHR 0x5C, CHR ''n'']
      else if b = 0x0D then [CHR 0x5C, CHR ''r''] else if b = 0 then [CHR 0x5C, CHR ''0'']
      else if b < 0x20 \<or> b = 0x7F
        then [CHR 0x5C, CHR ''u'', CHR 0x7B] @ (if unat b < 16 then [] else hex_digit (unat b div 16)) @ hex_digit (unat b mod 16) @ [CHR 0x7D]
      else [char_of (unat b)])"

definition debug_str :: "bytes \<Rightarrow> string" where
  "debug_str bs = [CHR 0x22] @ concat (map debug_char bs) @ [CHR 0x22]"

definition length_error :: "string \<Rightarrow> nat \<Rightarrow> nat \<Rightarrow> codec_error" where
  "length_error what n cols = InvalidInput (what @ '' length '' @ decimal n @ '' != columns length '' @ decimal cols)"

definition require_o :: "bool \<Rightarrow> codec_error \<Rightarrow> unit codec_result" where
  "require_o ok e = (if ok then Ok () else Err e)"

definition is_bool_column :: "column_data \<Rightarrow> bool" where
  "is_bool_column col = (case col of Col_Bool _ \<Rightarrow> True | _ \<Rightarrow> False)"

definition check_dict_columns :: "table_options \<Rightarrow> (bytes \<times> column_data) list \<Rightarrow> unit codec_result" where
  "check_dict_columns opts columns =
     (case wt_dict_per_column opts of None \<Rightarrow> Ok ()
      | Some d \<Rightarrow>
        bind_o (require_o (length d = length columns) (length_error ''dict_per_column'' (length d) (length columns))) (\<lambda>_.
        bind_o (require_o (\<not> (wt_page_version opts = Pages_V2 \<and> list_ex (\<lambda>b. b) d))
          (Unsupported ''dict-encoded columns + V2 pages not yet supported'')) (\<lambda>_.
        fold_o (\<lambda>_ (ix, nm, col).
            bind_o (index_o d ix) (\<lambda>b.
            require_o (\<not> (b \<and> is_bool_column col))
              (Unsupported (''column '' @ debug_str nm @ '': dict encoding not supported for BOOLEAN''))))
          () (enumerate 0 columns))))"

definition write_table_inner_full_v2 ::
  "codecs \<Rightarrow> (nat \<Rightarrow> 64 word \<Rightarrow> u64) \<Rightarrow> (bytes \<times> column_data) list \<Rightarrow> table_options \<Rightarrow> bytes codec_result" where
  "write_table_inner_full_v2 ext sbbf columns opts =
     bind_o (require_o (columns \<noteq> []) (InvalidInput ''write_table requires at least one column'')) (\<lambda>_.
     bind_o (require_o (wt_row_group_size opts \<noteq> 0) (InvalidInput ''row_group_size must be > 0'')) (\<lambda>_.
     bind_o (case wt_codec_per_column opts of None \<Rightarrow> Ok ()
             | Some c \<Rightarrow> require_o (length c = length columns) (length_error ''codec_per_column'' (length c) (length columns))) (\<lambda>_.
     bind_o (check_dict_columns opts columns) (\<lambda>_.
     let total_rows = row_count (snd (hd columns))
     in bind_o (fold_o (\<lambda>_ (nm, c). require_o (row_count c = total_rows)
                  (InvalidInput (''column '' @ debug_str nm @ '' has row count '' @ decimal (row_count c) @
                     '' but first column has '' @ decimal total_rows))) () (tl columns)) (\<lambda>_.
     bind_o (write_row_groups ext sbbf opts columns total_rows sink_start [] 0 False) (\<lambda>(sk, groups).
     bind_o (mapM_o (\<lambda>(rg_ix, g). footer_row_group opts columns rg_ix g) (enumerate 0 groups)) (\<lambda>row_groups.
     write_footer (footer_metadata (footer_schema columns) total_rows row_groups (wt_kv_metadata opts)) (sk_out sk))))))))"

end
