(* ===== verification/FileRead.thy ===== *)
theory FileRead
  imports ErrorText LeBytes MetadataRead
begin

text \<open>
  The crate \<open>ematix-parquet-io\<close>: opening a file (\<open>file.rs\<close>), reading a range of it, and walking the pages of
  a column chunk (\<open>pages.rs\<close>).  A file is its bytes; that the operating system returns them is the only
  thing assumed of it, so the variant \<open>Io\<close> of \<open>IoError\<close> is never built.  An offset or length, a \<open>u64\<close>, is
  a \<open>nat\<close>.
\<close>

section \<open>Errors\<close>

datatype io_error =
    Io_Os string
  | Io_Format format_error
  | NotAParquetFile bytes bytes string
  | TruncatedFooter nat nat
  | OutOfRangeRead nat nat nat

type_synonym 'a io_result = "(io_error, 'a) outcome"

text \<open>\<open>\{x:?\}\<close> of a byte array.\<close>

fun comma_list :: "bytes \<Rightarrow> string" where
  "comma_list [] = []"
| "comma_list [b] = decimal (unat b)"
| "comma_list (b # bs) = decimal (unat b) @ '', '' @ comma_list bs"

definition debug_bytes :: "bytes \<Rightarrow> string" where
  "debug_bytes bs = ''['' @ comma_list bs @ '']''"

fun io_error_text :: "io_error \<Rightarrow> string" where
  "io_error_text (Io_Os e) = ''I/O error: '' @ e"
| "io_error_text (Io_Format e) = ''format decode error: '' @ format_error_text e"
| "io_error_text (NotAParquetFile expected found place) =
     ''missing parquet magic at '' @ place @ '': expected '' @ debug_bytes expected @ '', found '' @ debug_bytes found"
| "io_error_text (TruncatedFooter file_size declared_footer_length) =
     ''footer length '' @ decimal declared_footer_length @ '' exceeds file size '' @ decimal file_size"
| "io_error_text (OutOfRangeRead offset len file_size) =
     ''read of '' @ decimal len @ '' bytes at offset '' @ decimal offset @ '' extends past file size '' @ decimal file_size"



section \<open>Opening a file\<close>

definition file_magic :: bytes where
  "file_magic = [0x50, 0x41, 0x52, 0x31]"

definition footer_trailer_len :: nat where
  "footer_trailer_len = 8"

record parquet_file =
  pf_file :: bytes
  pf_file_size :: nat
  pf_footer_bytes :: bytes
  pf_footer_offset :: nat

definition file_open :: "bytes \<Rightarrow> parquet_file io_result" where
  "file_open file =
     (let file_size = length file
      in if file_size < 4 + footer_trailer_len then Err (TruncatedFooter file_size 0)
      else let head = take 4 file
      in if head \<noteq> file_magic then Err (NotAParquetFile file_magic head ''file head'')
      else let tail = drop (file_size - footer_trailer_len) file; tail_magic = drop 4 tail
      in if tail_magic \<noteq> file_magic then Err (NotAParquetFile file_magic tail_magic ''file tail'')
      else let footer_len = unat (from_le_bytes (take 4 tail) :: u32)
      in if footer_len > file_size - footer_trailer_len - 4 then Err (TruncatedFooter file_size footer_len)
      else let footer_offset = file_size - footer_trailer_len - footer_len
      in Ok \<lparr>pf_file = file, pf_file_size = file_size,
             pf_footer_bytes = take footer_len (drop footer_offset file), pf_footer_offset = footer_offset\<rparr>)"

text \<open>\<open>metadata\<close>; \<open>cached_metadata\<close> parses the same bytes once and keeps the value.\<close>

definition file_metadata_of :: "parquet_file \<Rightarrow> file_metadata io_result" where
  "file_metadata_of file = bind_o (map_err Io_Format (read_file_metadata (cursor_new (pf_footer_bytes file)))) (\<lambda>(md, cur). Ok md)"

definition read_range :: "parquet_file \<Rightarrow> nat \<Rightarrow> nat \<Rightarrow> bytes io_result" where
  "read_range file offset len =
     (if min (offset + len) (2 ^ 64 - 1) > pf_file_size file then Err (OutOfRangeRead offset len (pf_file_size file))
      else Ok (take len (drop offset (pf_file file))))"

section \<open>Walking pages\<close>

record page_walker =
  pw_cur :: cursor
  pw_end_offset :: nat

definition page_walker_new :: "bytes \<Rightarrow> page_walker" where
  "page_walker_new bs = \<lparr>pw_cur = cursor_new bs, pw_end_offset = length bs\<rparr>"

definition page_walker_with_byte_limit :: "bytes \<Rightarrow> nat \<Rightarrow> page_walker" where
  "page_walker_with_byte_limit bs byte_limit = \<lparr>pw_cur = cursor_new bs, pw_end_offset = min byte_limit (length bs)\<rparr>"

text \<open>\<open>x as usize\<close> of a signed integer.\<close>

definition as_usize :: "'w::len word \<Rightarrow> nat" where
  "as_usize w = unat (scast w :: u64)"

definition next_page :: "page_walker \<Rightarrow> ((page_header \<times> bytes) option \<times> page_walker) io_result" where
  "next_page w =
     (if position (pw_cur w) \<ge> pw_end_offset w then Ok (None, w)
      else bind_o (map_err Io_Format (read_page_header (pw_cur w))) (\<lambda>(header, cur).
           let body_len = as_usize (ph_compressed_page_size header)
           in bind_o (map_err Io_Format (cur_take body_len cur)) (\<lambda>(body, cur).
              Ok (Some (header, body), w\<lparr>pw_cur := cur\<rparr>))))"

text \<open>A page takes at least the byte of its header's first field, so every loop over the pages ends.\<close>

lemma remaining_lift: "lift_r m cur = Ok (x, cur') \<Longrightarrow> cur' = cur"
  by (auto simp: lift_r_def bind_o_eq_Ok_iff)

lemma remaining_zigzag_i32: "read_zigzag_i32 cur = Ok (x, cur') \<Longrightarrow> remaining cur' < remaining cur"
  by (auto simp: read_zigzag_i32_def bind_r_def bind_o_eq_Ok_iff return_r_def dest!: remaining_uvarint)

lemma remaining_read_field_header:
  "read_field_header prev cur = Ok (h, cur') \<Longrightarrow> remaining cur' < remaining cur"
  by (force simp: read_field_header_def Let_def bind_r_def bind_o_eq_Ok_iff return_r_def split: if_splits
      dest!: remaining_read_u8 remaining_lift remaining_zigzag_i32)

lemma remaining_read_fields: "read_fields step prev acc cur = Ok (x, cur') \<Longrightarrow> remaining cur' < remaining cur"
proof (induction step prev acc cur rule: read_fields.induct)
  case (1 step prev acc cur)
  from 1(2) obtain ho c where h: "read_field_header prev cur = Ok (ho, c)"
    by (auto simp: read_fields.simps [of step prev] bind_o_eq_Ok_iff)
  note shorter = remaining_read_field_header [OF h]
  show ?case
  proof (cases ho)
    case None
    then show ?thesis using 1(2) h shorter by (simp add: read_fields.simps [of step prev])
  next
    case (Some hd)
    from 1(2) h Some obtain acc' c' where s: "step hd acc c = Ok (acc', c')" "remaining c' < remaining cur"
      "read_fields step (fh_id hd) acc' c' = Ok (x, cur')"
      by (auto simp: read_fields.simps [of step prev] bind_o_eq_Ok_iff split: if_splits)
    from 1(1) [OF h refl Some s(1) refl s(2) s(3)] s(2) show ?thesis by simp
  qed
qed

lemma remaining_read_page_header: "read_page_header cur = Ok (h, cur') \<Longrightarrow> remaining cur' < remaining cur"
  by (auto simp: read_page_header_def bind_r_def bind_o_eq_Ok_iff required_def return_r_def fail_r_def
      split: option.splits dest!: remaining_read_fields)

lemma next_page_shorter: "next_page w = Ok (Some p, w') \<Longrightarrow> remaining (pw_cur w') < remaining (pw_cur w)"
  by (fastforce simp: next_page_def Let_def bind_o_eq_Ok_iff split: if_splits
      dest: remaining_read_page_header remaining_take)

end
