(* ===== verification/ReadColumn.thy ===== *)
theory ReadColumn
  imports DictSpec Levels Plain FileRead Compression
begin

text \<open>
  The column readers of \<open>ematix-parquet-codec/src/read.rs\<close>: fetching a column chunk, viewing a data page of
  either version, the loops over the pages that decode a chunk densely, under a page mask or under a row
  mask.  A vector the code fills is the list it holds; \<open>reserve\<close> has no effect on it.
\<close>

section \<open>Fetching a chunk\<close>

definition io_to_codec :: "io_error \<Rightarrow> codec_error" where
  "io_to_codec e = InvalidInput (''io: '' @ io_error_text e)"

definition read_format_to_codec :: "format_error \<Rightarrow> codec_error" where
  "read_format_to_codec e = InvalidInput (''format: '' @ format_error_text e)"

definition get_o :: "codec_error \<Rightarrow> 'a list \<Rightarrow> nat \<Rightarrow> 'a codec_result" where
  "get_o e xs i = (if i < length xs then Ok (xs ! i) else Err e)"

definition chunk_at :: "file_metadata \<Rightarrow> nat \<Rightarrow> nat \<Rightarrow> column_chunk codec_result" where
  "chunk_at md rg column =
     bind_o (get_o (InvalidInput (''row group '' @ decimal rg @ '' out of range'')) (fm_row_groups md) rg) (\<lambda>g.
     get_o (InvalidInput (''column '' @ decimal column @ '' out of range'')) (rg_columns g) column)"

record chunk_info =
  ck_bytes :: bytes
  ck_total_values :: nat
  ck_codec :: compression_codec
  ck_max_rep_level :: u16
  ck_max_def_level :: u16

definition read_chunk_raw :: "parquet_file \<Rightarrow> nat \<Rightarrow> nat \<Rightarrow> chunk_info codec_result" where
  "read_chunk_raw file rg column =
     bind_o (map_err io_to_codec (file_metadata_of file)) (\<lambda>md.
     bind_o (chunk_at md rg column) (\<lambda>c.
     bind_o (ok_or (InvalidInput ''column missing inline meta_data'') (cc_meta_data c)) (\<lambda>cm.
     let start = as_usize (case cm_dictionary_page_offset cm of
             Some d \<Rightarrow> if sint d < sint (cm_data_page_offset cm) then d else cm_data_page_offset cm
           | None \<Rightarrow> cm_data_page_offset cm);
         len = as_usize (cm_total_compressed_size cm)
     in bind_o (map_err io_to_codec (read_range file start len)) (\<lambda>bs.
        bind_o (compute_max_levels (fm_schema md) column) (\<lambda>(max_rep, max_def).
        Ok \<lparr>ck_bytes = bs, ck_total_values = as_usize (cm_num_values cm), ck_codec = cm_codec cm,
            ck_max_rep_level = max_rep, ck_max_def_level = max_def\<rparr>)))))"

section \<open>Data pages\<close>

definition page_uncompressed_size :: "page_header \<Rightarrow> nat codec_result" where
  "page_uncompressed_size hdr =
     (let n = ph_uncompressed_page_size hdr
      in if sint n < 0 then Err (InvalidInput (''page header uncompressed_page_size is negative ('' @ decimal_signed n @ '')''))
      else Ok (as_usize n))"

definition no_page_header :: "'a codec_result" where
  "no_page_header = Err (InvalidInput ''data page missing both V1 and V2 header'')"

definition data_page_num_values :: "page_header \<Rightarrow> nat codec_result" where
  "data_page_num_values hdr =
     (case ph_data_page_header hdr of
        Some dph \<Rightarrow> Ok (as_usize (dh_num_values dph))
      | None \<Rightarrow> (case ph_data_page_header_v2 hdr of
          Some dph \<Rightarrow> Ok (as_usize (d2_num_values dph))
        | None \<Rightarrow> no_page_header))"

record data_page_info =
  dp_num_values :: nat
  dp_encoding :: encoding
  dp_values :: bytes

definition data_page_view :: "codecs \<Rightarrow> chunk_info \<Rightarrow> page_header \<Rightarrow> bytes \<Rightarrow> data_page_info codec_result" where
  "data_page_view ext ck hdr body =
     bind_o (page_uncompressed_size hdr) (\<lambda>uncompressed_size.
     case ph_data_page_header hdr of
       Some dph \<Rightarrow>
         bind_o (decompress_into ext (ck_codec ck) body uncompressed_size) (\<lambda>decomp.
         bind_o (if ck_max_rep_level ck = 0 \<and> ck_max_def_level ck = 0 then Ok decomp
                 else bind_o (skip_v1_level_prefixes decomp (ck_max_rep_level ck) (ck_max_def_level ck)) (\<lambda>off.
                      if off > length decomp then Panic ''range start index out of range'' else Ok (drop off decomp))) (\<lambda>vals.
         Ok \<lparr>dp_num_values = as_usize (dh_num_values dph), dp_encoding = dh_encoding dph, dp_values = vals\<rparr>))
     | None \<Rightarrow> (case ph_data_page_header_v2 hdr of
         Some dph \<Rightarrow>
           bind_o (add_usize (as_usize (d2_repetition_levels_byte_length dph)) (as_usize (d2_definition_levels_byte_length dph))) (\<lambda>prefix.
           if length body < prefix
           then Err (InvalidInput (''DataPageV2 body too short: '' @ decimal (length body) @ '' bytes, need '' @ decimal prefix @ '' for rep+def''))
           else let value_bytes = drop prefix body; values_uncompressed = uncompressed_size - prefix
           in bind_o (if d2_is_compressed dph \<and> ck_codec ck \<noteq> CC_Uncompressed
                      then decompress_into ext (ck_codec ck) value_bytes values_uncompressed
                      else Ok value_bytes) (\<lambda>vals.
              Ok \<lparr>dp_num_values = as_usize (d2_num_values dph), dp_encoding = d2_encoding dph, dp_values = vals\<rparr>))
       | None \<Rightarrow> no_page_header))"

section \<open>Loops over the pages\<close>

text \<open>\<open>while let Some((hdr, body)) = walker.next_page()? \{ \<dots> \}\<close>; the body says whether the loop goes on.\<close>

function walk_pages :: "('s \<Rightarrow> page_header \<Rightarrow> bytes \<Rightarrow> (bool \<times> 's) codec_result) \<Rightarrow> page_walker \<Rightarrow> 's \<Rightarrow> 's codec_result" where
  "walk_pages page walker s =
     bind_o (map_err io_to_codec (next_page walker)) (\<lambda>(p, walker').
     case p of
       None \<Rightarrow> Ok s
     | Some (hdr, body) \<Rightarrow> bind_o (page s hdr body) (\<lambda>(go, s').
         if go then walk_pages page walker' s' else Ok s'))"
  by pat_completeness auto
termination
  by (relation "measure (\<lambda>(page, walker, s). remaining (pw_cur walker))") (auto dest: next_page_shorter)

declare walk_pages.simps [simp del]

fun encoding_name :: "encoding \<Rightarrow> string" where
  "encoding_name E_Plain = ''Plain''"
| "encoding_name E_PlainDictionary = ''PlainDictionary''"
| "encoding_name E_Rle = ''Rle''"
| "encoding_name E_BitPacked = ''BitPacked''"
| "encoding_name E_DeltaBinaryPacked = ''DeltaBinaryPacked''"
| "encoding_name E_DeltaLengthByteArray = ''DeltaLengthByteArray''"
| "encoding_name E_DeltaByteArray = ''DeltaByteArray''"
| "encoding_name E_RleDictionary = ''RleDictionary''"
| "encoding_name E_ByteStreamSplit = ''ByteStreamSplit''"

definition unknown_encoding :: "encoding \<Rightarrow> codec_error" where
  "unknown_encoding enc = Unsupported (''encoding not yet dispatched by fa'' @ [CHR 0xC3, CHR 0xA7] @ ''ade: '' @ encoding_name enc)"


text \<open>What a page does to the dictionary and the values decoded so far; \<open>gather\<close> decodes an index page.\<close>

definition dict_before_data :: codec_error where
  "dict_before_data = InvalidInput ''dict-encoded data page before dictionary''"

definition dense_page ::
  "codecs \<Rightarrow> chunk_info \<Rightarrow> (bytes \<Rightarrow> 'a list codec_result) \<Rightarrow> (bytes \<Rightarrow> 'a list \<Rightarrow> nat \<Rightarrow> 'a list \<Rightarrow> 'a list codec_result) \<Rightarrow>
   'a list \<times> 'a list \<Rightarrow> page_header \<Rightarrow> bytes \<Rightarrow> ('a list \<times> 'a list) codec_result" where
  "dense_page ext ck decode_plain gather_page s hdr body =
     (case s of (dict, out) \<Rightarrow>
      (case ph_page_type hdr of
         PG_DictionaryPage \<Rightarrow>
           bind_o (page_uncompressed_size hdr) (\<lambda>n.
           bind_o (decompress_into ext (ck_codec ck) body n) (\<lambda>decomp.
           bind_o (decode_plain decomp) (\<lambda>dict. Ok (dict, out))))
       | PG_IndexPage \<Rightarrow> Ok (dict, out)
       | _ \<Rightarrow>
           bind_o (data_page_view ext ck hdr body) (\<lambda>info.
           case dp_encoding info of
             E_Plain \<Rightarrow> bind_o (decode_plain (dp_values info)) (\<lambda>vs. Ok (dict, out @ vs))
           | E_RleDictionary \<Rightarrow>
               if dict = [] then Err dict_before_data
               else bind_o (gather_page (dp_values info) dict (dp_num_values info) out) (\<lambda>out. Ok (dict, out))
           | E_PlainDictionary \<Rightarrow>
               if dict = [] then Err dict_before_data
               else bind_o (gather_page (dp_values info) dict (dp_num_values info) out) (\<lambda>out. Ok (dict, out))
           | other \<Rightarrow> Err (unknown_encoding other))))"

definition decode_chunk_into ::
  "codecs \<Rightarrow> parquet_file \<Rightarrow> nat \<Rightarrow> nat \<Rightarrow> (bytes \<Rightarrow> 'a list codec_result) \<Rightarrow> 'a list codec_result" where
  "decode_chunk_into ext file rg column decode_plain =
     bind_o (read_chunk_raw file rg column) (\<lambda>ck.
     bind_o (walk_pages (\<lambda>s hdr body.
         bind_o (dense_page ext ck decode_plain decode_rle_dictionary_into s hdr body) (\<lambda>(dict, out).
         Ok (length out < ck_total_values ck, (dict, out))))
       (page_walker_new (ck_bytes ck)) ([], [])) (\<lambda>(dict, out). Ok out))"

text \<open>The same under a mask over the data pages.\<close>

definition decode_chunk_masked_into ::
  "codecs \<Rightarrow> parquet_file \<Rightarrow> nat \<Rightarrow> nat \<Rightarrow> bool list option \<Rightarrow> (bytes \<Rightarrow> 'a list codec_result) \<Rightarrow> 'a list codec_result" where
  "decode_chunk_masked_into ext file rg column page_mask decode_plain =
     bind_o (read_chunk_raw file rg column) (\<lambda>ck.
     bind_o (walk_pages (\<lambda>(data_page_ix, s) hdr body.
         let is_data = ph_page_type hdr = PG_DataPage \<or> ph_page_type hdr = PG_DataPageV2;
             keep = (case page_mask of None \<Rightarrow> True
                     | Some m \<Rightarrow> if data_page_ix < length m then m ! data_page_ix else True);
             data_page_ix = (if is_data then data_page_ix + 1 else data_page_ix)
         in if is_data \<and> \<not> keep then Ok (True, (data_page_ix, s))
            else bind_o (dense_page ext ck decode_plain decode_rle_dictionary_into s hdr body) (\<lambda>(dict, out).
                 Ok (\<not> (page_mask = None \<and> length out \<ge> ck_total_values ck), (data_page_ix, dict, out))))
       (page_walker_new (ck_bytes ck)) (0, [], [])) (\<lambda>(data_page_ix, dict, out). Ok out))"

section \<open>Row masks\<close>

definition popcount_mask_range :: "bytes \<Rightarrow> nat \<Rightarrow> nat \<Rightarrow> ('e, nat) outcome" where
  "popcount_mask_range = popcount_range"

definition mask_too_small :: "bytes \<Rightarrow> nat \<Rightarrow> nat \<Rightarrow> codec_error" where
  "mask_too_small msk total_values required_mask_bytes =
     InvalidInput (''mask too small: '' @ decimal (length msk) @ '' bytes for '' @ decimal total_values @ '' rows (need '' @
       geq_sign @ '' '' @ decimal required_mask_bytes @ '')'')"

text \<open>One page of a row-masked read: \<open>sparse\<close> decodes the masked rows of a PLAIN page, \<open>gather_page\<close> those of
  a page of indices; pages with no row of the mask are not decompressed.\<close>

definition masked_page ::
  "codecs \<Rightarrow> chunk_info \<Rightarrow> bytes \<Rightarrow> (bytes \<Rightarrow> 'd list codec_result) \<Rightarrow> (bytes \<Rightarrow> nat \<Rightarrow> bytes \<Rightarrow> nat \<Rightarrow> 'o \<Rightarrow> 'o codec_result) \<Rightarrow>
   (bytes \<Rightarrow> nat \<Rightarrow> bytes \<Rightarrow> nat \<Rightarrow> 'd list \<Rightarrow> 'o \<Rightarrow> 'o codec_result) \<Rightarrow>
   'd list \<times> 'o \<times> nat \<Rightarrow> page_header \<Rightarrow> bytes \<Rightarrow> (bool \<times> 'd list \<times> 'o \<times> nat) codec_result" where
  "masked_page ext ck msk full_decode sparse_decode gather_page s hdr body =
     (case s of (dict, out, row_cursor) \<Rightarrow>
      (case ph_page_type hdr of
         PG_DictionaryPage \<Rightarrow>
           bind_o (page_uncompressed_size hdr) (\<lambda>n.
           bind_o (decompress_into ext (ck_codec ck) body n) (\<lambda>decomp.
           bind_o (full_decode decomp) (\<lambda>dict. Ok (True, dict, out, row_cursor))))
       | PG_IndexPage \<Rightarrow> Ok (True, dict, out, row_cursor)
       | _ \<Rightarrow>
           bind_o (data_page_num_values hdr) (\<lambda>page_n.
           bind_o (add_usize row_cursor page_n) (\<lambda>row_end.
           bind_o (popcount_mask_range msk row_cursor row_end) (\<lambda>matched_in_page.
           if matched_in_page = 0 then Ok (row_end < ck_total_values ck, dict, out, row_end)
           else bind_o (data_page_view ext ck hdr body) (\<lambda>info.
             bind_o (case dp_encoding info of
                 E_Plain \<Rightarrow> sparse_decode (dp_values info) page_n msk row_cursor out
               | E_RleDictionary \<Rightarrow>
                   if dict = [] then Err dict_before_data else gather_page (dp_values info) page_n msk row_cursor dict out
               | E_PlainDictionary \<Rightarrow>
                   if dict = [] then Err dict_before_data else gather_page (dp_values info) page_n msk row_cursor dict out
               | other \<Rightarrow> Err (unknown_encoding other)) (\<lambda>out.
             Ok (row_end < ck_total_values ck, dict, out, row_end))))))))"

definition masked_chunk ::
  "codecs \<Rightarrow> parquet_file \<Rightarrow> nat \<Rightarrow> nat \<Rightarrow> bytes \<Rightarrow> (bytes \<Rightarrow> 'd list codec_result) \<Rightarrow>
   (bytes \<Rightarrow> nat \<Rightarrow> bytes \<Rightarrow> nat \<Rightarrow> 'o \<Rightarrow> 'o codec_result) \<Rightarrow>
   (bytes \<Rightarrow> nat \<Rightarrow> bytes \<Rightarrow> nat \<Rightarrow> 'd list \<Rightarrow> 'o \<Rightarrow> 'o codec_result) \<Rightarrow> 'o \<Rightarrow> 'o codec_result" where
  "masked_chunk ext file rg column msk full_decode sparse_decode gather_page out =
     bind_o (read_chunk_raw file rg column) (\<lambda>ck.
     let required_mask_bytes = div_ceil (ck_total_values ck) 8
     in if length msk < required_mask_bytes
        then Err (mask_too_small msk (ck_total_values ck) required_mask_bytes)
        else bind_o (walk_pages (masked_page ext ck msk full_decode sparse_decode gather_page)
               (page_walker_new (ck_bytes ck)) ([], out, 0)) (\<lambda>(dict, out, row_cursor). Ok out))"

definition decode_chunk_row_masked_into ::
  "codecs \<Rightarrow> parquet_file \<Rightarrow> nat \<Rightarrow> nat \<Rightarrow> bytes \<Rightarrow> (bytes \<Rightarrow> 'a list codec_result) \<Rightarrow>
   (bytes \<Rightarrow> nat \<Rightarrow> bytes \<Rightarrow> nat \<Rightarrow> 'a list \<Rightarrow> 'a list codec_result) \<Rightarrow> 'a list \<Rightarrow> 'a list codec_result" where
  "decode_chunk_row_masked_into ext file rg column msk full_decode sparse_decode out =
     masked_chunk ext file rg column msk full_decode sparse_decode gather_dict_at_bitmap_into out"

text \<open>\<open>mask[row / 8] |= 1 << (row % 8)\<close> for the rows the predicate accepts.\<close>

definition build_packed_mask :: "nat \<Rightarrow> (nat \<Rightarrow> bool) \<Rightarrow> ('e, bytes) outcome" where
  "build_packed_mask num_rows pred =
     fold_o (\<lambda>msk row. if pred row
         then bind_o (index_o msk (row div 8)) (\<lambda>b. set_o msk (row div 8) (b OR push_bit (row mod 8) 1)) else Ok msk)
       (replicate (div_ceil num_rows 8) 0) [0..<num_rows]"

section \<open>The readers of a column\<close>

definition read_column_i64 :: "codecs \<Rightarrow> parquet_file \<Rightarrow> nat \<Rightarrow> nat \<Rightarrow> i64 list codec_result" where
  "read_column_i64 ext file rg column = decode_chunk_into ext file rg column decode_plain_i64"

definition read_column_i32 :: "codecs \<Rightarrow> parquet_file \<Rightarrow> nat \<Rightarrow> nat \<Rightarrow> i32 list codec_result" where
  "read_column_i32 ext file rg column = decode_chunk_into ext file rg column decode_plain_i32"

definition read_column_f64 :: "codecs \<Rightarrow> parquet_file \<Rightarrow> nat \<Rightarrow> nat \<Rightarrow> 64 word list codec_result" where
  "read_column_f64 ext file rg column = decode_chunk_into ext file rg column decode_plain_f64"

definition read_column_i64_masked_into ::
  "codecs \<Rightarrow> parquet_file \<Rightarrow> nat \<Rightarrow> nat \<Rightarrow> bytes \<Rightarrow> i64 list \<Rightarrow> i64 list codec_result" where
  "read_column_i64_masked_into ext file rg column msk out =
     decode_chunk_row_masked_into ext file rg column msk decode_plain_i64 plain_sparse_decode_i64_into out"

definition read_column_i32_masked_into ::
  "codecs \<Rightarrow> parquet_file \<Rightarrow> nat \<Rightarrow> nat \<Rightarrow> bytes \<Rightarrow> i32 list \<Rightarrow> i32 list codec_result" where
  "read_column_i32_masked_into ext file rg column msk out =
     decode_chunk_row_masked_into ext file rg column msk decode_plain_i32 plain_sparse_decode_i32_into out"

definition read_column_f64_masked_into ::
  "codecs \<Rightarrow> parquet_file \<Rightarrow> nat \<Rightarrow> nat \<Rightarrow> bytes \<Rightarrow> 64 word list \<Rightarrow> 64 word list codec_result" where
  "read_column_f64_masked_into ext file rg column msk out =
     decode_chunk_row_masked_into ext file rg column msk decode_plain_f64 plain_sparse_decode_f64_into out"

definition read_column_byte_array_masked_into ::
  "codecs \<Rightarrow> parquet_file \<Rightarrow> nat \<Rightarrow> nat \<Rightarrow> bytes \<Rightarrow> bytes list \<Rightarrow> bytes list codec_result" where
  "read_column_byte_array_masked_into ext file rg column msk out =
     masked_chunk ext file rg column msk decode_plain_byte_array plain_sparse_decode_byte_array_into
       gather_dict_at_bitmap_into out"

text \<open>Byte arrays: the indices are decoded and looked up one by one.\<close>

definition gather_byte_arrays :: "bytes \<Rightarrow> bytes list \<Rightarrow> nat \<Rightarrow> bytes list \<Rightarrow> bytes list codec_result" where
  "gather_byte_arrays vals dict num_values out =
     bind_o (decode_rle_dictionary_indices vals num_values) (\<lambda>indices.
     fold_o (\<lambda>out idx. bind_o (get_o (InvalidInput ''dictionary index out of range'') dict (unat idx)) (\<lambda>v. Ok (out @ [v])))
       out indices)"

definition read_column_byte_array :: "codecs \<Rightarrow> parquet_file \<Rightarrow> nat \<Rightarrow> nat \<Rightarrow> bytes list codec_result" where
  "read_column_byte_array ext file rg column =
     bind_o (read_chunk_raw file rg column) (\<lambda>ck.
     bind_o (walk_pages (\<lambda>s hdr body.
         bind_o (dense_page ext ck decode_plain_byte_array gather_byte_arrays s hdr body) (\<lambda>(dict, out).
         Ok (length out < ck_total_values ck, (dict, out))))
       (page_walker_new (ck_bytes ck)) ([], [])) (\<lambda>(dict, out). Ok out))"

text \<open>The masked rows as concatenated bytes and end offsets, appended to the caller's.\<close>

definition offsets_row :: "bytes \<Rightarrow> nat \<Rightarrow> bytes list \<Rightarrow> u32 \<times> bytes \<times> u32 list \<Rightarrow> nat \<times> u32 \<Rightarrow> (u32 \<times> bytes \<times> u32 list) codec_result" where
  "offsets_row msk row_cursor dict s r =
     (case s of (running, out_bytes, out_offsets) \<Rightarrow> case r of (row, idx) \<Rightarrow>
      bind_o (mask_bit msk (row_cursor + row)) (\<lambda>b.
      if b then bind_o (dict_entry dict idx) (\<lambda>v.
        let n = unat (of_nat (length v) :: u32)
        in if unat running + n < 2 ^ 32
           then Ok (running + of_nat n, out_bytes @ v, out_offsets @ [running + of_nat n])
           else Err (InvalidInput ''byte_array masked-decode: offset overflow > u32::MAX''))
      else Ok (running, out_bytes, out_offsets)))"

definition gather_offsets :: "bytes \<Rightarrow> nat \<Rightarrow> bytes \<Rightarrow> nat \<Rightarrow> bytes list \<Rightarrow> bytes \<times> u32 list \<Rightarrow> (bytes \<times> u32 list) codec_result" where
  "gather_offsets vals page_n msk row_cursor dict out =
     (case out of (out_bytes, out_offsets) \<Rightarrow>
      bind_o (decode_rle_dictionary_indices vals page_n) (\<lambda>indices.
      bind_o (if out_offsets = [] then Panic ''called `Option::unwrap()` on a `None` value'' else Ok (last out_offsets)) (\<lambda>running.
      bind_o (fold_o (offsets_row msk row_cursor dict) (running, out_bytes, out_offsets) (enumerate 0 indices)) (\<lambda>(running, out).
      Ok out))))"

definition read_column_byte_array_offsets_masked_into ::
  "codecs \<Rightarrow> parquet_file \<Rightarrow> nat \<Rightarrow> nat \<Rightarrow> bytes \<Rightarrow> bytes \<times> u32 list \<Rightarrow> (bytes \<times> u32 list) codec_result" where
  "read_column_byte_array_offsets_masked_into ext file rg column msk out =
     masked_chunk ext file rg column msk decode_plain_byte_array
       (\<lambda>vals page_n msk row_cursor (out_bytes, out_offsets).
          plain_sparse_decode_byte_array_offsets_into vals page_n msk row_cursor out_bytes out_offsets)
       gather_offsets (fst out, if snd out = [] then [0] else snd out)"

end
