(* ===== verification/PageProofs.thy ===== *)
theory PageProofs
  imports WriteTable ReadColumn CompressionSpec MetadataRoundtrip
begin

text \<open>
  Pages, from the writer's side to the reader's: a page the writer stamps is the next page of the walker, a
  loop over the pages of a chunk is a fold over the list of pages, and the view of a written data page is
  the body it was made of.
\<close>

section \<open>Casts\<close>

lemma sint_small_i32: "n < 2 ^ 31 \<Longrightarrow> sint (of_nat n :: i32) = int n"
  by (simp add: signed_of_nat signed_take_bit_int_eq_self)

lemma sint_small_i64: "n < 2 ^ 63 \<Longrightarrow> sint (of_nat n :: i64) = int n"
  by (simp add: signed_of_nat signed_take_bit_int_eq_self)

lemma as_usize_nonneg: "0 \<le> sint w \<Longrightarrow> sint w = int n \<Longrightarrow> n < 2 ^ 64 \<Longrightarrow> as_usize w = n"
  by (simp add: as_usize_def scast_eq unsigned_of_nat take_bit_nat_eq_self)

lemma as_usize_of_nat_i32: "n < 2 ^ 31 \<Longrightarrow> as_usize (of_nat n :: i32) = n"
  by (rule as_usize_nonneg) (simp_all only: sint_small_i32, simp)

lemma as_usize_of_nat_i64: "n < 2 ^ 63 \<Longrightarrow> as_usize (of_nat n :: i64) = n"
  by (rule as_usize_nonneg) (simp_all only: sint_small_i64, simp)

section \<open>The walker over written pages\<close>

type_synonym page = "page_header \<times> bytes"

definition page_bytes :: "page \<Rightarrow> bytes" where
  "page_bytes p = write_page_header (fst p) @ snd p"

definition page_ok :: "page \<Rightarrow> bool" where
  "page_ok p \<longleftrightarrow> good_page_header (fst p) \<and> as_usize (ph_compressed_page_size (fst p)) = length (snd p)"

text \<open>The loop over a list of pages.\<close>

fun run_pages :: "('s \<Rightarrow> page_header \<Rightarrow> bytes \<Rightarrow> (bool \<times> 's) codec_result) \<Rightarrow> 's \<Rightarrow> page list \<Rightarrow> 's codec_result" where
  "run_pages page s [] = Ok s"
| "run_pages page s (p # ps) = bind_o (page s (fst p) (snd p)) (\<lambda>(go, s'). if go then run_pages page s' ps else Ok s')"

lemma reads_page_header: "good_page_header h \<Longrightarrow> reads read_page_header (write_page_header h) h"
  using codec_page_header [of h] by (auto simp: codec_def write_page_header_def dest!: spec [of _ "[]"])

lemma page_header_nonempty: "good_page_header h \<Longrightarrow> write_page_header h \<noteq> []"
proof
  assume "good_page_header h" "write_page_header h = []"
  then have "reads read_page_header [] h" using reads_page_header by metis
  then have "read_page_header (cursor_new []) = Ok (h, cursor_new [])"
    using readsD [of read_page_header "[]" h "cursor_new []" "[]"] by (simp add: rest_def cursor_new_def)
  then show False using remaining_read_page_header by blast
qed

lemma next_page_written:
  assumes "page_ok p" and "rest (pw_cur w) = page_bytes p @ post" and "position (pw_cur w) < pw_end_offset w"
  shows "next_page w = Ok (Some p, w\<lparr>pw_cur := adv (pw_cur w) (length (page_bytes p))\<rparr>)"
proof -
  have r: "rest (pw_cur w) = write_page_header (fst p) @ snd p @ post" using assms(2) by (simp add: page_bytes_def)
  from assms(1) have good: "good_page_header (fst p)" "as_usize (ph_compressed_page_size (fst p)) = length (snd p)"
    by (simp_all add: page_ok_def)
  note hdr = readsD [OF reads_page_header [OF good(1)] r] and body = readsD [OF reads_take rest_adv [OF r]]
  show ?thesis using assms(3) by (simp add: next_page_def hdr body good(2) page_bytes_def)
qed

lemma walk_pages_run:
  assumes "list_all page_ok ps" and "rest (pw_cur w) = concat (map page_bytes ps)"
    and "pw_end_offset w = position (pw_cur w) + length (rest (pw_cur w))"
  shows "walk_pages page w s = run_pages page s ps"
  using assms
proof (induction ps arbitrary: w s)
  case Nil
  then have "next_page w = Ok (None, w)" by (simp add: next_page_def)
  then show ?case by (simp add: walk_pages.simps [of page w])
next
  case (Cons p ps)
  let ?w = "w\<lparr>pw_cur := adv (pw_cur w) (length (page_bytes p))\<rparr>"
  have r: "rest (pw_cur w) = page_bytes p @ concat (map page_bytes ps)" using Cons.prems(2) by simp
  have "page_bytes p \<noteq> []" using Cons.prems(1) page_header_nonempty by (simp add: page_ok_def page_bytes_def)
  then have "position (pw_cur w) < pw_end_offset w" using Cons.prems(3) r by simp
  with next_page_written [OF _ r] Cons.prems(1) have n: "next_page w = Ok (Some p, ?w)" by simp
  have "walk_pages page ?w s' = run_pages page s' ps" for s'
  proof (rule Cons.IH)
    show r': "rest (pw_cur ?w) = concat (map page_bytes ps)" using rest_adv [OF r] by simp
    show "pw_end_offset ?w = position (pw_cur ?w) + length (rest (pw_cur ?w))"
      using Cons.prems(3) r r' by (simp add: position_def adv_def)
  qed (use Cons.prems(1) in simp)
  then show ?case by (simp add: walk_pages.simps [of page w] n split_beta cong: if_cong)
qed

lemma walk_chunk: "list_all page_ok ps \<Longrightarrow> walk_pages page (page_walker_new (concat (map page_bytes ps))) s = run_pages page s ps"
  by (rule walk_pages_run) (simp_all add: page_walker_new_def cursor_new_def rest_def position_def)

section \<open>Headers of written pages\<close>

definition stats_fit :: "column_stats \<Rightarrow> bool" where
  "stats_fit st \<longleftrightarrow> pred_option fits (cs_min st) \<and> pred_option fits (cs_max st)"

lemma good_as_statistics: "stats_fit st \<Longrightarrow> good_statistics (as_statistics st)"
  by (simp add: stats_fit_def good_statistics_def as_statistics_def)

lemma page_ok_dict: "length c < 2 ^ 31 \<Longrightarrow> page_ok (dict_page_header u (length c) n, c)"
  by (simp add: page_ok_def good_page_header_def dict_page_header_def as_usize_of_nat_i32)

lemma page_ok_v1: "length c < 2 ^ 31 \<Longrightarrow> stats_fit st \<Longrightarrow> page_ok (v1_page_header e u (length c) n st, c)"
  by (simp add: page_ok_def good_page_header_def good_data_page_header_def v1_page_header_def as_usize_of_nat_i32 good_as_statistics)

lemma page_ok_v2: "length c < 2 ^ 31 \<Longrightarrow> stats_fit st \<Longrightarrow> page_ok (v2_page_header u (length c) n z st, c)"
  by (simp add: page_ok_def good_page_header_def good_data_page_header_v2_def v2_page_header_def as_usize_of_nat_i32 good_as_statistics)

section \<open>Views of written pages\<close>

text \<open>A chunk of a flat, required column: no levels.\<close>

definition flat_chunk :: "chunk_info \<Rightarrow> compression_codec \<Rightarrow> bool" where
  "flat_chunk ck cdc \<longleftrightarrow> ck_codec ck = cdc \<and> ck_max_rep_level ck = 0 \<and> ck_max_def_level ck = 0"

text \<open>\<open>c\<close> is a body in the codec of its column, of a size the headers can hold.\<close>

definition body_in :: "codecs \<Rightarrow> compression_codec \<Rightarrow> bytes \<Rightarrow> bytes \<Rightarrow> bool" where
  "body_in ext cdc body c \<longleftrightarrow> compress_body ext body cdc = Ok c \<and> length body < 2 ^ 31 \<and>
     decompress_into ext cdc c (length body) = Ok body"

lemma body_in_Uncompressed: "body_in ext CC_Uncompressed body c \<Longrightarrow> c = body"
  by (simp add: body_in_def compress_body_def)

lemma page_uncompressed_size_of_nat:
  "ph_uncompressed_page_size h = of_nat n \<Longrightarrow> n < 2 ^ 31 \<Longrightarrow> page_uncompressed_size h = Ok n"
  by (simp add: page_uncompressed_size_def sint_small_i32 as_usize_of_nat_i32 del: of_nat_numeral)

lemma view_v1:
  assumes "flat_chunk ck cdc" and "body_in ext cdc body c" and "n < 2 ^ 31"
  shows "data_page_view ext ck (v1_page_header e (length body) m n st) c
    = Ok \<lparr>dp_num_values = n, dp_encoding = e, dp_values = body\<rparr>"
proof -
  have "page_uncompressed_size (v1_page_header e (length body) m n st) = Ok (length body)"
    using assms(2) by (intro page_uncompressed_size_of_nat) (simp_all add: v1_page_header_def body_in_def)
  then show ?thesis using assms
    by (simp add: data_page_view_def flat_chunk_def body_in_def v1_page_header_def as_usize_of_nat_i32)
qed

lemma view_v2:
  assumes "flat_chunk ck cdc" and "body_in ext cdc body c" and "n < 2 ^ 31"
  shows "data_page_view ext ck (v2_page_header (length body) m n (cdc \<noteq> CC_Uncompressed) st) c
    = Ok \<lparr>dp_num_values = n, dp_encoding = E_Plain, dp_values = body\<rparr>"
proof -
  have "page_uncompressed_size (v2_page_header (length body) m n (cdc \<noteq> CC_Uncompressed) st) = Ok (length body)"
    using assms(2) by (intro page_uncompressed_size_of_nat) (simp_all add: v2_page_header_def body_in_def)
  moreover have "as_usize (0 :: i32) = 0" by (simp add: as_usize_def)
  ultimately show ?thesis using assms body_in_Uncompressed [of ext body c]
    by (auto simp: data_page_view_def flat_chunk_def body_in_def v2_page_header_def as_usize_of_nat_i32 add_usize_def)
qed

lemma num_values_written:
  "n < 2 ^ 31 \<Longrightarrow> data_page_num_values (v1_page_header e u m n st) = Ok n"
  "n < 2 ^ 31 \<Longrightarrow> data_page_num_values (v2_page_header u m n z st) = Ok n"
  by (simp_all add: data_page_num_values_def v1_page_header_def v2_page_header_def as_usize_of_nat_i32)

end
