(* ===== verification/TableLayout.thy ===== *)
theory TableLayout
  imports PageProofs
begin

text \<open>
  Where the table writer puts things.  The sink's counter is the length of what was written; a column chunk
  is the bytes of its pages, at the offsets the footer will record, with the bloom filter behind it; the
  row groups follow each other in row order.  Each writing step only appends.
\<close>

section \<open>The sink\<close>

definition sink_ok :: "sink \<Rightarrow> bool" where
  "sink_ok sk \<longleftrightarrow> sk_written sk = of_nat (length (sk_out sk))"

lemma sink_ok_start: "sink_ok sink_start"
  by (simp add: sink_ok_def sink_start_def parquet_magic_def)

lemma sink_put [simp]:
  "sk_out (put_bytes bs sk) = sk_out sk @ bs" "sink_ok sk \<Longrightarrow> sink_ok (put_bytes bs sk)"
  by (simp_all add: put_bytes_def sink_ok_def)

lemma write_page_eq:
  assumes "sink_ok sk" and "write_page h c sk = (off, sk')"
  shows "off = of_nat (length (sk_out sk))" and "sk_out sk' = sk_out sk @ page_bytes (h, c)" and "sink_ok sk'"
  using assms by (auto simp: write_page_def page_bytes_def) (simp add: sink_ok_def)

section \<open>Column chunks\<close>

text \<open>What the writer makes of a column slice of \<open>rows\<close> rows.\<close>

definition written_plain :: "codecs \<Rightarrow> compression_codec \<Rightarrow> nat \<Rightarrow> column_data \<Rightarrow> page list \<Rightarrow> bool" where
  "written_plain ext cdc rows col ps \<longleftrightarrow> (\<exists>body c h. encode_plain col = (Ok body :: bytes codec_result) \<and>
     compress_body ext body cdc = Ok c \<and> ps = [(h, c)] \<and>
     (h = v1_page_header E_Plain (length body) (length c) rows (compute_stats col) \<or>
      h = v2_page_header (length body) (length c) rows (cdc \<noteq> CC_Uncompressed) (compute_stats col)))"

definition written_dict :: "codecs \<Rightarrow> compression_codec \<Rightarrow> nat \<Rightarrow> column_data \<Rightarrow> page list \<Rightarrow> bool" where
  "written_dict ext cdc rows col ps \<longleftrightarrow> (\<exists>dbody nd ixs dc w packed ic. encode_dict col = Some (dbody, nd, ixs) \<and>
     compress_body ext dbody cdc = Ok dc \<and> (min_bit_width_for_dict nd :: nat codec_result) = Ok w \<and>
     (encode_rle_bit_packed ixs w :: bytes codec_result) = Ok packed \<and> compress_body ext (of_nat w # packed) cdc = Ok ic \<and>
     ps = [(dict_page_header (length dbody) (length dc) nd, dc),
           (v1_page_header E_PlainDictionary (Suc (length packed)) (length ic) rows (compute_stats col), ic)])"

definition written_pages :: "codecs \<Rightarrow> compression_codec \<Rightarrow> nat \<Rightarrow> column_data \<Rightarrow> page list \<Rightarrow> bool" where
  "written_pages ext cdc rows col ps \<longleftrightarrow> written_plain ext cdc rows col ps \<or> written_dict ext cdc rows col ps"

text \<open>The same, with the writer's choice \<open>dict\<close> known.\<close>

definition written_as :: "codecs \<Rightarrow> bool \<Rightarrow> compression_codec \<Rightarrow> nat \<Rightarrow> column_data \<Rightarrow> page list \<Rightarrow> bool" where
  "written_as ext dict cdc rows col ps \<longleftrightarrow>
     (if dict then written_dict ext cdc rows col ps else written_plain ext cdc rows col ps)"

lemma written_as_pages: "written_as ext dict cdc rows col ps \<Longrightarrow> written_pages ext cdc rows col ps"
  by (simp add: written_as_def written_pages_def split: if_splits)

abbreviation chunk_bytes :: "page list \<Rightarrow> bytes" where
  "chunk_bytes ps \<equiv> concat (map page_bytes ps)"

text \<open>The offsets and the size recorded for the pages \<open>ps\<close> that start at \<open>start\<close>.\<close>

definition place_at :: "nat \<Rightarrow> page list \<Rightarrow> prepared_column \<Rightarrow> bool" where
  "place_at start ps p \<longleftrightarrow> pc_total_compressed_size p = of_nat (length (chunk_bytes ps)) \<and>
     (case pc_dictionary_page_offset p of
        None \<Rightarrow> pc_data_page_offset p = of_nat start
      | Some d \<Rightarrow> d = of_nat start \<and> pc_data_page_offset p = of_nat (start + length (page_bytes (hd ps))) \<and> length ps = 2)"

lemma write_plain_page_spec:
  assumes "sink_ok sk" and "encode_plain col = (Ok body :: bytes codec_result)"
    and "write_plain_page ext pv cdc rows (compute_stats col) body sk = Ok ((data_off, dict_off, tu, tc), sk')"
  shows "\<exists>ps. written_plain ext cdc rows col ps \<and> sk_out sk' = sk_out sk @ chunk_bytes ps \<and> sink_ok sk' \<and>
    dict_off = None \<and> data_off = of_nat (length (sk_out sk)) \<and> tc = of_nat (length (chunk_bytes ps))"
proof -
  from assms(3) obtain c where c: "compress_body ext body cdc = Ok c" by (auto simp: write_plain_page_def bind_o_eq_Ok_iff)
  let ?h = "case pv of Pages_V1 \<Rightarrow> v1_page_header E_Plain (length body) (length c) rows (compute_stats col)
    | Pages_V2 \<Rightarrow> v2_page_header (length body) (length c) rows (cdc \<noteq> CC_Uncompressed) (compute_stats col)"
  obtain off sk1 where p: "write_page ?h c sk = (off, sk1)" by fastforce
  note page = write_page_eq [OF assms(1) p]
  have "written_plain ext cdc rows col [(?h, c)]"
    unfolding written_plain_def using assms(2) c by (intro exI [of _ body] exI [of _ c] exI [of _ ?h]) (cases pv; simp)
  moreover have "data_off = off" "dict_off = None" "sk' = sk1" "tc = of_nat (length (chunk_bytes [(?h, c)]))"
    using assms(3) c p by (auto simp: write_plain_page_def Let_def page_bytes_def)
  ultimately show ?thesis using page by auto
qed

lemma write_dict_pages_spec:
  assumes "sink_ok sk" and "encode_dict col = Some d"
    and "write_dict_pages ext cdc rows (compute_stats col) d sk = Ok ((data_off, dict_off, tu, tc), sk')"
  shows "\<exists>ps. written_dict ext cdc rows col ps \<and> sk_out sk' = sk_out sk @ chunk_bytes ps \<and> sink_ok sk' \<and>
    dict_off = Some (of_nat (length (sk_out sk))) \<and>
    data_off = of_nat (length (sk_out sk) + length (page_bytes (hd ps))) \<and> tc = of_nat (length (chunk_bytes ps))"
proof -
  obtain dbody nd ixs where d: "d = (dbody, nd, ixs)" by (cases d)
  from assms(3) obtain dc w packed ic where steps: "compress_body ext dbody cdc = Ok dc"
    "(min_bit_width_for_dict nd :: nat codec_result) = Ok w" "(encode_rle_bit_packed ixs w :: bytes codec_result) = Ok packed"
    "compress_body ext (of_nat w # packed) cdc = Ok ic"
    by (auto simp: write_dict_pages_def d Let_def bind_o_eq_Ok_iff split_beta)
  let ?h1 = "dict_page_header (length dbody) (length dc) nd"
    and ?h2 = "v1_page_header E_PlainDictionary (Suc (length packed)) (length ic) rows (compute_stats col)"
  obtain off1 sk1 off2 sk2 where p: "write_page ?h1 dc sk = (off1, sk1)" "write_page ?h2 ic sk1 = (off2, sk2)" by fastforce
  note page1 = write_page_eq [OF assms(1) p(1)]
  note page2 = write_page_eq [OF page1(3) p(2)]
  have "written_dict ext cdc rows col [(?h1, dc), (?h2, ic)]"
    unfolding written_dict_def using assms(2) steps d by blast
  moreover have "data_off = off2" "dict_off = Some off1" "sk' = sk2" "tc = of_nat (length (chunk_bytes [(?h1, dc), (?h2, ic)]))"
    using assms(3) steps p by (auto simp: write_dict_pages_def d Let_def page_bytes_def)
  ultimately show ?thesis using page1 page2 by (intro exI [of _ "[(?h1, dc), (?h2, ic)]"]) simp
qed

text \<open>A chunk inside a file.\<close>

definition chunk_in ::
  "bytes \<Rightarrow> codecs \<Rightarrow> bool \<Rightarrow> compression_codec \<Rightarrow> nat \<Rightarrow> column_data \<Rightarrow> prepared_column \<Rightarrow> bool" where
  "chunk_in file ext dict cdc rows col p \<longleftrightarrow> pc_stats p = compute_stats col \<and>
     (\<exists>pre ps post. file = pre @ chunk_bytes ps @ post \<and> written_as ext dict cdc rows col ps \<and> place_at (length pre) ps p)"

lemma chunk_in_append: "chunk_in file ext dict cdc rows col p \<Longrightarrow> chunk_in (file @ bs) ext dict cdc rows col p"
  unfolding chunk_in_def by (metis append.assoc)

definition codec_of :: "table_options \<Rightarrow> nat \<Rightarrow> compression_codec" where
  "codec_of opts ix = (case wt_codec_per_column opts of None \<Rightarrow> wt_default_codec opts | Some cs \<Rightarrow> cs ! ix)"

lemma per_column_codec: "per_column (wt_default_codec opts) (wt_codec_per_column opts) ix = Ok cdc \<Longrightarrow> cdc = codec_of opts ix"
  by (auto simp: per_column_def codec_of_def index_o_def split: option.splits if_splits)

text \<open>Whether the options ask for a dictionary.\<close>

definition dict_chosen :: "table_options \<Rightarrow> nat \<Rightarrow> bool" where
  "dict_chosen opts ix = (case wt_dict_per_column opts of None \<Rightarrow> False | Some d \<Rightarrow> d ! ix)"

lemma per_column_dict: "per_column False (wt_dict_per_column opts) ix = Ok dict \<Longrightarrow> dict = dict_chosen opts ix"
  by (auto simp: per_column_def dict_chosen_def index_o_def split: option.splits if_splits)

lemma write_bloom_spec:
  "sink_ok sk \<Longrightarrow> write_bloom b sk = (r, sk') \<Longrightarrow> \<exists>bs. sk_out sk' = sk_out sk @ bs \<and> sink_ok sk'"
  by (auto simp: write_bloom_def split: option.splits)

lemma write_column_spec:
  assumes "sink_ok sk" and "write_column ext sbbf opts a b (sk, prepared) (ix, nm, col) = Ok (sk', prepared')"
  shows "\<exists>part p bs. column_slice col a b = (Ok part :: column_data codec_result) \<and> prepared' = prepared @ [p] \<and>
    sk_out sk' = sk_out sk @ bs \<and> sink_ok sk' \<and> chunk_in (sk_out sk') ext (dict_chosen opts ix) (codec_of opts ix) (b - a) part p"
proof -
  from assms(2) obtain part cdc fpp bloom is_dict xd where
    part: "column_slice col a b = (Ok part :: column_data codec_result)"
    and cdc: "per_column (wt_default_codec opts) (wt_codec_per_column opts) ix = (Ok cdc :: compression_codec codec_result)"
    and dict: "per_column False (wt_dict_per_column opts) ix = (Ok is_dict :: bool codec_result)"
    and place0: "(if is_dict then
                   (case encode_dict part of
                      None \<Rightarrow> Panic ''encode_dict None already rejected by precondition checks''
                    | Some d \<Rightarrow> write_dict_pages ext cdc (b - a) (compute_stats part) d sk)
                 else bind_o (encode_plain part) (\<lambda>body.
                      write_plain_page ext (wt_page_version opts) cdc (b - a) (compute_stats part) body sk)) = Ok xd"
    and rest0: "(case xd of (x, xa) \<Rightarrow> (case x of (data_off, dict_off, tu, tc) \<Rightarrow> \<lambda>sk.
         (let ((bloom_filter_offset, bloom_filter_length), sk) = write_bloom bloom sk
         in Ok (sk, prepared @ [\<lparr>
              pc_data_page_offset = data_off, pc_dictionary_page_offset = dict_off,
              pc_total_uncompressed_size = tu, pc_total_compressed_size = tc, pc_stats = compute_stats part,
              pc_bloom_filter_offset = bloom_filter_offset, pc_bloom_filter_length = bloom_filter_length\<rparr>]))) xa) =
         (Ok (sk', prepared') :: (sink \<times> prepared_column list) codec_result)"
    unfolding write_column_def Let_def bind_o_eq_Ok_iff prod.case by blast
  obtain data_off dict_off tu tc sk1 where xd: "xd = ((data_off, dict_off, tu, tc), sk1)" by (cases xd) auto
  note place = place0 [unfolded xd] and rest = rest0 [unfolded xd prod.case]
  have "\<exists>ps. written_as ext is_dict cdc (b - a) part ps \<and> sk_out sk1 = sk_out sk @ chunk_bytes ps \<and> sink_ok sk1 \<and>
      tc = of_nat (length (chunk_bytes ps)) \<and>
      (case dict_off of None \<Rightarrow> data_off = of_nat (length (sk_out sk))
       | Some d \<Rightarrow> d = of_nat (length (sk_out sk)) \<and> data_off = of_nat (length (sk_out sk) + length (page_bytes (hd ps))) \<and>
           length ps = 2)"
  proof (cases is_dict)
    case True
    then obtain d where d: "encode_dict part = Some d" using place by (auto split: option.splits)
    have w: "write_dict_pages ext cdc (b - a) (compute_stats part) d sk = Ok ((data_off, dict_off, tu, tc), sk1)"
      using place True d by simp
    from write_dict_pages_spec [OF assms(1) d w]
    obtain ps where ps: "written_dict ext cdc (b - a) part ps" "sk_out sk1 = sk_out sk @ chunk_bytes ps" "sink_ok sk1"
      "dict_off = Some (of_nat (length (sk_out sk)))" "data_off = of_nat (length (sk_out sk) + length (page_bytes (hd ps)))"
      "tc = of_nat (length (chunk_bytes ps))" by blast
    moreover have "length ps = 2" using ps(1) by (auto simp: written_dict_def)
    ultimately show ?thesis using True unfolding written_as_def by auto
  next
    case False
    then obtain body where e: "encode_plain part = (Ok body :: bytes codec_result)" using place by (auto simp: bind_o_eq_Ok_iff)
    have "write_plain_page ext (wt_page_version opts) cdc (b - a) (compute_stats part) body sk =
        Ok ((data_off, dict_off, tu, tc), sk1)"
      using place False e by simp
    from write_plain_page_spec [OF assms(1) e this] show ?thesis using False unfolding written_as_def by auto
  qed
  then obtain ps where ps: "written_as ext is_dict cdc (b - a) part ps" "sk_out sk1 = sk_out sk @ chunk_bytes ps" "sink_ok sk1"
      "tc = of_nat (length (chunk_bytes ps))"
      "case dict_off of None \<Rightarrow> data_off = of_nat (length (sk_out sk))
       | Some d \<Rightarrow> d = of_nat (length (sk_out sk)) \<and> data_off = of_nat (length (sk_out sk) + length (page_bytes (hd ps))) \<and> length ps = 2"
    by blast
  obtain bo bl sk2 where bl: "write_bloom bloom sk1 = ((bo, bl), sk2)" by (metis surj_pair)
  from write_bloom_spec [OF ps(3) bl] obtain bs where bs: "sk_out sk2 = sk_out sk1 @ bs" "sink_ok sk2" by blast
  let ?p = "\<lparr>pc_data_page_offset = data_off, pc_dictionary_page_offset = dict_off,
    pc_total_uncompressed_size = tu, pc_total_compressed_size = tc, pc_stats = compute_stats part,
    pc_bloom_filter_offset = bo, pc_bloom_filter_length = bl\<rparr>"
  have eq: "sk' = sk2" "prepared' = prepared @ [?p]" using rest by (simp_all add: bl)
  have "place_at (length (sk_out sk)) ps ?p" using ps(4,5) by (cases dict_off) (simp_all add: place_at_def)
  then have "chunk_in (sk_out sk @ chunk_bytes ps @ bs) ext is_dict cdc (b - a) part ?p"
    unfolding chunk_in_def using ps(1) by (intro conjI exI [of _ "sk_out sk"] exI [of _ ps] exI [of _ bs]) simp_all
  then show ?thesis using part eq bs ps(2) per_column_codec [OF cdc] per_column_dict [OF dict] by auto
qed

section \<open>Row groups\<close>

text \<open>The chunks of one row group, rows \<open>a\<close> to \<open>b\<close> of every column.\<close>

definition group_in :: "bytes \<Rightarrow> codecs \<Rightarrow> table_options \<Rightarrow> (bytes \<times> column_data) list \<Rightarrow> nat \<Rightarrow> nat \<Rightarrow> nat \<Rightarrow> prepared_column list \<Rightarrow> bool" where
  "group_in file ext opts columns n a b prepared \<longleftrightarrow> length prepared = length columns \<and>
     (\<forall>i < length columns. \<exists>part. column_slice (snd (columns ! i)) a b = (Ok part :: column_data codec_result) \<and>
        chunk_in file ext (dict_chosen opts (n + i)) (codec_of opts (n + i)) (b - a) part (prepared ! i))"

lemma group_in_append: "group_in file ext opts columns n a b prepared \<Longrightarrow> group_in (file @ bs) ext opts columns n a b prepared"
  unfolding group_in_def using chunk_in_append by blast

lemma write_columns_spec:
  assumes "sink_ok sk" and "fold_o (write_column ext sbbf opts a b) (sk, prepared) (enumerate n columns) = Ok (sk', prepared')"
  shows "\<exists>ps bs. prepared' = prepared @ ps \<and> sk_out sk' = sk_out sk @ bs \<and> sink_ok sk' \<and>
    group_in (sk_out sk') ext opts columns n a b ps"
  using assms
proof (induction columns arbitrary: sk prepared n)
  case Nil
  then show ?case by (simp add: group_in_def)
next
  case (Cons c columns)
  obtain nm col where c: "c = (nm, col)" by (cases c)
  from Cons.prems(2) c obtain st where st: "write_column ext sbbf opts a b (sk, prepared) (n, nm, col) = Ok st"
    "fold_o (write_column ext sbbf opts a b) st (enumerate (Suc n) columns) = Ok (sk', prepared')"
    by (auto simp: bind_o_eq_Ok_iff)
  obtain sk1 prepared1 where "st = (sk1, prepared1)" by (cases st)
  with st have st1: "write_column ext sbbf opts a b (sk, prepared) (n, nm, col) = Ok (sk1, prepared1)"
    "fold_o (write_column ext sbbf opts a b) (sk1, prepared1) (enumerate (Suc n) columns) = Ok (sk', prepared')" by simp_all
  from write_column_spec [OF Cons.prems(1) st1(1)] obtain part p bs where one:
    "column_slice col a b = (Ok part :: column_data codec_result)" "prepared1 = prepared @ [p]"
    "sk_out sk1 = sk_out sk @ bs" "sink_ok sk1" "chunk_in (sk_out sk1) ext (dict_chosen opts n) (codec_of opts n) (b - a) part p" by blast
  from Cons.IH [OF one(4) st1(2)] obtain ps bs' where more: "prepared' = prepared1 @ ps" "sk_out sk' = sk_out sk1 @ bs'"
    "sink_ok sk'" "group_in (sk_out sk') ext opts columns (Suc n) a b ps" by blast
  have "chunk_in (sk_out sk') ext (dict_chosen opts n) (codec_of opts n) (b - a) part p" using chunk_in_append [OF one(5)] more(2) by simp
  then have "group_in (sk_out sk') ext opts (c # columns) n a b (p # ps)"
    using more(4) one(1) c by (auto simp: group_in_def nth_Cons split: nat.splits)
  then show ?case using one more by auto
qed

text \<open>Row group \<open>g\<close> of a table holds rows \<open>row_from g\<close> to \<open>row_from (g + 1)\<close>.\<close>

definition row_from :: "nat \<Rightarrow> nat \<Rightarrow> nat \<Rightarrow> nat" where
  "row_from rows n g = min (g * n) rows"

definition group_count :: "nat \<Rightarrow> nat \<Rightarrow> nat" where
  "group_count rows n = (if rows = 0 then 1 else div_ceil rows n)"

lemma group_count_eq:
  assumes "gs \<noteq> []" and "row_from rows n (length gs) = rows" and "length gs \<le> 1 \<or> row_from rows n (length gs - 1) < rows"
  shows "length gs = group_count rows n"
proof -
  obtain k where k: "length gs = Suc k" using assms(1) by (cases gs) auto
  then have hi: "rows \<le> Suc k * n" and lo: "k = 0 \<or> k * n < rows" using assms(2,3) by (auto simp: row_from_def)
  show ?thesis
  proof (cases "rows = 0")
    case True
    then show ?thesis using k lo by (simp add: group_count_def)
  next
    case False
    then have n: "0 < n" using hi by (cases n) auto
    define p where "p = k * n"
    have lo': "p < rows" and hi': "rows \<le> n + p" using lo hi False by (auto simp: p_def)
    have "n * Suc k = n + p" "n * Suc (Suc k) = n + (n + p)" by (simp_all add: p_def)
    moreover have "n + p \<le> rows + n - 1" "rows + n - 1 < n + (n + p)" using lo' hi' n by linarith+
    ultimately have "n * Suc k \<le> rows + n - 1" "rows + n - 1 < n * Suc (Suc k)" by (simp_all only:)
    then have "(rows + n - 1) div n = Suc k" by (rule div_nat_eqI)
    then show ?thesis using k False by (simp add: group_count_def div_ceil_def)
  qed
qed

definition groups_in :: "bytes \<Rightarrow> codecs \<Rightarrow> table_options \<Rightarrow> (bytes \<times> column_data) list \<Rightarrow> nat \<Rightarrow> prepared_group list \<Rightarrow> bool" where
  "groups_in file ext opts columns rows groups \<longleftrightarrow> (\<forall>g < length groups.
     let a = row_from rows (wt_row_group_size opts) g; b = row_from rows (wt_row_group_size opts) (Suc g)
     in fst (groups ! g) = b - a \<and> group_in file ext opts columns 0 a b (snd (groups ! g)))"

lemma groups_in_append: "groups_in file ext opts columns rows groups \<Longrightarrow> groups_in (file @ bs) ext opts columns rows groups"
  unfolding groups_in_def Let_def using group_in_append by blast

lemma groups_in_snoc:
  assumes "groups_in file ext opts columns rows groups"
    and "n = row_from rows (wt_row_group_size opts) (Suc (length groups)) - row_from rows (wt_row_group_size opts) (length groups)"
    and "group_in file ext opts columns 0 (row_from rows (wt_row_group_size opts) (length groups))
      (row_from rows (wt_row_group_size opts) (Suc (length groups))) prepared"
  shows "groups_in file ext opts columns rows (groups @ [(n, prepared)])"
  using assms by (auto simp: groups_in_def Let_def nth_append less_Suc_eq)

lemma write_row_groups_spec:
  assumes "write_row_groups ext sbbf opts columns rows sk groups row_start emitted = Ok (sk', groups')"
    and "sink_ok sk" and "0 < wt_row_group_size opts"
    and "groups_in (sk_out sk) ext opts columns rows groups"
    and "row_start = row_from rows (wt_row_group_size opts) (length groups)" and "emitted \<longleftrightarrow> groups \<noteq> []"
    and "length groups \<le> 1 \<or> row_from rows (wt_row_group_size opts) (length groups - 1) < rows"
  shows "\<exists>bs. sk_out sk' = sk_out sk @ bs \<and> sink_ok sk' \<and> length groups' = group_count rows (wt_row_group_size opts) \<and>
    groups_in (sk_out sk') ext opts columns rows groups'"
  using assms
proof (induction ext sbbf opts columns rows sk groups row_start emitted rule: write_row_groups.induct)
  case (1 ext sbbf opts columns rows sk groups row_start emitted)
  let ?size = "wt_row_group_size opts"
  show ?case
  proof (cases "row_start < rows \<or> \<not> emitted")
    case False
    then have "sk' = sk" "groups' = groups" "groups \<noteq> []" using 1(2,7) by (auto simp: write_row_groups.simps [of ext])
    moreover have "row_from rows ?size (length groups) = rows" using False 1(6) by (auto simp: row_from_def min_def)
    ultimately show ?thesis using 1(3,5) group_count_eq [of groups rows ?size] 1(8) by simp
  next
    case True
    let ?b = "row_from rows ?size (Suc (length groups))"
    from 1(2) True obtain row_end sk1 prepared where
      e: "(if rows = 0 then Ok 0 else bind_o (add_usize row_start ?size) (\<lambda>e. Ok (min e rows))) = (Ok row_end :: nat codec_result)"
      and f: "fold_o (write_column ext sbbf opts row_start row_end) (sk, []) (enumerate 0 columns) = Ok (sk1, prepared)"
      and go: "\<not> (row_end \<le> row_start \<and> row_start < rows)"
      and rest: "write_row_groups ext sbbf opts columns rows sk1 (groups @ [(row_end - row_start, prepared)]) row_end True = Ok (sk', groups')"
      by (subst (asm) write_row_groups.simps, subst (asm) if_P [OF True])
        (auto simp: bind_o_eq_Ok_iff simp del: fold_o.simps split del: if_split split: if_split_asm prod.split_asm)
    have end_: "row_end = ?b"
    proof (cases "row_start < rows")
      case True
      then show ?thesis using e 1(6) by (auto simp: row_from_def add_usize_def bind_o_eq_Ok_iff algebra_simps min_def split: if_splits)
    next
      case False
      then have "groups = []" "rows = 0" using \<open>row_start < rows \<or> \<not> emitted\<close> 1(6,7) by (auto simp: row_from_def)
      then show ?thesis using e by (simp add: row_from_def)
    qed
    from write_columns_spec [OF 1(3) f] obtain bs where w: "sk_out sk1 = sk_out sk @ bs" "sink_ok sk1"
      "group_in (sk_out sk1) ext opts columns 0 row_start row_end prepared" by auto
    have g: "groups_in (sk_out sk1) ext opts columns rows (groups @ [(row_end - row_start, prepared)])"
      using groups_in_snoc [of "sk_out sk1" ext opts columns rows groups "row_end - row_start" prepared]
        groups_in_append [OF 1(5)] w end_ 1(6) by simp
    have "length (groups @ [(row_end - row_start, prepared)]) \<le> 1 \<or>
        row_from rows ?size (length (groups @ [(row_end - row_start, prepared)]) - 1) < rows"
      using True 1(6,7) by auto
    from 1(1) [OF True e f refl go rest w(2) 1(4) g _ _ this] end_ w(1) show ?thesis by auto
  qed
qed

end
