(* ===== verification/ColumnDict.thy ===== *)
theory ColumnDict
  imports ColumnData
begin

text \<open>
  The dictionary builder of the writer: the hash map always sends a key to the slot of its first
  occurrence, so the dictionary has no duplicates and looking the indices up in it gives the values back.
\<close>

text \<open>The loop invariant, after the values \<open>seen\<close> of the column \<open>vs\<close>.\<close>

definition dict_inv :: "('a \<Rightarrow> 'k) \<Rightarrow> 'a list \<Rightarrow> 'a list \<Rightarrow> ('k \<rightharpoonup> u32) \<Rightarrow> nat list \<Rightarrow> u32 list \<Rightarrow> bool" where
  "dict_inv key_of vs seen m positions indices \<longleftrightarrow>
     length positions \<le> length seen \<and> (\<forall>p \<in> set positions. p < length vs) \<and>
     distinct (map (\<lambda>p. key_of (vs ! p)) positions) \<and>
     (\<forall>k i. m k = Some i \<longleftrightarrow> unat i < length positions \<and> key_of (vs ! (positions ! unat i)) = k) \<and>
     list_all2 (\<lambda>v i. unat i < length positions \<and> key_of (vs ! (positions ! unat i)) = key_of v) seen indices"

lemma dict_inv_start: "dict_inv key_of vs [] Map.empty [] []"
  by (simp add: dict_inv_def)

lemma dict_inv_known:
  assumes "dict_inv key_of vs seen m positions indices" and "m (key_of v) = Some i"
  shows "dict_inv key_of vs (seen @ [v]) m positions (indices @ [i])"
proof -
  have "unat i < length positions \<and> key_of (vs ! (positions ! unat i)) = key_of v"
    using assms unfolding dict_inv_def by blast
  then show ?thesis using assms(1) unfolding dict_inv_def by (auto intro: list_all2_appendI)
qed

lemma dict_inv_new:
  assumes inv: "dict_inv key_of vs seen m positions indices" and new: "m (key_of v) = None"
    and v: "length seen < length vs" "vs ! length seen = v" "length vs \<le> 2 ^ 32"
  shows "dict_inv key_of vs (seen @ [v]) (m(key_of v \<mapsto> of_nat (length positions))) (positions @ [length seen])
    (indices @ [of_nat (length positions)])"
proof -
  from inv have len: "length positions \<le> length seen" by (simp add: dict_inv_def)
  then have i: "unat (of_nat (length positions) :: u32) = length positions"
    using v by (simp add: unsigned_of_nat take_bit_nat_eq_self)
  have fresh: "key_of (vs ! p) \<noteq> key_of v" if "p \<in> set positions" for p
  proof -
    from that obtain j where j: "j < length positions" "positions ! j = p" by (auto simp: in_set_conv_nth)
    then have "unat (of_nat j :: u32) = j" using len v by (simp add: unsigned_of_nat take_bit_nat_eq_self)
    moreover have "m (key_of v) \<noteq> Some (of_nat j)" using new by simp
    ultimately show ?thesis using inv j unfolding dict_inv_def by metis
  qed
  have keys: "(m(key_of v \<mapsto> of_nat (length positions))) k = Some i' \<longleftrightarrow>
      unat i' < length (positions @ [length seen]) \<and> key_of (vs ! ((positions @ [length seen]) ! unat i')) = k" for k i'
  proof (cases "unat i' = length positions")
    case True
    then have "i' = of_nat (length positions)" by (simp flip: True)
    moreover have "m k \<noteq> Some i'" using inv True unfolding dict_inv_def by (metis less_irrefl)
    ultimately show ?thesis using True v(2) by (auto simp: nth_append)
  next
    case False
    then have "i' \<noteq> of_nat (length positions)" using i by auto
    moreover have "m k = Some i' \<longleftrightarrow> unat i' < length positions \<and> key_of (vs ! (positions ! unat i')) = k"
      using inv unfolding dict_inv_def by blast
    moreover have "key_of (vs ! (positions ! unat i')) \<noteq> key_of v" if "unat i' < length positions"
      using fresh that by simp
    ultimately show ?thesis using False by (auto simp: nth_append)
  qed
  have out: "key_of v \<notin> (\<lambda>p. key_of (vs ! p)) ` set positions" using fresh by (metis imageE)
  have old: "list_all2 (\<lambda>w i. unat i < length (positions @ [length seen]) \<and>
      key_of (vs ! ((positions @ [length seen]) ! unat i)) = key_of w) seen indices"
    using inv unfolding dict_inv_def by (auto elim!: list_all2_mono simp: nth_append)
  show ?thesis
    unfolding dict_inv_def
  proof (intro conjI)
    show "distinct (map (\<lambda>p. key_of (vs ! p)) (positions @ [length seen]))"
      using inv out v(2) by (simp add: dict_inv_def)
    show "\<forall>p \<in> set (positions @ [length seen]). p < length vs" using inv v(1) by (auto simp: dict_inv_def)
    show "list_all2 (\<lambda>v i. unat i < length (positions @ [length seen]) \<and>
        key_of (vs ! ((positions @ [length seen]) ! unat i)) = key_of v) (seen @ [v]) (indices @ [of_nat (length positions)])"
      using old v(2) by (intro list_all2_appendI) (simp_all add: i del: unat_of_nat)
  qed (use len keys in auto)
qed

lemma dict_scan_inv:
  assumes "dict_inv key_of vs seen m positions indices" and "vs = seen @ todo" and "length vs \<le> 2 ^ 32"
  shows "\<exists>m'. dict_inv key_of vs vs m' (fst (dict_scan key_of m positions indices (enumerate (length seen) todo)))
    (snd (dict_scan key_of m positions indices (enumerate (length seen) todo)))"
  using assms
proof (induction todo arbitrary: seen m positions indices)
  case (Cons v todo)
  have step: "vs = (seen @ [v]) @ todo" using Cons.prems(2) by simp
  show ?case
  proof (cases "m (key_of v)")
    case None
    have "length seen < length vs" "vs ! length seen = v" using Cons.prems(2) by simp_all
    from Cons.IH [OF dict_inv_new [OF Cons.prems(1) None this Cons.prems(3)] step Cons.prems(3)] show ?thesis
      using None by (simp add: Let_def del: fun_upd_apply)
  next
    case (Some i)
    from Cons.IH [OF dict_inv_known [OF Cons.prems(1) Some] step Cons.prems(3)] show ?thesis
      using Some by (simp add: Let_def)
  qed
qed auto

text \<open>The dictionary of a column, with keys that tell the values apart.\<close>

lemma build_dict_with_ok:
  assumes "length vs \<le> 2 ^ 32" and "build_dict_with vs key_of = (positions, indices)" and "inj key_of"
  shows "map (\<lambda>i. map ((!) vs) positions ! unat i) indices = vs"
    and "\<forall>i \<in> set indices. unat i < length positions" and "distinct (map ((!) vs) positions)"
    and "length positions \<le> length vs" and "length indices = length vs"
    and "set (map ((!) vs) positions) \<subseteq> set vs"
proof -
  have "vs = [] @ vs" by simp
  from dict_scan_inv [OF dict_inv_start this assms(1), of key_of] assms(2)
  obtain m where inv: "dict_inv key_of vs vs m positions indices" by (auto simp: build_dict_with_def)
  then have all: "list_all2 (\<lambda>v i. unat i < length positions \<and> vs ! (positions ! unat i) = v) vs indices"
    unfolding dict_inv_def by (auto elim!: list_all2_mono dest: injD [OF assms(3)])
  then show len: "length indices = length vs" by (simp add: list_all2_lengthD)
  show "map (\<lambda>i. map ((!) vs) positions ! unat i) indices = vs"
    using all len by (intro nth_equalityI) (auto dest: list_all2_nthD2)
  show "\<forall>i \<in> set indices. unat i < length positions"
    using all by (auto simp: in_set_conv_nth dest: list_all2_nthD2)
  from inv have "distinct (map (\<lambda>p. key_of (vs ! p)) positions)" by (simp add: dict_inv_def)
  then show "distinct (map ((!) vs) positions)"
    using distinct_map [of key_of "map ((!) vs) positions"] by (simp add: comp_def)
  show "length positions \<le> length vs" using inv by (simp add: dict_inv_def)
  show "set (map ((!) vs) positions) \<subseteq> set vs" using inv by (auto simp: dict_inv_def)
qed

text \<open>One statement for the four builders: the dictionary \<open>d\<close> and the indices \<open>is\<close> represent the values.\<close>

definition dict_of :: "'a list \<Rightarrow> 'a list \<Rightarrow> u32 list \<Rightarrow> bool" where
  "dict_of vs d indices \<longleftrightarrow> map (\<lambda>i. d ! unat i) indices = vs \<and> (\<forall>i \<in> set indices. unat i < length d) \<and>
     distinct d \<and> length d \<le> length vs \<and> length indices = length vs \<and> set d \<subseteq> set vs"

lemma build_dict_represents:
  assumes "length vs \<le> 2 ^ 32"
  shows "dict_of vs (map ((!) vs) (fst (build_dict_with vs (\<lambda>x. x)))) (snd (build_dict_with vs (\<lambda>x. x)))"
proof -
  obtain positions indices where b: "build_dict_with vs (\<lambda>x. x) = (positions, indices)" by fastforce
  have "inj (\<lambda>x. x)" by simp
  note ok = build_dict_with_ok [OF assms b this]
  show ?thesis unfolding dict_of_def b fst_conv snd_conv using ok by (intro conjI) simp_all
qed

text \<open>C16. Every builder of the writer gives a dictionary without duplicates whose lookup is the column.\<close>

theorem column_dictionary_represents:
  assumes "length is32 \<le> 2 ^ 32" and "length is64 \<le> 2 ^ 32" and "length fs \<le> 2 ^ 32" and "length bas \<le> 2 ^ 32"
  shows "dict_of is32 (fst (build_dict_i32 is32)) (snd (build_dict_i32 is32)) \<and>
    dict_of is64 (fst (build_dict_i64 is64)) (snd (build_dict_i64 is64)) \<and>
    dict_of fs (fst (build_dict_f64 fs)) (snd (build_dict_f64 fs)) \<and>
    dict_of bas (fst (build_dict_byte_array bas)) (snd (build_dict_byte_array bas))"
  using assms [THEN build_dict_represents]
  by (simp add: build_dict_i32_def build_dict_i64_def build_dict_f64_def build_dict_byte_array_def split_beta)

lemma column_dictionary_represents_witness:
  "dict_of [3, 5, 3 :: i32] (fst (build_dict_i32 [3, 5, 3])) (snd (build_dict_i32 [3, 5, 3])) \<and>
    dict_of [- 1 :: i64] (fst (build_dict_i64 [- 1])) (snd (build_dict_i64 [- 1])) \<and>
    dict_of [] (fst (build_dict_f64 [])) (snd (build_dict_f64 [])) \<and>
    dict_of [[1], [], [1 :: u8]] (fst (build_dict_byte_array [[1], [], [1]])) (snd (build_dict_byte_array [[1], [], [1]]))"
  by (rule column_dictionary_represents) simp_all

end
