(* ===== verification/ChunkProofs.thy ===== *)
theory ChunkProofs
  imports PageProofs ColumnDict PlainProofs
begin

text \<open>
  Reading the pages of one column chunk.  The locale \<open>plain_values\<close> is what the readers need of a value
  type, a PLAIN encoder and the decoder that undoes it; \<open>sparse_values\<close> adds the decoder that skips rows.
  For any such type the dense readers return the values of a written chunk, and the row-masked readers the
  values at the set bits of the mask.
\<close>

section \<open>The pages of a column\<close>

definition plain_chunk :: "codecs \<Rightarrow> compression_codec \<Rightarrow> bytes \<Rightarrow> nat \<Rightarrow> page list \<Rightarrow> bool" where
  "plain_chunk ext cdc body rows ps \<longleftrightarrow> (\<exists>h c st. ps = [(h, c)] \<and> body_in ext cdc body c \<and>
     (h = v1_page_header E_Plain (length body) (length c) rows st \<or>
      h = v2_page_header (length body) (length c) rows (cdc \<noteq> CC_Uncompressed) st))"

definition dict_chunk :: "codecs \<Rightarrow> compression_codec \<Rightarrow> bytes \<Rightarrow> nat \<Rightarrow> bytes \<Rightarrow> nat \<Rightarrow> page list \<Rightarrow> bool" where
  "dict_chunk ext cdc dbody nd ibody rows ps \<longleftrightarrow> (\<exists>dc ic st.
     ps = [(dict_page_header (length dbody) (length dc) nd, dc),
           (v1_page_header E_PlainDictionary (length ibody) (length ic) rows st, ic)] \<and>
     body_in ext cdc dbody dc \<and> body_in ext cdc ibody ic)"

text \<open>The body of an index page, with what decoding it gives.\<close>

definition index_body :: "bytes \<Rightarrow> u32 list \<Rightarrow> nat \<Rightarrow> bool" where
  "index_body ibody ixs nd \<longleftrightarrow> decode_rle_dictionary_indices ibody (length ixs) = Ok ixs \<and>
     page_rle_ok ibody (length ixs) (\<lambda>i. unat i < nd) \<and> (\<forall>i \<in> set ixs. unat i < nd)"

definition column_pages :: "('a list \<Rightarrow> bytes) \<Rightarrow> codecs \<Rightarrow> compression_codec \<Rightarrow> 'a list \<Rightarrow> page list \<Rightarrow> bool" where
  "column_pages enc ext cdc vs ps \<longleftrightarrow> plain_chunk ext cdc (enc vs) (length vs) ps \<or>
     (\<exists>d ixs ibody. dict_of vs d ixs \<and> index_body ibody ixs (length d) \<and>
        dict_chunk ext cdc (enc d) (length d) ibody (length vs) ps)"

section \<open>Decoding index pages\<close>

text \<open>What the dense readers need of the decoder of an index page, and the masked ones.\<close>

definition decodes_index :: "(bytes \<Rightarrow> 'a list \<Rightarrow> nat \<Rightarrow> 'a list \<Rightarrow> 'a list codec_result) \<Rightarrow> bool" where
  "decodes_index g \<longleftrightarrow> (\<forall>ibody ixs d out. length ixs < 2 ^ 64 \<longrightarrow> index_body ibody ixs (length d) \<longrightarrow>
     g ibody d (length ixs) out = Ok (out @ map (\<lambda>i. d ! unat i) ixs))"

lemma decodes_index_fused: "decodes_index decode_rle_dictionary_into"
  by (auto simp: decodes_index_def index_body_def dict_values_iff lookup_dict_Ok_iff list_all_iff)

lemma fold_lookup:
  "\<forall>i \<in> set ixs. unat i < length d \<Longrightarrow>
   fold_o (\<lambda>out idx. bind_o (get_o e d (unat idx)) (\<lambda>v. Ok (out @ [v]))) out ixs = Ok (out @ map (\<lambda>i. d ! unat i) ixs)"
  by (induction ixs arbitrary: out) (auto simp: get_o_def)

lemma decodes_index_byte_arrays: "decodes_index gather_byte_arrays"
  by (auto simp: decodes_index_def index_body_def gather_byte_arrays_def fold_lookup)

text \<open>The values at the set bits of a mask.\<close>

definition masked :: "bytes \<Rightarrow> 'a list \<Rightarrow> 'a list" where
  "masked msk vs = map ((!) vs) (filter (stream_bit msk) [0..<length vs])"

lemma gathered_masked: "gathered d msk 0 ixs = masked msk (map (\<lambda>i. d ! unat i) ixs)"
proof (induction ixs rule: rev_induct)
  case (snoc i ixs)
  let ?m = "\<lambda>is. map (\<lambda>i. d ! unat i) is"
  have "masked msk (?m (ixs @ [i])) = masked msk (?m ixs) @ (if stream_bit msk (length ixs) then [d ! unat i] else [])"
    by (simp add: masked_def nth_append cong: map_cong)
  then show ?case using snoc by simp
qed (simp add: masked_def)

lemma masked_none: "ones_in msk 0 (length vs) = 0 \<Longrightarrow> masked msk vs = []"
  by (simp add: masked_def ones_in_def)

lemma gather_masked:
  assumes "index_body ibody ixs (length d)" and "length ixs < 2 ^ 64" and "length ixs \<le> 8 * length msk"
  shows "gather_dict_at_bitmap_into ibody (length ixs) msk 0 d out = Ok (out @ masked msk (map (\<lambda>i. d ! unat i) ixs))"
proof -
  have "selected_ok d msk 0 ixs"
    using assms(1) by (auto simp: selected_ok_def index_body_def list_all_iff in_set_enumerate_eq)
  then show ?thesis using assms dict_gather_iff [of "length ixs" 0 msk ibody d out]
    by (simp add: gathered_masked index_body_def)
qed

section \<open>Value types\<close>

locale plain_values =
  fixes enc :: "'a list \<Rightarrow> bytes" and dec :: "bytes \<Rightarrow> 'a list codec_result" and ok :: "'a list \<Rightarrow> bool"
  assumes dec_enc: "ok vs \<Longrightarrow> dec (enc vs) = Ok vs"
    and ok_subset: "ok vs \<Longrightarrow> set us \<subseteq> set vs \<Longrightarrow> ok us"
begin

lemma dense_plain:
  assumes "flat_chunk ck cdc" and "plain_chunk ext cdc (enc vs) (length vs) [(h, c)]" and "ok vs" and "length vs < 2 ^ 31"
  shows "dense_page ext ck dec g (d, out) h c = Ok (d, out @ vs)"
proof -
  from assms(2) have "data_page_view ext ck h c = Ok \<lparr>dp_num_values = length vs, dp_encoding = E_Plain, dp_values = enc vs\<rparr>"
    using view_v1 [OF assms(1) _ assms(4)] view_v2 [OF assms(1) _ assms(4)] by (auto simp: plain_chunk_def)
  moreover have "ph_page_type h = PG_DataPage \<or> ph_page_type h = PG_DataPageV2"
    using assms(2) by (auto simp: plain_chunk_def v1_page_header_def v2_page_header_def)
  ultimately show ?thesis using dec_enc [OF assms(3)] by (auto simp: dense_page_def)
qed

lemma dense_dict:
  assumes "flat_chunk ck cdc" and "body_in ext cdc (enc ds) c" and "ok ds"
  shows "dense_page ext ck dec g (d, out) (dict_page_header (length (enc ds)) n m) c = Ok (ds, out)"
proof -
  have "page_uncompressed_size (dict_page_header (length (enc ds)) n m) = Ok (length (enc ds))"
    using assms(2) by (intro page_uncompressed_size_of_nat) (simp_all add: dict_page_header_def body_in_def)
  then show ?thesis using assms dec_enc
    by (simp add: dense_page_def dict_page_header_def flat_chunk_def body_in_def)
qed

lemma dense_index:
  assumes "flat_chunk ck cdc" and "body_in ext cdc ibody c" and "index_body ibody ixs (length d)" and "d \<noteq> []"
    and "decodes_index g" and "length ixs < 2 ^ 31"
  shows "dense_page ext ck dec g (d, out) (v1_page_header E_PlainDictionary (length ibody) n (length ixs) st) c
    = Ok (d, out @ map (\<lambda>i. d ! unat i) ixs)"
proof -
  have "g ibody d (length ixs) out = Ok (out @ map (\<lambda>i. d ! unat i) ixs)"
    using assms(3,5,6) by (simp add: decodes_index_def)
  moreover have "ph_page_type (v1_page_header E_PlainDictionary (length ibody) n (length ixs) st) = PG_DataPage"
    by (simp add: v1_page_header_def)
  ultimately show ?thesis using view_v1 [OF assms(1,2,6)] assms(4) by (simp add: dense_page_def)
qed

text \<open>The dense loop over the pages of a chunk.\<close>

lemma dense_chunk:
  assumes ck: "flat_chunk ck cdc" "ck_total_values ck = length vs" and pages: "column_pages enc ext cdc vs ps"
    and vs: "ok vs" "length vs < 2 ^ 31" and g: "decodes_index g"
  shows "\<exists>d. run_pages (\<lambda>s hdr body. bind_o (dense_page ext ck dec g s hdr body) (\<lambda>(dict, out).
      Ok (length out < ck_total_values ck, (dict, out)))) ([], []) ps = Ok (d, vs)"
proof (cases "plain_chunk ext cdc (enc vs) (length vs) ps")
  case True
  then obtain h c where ps: "ps = [(h, c)]" by (auto simp: plain_chunk_def)
  from dense_plain [OF ck(1) True [unfolded ps] vs] show ?thesis by (simp add: ps)
next
  case False
  with pages obtain d ixs ibody where d: "dict_of vs d ixs" "index_body ibody ixs (length d)"
    "dict_chunk ext cdc (enc d) (length d) ibody (length vs) ps" unfolding column_pages_def by blast
  then obtain dc ic st where ps: "ps = [(dict_page_header (length (enc d)) (length dc) (length d), dc),
      (v1_page_header E_PlainDictionary (length ibody) (length ic) (length vs) st, ic)]"
    "body_in ext cdc (enc d) dc" "body_in ext cdc ibody ic" unfolding dict_chunk_def by blast
  have ixs: "length ixs = length vs" "map (\<lambda>i. d ! unat i) ixs = vs" "set d \<subseteq> set vs" using d(1) by (simp_all add: dict_of_def)
  note page1 = dense_dict [OF ck(1) ps(2) ok_subset [OF vs(1) ixs(3)]]
  show ?thesis
  proof (cases "vs = []")
    case True
    then show ?thesis by (simp add: ps(1) page1 ck(2))
  next
    case False
    then have "d \<noteq> []" using d(2) ixs by (auto simp: index_body_def)
    with dense_index [OF ck(1) ps(3) d(2) this g, of "[]" "length ic" st] ixs vs(2) False
    show ?thesis by (simp add: ps(1) page1 ck(2))
  qed
qed

end

locale sparse_values = plain_values enc dec ok
  for enc :: "'a list \<Rightarrow> bytes" and dec :: "bytes \<Rightarrow> 'a list codec_result" and ok :: "'a list \<Rightarrow> bool" +
  fixes sparse :: "bytes \<Rightarrow> nat \<Rightarrow> bytes \<Rightarrow> nat \<Rightarrow> 'a list \<Rightarrow> 'a list codec_result"
  assumes sparse_enc: "ok vs \<Longrightarrow> length vs \<le> 8 * length msk \<Longrightarrow> length (enc vs) < 2 ^ 31 \<Longrightarrow>
    sparse (enc vs) (length vs) msk 0 out = Ok (out @ masked msk vs)"
begin

lemma masked_data_page:
  assumes "flat_chunk ck cdc" and "ck_total_values ck = length vs" and "length vs < 2 ^ 31" and "length vs \<le> 8 * length msk"
    and h: "ph_page_type h = PG_DataPage \<or> ph_page_type h = PG_DataPageV2" "data_page_num_values h = Ok (length vs)"
    and view: "data_page_view ext ck h c = Ok info"
    and page: "masked msk vs \<noteq> [] \<Longrightarrow>
      (case dp_encoding info of
         E_Plain \<Rightarrow> sparse (dp_values info) (length vs) msk 0 out
       | E_RleDictionary \<Rightarrow> if d = [] then Err dict_before_data else g (dp_values info) (length vs) msk 0 d out
       | E_PlainDictionary \<Rightarrow> if d = [] then Err dict_before_data else g (dp_values info) (length vs) msk 0 d out
       | other \<Rightarrow> Err (unknown_encoding other)) = Ok (out @ masked msk vs)"
  shows "masked_page ext ck msk dec sparse g (d, out, 0) h c = Ok (False, d, out @ masked msk vs, length vs)"
proof -
  have p: "(popcount_mask_range msk 0 (length vs) :: nat codec_result) = Ok (ones_in msk 0 (length vs))"
    unfolding popcount_mask_range_def using assms(4) by (intro popcount_range_Ok) simp_all
  have a: "(add_usize 0 (length vs) :: nat codec_result) = Ok (length vs)" using assms(3) by (simp add: add_usize_def)
  show ?thesis
  proof (cases "ones_in msk 0 (length vs) = 0")
    case True
    then show ?thesis using h assms(2) masked_none [OF True] by (auto simp: masked_page_def p a)
  next
    case False
    then have "masked msk vs \<noteq> []" by (simp add: masked_def ones_in_def)
    from page [OF this] False show ?thesis using h view assms(2) by (auto simp: masked_page_def p a)
  qed
qed

lemma masked_chunk_pages:
  assumes ck: "flat_chunk ck cdc" "ck_total_values ck = length vs" and pages: "column_pages enc ext cdc vs ps"
    and vs: "ok vs" "length vs < 2 ^ 31" and msk: "length vs \<le> 8 * length msk"
  shows "\<exists>d. run_pages (masked_page ext ck msk dec sparse gather_dict_at_bitmap_into) ([], out, 0) ps
    = Ok (d, out @ masked msk vs, length vs)"
proof (cases "plain_chunk ext cdc (enc vs) (length vs) ps")
  case True
  then obtain h c st where ps: "ps = [(h, c)]" "body_in ext cdc (enc vs) c"
    "h = v1_page_header E_Plain (length (enc vs)) (length c) (length vs) st \<or>
     h = v2_page_header (length (enc vs)) (length c) (length vs) (cdc \<noteq> CC_Uncompressed) st" unfolding plain_chunk_def by blast
  have h: "data_page_view ext ck h c = Ok \<lparr>dp_num_values = length vs, dp_encoding = E_Plain, dp_values = enc vs\<rparr>"
    "data_page_num_values h = Ok (length vs)" "ph_page_type h = PG_DataPage \<or> ph_page_type h = PG_DataPageV2"
    using ps(3) view_v1 [OF ck(1) ps(2) vs(2)] view_v2 [OF ck(1) ps(2) vs(2)] num_values_written vs(2)
    by (auto simp: v1_page_header_def v2_page_header_def)
  have "length (enc vs) < 2 ^ 31" using ps(2) by (simp add: body_in_def)
  from masked_data_page [OF ck vs(2) msk h(3,2,1), of out "[]" gather_dict_at_bitmap_into] sparse_enc [OF vs(1) msk this]
  show ?thesis by (simp add: ps(1))
next
  case False
  with pages obtain d ixs ibody where d: "dict_of vs d ixs" "index_body ibody ixs (length d)"
    "dict_chunk ext cdc (enc d) (length d) ibody (length vs) ps" unfolding column_pages_def by blast
  then obtain dc ic st where ps: "ps = [(dict_page_header (length (enc d)) (length dc) (length d), dc),
      (v1_page_header E_PlainDictionary (length ibody) (length ic) (length vs) st, ic)]"
    "body_in ext cdc (enc d) dc" "body_in ext cdc ibody ic" unfolding dict_chunk_def by blast
  have ixs: "length ixs = length vs" "map (\<lambda>i. d ! unat i) ixs = vs" "set d \<subseteq> set vs" using d(1) by (simp_all add: dict_of_def)
  let ?h = "v1_page_header E_PlainDictionary (length ibody) (length ic) (length vs) st"
  have "page_uncompressed_size (dict_page_header (length (enc d)) (length dc) (length d)) = Ok (length (enc d))"
    using ps(2) by (intro page_uncompressed_size_of_nat) (simp_all add: dict_page_header_def body_in_def)
  then have page1: "masked_page ext ck msk dec sparse g ([], out, 0) (dict_page_header (length (enc d)) (length dc) (length d)) dc
      = Ok (True, d, out, 0)" for g
    using ps(2) ck(1) dec_enc [OF ok_subset [OF vs(1) ixs(3)]]
    by (simp add: masked_page_def dict_page_header_def flat_chunk_def body_in_def)
  have "d \<noteq> []" if "masked msk vs \<noteq> []"
  proof -
    from that have "ixs \<noteq> []" using ixs(2) by (auto simp: masked_def)
    then show ?thesis using d(2) by (cases ixs) (auto simp: index_body_def)
  qed
  moreover have "gather_dict_at_bitmap_into ibody (length vs) msk 0 d out = Ok (out @ masked msk vs)"
    using gather_masked [OF d(2), of msk out] vs(2) msk ixs by simp
  moreover have "ph_page_type ?h = PG_DataPage" by (simp add: v1_page_header_def)
  ultimately have "masked_page ext ck msk dec sparse gather_dict_at_bitmap_into (d, out, 0) ?h ic
      = Ok (False, d, out @ masked msk vs, length vs)"
    using masked_data_page [OF ck vs(2) msk _ num_values_written(1) view_v1 [OF ck(1) ps(3) vs(2)]] vs(2) by simp
  then show ?thesis by (simp add: ps(1) page1)
qed

end

end
