(* ===== verification/ColumnTypes.thy ===== *)
theory ColumnTypes
  imports ChunkProofs
begin

text \<open>The value types of the writer as instances of the reader's interface.\<close>

interpretation i32_values: sparse_values encode_plain_i32 decode_plain_i32 "\<lambda>_. True" plain_sparse_decode_i32_into
proof
  fix vs :: "i32 list" and msk :: bytes and out
  assume "length vs \<le> 8 * length msk" "length (encode_plain_i32 vs) < 2 ^ 31"
  then show "plain_sparse_decode_i32_into (encode_plain_i32 vs) (length vs) msk 0 out = Ok (out @ masked msk vs)"
    using sparse_memcpy [of "length vs" 4 "encode_le vs" 0 msk out]
    by (simp add: encoders_le plain_sparse_decode_i32_into_def plain_i32.length_encode plain_i32.memcpy_encode masked_def)
qed (simp_all add: encoders_le plain_i32.roundtrip)

interpretation i64_values: sparse_values encode_plain_i64 decode_plain_i64 "\<lambda>_. True" plain_sparse_decode_i64_into
proof
  fix vs :: "i64 list" and msk :: bytes and out
  assume "length vs \<le> 8 * length msk" "length (encode_plain_i64 vs) < 2 ^ 31"
  then show "plain_sparse_decode_i64_into (encode_plain_i64 vs) (length vs) msk 0 out = Ok (out @ masked msk vs)"
    using sparse_memcpy [of "length vs" 8 "encode_le vs" 0 msk out]
    by (simp add: encoders_le plain_sparse_decode_i64_into_def plain_i64.length_encode plain_i64.memcpy_encode masked_def)
qed (simp_all add: encoders_le plain_i64.roundtrip)

interpretation f64_values: sparse_values encode_plain_f64 decode_plain_f64 "\<lambda>_. True" plain_sparse_decode_f64_into
proof
  fix vs :: "64 word list" and msk :: bytes and out
  assume "length vs \<le> 8 * length msk" "length (encode_plain_f64 vs) < 2 ^ 31"
  then show "plain_sparse_decode_f64_into (encode_plain_f64 vs) (length vs) msk 0 out = Ok (out @ masked msk vs)"
    using sparse_memcpy [of "length vs" 8 "encode_le vs" 0 msk out]
    by (simp add: encoders_le plain_sparse_decode_f64_into_def plain_f64.length_encode plain_f64.memcpy_encode masked_def)
qed (simp_all add: encoders_le plain_f64.roundtrip)

lemma encode_u64_i64: "encode_plain_u64 = encode_plain_i64"
  by (rule ext) (simp add: encoders_le)

lemma sparse_byte_arrays_Ok:
  "\<forall>v \<in> set vs. length v < 2 ^ 32 \<Longrightarrow> rest cur = concat (map byte_array_bytes vs) \<Longrightarrow> n + length vs \<le> 8 * length msk \<Longrightarrow>
   sparse_byte_arrays [n..<n + length vs] msk 0 cur out =
     Ok (out @ map (\<lambda>r. vs ! (r - n)) (filter (stream_bit msk) [n..<n + length vs]))"
proof (induction vs arbitrary: cur out n)
  case (Cons v vs)
  then have r: "rest cur = byte_array_bytes v @ concat (map byte_array_bytes vs)" and v: "length v < 2 ^ 32" by simp_all
  have upt: "[n..<n + length (v # vs)] = n # [Suc n..<Suc n + length vs]" using upt_conv_Cons [of n "n + length (v # vs)"] by (simp del: upt_Suc)
  have ih: "sparse_byte_arrays [Suc n..<Suc n + length vs] msk 0 (adv cur (length (byte_array_bytes v))) out' =
      Ok (out' @ map (\<lambda>r. vs ! (r - Suc n)) (filter (stream_bit msk) [Suc n..<Suc n + length vs]))" for out'
    using Cons.prems take_byte_array_Ok(2) [OF v r] by (intro Cons.IH) simp_all
  have eq: "map (\<lambda>r. vs ! (r - Suc n)) (filter (stream_bit msk) [Suc n..<Suc n + length vs])
      = map (\<lambda>r. (v # vs) ! (r - n)) (filter (stream_bit msk) [Suc n..<Suc n + length vs])"
    by (intro map_cong refl) (auto simp: nth_Cons')
  have "(mask_bit msk n :: bool codec_result) = Ok (stream_bit msk n)" using Cons.prems(3) by (intro mask_bit_Ok) simp
  then show ?case using take_byte_array_Ok(1) [OF v r] unfolding upt by (simp add: ih [unfolded add_Suc] eq [unfolded add_Suc] del: upt_Suc)
qed simp

interpretation byte_array_values: sparse_values encode_plain_byte_array decode_plain_byte_array
  "\<lambda>vs. \<forall>v \<in> set vs. length v < 2 ^ 32" plain_sparse_decode_byte_array_into
proof
  fix vs and msk :: bytes and out
  assume "\<forall>v \<in> set vs. length (v :: bytes) < 2 ^ 32" "length vs \<le> 8 * length msk"
  then show "plain_sparse_decode_byte_array_into (encode_plain_byte_array vs) (length vs) msk 0 out = Ok (out @ masked msk vs)"
    using sparse_byte_arrays_Ok [of vs "cursor_new (encode_plain_byte_array vs)" 0 msk out]
    by (simp add: plain_sparse_decode_byte_array_into_def encode_byte_arrays masked_def rest_def cursor_new_def)
next
  fix vs assume "\<forall>v \<in> set vs. length (v :: bytes) < 2 ^ 32"
  then show "decode_plain_byte_array (encode_plain_byte_array vs) = Ok vs"
    using byte_array_loop_Ok [of vs "cursor_new (encode_plain_byte_array vs)" "[]"]
    by (simp add: decode_plain_byte_array_def encode_byte_arrays rest_def cursor_new_def)
qed auto

end
