(* ===== verification/RleSize.thy ===== *)
theory RleSize
  imports RleRoundtrip
begin

text \<open>
  The size of what the run-coalescing encoder writes: at most four bytes per index and a constant.  The
  writer's page headers hold sizes as \<open>i32\<close>, so the index pages need the bound.
\<close>

lemma length_pack_value: "(pack_value out ix shift left v :: ('e, bytes) outcome) = Ok out' \<Longrightarrow> length out' = length out"
proof (induction left arbitrary: out ix shift v rule: less_induct)
  case (less left)
  show ?case
  proof (cases "left = 0")
    case False
    with less.prems have "shift < 8" by (simp add: pack_value.simps [of out] split: if_splits)
    with less.prems False obtain o1 where o1:
      "(or_byte out ix (push_bit shift (ucast (v AND (push_bit (min (8 - shift) left) 1 - 1)) :: u8)) :: ('e, bytes) outcome) = Ok o1"
      "(pack_value o1 (ix + 1) 0 (left - min (8 - shift) left) (drop_bit (min (8 - shift) left) v) :: ('e, bytes) outcome) = Ok out'"
      by (auto simp: pack_value.simps [of out] Let_def bind_o_eq_Ok_iff or_byte_def split: if_splits)
    have "left - min (8 - shift) left < left" using False \<open>shift < 8\<close> by simp
    from less.IH [OF this o1(2)] o1(1) show ?thesis by (auto simp: or_byte_def split: if_splits)
  qed (use less.prems in \<open>simp add: pack_value.simps [of out]\<close>)
qed

lemma length_fold_pack:
  "fold_o (\<lambda>out (i, idx). pack_value out (f i) (g i) w (ucast idx)) out xs = Ok out' \<Longrightarrow> length out' = length out"
  by (induction xs arbitrary: out) (auto simp: bind_o_eq_Ok_iff dest!: length_pack_value)

lemma length_pack_lsb_first:
  "pack_lsb_first out xs w = Ok out' \<Longrightarrow> length out' = length out + length xs div 8 * w"
  by (auto simp: pack_lsb_first_def Let_def split: if_splits dest!: length_fold_pack)

lemma length_write_uvarint: "length (write_uvarint [] v) \<le> 10" for v
proof -
  have "unat v < 2 ^ LENGTH(64)" by (rule unsigned_less)
  then show ?thesis using write_uvarint_length [of v 9] by simp
qed

lemma length_rle_write_uvarint: "length (rle_write_uvarint out v) \<le> length out + 10"
proof -
  have "rle_write_uvarint out v = out @ write_uvarint [] v"
    by (metis rle_write_uvarint_eq write_uvarint_append)
  then show ?thesis using length_write_uvarint [of v] by simp
qed

lemma length_flush_pending:
  assumes "flush_pending w pending n out = Ok out'" and "w \<le> 32" and "length pending mod 8 = 0"
  shows "length out' \<le> length out + 10 + 4 * length pending"
proof (cases "pending = []")
  case False
  then have "length out' = length (rle_write_uvarint out (packed_header n)) + length pending div 8 * w"
    using assms(1) by (auto simp: flush_pending_def dest: length_pack_lsb_first)
  moreover have "length pending div 8 * w \<le> 4 * length pending"
  proof -
    have "length pending div 8 * w \<le> length pending div 8 * 32" using assms(2) by simp
    then show ?thesis using assms(3) by auto
  qed
  ultimately show ?thesis using length_rle_write_uvarint [of out "packed_header n"] by simp
qed (use assms(1) in \<open>simp add: flush_pending_def\<close>)

lemma length_rle_runs:
  assumes "(rle_runs w vb xs pending out :: ('e, bytes \<times> u32 list) outcome) = Ok (out', pending')" and "w \<le> 32" and "vb \<le> 4"
  shows "length out' + 4 * length pending' \<le> length out + 4 * (length pending + length xs)"
  using assms(1)
proof (induction xs arbitrary: pending out rule: length_induct)
  case (1 xs)
  note IH = 1(1) [rule_format] and run = 1(2)
  show ?case
  proof (cases xs)
    case (Cons v vs)
  let ?run = "1 + length (takeWhile (\<lambda>x. x = v) vs)" and ?rest = "dropWhile (\<lambda>x. x = v) vs"
  let ?borrow = "if length pending mod 8 = 0 then 0 else 8 - length pending mod 8"
  have split: "length (v # vs) = ?run + length ?rest"
    using arg_cong [OF takeWhile_dropWhile_id [of "\<lambda>x. x = v" vs], of length]
    by (simp del: takeWhile_dropWhile_id)
  have shorter: "length ?rest < length xs" using Cons length_dropWhile_le [of _ vs] by (simp add: less_Suc_eq_le)
  show ?thesis
  proof (cases "?run \<ge> 8 + ?borrow")
    case True
    let ?p = "pending @ replicate ?borrow v"
    from run Cons True obtain f where f: "(flush_pending w ?p (length ?p div 8) out :: ('e, bytes) outcome) = Ok f"
      "(rle_runs w vb ?rest [] (rle_write_uvarint f (rle_header (?run - ?borrow)) @ rle_value_bytes vb v) :: ('e, bytes \<times> u32 list) outcome) = Ok (out', pending')"
      by (simp only: rle_runs.simps Let_def if_True bind_o_eq_Ok_iff) blast
    have "length ?p mod 8 = 0"
    proof -
      have "(length pending + (8 - length pending mod 8)) mod 8 = (length pending mod 8 + (8 - length pending mod 8)) mod 8"
        by (rule mod_add_left_eq [symmetric])
      also have "length pending mod 8 + (8 - length pending mod 8) = 8" using mod_less_divisor [of 8 "length pending"] by simp
      finally show ?thesis by simp
    qed
    from length_flush_pending [OF f(1) assms(2) this]
    have l1: "length f \<le> length out + 10 + 4 * (length pending + ?borrow)" by simp
    have l2: "length (rle_value_bytes vb v) = vb" by (simp add: rle_value_bytes_def)
    have l3: "length out' + 4 * length pending' \<le>
        length (rle_write_uvarint f (rle_header (?run - ?borrow))) + length (rle_value_bytes vb v) + 4 * length ?rest"
      using IH [OF shorter f(2)] by simp
    have arith: "a \<le> ou + 10 + 4 * (p + b) \<Longrightarrow> l = vb \<Longrightarrow> x \<le> a + 10 \<Longrightarrow> y \<le> x + l + 4 * r \<Longrightarrow> 8 + b \<le> rn \<Longrightarrow>
      n = rn + r \<Longrightarrow> vb \<le> 4 \<Longrightarrow> y \<le> ou + 4 * (p + n)" for a ou p b l x y r rn n :: nat by simp
    show ?thesis unfolding Cons by (rule arith [OF l1 l2 length_rle_write_uvarint l3 True split assms(3)])
  next
    case False
    with run Cons have r: "(rle_runs w vb ?rest (pending @ replicate ?run v) out :: ('e, bytes \<times> u32 list) outcome) = Ok (out', pending')"
      by (simp only: rle_runs.simps Let_def if_False)
    show ?thesis using IH [OF shorter r] split by (simp add: Cons)
  qed
  qed (use run in simp)
qed

lemma encode_rle_bit_packed_size:
  assumes "(encode_rle_bit_packed xs w :: ('e, bytes) outcome) = Ok bs"
  shows "length bs \<le> 4 * length xs + 38"
proof (cases "xs = [] \<or> w = 0 \<or> w > 32")
  case True
  then show ?thesis using assms length_rle_write_uvarint [of "[]" "rle_header (length xs)"]
    by (auto simp: encode_rle_bit_packed_def split: if_splits)
next
  case False
  then obtain out pending where r: "(rle_runs w (div_ceil w 8) xs [] [] :: ('e, bytes \<times> u32 list) outcome) = Ok (out, pending)"
    "(flush_pending w (resize0 (div_ceil (length pending) 8 * 8) pending) (div_ceil (length pending) 8) out :: ('e, bytes) outcome) = Ok bs"
    using assms by (auto simp: encode_rle_bit_packed_def Let_def bind_o_eq_Ok_iff)
  let ?n = "div_ceil (length pending) 8 * 8"
  have n: "?n \<le> length pending + 7" "length pending \<le> ?n" by (simp_all add: div_ceil_def)
  then have "length (resize0 ?n pending) = ?n" by (simp add: resize0_def)
  with length_flush_pending [OF r(2)] False n have "length bs \<le> length out + 10 + 4 * (length pending + 7)" by simp
  moreover have "div_ceil w 8 \<le> 4" using False div_le_mono [of "7 + w" 39 8] by (simp add: div_ceil_def)
  with length_rle_runs [OF r(1)] False have "length out + 4 * length pending \<le> 4 * length xs" by simp
  ultimately show ?thesis by simp
qed

end
