(* ===== verification/WrittenPages.thy ===== *)
theory WrittenPages
  imports TableLayout ColumnTypes RleSize
begin

text \<open>
  The pages the writer makes of a column slice are pages the readers undo.  The locale \<open>written_values\<close>
  ties a constructor of \<open>ColumnData\<close> to the value type the readers decode; its instances are the five
  constructors that have a reader.
\<close>

section \<open>Sizes\<close>

fun plain_size :: "column_data \<Rightarrow> nat" where
  "plain_size (Col_I32 vs) = 4 * length vs"
| "plain_size (Col_I64 vs) = 8 * length vs"
| "plain_size (Col_U64 vs) = 8 * length vs"
| "plain_size (Col_F64 vs) = 8 * length vs"
| "plain_size (Col_Bool vs) = div_ceil (length vs) 8"
| "plain_size (Col_ByteArray vs) = (\<Sum>v \<leftarrow> vs. 4 + length v)"

text \<open>A slice whose bodies, the index page of a dictionary included, have sizes a page header can hold.\<close>

definition slice_fits :: "column_data \<Rightarrow> bool" where
  "slice_fits col \<longleftrightarrow> plain_size col + 64 \<le> 2 ^ 31"

lemma sum_list_subset:
  assumes "distinct d" and "set d \<subseteq> set vs"
  shows "sum_list (map f d) \<le> (sum_list (map f vs) :: nat)"
proof -
  have "sum_list (map f d) = sum f (set d)" using assms(1) by (simp add: sum_list_distinct_conv_sum_set)
  also have "\<dots> \<le> sum f (set vs)" using assms(2) by (intro sum_mono2) auto
  also have "\<dots> \<le> sum_list (map f vs)" by (induction vs) (auto simp: sum.insert_if)
  finally show ?thesis .
qed

lemma length_byte_arrays: "length (encode_plain_byte_array vs) = (\<Sum>v \<leftarrow> vs. 4 + length v)"
  unfolding encode_byte_arrays by (induction vs) (simp_all add: byte_array_bytes_def)

lemma length_le_byte_arrays: "4 * length vs \<le> (\<Sum>v \<leftarrow> vs. 4 + length v)"
  by (induction vs) simp_all

lemma member_le_byte_arrays: "v \<in> set vs \<Longrightarrow> length v \<le> (\<Sum>v \<leftarrow> vs. 4 + length v)"
  by (induction vs) auto

section \<open>Statistics that fit\<close>

lemma extremes_member: "mn \<in> S \<Longrightarrow> mx \<in> S \<Longrightarrow> set xs \<subseteq> S \<Longrightarrow> fst (extremes lt mn mx xs) \<in> S \<and> snd (extremes lt mn mx xs) \<in> S"
  by (induction lt mn mx xs rule: extremes.induct) auto

lemma stats_fit_compute:
  assumes "slice_fits col"
  shows "stats_fit (compute_stats col)"
proof (cases col)
  case (Col_ByteArray vs)
  show ?thesis
  proof (cases vs)
    case (Cons v us)
    have "fst (extremes bytes_lt v v us) \<in> set vs \<and> snd (extremes bytes_lt v v us) \<in> set vs"
      by (rule extremes_member) (auto simp: Cons)
    moreover have "length x < 2 ^ 31" if "x \<in> set vs" for x
      using member_le_byte_arrays [OF that] assms by (simp add: slice_fits_def Col_ByteArray)
    ultimately have "length (fst (extremes bytes_lt v v us)) < 2 ^ 31 \<and> length (snd (extremes bytes_lt v v us)) < 2 ^ 31"
      by blast
    then show ?thesis by (simp add: Col_ByteArray Cons stats_fit_def fits_def split_beta)
  qed (simp add: Col_ByteArray stats_fit_def column_stats_default_def)
next
  case (Col_F64 vs)
  then show ?thesis by (auto simp: stats_f64_def stats_fit_def fits_def Let_def split: prod.splits option.splits)
next
  case (Col_I32 vs)
  then show ?thesis by (cases vs) (auto simp: stats_fit_def fits_def column_stats_default_def split: prod.splits)
next
  case (Col_I64 vs)
  then show ?thesis by (cases vs) (auto simp: stats_fit_def fits_def column_stats_default_def split: prod.splits)
next
  case (Col_U64 vs)
  then show ?thesis by (cases vs) (auto simp: stats_fit_def fits_def column_stats_default_def split: prod.splits)
qed (auto simp: stats_bool_def stats_fit_def fits_def column_stats_default_def)

lemma pages_ok:
  assumes "written_pages ext cdc rows col ps" and "slice_fits col" and "length (chunk_bytes ps) < 2 ^ 31"
  shows "list_all page_ok ps"
proof -
  have "length (snd p) < 2 ^ 31" if "p \<in> set ps" for p
  proof -
    have "length (page_bytes p) \<le> length (chunk_bytes ps)" using that by (induction ps) auto
    then show ?thesis using assms(3) by (simp add: page_bytes_def)
  qed
  then have "list_all (\<lambda>p. length (snd p) < 2 ^ 31) ps" by (simp add: list_all_iff)
  then show ?thesis using assms(1) stats_fit_compute [OF assms(2)]
    by (auto simp: written_pages_def written_plain_def written_dict_def page_ok_dict page_ok_v1 page_ok_v2)
qed

section \<open>Bodies and indices\<close>

lemma supported_of_compress: "compress_body ext body cdc = Ok c \<Longrightarrow> supported_codec cdc"
  by (cases cdc) (simp_all add: compress_body_def)

lemma body_in_written:
  assumes "codecs_sound ext" and "compress_body ext body cdc = Ok c" and "length body < 2 ^ 31"
  shows "body_in ext cdc body c"
  using compress_body_inverse [OF assms(1,3) supported_of_compress [OF assms(2)]] assms(2,3) by (simp add: body_in_def)

lemma index_body_written:
  assumes "dict_of vs d ixs" and "4 * length vs + 64 \<le> 2 ^ 31"
    and "(min_bit_width_for_dict (length d) :: nat codec_result) = Ok w" and "(encode_rle_bit_packed ixs w :: bytes codec_result) = Ok packed"
  shows "index_body (of_nat w # packed) ixs (length d)" and "length (of_nat w # packed :: bytes) < 2 ^ 31"
proof -
  have d: "length d < 2 ^ 32" "\<forall>i \<in> set ixs. unat i < length d" "length ixs < 2 ^ 56" "length ixs = length vs"
    using assms(1,2) by (auto simp: dict_of_def)
  from index_page_decodes [OF d(1-3)] obtain w' bs where
    "(min_bit_width_for_dict (length d) :: nat codec_result) = Ok w'" "(encode_rle_bit_packed ixs w' :: bytes codec_result) = Ok bs"
    "decode_rle_dictionary_indices (of_nat w' # bs) (length ixs) = Ok ixs"
    "page_rle_ok (of_nat w' # bs) (length ixs) (\<lambda>i. unat i < length d)" by blast
  with assms(3,4) d(2) show "index_body (of_nat w # packed) ixs (length d)" by (simp add: index_body_def)
  show "length (of_nat w # packed :: bytes) < 2 ^ 31" using encode_rle_bit_packed_size [OF assms(4)] assms(2) d(4) by simp
qed

section \<open>Written value types\<close>

locale written_values = sparse_values enc dec ok sparse
  for enc :: "'a list \<Rightarrow> bytes" and dec :: "bytes \<Rightarrow> 'a list codec_result" and ok :: "'a list \<Rightarrow> bool"
    and sparse :: "bytes \<Rightarrow> nat \<Rightarrow> bytes \<Rightarrow> nat \<Rightarrow> 'a list \<Rightarrow> 'a list codec_result" +
  fixes con :: "'a list \<Rightarrow> column_data"
  assumes rows_con: "row_count (con vs) = length vs"
    and plain_con: "encode_plain (con vs) = (Ok (enc vs) :: bytes codec_result)"
    and size_con: "plain_size (con vs) = length (enc vs)" "4 * length vs \<le> length (enc vs)"
    and size_dict: "distinct d \<Longrightarrow> set d \<subseteq> set vs \<Longrightarrow> length d \<le> length vs \<Longrightarrow> length (enc d) \<le> length (enc vs)"
    and dict_con: "length vs \<le> 2 ^ 32 \<Longrightarrow> encode_dict (con vs) = Some (dbody, nd, ixs) \<Longrightarrow>
      \<exists>d. dict_of vs d ixs \<and> dbody = enc d \<and> nd = length d"
    and ok_con: "slice_fits (con vs) \<Longrightarrow> ok vs"
begin

lemma written_dict_pages:
  assumes "written_dict ext cdc (length vs) (con vs) ps" and "slice_fits (con vs)" and "codecs_sound ext"
  obtains d ixs w packed where "dict_of vs d ixs" "(min_bit_width_for_dict (length d) :: nat codec_result) = Ok w"
    "index_body (of_nat w # packed) ixs (length d)" "dict_chunk ext cdc (enc d) (length d) (of_nat w # packed) (length vs) ps"
proof -
  have size: "length (enc vs) + 64 \<le> 2 ^ 31" "4 * length vs + 64 \<le> 2 ^ 31"
    using assms(2) size_con [of vs] by (simp_all add: slice_fits_def)
  note body = body_in_written [OF assms(3)]
  from assms(1) obtain dbody nd ixs dc w packed ic where w: "encode_dict (con vs) = Some (dbody, nd, ixs)"
      "compress_body ext dbody cdc = Ok dc" "(min_bit_width_for_dict nd :: nat codec_result) = Ok w"
      "(encode_rle_bit_packed ixs w :: bytes codec_result) = Ok packed" "compress_body ext (of_nat w # packed) cdc = Ok ic"
      "ps = [(dict_page_header (length dbody) (length dc) nd, dc),
           (v1_page_header E_PlainDictionary (Suc (length packed)) (length ic) (length vs) (compute_stats (con vs)), ic)]"
    unfolding written_dict_def by blast
  from dict_con [OF _ w(1)] size(2) obtain d where d: "dict_of vs d ixs" "dbody = enc d" "nd = length d" by auto
  have "length (enc d) \<le> length (enc vs)" using d(1) by (intro size_dict) (simp_all add: dict_of_def)
  then have dsize: "length (enc d) < 2 ^ 31" using size(1) by simp
  from index_body_written [OF d(1) size(2)] w(3,4) d(3)
  have ib: "index_body (of_nat w # packed) ixs (length d)" "length (of_nat w # packed :: bytes) < 2 ^ 31" by simp_all
  have "dict_chunk ext cdc (enc d) (length d) (of_nat w # packed) (length vs) ps"
    unfolding dict_chunk_def using w(2,5,6) d(2,3) body [OF _ dsize] body [OF _ ib(2)]
    by (intro exI [of _ dc] exI [of _ ic] exI [of _ "compute_stats (con vs)"]) simp
  with that d(1) w(3) d(3) ib(1) show thesis by simp
qed

lemma written_column_pages:
  assumes "written_pages ext cdc (length vs) (con vs) ps" and "slice_fits (con vs)" and "codecs_sound ext"
  shows "column_pages enc ext cdc vs ps"
proof -
  have size: "length (enc vs) + 64 \<le> 2 ^ 31" using assms(2) size_con [of vs] by (simp add: slice_fits_def)
  from assms(1) consider "written_plain ext cdc (length vs) (con vs) ps" | "written_dict ext cdc (length vs) (con vs) ps"
    unfolding written_pages_def by blast
  then show ?thesis
  proof cases
    case 1
    then have "plain_chunk ext cdc (enc vs) (length vs) ps"
      using size body_in_written [OF assms(3), of "enc vs"] unfolding written_plain_def plain_chunk_def plain_con by fastforce
    then show ?thesis by (simp add: column_pages_def)
  next
    case 2
    from written_dict_pages [OF this assms(2,3)] show ?thesis unfolding column_pages_def by metis
  qed
qed

end

lemmas build_dict_defs = build_dict_i32_def build_dict_i64_def build_dict_f64_def build_dict_byte_array_def split_beta

lemma build_dict_exists:
  "length vs \<le> 2 ^ 32 \<Longrightarrow> \<exists>d. dict_of vs d (snd (build_dict_with vs (\<lambda>x. x))) \<and>
     f (map ((!) vs) (fst (build_dict_with vs (\<lambda>x. x)))) = f d \<and> length (fst (build_dict_with vs (\<lambda>x. x))) = length d"
  by (intro exI [of _ "map ((!) vs) (fst (build_dict_with vs (\<lambda>x. x)))"] conjI build_dict_represents) simp_all

interpretation written_i32: written_values encode_plain_i32 decode_plain_i32 "\<lambda>_. True" plain_sparse_decode_i32_into Col_I32
  by unfold_locales (auto simp: encoders_le plain_i32.length_encode build_dict_defs intro!: build_dict_exists [simplified])

interpretation written_i64: written_values encode_plain_i64 decode_plain_i64 "\<lambda>_. True" plain_sparse_decode_i64_into Col_I64
  by unfold_locales (auto simp: encoders_le plain_i64.length_encode build_dict_defs intro!: build_dict_exists [simplified])

interpretation written_u64: written_values encode_plain_i64 decode_plain_i64 "\<lambda>_. True" plain_sparse_decode_i64_into Col_U64
  by unfold_locales (auto simp: encoders_le plain_i64.length_encode)

interpretation written_f64: written_values encode_plain_f64 decode_plain_f64 "\<lambda>_. True" plain_sparse_decode_f64_into Col_F64
  by unfold_locales (auto simp: encoders_le plain_f64.length_encode build_dict_defs intro!: build_dict_exists [simplified])

interpretation written_byte_array: written_values encode_plain_byte_array decode_plain_byte_array
  "\<lambda>vs. \<forall>v \<in> set vs. length v < 2 ^ 32" plain_sparse_decode_byte_array_into Col_ByteArray
proof
  fix vs :: "bytes list"
  assume "slice_fits (Col_ByteArray vs)"
  then show "\<forall>v \<in> set vs. length v < 2 ^ 32" using member_le_byte_arrays by (fastforce simp: slice_fits_def)
qed (auto simp: length_byte_arrays length_le_byte_arrays build_dict_defs intro!: build_dict_exists [simplified] sum_list_subset)

end
