(* ===== verification/TableFile.thy ===== *)
theory TableFile
  imports WrittenPages FormatProperties
begin

text \<open>
  A written table as a file: opening it gives back the footer the writer built, and fetching a chunk gives
  the pages of that column slice.
\<close>

section \<open>The steps of the writer\<close>

lemma mapM_o_nth:
  "mapM_o f xs = (Ok ys :: ('e, 'b list) outcome) \<Longrightarrow> length ys = length xs \<and> (\<forall>i < length xs. f (xs ! i) = Ok (ys ! i))"
proof (induction xs arbitrary: ys)
  case (Cons x xs)
  then obtain y zs where "f x = Ok y" "mapM_o f xs = Ok zs" "ys = y # zs" by (auto simp: bind_o_eq_Ok_iff)
  then show ?case using Cons.IH [of zs] by (auto simp: nth_Cons split: nat.split)
qed simp

lemma fold_require: "fold_o (\<lambda>_ (a, b). require_o (P a b) (e a b)) s xs = Ok u \<Longrightarrow> \<forall>(a, b) \<in> set xs. P a b"
  by (induction xs arbitrary: s) (auto simp: bind_o_eq_Ok_iff require_o_def split: if_splits)

lemma write_table_steps:
  assumes "write_table_inner_full_v2 ext sbbf columns opts = Ok file"
  obtains sk groups rgs footer where "columns \<noteq> []" "wt_row_group_size opts \<noteq> 0"
    "\<forall>c \<in> set columns. row_count (snd c) = row_count (snd (hd columns))"
    "write_row_groups ext sbbf opts columns (row_count (snd (hd columns))) sink_start [] 0 False = Ok (sk, groups)"
    "mapM_o (\<lambda>(rg_ix, g). footer_row_group opts columns rg_ix g) (enumerate 0 groups) = (Ok rgs :: row_group list codec_result)"
    "write_file_metadata (footer_metadata (footer_schema columns) (row_count (snd (hd columns))) rgs (wt_kv_metadata opts)) = Ok footer"
    "file = sk_out sk @ footer @ to_le_bytes (of_nat (length footer) :: u32) @ parquet_magic"
proof -
  let ?rows = "row_count (snd (hd columns))"
  from assms obtain u sk groups rgs where s: "columns \<noteq> []" "wt_row_group_size opts \<noteq> 0"
    "fold_o (\<lambda>_ (nm, c). require_o (row_count c = ?rows)
       (InvalidInput (''column '' @ debug_str nm @ '' has row count '' @ decimal (row_count c) @
          '' but first column has '' @ decimal ?rows))) () (tl columns) = Ok u"
    "write_row_groups ext sbbf opts columns ?rows sink_start [] 0 False = Ok (sk, groups)"
    "mapM_o (\<lambda>(rg_ix, g). footer_row_group opts columns rg_ix g) (enumerate 0 groups) = (Ok rgs :: row_group list codec_result)"
    "write_footer (footer_metadata (footer_schema columns) ?rows rgs (wt_kv_metadata opts)) (sk_out sk) = Ok file"
    by (auto simp: write_table_inner_full_v2_def Let_def bind_o_eq_Ok_iff require_o_def split: if_splits)
  have "\<forall>(a, b) \<in> set (tl columns). row_count b = ?rows" by (rule fold_require [OF s(3)])
  then have "\<forall>c \<in> set columns. row_count (snd c) = ?rows" using s(1) by (cases columns) auto
  moreover from s(6) obtain footer where
    "write_file_metadata (footer_metadata (footer_schema columns) ?rows rgs (wt_kv_metadata opts)) = Ok footer"
    "file = sk_out sk @ footer @ to_le_bytes (of_nat (length footer) :: u32) @ parquet_magic"
    by (auto simp: write_footer_def bind_o_eq_Ok_iff)
  ultimately show thesis using that s(1,2,4,5) by blast
qed

section \<open>Opening\<close>

lemma file_open_written:
  assumes "out = parquet_magic @ bs" and "length footer < 2 ^ 32"
  shows "file_open (out @ footer @ to_le_bytes (of_nat (length footer) :: u32) @ parquet_magic) = Ok
    \<lparr>pf_file = out @ footer @ to_le_bytes (of_nat (length footer) :: u32) @ parquet_magic,
     pf_file_size = length out + length footer + 8, pf_footer_bytes = footer, pf_footer_offset = length out\<rparr>"
proof -
  let ?file = "out @ footer @ to_le_bytes (of_nat (length footer) :: u32) @ parquet_magic"
  let ?size = "length out + length footer + 8"
  have magic: "parquet_magic = file_magic" "length parquet_magic = 4" by (simp_all add: parquet_magic_def file_magic_def)
  have len: "length ?file = ?size" "footer_trailer_len = 8" by (simp_all add: magic(2) footer_trailer_len_def)
  have out: "4 \<le> length out" "take 4 ?file = file_magic" using assms(1) magic by simp_all
  have tail: "drop (?size - 8) ?file = to_le_bytes (of_nat (length footer) :: u32) @ parquet_magic"
    by (simp only: append_assoc [symmetric], subst append_assoc) simp
  have n: "unat (of_nat (length footer) :: u32) = length footer"
    using assms(2) by (simp add: unsigned_of_nat take_bit_nat_eq_self)
  show ?thesis
    unfolding file_open_def Let_def len
    using out n by (simp add: tail magic)
qed

lemma read_file_metadata_written:
  assumes "good_file_metadata md" and "write_file_metadata md = Ok footer"
  shows "\<exists>cur. read_file_metadata (cursor_new footer) = Ok (md, cur)"
proof -
  have "encode_file_metadata [] md = Ok footer" using assms(2) by (simp add: write_file_metadata_def)
  from codec_o_at [OF codec_o_file_metadata [OF assms(1)] this, of "[]" "[]"] show ?thesis
    by (simp add: cursor_new_def)
qed

section \<open>Levels\<close>

lemma levels_walk_leaves:
  assumes "\<forall>el \<in> set els. se_repetition_type el = Some FR_Required \<and> se_num_children el = None"
    and "i < length els" and "length els \<le> m" and "m < 2 ^ 31"
  shows "levels_walk (k + i) [(0, 0, of_nat m)] k els = Ok (0, 0)"
  using assms
proof (induction els arbitrary: i k m)
  case (Cons el els)
  have el: "node_levels 0 0 el = Ok (0, 0)" "se_num_children el = None" using Cons.prems(1) by (simp_all add: node_levels_def)
  show ?case
  proof (cases i)
    case 0
    then show ?thesis by (simp add: el)
  next
    case (Suc j)
    obtain m' where m: "m = Suc m'" using Cons.prems(3) by (cases m) auto
    have "sint (of_nat m :: i32) = int m" using Cons.prems(4) by (rule sint_small_i32)
    then have "(sub1_i32 (of_nat m) :: i32 codec_result) = Ok (of_nat m')" by (simp add: sub1_i32_def m)
    moreover have "levels_walk (Suc k + j) [(0, 0, of_nat m')] (Suc k) els = Ok (0, 0)"
      using Cons.prems m Suc by (intro Cons.IH) auto
    ultimately show ?thesis using Suc by (simp add: el count_child_def Let_def)
  qed
qed simp

lemma footer_levels:
  assumes "i < length columns" and "length columns < 2 ^ 31"
  shows "compute_max_levels (footer_schema columns) i = Ok (0, 0)"
proof -
  have "sint (of_nat (length columns) :: i32) = int (length columns)" using assms(2) by (rule sint_small_i32)
  moreover have "levels_walk (0 + i) [(0, 0, of_nat (length columns))] 0
      (map (\<lambda>(nm, col). leaf_element nm (column_parquet_type col) (column_converted_type col)) columns) = Ok (0, 0)"
    using assms by (intro levels_walk_leaves) (auto simp: leaf_element_def)
  ultimately show ?thesis using assms(1)
    by (auto simp: compute_max_levels_def footer_schema_def root_element_def Let_def)
qed

end
