(* ===== verification/WriteColumn.thy ===== *)
theory WriteColumn
  imports WriteTable
begin

text \<open>
  The other writers of \<open>ematix-parquet-codec/src/write.rs\<close>: the entry points that fix some of the options of
  the table writer, and the single-column writers, PLAIN or dictionary encoded, with or without a bloom
  filter.  A function that writes to a path creates the file and fills it; its result here is the
  contents, the file system being outside the model.
\<close>

section \<open>Entry points of the table writer\<close>

definition usize_max :: nat where
  "usize_max = 2 ^ 64 - 1"

definition write_options_default :: table_options where
  "write_options_default = \<lparr>wt_default_codec = CC_Uncompressed, wt_row_group_size = usize_max, wt_page_version = Pages_V1,
     wt_bloom_fpps = None, wt_dict_per_column = None, wt_codec_per_column = None, wt_kv_metadata = None\<rparr>"

definition write_table_with_options ::
  "codecs \<Rightarrow> (nat \<Rightarrow> 64 word \<Rightarrow> u64) \<Rightarrow> (bytes \<times> column_data) list \<Rightarrow> table_options \<Rightarrow> bytes codec_result" where
  "write_table_with_options ext sbbf columns options = write_table_inner_full_v2 ext sbbf columns options"

definition write_table_with_options_to_path ::
  "codecs \<Rightarrow> (nat \<Rightarrow> 64 word \<Rightarrow> u64) \<Rightarrow> (bytes \<times> column_data) list \<Rightarrow> table_options \<Rightarrow> bytes codec_result" where
  "write_table_with_options_to_path = write_table_with_options"

definition write_table_inner_full ::
  "codecs \<Rightarrow> (nat \<Rightarrow> 64 word \<Rightarrow> u64) \<Rightarrow> (bytes \<times> column_data) list \<Rightarrow> compression_codec \<Rightarrow> nat \<Rightarrow> page_version \<Rightarrow>
   64 word option list option \<Rightarrow> bool list option \<Rightarrow> bytes codec_result" where
  "write_table_inner_full ext sbbf columns cdc row_group_size page_version bloom_fpps dict_per_column =
     write_table_inner_full_v2 ext sbbf columns \<lparr>wt_default_codec = cdc, wt_row_group_size = row_group_size,
       wt_page_version = page_version, wt_bloom_fpps = bloom_fpps, wt_dict_per_column = dict_per_column,
       wt_codec_per_column = None, wt_kv_metadata = None\<rparr>"

definition write_table_inner ::
  "codecs \<Rightarrow> (nat \<Rightarrow> 64 word \<Rightarrow> u64) \<Rightarrow> (bytes \<times> column_data) list \<Rightarrow> compression_codec \<Rightarrow> nat \<Rightarrow> page_version \<Rightarrow>
   64 word option list option \<Rightarrow> bytes codec_result" where
  "write_table_inner ext sbbf columns cdc row_group_size page_version bloom_fpps =
     write_table_inner_full ext sbbf columns cdc row_group_size page_version bloom_fpps None"

definition write_table_with_row_group_size ::
  "codecs \<Rightarrow> (nat \<Rightarrow> 64 word \<Rightarrow> u64) \<Rightarrow> (bytes \<times> column_data) list \<Rightarrow> compression_codec \<Rightarrow> nat \<Rightarrow> bytes codec_result" where
  "write_table_with_row_group_size ext sbbf columns cdc row_group_size =
     write_table_inner ext sbbf columns cdc row_group_size Pages_V1 None"

definition write_table ::
  "codecs \<Rightarrow> (nat \<Rightarrow> 64 word \<Rightarrow> u64) \<Rightarrow> (bytes \<times> column_data) list \<Rightarrow> compression_codec \<Rightarrow> bytes codec_result" where
  "write_table ext sbbf columns cdc = write_table_with_row_group_size ext sbbf columns cdc usize_max"

definition write_table_to_path_with_row_group_size ::
  "codecs \<Rightarrow> (nat \<Rightarrow> 64 word \<Rightarrow> u64) \<Rightarrow> (bytes \<times> column_data) list \<Rightarrow> compression_codec \<Rightarrow> nat \<Rightarrow> bytes codec_result" where
  "write_table_to_path_with_row_group_size = write_table_with_row_group_size"

definition write_table_to_path ::
  "codecs \<Rightarrow> (nat \<Rightarrow> 64 word \<Rightarrow> u64) \<Rightarrow> (bytes \<times> column_data) list \<Rightarrow> compression_codec \<Rightarrow> bytes codec_result" where
  "write_table_to_path ext sbbf columns cdc = write_table_to_path_with_row_group_size ext sbbf columns cdc usize_max"

definition write_table_to_path_v2 ::
  "codecs \<Rightarrow> (nat \<Rightarrow> 64 word \<Rightarrow> u64) \<Rightarrow> (bytes \<times> column_data) list \<Rightarrow> compression_codec \<Rightarrow> nat \<Rightarrow> bytes codec_result" where
  "write_table_to_path_v2 ext sbbf columns cdc row_group_size =
     write_table_inner ext sbbf columns cdc row_group_size Pages_V2 None"

definition write_table_with_blooms_to_path ::
  "codecs \<Rightarrow> (nat \<Rightarrow> 64 word \<Rightarrow> u64) \<Rightarrow> (bytes \<times> column_data) list \<Rightarrow> compression_codec \<Rightarrow> nat \<Rightarrow>
   64 word option list \<Rightarrow> bytes codec_result" where
  "write_table_with_blooms_to_path ext sbbf columns cdc row_group_size bloom_fpps =
     bind_o (require_o (length bloom_fpps = length columns)
       (length_error ''write_table_with_blooms: bloom_fpps'' (length bloom_fpps) (length columns))) (\<lambda>_.
     write_table_inner ext sbbf columns cdc row_group_size Pages_V1 (Some bloom_fpps))"

definition write_table_with_dict_to_path ::
  "codecs \<Rightarrow> (nat \<Rightarrow> 64 word \<Rightarrow> u64) \<Rightarrow> (bytes \<times> column_data) list \<Rightarrow> compression_codec \<Rightarrow> nat \<Rightarrow>
   bool list \<Rightarrow> bytes codec_result" where
  "write_table_with_dict_to_path ext sbbf columns cdc row_group_size dict_per_column =
     write_table_inner_full ext sbbf columns cdc row_group_size Pages_V1 None (Some dict_per_column)"

definition write_table_with_dict_and_blooms_to_path ::
  "codecs \<Rightarrow> (nat \<Rightarrow> 64 word \<Rightarrow> u64) \<Rightarrow> (bytes \<times> column_data) list \<Rightarrow> compression_codec \<Rightarrow> nat \<Rightarrow>
   bool list \<Rightarrow> 64 word option list \<Rightarrow> bytes codec_result" where
  "write_table_with_dict_and_blooms_to_path ext sbbf columns cdc row_group_size dict_per_column bloom_fpps =
     bind_o (require_o (length bloom_fpps = length columns)
       (length_error ''write_table_with_dict_and_blooms: bloom_fpps'' (length bloom_fpps) (length columns))) (\<lambda>_.
     write_table_inner_full ext sbbf columns cdc row_group_size Pages_V1 (Some bloom_fpps) (Some dict_per_column))"

section \<open>Files of one column\<close>

text \<open>The footer both single-column writers build: one row group without an ordinal.\<close>

definition single_column_footer ::
  "bytes \<Rightarrow> parquet_type \<Rightarrow> compression_codec \<Rightarrow> nat \<Rightarrow> prepared_column \<Rightarrow> file_metadata" where
  "single_column_footer nm pt cdc num_values prep = footer_metadata [root_element 1, leaf_element nm pt None] num_values
     [\<lparr>rg_columns = [prepared_chunk (prepared_metadata nm pt cdc num_values prep)],
       rg_total_byte_size = pc_total_uncompressed_size prep,
       rg_num_rows = of_nat num_values,
       rg_sorting_columns = None,
       rg_file_offset = None,
       rg_total_compressed_size = None,
       rg_ordinal = None\<rparr>] None"

definition single_column_end ::
  "bytes \<Rightarrow> parquet_type \<Rightarrow> compression_codec \<Rightarrow> nat \<Rightarrow> column_stats \<Rightarrow> bytes option \<Rightarrow> chunk_place \<times> sink \<Rightarrow> bytes codec_result" where
  "single_column_end nm pt cdc num_values stats bloom_bytes p =
     (case p of ((data_page_offset, dictionary_page_offset, total_uncomp, total_comp), sk) \<Rightarrow>
      let ((bloom_filter_offset, bloom_filter_length), sk) = write_bloom bloom_bytes sk
      in write_footer (single_column_footer nm pt cdc num_values \<lparr>
           pc_data_page_offset = data_page_offset,
           pc_dictionary_page_offset = dictionary_page_offset,
           pc_total_uncompressed_size = total_uncomp,
           pc_total_compressed_size = total_comp,
           pc_stats = stats,
           pc_bloom_filter_offset = bloom_filter_offset,
           pc_bloom_filter_length = bloom_filter_length\<rparr>) (sk_out sk))"

definition write_single_column_inner ::
  "codecs \<Rightarrow> bytes \<Rightarrow> parquet_type \<Rightarrow> nat \<Rightarrow> bytes \<Rightarrow> compression_codec \<Rightarrow> column_stats \<Rightarrow> bytes option \<Rightarrow> bytes codec_result" where
  "write_single_column_inner ext column_name pt num_values body cdc stats bloom_bytes =
     bind_o (write_plain_page ext Pages_V1 cdc num_values stats body sink_start)
       (single_column_end column_name pt cdc num_values stats bloom_bytes)"

definition write_single_column ::
  "codecs \<Rightarrow> bytes \<Rightarrow> parquet_type \<Rightarrow> nat \<Rightarrow> bytes \<Rightarrow> compression_codec \<Rightarrow> column_stats \<Rightarrow> bytes codec_result" where
  "write_single_column ext column_name pt num_values body cdc stats =
     write_single_column_inner ext column_name pt num_values body cdc stats None"

definition write_single_column_dict_inner ::
  "codecs \<Rightarrow> bytes \<Rightarrow> parquet_type \<Rightarrow> nat \<Rightarrow> bytes \<Rightarrow> nat \<Rightarrow> u32 list \<Rightarrow> compression_codec \<Rightarrow> column_stats \<Rightarrow> bytes option \<Rightarrow>
   bytes codec_result" where
  "write_single_column_dict_inner ext column_name pt num_values dict_body dict_len indices cdc stats bloom_bytes =
     bind_o (write_dict_pages ext cdc num_values stats (dict_body, dict_len, indices) sink_start)
       (single_column_end column_name pt cdc num_values stats bloom_bytes)"

definition write_single_column_dict ::
  "codecs \<Rightarrow> bytes \<Rightarrow> parquet_type \<Rightarrow> nat \<Rightarrow> bytes \<Rightarrow> nat \<Rightarrow> u32 list \<Rightarrow> compression_codec \<Rightarrow> column_stats \<Rightarrow> bytes codec_result" where
  "write_single_column_dict ext column_name pt num_values dict_body dict_len indices cdc stats =
     write_single_column_dict_inner ext column_name pt num_values dict_body dict_len indices cdc stats None"

definition write_to_path ::
  "codecs \<Rightarrow> bytes \<Rightarrow> parquet_type \<Rightarrow> nat \<Rightarrow> bytes \<Rightarrow> compression_codec \<Rightarrow> column_stats \<Rightarrow> bytes codec_result" where
  "write_to_path = write_single_column"

definition write_to_path_with_bloom ::
  "codecs \<Rightarrow> bytes \<Rightarrow> parquet_type \<Rightarrow> nat \<Rightarrow> bytes \<Rightarrow> compression_codec \<Rightarrow> column_stats \<Rightarrow> bytes \<Rightarrow> bytes codec_result" where
  "write_to_path_with_bloom ext nm pt num_values body cdc stats bloom_bytes =
     write_single_column_inner ext nm pt num_values body cdc stats (Some bloom_bytes)"

section \<open>PLAIN files\<close>

definition write_i64_column :: "codecs \<Rightarrow> bytes \<Rightarrow> i64 list \<Rightarrow> bytes codec_result" where
  "write_i64_column ext nm vs =
     write_single_column ext nm PT_Int64 (length vs) (encode_plain_i64 vs) CC_Uncompressed (stats_i64 vs)"

definition write_i64_column_to_path_with_codec :: "codecs \<Rightarrow> bytes \<Rightarrow> i64 list \<Rightarrow> compression_codec \<Rightarrow> bytes codec_result" where
  "write_i64_column_to_path_with_codec ext nm vs cdc =
     write_to_path ext nm PT_Int64 (length vs) (encode_plain_i64 vs) cdc (stats_i64 vs)"

definition write_i64_column_to_path :: "codecs \<Rightarrow> bytes \<Rightarrow> i64 list \<Rightarrow> bytes codec_result" where
  "write_i64_column_to_path ext nm vs = write_i64_column_to_path_with_codec ext nm vs CC_Uncompressed"

definition write_i32_column :: "codecs \<Rightarrow> bytes \<Rightarrow> i32 list \<Rightarrow> bytes codec_result" where
  "write_i32_column ext nm vs =
     write_single_column ext nm PT_Int32 (length vs) (encode_plain_i32 vs) CC_Uncompressed (stats_i32 vs)"

definition write_i32_column_to_path_with_codec :: "codecs \<Rightarrow> bytes \<Rightarrow> i32 list \<Rightarrow> compression_codec \<Rightarrow> bytes codec_result" where
  "write_i32_column_to_path_with_codec ext nm vs cdc =
     write_to_path ext nm PT_Int32 (length vs) (encode_plain_i32 vs) cdc (stats_i32 vs)"

definition write_i32_column_to_path :: "codecs \<Rightarrow> bytes \<Rightarrow> i32 list \<Rightarrow> bytes codec_result" where
  "write_i32_column_to_path ext nm vs = write_i32_column_to_path_with_codec ext nm vs CC_Uncompressed"

definition write_f64_column :: "codecs \<Rightarrow> bytes \<Rightarrow> 64 word list \<Rightarrow> bytes codec_result" where
  "write_f64_column ext nm vs =
     write_single_column ext nm PT_Double (length vs) (encode_plain_f64 vs) CC_Uncompressed (stats_f64 vs)"

definition write_f64_column_to_path_with_codec :: "codecs \<Rightarrow> bytes \<Rightarrow> 64 word list \<Rightarrow> compression_codec \<Rightarrow> bytes codec_result" where
  "write_f64_column_to_path_with_codec ext nm vs cdc =
     write_to_path ext nm PT_Double (length vs) (encode_plain_f64 vs) cdc (stats_f64 vs)"

definition write_f64_column_to_path :: "codecs \<Rightarrow> bytes \<Rightarrow> 64 word list \<Rightarrow> bytes codec_result" where
  "write_f64_column_to_path ext nm vs = write_f64_column_to_path_with_codec ext nm vs CC_Uncompressed"

definition write_bool_column :: "codecs \<Rightarrow> bytes \<Rightarrow> bool list \<Rightarrow> bytes codec_result" where
  "write_bool_column ext nm vs =
     bind_o (encode_plain_bool vs) (\<lambda>body. write_single_column ext nm PT_Boolean (length vs) body CC_Uncompressed (stats_bool vs))"

definition write_bool_column_to_path_with_codec :: "codecs \<Rightarrow> bytes \<Rightarrow> bool list \<Rightarrow> compression_codec \<Rightarrow> bytes codec_result" where
  "write_bool_column_to_path_with_codec ext nm vs cdc =
     bind_o (encode_plain_bool vs) (\<lambda>body. write_to_path ext nm PT_Boolean (length vs) body cdc (stats_bool vs))"

definition write_bool_column_to_path :: "codecs \<Rightarrow> bytes \<Rightarrow> bool list \<Rightarrow> bytes codec_result" where
  "write_bool_column_to_path ext nm vs = write_bool_column_to_path_with_codec ext nm vs CC_Uncompressed"

definition write_byte_array_column :: "codecs \<Rightarrow> bytes \<Rightarrow> bytes list \<Rightarrow> bytes codec_result" where
  "write_byte_array_column ext nm vs =
     write_single_column ext nm PT_ByteArray (length vs) (encode_plain_byte_array vs) CC_Uncompressed (stats_byte_array vs)"

definition write_byte_array_column_to_path_with_codec :: "codecs \<Rightarrow> bytes \<Rightarrow> bytes list \<Rightarrow> compression_codec \<Rightarrow> bytes codec_result" where
  "write_byte_array_column_to_path_with_codec ext nm vs cdc =
     write_to_path ext nm PT_ByteArray (length vs) (encode_plain_byte_array vs) cdc (stats_byte_array vs)"

definition write_byte_array_column_to_path :: "codecs \<Rightarrow> bytes \<Rightarrow> bytes list \<Rightarrow> bytes codec_result" where
  "write_byte_array_column_to_path ext nm vs = write_byte_array_column_to_path_with_codec ext nm vs CC_Uncompressed"

section \<open>PLAIN files with a bloom filter\<close>

definition write_i64_column_with_bloom_to_path ::
  "codecs \<Rightarrow> (nat \<Rightarrow> 64 word \<Rightarrow> u64) \<Rightarrow> bytes \<Rightarrow> i64 list \<Rightarrow> compression_codec \<Rightarrow> 64 word \<Rightarrow> bytes codec_result" where
  "write_i64_column_with_bloom_to_path ext sbbf nm vs cdc target_fpp =
     bind_o (build_bloom_for_column sbbf (Col_I64 vs) target_fpp) (\<lambda>bloom_bytes.
     write_to_path_with_bloom ext nm PT_Int64 (length vs) (encode_plain_i64 vs) cdc (stats_i64 vs) bloom_bytes)"

definition write_i32_column_with_bloom_to_path ::
  "codecs \<Rightarrow> (nat \<Rightarrow> 64 word \<Rightarrow> u64) \<Rightarrow> bytes \<Rightarrow> i32 list \<Rightarrow> compression_codec \<Rightarrow> 64 word \<Rightarrow> bytes codec_result" where
  "write_i32_column_with_bloom_to_path ext sbbf nm vs cdc target_fpp =
     bind_o (build_bloom_for_column sbbf (Col_I32 vs) target_fpp) (\<lambda>bloom_bytes.
     write_to_path_with_bloom ext nm PT_Int32 (length vs) (encode_plain_i32 vs) cdc (stats_i32 vs) bloom_bytes)"

definition write_f64_column_with_bloom_to_path ::
  "codecs \<Rightarrow> (nat \<Rightarrow> 64 word \<Rightarrow> u64) \<Rightarrow> bytes \<Rightarrow> 64 word list \<Rightarrow> compression_codec \<Rightarrow> 64 word \<Rightarrow> bytes codec_result" where
  "write_f64_column_with_bloom_to_path ext sbbf nm vs cdc target_fpp =
     bind_o (build_bloom_for_column sbbf (Col_F64 vs) target_fpp) (\<lambda>bloom_bytes.
     write_to_path_with_bloom ext nm PT_Double (length vs) (encode_plain_f64 vs) cdc (stats_f64 vs) bloom_bytes)"

definition write_byte_array_column_with_bloom_to_path ::
  "codecs \<Rightarrow> (nat \<Rightarrow> 64 word \<Rightarrow> u64) \<Rightarrow> bytes \<Rightarrow> bytes list \<Rightarrow> compression_codec \<Rightarrow> 64 word \<Rightarrow> bytes codec_result" where
  "write_byte_array_column_with_bloom_to_path ext sbbf nm vs cdc target_fpp =
     bind_o (build_bloom_for_column sbbf (Col_ByteArray vs) target_fpp) (\<lambda>bloom_bytes.
     write_to_path_with_bloom ext nm PT_ByteArray (length vs) (encode_plain_byte_array vs) cdc (stats_byte_array vs) bloom_bytes)"

section \<open>Dictionary-encoded files\<close>

text \<open>The filter of these holds the entries of the dictionary.\<close>

definition write_i64_column_dict_to_path :: "codecs \<Rightarrow> bytes \<Rightarrow> i64 list \<Rightarrow> compression_codec \<Rightarrow> bytes codec_result" where
  "write_i64_column_dict_to_path ext nm vs cdc =
     (let (dict, indices) = build_dict_i64 vs
      in write_single_column_dict ext nm PT_Int64 (length vs) (encode_plain_i64 dict) (length dict) indices cdc (stats_i64 vs))"

definition write_i64_column_dict_with_bloom_to_path ::
  "codecs \<Rightarrow> (nat \<Rightarrow> 64 word \<Rightarrow> u64) \<Rightarrow> bytes \<Rightarrow> i64 list \<Rightarrow> compression_codec \<Rightarrow> 64 word \<Rightarrow> bytes codec_result" where
  "write_i64_column_dict_with_bloom_to_path ext sbbf nm vs cdc target_fpp =
     (let (dict, indices) = build_dict_i64 vs
      in bind_o (build_bloom_for_column sbbf (Col_I64 dict) target_fpp) (\<lambda>bloom_bytes.
         write_single_column_dict_inner ext nm PT_Int64 (length vs) (encode_plain_i64 dict) (length dict) indices cdc (stats_i64 vs)
           (Some bloom_bytes)))"

definition write_i32_column_dict_to_path :: "codecs \<Rightarrow> bytes \<Rightarrow> i32 list \<Rightarrow> compression_codec \<Rightarrow> bytes codec_result" where
  "write_i32_column_dict_to_path ext nm vs cdc =
     (let (dict, indices) = build_dict_i32 vs
      in write_single_column_dict ext nm PT_Int32 (length vs) (encode_plain_i32 dict) (length dict) indices cdc (stats_i32 vs))"

definition write_i32_column_dict_with_bloom_to_path ::
  "codecs \<Rightarrow> (nat \<Rightarrow> 64 word \<Rightarrow> u64) \<Rightarrow> bytes \<Rightarrow> i32 list \<Rightarrow> compression_codec \<Rightarrow> 64 word \<Rightarrow> bytes codec_result" where
  "write_i32_column_dict_with_bloom_to_path ext sbbf nm vs cdc target_fpp =
     (let (dict, indices) = build_dict_i32 vs
      in bind_o (build_bloom_for_column sbbf (Col_I32 dict) target_fpp) (\<lambda>bloom_bytes.
         write_single_column_dict_inner ext nm PT_Int32 (length vs) (encode_plain_i32 dict) (length dict) indices cdc (stats_i32 vs)
           (Some bloom_bytes)))"

definition write_f64_column_dict_to_path :: "codecs \<Rightarrow> bytes \<Rightarrow> 64 word list \<Rightarrow> compression_codec \<Rightarrow> bytes codec_result" where
  "write_f64_column_dict_to_path ext nm vs cdc =
     (let (dict, indices) = build_dict_f64 vs
      in write_single_column_dict ext nm PT_Double (length vs) (encode_plain_f64 dict) (length dict) indices cdc (stats_f64 vs))"

definition write_f64_column_dict_with_bloom_to_path ::
  "codecs \<Rightarrow> (nat \<Rightarrow> 64 word \<Rightarrow> u64) \<Rightarrow> bytes \<Rightarrow> 64 word list \<Rightarrow> compression_codec \<Rightarrow> 64 word \<Rightarrow> bytes codec_result" where
  "write_f64_column_dict_with_bloom_to_path ext sbbf nm vs cdc target_fpp =
     (let (dict, indices) = build_dict_f64 vs
      in bind_o (build_bloom_for_column sbbf (Col_F64 dict) target_fpp) (\<lambda>bloom_bytes.
         write_single_column_dict_inner ext nm PT_Double (length vs) (encode_plain_f64 dict) (length dict) indices cdc (stats_f64 vs)
           (Some bloom_bytes)))"

definition write_byte_array_column_dict_to_path :: "codecs \<Rightarrow> bytes \<Rightarrow> bytes list \<Rightarrow> compression_codec \<Rightarrow> bytes codec_result" where
  "write_byte_array_column_dict_to_path ext nm vs cdc =
     (let (dict, indices) = build_dict_byte_array vs
      in write_single_column_dict ext nm PT_ByteArray (length vs) (encode_plain_byte_array dict) (length dict) indices cdc (stats_byte_array vs))"

definition write_byte_array_column_dict_with_bloom_to_path ::
  "codecs \<Rightarrow> (nat \<Rightarrow> 64 word \<Rightarrow> u64) \<Rightarrow> bytes \<Rightarrow> bytes list \<Rightarrow> compression_codec \<Rightarrow> 64 word \<Rightarrow> bytes codec_result" where
  "write_byte_array_column_dict_with_bloom_to_path ext sbbf nm vs cdc target_fpp =
     (let (dict, indices) = build_dict_byte_array vs
      in bind_o (build_bloom_for_column sbbf (Col_ByteArray dict) target_fpp) (\<lambda>bloom_bytes.
         write_single_column_dict_inner ext nm PT_ByteArray (length vs) (encode_plain_byte_array dict) (length dict) indices cdc (stats_byte_array vs)
           (Some bloom_bytes)))"

end
