(* ===== verification/TableRead.thy ===== *)
theory TableRead
  imports TableFile WriteColumn
begin

text \<open>
  Reading a written table back: for every row group and column, the readers of \<open>read.rs\<close> return the rows of
  the column slice that \<open>write.rs\<close> wrote there, and the row-masked readers those at the set bits of the
  mask.
\<close>

section \<open>Tables that fit\<close>

text \<open>The sizes a running program has, and page bodies below 2 GiB.\<close>

definition table_fits :: "table_options \<Rightarrow> (bytes \<times> column_data) list \<Rightarrow> bool" where
  "table_fits opts columns \<longleftrightarrow> length columns < 2 ^ 31 \<and> row_count (snd (hd columns)) < 2 ^ 63 \<and>
     (\<forall>(nm, col) \<in> set columns. fits nm \<and> (\<forall>a b part. b - a \<le> wt_row_group_size opts \<longrightarrow>
        column_slice col a b = (Ok part :: column_data codec_result) \<longrightarrow> slice_fits part)) \<and>
     pred_option (\<lambda>kvs. fits kvs \<and> (\<forall>(k, v) \<in> set kvs. fits k \<and> fits v)) (wt_kv_metadata opts)"

lemma table_fits_slice:
  assumes "table_fits opts columns" and "i < length columns"
    and "column_slice (snd (columns ! i)) (row_from rows (wt_row_group_size opts) g) (row_from rows (wt_row_group_size opts) (Suc g))
      = (Ok part :: column_data codec_result)"
  shows "slice_fits part"
proof -
  have "row_from rows n (Suc g) - row_from rows n g \<le> n" for n
    by (auto simp: row_from_def min_def)
  moreover have "columns ! i \<in> set columns" using assms(2) by simp
  ultimately show ?thesis using assms(1,3) unfolding table_fits_def by (cases "columns ! i") fastforce
qed

lemma column_slice_rows:
  "column_slice col a b = (Ok part :: column_data codec_result) \<Longrightarrow> row_count part = b - a \<and> a \<le> b \<and> b \<le> row_count col"
  by (cases col) (auto simp: bind_o_eq_Ok_iff list_range_def split: if_splits)

section \<open>The footer of a written table\<close>

lemma footer_row_group_columns:
  assumes "footer_row_group opts columns rg_ix g = (Ok r :: row_group codec_result)" and "length (snd g) = length columns"
  shows "length (rg_columns r) = length columns \<and> rg_num_rows r = of_nat (fst g) \<and> rg_sorting_columns r = None \<and>
    (\<forall>i < length columns. rg_columns r ! i = prepared_chunk (prepared_metadata (fst (columns ! i))
       (column_parquet_type (snd (columns ! i))) (codec_of opts i) (fst g) (snd g ! i)))"
proof -
  obtain n prepared where g: "g = (n, prepared)" by (cases g)
  from assms(1) obtain cs where cs: "mapM_o (\<lambda>(col_ix, (nm, col), prep).
             bind_o (per_column (wt_default_codec opts) (wt_codec_per_column opts) col_ix) (\<lambda>col_codec.
             Ok (prepared_chunk (prepared_metadata nm (column_parquet_type col) col_codec n prep))))
           (enumerate 0 (zip columns prepared)) = (Ok cs :: column_chunk list codec_result)" "rg_columns r = cs"
      "rg_num_rows r = of_nat n" "rg_sorting_columns r = None"
    by (auto simp: footer_row_group_def g bind_o_eq_Ok_iff)
  have len: "length prepared = length columns" using assms(2) g by simp
  have "rg_columns r ! i = prepared_chunk (prepared_metadata (fst (columns ! i))
       (column_parquet_type (snd (columns ! i))) (codec_of opts i) n (prepared ! i))" if i: "i < length columns" for i
    using mapM_o_nth [OF cs(1)] i len cs(2)
    by (auto simp: nth_enumerate_eq split_beta bind_o_eq_Ok_iff dest!: spec [of _ i] per_column_codec)
  then show ?thesis using mapM_o_nth [OF cs(1)] cs(2-4) len by (simp add: g)
qed

lemma good_prepared_chunk:
  "fits nm \<Longrightarrow> stats_fit (pc_stats p) \<Longrightarrow> good_column_chunk (prepared_chunk (prepared_metadata nm pt cdc n p))"
  by (simp add: good_column_chunk_def good_column_metadata_def prepared_chunk_def prepared_metadata_def good_as_statistics)
    (simp add: fits_def)

text \<open>Every row group and key-value pair takes at least a byte of the footer, so a footer below 2 GiB
  has fewer of them than a \<open>Vec\<close> can hold.\<close>

lemma struct_takes_bytes: "reads read_row_group bs r \<Longrightarrow> bs \<noteq> []" "reads read_key_value cs kv \<Longrightarrow> cs \<noteq> []"
proof -
  have rg: "read_row_group (cursor_new []) = Err (UnexpectedEof 1 0)" and
    "read_key_value (cursor_new []) = Err (UnexpectedEof 1 0)"
    by (simp_all add: read_row_group_def read_key_value_def cursor_new_def bind_r_def read_fields.simps
        read_field_header_def read_u8_def)
  then show "reads read_row_group bs r \<Longrightarrow> bs \<noteq> []" "reads read_key_value cs kv \<Longrightarrow> cs \<noteq> []"
    using readsD [of _ "[]" _ "cursor_new []" "[]"] by (force simp: rest_def cursor_new_def)+
qed

lemma list_takes_bytes:
  assumes "\<And>x. x \<in> set xs \<Longrightarrow> codec_o wr rd x" and "\<And>bs x. reads rd bs x \<Longrightarrow> bs \<noteq> []"
    and "write_list_of_o t wr w xs = Ok w'"
  shows "length w + length xs \<le> length w'"
proof -
  have "length v + length ys \<le> length v'" if "\<forall>x \<in> set ys. codec_o wr rd x" "fold_o wr v ys = Ok v'" for ys v v'
    using that
  proof (induction ys arbitrary: v)
    case (Cons y ys)
    then obtain u where u: "wr v y = Ok u" "fold_o wr u ys = Ok v'" by (auto simp: bind_o_eq_Ok_iff)
    from Cons.prems(1) have "codec_o wr rd y" by simp
    then obtain body where "u = v @ body" "reads rd body y" using u(1) by (rule codec_oE)
    with assms(2) have "length v < length u" by fastforce
    with Cons.IH [OF _ u(2)] Cons.prems(1) show ?case by simp
  qed simp
  from this [OF ballI [OF assms(1)] assms(3) [unfolded write_list_of_o_def]]
  show ?thesis by (simp add: write_list_header_append [of w])
qed

lemma footer_takes_bytes:
  assumes "write_file_metadata (footer_metadata schema rows rgs kv) = Ok footer" and "list_all good_row_group rgs"
    and "pred_option (\<lambda>kvs. fits kvs \<and> (\<forall>(k, v) \<in> set kvs. fits k \<and> fits v)) kv"
  shows "length rgs \<le> length footer \<and> pred_option (\<lambda>kvs. length kvs \<le> length footer) kv"
proof -
  let ?kv = "map_option (map (\<lambda>(k, v). \<lparr>kv_key = k, kv_value = Some v\<rparr>)) kv"
  from assms(1) obtain st w where
    w: "write_list_of_o FT_Struct encode_row_group (write_field_header (fst st) 4 FT_List 3) rgs = Ok w" and
    footer: "footer = finish (put_opt 6 FT_Binary write_binary (Some created_by)
       (put_opt 5 FT_List (write_list_of FT_Struct encode_key_value) ?kv (w, 4)))"
    by (auto simp: write_file_metadata_def encode_file_metadata_def footer_metadata_def put_o_def
        bind_o_eq_Ok_iff Let_def refuse_def put_opt_def)
  have rgs: "length rgs \<le> length w"
    using list_takes_bytes [of rgs encode_row_group read_row_group, OF _ _ w] assms(2) struct_takes_bytes(1)
    by (fastforce simp: list_all_iff intro: codec_o_row_group)
  have kvs: "length v + length kvs \<le> length (write_list_of FT_Struct encode_key_value v kvs)"
    if "\<forall>x \<in> set kvs. good_key_value x" for kvs v
    using list_takes_bytes [of kvs "\<lambda>w x. Ok (encode_key_value w x)" read_key_value FT_Struct v] that struct_takes_bytes(2)
    by (fastforce simp: codec_o_iff codec_key_value write_list_of_o_def write_list_of_def fold_o_Ok)
  have len: "length v \<le> length (finish (put_opt 6 FT_Binary write_binary (Some created_by) (v, p)))" for v p
    by (simp add: finish_def write_field_stop_def put_opt_def write_binary_def write_field_header_append [of v]
        write_uvarint_append [of "v @ _"])
  show ?thesis
  proof (cases kv)
    case None
    then show ?thesis using rgs len [of w 4] footer by (simp add: put_opt_def [of 5])
  next
    case (Some kvs)
    let ?kvs = "map (\<lambda>(k, v). \<lparr>kv_key = k, kv_value = Some v\<rparr>) kvs"
    let ?u = "write_list_of FT_Struct encode_key_value (write_field_header w 5 FT_List 4) ?kvs"
    have "\<forall>x \<in> set ?kvs. good_key_value x" using assms(3) Some by (auto simp: good_key_value_def)
    from kvs [OF this, of "write_field_header w 5 FT_List 4"] have "length w + length kvs \<le> length ?u"
      by (simp add: write_field_header_append [of w])
    moreover have "length ?u \<le> length footer"
      using len [of ?u 5] footer Some by (simp add: put_opt_def [of 5])
    ultimately show ?thesis using rgs Some by simp
  qed
qed

lemma good_footer:
  assumes "\<forall>(nm, col) \<in> set columns. fits nm" and "length columns < 2 ^ 31" and "length rgs < 2 ^ 32"
    and "list_all good_row_group rgs" and "pred_option (\<lambda>kvs. length kvs < 2 ^ 32) kv"
    and "pred_option (\<lambda>kvs. fits kvs \<and> (\<forall>(k, v) \<in> set kvs. fits k \<and> fits v)) kv"
  shows "good_file_metadata (footer_metadata (footer_schema columns) rows rgs kv)"
proof -
  have "list_all good_schema_element (footer_schema columns)"
    using assms(1) by (auto simp: footer_schema_def list_all_iff good_schema_element_def root_element_def leaf_element_def fits_def)
  moreover have "fits created_by" by (simp add: fits_def created_by_def)
  moreover have "pred_option (\<lambda>kvs. fits_vec sizeof_key_value kvs \<and> list_all good_key_value kvs)
      (map_option (map (\<lambda>(k, v). \<lparr>kv_key = k, kv_value = Some v\<rparr>)) kv)"
    using assms(5,6) by (cases kv) (auto simp: fits_vec_def sizeof_key_value_def list_all_iff good_key_value_def)
  ultimately show ?thesis using assms(2-4)
    by (simp add: good_file_metadata_def footer_metadata_def)
      (simp add: fits_vec_def sizeof_schema_element_def sizeof_row_group_def footer_schema_def)
qed

section \<open>Opening a written table\<close>

lemma group_count_le:
  assumes "n \<noteq> 0"
  shows "group_count rows n \<le> max 1 rows"
proof (cases "rows = 0")
  case False
  have "rows * 1 \<le> rows * n" using assms by (intro mult_le_mono2) simp
  then have "rows + n - 1 < Suc rows * n" using assms by (simp only: mult_Suc)
  then have "(rows + n - 1) div n < Suc rows" by (rule less_mult_imp_div_less)
  then show ?thesis using False by (simp add: group_count_def div_ceil_def)
qed (simp add: group_count_def)

text \<open>What a written file holds at row group \<open>g\<close> and column \<open>i\<close>.\<close>

definition chunk_written :: "codecs \<Rightarrow> (bytes \<times> column_data) list \<Rightarrow> table_options \<Rightarrow> bytes \<Rightarrow> file_metadata \<Rightarrow> nat \<Rightarrow> nat \<Rightarrow> bool" where
  "chunk_written ext columns opts file md g i \<longleftrightarrow>
     (let rows = row_count (snd (hd columns)); a = row_from rows (wt_row_group_size opts) g;
          b = row_from rows (wt_row_group_size opts) (Suc g)
      in \<exists>part p. column_slice (snd (columns ! i)) a b = (Ok part :: column_data codec_result) \<and>
           chunk_in file ext (dict_chosen opts i) (codec_of opts i) (b - a) part p \<and>
           chunk_at md g i = Ok (prepared_chunk (prepared_metadata (fst (columns ! i))
             (column_parquet_type (snd (columns ! i))) (codec_of opts i) (b - a) p)))"

lemma table_opens:
  assumes run: "write_table_inner_full_v2 ext sbbf columns opts = Ok file" and fits: "table_fits opts columns"
    and size: "length file < 2 ^ 31"
  shows "\<exists>pf rgs. file_open file = Ok pf \<and> pf_file pf = file \<and> pf_file_size pf = length file \<and>
    file_metadata_of pf = Ok (footer_metadata (footer_schema columns) (row_count (snd (hd columns))) rgs (wt_kv_metadata opts)) \<and>
    length rgs = group_count (row_count (snd (hd columns))) (wt_row_group_size opts) \<and>
    (\<forall>g < length rgs. \<forall>i < length columns. chunk_written ext columns opts file
       (footer_metadata (footer_schema columns) (row_count (snd (hd columns))) rgs (wt_kv_metadata opts)) g i) \<and>
    length rgs < 2 ^ 32 \<and>
    (\<forall>g < length rgs. rg_num_rows (rgs ! g) = of_nat (row_from (row_count (snd (hd columns))) (wt_row_group_size opts) (Suc g) -
       row_from (row_count (snd (hd columns))) (wt_row_group_size opts) g))"
proof -
  let ?rows = "row_count (snd (hd columns))" and ?n = "wt_row_group_size opts"
  obtain sk groups rgs footer where w: "columns \<noteq> []" "?n \<noteq> 0"
    "write_row_groups ext sbbf opts columns ?rows sink_start [] 0 False = Ok (sk, groups)"
    "mapM_o (\<lambda>(rg_ix, g). footer_row_group opts columns rg_ix g) (enumerate 0 groups) = (Ok rgs :: row_group list codec_result)"
    "write_file_metadata (footer_metadata (footer_schema columns) ?rows rgs (wt_kv_metadata opts)) = Ok footer"
    "file = sk_out sk @ footer @ to_le_bytes (of_nat (length footer) :: u32) @ parquet_magic"
    by (rule write_table_steps [OF run])
  let ?md = "footer_metadata (footer_schema columns) ?rows rgs (wt_kv_metadata opts)"
  obtain bs where out: "sk_out sk = parquet_magic @ bs" "length groups = group_count ?rows ?n"
    "groups_in (sk_out sk) ext opts columns ?rows groups"
  proof -
    have "groups_in (sk_out sink_start) ext opts columns ?rows []" "0 < ?n" "0 = row_from ?rows ?n (length ([] :: prepared_group list))"
      "False \<longleftrightarrow> ([] :: prepared_group list) \<noteq> []" "length ([] :: prepared_group list) \<le> 1 \<or> row_from ?rows ?n (length ([] :: prepared_group list) - 1) < ?rows"
      using w(2) by (simp_all add: groups_in_def row_from_def)
    from write_row_groups_spec [OF w(3) sink_ok_start this(2,1,3,4,5)] that show thesis by (auto simp: sink_start_def)
  qed
  have len: "length rgs = length groups" using mapM_o_nth [OF w(4)] by simp
  have grp: "fst (groups ! g) = row_from ?rows ?n (Suc g) - row_from ?rows ?n g"
      "group_in file ext opts columns 0 (row_from ?rows ?n g) (row_from ?rows ?n (Suc g)) (snd (groups ! g))"
    if "g < length groups" for g
    using groups_in_append [OF out(3)] that unfolding w(6) groups_in_def Let_def by blast+
  have row: "footer_row_group opts columns g (groups ! g) = (Ok (rgs ! g) :: row_group codec_result)" if "g < length groups" for g
    using mapM_o_nth [OF w(4)] that by (auto simp: nth_enumerate_eq)
  note cols = footer_row_group_columns [OF row]
  have "good_row_group (rgs ! g)" if g: "g < length groups" for g
  proof -
    have prepared: "length (snd (groups ! g)) = length columns" using grp(2) [OF g] by (simp add: group_in_def)
    have "good_column_chunk (rg_columns (rgs ! g) ! i)" if i: "i < length columns" for i
    proof -
      from grp(2) [OF g] i obtain part where part:
        "column_slice (snd (columns ! i)) (row_from ?rows ?n g) (row_from ?rows ?n (Suc g)) = (Ok part :: column_data codec_result)"
        "pc_stats (snd (groups ! g) ! i) = compute_stats part" unfolding group_in_def chunk_in_def by blast
      have "fits (fst (columns ! i))" using fits i by (auto simp: table_fits_def split_beta)
      with part(2) stats_fit_compute [OF table_fits_slice [OF fits i part(1)]] cols [OF g prepared] i
      show ?thesis by (simp add: good_prepared_chunk)
    qed
    then show ?thesis using cols [OF g prepared] fits
      by (auto simp: good_row_group_def list_all_length table_fits_def fits_vec_def sizeof_column_chunk_def)
  qed
  then have rgs: "list_all good_row_group rgs" using len by (simp add: list_all_length)
  have kv: "pred_option (\<lambda>kvs. fits kvs \<and> (\<forall>(k, v) \<in> set kvs. fits k \<and> fits v)) (wt_kv_metadata opts)"
    using fits by (simp add: table_fits_def)
  have "length footer < 2 ^ 32" using size unfolding w(6) by simp
  with footer_takes_bytes [OF w(5) rgs kv] have small: "length rgs < 2 ^ 32" "pred_option (\<lambda>kvs. length kvs < 2 ^ 32) (wt_kv_metadata opts)"
    by (auto simp: pred_option_def)
  with fits rgs kv small have "good_file_metadata ?md"
    by (intro good_footer) (auto simp: table_fits_def)
  from read_file_metadata_written [OF this w(5)] obtain cur where md: "read_file_metadata (cursor_new footer) = Ok (?md, cur)" by blast
  have flen: "length file = length (sk_out sk) + length footer + 8" unfolding w(6) by (simp add: parquet_magic_def)
  then have "length footer < 2 ^ 32" using size by simp
  note opened = file_open_written [OF out(1) this, folded w(6)]
  obtain pf where pf: "file_open file = Ok pf" "pf_file pf = file" "pf_footer_bytes pf = footer"
    "pf_file_size pf = length file" using opened flen by simp
  have "chunk_written ext columns opts file ?md g i" if g: "g < length rgs" and i: "i < length columns" for g i
  proof -
    have g': "g < length groups" using g len by simp
    then have prepared: "length (snd (groups ! g)) = length columns" using grp(2) by (simp add: group_in_def)
    have "chunk_at ?md g i = Ok (rg_columns (rgs ! g) ! i)"
      using g i cols [OF g' prepared] by (simp add: chunk_at_def get_o_def footer_metadata_def)
    then show ?thesis
      using grp [OF g'] i cols [OF g' prepared] unfolding chunk_written_def Let_def group_in_def by fastforce
  qed
  moreover have "rg_num_rows (rgs ! g) = of_nat (row_from ?rows ?n (Suc g) - row_from ?rows ?n g)" if "g < length rgs" for g
  proof -
    have g: "g < length groups" using that len by simp
    then have "length (snd (groups ! g)) = length columns" using grp(2) by (simp add: group_in_def)
    with cols [OF g] grp(1) [OF g] show ?thesis by simp
  qed
  ultimately show ?thesis using pf md len out(2) small(1)
    by (intro exI [of _ pf] exI [of _ rgs]) (simp add: file_metadata_of_def)
qed

section \<open>Fetching a chunk\<close>

lemma prepared_fields:
  "cc_meta_data (prepared_chunk cm) = Some cm"
  "cm_data_page_offset (prepared_metadata nm pt cdc n p) = pc_data_page_offset p"
  "cm_dictionary_page_offset (prepared_metadata nm pt cdc n p) = pc_dictionary_page_offset p"
  "cm_total_compressed_size (prepared_metadata nm pt cdc n p) = pc_total_compressed_size p"
  "cm_num_values (prepared_metadata nm pt cdc n p) = of_nat n"
  "cm_codec (prepared_metadata nm pt cdc n p) = cdc"
  by (simp_all add: prepared_chunk_def prepared_metadata_def)

definition fetched :: "codecs \<Rightarrow> parquet_file \<Rightarrow> nat \<Rightarrow> nat \<Rightarrow> column_data \<Rightarrow> bool" where
  "fetched ext pf g i part \<longleftrightarrow> slice_fits part \<and> (\<exists>cdc ps ck. written_pages ext cdc (row_count part) part ps \<and>
     read_chunk_raw pf g i = Ok ck \<and> flat_chunk ck cdc \<and> ck_total_values ck = row_count part \<and>
     ck_bytes ck = chunk_bytes ps \<and> list_all page_ok ps)"

text \<open>The same, with the writer's choice of a dictionary known.\<close>

definition fetched_as :: "codecs \<Rightarrow> bool \<Rightarrow> parquet_file \<Rightarrow> nat \<Rightarrow> nat \<Rightarrow> column_data \<Rightarrow> bool" where
  "fetched_as ext dict pf g i part \<longleftrightarrow> slice_fits part \<and> (\<exists>cdc ps ck. written_as ext dict cdc (row_count part) part ps \<and>
     read_chunk_raw pf g i = Ok ck \<and> flat_chunk ck cdc \<and> ck_total_values ck = row_count part \<and>
     ck_bytes ck = chunk_bytes ps \<and> list_all page_ok ps)"

lemma fetched_as_fetched: "fetched_as ext dict pf g i part \<Longrightarrow> fetched ext pf g i part"
  unfolding fetched_as_def fetched_def using written_as_pages by blast

lemma chunk_start:
  assumes "place_at start ps p" and "list_all page_ok ps" and "start + length (chunk_bytes ps) < 2 ^ 31"
  shows "as_usize (case pc_dictionary_page_offset p of
      Some d \<Rightarrow> if sint d < sint (pc_data_page_offset p) then d else pc_data_page_offset p
    | None \<Rightarrow> pc_data_page_offset p) = start"
    and "as_usize (pc_total_compressed_size p) = length (chunk_bytes ps)"
proof -
  have small: "as_usize (of_nat n :: i64) = n" "sint (of_nat n :: i64) = int n" if "n < 2 ^ 31" for n
    using that by (simp_all add: as_usize_of_nat_i64 sint_small_i64)
  show "as_usize (case pc_dictionary_page_offset p of
      Some d \<Rightarrow> if sint d < sint (pc_data_page_offset p) then d else pc_data_page_offset p
    | None \<Rightarrow> pc_data_page_offset p) = start"
  proof (cases "pc_dictionary_page_offset p")
    case None
    then show ?thesis using assms(1,3) by (simp add: place_at_def small)
  next
    case (Some d)
    then have d: "d = of_nat start" "pc_data_page_offset p = of_nat (start + length (page_bytes (hd ps)))" "length ps = 2"
      using assms(1) by (auto simp: place_at_def)
    then obtain h c qs where ps: "ps = (h, c) # qs" by (cases ps) auto
    have "write_page_header h \<noteq> []" using assms(2) page_header_nonempty by (simp add: ps page_ok_def)
    then have "0 < length (page_bytes (hd ps))" by (simp add: ps page_bytes_def)
    moreover have "start + length (page_bytes (hd ps)) < 2 ^ 31" using assms(3) by (simp add: ps)
    ultimately show ?thesis using small [of start] small [of "start + length (page_bytes (hd ps))"] by (simp add: Some d(1,2) del: of_nat_add)
  qed
  show "as_usize (pc_total_compressed_size p) = length (chunk_bytes ps)"
    using assms(1,3) by (simp add: place_at_def small)
qed

lemma chunk_fetched:
  assumes pf: "pf_file pf = file" "pf_file_size pf = length file" "file_metadata_of pf = Ok md" "fm_schema md = footer_schema columns"
    and size: "length file < 2 ^ 31" and fits: "table_fits opts columns" and i: "i < length columns"
    and chunk: "chunk_written ext columns opts file md g i"
  shows "\<exists>part. column_slice (snd (columns ! i)) (row_from (row_count (snd (hd columns))) (wt_row_group_size opts) g)
      (row_from (row_count (snd (hd columns))) (wt_row_group_size opts) (Suc g)) = (Ok part :: column_data codec_result) \<and>
    fetched_as ext (dict_chosen opts i) pf g i part"
proof -
  let ?a = "row_from (row_count (snd (hd columns))) (wt_row_group_size opts) g"
  let ?b = "row_from (row_count (snd (hd columns))) (wt_row_group_size opts) (Suc g)"
  from chunk obtain part p pre ps post where part: "column_slice (snd (columns ! i)) ?a ?b = (Ok part :: column_data codec_result)"
    and at: "chunk_at md g i = Ok (prepared_chunk (prepared_metadata (fst (columns ! i))
             (column_parquet_type (snd (columns ! i))) (codec_of opts i) (?b - ?a) p))"
    and ps: "file = pre @ chunk_bytes ps @ post" "written_as ext (dict_chosen opts i) (codec_of opts i) (?b - ?a) part ps" "place_at (length pre) ps p"
    unfolding chunk_written_def Let_def chunk_in_def by blast
  have rows: "row_count part = ?b - ?a" using column_slice_rows [OF part] by simp
  have slice: "slice_fits part" by (rule table_fits_slice [OF fits i part])
  have len: "length pre + length (chunk_bytes ps) < 2 ^ 31" using size ps(1) by simp
  then have ok: "list_all page_ok ps" using pages_ok [OF written_as_pages [OF ps(2)] slice] by simp
  note start = chunk_start [OF ps(3) ok len]
  have "?b - ?a \<le> row_count (snd (hd columns))" by (simp add: row_from_def)
  then have small: "?b - ?a < 2 ^ 63" using fits by (simp add: table_fits_def)
  have levels: "compute_max_levels (footer_schema columns) i = Ok (0, 0)" using footer_levels [OF i] fits by (simp add: table_fits_def)
  have "read_range pf (length pre) (length (chunk_bytes ps)) = Ok (chunk_bytes ps)"
    using pf(1,2) ps(1) len by (simp add: read_range_def)
  then have "read_chunk_raw pf g i = Ok \<lparr>ck_bytes = chunk_bytes ps, ck_total_values = ?b - ?a, ck_codec = codec_of opts i,
      ck_max_rep_level = 0, ck_max_def_level = 0\<rparr>"
    unfolding read_chunk_raw_def using pf(3,4) at start levels as_usize_of_nat_i64 [OF small]
    by (simp add: prepared_fields ok_or_def cong: option.case_cong if_cong)
  then show ?thesis using part ps(2) ok slice rows unfolding fetched_as_def
    by (intro exI [of _ part] conjI exI [of _ "codec_of opts i"] exI [of _ ps]
        exI [of _ "\<lparr>ck_bytes = chunk_bytes ps, ck_total_values = ?b - ?a, ck_codec = codec_of opts i,
          ck_max_rep_level = 0, ck_max_def_level = 0\<rparr>"]) (simp_all add: flat_chunk_def)
qed

end
