(* ===== verification/TableRoundtrip.thy ===== *)
theory TableRoundtrip
  imports TableRead
begin

text \<open>
  The round trip of a table: the readers of \<open>read.rs\<close> over the file that \<open>write.rs\<close> wrote, for every row
  group, column, page version, codec and dictionary choice.
\<close>

section \<open>The readers on a fetched chunk\<close>

context written_values begin

lemma fetched_size: "fetched ext pf g i (con vs) \<Longrightarrow> length vs < 2 ^ 31"
  using size_con [of vs] by (simp add: fetched_def slice_fits_def)

lemma read_dense:
  assumes "codecs_sound ext" and "decodes_index gather" and "fetched ext pf g i (con vs)"
  shows "bind_o (read_chunk_raw pf g i) (\<lambda>ck.
     bind_o (walk_pages (\<lambda>s hdr body.
         bind_o (dense_page ext ck dec gather s hdr body) (\<lambda>(dict, out).
         Ok (length out < ck_total_values ck, (dict, out))))
       (page_walker_new (ck_bytes ck)) ([], [])) (\<lambda>(dict, out). Ok out)) = Ok vs"
proof -
  from assms(3) obtain cdc ps ck where f: "written_pages ext cdc (length vs) (con vs) ps" "read_chunk_raw pf g i = Ok ck"
    "flat_chunk ck cdc" "ck_total_values ck = length vs" "ck_bytes ck = chunk_bytes ps" "list_all page_ok ps" "slice_fits (con vs)"
    by (auto simp: fetched_def rows_con)
  from dense_chunk [OF f(3,4) written_column_pages [OF f(1,7) assms(1)] ok_con [OF f(7)] fetched_size [OF assms(3)] assms(2)]
  obtain d where "run_pages (\<lambda>s hdr body. bind_o (dense_page ext ck dec gather s hdr body) (\<lambda>(dict, out).
      Ok (length out < ck_total_values ck, (dict, out)))) ([], []) ps = Ok (d, vs)" by blast
  then show ?thesis by (simp add: f(2,5) walk_chunk [OF f(6)])
qed

lemma read_masked:
  assumes "codecs_sound ext" and "fetched ext pf g i (con vs)" and "length vs \<le> 8 * length msk"
  shows "masked_chunk ext pf g i msk dec sparse gather_dict_at_bitmap_into out = Ok (out @ masked msk vs)"
proof -
  from assms(2) obtain cdc ps ck where f: "written_pages ext cdc (length vs) (con vs) ps" "read_chunk_raw pf g i = Ok ck"
    "flat_chunk ck cdc" "ck_total_values ck = length vs" "ck_bytes ck = chunk_bytes ps" "list_all page_ok ps" "slice_fits (con vs)"
    by (auto simp: fetched_def rows_con)
  from masked_chunk_pages [OF f(3,4) written_column_pages [OF f(1,7) assms(1)] ok_con [OF f(7)] fetched_size [OF assms(2)] assms(3)]
  obtain d where "run_pages (masked_page ext ck msk dec sparse gather_dict_at_bitmap_into) ([], out, 0) ps
    = Ok (d, out @ masked msk vs, length vs)" by blast
  moreover have "\<not> length msk < div_ceil (length vs) 8" using assms(3) by (simp add: div_ceil_def)
  ultimately show ?thesis by (simp add: masked_chunk_def f(2,4,5) walk_chunk [OF f(6)])
qed

end

text \<open>What the typed readers make of a chunk; no reader returns booleans.\<close>

fun reads_back :: "codecs \<Rightarrow> parquet_file \<Rightarrow> nat \<Rightarrow> nat \<Rightarrow> column_data \<Rightarrow> bool" where
  "reads_back ext pf g i (Col_I32 vs) = (read_column_i32 ext pf g i = Ok vs)"
| "reads_back ext pf g i (Col_I64 vs) = (read_column_i64 ext pf g i = Ok vs)"
| "reads_back ext pf g i (Col_U64 vs) = (read_column_i64 ext pf g i = Ok vs)"
| "reads_back ext pf g i (Col_F64 vs) = (read_column_f64 ext pf g i = Ok vs)"
| "reads_back ext pf g i (Col_Bool vs) = True"
| "reads_back ext pf g i (Col_ByteArray vs) = (read_column_byte_array ext pf g i = Ok vs)"

lemma reads_back_fetched:
  assumes "codecs_sound ext" and "fetched ext pf g i part"
  shows "reads_back ext pf g i part"
  using assms(2)
  by (cases part) (simp_all add: decodes_index_fused decodes_index_byte_arrays decode_chunk_into_def read_column_i32_def read_column_i64_def read_column_f64_def read_column_byte_array_def
      written_i32.read_dense [OF assms(1)] written_i64.read_dense [OF assms(1)] written_u64.read_dense [OF assms(1)]
      written_f64.read_dense [OF assms(1)] written_byte_array.read_dense [OF assms(1)])

text \<open>The same under a row mask, appended to what the caller has.\<close>

fun reads_masked :: "codecs \<Rightarrow> parquet_file \<Rightarrow> nat \<Rightarrow> nat \<Rightarrow> bytes \<Rightarrow> column_data \<Rightarrow> bool" where
  "reads_masked ext pf g i msk (Col_I32 vs) = (\<forall>out. read_column_i32_masked_into ext pf g i msk out = Ok (out @ masked msk vs))"
| "reads_masked ext pf g i msk (Col_I64 vs) = (\<forall>out. read_column_i64_masked_into ext pf g i msk out = Ok (out @ masked msk vs))"
| "reads_masked ext pf g i msk (Col_U64 vs) = (\<forall>out. read_column_i64_masked_into ext pf g i msk out = Ok (out @ masked msk vs))"
| "reads_masked ext pf g i msk (Col_F64 vs) = (\<forall>out. read_column_f64_masked_into ext pf g i msk out = Ok (out @ masked msk vs))"
| "reads_masked ext pf g i msk (Col_Bool vs) = True"
| "reads_masked ext pf g i msk (Col_ByteArray vs) =
     (\<forall>out. read_column_byte_array_masked_into ext pf g i msk out = Ok (out @ masked msk vs))"

lemma reads_masked_fetched:
  assumes "codecs_sound ext" and "fetched ext pf g i part" and "row_count part \<le> 8 * length msk"
  shows "reads_masked ext pf g i msk part"
  using assms(2,3)
  by (cases part) (simp_all add: decode_chunk_row_masked_into_def read_column_i32_masked_into_def read_column_i64_masked_into_def
      read_column_f64_masked_into_def read_column_byte_array_masked_into_def
      written_i32.read_masked [OF assms(1)] written_i64.read_masked [OF assms(1)] written_u64.read_masked [OF assms(1)]
      written_f64.read_masked [OF assms(1)] written_byte_array.read_masked [OF assms(1)])

section \<open>Tables\<close>

lemma table_fetched_as:
  assumes run: "write_table_with_options ext sbbf columns opts = Ok file" and fits: "table_fits opts columns" and size: "length file < 2 ^ 31"
  shows "\<exists>pf rgs. file_open file = Ok pf \<and>
    file_metadata_of pf = Ok (footer_metadata (footer_schema columns) (row_count (snd (hd columns))) rgs (wt_kv_metadata opts)) \<and>
    length rgs = group_count (row_count (snd (hd columns))) (wt_row_group_size opts) \<and>
    (\<forall>g < length rgs. \<forall>i < length columns. \<exists>part.
       column_slice (snd (columns ! i)) (row_from (row_count (snd (hd columns))) (wt_row_group_size opts) g)
         (row_from (row_count (snd (hd columns))) (wt_row_group_size opts) (Suc g)) = (Ok part :: column_data codec_result) \<and>
       fetched_as ext (dict_chosen opts i) pf g i part)"
proof -
  from table_opens [OF run [unfolded write_table_with_options_def] fits size] obtain pf rgs where
    pf: "file_open file = Ok pf" "pf_file pf = file" "pf_file_size pf = length file"
      "file_metadata_of pf = Ok (footer_metadata (footer_schema columns) (row_count (snd (hd columns))) rgs (wt_kv_metadata opts))"
      "length rgs = group_count (row_count (snd (hd columns))) (wt_row_group_size opts)"
    and c: "\<forall>g < length rgs. \<forall>i < length columns. chunk_written ext columns opts file
       (footer_metadata (footer_schema columns) (row_count (snd (hd columns))) rgs (wt_kv_metadata opts)) g i" by blast
  have "fm_schema (footer_metadata (footer_schema columns) (row_count (snd (hd columns))) rgs (wt_kv_metadata opts)) = footer_schema columns"
    by (simp add: footer_metadata_def)
  from chunk_fetched [OF pf(2,3,4) this size fits] c show ?thesis
    using pf(1,4,5) by (intro exI [of _ pf] exI [of _ rgs]) blast
qed

lemma table_fetched:
  assumes run: "write_table_with_options ext sbbf columns opts = Ok file" and fits: "table_fits opts columns" and size: "length file < 2 ^ 31"
  shows "\<exists>pf rgs. file_open file = Ok pf \<and>
    file_metadata_of pf = Ok (footer_metadata (footer_schema columns) (row_count (snd (hd columns))) rgs (wt_kv_metadata opts)) \<and>
    length rgs = group_count (row_count (snd (hd columns))) (wt_row_group_size opts) \<and>
    (\<forall>g < length rgs. \<forall>i < length columns. \<exists>part.
       column_slice (snd (columns ! i)) (row_from (row_count (snd (hd columns))) (wt_row_group_size opts) g)
         (row_from (row_count (snd (hd columns))) (wt_row_group_size opts) (Suc g)) = (Ok part :: column_data codec_result) \<and>
       fetched ext pf g i part)"
proof -
  from table_fetched_as [OF assms] obtain pf rgs where
    "file_open file = Ok pf"
    "file_metadata_of pf = Ok (footer_metadata (footer_schema columns) (row_count (snd (hd columns))) rgs (wt_kv_metadata opts))"
    "length rgs = group_count (row_count (snd (hd columns))) (wt_row_group_size opts)"
    "\<forall>g < length rgs. \<forall>i < length columns. \<exists>part.
       column_slice (snd (columns ! i)) (row_from (row_count (snd (hd columns))) (wt_row_group_size opts) g)
         (row_from (row_count (snd (hd columns))) (wt_row_group_size opts) (Suc g)) = (Ok part :: column_data codec_result) \<and>
       fetched_as ext (dict_chosen opts i) pf g i part" by blast
  then show ?thesis
    by (intro exI [of _ pf] exI [of _ rgs]) (blast intro: fetched_as_fetched)
qed

end
