(* ===== verification/TableSample.thy ===== *)
theory TableSample
  imports TableRead
begin

text \<open>
  One table written step by step: a column \<open>x\<close> of three \<open>i32\<close> in two row groups, dictionary encoded.  The
  evaluation rules simplify the Thrift encoders on concrete values.
\<close>

section \<open>Evaluating the encoders\<close>

lemma uvarint_steps:
  "v < 0x80 \<Longrightarrow> write_uvarint w v = w @ [ucast v]"
  "0x80 \<le> v \<Longrightarrow> write_uvarint w v = write_uvarint (w @ [ucast (v AND 0x7F) OR 0x80]) (drop_bit 7 v)"
  by (subst write_uvarint.simps; simp add: not_le not_less)+

lemma length_step: "length (x # xs) = 1 + length xs"
  by simp

lemmas write_rules = put_def put_opt_def put_bool_def put_o_def put_opt_o_def refuse_def finish_def Let_def
  write_field_header_def write_enum_def write_zigzag_i16_def write_zigzag_i32_def write_zigzag_i64_def zigzag_def write_u8_def
  write_field_stop_def write_binary_def write_list_header_def write_list_of_def write_list_of_o_def write_list_i32_def
  write_list_binary_def write_encodings_def uvarint_steps

lemmas encode_rules = write_rules write_page_header_def encode_page_header_def encode_dictionary_page_header_def
  encode_data_page_header_def encode_statistics_def as_statistics_def dict_page_header_def v1_page_header_def
  encode_file_metadata_def encode_row_group_def encode_column_chunk_def encode_column_metadata_def encode_schema_element_def
  footer_metadata_def footer_schema_def root_element_def leaf_element_def created_by_def prepared_chunk_def prepared_metadata_def

section \<open>Steps of the loop over row groups\<close>

lemma row_group_step:
  assumes "row_start < rows" and "row_end = min (row_start + wt_row_group_size opts) rows" and "row_start + wt_row_group_size opts < 2 ^ 64"
    and "row_start < row_end"
    and "fold_o (write_column ext sbbf opts row_start row_end) (sk, []) (enumerate 0 columns) = Ok (sk', prepared)"
  shows "write_row_groups ext sbbf opts columns rows sk groups row_start emitted =
    write_row_groups ext sbbf opts columns rows sk' (groups @ [(row_end - row_start, prepared)]) row_end True"
proof -
  have "(if rows = 0 then Ok 0 else bind_o (add_usize row_start (wt_row_group_size opts)) (\<lambda>e. Ok (min e rows)))
      = (Ok row_end :: nat codec_result)" using assms(1,2,3) by (simp add: add_usize_def)
  then show ?thesis using assms(1,4,5)
    by (subst write_row_groups.simps) simp
qed

lemma row_groups_end:
  "write_row_groups ext sbbf opts columns rows sk groups rows True = Ok (sk, groups)"
  by (subst write_row_groups.simps) simp

section \<open>The sample\<close>

definition demo_columns :: "(bytes \<times> column_data) list" where
  "demo_columns = [([0x78], Col_I32 [7, 9, 7])]"

definition demo_options :: table_options where
  "demo_options = \<lparr>wt_default_codec = CC_Snappy, wt_row_group_size = 2, wt_page_version = Pages_V1,
     wt_bloom_fpps = None, wt_dict_per_column = Some [True], wt_codec_per_column = None, wt_kv_metadata = None\<rparr>"

lemma demo_stats:
  "compute_stats (Col_I32 [7, 9]) = \<lparr>cs_min = Some [7, 0, 0, 0], cs_max = Some [9, 0, 0, 0], cs_null_count = 0\<rparr>"
  "compute_stats (Col_I32 [7]) = \<lparr>cs_min = Some [7, 0, 0, 0], cs_max = Some [7, 0, 0, 0], cs_null_count = 0\<rparr>"
  by (simp_all add: to_le_bytes_def upt_rec)

lemma demo_dict:
  "encode_dict (Col_I32 [7, 9]) = Some ([7, 0, 0, 0, 9, 0, 0, 0], 2, [0, 1])"
  "encode_dict (Col_I32 [7]) = Some ([7, 0, 0, 0], 1, [0])"
  by (simp_all add: to_le_bytes_def upt_rec build_dict_i32_def build_dict_with_def encode_plain_i32_def)

lemma demo_widths:
  "(min_bit_width_for_dict 2 :: nat codec_result) = Ok 1" "(min_bit_width_for_dict 1 :: nat codec_result) = Ok 0"
  by code_simp+

lemma demo_indices:
  "(encode_rle_bit_packed [0, 1] 1 :: bytes codec_result) = Ok [3, 2]"
  "(encode_rle_bit_packed [0] 0 :: bytes codec_result) = Ok [2]"
  by code_simp+

lemma demo_headers1:
  "write_page_header (dict_page_header 8 8 2) = [21, 4, 21, 16, 21, 16, 76, 21, 4, 21, 0, 18, 0, 0]"
  "write_page_header (v1_page_header E_PlainDictionary 3 3 2 (compute_stats (Col_I32 [7, 9]))) =
     [21, 0, 21, 6, 21, 6, 44, 21, 4, 21, 4, 21, 6, 21, 6, 28, 24, 4, 9, 0, 0, 0, 24, 4, 7, 0, 0, 0, 22, 0, 40, 4,
     9, 0, 0, 0, 24, 4, 7, 0, 0, 0, 17, 17, 0, 0, 0]"
  unfolding demo_stats by (simp_all add: encode_rules)

lemma demo_headers2:
  "write_page_header (dict_page_header 4 4 1) = [21, 4, 21, 8, 21, 8, 76, 21, 2, 21, 0, 18, 0, 0]"
  "write_page_header (v1_page_header E_PlainDictionary 2 2 1 (compute_stats (Col_I32 [7]))) =
     [21, 0, 21, 4, 21, 4, 44, 21, 2, 21, 4, 21, 6, 21, 6, 28, 24, 4, 7, 0, 0, 0, 24, 4, 7, 0, 0, 0, 22, 0, 40, 4,
     7, 0, 0, 0, 24, 4, 7, 0, 0, 0, 17, 17, 0, 0, 0]"
  unfolding demo_stats by (simp_all add: encode_rules)

definition demo_sink1 :: sink where
  "demo_sink1 = \<lparr>sk_out = parquet_magic @
     [21, 4, 21, 16, 21, 16, 76, 21, 4, 21, 0, 18, 0, 0, 7, 0, 0, 0, 9, 0, 0, 0, 21, 0, 21, 6, 21, 6, 44, 21, 4,
     21, 4, 21, 6, 21, 6, 28, 24, 4, 9, 0, 0, 0, 24, 4, 7, 0, 0, 0, 22, 0, 40, 4, 9, 0, 0, 0, 24, 4, 7, 0, 0,
     0, 17, 17, 0, 0, 0, 1, 3, 2], sk_written = 76\<rparr>"

definition demo_sink2 :: sink where
  "demo_sink2 = \<lparr>sk_out = sk_out demo_sink1 @
     [21, 4, 21, 8, 21, 8, 76, 21, 2, 21, 0, 18, 0, 0, 7, 0, 0, 0, 21, 0, 21, 4, 21, 4, 44, 21, 2, 21, 4, 21, 6,
     21, 6, 28, 24, 4, 7, 0, 0, 0, 24, 4, 7, 0, 0, 0, 22, 0, 40, 4, 7, 0, 0, 0, 24, 4, 7, 0, 0, 0, 17, 17, 0,
     0, 0, 0, 2], sk_written = 143\<rparr>"

definition demo_chunk1 :: prepared_column where
  "demo_chunk1 = \<lparr>pc_data_page_offset = 26, pc_dictionary_page_offset = Some 4, pc_total_uncompressed_size = 72,
     pc_total_compressed_size = 72, pc_stats = compute_stats (Col_I32 [7, 9]),
     pc_bloom_filter_offset = None, pc_bloom_filter_length = None\<rparr>"

definition demo_chunk2 :: prepared_column where
  "demo_chunk2 = \<lparr>pc_data_page_offset = 94, pc_dictionary_page_offset = Some 76, pc_total_uncompressed_size = 67,
     pc_total_compressed_size = 67, pc_stats = compute_stats (Col_I32 [7]),
     pc_bloom_filter_offset = None, pc_bloom_filter_length = None\<rparr>"

lemmas demo_rules = write_column_def per_column_def index_o_def list_range_def write_dict_pages_def put_bytes_def write_page_def
  sink_start_def write_bloom_def parquet_magic_def compress_body_def stored_codecs_def compress_snappy_def decompress_err_def
  demo_options_def demo_dict demo_widths demo_indices demo_sink1_def demo_sink2_def demo_chunk1_def demo_chunk2_def length_step

lemma demo_column1:
  "write_column stored_codecs (\<lambda>_ _. 0) demo_options 0 2 (sink_start, []) (0, [0x78], Col_I32 [7, 9, 7]) = Ok (demo_sink1, [demo_chunk1])"
  using demo_headers1 by (simp add: demo_rules Let_def del: compute_stats.simps encode_dict.simps list.size(4) One_nat_def)

lemma demo_column2:
  "write_column stored_codecs (\<lambda>_ _. 0) demo_options 2 3 (demo_sink1, []) (0, [0x78], Col_I32 [7, 9, 7]) = Ok (demo_sink2, [demo_chunk2])"
  by (simp add: demo_headers2 demo_headers2 [unfolded One_nat_def] demo_rules Let_def
      del: compute_stats.simps encode_dict.simps list.size(4) One_nat_def)

lemma demo_row_groups:
  "write_row_groups stored_codecs (\<lambda>_ _. 0) demo_options demo_columns 3 sink_start [] 0 False
    = Ok (demo_sink2, [(2, [demo_chunk1]), (1, [demo_chunk2])])"
proof -
  have s: "wt_row_group_size demo_options = 2" by (simp add: demo_options_def)
  have f: "fold_o (write_column stored_codecs (\<lambda>_ _. 0) demo_options 0 2) (sink_start, []) (enumerate 0 demo_columns) = Ok (demo_sink1, [demo_chunk1])"
    "fold_o (write_column stored_codecs (\<lambda>_ _. 0) demo_options 2 3) (demo_sink1, []) (enumerate 0 demo_columns) = Ok (demo_sink2, [demo_chunk2])"
    by (simp_all only: demo_columns_def enumerate_simps fold_o.simps bind_o.simps demo_column1 demo_column2)
  show ?thesis
    using row_group_step [OF _ _ _ _ f(1), of 3 "[]" False] row_group_step [OF _ _ _ _ f(2), of 3 "[(2, [demo_chunk1])]" True]
    by (simp add: s row_groups_end)
qed

definition demo_group1 :: row_group where
  "demo_group1 = \<lparr>rg_columns = [prepared_chunk (prepared_metadata [0x78] PT_Int32 CC_Snappy 2 demo_chunk1)], rg_total_byte_size = 72,
     rg_num_rows = 2, rg_sorting_columns = None, rg_file_offset = None, rg_total_compressed_size = None, rg_ordinal = Some 0\<rparr>"

definition demo_group2 :: row_group where
  "demo_group2 = \<lparr>rg_columns = [prepared_chunk (prepared_metadata [0x78] PT_Int32 CC_Snappy 1 demo_chunk2)], rg_total_byte_size = 67,
     rg_num_rows = 1, rg_sorting_columns = None, rg_file_offset = None, rg_total_compressed_size = None, rg_ordinal = Some 1\<rparr>"

lemma demo_groups:
  "mapM_o (\<lambda>(rg_ix, g). footer_row_group demo_options demo_columns rg_ix g) (enumerate 0 [(2, [demo_chunk1]), (1, [demo_chunk2])])
    = (Ok [demo_group1, demo_group2] :: row_group list codec_result)"
  by (simp add: footer_row_group_def demo_columns_def per_column_def demo_options_def demo_group1_def demo_group2_def
      demo_chunk1_def demo_chunk2_def)

definition demo_footer :: bytes where
  "demo_footer = [21, 2, 25, 44, 72, 6, 115, 99, 104, 101, 109, 97, 21, 2, 0, 21, 2, 37, 0, 24, 1, 120, 0, 22, 6, 25, 44, 25,
     28, 38, 8, 28, 21, 2, 25, 53, 0, 6, 4, 25, 24, 1, 120, 21, 2, 22, 4, 22, 144, 1, 22, 144, 1, 38, 52, 38,
     8, 28, 24, 4, 9, 0, 0, 0, 24, 4, 7, 0, 0, 0, 22, 0, 40, 4, 9, 0, 0, 0, 24, 4, 7, 0, 0, 0, 17, 17, 0, 0,
     0, 22, 144, 1, 22, 4, 68, 0, 0, 25, 28, 38, 152, 1, 28, 21, 2, 25, 53, 0, 6, 4, 25, 24, 1, 120, 21, 2,
     22, 2, 22, 134, 1, 22, 134, 1, 38, 188, 1, 38, 152, 1, 28, 24, 4, 7, 0, 0, 0, 24, 4, 7, 0, 0, 0, 22, 0,
     40, 4, 7, 0, 0, 0, 24, 4, 7, 0, 0, 0, 17, 17, 0, 0, 0, 22, 134, 1, 22, 2, 68, 2, 0, 40, 20, 101, 109, 97,
     116, 105, 120, 45, 112, 97, 114, 113, 117, 101, 116, 32, 48, 46, 48, 46, 49, 0]"

lemma demo_footer_written:
  "write_file_metadata (footer_metadata (footer_schema demo_columns) 3 [demo_group1, demo_group2] None) = Ok demo_footer"
  unfolding write_file_metadata_def demo_group1_def demo_group2_def demo_chunk1_def demo_chunk2_def demo_stats
  by (simp add: encode_rules demo_columns_def length_step demo_footer_def del: list.size(4))

definition demo_file :: bytes where
  "demo_file = sk_out demo_sink2 @ demo_footer @ [193, 0, 0, 0] @ parquet_magic"

lemma demo_written: "write_table_with_options stored_codecs (\<lambda>_ _. 0) demo_columns demo_options = Ok demo_file"
proof -
  have c: "columns \<noteq> []" "hd columns = ([0x78], Col_I32 [7, 9, 7])" "tl columns = []" if "columns = demo_columns" for columns
    using that by (simp_all add: demo_columns_def)
  have guards: "check_dict_columns demo_options demo_columns = Ok ()"
    by (simp add: check_dict_columns_def demo_options_def demo_columns_def require_o_def index_o_def is_bool_column_def)
  have "length demo_footer = 193" by (simp add: demo_footer_def)
  then have "(to_le_bytes (of_nat (length demo_footer) :: u32)) = [193, 0, 0, 0]" by (simp add: to_le_bytes_def upt_rec)
  then have "write_footer (footer_metadata (footer_schema demo_columns) 3 [demo_group1, demo_group2] None) (sk_out demo_sink2) = Ok demo_file"
    by (simp add: write_footer_def demo_footer_written demo_file_def)
  moreover have "wt_row_group_size demo_options \<noteq> 0" "wt_codec_per_column demo_options = None" "wt_kv_metadata demo_options = None"
    by (simp_all add: demo_options_def)
  moreover have "row_count (snd (hd demo_columns)) = 3" using c by simp
  ultimately show ?thesis
    using demo_row_groups demo_groups guards c
    by (simp add: write_table_with_options_def write_table_inner_full_v2_def require_o_def del: row_count.simps)
qed

lemma demo_length: "length demo_file < 2 ^ 31"
  by (simp add: demo_file_def demo_sink1_def demo_sink2_def demo_footer_def parquet_magic_def)

lemma demo_fits: "table_fits demo_options demo_columns"
proof -
  have "slice_fits part" if "column_slice (Col_I32 [7, 9, 7]) a b = (Ok part :: column_data codec_result)" for a b part
    using that by (auto simp: list_range_def slice_fits_def bind_o_eq_Ok_iff split: if_splits)
  then show ?thesis by (auto simp: table_fits_def demo_columns_def demo_options_def fits_def simp del: column_slice.simps)
qed

end
