(* ===== verification/TableTotal.thy ===== *)
theory TableTotal
  imports TableSample BloomSpec
begin

text \<open>
  The writer never fails on arguments that meet its documented conditions: no error, no panic, no overflow,
  whatever the values.
\<close>

section \<open>Bloom filters\<close>

lemma power_above_bound: "n \<le> 2 ^ m \<Longrightarrow> p \<le> 2 ^ Suc m \<Longrightarrow> power_above k p n \<le> 2 ^ Suc m"
  by (induction k p n rule: power_above.induct) (auto simp: not_le)

lemma power_above_pos: "0 < p \<Longrightarrow> 0 < power_above k p n"
  by (induction k p n rule: power_above.induct) auto

lemma optimal_num_blocks_Ok: "\<exists>nb. (optimal_num_blocks sbbf n fpp :: u32 codec_result) = Ok nb \<and> 0 < unat nb"
proof (cases "n = 0")
  case False
  let ?b = "max (div_ceil (unat (sbbf n fpp)) 32) 1"
  have "unat (sbbf n fpp) < 2 ^ 64" using unsigned_less [of "sbbf n fpp"] by simp
  then have "(unat (sbbf n fpp) + 31) div 32 \<le> 2 ^ 59" by (simp add: less_Suc_eq_le [symmetric] div_less_iff_less_mult)
  then have b: "?b \<le> 2 ^ 59" by (simp add: div_ceil_def)
  have p: "power_above 64 1 ?b \<le> 2 ^ 60" "0 < power_above 64 1 ?b"
    using power_above_bound [OF b, of 1 64] power_above_pos [of 1 64 ?b] by simp_all
  have "0 < unat (of_nat (min k (2 ^ 32 - 1)) :: u32)" if "0 < k" for k
    using that by (simp add: unsigned_of_nat take_bit_nat_eq_self)
  then show ?thesis using False p
    by (auto simp: optimal_num_blocks_def next_power_of_two_def Let_def)
qed (simp add: optimal_num_blocks_def)

lemma build_bloom_Ok: "\<exists>bs. (build_bloom_for_column sbbf col fpp :: bytes codec_result) = Ok bs"
proof -
  obtain nb where nb: "(optimal_num_blocks sbbf (row_count col) fpp :: u32 codec_result) = Ok nb" "0 < unat nb"
    using optimal_num_blocks_Ok by blast
  then have "bloom_invar (bloom_builder_new nb)" by (auto simp: bloom_invar_def bloom_builder_new_def)
  from values_filter.insert_all [OF this, of "bloom_values col"]
  obtain b where "fold_o insert_bytes (bloom_builder_new nb) (bloom_values col) = (Ok b :: bloom_builder codec_result)" by blast
  then show ?thesis using nb by (simp add: build_bloom_for_column_def)
qed

section \<open>Pages\<close>

lemma encode_plain_Ok: "\<exists>body. encode_plain col = (Ok body :: bytes codec_result) \<and> length body = plain_size col"
proof (cases col)
  case (Col_Bool vs)
  let ?n = "div_ceil (length vs) 8"
  have room: "0 + length vs \<le> 8 * length (replicate ?n (0 :: u8))" by (simp add: div_ceil_def)
  from set_plain_bits_Ok [OF room] show ?thesis unfolding Col_Bool by (auto simp: encode_plain_bool_def Let_def)
qed (simp_all add: written_i32.plain_con written_i64.plain_con written_u64.plain_con written_f64.plain_con written_byte_array.plain_con
    encoders_le plain_i32.length_encode plain_i64.length_encode plain_f64.length_encode length_byte_arrays)

lemma write_plain_page_Ok:
  assumes "codecs_sound ext" and "supported_codec cdc" and "length body < 2 ^ 31"
  shows "\<exists>r. write_plain_page ext pv cdc rows stats body sk = Ok r"
  using compress_body_inverse [OF assms(1,3,2)] by (auto simp: write_plain_page_def Let_def split_beta)

context written_values begin

lemma write_dict_pages_Ok:
  assumes "codecs_sound ext" and "supported_codec cdc" and "slice_fits (con vs)" and "encode_dict (con vs) = Some d"
  shows "\<exists>r. write_dict_pages ext cdc rows stats d sk = Ok r"
proof -
  obtain dbody nd ixs where d: "d = (dbody, nd, ixs)" by (cases d)
  have size: "length (enc vs) + 64 \<le> 2 ^ 31" "4 * length vs + 64 \<le> 2 ^ 31"
    using assms(3) size_con [of vs] by (simp_all add: slice_fits_def)
  then obtain ds where ds: "dict_of vs ds ixs" "dbody = enc ds" "nd = length ds"
    using dict_con [OF _ assms(4) [unfolded d]] by auto
  have "length (enc ds) \<le> length (enc vs)" using ds(1) by (intro size_dict) (simp_all add: dict_of_def)
  then obtain dc where dc: "compress_body ext dbody cdc = Ok dc"
    using compress_body_inverse [OF assms(1) _ assms(2), of dbody] size(1) ds(2) by auto
  have "length ds < 2 ^ 32" "\<forall>i \<in> set ixs. unat i < length ds" "length ixs < 2 ^ 56"
    using ds(1) size(2) by (auto simp: dict_of_def)
  then obtain w bs where w: "(min_bit_width_for_dict (length ds) :: nat codec_result) = Ok w"
    "(encode_rle_bit_packed ixs w :: bytes codec_result) = Ok bs" by (rule index_page_decodes) blast
  obtain ic where "compress_body ext (of_nat w # bs) cdc = Ok ic"
    using compress_body_inverse [OF assms(1) index_body_written(2) [OF ds(1) size(2) w] assms(2)] by blast
  with dc w ds(3) show ?thesis by (auto simp: write_dict_pages_def d Let_def split_beta)
qed

end

lemma write_dict_pages_total:
  assumes "codecs_sound ext" and "supported_codec cdc" and "slice_fits col" and "encode_dict col = Some d"
  shows "\<exists>r. write_dict_pages ext cdc rows stats d sk = Ok r"
proof (cases col)
  case (Col_I32 vs)
  from written_i32.write_dict_pages_Ok [OF assms(1,2), of vs] assms(3,4) show ?thesis unfolding Col_I32 by blast
next
  case (Col_I64 vs)
  from written_i64.write_dict_pages_Ok [OF assms(1,2), of vs] assms(3,4) show ?thesis unfolding Col_I64 by blast
next
  case (Col_F64 vs)
  from written_f64.write_dict_pages_Ok [OF assms(1,2), of vs] assms(3,4) show ?thesis unfolding Col_F64 by blast
next
  case (Col_ByteArray vs)
  from written_byte_array.write_dict_pages_Ok [OF assms(1,2), of vs] assms(3,4) show ?thesis unfolding Col_ByteArray by blast
qed (use assms(4) in simp_all)

section \<open>Columns\<close>

text \<open>The types that have a dictionary.\<close>

fun has_dict :: "column_data \<Rightarrow> bool" where
  "has_dict (Col_U64 _) = False"
| "has_dict (Col_Bool _) = False"
| "has_dict _ = True"

lemma encode_dict_iff: "(\<exists>d. encode_dict col = Some d) = has_dict col"
  by (cases col) (auto simp: split_beta)

lemma column_slice_Ok:
  assumes "a \<le> b" and "b \<le> row_count col"
  shows "\<exists>part. column_slice col a b = (Ok part :: column_data codec_result) \<and> has_dict part = has_dict col"
  using assms by (cases col) (auto simp: list_range_def)

lemma write_column_Ok:
  assumes "codecs_sound ext" and "a \<le> b" and "b \<le> row_count col"
    and "\<And>part. column_slice col a b = (Ok part :: column_data codec_result) \<Longrightarrow> slice_fits part"
    and "(per_column (wt_default_codec opts) (wt_codec_per_column opts) ix :: compression_codec codec_result) = Ok cdc" and "supported_codec cdc"
    and "(per_column None (wt_bloom_fpps opts) ix :: 64 word option codec_result) = Ok fpp"
    and "(per_column False (wt_dict_per_column opts) ix :: bool codec_result) = Ok is_dict" and "is_dict \<longrightarrow> has_dict col"
  shows "\<exists>st. write_column ext sbbf opts a b s (ix, nm, col) = Ok st"
proof -
  obtain sk prepared where s: "s = (sk, prepared)" by (cases s)
  obtain part where part: "column_slice col a b = (Ok part :: column_data codec_result)" "has_dict part = has_dict col"
    using column_slice_Ok [OF assms(2,3)] by blast
  have fit: "slice_fits part" by (rule assms(4) [OF part(1)])
  obtain bloom where bloom: "(case fpp of None \<Rightarrow> Ok None
      | Some fpp \<Rightarrow> bind_o (build_bloom_for_column sbbf part fpp) (\<lambda>b. Ok (Some b))) = (Ok bloom :: bytes option codec_result)"
    using build_bloom_Ok [of sbbf part] by (cases fpp) (auto, metis bind_o.simps(1))
  obtain body where body: "encode_plain part = (Ok body :: bytes codec_result)" "length body < 2 ^ 31"
    using encode_plain_Ok [of part] fit by (auto simp: slice_fits_def)
  have "\<exists>r. (if is_dict then
                   (case encode_dict part of
                      None \<Rightarrow> Panic ''encode_dict None already rejected by precondition checks''
                    | Some d \<Rightarrow> write_dict_pages ext cdc (b - a) (compute_stats part) d sk)
                 else bind_o (encode_plain part) (\<lambda>body.
                      write_plain_page ext (wt_page_version opts) cdc (b - a) (compute_stats part) body sk)) = Ok r"
  proof (cases is_dict)
    case True
    then obtain d where d: "encode_dict part = Some d" using assms(9) part(2) encode_dict_iff by blast
    with write_dict_pages_total [OF assms(1,6) fit d] True show ?thesis by simp
  next
    case False
    with write_plain_page_Ok [OF assms(1,6) body(2)] body(1) show ?thesis by simp
  qed
  then obtain r where r: "(if is_dict then
                   (case encode_dict part of
                      None \<Rightarrow> Panic ''encode_dict None already rejected by precondition checks''
                    | Some d \<Rightarrow> write_dict_pages ext cdc (b - a) (compute_stats part) d sk)
                 else bind_o (encode_plain part) (\<lambda>body.
                      write_plain_page ext (wt_page_version opts) cdc (b - a) (compute_stats part) body sk)) = Ok r" by blast
  obtain data_off dict_off tu tc sk1 where rr: "r = ((data_off, dict_off, tu, tc), sk1)" by (cases r) auto
  show ?thesis unfolding s write_column_def Let_def prod.case part(1) bind_o.simps assms(5,7,8) bloom r rr
    by (simp add: split_beta)
qed

section \<open>Tables\<close>

text \<open>The documented conditions on the arguments.\<close>

definition options_ok :: "table_options \<Rightarrow> (bytes \<times> column_data) list \<Rightarrow> bool" where
  "options_ok opts columns \<longleftrightarrow> columns \<noteq> [] \<and> wt_row_group_size opts \<noteq> 0 \<and> wt_row_group_size opts < 2 ^ 64 \<and>
     list_all (\<lambda>c. row_count (snd c) = row_count (snd (hd columns))) columns \<and>
     supported_codec (wt_default_codec opts) \<and>
     pred_option (\<lambda>cs. length cs = length columns \<and> list_all supported_codec cs) (wt_codec_per_column opts) \<and>
     pred_option (\<lambda>d. length d = length columns \<and> (wt_page_version opts = Pages_V1 \<or> True \<notin> set d) \<and>
       list_all2 (\<lambda>b c. b \<longrightarrow> has_dict (snd c)) d columns) (wt_dict_per_column opts) \<and>
     pred_option (\<lambda>f. length columns \<le> length f) (wt_bloom_fpps opts)"

lemma fold_o_total: "(\<And>x s. x \<in> set xs \<Longrightarrow> \<exists>s'. f s x = (Ok s' :: ('e, 's) outcome)) \<Longrightarrow> \<exists>s'. fold_o f s xs = (Ok s' :: ('e, 's) outcome)"
proof (induction xs arbitrary: s)
  case (Cons x xs)
  then obtain s1 where "f s x = Ok s1" by fastforce
  moreover obtain s2 where "fold_o f s1 xs = (Ok s2 :: ('e, 's) outcome)" using Cons.IH [of s1] Cons.prems by auto
  ultimately show ?case by simp
qed auto

lemma write_columns_Ok:
  assumes "codecs_sound ext" and "options_ok opts columns" and "table_fits opts columns"
    and "a \<le> b" and "b \<le> row_count (snd (hd columns))" and "b - a \<le> wt_row_group_size opts"
  shows "\<exists>st. fold_o (write_column ext sbbf opts a b) s (enumerate 0 columns) = Ok st"
proof (rule fold_o_total)
  fix x s assume "x \<in> set (enumerate 0 columns)"
  then obtain i where i: "i < length columns" "x = (i, columns ! i)" by (auto simp: in_set_enumerate_eq)
  obtain nm col where c: "columns ! i = (nm, col)" by (cases "columns ! i")
  have rows: "row_count col = row_count (snd (hd columns))" using assms(2) i(1) c by (force simp: options_ok_def list_all_length)
  have "(nm, col) \<in> set columns" using i(1) c nth_mem by metis
  then have fit: "slice_fits part" if "column_slice col a b = (Ok part :: column_data codec_result)" for part
    using assms(3,6) that unfolding table_fits_def by blast
  obtain cdc where cdc: "(per_column (wt_default_codec opts) (wt_codec_per_column opts) i :: compression_codec codec_result) = Ok cdc"
    "supported_codec cdc"
    using assms(2) i(1) by (cases "wt_codec_per_column opts") (auto simp: options_ok_def per_column_def index_o_def list_all_length)
  obtain fpp where fpp: "(per_column None (wt_bloom_fpps opts) i :: 64 word option codec_result) = Ok fpp"
    using assms(2) i(1) by (cases "wt_bloom_fpps opts") (auto simp: options_ok_def per_column_def index_o_def)
  obtain is_dict where is_dict: "(per_column False (wt_dict_per_column opts) i :: bool codec_result) = Ok is_dict" "is_dict \<longrightarrow> has_dict col"
    using assms(2) i(1) c by (cases "wt_dict_per_column opts") (auto simp: options_ok_def per_column_def index_o_def list_all2_conv_all_nth)
  show "\<exists>s'. write_column ext sbbf opts a b s x = Ok s'"
    unfolding i(2) c using write_column_Ok [OF assms(1,4) _ fit cdc fpp is_dict] assms(5) rows by simp
qed

lemma write_row_groups_Ok:
  assumes "codecs_sound ext" and "options_ok opts columns" and "table_fits opts columns"
    and "rows = row_count (snd (hd columns))" and "row_start < rows" and "row_start = 0 \<or> wt_row_group_size opts \<le> row_start"
  shows "\<exists>r. write_row_groups ext sbbf opts columns rows sk groups row_start emitted = Ok r"
  using assms(5,6)
proof (induction "rows - row_start" arbitrary: row_start sk groups emitted rule: less_induct)
  case less
  let ?n = "wt_row_group_size opts" and ?e = "min (row_start + wt_row_group_size opts) rows"
  have n: "0 < ?n" "?n < 2 ^ 64" "rows < 2 ^ 63" using assms(2-4) by (simp_all add: options_ok_def table_fits_def)
  have room: "row_start + ?n < 2 ^ 64" using less.prems n by auto
  have e: "row_start < ?e" "?e \<le> row_count (snd (hd columns))" "?e - row_start \<le> ?n" using less.prems(1) n(1) assms(4) by auto
  obtain sk' prepared where f: "fold_o (write_column ext sbbf opts row_start ?e) (sk, []) (enumerate 0 columns) = Ok (sk', prepared)"
    using write_columns_Ok [OF assms(1-3) less_imp_le [OF e(1)] e(2,3), of sbbf "(sk, [])"] by force
  note step = row_group_step [OF less.prems(1) refl room e(1) f, of groups emitted]
  show ?case
  proof (cases "?e < rows")
    case True
    then have "?e = row_start + ?n" by simp
    then have "?e = 0 \<or> ?n \<le> ?e" by simp
    moreover have "rows - ?e < rows - row_start" using e(1) less.prems(1) by simp
    ultimately show ?thesis unfolding step using less.hyps True by blast
  next
    case False
    then have "?e = rows" by simp
    then show ?thesis unfolding step by (simp only: row_groups_end) blast
  qed
qed

lemma footer_row_group_Ok:
  assumes "options_ok opts columns"
  shows "\<exists>r. (footer_row_group opts columns g p :: row_group codec_result) = Ok r \<and> rg_sorting_columns r = None \<and>
    list_all writable_column_chunk (rg_columns r)"
proof -
  obtain rows prepared where p: "p = (rows, prepared)" by (cases p)
  let ?f = "\<lambda>(col_ix, (nm, col), prep). prepared_chunk (prepared_metadata nm (column_parquet_type col) (codec_of opts col_ix) rows prep)"
  have codec: "(per_column (wt_default_codec opts) (wt_codec_per_column opts) i :: compression_codec codec_result) = Ok (codec_of opts i)"
    if "i < length columns" for i
    using assms that by (cases "wt_codec_per_column opts") (auto simp: options_ok_def per_column_def codec_of_def index_o_def)
  have "mapM_o (\<lambda>(col_ix, (nm, col), prep).
             bind_o (per_column (wt_default_codec opts) (wt_codec_per_column opts) col_ix) (\<lambda>col_codec.
             Ok (prepared_chunk (prepared_metadata nm (column_parquet_type col) col_codec rows prep))))
           (enumerate 0 (zip columns prepared)) = (Ok (map ?f (enumerate 0 (zip columns prepared))) :: column_chunk list codec_result)"
    by (rule mapM_o_all_Ok) (auto simp: in_set_enumerate_eq codec)
  moreover have "list_all writable_column_chunk (map ?f (enumerate 0 (zip columns prepared)))"
    by (auto simp: list_all_iff writable_column_chunk_def prepared_chunk_def prepared_metadata_def writable_column_metadata_def)
  ultimately show ?thesis by (simp add: footer_row_group_def p)
qed

lemma footer_written:
  assumes "options_ok opts columns"
  shows "\<exists>rgs footer. mapM_o (\<lambda>(rg_ix, g). footer_row_group opts columns rg_ix g) gs = (Ok rgs :: row_group list codec_result) \<and>
    write_file_metadata (footer_metadata (footer_schema columns) rows rgs kv) = Ok footer"
proof -
  have "\<exists>rgs. mapM_o (\<lambda>(rg_ix, g). footer_row_group opts columns rg_ix g) gs = (Ok rgs :: row_group list codec_result) \<and>
      list_all writable_row_group rgs"
  proof (induction gs)
    case (Cons g gs)
    moreover obtain r where "(case g of (rg_ix, g) \<Rightarrow> footer_row_group opts columns rg_ix g) = (Ok r :: row_group codec_result)"
      "writable_row_group r"
      using footer_row_group_Ok [OF assms, of "fst g" "snd g"] by (auto simp: writable_row_group_def split_beta)
    ultimately show ?case by auto
  qed simp
  then obtain rgs where rgs: "mapM_o (\<lambda>(rg_ix, g). footer_row_group opts columns rg_ix g) gs = (Ok rgs :: row_group list codec_result)"
    "list_all writable_row_group rgs" by blast
  have "list_all writable_schema_element (footer_schema columns)"
    by (auto simp: footer_schema_def list_all_iff writable_schema_element_def root_element_def leaf_element_def)
  then have "writable_file_metadata (footer_metadata (footer_schema columns) rows rgs kv)"
    using rgs(2) by (simp add: writable_file_metadata_def footer_metadata_def)
  then show ?thesis using rgs(1) answers_encode_file_metadata [of "[]" "footer_metadata (footer_schema columns) rows rgs kv"]
    by (auto simp: answers_def write_file_metadata_def)
qed

lemma check_dict_columns_Ok:
  assumes "options_ok opts columns"
  shows "check_dict_columns opts columns = Ok ()"
proof (cases "wt_dict_per_column opts")
  case (Some d)
  then have d: "length d = length columns" "wt_page_version opts = Pages_V1 \<or> True \<notin> set d"
    "list_all2 (\<lambda>b c. b \<longrightarrow> has_dict (snd c)) d columns" using assms by (simp_all add: options_ok_def)
  have "\<exists>u. (bind_o (index_o d ix) (\<lambda>b. require_o (\<not> (b \<and> is_bool_column col)) (e nm)) :: unit codec_result) = Ok u"
    if "(ix, nm, col) \<in> set (enumerate 0 columns)" for ix nm col and e :: "bytes \<Rightarrow> codec_error"
  proof -
    from that have "ix < length columns" "columns ! ix = (nm, col)" by (auto simp: in_set_enumerate_eq)
    then have "d ! ix \<longrightarrow> has_dict col" "ix < length d" using d(1,3) by (auto simp: list_all2_conv_all_nth)
    then show ?thesis by (cases col) (auto simp: index_o_def require_o_def is_bool_column_def)
  qed
  then have "\<exists>u. fold_o (\<lambda>_ (ix, nm, col). bind_o (index_o d ix) (\<lambda>b. require_o (\<not> (b \<and> is_bool_column col)) (e nm))) () (enumerate 0 columns)
      = (Ok u :: unit codec_result)" for e by (intro fold_o_total) auto
  moreover have "\<not> (wt_page_version opts = Pages_V2 \<and> list_ex (\<lambda>b. b) d)" using d(2) by (auto simp: list_ex_iff)
  ultimately show ?thesis using d(1) by (simp add: check_dict_columns_def Some require_o_def)
qed (simp add: check_dict_columns_def)

end
