(* ===== verification/TableProperties.thy ===== *)
theory TableProperties
  imports TableRoundtrip TableTotal
begin

text \<open>The properties of written tables as a whole, each applied to the sample table.\<close>

section \<open>Reading whole columns\<close>

lemma concat_slices:
  assumes "mono r" and "r 0 = 0"
  shows "concat (map (\<lambda>g. take (r (Suc g) - r g) (drop (r g) vs)) [0..<n]) = take (r n) vs"
proof (induction n)
  case (Suc n)
  have "r n \<le> r (Suc n)" using assms(1) by (simp add: monoD)
  then have "take (r (Suc n)) vs = take (r n) vs @ take (r (Suc n) - r n) (drop (r n) vs)"
    using take_add [of "r n" "r (Suc n) - r n" vs] by simp
  with Suc show ?case by simp
qed (simp add: assms(2))

lemma row_from_mono: "mono (row_from rows n)"
  by (rule monoI) (simp add: row_from_def mult_le_mono1 min_le_iff_disj)

lemma row_from_ends:
  assumes "n \<noteq> 0"
  shows "row_from rows n 0 = 0" and "row_from rows n (group_count rows n) = rows"
proof -
  show "row_from rows n (group_count rows n) = rows"
  proof (cases "rows = 0")
    case False
    have "rows + n - 1 < Suc ((rows + n - 1) div n) * n" using assms div_less_iff_less_mult [of n "rows + n - 1"] by blast
    then have "rows \<le> (rows + n - 1) div n * n" using assms by (simp only: mult_Suc)
    then show ?thesis using False by (simp add: row_from_def group_count_def div_ceil_def)
  qed (simp add: row_from_def)
qed (simp add: row_from_def)

text \<open>All row groups of column \<open>i\<close>, one after the other.\<close>

definition all_groups :: "nat \<Rightarrow> (nat \<Rightarrow> 'a list codec_result) \<Rightarrow> 'a list codec_result" where
  "all_groups n rd = bind_o (mapM_o rd [0..<n]) (\<lambda>parts. Ok (concat parts))"

fun reads_whole :: "codecs \<Rightarrow> parquet_file \<Rightarrow> nat \<Rightarrow> nat \<Rightarrow> column_data \<Rightarrow> bool" where
  "reads_whole ext pf n i (Col_I32 vs) = (all_groups n (\<lambda>g. read_column_i32 ext pf g i) = Ok vs)"
| "reads_whole ext pf n i (Col_I64 vs) = (all_groups n (\<lambda>g. read_column_i64 ext pf g i) = Ok vs)"
| "reads_whole ext pf n i (Col_U64 vs) = (all_groups n (\<lambda>g. read_column_i64 ext pf g i) = Ok vs)"
| "reads_whole ext pf n i (Col_F64 vs) = (all_groups n (\<lambda>g. read_column_f64 ext pf g i) = Ok vs)"
| "reads_whole ext pf n i (Col_Bool vs) = True"
| "reads_whole ext pf n i (Col_ByteArray vs) = (all_groups n (\<lambda>g. read_column_byte_array ext pf g i) = Ok vs)"

lemma all_groups_slices:
  assumes "\<forall>g < n. rd g = Ok (take (r (Suc g) - r g) (drop (r g) vs))" and "mono r" and "r 0 = 0" and "r n = length vs"
  shows "all_groups n rd = Ok vs"
proof -
  have "mapM_o rd [0..<n] = Ok (map (\<lambda>g. take (r (Suc g) - r g) (drop (r g) vs)) [0..<n])"
    using assms(1) by (intro mapM_o_all_Ok) simp
  then show ?thesis using concat_slices [OF assms(2,3), of vs n] assms(4) by (simp add: all_groups_def)
qed

lemma group_reads:
  "column_slice (Col_I32 a) x y = (Ok part :: column_data codec_result) \<Longrightarrow> reads_back ext pf g i part \<Longrightarrow>
     read_column_i32 ext pf g i = Ok (take (y - x) (drop x a))"
  "column_slice (Col_I64 b) x y = (Ok part :: column_data codec_result) \<Longrightarrow> reads_back ext pf g i part \<Longrightarrow>
     read_column_i64 ext pf g i = Ok (take (y - x) (drop x b))"
  "column_slice (Col_U64 b) x y = (Ok part :: column_data codec_result) \<Longrightarrow> reads_back ext pf g i part \<Longrightarrow>
     read_column_i64 ext pf g i = Ok (take (y - x) (drop x b))"
  "column_slice (Col_F64 b) x y = (Ok part :: column_data codec_result) \<Longrightarrow> reads_back ext pf g i part \<Longrightarrow>
     read_column_f64 ext pf g i = Ok (take (y - x) (drop x b))"
  "column_slice (Col_ByteArray c) x y = (Ok part :: column_data codec_result) \<Longrightarrow> reads_back ext pf g i part \<Longrightarrow>
     read_column_byte_array ext pf g i = Ok (take (y - x) (drop x c))"
  by (auto simp: bind_o_eq_Ok_iff list_range_def split: if_splits)

lemma reads_whole_groups:
  assumes "\<forall>g < n. \<exists>part. column_slice col (r g) (r (Suc g)) = (Ok part :: column_data codec_result) \<and> reads_back ext pf g i part"
    and r: "mono r" "r 0 = 0" "r n = row_count col"
  shows "reads_whole ext pf n i col"
proof (cases col)
  case (Col_I32 vs)
  then have "\<forall>g < n. read_column_i32 ext pf g i = Ok (take (r (Suc g) - r g) (drop (r g) vs))"
    using assms(1) group_reads(1) by blast
  from all_groups_slices [OF this r(1,2)] r(3) show ?thesis by (simp add: Col_I32)
next
  case (Col_I64 vs)
  then have "\<forall>g < n. read_column_i64 ext pf g i = Ok (take (r (Suc g) - r g) (drop (r g) vs))"
    using assms(1) group_reads(2) by blast
  from all_groups_slices [OF this r(1,2)] r(3) show ?thesis by (simp add: Col_I64)
next
  case (Col_U64 vs)
  then have "\<forall>g < n. read_column_i64 ext pf g i = Ok (take (r (Suc g) - r g) (drop (r g) vs))"
    using assms(1) group_reads(3) by blast
  from all_groups_slices [OF this r(1,2)] r(3) show ?thesis by (simp add: Col_U64)
next
  case (Col_F64 vs)
  then have "\<forall>g < n. read_column_f64 ext pf g i = Ok (take (r (Suc g) - r g) (drop (r g) vs))"
    using assms(1) group_reads(4) by blast
  from all_groups_slices [OF this r(1,2)] r(3) show ?thesis by (simp add: Col_F64)
next
  case (Col_ByteArray vs)
  then have "\<forall>g < n. read_column_byte_array ext pf g i = Ok (take (r (Suc g) - r g) (drop (r g) vs))"
    using assms(1) group_reads(5) by blast
  from all_groups_slices [OF this r(1,2)] r(3) show ?thesis by (simp add: Col_ByteArray)
qed simp

lemma written_rows:
  assumes "write_table_with_options ext sbbf columns opts = Ok file" and "i < length columns"
  shows "row_count (snd (columns ! i)) = row_count (snd (hd columns))" and "wt_row_group_size opts \<noteq> 0"
  by (rule write_table_steps [OF assms(1) [unfolded write_table_with_options_def]], use assms(2) nth_mem in blast)+

text \<open>C1. A table that was written reads back: opening the file succeeds, and for every column the typed reader
  applied to each row group in turn returns the values of the column, whatever the codec, the page version,
  the row group size, the dictionary and bloom filter choices.\<close>

theorem table_roundtrip:
  assumes "codecs_sound ext" and "write_table_with_options ext sbbf columns opts = Ok file"
    and "table_fits opts columns" and "length file < 2 ^ 31"
  shows "\<exists>pf. file_open file = Ok pf \<and> (\<forall>i < length columns.
    reads_whole ext pf (group_count (row_count (snd (hd columns))) (wt_row_group_size opts)) i (snd (columns ! i)))"
proof -
  let ?rows = "row_count (snd (hd columns))" and ?n = "wt_row_group_size opts"
  from table_fetched [OF assms(2-4)] obtain pf where pf: "file_open file = Ok pf"
    "\<forall>g < group_count ?rows ?n. \<forall>i < length columns. \<exists>part.
       column_slice (snd (columns ! i)) (row_from ?rows ?n g) (row_from ?rows ?n (Suc g)) = (Ok part :: column_data codec_result) \<and>
       fetched ext pf g i part" by metis
  have "reads_whole ext pf (group_count ?rows ?n) i (snd (columns ! i))" if i: "i < length columns" for i
    using pf(2) i reads_back_fetched [OF assms(1)] written_rows [OF assms(2) i] row_from_ends row_from_mono
    by (intro reads_whole_groups [where r = "row_from ?rows ?n"]) (blast, simp_all)
  then show ?thesis using pf(1) by blast
qed

lemma table_roundtrip_witness:
  "\<exists>pf. file_open demo_file = Ok pf \<and> all_groups 2 (\<lambda>g. read_column_i32 stored_codecs pf g 0) = Ok [7, 9, 7]"
proof -
  have "group_count (row_count (snd (hd demo_columns))) (wt_row_group_size demo_options) = 2" "demo_columns \<noteq> []"
    "snd (demo_columns ! 0) = Col_I32 [7, 9, 7]"
    by (simp_all add: demo_columns_def demo_options_def group_count_def div_ceil_def)
  with table_roundtrip [OF stored_codecs_sound demo_written demo_fits demo_length] show ?thesis by fastforce
qed

section \<open>Reading under a row mask\<close>

text \<open>C2. Under a packed row mask that covers the row group, the masked readers of a written table append exactly
  the values of the rows whose bit is set, in row order; pages without such a row are skipped.\<close>

theorem table_masked_read:
  assumes "codecs_sound ext" and "write_table_with_options ext sbbf columns opts = Ok file"
    and "table_fits opts columns" and "length file < 2 ^ 31"
    and "g < group_count (row_count (snd (hd columns))) (wt_row_group_size opts)" and "i < length columns"
    and "column_slice (snd (columns ! i)) (row_from (row_count (snd (hd columns))) (wt_row_group_size opts) g)
      (row_from (row_count (snd (hd columns))) (wt_row_group_size opts) (Suc g)) = (Ok part :: column_data codec_result)"
    and "row_count part \<le> 8 * length msk"
  shows "\<exists>pf. file_open file = Ok pf \<and> reads_masked ext pf g i msk part"
proof -
  from table_fetched [OF assms(2-4)] assms(5-7) obtain pf where "file_open file = Ok pf" "fetched ext pf g i part" by force
  with reads_masked_fetched [OF assms(1) _ assms(8)] show ?thesis by blast
qed

lemma table_masked_read_witness:
  "\<exists>pf. file_open demo_file = Ok pf \<and> read_column_i32_masked_into stored_codecs pf 0 0 [2] [5] = Ok [5, 9]"
proof -
  have "\<exists>pf. file_open demo_file = Ok pf \<and> reads_masked stored_codecs pf 0 0 [2] (Col_I32 [7, 9])"
    by (rule table_masked_read [OF stored_codecs_sound demo_written demo_fits demo_length])
      (simp_all add: demo_columns_def demo_options_def group_count_def div_ceil_def row_from_def list_range_def)
  moreover have "masked [2] [7, 9 :: i32] = [9]" by (simp add: masked_def stream_bit_def upt_rec)
  ultimately show ?thesis by force
qed

section \<open>The footer\<close>

text \<open>C3. The footer of a written table describes it: the schema, the number of rows, one row group for each
  \<open>row_group_size\<close> rows (and one for the empty table), and for every chunk its type, codec, number of values
  and the statistics of exactly its rows.\<close>

theorem table_footer_describes:
  assumes "write_table_with_options ext sbbf columns opts = Ok file"
    and "table_fits opts columns" and "length file < 2 ^ 31"
  shows "\<exists>pf md. file_open file = Ok pf \<and> file_metadata_of pf = Ok md \<and> fm_schema md = footer_schema columns \<and>
    fm_num_rows md = of_nat (row_count (snd (hd columns))) \<and>
    length (fm_row_groups md) = group_count (row_count (snd (hd columns))) (wt_row_group_size opts) \<and>
    (\<forall>g < length (fm_row_groups md). \<forall>i < length columns. \<exists>part c cm.
       column_slice (snd (columns ! i)) (row_from (row_count (snd (hd columns))) (wt_row_group_size opts) g)
         (row_from (row_count (snd (hd columns))) (wt_row_group_size opts) (Suc g)) = (Ok part :: column_data codec_result) \<and>
       chunk_at md g i = Ok c \<and> cc_meta_data c = Some cm \<and> cm_column_type cm = column_parquet_type (snd (columns ! i)) \<and>
       cm_codec cm = codec_of opts i \<and> cm_num_values cm = of_nat (row_count part) \<and>
       cm_statistics cm = Some (as_statistics (compute_stats part)))"
proof -
  let ?rows = "row_count (snd (hd columns))" and ?n = "wt_row_group_size opts"
  from table_opens [OF assms(1) [unfolded write_table_with_options_def] assms(2,3)] obtain pf rgs where
    pf: "file_open file = Ok pf"
      "file_metadata_of pf = Ok (footer_metadata (footer_schema columns) ?rows rgs (wt_kv_metadata opts))" "length rgs = group_count ?rows ?n"
      "\<forall>g < length rgs. \<forall>i < length columns. chunk_written ext columns opts file
         (footer_metadata (footer_schema columns) ?rows rgs (wt_kv_metadata opts)) g i" by blast
  let ?md = "footer_metadata (footer_schema columns) ?rows rgs (wt_kv_metadata opts)"
  have "\<exists>part c cm. column_slice (snd (columns ! i)) (row_from ?rows ?n g) (row_from ?rows ?n (Suc g)) = (Ok part :: column_data codec_result) \<and>
       chunk_at ?md g i = Ok c \<and> cc_meta_data c = Some cm \<and> cm_column_type cm = column_parquet_type (snd (columns ! i)) \<and>
       cm_codec cm = codec_of opts i \<and> cm_num_values cm = of_nat (row_count part) \<and>
       cm_statistics cm = Some (as_statistics (compute_stats part))" if "g < length rgs" "i < length columns" for g i
  proof -
    from pf(4) that obtain part p where
      part: "column_slice (snd (columns ! i)) (row_from ?rows ?n g) (row_from ?rows ?n (Suc g)) = (Ok part :: column_data codec_result)"
        "pc_stats p = compute_stats part"
        "chunk_at ?md g i = Ok (prepared_chunk (prepared_metadata (fst (columns ! i)) (column_parquet_type (snd (columns ! i)))
           (codec_of opts i) (row_from ?rows ?n (Suc g) - row_from ?rows ?n g) p))"
      unfolding chunk_written_def Let_def chunk_in_def by blast
    show ?thesis using part column_slice_rows [OF part(1)]
      by (simp add: prepared_fields) (simp add: prepared_metadata_def)
  qed
  then show ?thesis using pf(1,2,3) by (intro exI [of _ pf] exI [of _ ?md]) (simp add: footer_metadata_def)
qed

lemma table_footer_describes_witness:
  "\<exists>pf md. file_open demo_file = Ok pf \<and> file_metadata_of pf = Ok md \<and> fm_num_rows md = 3 \<and> length (fm_row_groups md) = 2 \<and>
    (\<exists>c cm. chunk_at md 1 0 = Ok c \<and> cc_meta_data c = Some cm \<and> cm_codec cm = CC_Snappy \<and> cm_num_values cm = 1 \<and>
       cm_statistics cm = Some (as_statistics (compute_stats (Col_I32 [7]))))"
proof -
  have demo: "group_count (row_count (snd (hd demo_columns))) (wt_row_group_size demo_options) = 2" "length demo_columns = 1"
    "column_slice (snd (demo_columns ! 0)) (row_from (row_count (snd (hd demo_columns))) (wt_row_group_size demo_options) 1)
      (row_from (row_count (snd (hd demo_columns))) (wt_row_group_size demo_options) (Suc 1)) = (Ok (Col_I32 [7]) :: column_data codec_result)"
    "codec_of demo_options 0 = CC_Snappy" "row_count (snd (hd demo_columns)) = 3"
    by (simp_all add: demo_columns_def demo_options_def group_count_def div_ceil_def row_from_def list_range_def codec_of_def)
  from table_footer_describes [OF demo_written demo_fits demo_length] demo(1,2) obtain pf md where
    md: "file_open demo_file = Ok pf" "file_metadata_of pf = Ok md" "fm_num_rows md = of_nat (row_count (snd (hd demo_columns)))"
      "length (fm_row_groups md) = 2" "\<forall>g < 2. \<forall>i < 1. \<exists>part c cm.
       column_slice (snd (demo_columns ! i)) (row_from (row_count (snd (hd demo_columns))) (wt_row_group_size demo_options) g)
         (row_from (row_count (snd (hd demo_columns))) (wt_row_group_size demo_options) (Suc g)) = (Ok part :: column_data codec_result) \<and>
       chunk_at md g i = Ok c \<and> cc_meta_data c = Some cm \<and> cm_column_type cm = column_parquet_type (snd (demo_columns ! i)) \<and>
       cm_codec cm = codec_of demo_options i \<and> cm_num_values cm = of_nat (row_count part) \<and>
       cm_statistics cm = Some (as_statistics (compute_stats part))" by auto
  from md(5) [rule_format, of 1 0] demo(3,4) have "\<exists>c cm. chunk_at md 1 0 = Ok c \<and> cc_meta_data c = Some cm \<and> cm_codec cm = CC_Snappy \<and>
      cm_num_values cm = 1 \<and> cm_statistics cm = Some (as_statistics (compute_stats (Col_I32 [7])))" by auto
  then show ?thesis using md(1-4) demo(5) by auto
qed

section \<open>Success and failure\<close>

lemma check_rows_Ok:
  assumes "columns \<noteq> []" and "\<forall>c \<in> set columns. row_count (snd c) = rows"
  shows "fold_o (\<lambda>_ (nm, c). require_o (row_count c = rows) (e nm c)) () (tl columns) = (Ok () :: unit codec_result)"
proof -
  have "\<exists>u. (case x of (nm, c) \<Rightarrow> require_o (row_count c = rows) (e nm c)) = (Ok u :: unit codec_result)" if "x \<in> set (tl columns)" for x
  proof -
    have "row_count (snd x) = rows" using assms(2) list.set_sel(2) [OF assms(1) that] by blast
    then show ?thesis by (simp add: split_beta require_o_def)
  qed
  then have "\<exists>u. fold_o (\<lambda>_ (nm, c). require_o (row_count c = rows) (e nm c)) () (tl columns) = (Ok u :: unit codec_result)"
    by (intro fold_o_total)
  then show ?thesis by simp
qed

text \<open>C13. On arguments that meet the documented conditions the writer returns a file: no combination of values,
  row group size, page version, codecs, dictionaries and bloom filters makes it fail or panic.\<close>

theorem write_table_total:
  assumes "codecs_sound ext" and "options_ok opts columns" and "table_fits opts columns"
  shows "\<exists>file. write_table_with_options ext sbbf columns opts = Ok file"
proof -
  let ?rows = "row_count (snd (hd columns))"
  have ok: "columns \<noteq> []" "wt_row_group_size opts \<noteq> 0" "\<forall>c \<in> set columns. row_count (snd c) = ?rows"
    "pred_option (\<lambda>cs. length cs = length columns) (wt_codec_per_column opts)"
    using assms(2) unfolding options_ok_def list_all_iff pred_option_def by blast+
  note rows = check_rows_Ok [OF ok(1,3)]
  have codecs: "(case wt_codec_per_column opts of None \<Rightarrow> Ok ()
      | Some c \<Rightarrow> require_o (length c = length columns) (e c)) = (Ok () :: unit codec_result)" for e
    using ok(4) by (auto simp: require_o_def split: option.split)
  have "\<exists>r. write_row_groups ext sbbf opts columns ?rows sink_start [] 0 False = Ok r"
  proof (cases "?rows = 0")
    case True
    obtain sk prepared where "fold_o (write_column ext sbbf opts 0 0) (sink_start, []) (enumerate 0 columns) = Ok (sk, prepared)"
      using write_columns_Ok [OF assms, of 0 0 sbbf "(sink_start, [])"] by force
    then have "write_row_groups ext sbbf opts columns 0 sink_start [] 0 False = write_row_groups ext sbbf opts columns 0 sk [(0, prepared)] 0 True"
      by (subst write_row_groups.simps) simp
    then show ?thesis unfolding True by (simp only: row_groups_end) blast
  next
    case False
    then show ?thesis by (intro write_row_groups_Ok [OF assms refl]) simp_all
  qed
  then obtain sk groups where groups: "write_row_groups ext sbbf opts columns ?rows sink_start [] 0 False = Ok (sk, groups)" by force
  from footer_written [OF assms(2), of "enumerate 0 groups" ?rows "wt_kv_metadata opts"] obtain rgs footer where
    "mapM_o (\<lambda>(rg_ix, g). footer_row_group opts columns rg_ix g) (enumerate 0 groups) = (Ok rgs :: row_group list codec_result)"
    "write_file_metadata (footer_metadata (footer_schema columns) ?rows rgs (wt_kv_metadata opts)) = Ok footer" by blast
  then have "\<exists>file. bind_o (mapM_o (\<lambda>(rg_ix, g). footer_row_group opts columns rg_ix g) (enumerate 0 groups)) (\<lambda>row_groups.
     write_footer (footer_metadata (footer_schema columns) ?rows row_groups (wt_kv_metadata opts)) (sk_out sk)) = Ok file"
    by (simp add: write_footer_def)
  moreover have "(require_o (columns \<noteq> []) e :: unit codec_result) = Ok ()" "(require_o (wt_row_group_size opts \<noteq> 0) e :: unit codec_result) = Ok ()" for e
    using ok(1,2) by (simp_all add: require_o_def)
  ultimately show ?thesis
    unfolding write_table_with_options_def write_table_inner_full_v2_def Let_def
    by (simp only: rows codecs check_dict_columns_Ok [OF assms(2)] groups bind_o.simps prod.case)
qed

lemma part_sum:
  "sum_list (map f (take m xs)) \<le> (sum_list (map f xs) :: nat)" "sum_list (map f (drop n xs)) \<le> (sum_list (map f xs) :: nat)"
proof -
  have "sum_list (map f (take k xs)) + sum_list (map f (drop k xs)) = sum_list (map f xs)" for k
    by (simp flip: sum_list_append map_append)
  from this [of m] this [of n] show "sum_list (map f (take m xs)) \<le> sum_list (map f xs)" "sum_list (map f (drop n xs)) \<le> sum_list (map f xs)"
    by linarith+
qed

lemma slice_fits_slice:
  assumes "column_slice col a b = (Ok part :: column_data codec_result)" and "slice_fits col"
  shows "slice_fits part"
proof -
  have "(\<Sum>v \<leftarrow> take m (drop n vs). f v) \<le> (\<Sum>v \<leftarrow> vs. f v :: nat)" for m n f and vs :: "bytes list"
    using le_trans [OF part_sum(1) part_sum(2)] .
  then have "plain_size part \<le> plain_size col"
    using assms(1) by (cases col) (auto simp: bind_o_eq_Ok_iff list_range_def div_ceil_def split: if_splits intro!: div_le_mono)
  then show ?thesis using assms(2) by (simp add: slice_fits_def)
qed

lemma write_table_total_witness:
  "\<exists>file. write_table_with_options stored_codecs (\<lambda>n fpp. of_nat (8 * n))
     [([0x61], Col_Bool [True, False, True]), ([0x62], Col_ByteArray [[1], [], [2, 3]]), ([0x63], Col_U64 [5, 6, 7])]
     \<lparr>wt_default_codec = CC_Zstd, wt_row_group_size = 2, wt_page_version = Pages_V2, wt_bloom_fpps = Some [None, Some 0, None],
      wt_dict_per_column = Some [False, False, False], wt_codec_per_column = Some [CC_Gzip, CC_Lz4Raw, CC_Brotli],
      wt_kv_metadata = Some [([1], [2])]\<rparr> = Ok file"
proof (rule write_table_total [OF stored_codecs_sound])
  let ?columns = "[([0x61 :: u8], Col_Bool [True, False, True]), ([0x62], Col_ByteArray [[1], [], [2, 3]]), ([0x63], Col_U64 [5, 6, 7])]"
  let ?opts = "\<lparr>wt_default_codec = CC_Zstd, wt_row_group_size = 2, wt_page_version = Pages_V2, wt_bloom_fpps = Some [None, Some 0, None],
      wt_dict_per_column = Some [False, False, False], wt_codec_per_column = Some [CC_Gzip, CC_Lz4Raw, CC_Brotli],
      wt_kv_metadata = Some [([1], [2])]\<rparr>"
  show "options_ok ?opts ?columns" by (simp add: options_ok_def)
  have "slice_fits part" if "column_slice (snd c) a b = (Ok part :: column_data codec_result)" "c \<in> set ?columns" for a b c part
    using slice_fits_slice [OF that(1)] that(2) by (auto simp: slice_fits_def div_ceil_def)
  then show "table_fits ?opts ?columns" unfolding table_fits_def by (auto simp: fits_def simp del: column_slice.simps)
qed

text \<open>C17. Two options are used without the check their documentation promises: a dictionary for a \<open>U64\<close> column and
  a list of false-positive rates shorter than the columns both panic in the middle of writing.\<close>

theorem write_table_unchecked_options_panic:
  "write_table_with_options ext sbbf [(nm, Col_U64 vs)] (write_options_default\<lparr>wt_dict_per_column := Some [True]\<rparr>)
     = Panic ''encode_dict None already rejected by precondition checks'' \<and>
   write_table_with_options ext sbbf [(nm, Col_U64 vs)] (write_options_default\<lparr>wt_bloom_fpps := Some []\<rparr>)
     = Panic ''index out of bounds''"
proof -
  have aux: "write_row_groups ext sbbf opts [(nm, col)] rows sink_start [] 0 False = Panic e"
    if "wt_row_group_size opts = 2 ^ 64 - 1" "\<And>b. b \<le> rows \<Longrightarrow> write_column ext sbbf opts 0 b (sink_start, []) (0, nm, col) = Panic e"
    for opts col rows e
    using that by (subst write_row_groups.simps) (simp add: add_usize_def)
  note aux [where opts = "write_options_default\<lparr>wt_dict_per_column := Some [True]\<rparr>" and e = "''encode_dict None already rejected by precondition checks''"]
    aux [where opts = "write_options_default\<lparr>wt_bloom_fpps := Some []\<rparr>" and e = "''index out of bounds''"]
  then show ?thesis
    by (simp add: write_table_with_options_def write_table_inner_full_v2_def write_options_default_def usize_max_def require_o_def
        check_dict_columns_def index_o_def is_bool_column_def write_column_def list_range_def per_column_def Let_def)
qed

section \<open>The invariant of the sink\<close>

text \<open>C14. Through the loops over row groups and columns the sink's counter is the length of what was written, row
  group \<open>g\<close> is at the end of the bytes written before it, and every chunk's pages stand at the offsets that are
  recorded for it.\<close>

theorem write_row_groups_layout:
  assumes "write_row_groups ext sbbf opts columns rows sink_start [] 0 False = Ok (sk, groups)" and "0 < wt_row_group_size opts"
  shows "sk_written sk = of_nat (length (sk_out sk)) \<and> take 4 (sk_out sk) = parquet_magic \<and>
    length groups = group_count rows (wt_row_group_size opts) \<and> groups_in (sk_out sk) ext opts columns rows groups"
proof -
  have "groups_in (sk_out sink_start) ext opts columns rows []" "0 = row_from rows (wt_row_group_size opts) (length ([] :: prepared_group list))"
    "False \<longleftrightarrow> ([] :: prepared_group list) \<noteq> []"
    "length ([] :: prepared_group list) \<le> 1 \<or> row_from rows (wt_row_group_size opts) (length ([] :: prepared_group list) - 1) < rows"
    by (simp_all add: groups_in_def row_from_def)
  from write_row_groups_spec [OF assms(1) sink_ok_start assms(2) this] show ?thesis
    by (auto simp: sink_ok_def sink_start_def parquet_magic_def)
qed

lemma write_row_groups_layout_witness:
  "sk_written demo_sink2 = of_nat (length (sk_out demo_sink2)) \<and> take 4 (sk_out demo_sink2) = parquet_magic \<and>
    length [(2 :: nat, [demo_chunk1]), (1, [demo_chunk2])] = group_count 3 (wt_row_group_size demo_options) \<and>
    groups_in (sk_out demo_sink2) stored_codecs demo_options demo_columns 3 [(2, [demo_chunk1]), (1, [demo_chunk2])]"
  by (rule write_row_groups_layout [OF demo_row_groups]) (simp add: demo_options_def)

end
