(* ===== verification/PageIndex.thy ===== *)
theory PageIndex
  imports ReadColumn
begin

text \<open>
  Page pruning: \<open>page_index.rs\<close> selects the pages whose bounds in a \<open>ColumnIndex\<close> overlap a range, and the
  \<open>with_range\<close> readers of \<open>read.rs\<close> decode those pages only.
\<close>

section \<open>Selecting pages\<close>

definition index_decode_i32 :: "bytes \<Rightarrow> i32 codec_result" where
  "index_decode_i32 bytes =
     (if length bytes \<noteq> 4
      then Err (Decompress (''ColumnIndex i32 stat: expected 4 bytes, got '' @ decimal (length bytes)))
      else Ok (from_le_bytes bytes))"

definition index_decode_i64 :: "bytes \<Rightarrow> i64 codec_result" where
  "index_decode_i64 bytes =
     (if length bytes \<noteq> 8
      then Err (Decompress (''ColumnIndex i64 stat: expected 8 bytes, got '' @ decimal (length bytes)))
      else Ok (from_le_bytes bytes))"

text \<open>One entry of the result; the lists of bounds are as long as the list of null pages when it is asked for.\<close>

definition page_overlaps ::
  "(bytes \<Rightarrow> 'w::len word codec_result) \<Rightarrow> column_index \<Rightarrow> 'w word \<Rightarrow> 'w word \<Rightarrow> nat \<Rightarrow> bool codec_result" where
  "page_overlaps decode idx lo hi i =
     (if ci_null_pages idx ! i then Ok False
      else bind_o (decode (ci_min_values idx ! i)) (\<lambda>pmin.
           bind_o (decode (ci_max_values idx ! i)) (\<lambda>pmax.
           Ok (sint lo \<le> sint pmax \<and> sint pmin \<le> sint hi))))"

definition select_pages_overlapping ::
  "(bytes \<Rightarrow> 'w::len word codec_result) \<Rightarrow> column_index \<Rightarrow> 'w word \<Rightarrow> 'w word \<Rightarrow> bool list codec_result" where
  "select_pages_overlapping decode idx lo hi =
     (if sint hi < sint lo then Err (Decompress ''select_pages_overlapping: lo > hi'')
      else let n = length (ci_null_pages idx)
      in if length (ci_min_values idx) \<noteq> n \<or> length (ci_max_values idx) \<noteq> n
         then Err (Decompress ''ColumnIndex: null_pages/min/max length mismatch'')
         else mapM_o (page_overlaps decode idx lo hi) [0..<n])"

definition select_pages_overlapping_i32 :: "column_index \<Rightarrow> i32 \<Rightarrow> i32 \<Rightarrow> bool list codec_result" where
  "select_pages_overlapping_i32 = select_pages_overlapping index_decode_i32"

definition select_pages_overlapping_i64 :: "column_index \<Rightarrow> i64 \<Rightarrow> i64 \<Rightarrow> bool list codec_result" where
  "select_pages_overlapping_i64 = select_pages_overlapping index_decode_i64"

section \<open>Reading a range\<close>

definition read_column_index_bytes :: "parquet_file \<Rightarrow> nat \<Rightarrow> nat \<Rightarrow> bytes option codec_result" where
  "read_column_index_bytes file rg column =
     bind_o (map_err io_to_codec (file_metadata_of file)) (\<lambda>md.
     bind_o (chunk_at md rg column) (\<lambda>col.
     case (cc_column_index_offset col, cc_column_index_length col) of
       (Some off, Some len) \<Rightarrow>
         bind_o (map_err io_to_codec (read_range file (as_usize off) (as_usize len))) (\<lambda>bytes. Ok (Some bytes))
     | _ \<Rightarrow> Ok None))"

definition page_mask ::
  "(column_index \<Rightarrow> 'w::len word \<Rightarrow> 'w word \<Rightarrow> bool list codec_result) \<Rightarrow> parquet_file \<Rightarrow> nat \<Rightarrow> nat \<Rightarrow> 'w word \<Rightarrow> 'w word \<Rightarrow>
   bool list option codec_result" where
  "page_mask select file rg column lo hi =
     bind_o (read_column_index_bytes file rg column) (\<lambda>ci_bytes.
     case ci_bytes of
       None \<Rightarrow> Ok None
     | Some ci_bytes \<Rightarrow>
         bind_o (map_err read_format_to_codec (read_column_index (cursor_new ci_bytes))) (\<lambda>(ci, cur).
         bind_o (select ci lo hi) (\<lambda>m. Ok (Some m))))"

definition page_mask_i64 :: "parquet_file \<Rightarrow> nat \<Rightarrow> nat \<Rightarrow> i64 \<Rightarrow> i64 \<Rightarrow> bool list option codec_result" where
  "page_mask_i64 = page_mask select_pages_overlapping_i64"

definition page_mask_i32 :: "parquet_file \<Rightarrow> nat \<Rightarrow> nat \<Rightarrow> i32 \<Rightarrow> i32 \<Rightarrow> bool list option codec_result" where
  "page_mask_i32 = page_mask select_pages_overlapping_i32"

definition read_column_i64_with_range ::
  "codecs \<Rightarrow> parquet_file \<Rightarrow> nat \<Rightarrow> nat \<Rightarrow> i64 \<Rightarrow> i64 \<Rightarrow> i64 list codec_result" where
  "read_column_i64_with_range ext file rg column lo hi =
     bind_o (page_mask_i64 file rg column lo hi) (\<lambda>msk. decode_chunk_masked_into ext file rg column msk decode_plain_i64)"

definition read_column_i32_with_range ::
  "codecs \<Rightarrow> parquet_file \<Rightarrow> nat \<Rightarrow> nat \<Rightarrow> i32 \<Rightarrow> i32 \<Rightarrow> i32 list codec_result" where
  "read_column_i32_with_range ext file rg column lo hi =
     bind_o (page_mask_i32 file rg column lo hi) (\<lambda>msk. decode_chunk_masked_into ext file rg column msk decode_plain_i32)"

end
