(* ===== verification/PageIndexProofs.thy ===== *)
theory PageIndexProofs
  imports PageIndex TableTotal
begin

text \<open>
  Page pruning loses nothing: whatever a column index says truthfully about the pages of a chunk, the
  values in the range are those of the full read.
\<close>

section \<open>The pages of a chunk\<close>

text \<open>The pages the walker gives, and the loops over them as folds over the list.\<close>

definition chunk_page_list :: "chunk_info \<Rightarrow> page list codec_result" where
  "chunk_page_list ck = walk_pages (\<lambda>ps h b. Ok (True, ps @ [(h, b)])) (page_walker_new (ck_bytes ck)) []"

lemma walk_collected:
  assumes "walk_pages (\<lambda>ps h b. Ok (True, ps @ [(h, b)])) w acc = Ok ps"
  shows "\<exists>qs. ps = acc @ qs \<and> (\<forall>page s. walk_pages page w s = run_pages page (s :: 's) qs)"
  using assms
proof (induction "remaining (pw_cur w)" arbitrary: w acc rule: less_induct)
  case less
  let ?collect = "\<lambda>ps h b. Ok (True, ps @ [(h, b)]) :: (bool \<times> page list) codec_result"
  from less(2) obtain p w' where n: "next_page w = Ok (p, w')"
    by (auto simp: walk_pages.simps [of ?collect w] bind_o_eq_Ok_iff)
  show ?case
  proof (cases p)
    case None
    then have "ps = acc" using less(2) n by (simp add: walk_pages.simps [of ?collect w])
    moreover have "walk_pages page w s = Ok s" for page and s :: 's
      using n None by (simp add: walk_pages.simps [of page w])
    ultimately show ?thesis by (intro exI [of _ "[]"]) simp
  next
    case (Some q)
    obtain h b where q: "q = (h, b)" by (cases q)
    have go: "walk_pages ?collect w' (acc @ [(h, b)]) = Ok ps"
      using less(2) n Some q by (simp add: walk_pages.simps [of ?collect w])
    from less(1) [OF next_page_shorter [OF n [unfolded Some]] go]
    obtain qs where qs: "ps = acc @ (h, b) # qs" "\<And>page s. walk_pages page w' s = run_pages page (s :: 's) qs" by auto
    have "walk_pages page w s = run_pages page s ((h, b) # qs)" for page and s :: 's
      by (subst walk_pages.simps) (simp only: n Some q map_err.simps bind_o.simps prod.case option.case qs(2) run_pages.simps fst_conv snd_conv)
    with qs(1) show ?thesis by (intro exI [of _ "(h, b) # qs"]) simp
  qed
qed

lemma walk_page_list:
  assumes "chunk_page_list ck = Ok ps"
  shows "walk_pages page (page_walker_new (ck_bytes ck)) s = run_pages page s ps"
  using walk_collected [OF assms [unfolded chunk_page_list_def]] by auto

definition is_data :: "page_header \<Rightarrow> bool" where
  "is_data h \<longleftrightarrow> ph_page_type h = PG_DataPage \<or> ph_page_type h = PG_DataPageV2"

text \<open>The values of each data page, decoded with the dictionary read before it.\<close>

fun page_values ::
  "codecs \<Rightarrow> chunk_info \<Rightarrow> (bytes \<Rightarrow> 'a list codec_result) \<Rightarrow> (bytes \<Rightarrow> 'a list \<Rightarrow> nat \<Rightarrow> 'a list \<Rightarrow> 'a list codec_result) \<Rightarrow>
   'a list \<Rightarrow> page list \<Rightarrow> 'a list list codec_result" where
  "page_values ext ck dec g d [] = Ok []"
| "page_values ext ck dec g d (p # ps) =
     bind_o (dense_page ext ck dec g (d, []) (fst p) (snd p)) (\<lambda>(d', vs).
     bind_o (page_values ext ck dec g d' ps) (\<lambda>vss. Ok (if is_data (fst p) then vs # vss else vss)))"

lemma as_usize_less: "as_usize w < 2 ^ 64"
  unfolding as_usize_def using unsigned_less [of "scast w :: 64 word"] by simp

lemma view_num_values:
  "data_page_view ext ck h b = Ok info \<Longrightarrow> dp_num_values info < 2 ^ 64"
  by (auto simp: data_page_view_def bind_o_eq_Ok_iff no_page_header_def Let_def as_usize_less [simplified]
      split: option.splits if_splits)

text \<open>An index decoder appends: what it gives does not depend on what the caller has.\<close>

definition appends :: "(bytes \<Rightarrow> 'a list \<Rightarrow> nat \<Rightarrow> 'a list \<Rightarrow> 'a list codec_result) \<Rightarrow> bool" where
  "appends g \<longleftrightarrow> (\<forall>body d n vs out. n < 2 ^ 64 \<longrightarrow> g body d n [] = Ok vs \<longrightarrow> g body d n out = Ok (out @ vs))"

lemma appends_fused: "appends decode_rle_dictionary_into"
  by (auto simp: appends_def dict_values_iff)

lemma fold_push:
  "fold_o (\<lambda>out idx. bind_o (get_o e d (unat idx)) (\<lambda>v. Ok (out @ [v]))) a ixs = Ok r \<Longrightarrow>
   fold_o (\<lambda>out idx. bind_o (get_o e d (unat idx)) (\<lambda>v. Ok (out @ [v]))) (out @ a) ixs = Ok (out @ r)"
  by (induction ixs arbitrary: a) (auto simp: bind_o_eq_Ok_iff)

lemma appends_byte_arrays: "appends gather_byte_arrays"
  unfolding appends_def gather_byte_arrays_def
  by (auto simp: bind_o_eq_Ok_iff dest!: fold_push [where a = "[]", simplified])

lemma dense_page_append:
  assumes g: "appends g" and page: "dense_page ext ck dec g (d, []) h b = Ok (d', vs)"
  shows "dense_page ext ck dec g (d, out) h b = Ok (d', out @ vs)"
    and "is_data h \<Longrightarrow> d' = d" and "\<not> is_data h \<Longrightarrow> vs = []"
proof -
  have "dense_page ext ck dec g (d, out) h b = Ok (d', out @ vs) \<and> (is_data h \<longrightarrow> d' = d) \<and> (\<not> is_data h \<longrightarrow> vs = [])"
  proof (cases "is_data h")
    case True
    with page obtain info where info: "data_page_view ext ck h b = Ok info"
      by (cases "ph_page_type h") (auto simp: dense_page_def is_data_def bind_o_eq_Ok_iff)
    have gather: "g body e (dp_num_values info) [] = Ok us \<Longrightarrow> g body e (dp_num_values info) out = Ok (out @ us)" for body e us
      using g view_num_values [OF info] unfolding appends_def by blast
    show ?thesis using page info True
      by (cases "dp_encoding info"; cases "ph_page_type h") (auto simp: dense_page_def is_data_def bind_o_eq_Ok_iff gather split: if_splits)
  next
    case False
    then show ?thesis using page by (cases "ph_page_type h") (auto simp: dense_page_def is_data_def bind_o_eq_Ok_iff)
  qed
  then show "dense_page ext ck dec g (d, out) h b = Ok (d', out @ vs)"
    "is_data h \<Longrightarrow> d' = d" "\<not> is_data h \<Longrightarrow> vs = []" by blast+
qed

section \<open>The two loops\<close>

lemma dense_stops:
  assumes "page_values ext ck dec decode_rle_dictionary_into d ps = Ok vss" and "length (out @ concat vss) = ck_total_values ck"
  shows "\<exists>d'. run_pages (\<lambda>s hdr body. bind_o (dense_page ext ck dec decode_rle_dictionary_into s hdr body) (\<lambda>(dict, out).
      Ok (length out < ck_total_values ck, (dict, out)))) (d, out) ps = Ok (d', out @ concat vss)"
  using assms
proof (induction ps arbitrary: d out vss)
  case (Cons p ps)
  from Cons.prems(1) obtain d1 vs vss1 where p: "dense_page ext ck dec decode_rle_dictionary_into (d, []) (fst p) (snd p) = Ok (d1, vs)"
    "page_values ext ck dec decode_rle_dictionary_into d1 ps = Ok vss1" "vss = (if is_data (fst p) then vs # vss1 else vss1)"
    by (auto simp: bind_o_eq_Ok_iff)
  note page = dense_page_append [OF appends_fused p(1)]
  have c: "concat vss = vs @ concat vss1" using p(3) page(3) by auto
  show ?case
  proof (cases "length (out @ vs) < ck_total_values ck")
    case True
    have "\<exists>d'. run_pages (\<lambda>s hdr body. bind_o (dense_page ext ck dec decode_rle_dictionary_into s hdr body) (\<lambda>(dict, out).
        Ok (length out < ck_total_values ck, (dict, out)))) (d1, out @ vs) ps = Ok (d', (out @ vs) @ concat vss1)"
      by (rule Cons.IH [OF p(2)]) (use Cons.prems(2) c in simp)
    then show ?thesis using True by (simp add: page(1) c)
  next
    case False
    then have "concat vss1 = []" using Cons.prems(2) c by (metis add_diff_cancel_left' append.assoc append_Nil2 diff_is_0_eq le_add1 length_0_conv length_append not_less)
    then show ?thesis using False c by (simp only: page(1) run_pages.simps bind_o.simps prod.case append_Nil2 append.assoc) simp
  qed
qed simp

definition kept :: "bool list \<Rightarrow> nat \<Rightarrow> 'a list list \<Rightarrow> 'a list list" where
  "kept m k vss = map snd (filter (\<lambda>(i, vs). i < length m \<longrightarrow> m ! i) (enumerate k vss))"

definition pruned_page ::
  "codecs \<Rightarrow> chunk_info \<Rightarrow> bool list \<Rightarrow> (bytes \<Rightarrow> 'a list codec_result) \<Rightarrow> nat \<times> 'a list \<times> 'a list \<Rightarrow> page_header \<Rightarrow> bytes \<Rightarrow>
   (bool \<times> nat \<times> 'a list \<times> 'a list) codec_result" where
  "pruned_page ext ck m dec s h b =
     (if is_data h \<and> fst s < length m \<and> \<not> m ! fst s then Ok (True, Suc (fst s), snd s)
      else bind_o (dense_page ext ck dec decode_rle_dictionary_into (snd s) h b) (\<lambda>(dict, out).
        Ok (True, if is_data h then Suc (fst s) else fst s, dict, out)))"

lemma decode_chunk_masked_pruned:
  "decode_chunk_masked_into ext file rg column (Some m) dec =
     bind_o (read_chunk_raw file rg column) (\<lambda>ck.
     bind_o (walk_pages (pruned_page ext ck m dec) (page_walker_new (ck_bytes ck)) (0, [], [])) (\<lambda>(data_page_ix, dict, out). Ok out))"
proof -
  have "(\<lambda>(data_page_ix, s) hdr body.
         let is_data = ph_page_type hdr = PG_DataPage \<or> ph_page_type hdr = PG_DataPageV2;
             keep = (case Some m of None \<Rightarrow> True
                     | Some m \<Rightarrow> if data_page_ix < length m then m ! data_page_ix else True);
             data_page_ix = (if is_data then data_page_ix + 1 else data_page_ix)
         in if is_data \<and> \<not> keep then Ok (True, (data_page_ix, s))
            else bind_o (dense_page ext ck dec decode_rle_dictionary_into s hdr body) (\<lambda>(dict, out).
                 Ok (\<not> (Some m = None \<and> length out \<ge> ck_total_values ck), (data_page_ix, dict, out)))) = pruned_page ext ck m dec" for ck
    by (intro ext) (auto simp: pruned_page_def is_data_def Let_def split_beta)
  then show ?thesis unfolding decode_chunk_masked_into_def by (simp only:)
qed

lemma masked_run:
  assumes "page_values ext ck dec decode_rle_dictionary_into d ps = Ok vss"
  shows "\<exists>d'. run_pages (pruned_page ext ck m dec) (k, d, out) ps = Ok (k + length vss, d', out @ concat (kept m k vss))"
  using assms
proof (induction ps arbitrary: d out vss k)
  case (Cons p ps)
  from Cons.prems obtain d1 vs vss1 where p: "dense_page ext ck dec decode_rle_dictionary_into (d, []) (fst p) (snd p) = Ok (d1, vs)"
    "page_values ext ck dec decode_rle_dictionary_into d1 ps = Ok vss1" "vss = (if is_data (fst p) then vs # vss1 else vss1)"
    by (auto simp: bind_o_eq_Ok_iff)
  note page = dense_page_append [OF appends_fused p(1)]
  show ?case
  proof (cases "is_data (fst p)")
    case True
    then have "kept m k vss = (if k < length m \<longrightarrow> m ! k then [vs] else []) @ kept m (Suc k) vss1"
      using p(3) by (simp add: kept_def)
    moreover have "pruned_page ext ck m dec (k, d, out) (fst p) (snd p)
        = Ok (True, Suc k, d, out @ (if k < length m \<longrightarrow> m ! k then vs else []))"
      using True page(2) [OF True] by (simp add: pruned_page_def page(1))
    moreover obtain d' where "run_pages (pruned_page ext ck m dec) (Suc k, d, out @ (if k < length m \<longrightarrow> m ! k then vs else [])) ps
        = Ok (Suc k + length vss1, d', (out @ (if k < length m \<longrightarrow> m ! k then vs else [])) @ concat (kept m (Suc k) vss1))"
      using Cons.IH [OF p(2)] page(2) [OF True] by metis
    ultimately show ?thesis using p(3) True by simp
  next
    case False
    from Cons.IH [OF p(2)] obtain d' where "run_pages (pruned_page ext ck m dec) (k, d1, out) ps = Ok (k + length vss1, d', out @ concat (kept m k vss1))"
      by blast
    moreover have "pruned_page ext ck m dec (k, d, out) (fst p) (snd p) = Ok (True, k, d1, out)"
      using False page(3) [OF False] by (simp add: pruned_page_def page(1))
    ultimately show ?thesis using p(3) False by simp
  qed
qed (simp add: kept_def)

lemma read_masked_pages:
  assumes "read_chunk_raw file rg column = Ok ck" and "chunk_page_list ck = Ok ps"
    and "page_values ext ck dec decode_rle_dictionary_into [] ps = Ok vss"
  shows "decode_chunk_masked_into ext file rg column (Some m) dec = Ok (concat (kept m 0 vss))"
    and "ck_total_values ck = length (concat vss) \<Longrightarrow> decode_chunk_into ext file rg column dec = Ok (concat vss)"
proof -
  from masked_run [OF assms(3), of m 0 "[]"] show "decode_chunk_masked_into ext file rg column (Some m) dec = Ok (concat (kept m 0 vss))"
    by (auto simp: decode_chunk_masked_pruned assms(1) walk_page_list [OF assms(2)])
  assume "ck_total_values ck = length (concat vss)"
  with dense_stops [OF assms(3), of "[]"] show "decode_chunk_into ext file rg column dec = Ok (concat vss)"
    by (auto simp: decode_chunk_into_def assms(1) walk_page_list [OF assms(2)])
qed

section \<open>Truthful indexes\<close>

definition index_describes :: "(bytes \<Rightarrow> 'w::len word codec_result) \<Rightarrow> column_index \<Rightarrow> 'w word list list \<Rightarrow> bool" where
  "index_describes dec ci vss \<longleftrightarrow>
     length (ci_null_pages ci) = length vss \<and> length (ci_min_values ci) = length vss \<and> length (ci_max_values ci) = length vss \<and>
     (\<forall>i < length vss. if ci_null_pages ci ! i then vss ! i = []
        else \<exists>mn mx. dec (ci_min_values ci ! i) = Ok mn \<and> dec (ci_max_values ci ! i) = Ok mx \<and>
          (\<forall>v \<in> set (vss ! i). sint mn \<le> sint v \<and> sint v \<le> sint mx))"

lemma select_describes:
  assumes "index_describes dec ci vss" and "sint lo \<le> sint hi"
  shows "\<exists>m. select_pages_overlapping dec ci lo hi = Ok m \<and> length m = length vss \<and>
    (\<forall>i < length vss. \<not> m ! i \<longrightarrow> (\<forall>v \<in> set (vss ! i). \<not> (sint lo \<le> sint v \<and> sint v \<le> sint hi)))"
proof -
  have "\<exists>b. page_overlaps dec ci lo hi i = Ok b \<and> (\<not> b \<longrightarrow> (\<forall>v \<in> set (vss ! i). \<not> (sint lo \<le> sint v \<and> sint v \<le> sint hi)))"
    if "i < length vss" for i
    using assms(1) that unfolding index_describes_def page_overlaps_def by (fastforce split: if_splits)
  then obtain f where f: "\<And>i. i < length vss \<Longrightarrow> page_overlaps dec ci lo hi i = Ok (f i) \<and>
      (\<not> f i \<longrightarrow> (\<forall>v \<in> set (vss ! i). \<not> (sint lo \<le> sint v \<and> sint v \<le> sint hi)))" by metis
  have "mapM_o (page_overlaps dec ci lo hi) [0..<length vss] = Ok (map f [0..<length vss])"
    using f by (intro mapM_o_all_Ok) simp
  then show ?thesis
    using assms f by (intro exI [of _ "map f [0..<length vss]"]) (simp add: select_pages_overlapping_def index_describes_def)
qed

lemma filter_kept:
  assumes "\<forall>i < length vss. k + i < length m \<longrightarrow> \<not> m ! (k + i) \<longrightarrow> (\<forall>v \<in> set (vss ! i). \<not> P v)"
  shows "filter P (concat (kept m k vss)) = filter P (concat vss)"
  using assms
proof (induction vss arbitrary: k)
  case (Cons vs vss)
  have "\<forall>i < length vss. Suc k + i < length m \<longrightarrow> \<not> m ! (Suc k + i) \<longrightarrow> (\<forall>v \<in> set (vss ! i). \<not> P v)"
    using Cons.prems by fastforce
  note ih = Cons.IH [OF this]
  have "filter P vs = []" if "k < length m" "\<not> m ! k" using Cons.prems that by (fastforce simp: filter_empty_conv)
  then show ?case using ih by (auto simp: kept_def)
qed (simp add: kept_def)

section \<open>Reading a range\<close>

lemma range_read:
  fixes lo hi :: "'w::len word" and select :: "column_index \<Rightarrow> 'w word \<Rightarrow> 'w word \<Rightarrow> bool list codec_result"
  assumes "read_chunk_raw file rg column = Ok ck" and "chunk_page_list ck = Ok ps" and "page_values ext ck dec decode_rle_dictionary_into [] ps = Ok vss"
    and "ck_total_values ck = length (concat vss)"
    and "read_column_index_bytes file rg column = Ok (Some bs)" and "read_column_index (cursor_new bs) = Ok (ci, cur)"
    and "index_describes idec ci vss" and "sint lo \<le> sint hi" and "select = select_pages_overlapping idec"
  shows "\<exists>vs us. decode_chunk_into ext file rg column dec = Ok vs \<and>
    bind_o (page_mask select file rg column lo hi) (\<lambda>msk. decode_chunk_masked_into ext file rg column msk dec) = Ok us \<and>
    filter (\<lambda>v. sint lo \<le> sint v \<and> sint v \<le> sint hi) us = filter (\<lambda>v. sint lo \<le> sint v \<and> sint v \<le> sint hi) vs"
proof -
  from select_describes [OF assms(7,8)] obtain m where m: "select_pages_overlapping idec ci lo hi = Ok m"
    "\<forall>i < length vss. \<not> m ! i \<longrightarrow> (\<forall>v \<in> set (vss ! i). \<not> (sint lo \<le> sint v \<and> sint v \<le> sint hi))" by blast
  have "page_mask select file rg column lo hi = Ok (Some m)"
    unfolding page_mask_def assms(9) by (simp add: assms(5,6) m(1))
  moreover have "filter (\<lambda>v. sint lo \<le> sint v \<and> sint v \<le> sint hi) (concat (kept m 0 vss))
      = filter (\<lambda>v. sint lo \<le> sint v \<and> sint v \<le> sint hi) (concat vss)"
    by (rule filter_kept) (use m(2) in simp)
  ultimately show ?thesis
    using read_masked_pages(1) [OF assms(1-3), of m] read_masked_pages(2) [OF assms(1-4)]
    by (intro exI [of _ "concat vss"] exI [of _ "concat (kept m 0 vss)"]) simp
qed

section \<open>The property\<close>

text \<open>Page pruning over files: the property of the \<open>with_range\<close> readers, and a file with a column index.\<close>

section \<open>A chunk of two pages with a column index\<close>

definition range_header1 :: page_header where
  "range_header1 = v1_page_header E_Plain 16 16 2 column_stats_default"

definition range_header2 :: page_header where
  "range_header2 = v1_page_header E_Plain 8 8 1 column_stats_default"

definition range_pages :: "page list" where
  "range_pages = [(range_header1, [3, 0, 0, 0, 0, 0, 0, 0, 5, 0, 0, 0, 0, 0, 0, 0]), (range_header2, [20, 0, 0, 0, 0, 0, 0, 0])]"

definition range_index :: bytes where
  "range_index = [0x19, 0x21, 2, 2, 0x19, 0x28, 8, 3, 0, 0, 0, 0, 0, 0, 0, 8, 20, 0, 0, 0, 0, 0, 0, 0,
     0x19, 0x28, 8, 5, 0, 0, 0, 0, 0, 0, 0, 8, 20, 0, 0, 0, 0, 0, 0, 0, 0x15, 2, 0]"

definition range_out :: bytes where
  "range_out = parquet_magic @ concat (map page_bytes range_pages) @ range_index"

definition range_chunk :: column_chunk where
  "range_chunk = prepared_chunk (prepared_metadata [0x78] PT_Int64 CC_Uncompressed 3
       \<lparr>pc_data_page_offset = 4, pc_dictionary_page_offset = None, pc_total_uncompressed_size = 66, pc_total_compressed_size = 66,
        pc_stats = column_stats_default, pc_bloom_filter_offset = None, pc_bloom_filter_length = None\<rparr>)
     \<lparr>cc_column_index_offset := Some 70, cc_column_index_length := Some 47\<rparr>"

definition range_md :: file_metadata where
  "range_md = footer_metadata (footer_schema [([0x78], Col_I64 [3, 5, 20])]) 3
     [\<lparr>rg_columns = [range_chunk], rg_total_byte_size = 66, rg_num_rows = 3, rg_sorting_columns = None, rg_file_offset = None,
       rg_total_compressed_size = Some 66, rg_ordinal = Some 0\<rparr>] None"

definition range_footer :: bytes where
  "range_footer = [21, 2, 25, 44, 72, 6, 115, 99, 104, 101, 109, 97, 21, 2, 0, 21, 4, 37, 0, 24, 1, 120, 0, 22, 6, 25, 28,
     25, 28, 38, 8, 28, 21, 4, 25, 37, 0, 6, 25, 24, 1, 120, 21, 0, 22, 6, 22, 132, 1, 22, 132, 1, 38, 8, 60, 54, 0, 0, 0,
     54, 140, 1, 21, 94, 0, 22, 132, 1, 22, 6, 54, 132, 1, 20, 0, 0, 40, 20, 101, 109, 97, 116, 105, 120, 45, 112, 97, 114,
     113, 117, 101, 116, 32, 48, 46, 48, 46, 49, 0]"

definition range_file :: bytes where
  "range_file = range_out @ range_footer @ to_le_bytes (of_nat (length range_footer) :: u32) @ parquet_magic"

definition range_pf :: parquet_file where
  "range_pf = \<lparr>pf_file = range_file, pf_file_size = length range_out + length range_footer + 8,
     pf_footer_bytes = range_footer, pf_footer_offset = length range_out\<rparr>"

definition range_entries :: column_index where
  "range_entries = \<lparr>ci_null_pages = [False, False],
     ci_min_values = [[3, 0, 0, 0, 0, 0, 0, 0], [20, 0, 0, 0, 0, 0, 0, 0]],
     ci_max_values = [[5, 0, 0, 0, 0, 0, 0, 0], [20, 0, 0, 0, 0, 0, 0, 0]],
     ci_boundary_order = BO_Ascending, ci_null_counts = None\<rparr>"

lemma range_headers:
  "write_page_header range_header1 = [21, 0, 21, 32, 21, 32, 44, 21, 4, 21, 0, 21, 6, 21, 6, 28, 54, 0, 0, 0, 0]"
  "write_page_header range_header2 = [21, 0, 21, 16, 21, 16, 44, 21, 2, 21, 0, 21, 6, 21, 6, 28, 54, 0, 0, 0, 0]"
  unfolding range_header1_def range_header2_def column_stats_default_def
  by (simp_all add: encode_rules)

lemma range_footer: "write_file_metadata range_md = Ok range_footer"
  unfolding write_file_metadata_def range_md_def range_chunk_def column_stats_default_def
  by (simp add: encode_rules length_step range_footer_def del: list.size(4))

lemma range_opens: "file_open range_file = Ok range_pf"
  unfolding range_file_def range_pf_def
  by (rule file_open_written [of _ "concat (map page_bytes range_pages) @ range_index"]) (simp_all add: range_out_def range_footer_def)

lemma range_metadata: "file_metadata_of range_pf = Ok range_md"
proof -
  have "good_file_metadata range_md"
    by (simp add: range_md_def footer_metadata_def footer_schema_def root_element_def leaf_element_def created_by_def
        good_file_metadata_def good_row_group_def good_column_chunk_def good_column_metadata_def good_schema_element_def
        range_chunk_def prepared_chunk_def prepared_metadata_def good_as_statistics stats_fit_def column_stats_default_def fits_def
        fits_vec_def sizeof_column_chunk_def sizeof_schema_element_def sizeof_row_group_def)
  from read_file_metadata_written [OF this range_footer] show ?thesis
    by (auto simp: file_metadata_of_def range_pf_def)
qed

lemma range_chunk_bytes:
  "length (concat (map page_bytes range_pages)) = 66" "length range_index = 47" "list_all page_ok range_pages"
  by (simp_all add: range_pages_def page_bytes_def range_headers range_index_def)
    (simp add: range_header1_def range_header2_def page_ok_def good_page_header_def good_data_page_header_def v1_page_header_def
      as_usize_def good_as_statistics stats_fit_def column_stats_default_def)

definition range_ck :: chunk_info where
  "range_ck = \<lparr>ck_bytes = concat (map page_bytes range_pages), ck_total_values = 3, ck_codec = CC_Uncompressed,
     ck_max_rep_level = 0, ck_max_def_level = 0\<rparr>"

lemma range_chunk_at: "chunk_at range_md 0 0 = Ok range_chunk"
  by (simp add: chunk_at_def get_o_def range_md_def footer_metadata_def)

lemma range_chunk_raw: "read_chunk_raw range_pf 0 0 = Ok range_ck"
proof -
  have l: "compute_max_levels (fm_schema range_md) 0 = Ok (0, 0)"
    unfolding range_md_def footer_metadata_def by (simp add: footer_levels)
  have "take 66 (drop 4 range_file) = concat (map page_bytes range_pages)"
    using range_chunk_bytes(1) by (simp add: range_file_def range_out_def parquet_magic_def)
  then have r: "read_range range_pf 4 66 = Ok (concat (map page_bytes range_pages))"
    by (simp add: read_range_def range_pf_def range_out_def range_footer_def range_chunk_bytes(1) parquet_magic_def)
  have a: "as_usize (4 :: i64) = 4" "as_usize (66 :: i64) = 66" "as_usize (3 :: i64) = 3" by (simp_all add: as_usize_def)
  have c: "cc_meta_data range_chunk = Some cm \<Longrightarrow> cm_dictionary_page_offset cm = None \<and> cm_data_page_offset cm = 4 \<and>
      cm_total_compressed_size cm = 66 \<and> cm_num_values cm = 3 \<and> cm_codec cm = CC_Uncompressed" for cm
    by (auto simp: range_chunk_def prepared_chunk_def prepared_metadata_def)
  obtain cm where cm: "cc_meta_data range_chunk = Some cm" by (simp add: range_chunk_def prepared_chunk_def)
  show ?thesis
    by (simp add: read_chunk_raw_def range_metadata range_chunk_at cm c [OF cm] l r a range_ck_def Let_def)
qed

lemma range_page_list: "chunk_page_list range_ck = Ok range_pages"
  unfolding chunk_page_list_def range_ck_def
  by (simp only: chunk_info.select_convs walk_chunk [OF range_chunk_bytes(3)]) (simp add: range_pages_def)

lemma range_page_values: "page_values ext range_ck decode_plain_i64 decode_rle_dictionary_into [] range_pages = Ok [[3, 5], [20]]"
proof -
  have f: "flat_chunk range_ck CC_Uncompressed" by (simp add: flat_chunk_def range_ck_def)
  have "data_page_view ext range_ck range_header1 [3, 0, 0, 0, 0, 0, 0, 0, 5, 0, 0, 0, 0, 0, 0, 0]
      = Ok \<lparr>dp_num_values = 2, dp_encoding = E_Plain, dp_values = [3, 0, 0, 0, 0, 0, 0, 0, 5, 0, 0, 0, 0, 0, 0, 0]\<rparr>"
    "data_page_view ext range_ck range_header2 [20, 0, 0, 0, 0, 0, 0, 0]
      = Ok \<lparr>dp_num_values = 1, dp_encoding = E_Plain, dp_values = [20, 0, 0, 0, 0, 0, 0, 0]\<rparr>"
    by (simp_all add: range_header1_def range_header2_def data_page_view_def range_ck_def v1_page_header_def
        page_uncompressed_size_def as_usize_def decompress_into_def)
  moreover have "decode_plain_i64 [3, 0, 0, 0, 0, 0, 0, 0, 5, 0, 0, 0, 0, 0, 0, 0] = Ok [3, 5]"
    "decode_plain_i64 [20, 0, 0, 0, 0, 0, 0, 0] = Ok [20]" by code_simp+
  ultimately show ?thesis
    by (simp add: range_pages_def dense_page_def range_header1_def range_header2_def is_data_def v1_page_header_def)
qed

lemma range_index_bytes: "read_column_index_bytes range_pf 0 0 = Ok (Some range_index)"
proof -
  have "read_range range_pf 70 47 = Ok range_index"
    using range_chunk_bytes(1,2)
    by (simp add: read_range_def range_pf_def range_out_def range_footer_def range_file_def parquet_magic_def range_index_def)
  moreover have "as_usize (70 :: i64) = 70" "as_usize (47 :: i32) = 47" by (simp_all add: as_usize_def)
  ultimately show ?thesis
    by (simp add: read_column_index_bytes_def range_metadata range_chunk_at) (simp add: range_chunk_def)
qed

lemma range_index_read: "\<exists>cur. read_column_index (cursor_new range_index) = Ok (range_entries, cur)"
proof -
  have "read_column_index (cursor_new range_index) = Ok (range_entries, \<lparr>buf = range_index, pos = 47\<rparr>)" by code_simp
  then show ?thesis by blast
qed

lemma range_describes: "index_describes index_decode_i64 range_entries [[3, 5], [20]]"
proof -
  have "index_decode_i64 [3, 0, 0, 0, 0, 0, 0, 0] = Ok 3" "index_decode_i64 [5, 0, 0, 0, 0, 0, 0, 0] = Ok 5"
    "index_decode_i64 [20, 0, 0, 0, 0, 0, 0, 0] = Ok 20" by code_simp+
  then show ?thesis by (simp add: index_describes_def range_entries_def All_less_Suc2)
qed

section \<open>The property\<close>

text \<open>C5. Page pruning loses no value: on any file whose chunk decodes page by page, with a column index that tells
  the truth about its pages, the range reader succeeds and has exactly the values in the range, in order, that the
  full read has; only pages without such a value are left out.\<close>

theorem range_read_complete:
  fixes lo hi :: i64
  assumes "read_chunk_raw file rg column = Ok ck" and "chunk_page_list ck = Ok ps"
    and "page_values ext ck decode_plain_i64 decode_rle_dictionary_into [] ps = Ok vss" and "ck_total_values ck = length (concat vss)"
    and "read_column_index_bytes file rg column = Ok (Some bs)" and "read_column_index (cursor_new bs) = Ok (ci, cur)"
    and "index_describes index_decode_i64 ci vss" and "sint lo \<le> sint hi"
  shows "\<exists>vs us. read_column_i64 ext file rg column = Ok vs \<and> read_column_i64_with_range ext file rg column lo hi = Ok us \<and>
    filter (\<lambda>v. sint lo \<le> sint v \<and> sint v \<le> sint hi) us = filter (\<lambda>v. sint lo \<le> sint v \<and> sint v \<le> sint hi) vs"
  unfolding read_column_i64_def read_column_i64_with_range_def page_mask_i64_def
  by (rule range_read [OF assms]) (simp add: select_pages_overlapping_i64_def)

lemma range_read_complete_witness:
  "\<exists>vs us. read_column_i64 stored_codecs range_pf 0 0 = Ok vs \<and> read_column_i64_with_range stored_codecs range_pf 0 0 4 10 = Ok us \<and>
    filter (\<lambda>v. sint (4 :: i64) \<le> sint v \<and> sint v \<le> sint (10 :: i64)) us = filter (\<lambda>v. sint (4 :: i64) \<le> sint v \<and> sint v \<le> sint (10 :: i64)) vs"
proof -
  from range_index_read obtain cur where "read_column_index (cursor_new range_index) = Ok (range_entries, cur)" ..
  from range_read_complete [OF range_chunk_raw range_page_list range_page_values _ range_index_bytes this range_describes, of 4 10]
  show ?thesis by (simp add: range_ck_def)
qed

end
