(* ===== verification/Downcast.thy ===== *)
theory Downcast
  imports ReadColumn
begin

text \<open>
  \<open>downcast.rs\<close>: integer columns decoded into the narrowest width their range allows, directly or as offsets
  from the minimum, and \<open>read_column_i64_downcast\<close> of \<open>read.rs\<close>, which takes the range from the statistics of
  the row group.  The debug assertions on each narrowed value are panics.  The decoders read aligned words
  through raw pointers inside the buffer; the words are those \<open>decode_plain_i64\<close> reads.
\<close>

section \<open>Targets\<close>

datatype int_target = To_I8 | To_U8 | To_I16 | To_U16 | To_I32 | To_U32 | To_I64

fun width_bytes :: "int_target \<Rightarrow> nat" where
  "width_bytes To_I8 = 1"
| "width_bytes To_U8 = 1"
| "width_bytes To_I16 = 2"
| "width_bytes To_U16 = 2"
| "width_bytes To_I32 = 4"
| "width_bytes To_U32 = 4"
| "width_bytes To_I64 = 8"

definition is_narrowing :: "int_target \<Rightarrow> bool" where
  "is_narrowing t = (width_bytes t < 8)"

definition narrowest_int_target :: "i64 \<Rightarrow> i64 \<Rightarrow> ('e, int_target) outcome" where
  "narrowest_int_target mn mx =
     (let min = sint mn; max = sint mx
      in if max < min then Panic (''narrowest_int_target: min '' @ decimal_signed mn @ '' > max '' @ decimal_signed mx)
      else if min \<ge> - (2 ^ 7) \<and> max \<le> 2 ^ 7 - 1 then Ok To_I8
      else if min \<ge> 0 \<and> max \<le> 2 ^ 8 - 1 then Ok To_U8
      else if min \<ge> - (2 ^ 15) \<and> max \<le> 2 ^ 15 - 1 then Ok To_I16
      else if min \<ge> 0 \<and> max \<le> 2 ^ 16 - 1 then Ok To_U16
      else if min \<ge> - (2 ^ 31) \<and> max \<le> 2 ^ 31 - 1 then Ok To_I32
      else if min \<ge> 0 \<and> max \<le> 2 ^ 32 - 1 then Ok To_U32
      else Ok To_I64)"

datatype narrowed_i64 =
    N_I8 "i8 list"
  | N_U8 "u8 list"
  | N_I16 "i16 list"
  | N_U16 "u16 list"
  | N_I32 "i32 list"
  | N_U32 "u32 list"
  | N_I64 "i64 list"

fun narrowed_len :: "narrowed_i64 \<Rightarrow> nat" where
  "narrowed_len (N_I8 v) = length v"
| "narrowed_len (N_U8 v) = length v"
| "narrowed_len (N_I16 v) = length v"
| "narrowed_len (N_U16 v) = length v"
| "narrowed_len (N_I32 v) = length v"
| "narrowed_len (N_U32 v) = length v"
| "narrowed_len (N_I64 v) = length v"

definition narrowed_is_empty :: "narrowed_i64 \<Rightarrow> bool" where
  "narrowed_is_empty n = (narrowed_len n = 0)"

fun narrowed_target :: "narrowed_i64 \<Rightarrow> int_target" where
  "narrowed_target (N_I8 v) = To_I8"
| "narrowed_target (N_U8 v) = To_U8"
| "narrowed_target (N_I16 v) = To_I16"
| "narrowed_target (N_U16 v) = To_U16"
| "narrowed_target (N_I32 v) = To_I32"
| "narrowed_target (N_U32 v) = To_U32"
| "narrowed_target (N_I64 v) = To_I64"

definition narrowed_byte_size :: "narrowed_i64 \<Rightarrow> ('e, nat) outcome" where
  "narrowed_byte_size n = mul_usize (narrowed_len n) (width_bytes (narrowed_target n))"

text \<open>\<open>x as i64\<close>: the signed widths are sign-extended, the unsigned ones zero-extended.\<close>

fun narrowed_to_i64 :: "narrowed_i64 \<Rightarrow> i64 list" where
  "narrowed_to_i64 (N_I8 v) = map scast v"
| "narrowed_to_i64 (N_U8 v) = map ucast v"
| "narrowed_to_i64 (N_I16 v) = map scast v"
| "narrowed_to_i64 (N_U16 v) = map ucast v"
| "narrowed_to_i64 (N_I32 v) = map scast v"
| "narrowed_to_i64 (N_U32 v) = map ucast v"
| "narrowed_to_i64 (N_I64 v) = v"

section \<open>Narrowing decoders\<close>

definition narrow_decode :: "bytes \<Rightarrow> (i64 \<Rightarrow> 'a codec_result) \<Rightarrow> 'a list codec_result" where
  "narrow_decode bytes f =
     (if length bytes mod 8 \<noteq> 0 then Err (UnalignedPlainBuffer 8 (length bytes))
      else mapM_o f (plain_memcpy bytes 8))"

definition narrow_decode_i32 :: "bytes \<Rightarrow> (i32 \<Rightarrow> 'a codec_result) \<Rightarrow> 'a list codec_result" where
  "narrow_decode_i32 bytes f =
     (if length bytes mod 4 \<noteq> 0 then Err (UnalignedPlainBuffer 4 (length bytes))
      else mapM_o f (plain_memcpy bytes 4))"

text \<open>\<open>\{ debug_assert!(d >= lo && d <= hi, "\<dots> lost \{v\}"); d as T \}\<close>; the cast keeps the low bits.\<close>

definition checked_cast :: "int \<Rightarrow> int \<Rightarrow> string \<Rightarrow> 'v::len word \<Rightarrow> 'd::len word \<Rightarrow> 'w::len word codec_result" where
  "checked_cast lo hi what v d =
     (if lo \<le> sint d \<and> sint d \<le> hi then Ok (scast d) else Panic (what @ '' lost '' @ decimal_signed v))"

definition decode_plain_i64_as_i8 :: "bytes \<Rightarrow> i8 list codec_result" where
  "decode_plain_i64_as_i8 bytes = narrow_decode bytes (\<lambda>v. checked_cast (- (2 ^ 7)) (2 ^ 7 - 1) ''i8 downcast'' v v)"

definition decode_plain_i64_as_u8 :: "bytes \<Rightarrow> u8 list codec_result" where
  "decode_plain_i64_as_u8 bytes = narrow_decode bytes (\<lambda>v. checked_cast 0 (2 ^ 8 - 1) ''u8 downcast'' v v)"

definition decode_plain_i64_as_i16 :: "bytes \<Rightarrow> i16 list codec_result" where
  "decode_plain_i64_as_i16 bytes = narrow_decode bytes (\<lambda>v. checked_cast (- (2 ^ 15)) (2 ^ 15 - 1) ''i16 downcast'' v v)"

definition decode_plain_i64_as_u16 :: "bytes \<Rightarrow> u16 list codec_result" where
  "decode_plain_i64_as_u16 bytes = narrow_decode bytes (\<lambda>v. checked_cast 0 (2 ^ 16 - 1) ''u16 downcast'' v v)"

definition decode_plain_i64_as_i32 :: "bytes \<Rightarrow> i32 list codec_result" where
  "decode_plain_i64_as_i32 bytes = narrow_decode bytes (\<lambda>v. checked_cast (- (2 ^ 31)) (2 ^ 31 - 1) ''i32 downcast'' v v)"

definition decode_plain_i64_as_u32 :: "bytes \<Rightarrow> u32 list codec_result" where
  "decode_plain_i64_as_u32 bytes = narrow_decode bytes (\<lambda>v. checked_cast 0 (2 ^ 32 - 1) ''u32 downcast'' v v)"

definition map_o :: "('a \<Rightarrow> 'b) \<Rightarrow> ('e, 'a) outcome \<Rightarrow> ('e, 'b) outcome" where
  "map_o f m = bind_o m (\<lambda>x. Ok (f x))"

fun decode_plain_i64_narrowed :: "bytes \<Rightarrow> int_target \<Rightarrow> narrowed_i64 codec_result" where
  "decode_plain_i64_narrowed bytes To_I8 = map_o N_I8 (decode_plain_i64_as_i8 bytes)"
| "decode_plain_i64_narrowed bytes To_U8 = map_o N_U8 (decode_plain_i64_as_u8 bytes)"
| "decode_plain_i64_narrowed bytes To_I16 = map_o N_I16 (decode_plain_i64_as_i16 bytes)"
| "decode_plain_i64_narrowed bytes To_U16 = map_o N_U16 (decode_plain_i64_as_u16 bytes)"
| "decode_plain_i64_narrowed bytes To_I32 = map_o N_I32 (decode_plain_i64_as_i32 bytes)"
| "decode_plain_i64_narrowed bytes To_U32 = map_o N_U32 (decode_plain_i64_as_u32 bytes)"
| "decode_plain_i64_narrowed bytes To_I64 = map_o N_I64 (decode_plain_i64 bytes)"

definition decode_plain_i64_auto :: "bytes \<Rightarrow> i64 \<Rightarrow> i64 \<Rightarrow> narrowed_i64 codec_result" where
  "decode_plain_i64_auto bytes mn mx = bind_o (narrowest_int_target mn mx) (decode_plain_i64_narrowed bytes)"

section \<open>Frames of reference\<close>

definition sub_i64 :: "i64 \<Rightarrow> i64 \<Rightarrow> ('e, i64) outcome" where
  "sub_i64 a b =
     (if - (2 ^ 63) \<le> sint a - sint b \<and> sint a - sint b < 2 ^ 63 then Ok (a - b)
      else Panic ''attempt to subtract with overflow'')"

definition add_i64 :: "i64 \<Rightarrow> i64 \<Rightarrow> ('e, i64) outcome" where
  "add_i64 a b =
     (if - (2 ^ 63) \<le> sint a + sint b \<and> sint a + sint b < 2 ^ 63 then Ok (a + b)
      else Panic ''attempt to add with overflow'')"

record frame_narrowed =
  fr_offset :: i64
  fr_data :: narrowed_i64

definition frame_len :: "frame_narrowed \<Rightarrow> nat" where
  "frame_len f = narrowed_len (fr_data f)"

definition frame_is_empty :: "frame_narrowed \<Rightarrow> bool" where
  "frame_is_empty f = narrowed_is_empty (fr_data f)"

definition frame_target :: "frame_narrowed \<Rightarrow> int_target" where
  "frame_target f = narrowed_target (fr_data f)"

definition frame_byte_size :: "frame_narrowed \<Rightarrow> ('e, nat) outcome" where
  "frame_byte_size f = narrowed_byte_size (fr_data f)"

definition frame_to_i64 :: "frame_narrowed \<Rightarrow> ('e, i64 list) outcome" where
  "frame_to_i64 f = mapM_o (\<lambda>d. add_i64 d (fr_offset f)) (narrowed_to_i64 (fr_data f))"

text \<open>The span is computed in 128 bits, where it cannot overflow.\<close>

definition frame_of_reference_target :: "i64 \<Rightarrow> i64 \<Rightarrow> ('e, i64 \<times> int_target) outcome" where
  "frame_of_reference_target mn mx =
     (if sint mx < sint mn
      then Panic (''frame_of_reference_target: min '' @ decimal_signed mn @ '' > max '' @ decimal_signed mx)
      else let span = sint mx - sint mn
      in if span \<le> 2 ^ 32 - 1
         then bind_o (narrowest_int_target 0 (of_int span)) (\<lambda>t. Ok (mn, t))
         else Ok (0, To_I64))"

definition frame_cast :: "int \<Rightarrow> int \<Rightarrow> string \<Rightarrow> i64 \<Rightarrow> i64 \<Rightarrow> 'w::len word codec_result" where
  "frame_cast lo hi what offset v = bind_o (sub_i64 v offset) (\<lambda>d. checked_cast lo hi what v d)"

fun frame_data_i64 :: "bytes \<Rightarrow> i64 \<Rightarrow> int_target \<Rightarrow> narrowed_i64 codec_result" where
  "frame_data_i64 bytes offset To_I8 = map_o N_I8 (narrow_decode bytes (frame_cast (- (2 ^ 7)) (2 ^ 7 - 1) ''i8 frame'' offset))"
| "frame_data_i64 bytes offset To_U8 = map_o N_U8 (narrow_decode bytes (frame_cast 0 (2 ^ 8 - 1) ''u8 frame'' offset))"
| "frame_data_i64 bytes offset To_I16 = map_o N_I16 (narrow_decode bytes (frame_cast (- (2 ^ 15)) (2 ^ 15 - 1) ''i16 frame'' offset))"
| "frame_data_i64 bytes offset To_U16 = map_o N_U16 (narrow_decode bytes (frame_cast 0 (2 ^ 16 - 1) ''u16 frame'' offset))"
| "frame_data_i64 bytes offset To_I32 = map_o N_I32 (narrow_decode bytes (frame_cast (- (2 ^ 31)) (2 ^ 31 - 1) ''i32 frame'' offset))"
| "frame_data_i64 bytes offset To_U32 = map_o N_U32 (narrow_decode bytes (frame_cast 0 (2 ^ 32 - 1) ''u32 frame'' offset))"
| "frame_data_i64 bytes offset To_I64 = map_o N_I64 (decode_plain_i64 bytes)"

definition decode_plain_i64_frame :: "bytes \<Rightarrow> i64 \<Rightarrow> int_target \<Rightarrow> frame_narrowed codec_result" where
  "decode_plain_i64_frame bytes offset target =
     bind_o (frame_data_i64 bytes offset target) (\<lambda>d. Ok \<lparr>fr_offset = offset, fr_data = d\<rparr>)"

definition decode_plain_i64_frame_auto :: "bytes \<Rightarrow> i64 \<Rightarrow> i64 \<Rightarrow> frame_narrowed codec_result" where
  "decode_plain_i64_frame_auto bytes mn mx =
     bind_o (frame_of_reference_target mn mx) (\<lambda>(offset, target). decode_plain_i64_frame bytes offset target)"

section \<open>Sources of 32 bits\<close>

fun decode_plain_i32_narrowed :: "bytes \<Rightarrow> int_target \<Rightarrow> narrowed_i64 codec_result" where
  "decode_plain_i32_narrowed bytes To_I8 =
     map_o N_I8 (narrow_decode_i32 bytes (\<lambda>v. checked_cast (- (2 ^ 7)) (2 ^ 7 - 1) ''i8 downcast'' v v))"
| "decode_plain_i32_narrowed bytes To_U8 =
     map_o N_U8 (narrow_decode_i32 bytes (\<lambda>v. checked_cast 0 (2 ^ 8 - 1) ''u8 downcast'' v v))"
| "decode_plain_i32_narrowed bytes To_I16 =
     map_o N_I16 (narrow_decode_i32 bytes (\<lambda>v. checked_cast (- (2 ^ 15)) (2 ^ 15 - 1) ''i16 downcast'' v v))"
| "decode_plain_i32_narrowed bytes To_U16 =
     map_o N_U16 (narrow_decode_i32 bytes (\<lambda>v. checked_cast 0 (2 ^ 16 - 1) ''u16 downcast'' v v))"
| "decode_plain_i32_narrowed bytes To_I32 = map_o N_I32 (decode_plain_i32 bytes)"
| "decode_plain_i32_narrowed bytes To_U32 =
     map_o N_U32 (narrow_decode_i32 bytes (\<lambda>v. checked_cast 0 (2 ^ 31 - 1) ''u32 downcast'' v v))"
| "decode_plain_i32_narrowed bytes To_I64 = map_o N_I64 (narrow_decode_i32 bytes (\<lambda>v. Ok (scast v)))"

definition decode_plain_i32_auto :: "bytes \<Rightarrow> i64 \<Rightarrow> i64 \<Rightarrow> narrowed_i64 codec_result" where
  "decode_plain_i32_auto bytes mn mx = bind_o (narrowest_int_target mn mx) (decode_plain_i32_narrowed bytes)"

definition frame_cast_i32 :: "int \<Rightarrow> int \<Rightarrow> string \<Rightarrow> i64 \<Rightarrow> i32 \<Rightarrow> 'w::len word codec_result" where
  "frame_cast_i32 lo hi what offset v = bind_o (sub_i64 (scast v) offset) (\<lambda>d. checked_cast lo hi what v d)"

fun frame_data_i32 :: "bytes \<Rightarrow> i64 \<Rightarrow> int_target \<Rightarrow> narrowed_i64 codec_result" where
  "frame_data_i32 bytes offset To_I8 = map_o N_I8 (narrow_decode_i32 bytes (frame_cast_i32 (- (2 ^ 7)) (2 ^ 7 - 1) ''i8 frame'' offset))"
| "frame_data_i32 bytes offset To_U8 = map_o N_U8 (narrow_decode_i32 bytes (frame_cast_i32 0 (2 ^ 8 - 1) ''u8 frame'' offset))"
| "frame_data_i32 bytes offset To_I16 = map_o N_I16 (narrow_decode_i32 bytes (frame_cast_i32 (- (2 ^ 15)) (2 ^ 15 - 1) ''i16 frame'' offset))"
| "frame_data_i32 bytes offset To_U16 = map_o N_U16 (narrow_decode_i32 bytes (frame_cast_i32 0 (2 ^ 16 - 1) ''u16 frame'' offset))"
| "frame_data_i32 bytes offset To_I32 = map_o N_I32 (narrow_decode_i32 bytes (frame_cast_i32 (- (2 ^ 31)) (2 ^ 31 - 1) ''i32 frame'' offset))"
| "frame_data_i32 bytes offset To_U32 = map_o N_U32 (narrow_decode_i32 bytes (frame_cast_i32 0 (2 ^ 32 - 1) ''u32 frame'' offset))"
| "frame_data_i32 bytes offset To_I64 = map_o N_I64 (narrow_decode_i32 bytes (\<lambda>v. sub_i64 (scast v) offset))"

definition decode_plain_i32_frame :: "bytes \<Rightarrow> i64 \<Rightarrow> int_target \<Rightarrow> frame_narrowed codec_result" where
  "decode_plain_i32_frame bytes offset target =
     bind_o (frame_data_i32 bytes offset target) (\<lambda>d. Ok \<lparr>fr_offset = offset, fr_data = d\<rparr>)"

definition decode_plain_i32_frame_auto :: "bytes \<Rightarrow> i64 \<Rightarrow> i64 \<Rightarrow> frame_narrowed codec_result" where
  "decode_plain_i32_frame_auto bytes mn mx =
     bind_o (frame_of_reference_target mn mx) (\<lambda>(offset, target). decode_plain_i32_frame bytes offset target)"

section \<open>Reading a column narrowed\<close>

definition stats_range :: "statistics \<Rightarrow> (bytes \<times> bytes) option" where
  "stats_range stats =
     (let min_bytes = (case st_min_value stats of None \<Rightarrow> st_min stats | some \<Rightarrow> some);
          max_bytes = (case st_max_value stats of None \<Rightarrow> st_max stats | some \<Rightarrow> some)
      in case (min_bytes, max_bytes) of (Some mn, Some mx) \<Rightarrow> Some (mn, mx) | _ \<Rightarrow> None)"

definition column_narrow_target :: "parquet_file \<Rightarrow> nat \<Rightarrow> nat \<Rightarrow> int_target codec_result" where
  "column_narrow_target file rg column =
     bind_o (map_err io_to_codec (file_metadata_of file)) (\<lambda>md.
     if rg < length (fm_row_groups md) \<and> column < length (rg_columns (fm_row_groups md ! rg))
     then case cc_meta_data (rg_columns (fm_row_groups md ! rg) ! column) of
       None \<Rightarrow> Ok To_I64
     | Some cm \<Rightarrow> (case cm_statistics cm of
         None \<Rightarrow> Ok To_I64
       | Some stats \<Rightarrow> (case stats_range stats of
           None \<Rightarrow> Ok To_I64
         | Some (mn, mx) \<Rightarrow>
             if length mn = 8 \<and> length mx = 8
             then let min = from_le_bytes mn :: i64; max = from_le_bytes mx
                  in if sint max < sint min then Ok To_I64 else narrowest_int_target min max
             else Ok To_I64))
     else Ok To_I64)"

fun decode_chunk_narrowed :: "codecs \<Rightarrow> parquet_file \<Rightarrow> nat \<Rightarrow> nat \<Rightarrow> int_target \<Rightarrow> narrowed_i64 codec_result" where
  "decode_chunk_narrowed ext file rg column To_I8 = map_o N_I8 (decode_chunk_into ext file rg column decode_plain_i64_as_i8)"
| "decode_chunk_narrowed ext file rg column To_U8 = map_o N_U8 (decode_chunk_into ext file rg column decode_plain_i64_as_u8)"
| "decode_chunk_narrowed ext file rg column To_I16 = map_o N_I16 (decode_chunk_into ext file rg column decode_plain_i64_as_i16)"
| "decode_chunk_narrowed ext file rg column To_U16 = map_o N_U16 (decode_chunk_into ext file rg column decode_plain_i64_as_u16)"
| "decode_chunk_narrowed ext file rg column To_I32 = map_o N_I32 (decode_chunk_into ext file rg column decode_plain_i64_as_i32)"
| "decode_chunk_narrowed ext file rg column To_U32 = map_o N_U32 (decode_chunk_into ext file rg column decode_plain_i64_as_u32)"
| "decode_chunk_narrowed ext file rg column To_I64 = map_o N_I64 (decode_chunk_into ext file rg column decode_plain_i64)"

definition read_column_i64_downcast :: "codecs \<Rightarrow> parquet_file \<Rightarrow> nat \<Rightarrow> nat \<Rightarrow> narrowed_i64 codec_result" where
  "read_column_i64_downcast ext file rg column =
     bind_o (column_narrow_target file rg column) (decode_chunk_narrowed ext file rg column)"

end
