(* ===== verification/WideSample.thy ===== *)
theory WideSample
  imports TableTotal TableSample
begin

text \<open>A second table written step by step: a column \<open>x\<close> of two \<open>i64\<close>, PLAIN and uncompressed.\<close>

definition wide_columns :: "(bytes \<times> column_data) list" where
  "wide_columns = [([0x78], Col_I64 [300, - 3])]"

definition wide_options :: table_options where
  "wide_options = \<lparr>wt_default_codec = CC_Uncompressed, wt_row_group_size = 10, wt_page_version = Pages_V1,
     wt_bloom_fpps = None, wt_dict_per_column = None, wt_codec_per_column = None, wt_kv_metadata = None\<rparr>"
definition wide_stats :: column_stats where
  "wide_stats = \<lparr>cs_min = Some [253, 255, 255, 255, 255, 255, 255, 255], cs_max = Some [44, 1, 0, 0, 0, 0, 0, 0], cs_null_count = 0\<rparr>"

lemma wide_stats: "compute_stats (Col_I64 [300, - 3]) = wide_stats"
  by (simp add: to_le_bytes_def upt_rec wide_stats_def)

definition wide_chunk :: prepared_column where
  "wide_chunk = \<lparr>pc_data_page_offset = 4, pc_dictionary_page_offset = None, pc_total_uncompressed_size = 79,
     pc_total_compressed_size = 79, pc_stats = wide_stats, pc_bloom_filter_offset = None, pc_bloom_filter_length = None\<rparr>"

definition wide_header :: bytes where
  "wide_header = [21, 0, 21, 32, 21, 32, 44, 21, 4, 21, 0, 21, 6, 21, 6, 28, 24, 8, 44, 1, 0, 0, 0, 0, 0, 0, 24, 8, 253, 255, 255, 255, 255, 255,
     255, 255, 22, 0, 40, 8, 44, 1, 0, 0, 0, 0, 0, 0, 24, 8, 253, 255, 255, 255, 255, 255, 255, 255, 17, 17, 0, 0, 0]"

lemma wide_header: "write_page_header (v1_page_header E_Plain 16 16 2 wide_stats) = wide_header"
  by (simp add: encode_rules wide_stats_def wide_header_def)

lemma wide_body: "(encode_plain (Col_I64 [300, - 3]) :: bytes codec_result) = Ok [44, 1, 0, 0, 0, 0, 0, 0, 253, 255, 255, 255, 255, 255, 255, 255]"
  by (simp add: encode_plain_i64_def to_le_bytes_def upt_rec)

definition wide_group :: row_group where
  "wide_group = \<lparr>rg_columns = [prepared_chunk (prepared_metadata [0x78] PT_Int64 CC_Uncompressed 2 wide_chunk)], rg_total_byte_size = 79,
     rg_num_rows = 2, rg_sorting_columns = None, rg_file_offset = None, rg_total_compressed_size = None, rg_ordinal = Some 0\<rparr>"

definition wide_body :: bytes where
  "wide_body = [44, 1, 0, 0, 0, 0, 0, 0, 253, 255, 255, 255, 255, 255, 255, 255]"

definition wide_footer :: bytes where
  "wide_footer = [21, 2, 25, 44, 72, 6, 115, 99, 104, 101, 109, 97, 21, 2, 0, 21, 4, 37,
     0, 24, 1, 120, 0, 22, 4, 25, 28, 25, 28, 38, 8, 28, 21, 4, 25, 37, 0,
     6, 25, 24, 1, 120, 21, 0, 22, 4, 22, 158, 1, 22, 158, 1, 38, 8, 60, 24,
     8, 44, 1, 0, 0, 0, 0, 0, 0, 24, 8, 253, 255, 255, 255, 255, 255, 255,
     255, 22, 0, 40, 8, 44, 1, 0, 0, 0, 0, 0, 0, 24, 8, 253, 255, 255, 255,
     255, 255, 255, 255, 17, 17, 0, 0, 0, 22, 158, 1, 22, 4, 68, 0, 0, 40,
     20, 101, 109, 97, 116, 105, 120, 45, 112, 97, 114, 113, 117, 101, 116,
     32, 48, 46, 48, 46, 49, 0]"

lemma wide_footer_written:
  "write_file_metadata (footer_metadata (footer_schema wide_columns) 2 [wide_group] None) = Ok wide_footer"
  unfolding write_file_metadata_def wide_group_def wide_chunk_def wide_stats_def
  by (simp add: encode_rules wide_columns_def length_step wide_footer_def del: list.size(4))

definition wide_sink :: sink where
  "wide_sink = \<lparr>sk_out = parquet_magic @ wide_header @ wide_body, sk_written = 83\<rparr>"

lemma wide_column:
  "write_column stored_codecs (\<lambda>_ _. 0) wide_options 0 2 (sink_start, []) (0, [0x78], Col_I64 [300, - 3]) = Ok (wide_sink, [wide_chunk])"
  using wide_header
  by (simp add: demo_rules Let_def wide_options_def wide_stats wide_body write_plain_page_def wide_sink_def wide_body_def wide_chunk_def wide_header_def
      del: compute_stats.simps encode_plain.simps list.size(4) One_nat_def)

definition wide_file :: bytes where
  "wide_file = sk_out wide_sink @ wide_footer @ to_le_bytes (of_nat (length wide_footer) :: u32) @ parquet_magic"

lemma wide_row_groups:
  "write_row_groups stored_codecs (\<lambda>_ _. 0) wide_options wide_columns 2 sink_start [] 0 False = Ok (wide_sink, [(2, [wide_chunk])])"
proof -
  have f: "fold_o (write_column stored_codecs (\<lambda>_ _. 0) wide_options 0 2) (sink_start, []) (enumerate 0 wide_columns) = Ok (wide_sink, [wide_chunk])"
    by (simp_all only: wide_columns_def enumerate_simps fold_o.simps bind_o.simps wide_column)
  have "wt_row_group_size wide_options = 10" by (simp add: wide_options_def)
  then show ?thesis using row_group_step [OF _ _ _ _ f, of 2 "[]" False] by (simp add: row_groups_end)
qed

lemma wide_groups:
  "mapM_o (\<lambda>(rg_ix, g). footer_row_group wide_options wide_columns rg_ix g) (enumerate 0 [(2, [wide_chunk])])
    = (Ok [wide_group] :: row_group list codec_result)"
  by (simp add: footer_row_group_def wide_columns_def per_column_def wide_options_def wide_group_def wide_chunk_def)

lemma wide_written: "write_table_with_options stored_codecs (\<lambda>_ _. 0) wide_columns wide_options = Ok wide_file"
proof -
  have c: "columns \<noteq> []" "hd columns = ([0x78], Col_I64 [300, - 3])" "tl columns = []" if "columns = wide_columns" for columns
    using that by (simp_all add: wide_columns_def)
  have guards: "check_dict_columns wide_options wide_columns = Ok ()"
    by (simp add: check_dict_columns_def wide_options_def)
  have "write_footer (footer_metadata (footer_schema wide_columns) 2 [wide_group] None) (sk_out wide_sink) = Ok wide_file"
    by (simp add: write_footer_def wide_footer_written wide_file_def)
  moreover have "wt_row_group_size wide_options \<noteq> 0" "wt_codec_per_column wide_options = None" "wt_kv_metadata wide_options = None"
    by (simp_all add: wide_options_def)
  moreover have "row_count (snd (hd wide_columns)) = 2" using c by simp
  ultimately show ?thesis
    using wide_row_groups wide_groups guards c
    by (simp add: write_table_with_options_def write_table_inner_full_v2_def require_o_def del: row_count.simps)
qed

lemma wide_length: "length wide_file < 2 ^ 31"
  by (simp add: wide_file_def wide_sink_def wide_header_def wide_body_def wide_footer_def parquet_magic_def)

lemma wide_fits: "table_fits wide_options wide_columns"
proof -
  have "slice_fits part" if "column_slice (Col_I64 [300, - 3]) a b = (Ok part :: column_data codec_result)" for a b part
    using that by (auto simp: list_range_def slice_fits_def bind_o_eq_Ok_iff split: if_splits)
  then show ?thesis by (auto simp: table_fits_def wide_columns_def wide_options_def fits_def simp del: column_slice.simps)
qed

text \<open>Its only row group.\<close>

lemma wide_slice:
  "group_count (row_count (snd (hd wide_columns))) (wt_row_group_size wide_options) = 1" "0 < length wide_columns"
  "column_slice (snd (wide_columns ! 0)) (row_from (row_count (snd (hd wide_columns))) (wt_row_group_size wide_options) 0)
     (row_from (row_count (snd (hd wide_columns))) (wt_row_group_size wide_options) (Suc 0)) = (Ok (Col_I64 [300, - 3]) :: column_data codec_result)"
  by (simp_all add: wide_columns_def wide_options_def group_count_def div_ceil_def row_from_def list_range_def)

section \<open>A table of byte arrays\<close>

text \<open>A third table: a column \<open>x\<close> of three byte arrays with a dictionary, uncompressed.\<close>

definition text_columns :: "(bytes \<times> column_data) list" where
  "text_columns = [([0x78], Col_ByteArray [[1], [2, 3], [1]])]"

definition text_options :: table_options where
  "text_options = \<lparr>wt_default_codec = CC_Uncompressed, wt_row_group_size = 10, wt_page_version = Pages_V1,
     wt_bloom_fpps = None, wt_dict_per_column = Some [True], wt_codec_per_column = None, wt_kv_metadata = None\<rparr>"
definition text_stats :: column_stats where
  "text_stats = \<lparr>cs_min = Some [1], cs_max = Some [2, 3], cs_null_count = 0\<rparr>"

lemma text_stats: "compute_stats (Col_ByteArray [[1], [2, 3], [1]]) = text_stats"
  by (simp add: text_stats_def)

definition text_chunk :: prepared_column where
  "text_chunk = \<lparr>pc_data_page_offset = 29, pc_dictionary_page_offset = Some 4, pc_total_uncompressed_size = 65,
     pc_total_compressed_size = 65, pc_stats = text_stats, pc_bloom_filter_offset = None, pc_bloom_filter_length = None\<rparr>"

lemma text_dict:
  "encode_dict (Col_ByteArray [[1], [2, 3], [1]]) = Some ([1, 0, 0, 0, 1, 2, 0, 0, 0, 2, 3], 2, [0, 1, 0])"
  "(encode_rle_bit_packed [0, 1, 0] 1 :: bytes codec_result) = Ok [3, 2]"
  by code_simp+

definition text_dict_header :: bytes where
  "text_dict_header = [21, 4, 21, 22, 21, 22, 76, 21, 4, 21, 0, 18, 0, 0]"

definition text_header :: bytes where
  "text_header = [21, 0, 21, 6, 21, 6, 44, 21, 6, 21, 4, 21, 6, 21, 6, 28, 24, 2, 2, 3, 24, 1, 1, 22, 0, 40, 2, 2, 3, 24, 1, 1, 17, 17, 0, 0, 0]"

lemma text_headers:
  "write_page_header (dict_page_header 11 11 2) = text_dict_header"
  "write_page_header (v1_page_header E_PlainDictionary 3 3 3 text_stats) = text_header"
  by (simp_all add: encode_rules text_stats_def text_header_def text_dict_header_def)

definition text_group :: row_group where
  "text_group = \<lparr>rg_columns = [prepared_chunk (prepared_metadata [0x78] PT_ByteArray CC_Uncompressed 3 text_chunk)], rg_total_byte_size = 65,
     rg_num_rows = 3, rg_sorting_columns = None, rg_file_offset = None, rg_total_compressed_size = None, rg_ordinal = Some 0\<rparr>"

definition text_footer :: bytes where
  "text_footer = [21, 2, 25, 44, 72, 6, 115, 99, 104, 101, 109, 97, 21, 2, 0, 21, 12, 37,
     0, 24, 1, 120, 0, 22, 6, 25, 28, 25, 28, 38, 8, 28, 21, 12, 25, 53, 0,
     6, 4, 25, 24, 1, 120, 21, 0, 22, 6, 22, 130, 1, 22, 130, 1, 38, 58, 38,
     8, 28, 24, 2, 2, 3, 24, 1, 1, 22, 0, 40, 2, 2, 3, 24, 1, 1, 17, 17, 0,
     0, 0, 22, 130, 1, 22, 6, 68, 0, 0, 40, 20, 101, 109, 97, 116, 105, 120,
     45, 112, 97, 114, 113, 117, 101, 116, 32, 48, 46, 48, 46, 49, 0]"

lemma text_footer_written:
  "write_file_metadata (footer_metadata (footer_schema text_columns) 3 [text_group] None) = Ok text_footer"
  unfolding write_file_metadata_def text_group_def text_chunk_def text_stats_def
  by (simp add: encode_rules text_columns_def length_step text_footer_def del: list.size(4))

definition text_sink :: sink where
  "text_sink = \<lparr>sk_out = parquet_magic @ text_dict_header @ [1, 0, 0, 0, 1, 2, 0, 0, 0, 2, 3] @ text_header @ [1, 3, 2], sk_written = 69\<rparr>"

lemma text_column:
  "write_column stored_codecs (\<lambda>_ _. 0) text_options 0 3 (sink_start, []) (0, [0x78], Col_ByteArray [[1], [2, 3], [1]]) = Ok (text_sink, [text_chunk])"
  using text_headers
  by (simp add: demo_rules Let_def text_options_def text_stats text_dict text_dict_header_def text_sink_def text_chunk_def text_header_def
      del: compute_stats.simps encode_dict.simps list.size(4) One_nat_def)

definition text_file :: bytes where
  "text_file = sk_out text_sink @ text_footer @ to_le_bytes (of_nat (length text_footer) :: u32) @ parquet_magic"

lemma text_row_groups:
  "write_row_groups stored_codecs (\<lambda>_ _. 0) text_options text_columns 3 sink_start [] 0 False = Ok (text_sink, [(3, [text_chunk])])"
proof -
  have f: "fold_o (write_column stored_codecs (\<lambda>_ _. 0) text_options 0 3) (sink_start, []) (enumerate 0 text_columns) = Ok (text_sink, [text_chunk])"
    by (simp_all only: text_columns_def enumerate_simps fold_o.simps bind_o.simps text_column)
  have "wt_row_group_size text_options = 10" by (simp add: text_options_def)
  then show ?thesis using row_group_step [OF _ _ _ _ f, of 3 "[]" False] by (simp add: row_groups_end)
qed

lemma text_groups:
  "mapM_o (\<lambda>(rg_ix, g). footer_row_group text_options text_columns rg_ix g) (enumerate 0 [(3, [text_chunk])])
    = (Ok [text_group] :: row_group list codec_result)"
  by (simp add: footer_row_group_def text_columns_def per_column_def text_options_def text_group_def text_chunk_def)

lemma text_written: "write_table_with_options stored_codecs (\<lambda>_ _. 0) text_columns text_options = Ok text_file"
proof -
  have c: "columns \<noteq> []" "hd columns = ([0x78], Col_ByteArray [[1], [2, 3], [1]])" "tl columns = []" if "columns = text_columns" for columns
    using that by (simp_all add: text_columns_def)
  have guards: "check_dict_columns text_options text_columns = Ok ()"
    by (simp add: check_dict_columns_def text_options_def text_columns_def require_o_def index_o_def is_bool_column_def)
  have "write_footer (footer_metadata (footer_schema text_columns) 3 [text_group] None) (sk_out text_sink) = Ok text_file"
    by (simp add: write_footer_def text_footer_written text_file_def)
  moreover have "wt_row_group_size text_options \<noteq> 0" "wt_codec_per_column text_options = None" "wt_kv_metadata text_options = None"
    by (simp_all add: text_options_def)
  moreover have "row_count (snd (hd text_columns)) = 3" using c by simp
  ultimately show ?thesis
    using text_row_groups text_groups guards c
    by (simp add: write_table_with_options_def write_table_inner_full_v2_def require_o_def del: row_count.simps)
qed

lemma text_length: "length text_file < 2 ^ 31"
  by (simp add: text_file_def text_sink_def text_header_def text_dict_header_def text_footer_def parquet_magic_def)

lemma sum_part: "(\<Sum>v \<leftarrow> take n (drop a vs). f v :: nat) \<le> (\<Sum>v \<leftarrow> vs. f v)"
proof -
  have "vs = take a vs @ take n (drop a vs) @ drop n (drop a vs)" by (simp only: append_take_drop_id)
  then have "(\<Sum>v \<leftarrow> vs. f v) = (\<Sum>v \<leftarrow> take a vs. f v) + (\<Sum>v \<leftarrow> take n (drop a vs). f v) + (\<Sum>v \<leftarrow> drop n (drop a vs). f v)"
    by (metis add.assoc map_append sum_list_append)
  then show ?thesis by simp
qed

lemma text_fits: "table_fits text_options text_columns"
proof -
  have "slice_fits part" if "column_slice (Col_ByteArray [[1], [2, 3], [1]]) a b = (Ok part :: column_data codec_result)" for a b part
    using that sum_part [where f = "\<lambda>v. 4 + length v" and vs = "[[1], [2, 3], [1]] :: bytes list", of "b - a" a]
    by (auto simp: list_range_def slice_fits_def bind_o_eq_Ok_iff split: if_splits)
  then show ?thesis by (auto simp: table_fits_def text_columns_def text_options_def fits_def simp del: column_slice.simps)
qed

text \<open>Its only row group.\<close>

lemma text_slice:
  "group_count (row_count (snd (hd text_columns))) (wt_row_group_size text_options) = 1" "0 < length text_columns"
  "column_slice (snd (text_columns ! 0)) (row_from (row_count (snd (hd text_columns))) (wt_row_group_size text_options) 0)
     (row_from (row_count (snd (hd text_columns))) (wt_row_group_size text_options) (Suc 0)) = (Ok (Col_ByteArray [[1], [2, 3], [1]]) :: column_data codec_result)"
  by (simp_all add: text_columns_def text_options_def group_count_def div_ceil_def row_from_def list_range_def)

end
