(* ===== verification/DowncastProofs.thy ===== *)
theory DowncastProofs
  imports Downcast TableTotal TableRoundtrip ColumnStats WideSample
begin

text \<open>
  Narrowing is lossless: the target picked for a range holds all of it and no narrower one does, the decoders
  give back the values, and a written column read narrowed by its own statistics widens to the column.
\<close>

section \<open>Targets and their ranges\<close>

fun target_range :: "int_target \<Rightarrow> int set" where
  "target_range To_I8 = {- (2 ^ 7) ..< 2 ^ 7}"
| "target_range To_U8 = {0 ..< 2 ^ 8}"
| "target_range To_I16 = {- (2 ^ 15) ..< 2 ^ 15}"
| "target_range To_U16 = {0 ..< 2 ^ 16}"
| "target_range To_I32 = {- (2 ^ 31) ..< 2 ^ 31}"
| "target_range To_U32 = {0 ..< 2 ^ 32}"
| "target_range To_I64 = {- (2 ^ 63) ..< 2 ^ 63}"

lemma sint_i64_bounds: "- (2 ^ 63) \<le> sint (v :: i64)" "sint (v :: i64) < 2 ^ 63"
  using sint_greater_eq [of v] sint_less [of v] by simp_all

lemma narrowest_Ok:
  assumes "sint mn \<le> sint mx"
  obtains t where "narrowest_int_target mn mx = (Ok t :: ('e, int_target) outcome)" "sint mn \<in> target_range t" "sint mx \<in> target_range t"
    "\<And>t'. sint mn \<in> target_range t' \<Longrightarrow> sint mx \<in> target_range t' \<Longrightarrow> width_bytes t \<le> width_bytes t'"
proof -
  have "\<exists>t. narrowest_int_target mn mx = (Ok t :: ('e, int_target) outcome) \<and> sint mn \<in> target_range t \<and> sint mx \<in> target_range t \<and>
      (\<forall>t'. sint mn \<in> target_range t' \<longrightarrow> sint mx \<in> target_range t' \<longrightarrow> width_bytes t \<le> width_bytes t')"
    (is "\<exists>t. ?P t")
  proof -
    note b = sint_i64_bounds [of mn] sint_i64_bounds [of mx]
    have all: "(\<forall>t'. Q t') \<longleftrightarrow> Q To_I8 \<and> Q To_U8 \<and> Q To_I16 \<and> Q To_U16 \<and> Q To_I32 \<and> Q To_U32 \<and> Q To_I64" for Q
      by (metis int_target.exhaust)
    show ?thesis unfolding all using assms b
      by (simp add: narrowest_int_target_def Let_def not_le)
  qed
  then show ?thesis using that by blast
qed

lemma target_range_between:
  "x \<in> target_range t \<Longrightarrow> y \<in> target_range t \<Longrightarrow> x \<le> v \<Longrightarrow> v \<le> y \<Longrightarrow> v \<in> target_range t"
  by (cases t) auto

section \<open>Casts that lose nothing\<close>

lemma scast_scast_eq:
  fixes v :: "'v::len word"
  assumes "- (2 ^ (LENGTH('n) - 1)) \<le> sint v" and "sint v < 2 ^ (LENGTH('n) - 1)"
  shows "scast (scast v :: 'n::len word) = (word_of_int (sint v) :: 'm::len word)"
proof -
  have "sint (scast v :: 'n word) = sint v"
    unfolding scast_eq signed_of_int using assms by (simp add: signed_take_bit_int_eq_self)
  then show ?thesis by (simp only: scast_eq)
qed

lemma ucast_scast_eq:
  fixes v :: "'v::len word"
  assumes "0 \<le> sint v" and "sint v < 2 ^ LENGTH('n)"
  shows "ucast (scast v :: 'n::len word) = (word_of_int (sint v) :: 'm::len word)"
proof -
  have "uint (scast v :: 'n word) = sint v"
    unfolding scast_eq unsigned_of_int using assms by (simp add: take_bit_int_eq_self)
  then show ?thesis by (metis ucast_eq)
qed

lemma checked_Ok: "lo \<le> sint d \<Longrightarrow> sint d \<le> hi \<Longrightarrow> checked_cast lo hi what v d = Ok (scast d)"
  by (simp add: checked_cast_def)

section \<open>The decoders\<close>

lemma narrow_decode_Ok:
  assumes "\<And>v. v \<in> set vs \<Longrightarrow> f v = Ok (g v)"
  shows "narrow_decode (encode_plain_i64 vs) f = Ok (map g vs)"
proof -
  have "length (encode_plain_i64 vs) mod 8 = 0" by (simp add: encoders_le plain_i64.length_encode)
  then show ?thesis using mapM_o_all_Ok [of vs f g] assms
    by (simp add: narrow_decode_def encoders_le plain_i64.memcpy_encode)
qed

lemma narrow_decode_i32_Ok:
  assumes "\<And>v. v \<in> set vs \<Longrightarrow> f v = Ok (g v)"
  shows "narrow_decode_i32 (encode_plain_i32 vs) f = Ok (map g vs)"
proof -
  have "length (encode_plain_i32 vs) mod 4 = 0" by (simp add: encoders_le plain_i32.length_encode)
  then show ?thesis using mapM_o_all_Ok [of vs f g] assms
    by (simp add: narrow_decode_i32_def encoders_le plain_i32.memcpy_encode)
qed

lemmas narrow_defs = decode_plain_i64_as_i8_def decode_plain_i64_as_u8_def decode_plain_i64_as_i16_def decode_plain_i64_as_u16_def
  decode_plain_i64_as_i32_def decode_plain_i64_as_u32_def

lemma narrow_checked:
  "\<forall>v \<in> set vs. lo \<le> sint v \<and> sint v \<le> hi \<Longrightarrow>
    narrow_decode (encode_plain_i64 vs) (\<lambda>v. checked_cast lo hi what v v) = Ok (map scast vs)"
  by (rule narrow_decode_Ok) (simp add: checked_Ok)

lemma narrow_targets:
  "\<forall>v \<in> set vs. sint v \<in> target_range To_I8 \<Longrightarrow> decode_plain_i64_as_i8 (encode_plain_i64 vs) = Ok (map scast vs)"
  "\<forall>v \<in> set vs. sint v \<in> target_range To_U8 \<Longrightarrow> decode_plain_i64_as_u8 (encode_plain_i64 vs) = Ok (map scast vs)"
  "\<forall>v \<in> set vs. sint v \<in> target_range To_I16 \<Longrightarrow> decode_plain_i64_as_i16 (encode_plain_i64 vs) = Ok (map scast vs)"
  "\<forall>v \<in> set vs. sint v \<in> target_range To_U16 \<Longrightarrow> decode_plain_i64_as_u16 (encode_plain_i64 vs) = Ok (map scast vs)"
  "\<forall>v \<in> set vs. sint v \<in> target_range To_I32 \<Longrightarrow> decode_plain_i64_as_i32 (encode_plain_i64 vs) = Ok (map scast vs)"
  "\<forall>v \<in> set vs. sint v \<in> target_range To_U32 \<Longrightarrow> decode_plain_i64_as_u32 (encode_plain_i64 vs) = Ok (map scast vs)"
  unfolding narrow_defs by (rule narrow_checked; force)+

lemma cast_back:
  "\<forall>v \<in> set vs. sint v \<in> target_range To_I8 \<Longrightarrow> narrowed_to_i64 (N_I8 (map scast vs)) = vs"
  "\<forall>v \<in> set vs. sint v \<in> target_range To_U8 \<Longrightarrow> narrowed_to_i64 (N_U8 (map scast vs)) = vs"
  "\<forall>v \<in> set vs. sint v \<in> target_range To_I16 \<Longrightarrow> narrowed_to_i64 (N_I16 (map scast vs)) = vs"
  "\<forall>v \<in> set vs. sint v \<in> target_range To_U16 \<Longrightarrow> narrowed_to_i64 (N_U16 (map scast vs)) = vs"
  "\<forall>v \<in> set vs. sint v \<in> target_range To_I32 \<Longrightarrow> narrowed_to_i64 (N_I32 (map scast vs)) = vs"
  "\<forall>v \<in> set vs. sint v \<in> target_range To_U32 \<Longrightarrow> narrowed_to_i64 (N_U32 (map scast vs)) = vs"
  by (simp_all add: map_idI scast_scast_eq ucast_scast_eq)

lemma narrowed_roundtrip:
  assumes "\<forall>v \<in> set vs. sint v \<in> target_range t"
  shows "\<exists>n. decode_plain_i64_narrowed (encode_plain_i64 vs) t = Ok n \<and> narrowed_target n = t \<and> narrowed_to_i64 n = vs"
proof (cases "t = To_I64")
  case True
  then show ?thesis by (simp add: map_o_def encoders_le plain_i64.roundtrip)
next
  case False
  then show ?thesis using assms
    by (cases t) (simp_all add: map_o_def narrow_targets cast_back del: target_range.simps narrowed_to_i64.simps)
qed

section \<open>Narrow value types\<close>

text \<open>A width the columns can be narrowed to: the cast back to \<open>i64\<close>, the decoder and the constructor.\<close>

locale narrow_values =
  fixes wid :: "'n::len word \<Rightarrow> i64" and dec :: "bytes \<Rightarrow> 'n word list codec_result"
    and con :: "'n word list \<Rightarrow> narrowed_i64" and t :: int_target
  assumes inv_wid: "scast (wid n) = n"
    and wid_range: "sint (wid n) \<in> target_range t"
    and range_wid: "sint v \<in> target_range t \<Longrightarrow> wid (scast v) = v"
    and narrow: "\<forall>v \<in> set vs. sint v \<in> target_range t \<Longrightarrow> dec (encode_plain_i64 vs) = Ok (map scast vs)"
    and con_target: "narrowed_target (con ns) = t"
    and con_wid: "narrowed_to_i64 (con ns) = map wid ns"
    and chunk: "decode_chunk_narrowed ext pf g i t = map_o con (decode_chunk_into ext pf g i dec)"
begin

lemma wid_list: "\<forall>v \<in> set vs. sint v \<in> target_range t \<Longrightarrow> map wid (map scast vs) = vs"
  by (simp add: range_wid map_idI)

lemma narrow_dict:
  fixes vs :: "i64 list"
  assumes "dict_of vs d ixs" and "\<forall>v \<in> set vs. sint v \<in> target_range t"
  shows "dict_of (map scast vs) (map scast d :: 'n word list) ixs" and "map wid (map scast d) = d"
proof -
  have d: "\<forall>v \<in> set d. sint v \<in> target_range t" using assms by (auto simp: dict_of_def)
  then show "map wid (map scast d) = d" by (rule wid_list)
  have "inj_on (scast :: i64 \<Rightarrow> 'n word) (set d)"
  proof (rule inj_onI)
    fix x y assume xy: "x \<in> set d" "y \<in> set d" "(scast x :: 'n word) = scast y"
    have "x = wid (scast x)" by (rule range_wid [symmetric]) (use d xy(1) in blast)
    also have "\<dots> = wid (scast y)" by (simp only: xy(3))
    also have "\<dots> = y" by (rule range_wid) (use d xy(2) in blast)
    finally show "x = y" .
  qed
  moreover have "map (\<lambda>i. map scast d ! unat i) ixs = (map scast vs :: 'n word list)"
  proof -
    from assms(1) have m: "map (\<lambda>i. d ! unat i) ixs = vs" "\<forall>i \<in> set ixs. unat i < length d" by (simp_all add: dict_of_def)
    show ?thesis unfolding m(1) [symmetric] list.map_comp using m(2) by (intro map_cong) simp_all
  qed
  ultimately show "dict_of (map scast vs) (map scast d :: 'n word list) ixs"
    using assms(1) unfolding dict_of_def distinct_map by (simp add: image_mono)
qed

lemma narrow_pages:
  assumes "column_pages encode_plain_i64 ext cdc vs ps" and "\<forall>v \<in> set vs. sint v \<in> target_range t"
  shows "column_pages (\<lambda>ns. encode_plain_i64 (map wid ns)) ext cdc (map scast vs) ps"
  using assms narrow_dict wid_list [OF assms(2)] unfolding column_pages_def by (metis length_map)

end

sublocale narrow_values \<subseteq> plain_values "\<lambda>ns. encode_plain_i64 (map wid ns)" dec "\<lambda>_. True"
  by unfold_locales (simp_all add: narrow wid_range inv_wid o_def)

context narrow_values begin

lemma read_narrow:
  assumes "codecs_sound ext" and "fetched ext pf g i part" and "part = Col_I64 vs \<or> part = Col_U64 vs"
    and "\<forall>v \<in> set vs. sint v \<in> target_range t"
  shows "decode_chunk_narrowed ext pf g i t = Ok (con (map scast vs))"
proof -
  from assms(2,3) obtain cdc ps ck where f: "written_pages ext cdc (length vs) part ps" "read_chunk_raw pf g i = Ok ck"
    "flat_chunk ck cdc" "ck_total_values ck = length vs" "ck_bytes ck = chunk_bytes ps" "list_all page_ok ps" "slice_fits part"
    by (auto simp: fetched_def)
  have pages: "column_pages encode_plain_i64 ext cdc vs ps"
    using f(1,7) assms(1,3) written_i64.written_column_pages written_u64.written_column_pages by blast
  have small: "length vs < 2 ^ 31"
    using assms(2,3) written_i64.fetched_size written_u64.fetched_size by auto
  from dense_chunk [OF f(3) _ narrow_pages [OF pages assms(4)] TrueI _ decodes_index_fused] f(4) small
  obtain d where "run_pages (\<lambda>s hdr body. bind_o (dense_page ext ck dec decode_rle_dictionary_into s hdr body) (\<lambda>(dict, out).
      Ok (length out < ck_total_values ck, (dict, out)))) ([], []) ps = Ok (d, map scast vs)" by auto
  then show ?thesis by (simp add: chunk map_o_def decode_chunk_into_def f(2,5) walk_chunk [OF f(6)])
qed

end

lemma narrow_casts:
  fixes n :: "'n::len word"
  assumes "LENGTH('n) \<le> 63"
  shows "scast (scast n :: i64) = n" and "scast (ucast n :: i64) = n"
    and "sint (scast n :: i64) = sint n" and "sint (ucast n :: i64) = uint n"
proof -
  have up: "is_up (scast :: 'n word \<Rightarrow> i64)" "is_up (ucast :: 'n word \<Rightarrow> i64)" "is_down (ucast :: i64 \<Rightarrow> 'n word)"
    using assms by (simp_all add: is_up is_down)
  show "scast (scast n :: i64) = n" "sint (scast n :: i64) = sint n"
    using up(1) by (simp_all add: scast_up_scast_id sint_up_scast)
  show "scast (ucast n :: i64) = n"
    using down_cast_same [OF up(3)] ucast_up_ucast_id [OF up(2), of n] by simp
  have u: "uint (ucast n :: i64) = uint n" using up(2) by (rule uint_up_ucast)
  have "uint n < 2 ^ LENGTH('n)" by simp
  also have "(2 :: int) ^ LENGTH('n) \<le> 2 ^ 63" using assms by (intro power_increasing) simp_all
  finally have "uint n < 2 ^ 63" .
  then have "signed_take_bit 63 (uint n) = uint n" by (intro signed_take_bit_int_eq_self order.trans [OF _ uint_ge_0]) simp_all
  then show "sint (ucast n :: i64) = uint n" using u by (simp add: sint_uint)
qed

lemma word_bounds:
  "- 128 \<le> sint (a :: i8)" "sint a < 128" "uint (b :: u8) < 256"
  "- 32768 \<le> sint (c :: i16)" "sint c < 32768" "uint (d :: u16) < 65536"
  "- 2147483648 \<le> sint (e :: i32)" "sint e < 2147483648" "uint (f :: u32) < 4294967296"
  using sint_greater_eq [of a] sint_less [of a] uint_lt2p [of b] sint_greater_eq [of c] sint_less [of c]
    uint_lt2p [of d] sint_greater_eq [of e] sint_less [of e] uint_lt2p [of f] by simp_all

interpretation narrow_i8: narrow_values scast decode_plain_i64_as_i8 N_I8 To_I8
  by unfold_locales (simp_all add: word_bounds narrow_casts narrow_targets scast_scast_eq ucast_scast_eq)

interpretation narrow_u8: narrow_values ucast decode_plain_i64_as_u8 N_U8 To_U8
  by unfold_locales (simp_all add: word_bounds narrow_casts narrow_targets scast_scast_eq ucast_scast_eq)

interpretation narrow_i16: narrow_values scast decode_plain_i64_as_i16 N_I16 To_I16
  by unfold_locales (simp_all add: word_bounds narrow_casts narrow_targets scast_scast_eq ucast_scast_eq)

interpretation narrow_u16: narrow_values ucast decode_plain_i64_as_u16 N_U16 To_U16
  by unfold_locales (simp_all add: word_bounds narrow_casts narrow_targets scast_scast_eq ucast_scast_eq)

interpretation narrow_i32: narrow_values scast decode_plain_i64_as_i32 N_I32 To_I32
  by unfold_locales (simp_all add: word_bounds narrow_casts narrow_targets scast_scast_eq ucast_scast_eq)

interpretation narrow_u32: narrow_values ucast decode_plain_i64_as_u32 N_U32 To_U32
  by unfold_locales (simp_all add: word_bounds narrow_casts narrow_targets scast_scast_eq ucast_scast_eq)


section \<open>The range in the footer\<close>

text \<open>A target that covers the values, and is as narrow as any that does.\<close>

definition narrow_enough :: "i64 list \<Rightarrow> int_target \<Rightarrow> bool" where
  "narrow_enough vs t \<longleftrightarrow> (\<forall>v \<in> set vs. sint v \<in> target_range t)"

lemma unsigned_between:
  fixes a v b :: i64
  assumes "a \<le> v" and "v \<le> b" and "sint a \<le> sint b"
  shows "sint a \<le> sint v \<and> sint v \<le> sint b"
proof -
  have s: "sint w = (if uint w < 2 ^ 63 then uint w else uint w - 2 ^ 64)" for w :: i64
  proof -
    have "uint w < 2 ^ 64" using uint_lt2p [of w] by simp
    moreover have "sint w = signed_take_bit 63 (if uint w < 2 ^ 63 then uint w else uint w - 2 ^ 64)"
    proof -
      have "w = word_of_int (uint w - 2 ^ 64)" by (simp add: wi_hom_syms)
      then have "sint w = sint (word_of_int (uint w - 2 ^ 64) :: i64)" by (rule arg_cong)
      then have "sint w = signed_take_bit 63 (uint w - 2 ^ 64)" unfolding sint_sbintrunc' by simp
      then show ?thesis by (simp add: sint_uint)
    qed
    ultimately show ?thesis using uint_ge_0 [of w] by (simp add: signed_take_bit_int_eq_self)
  qed
  have wrap: "0 \<le> x \<Longrightarrow> x \<le> y \<Longrightarrow> y \<le> z \<Longrightarrow> z < 2 ^ 64 \<Longrightarrow>
      (if x < 2 ^ 63 then x else x - 2 ^ 64) \<le> (if z < 2 ^ 63 then z else z - 2 ^ 64) \<Longrightarrow>
      (if x < 2 ^ 63 then x else x - 2 ^ 64) \<le> (if y < 2 ^ 63 then y else y - 2 ^ 64) \<and>
      (if y < 2 ^ 63 then y else y - 2 ^ 64) \<le> (if z < 2 ^ 63 then z else z - 2 ^ 64)" for x y z :: int
    by (auto split: if_splits)
  show ?thesis unfolding s
    by (rule wrap) (use assms uint_lt2p [of b] in \<open>simp_all only: s word_le_def uint_ge_0\<close>, simp)
qed

lemma narrow_enough_range:
  assumes "tight_bounds lt vs mn mx" and "\<And>v. v \<in> set vs \<Longrightarrow> sint mn \<le> sint v \<and> sint v \<le> sint mx"
  shows "narrow_enough vs t \<longleftrightarrow> sint mn \<in> target_range t \<and> sint mx \<in> target_range t"
  using assms target_range_between [of "sint mn" t "sint mx"] unfolding narrow_enough_def tight_bounds_def by blast

lemma sint_I64: "narrow_enough vs To_I64"
  using sint_i64_bounds by (simp add: narrow_enough_def)

lemma narrow_target_Ok:
  assumes "file_metadata_of pf = Ok md" and "chunk_at md g i = Ok c" and "cc_meta_data c = Some cm"
    and "cm_statistics cm = Some (as_statistics (compute_stats part))" and "part = Col_I64 vs \<or> part = Col_U64 vs"
  shows "\<exists>t. column_narrow_target pf g i = Ok t \<and> narrow_enough vs t \<and>
    (part = Col_I64 vs \<and> vs \<noteq> [] \<longrightarrow> (\<forall>t'. narrow_enough vs t' \<longrightarrow> width_bytes t \<le> width_bytes t'))"
proof -
  from assms(2) have at: "g < length (fm_row_groups md)" "i < length (rg_columns (fm_row_groups md ! g))"
    "rg_columns (fm_row_groups md ! g) ! i = c" by (auto simp: chunk_at_def get_o_def bind_o_eq_Ok_iff split: if_splits)
  note eval = column_narrow_target_def assms(1,3,4) at stats_range_def as_statistics_def
  show ?thesis
  proof (cases "vs = []")
    case True
    then have "compute_stats part = column_stats_default" using assms(5) by auto
    then have "column_narrow_target pf g i = Ok To_I64" by (simp add: eval column_stats_default_def)
    then show ?thesis using True sint_I64 by auto
  next
    case False
    then obtain lt mn mx where st: "compute_stats part = \<lparr>cs_min = Some (to_le_bytes mn), cs_max = Some (to_le_bytes mx), cs_null_count = 0\<rparr>"
      "tight_bounds lt vs mn mx" "part = Col_I64 vs \<and> lt = (\<lambda>x y. sint x < sint y) \<or> part = Col_U64 vs \<and> lt = (<)"
      using assms(5) stats_ints_sound(2) [of vs] stats_ints_sound(3) [of vs] unfolding stats_of_def by fastforce
    have e: "column_narrow_target pf g i = (if sint mx < sint mn then Ok To_I64 else narrowest_int_target mn mx)"
      by (simp add: eval st(1) from_to_le_bytes Let_def)
    show ?thesis
    proof (cases "sint mx < sint mn")
      case True
      then have "lt \<noteq> (\<lambda>x y. sint x < sint y)" using st(2) by (auto simp: tight_bounds_def list_all_iff)
      then show ?thesis using True e sint_I64 st by auto
    next
      case False
      then have le: "sint mn \<le> sint mx" by simp
      have between: "sint mn \<le> sint v \<and> sint v \<le> sint mx" if "v \<in> set vs" for v
        using st(2,3) that unsigned_between [OF _ _ le, of v] by (auto simp: tight_bounds_def list_all_iff not_less)
      obtain t where t: "narrowest_int_target mn mx = (Ok t :: int_target codec_result)" "sint mn \<in> target_range t" "sint mx \<in> target_range t"
        "\<And>t'. sint mn \<in> target_range t' \<Longrightarrow> sint mx \<in> target_range t' \<Longrightarrow> width_bytes t \<le> width_bytes t'"
        using narrowest_Ok [OF le] by blast
      have "narrow_enough vs t' \<longleftrightarrow> sint mn \<in> target_range t' \<and> sint mx \<in> target_range t'" for t'
        by (rule narrow_enough_range [OF st(2)]) (rule between)
      then show ?thesis using t False unfolding e by auto
    qed
  qed
qed

section \<open>Written tables\<close>

lemma read_narrowed:
  assumes "codecs_sound ext" and "fetched ext pf g i part" and "part = Col_I64 vs \<or> part = Col_U64 vs" and "narrow_enough vs t"
  shows "\<exists>n. decode_chunk_narrowed ext pf g i t = Ok n \<and> narrowed_target n = t \<and> narrowed_to_i64 n = vs"
proof -
  note vs = assms(4) [unfolded narrow_enough_def]
  have wide: "\<exists>n. decode_chunk_narrowed ext pf g i To_I64 = Ok n \<and> narrowed_target n = To_I64 \<and> narrowed_to_i64 n = vs"
    using assms(2,3) written_i64.read_dense [OF assms(1) decodes_index_fused] written_u64.read_dense [OF assms(1) decodes_index_fused]
    by (auto simp: map_o_def decode_chunk_into_def)
  show ?thesis
  proof (cases t)
    case To_I8
    then show ?thesis using narrow_i8.read_narrow [OF assms(1-3)] narrow_i8.wid_list vs by simp
  next
    case To_U8
    then show ?thesis using narrow_u8.read_narrow [OF assms(1-3)] narrow_u8.wid_list vs by simp
  next
    case To_I16
    then show ?thesis using narrow_i16.read_narrow [OF assms(1-3)] narrow_i16.wid_list vs by simp
  next
    case To_U16
    then show ?thesis using narrow_u16.read_narrow [OF assms(1-3)] narrow_u16.wid_list vs by simp
  next
    case To_I32
    then show ?thesis using narrow_i32.read_narrow [OF assms(1-3)] narrow_i32.wid_list vs by simp
  next
    case To_U32
    then show ?thesis using narrow_u32.read_narrow [OF assms(1-3)] narrow_u32.wid_list vs by simp
  next
    case To_I64
    with wide show ?thesis by simp
  qed
qed

lemma table_fetched_stats:
  assumes "write_table_with_options ext sbbf columns opts = Ok file" and "table_fits opts columns" and "length file < 2 ^ 31"
    and "g < group_count (row_count (snd (hd columns))) (wt_row_group_size opts)" and "i < length columns"
    and "column_slice (snd (columns ! i)) (row_from (row_count (snd (hd columns))) (wt_row_group_size opts) g)
      (row_from (row_count (snd (hd columns))) (wt_row_group_size opts) (Suc g)) = (Ok part :: column_data codec_result)"
  obtains pf md c cm where "file_open file = Ok pf" "fetched ext pf g i part" "file_metadata_of pf = Ok md" "chunk_at md g i = Ok c"
    "cc_meta_data c = Some cm" "cm_statistics cm = Some (as_statistics (compute_stats part))"
proof -
  let ?rows = "row_count (snd (hd columns))" and ?n = "wt_row_group_size opts"
  from table_opens [OF assms(1) [unfolded write_table_with_options_def] assms(2,3)] obtain pf rgs where
    pf: "file_open file = Ok pf" "pf_file pf = file" "pf_file_size pf = length file"
      "file_metadata_of pf = Ok (footer_metadata (footer_schema columns) ?rows rgs (wt_kv_metadata opts))" "length rgs = group_count ?rows ?n"
      "\<forall>g < length rgs. \<forall>i < length columns. chunk_written ext columns opts file
         (footer_metadata (footer_schema columns) ?rows rgs (wt_kv_metadata opts)) g i" by blast
  let ?md = "footer_metadata (footer_schema columns) ?rows rgs (wt_kv_metadata opts)"
  have w: "chunk_written ext columns opts file ?md g i" using pf(5,6) assms(4,5) by simp
  have "fm_schema ?md = footer_schema columns" by (simp add: footer_metadata_def)
  from chunk_fetched [OF pf(2-4) this assms(3,2,5) w] assms(6) have f: "fetched ext pf g i part" by (auto intro: fetched_as_fetched)
  from w obtain p where p: "pc_stats p = compute_stats part"
      "chunk_at ?md g i = Ok (prepared_chunk (prepared_metadata (fst (columns ! i)) (column_parquet_type (snd (columns ! i)))
         (codec_of opts i) (row_from ?rows ?n (Suc g) - row_from ?rows ?n g) p))"
    unfolding chunk_written_def Let_def chunk_in_def using assms(6) by auto
  from that [OF pf(1) f pf(4) p(2) prepared_fields(1)] p(1) show thesis by (simp add: prepared_metadata_def)
qed

lemma table_narrowed:
  assumes "codecs_sound ext" and "write_table_with_options ext sbbf columns opts = Ok file" and "table_fits opts columns"
    and "length file < 2 ^ 31" and "g < group_count (row_count (snd (hd columns))) (wt_row_group_size opts)" and "i < length columns"
    and "column_slice (snd (columns ! i)) (row_from (row_count (snd (hd columns))) (wt_row_group_size opts) g)
      (row_from (row_count (snd (hd columns))) (wt_row_group_size opts) (Suc g)) = (Ok part :: column_data codec_result)"
    and "part = Col_I64 vs \<or> part = Col_U64 vs"
  shows "\<exists>pf n. file_open file = Ok pf \<and> read_column_i64_downcast ext pf g i = Ok n \<and> narrowed_to_i64 n = vs \<and>
    (part = Col_I64 vs \<and> vs \<noteq> [] \<longrightarrow> (\<forall>t. narrow_enough vs t \<longrightarrow> width_bytes (narrowed_target n) \<le> width_bytes t))"
proof -
  obtain pf md c cm where f: "file_open file = Ok pf" "fetched ext pf g i part" "file_metadata_of pf = Ok md" "chunk_at md g i = Ok c"
    "cc_meta_data c = Some cm" "cm_statistics cm = Some (as_statistics (compute_stats part))"
    using table_fetched_stats [OF assms(2-7)] by metis
  from narrow_target_Ok [OF f(3-6) assms(8)] obtain t where t: "column_narrow_target pf g i = Ok t" "narrow_enough vs t"
    "part = Col_I64 vs \<and> vs \<noteq> [] \<longrightarrow> (\<forall>t'. narrow_enough vs t' \<longrightarrow> width_bytes t \<le> width_bytes t')" by blast
  from read_narrowed [OF assms(1) f(2) assms(8) t(2)] t f(1) show ?thesis
    by (auto simp: read_column_i64_downcast_def)
qed

section \<open>Frames of reference\<close>

text \<open>Frames of reference: offsets from the minimum, decoded and added back, are the values.\<close>

section \<open>Offsets that fit\<close>

lemma sub_Ok: "- (2 ^ 63) \<le> sint a - sint b \<Longrightarrow> sint a - sint b < 2 ^ 63 \<Longrightarrow> sub_i64 a b = Ok (a - b)"
  by (simp add: sub_i64_def)

lemma sint_diff:
  fixes a b :: i64
  assumes "- (2 ^ 63) \<le> sint a - sint b" and "sint a - sint b < 2 ^ 63"
  shows "sint (a - b) = sint a - sint b"
proof -
  have "sint (a - b) = signed_take_bit 63 (sint a - sint b)"
    unfolding sint_word_ariths by (simp add: signed_take_bit_diff)
  then show ?thesis using assms by (simp add: signed_take_bit_int_eq_self)
qed

text \<open>The values at a distance from \<open>mn\<close> that \<open>t\<close> can hold.\<close>

definition frame_fits :: "i64 \<Rightarrow> int_target \<Rightarrow> i64 list \<Rightarrow> bool" where
  "frame_fits mn t vs \<longleftrightarrow> (\<forall>v \<in> set vs. sint v - sint mn \<in> target_range t)"

lemma frame_fits_sint:
  assumes "frame_fits mn t vs" and "v \<in> set vs" and "t \<noteq> To_I64"
  shows "sint (v - mn) = sint v - sint mn" and "sub_i64 v mn = (Ok (v - mn) :: i64 codec_result)" and "sint (v - mn) \<in> target_range t"
proof -
  have r: "sint v - sint mn \<in> target_range t" using assms(1,2) by (simp add: frame_fits_def)
  then have "- (2 ^ 63) \<le> sint v - sint mn" "sint v - sint mn < 2 ^ 63" using assms(3) by (cases t; simp)+
  then show "sint (v - mn) = sint v - sint mn" "sub_i64 v mn = (Ok (v - mn) :: i64 codec_result)"
    by (simp_all only: sint_diff sub_Ok)
  with r show "sint (v - mn) \<in> target_range t" by simp
qed

lemma frame_checked:
  assumes "frame_fits mn t vs" and "t \<noteq> To_I64" and "\<And>x. x \<in> target_range t \<Longrightarrow> lo \<le> x \<and> x \<le> hi"
  shows "narrow_decode (encode_plain_i64 vs) (frame_cast lo hi what mn) = Ok (map (\<lambda>v. scast (v - mn)) vs)"
proof (rule narrow_decode_Ok)
  fix v assume "v \<in> set vs"
  note f = frame_fits_sint [OF assms(1) this assms(2)]
  show "frame_cast lo hi what mn v = Ok (scast (v - mn))"
    unfolding frame_cast_def f(2) bind_o.simps by (rule checked_Ok) (use assms(3) f(3) in blast)+
qed

lemma frame_targets:
  "frame_fits mn To_I8 vs \<Longrightarrow> frame_data_i64 (encode_plain_i64 vs) mn To_I8 = Ok (N_I8 (map scast (map (\<lambda>v. v - mn) vs)))"
  "frame_fits mn To_U8 vs \<Longrightarrow> frame_data_i64 (encode_plain_i64 vs) mn To_U8 = Ok (N_U8 (map scast (map (\<lambda>v. v - mn) vs)))"
  "frame_fits mn To_I16 vs \<Longrightarrow> frame_data_i64 (encode_plain_i64 vs) mn To_I16 = Ok (N_I16 (map scast (map (\<lambda>v. v - mn) vs)))"
  "frame_fits mn To_U16 vs \<Longrightarrow> frame_data_i64 (encode_plain_i64 vs) mn To_U16 = Ok (N_U16 (map scast (map (\<lambda>v. v - mn) vs)))"
  "frame_fits mn To_I32 vs \<Longrightarrow> frame_data_i64 (encode_plain_i64 vs) mn To_I32 = Ok (N_I32 (map scast (map (\<lambda>v. v - mn) vs)))"
  "frame_fits mn To_U32 vs \<Longrightarrow> frame_data_i64 (encode_plain_i64 vs) mn To_U32 = Ok (N_U32 (map scast (map (\<lambda>v. v - mn) vs)))"
  unfolding frame_data_i64.simps by (subst frame_checked, assumption, simp, force, simp add: map_o_def o_def)+

lemma frame_data:
  assumes "frame_fits mn t vs" and "t \<noteq> To_I64"
  shows "\<exists>d. frame_data_i64 (encode_plain_i64 vs) mn t = Ok d \<and> narrowed_target d = t \<and> narrowed_to_i64 d = map (\<lambda>v. v - mn) vs"
proof -
  have "\<forall>w \<in> set (map (\<lambda>v. v - mn) vs). sint w \<in> target_range t" using frame_fits_sint(3) [OF assms(1) _ assms(2)] by auto
  then show ?thesis using assms
    by (cases t) (simp_all only: frame_targets cast_back outcome.inject narrowed_target.simps simp_thms ex_simps)
qed

section \<open>The round trip\<close>

lemma add_back: "sint v - sint mn = sint (v - mn) \<Longrightarrow> add_i64 (v - mn) mn = (Ok v :: i64 codec_result)"
  using sint_i64_bounds [of v] by (simp add: add_i64_def)

lemma frame_read:
  assumes "sint mn \<le> sint mx" and "\<forall>v \<in> set vs. sint mn \<le> sint v \<and> sint v \<le> sint mx"
  shows "\<exists>f. decode_plain_i64_frame_auto (encode_plain_i64 vs) mn mx = Ok f \<and> frame_to_i64 f = (Ok vs :: i64 list codec_result) \<and>
    (sint mx - sint mn < 2 ^ 32 \<longrightarrow> fr_offset f = mn \<and> width_bytes (frame_target f) \<le> 4)"
proof (cases "sint mx - sint mn \<le> 2 ^ 32 - 1")
  case True
  let ?span = "of_int (sint mx - sint mn) :: i64"
  have span: "sint ?span = sint mx - sint mn" using True assms(1) sint_diff [of mx mn] by simp
  then have "sint (0 :: i64) \<le> sint ?span" using assms(1) by simp
  from narrowest_Ok [OF this] obtain t where t: "narrowest_int_target 0 ?span = (Ok t :: int_target codec_result)"
    "sint (0 :: i64) \<in> target_range t" "sint ?span \<in> target_range t"
    "\<And>t'. sint (0 :: i64) \<in> target_range t' \<Longrightarrow> sint ?span \<in> target_range t' \<Longrightarrow> width_bytes t \<le> width_bytes t'" by blast
  have "sint (0 :: i64) \<in> target_range To_U32" "sint ?span \<in> target_range To_U32"
    using assms(1) True by (simp_all only: span) simp_all
  from t(4) [OF this] have small: "width_bytes t \<le> 4" "t \<noteq> To_I64" by auto
  have fits: "frame_fits mn t vs"
    using assms(2) target_range_between [OF t(2,3)] span by (auto simp: frame_fits_def)
  from frame_data [OF this small(2)] obtain d where d: "frame_data_i64 (encode_plain_i64 vs) mn t = Ok d"
    "narrowed_target d = t" "narrowed_to_i64 d = map (\<lambda>v. v - mn) vs" by blast
  have "mapM_o (\<lambda>d. add_i64 d mn) (map (\<lambda>v. v - mn) vs) = (Ok (map (\<lambda>d. d + mn) (map (\<lambda>v. v - mn) vs)) :: i64 list codec_result)"
    using add_back frame_fits_sint(1) [OF fits _ small(2)] by (intro mapM_o_all_Ok) auto
  then show ?thesis using True assms(1) t(1) d small(1)
    by (simp add: decode_plain_i64_frame_auto_def frame_of_reference_target_def Let_def decode_plain_i64_frame_def frame_to_i64_def
        frame_target_def o_def)
next
  case False
  have "mapM_o (\<lambda>d. add_i64 d 0) vs = (Ok (map (\<lambda>d. d) vs) :: i64 list codec_result)"
    using sint_i64_bounds by (intro mapM_o_all_Ok) (simp add: add_i64_def)
  then show ?thesis using False assms(1)
    by (simp add: decode_plain_i64_frame_auto_def frame_of_reference_target_def Let_def decode_plain_i64_frame_def frame_to_i64_def
        map_o_def encoders_le plain_i64.roundtrip)
qed

section \<open>The properties\<close>

text \<open>The properties of the narrowing decoders, over buffers and over written tables.\<close>

text \<open>C12. The target chosen for a range is a type that holds both ends, hence every value between, and no
  narrower target does; a range turned around is a panic.\<close>

theorem narrowest_target_type:
  "if sint mn \<le> sint mx
   then \<exists>t. narrowest_int_target mn mx = (Ok t :: ('e, int_target) outcome) \<and> {sint mn .. sint mx} \<subseteq> target_range t \<and>
     list_all (\<lambda>t'. {sint mn .. sint mx} \<subseteq> target_range t' \<longrightarrow> width_bytes t \<le> width_bytes t')
       [To_I8, To_U8, To_I16, To_U16, To_I32, To_U32, To_I64]
   else \<exists>m. narrowest_int_target mn mx = (Panic m :: ('e, int_target) outcome)"
proof (cases "sint mn \<le> sint mx")
  case True
  obtain t where t: "narrowest_int_target mn mx = (Ok t :: ('e, int_target) outcome)" "sint mn \<in> target_range t" "sint mx \<in> target_range t"
    "\<And>t'. sint mn \<in> target_range t' \<Longrightarrow> sint mx \<in> target_range t' \<Longrightarrow> width_bytes t \<le> width_bytes t'"
    using narrowest_Ok [OF True] by blast
  have "{sint mn .. sint mx} \<subseteq> target_range t' \<longleftrightarrow> sint mn \<in> target_range t' \<and> sint mx \<in> target_range t'" for t'
    using True target_range_between [of "sint mn" t' "sint mx"] by (auto simp: subset_iff)
  then show ?thesis using True t by (auto simp: list_all_iff simp del: target_range.simps width_bytes.simps)
next
  case False
  then show ?thesis by (simp add: narrowest_int_target_def Let_def)
qed

lemma narrowest_target_type_witness:
  "\<exists>t. narrowest_int_target 0 200 = (Ok t :: (codec_error, int_target) outcome) \<and> {sint (0 :: i64) .. sint (200 :: i64)} \<subseteq> target_range t"
  using narrowest_target_type [of 0 200, where 'e = codec_error] by (auto simp del: target_range.simps)

text \<open>C6. A frame of reference is lossless: values within the range given decode to offsets from the minimum, in
  at most four bytes when the range is that narrow, and adding the minimum back never overflows and gives the values.\<close>

theorem frame_roundtrip:
  assumes "sint mn \<le> sint mx" and "\<forall>v \<in> set vs. sint mn \<le> sint v \<and> sint v \<le> sint mx"
  shows "\<exists>f. decode_plain_i64_frame_auto (encode_plain_i64 vs) mn mx = Ok f \<and> frame_to_i64 f = (Ok vs :: i64 list codec_result) \<and>
    (sint mx - sint mn < 2 ^ 32 \<longrightarrow> fr_offset f = mn \<and> width_bytes (frame_target f) \<le> 4)"
  by (rule frame_read [OF assms])

lemma frame_roundtrip_witness:
  "\<exists>f. decode_plain_i64_frame_auto (encode_plain_i64 [1000000, 1000007]) 1000000 1000100 = Ok f \<and>
    frame_to_i64 f = (Ok [1000000, 1000007] :: i64 list codec_result)"
  using frame_roundtrip [of 1000000 1000100 "[1000000, 1000007]"] by auto

text \<open>C4. Reading a written 64-bit column in the width its own statistics allow loses nothing: the reader
  succeeds, no narrowing assertion fires, dictionary pages included, and the values widened back are those of the
  row group.  For signed columns no narrower type could hold them; an unsigned column whose range wraps as signed
  is read at full width.\<close>

theorem table_downcast_read:
  assumes "codecs_sound ext" and "write_table_with_options ext sbbf columns opts = Ok file" and "table_fits opts columns"
    and "length file < 2 ^ 31" and "g < group_count (row_count (snd (hd columns))) (wt_row_group_size opts)" and "i < length columns"
    and "column_slice (snd (columns ! i)) (row_from (row_count (snd (hd columns))) (wt_row_group_size opts) g)
      (row_from (row_count (snd (hd columns))) (wt_row_group_size opts) (Suc g)) = (Ok part :: column_data codec_result)"
    and "part = Col_I64 vs \<or> part = Col_U64 vs"
  shows "\<exists>pf n. file_open file = Ok pf \<and> read_column_i64_downcast ext pf g i = Ok n \<and> narrowed_to_i64 n = vs \<and>
    (part = Col_I64 vs \<and> vs \<noteq> [] \<longrightarrow> (\<forall>t. narrow_enough vs t \<longrightarrow> width_bytes (narrowed_target n) \<le> width_bytes t))"
  by (rule table_narrowed [OF assms])

lemma table_downcast_read_witness:
  "\<exists>pf n. file_open wide_file = Ok pf \<and> read_column_i64_downcast stored_codecs pf 0 0 = Ok n \<and> narrowed_to_i64 n = [300, - 3] \<and>
    width_bytes (narrowed_target n) \<le> 2"
proof -
  have "narrow_enough [300, - 3] To_I16" by (simp add: narrow_enough_def)
  then show ?thesis
    using table_downcast_read [OF stored_codecs_sound wide_written wide_fits wide_length _ wide_slice(2,3), of "[300, - 3]"] wide_slice(1) by force
qed

end
