(* ===== verification/Adaptive.thy ===== *)
theory Adaptive
  imports Complex_Main ReadColumn
begin

text \<open>
  \<open>adaptive.rs\<close> and its callers in \<open>read.rs\<close>: a predicate over a dictionary-encoded chunk is run on the first
  pages as a bitmap, and the share of rows that pass decides whether the rest of the chunk becomes a bitmap or
  the filtered values.  The share is a quotient of \<open>f32\<close> numbers; a finite float is the rational it denotes,
  and conversion and division round to the nearest float, to even in a tie.  The telemetry callback is called
  once, with the value of \<open>adaptive_telemetry\<close>.
\<close>

section \<open>Single-precision quotients\<close>

definition round_even :: "rat \<Rightarrow> int" where
  "round_even x =
     (let f = \<lfloor>x\<rfloor>; d = x - of_int f
      in if d < 1 / 2 then f else if d > 1 / 2 then f + 1 else if even f then f else f + 1)"

text \<open>Scale by powers of two until the 24 bits of the significand are before the point.\<close>

fun scale_f32 :: "nat \<Rightarrow> rat \<Rightarrow> rat \<Rightarrow> rat \<times> rat" where
  "scale_f32 0 x unit = (x, unit)"
| "scale_f32 (Suc n) x unit =
     (if x \<ge> 2 ^ 24 then scale_f32 n (x / 2) (unit * 2)
      else if x < 2 ^ 23 then scale_f32 n (x * 2) (unit / 2)
      else (x, unit))"

text \<open>The numbers rounded here are 0 or between \<open>2 ^ - 64\<close> and \<open>2 ^ 64\<close>, far from the ends of the exponent range.\<close>

definition round_f32 :: "rat \<Rightarrow> rat" where
  "round_f32 x = (if x = 0 then 0 else case scale_f32 100 x 1 of (m, unit) \<Rightarrow> of_int (round_even m) * unit)"

text \<open>\<open>x > threshold\<close> for a finite \<open>x\<close> and a float given by its bits.\<close>

definition f32_exceeds :: "rat \<Rightarrow> 32 word \<Rightarrow> bool" where
  "f32_exceeds x threshold =
     (let sign = bit threshold 31; expo = nat (uint (drop_bit 23 threshold AND 0xFF)); frac = uint (threshold AND 0x7FFFFF);
          magnitude = (if expo = 0 then of_int frac / 2 ^ 149 else of_int (2 ^ 23 + frac) * 2 ^ expo / 2 ^ 150)
      in if expo = 255 then frac = 0 \<and> sign
         else x > (if sign then - magnitude else magnitude))"

section \<open>Dispatch\<close>

datatype dispatch = Fused | Materialized

record page_probe =
  pp_rows_in :: nat
  pp_rows_passed :: nat

definition selectivity :: "page_probe \<Rightarrow> rat" where
  "selectivity p =
     (if pp_rows_in p = 0 then 0
      else round_f32 (round_f32 (of_nat (pp_rows_passed p)) / round_f32 (of_nat (pp_rows_in p))))"

record adaptive_dict_predicate =
  ad_dict_mask :: bytes
  ad_threshold :: "32 word"
  ad_probe_pages :: nat

text \<open>The float \<open>0.10\<close>.\<close>

definition default_threshold :: "32 word" where
  "default_threshold = 0x3DCCCCCD"

definition default_probe_pages :: nat where
  "default_probe_pages = 3"

definition adaptive_predicate_new :: "bytes \<Rightarrow> adaptive_dict_predicate" where
  "adaptive_predicate_new dict_mask =
     \<lparr>ad_dict_mask = dict_mask, ad_threshold = default_threshold, ad_probe_pages = default_probe_pages\<rparr>"

definition dispatch_for :: "adaptive_dict_predicate \<Rightarrow> page_probe \<Rightarrow> dispatch" where
  "dispatch_for cfg aggregated = (if f32_exceeds (selectivity aggregated) (ad_threshold cfg) then Materialized else Fused)"

record adaptive_options =
  ao_threshold :: "32 word"
  ao_probe_pages :: nat

definition adaptive_options_default :: adaptive_options where
  "adaptive_options_default = \<lparr>ao_threshold = default_threshold, ao_probe_pages = default_probe_pages\<rparr>"

section \<open>Probing a page\<close>

definition popcount_bitmap_prefix :: "bytes \<Rightarrow> nat \<Rightarrow> ('e, nat) outcome" where
  "popcount_bitmap_prefix bitmap num_bits =
     (if num_bits = 0 then Ok 0
      else let full_bytes = num_bits div 8; tail_bits = num_bits mod 8
      in bind_o (slice bitmap 0 full_bytes) (\<lambda>bs.
         let acc = sum_list (map count_ones bs)
         in if tail_bits \<noteq> 0
            then bind_o (index_o bitmap full_bytes) (\<lambda>b. Ok (acc + count_ones (b AND (push_bit tail_bits 1 - 1))))
            else Ok acc))"

definition probe_page_fused :: "bytes \<Rightarrow> nat \<Rightarrow> bytes \<Rightarrow> bytes \<Rightarrow> (page_probe \<times> bytes) codec_result" where
  "probe_page_fused body num_values dict_mask out =
     bind_o (decode_rle_dictionary_predicate_bitmap body num_values dict_mask out) (\<lambda>out'.
     bind_o (popcount_bitmap_prefix (drop (length out) out') num_values) (\<lambda>rows_passed.
     Ok (\<lparr>pp_rows_in = num_values, pp_rows_passed = rows_passed\<rparr>, out')))"

section \<open>A chunk\<close>

record adaptive_page =
  ap_body :: bytes
  ap_num_values :: nat

datatype 'a adaptive_kind = Bitmap bytes nat | Values "'a list"

record 'a adaptive_output =
  ac_dispatch :: dispatch
  ac_total_rows :: nat
  ac_kind :: "'a adaptive_kind"

record selectivity_probe =
  sp_pages_probed :: nat
  sp_rows_in :: nat
  sp_rows_passed :: nat
  sp_selectivity :: rat
  sp_dispatch :: dispatch

definition materialise_filter :: "bytes \<Rightarrow> nat \<Rightarrow> bytes \<Rightarrow> 'a list \<Rightarrow> 'a list \<Rightarrow> 'a list codec_result" where
  "materialise_filter body num_values dict_mask vals out =
     bind_o (decode_rle_dictionary_predicate_bitmap body num_values dict_mask []) (\<lambda>bm.
     fold_o (\<lambda>out row. bind_o (mask_bit bm row) (\<lambda>b.
         if b then bind_o (index_o vals row) (\<lambda>v. Ok (out @ [v])) else Ok out))
       out [0..<num_values])"

text \<open>One step of the probe phase; the emit phase of a bitmap takes it too.\<close>

definition probe_step :: "bytes \<Rightarrow> bytes \<times> nat \<times> nat \<Rightarrow> adaptive_page \<Rightarrow> (bytes \<times> nat \<times> nat) codec_result" where
  "probe_step dict_mask s page =
     (case s of (bitmap, rows_in, rows_passed) \<Rightarrow>
      bind_o (probe_page_fused (ap_body page) (ap_num_values page) dict_mask bitmap) (\<lambda>(p, bitmap).
      bind_o (add_usize rows_in (pp_rows_in p)) (\<lambda>rows_in.
      bind_o (add_usize rows_passed (pp_rows_passed p)) (\<lambda>rows_passed.
      Ok (bitmap, rows_in, rows_passed)))))"

definition fused_step :: "bytes \<Rightarrow> bytes \<times> nat \<Rightarrow> adaptive_page \<Rightarrow> (bytes \<times> nat) codec_result" where
  "fused_step dict_mask s page =
     (case s of (bitmap, rows_passed) \<Rightarrow>
      bind_o (probe_page_fused (ap_body page) (ap_num_values page) dict_mask bitmap) (\<lambda>(p, bitmap).
      bind_o (add_usize rows_passed (pp_rows_passed p)) (\<lambda>rows_passed. Ok (bitmap, rows_passed))))"

definition sum_usize :: "nat list \<Rightarrow> ('e, nat) outcome" where
  "sum_usize ns = fold_o add_usize 0 ns"

text \<open>The probe phase: the bitmap so far, the rows read and passed, and the decision.\<close>

definition run_probe ::
  "adaptive_page list \<Rightarrow> adaptive_dict_predicate \<Rightarrow> (bytes \<times> nat \<times> nat \<times> dispatch) codec_result" where
  "run_probe pages cfg =
     bind_o (fold_o (probe_step (ad_dict_mask cfg)) ([], 0, 0) (take (min (ad_probe_pages cfg) (length pages)) pages))
       (\<lambda>(bitmap, rows_in, rows_passed).
     Ok (bitmap, rows_in, rows_passed,
         dispatch_for cfg \<lparr>pp_rows_in = rows_in, pp_rows_passed = rows_passed\<rparr>))"

definition adaptive_telemetry :: "adaptive_page list \<Rightarrow> adaptive_dict_predicate \<Rightarrow> selectivity_probe codec_result" where
  "adaptive_telemetry pages cfg =
     bind_o (sum_usize (map ap_num_values pages)) (\<lambda>total_rows.
     if total_rows = 0
     then Ok \<lparr>sp_pages_probed = 0, sp_rows_in = 0, sp_rows_passed = 0, sp_selectivity = 0, sp_dispatch = Fused\<rparr>
     else bind_o (run_probe pages cfg) (\<lambda>(bitmap, rows_in, rows_passed, dsp).
       Ok \<lparr>sp_pages_probed = min (ad_probe_pages cfg) (length pages), sp_rows_in = rows_in, sp_rows_passed = rows_passed,
           sp_selectivity = selectivity \<lparr>pp_rows_in = rows_in, pp_rows_passed = rows_passed\<rparr>, sp_dispatch = dsp\<rparr>))"

text \<open>The runner, up to how the filtered values of a page are materialised.\<close>

definition run_adaptive ::
  "adaptive_page list \<Rightarrow> adaptive_dict_predicate \<Rightarrow> (adaptive_page \<Rightarrow> 'v \<Rightarrow> 'v codec_result) \<Rightarrow> 'v \<Rightarrow>
   (dispatch \<times> nat \<times> (bytes \<times> nat + 'v)) codec_result" where
  "run_adaptive pages cfg materialise start =
     bind_o (sum_usize (map ap_num_values pages)) (\<lambda>total_rows.
     if total_rows = 0 then Ok (Fused, 0, Inl ([], 0))
     else bind_o (run_probe pages cfg) (\<lambda>(bitmap, rows_in, rows_passed, dsp).
       case dsp of
         Fused \<Rightarrow>
           bind_o (fold_o (fused_step (ad_dict_mask cfg)) (bitmap, rows_passed)
               (drop (min (ad_probe_pages cfg) (length pages)) pages)) (\<lambda>(bitmap, set_bits).
           Ok (Fused, total_rows, Inl (bitmap, set_bits)))
       | Materialized \<Rightarrow>
           bind_o (fold_o (\<lambda>out page. materialise page out) start pages) (\<lambda>vals.
           Ok (Materialized, total_rows, Inr vals))))"

definition materialise_page :: "'a list \<Rightarrow> bytes \<Rightarrow> adaptive_page \<Rightarrow> 'a list \<Rightarrow> 'a list codec_result" where
  "materialise_page dict dict_mask page out =
     bind_o (decode_rle_dictionary_into (ap_body page) dict (ap_num_values page) []) (\<lambda>tmp_values.
     materialise_filter (ap_body page) (ap_num_values page) dict_mask tmp_values out)"

definition run_adaptive_dict_chunk ::
  "adaptive_page list \<Rightarrow> 'a list \<Rightarrow> adaptive_dict_predicate \<Rightarrow> 'a adaptive_output codec_result" where
  "run_adaptive_dict_chunk pages dict cfg =
     bind_o (run_adaptive pages cfg (materialise_page dict (ad_dict_mask cfg)) []) (\<lambda>(dsp, total_rows, r).
     Ok \<lparr>ac_dispatch = dsp, ac_total_rows = total_rows,
         ac_kind = (case r of Inl (bitmap, set_bits) \<Rightarrow> Bitmap bitmap set_bits | Inr vals \<Rightarrow> Values vals)\<rparr>)"

section \<open>Collecting the pages of a chunk\<close>

definition em_dash :: string where
  "em_dash = [CHR 0xE2, CHR 0x80, CHR 0x94]"

text \<open>The checks on a data page of a chunk that must be dictionary-encoded throughout; \<open>what\<close> starts the messages.\<close>

definition adaptive_data_page ::
  "codecs \<Rightarrow> chunk_info \<Rightarrow> string \<Rightarrow> string \<Rightarrow> bool \<Rightarrow> page_header \<Rightarrow> bytes \<Rightarrow> data_page_info codec_result" where
  "adaptive_data_page ext ck what alternative have_dict hdr body =
     (if \<not> have_dict then Err (InvalidInput (what @ '': data page before dictionary (column has no DictionaryPage)''))
      else bind_o (data_page_view ext ck hdr body) (\<lambda>info.
        bind_o (case dp_encoding info of
            E_RleDictionary \<Rightarrow> Ok ()
          | E_PlainDictionary \<Rightarrow> Ok ()
          | E_Plain \<Rightarrow> Err (InvalidInput (what @ '': data page is PLAIN-encoded (writer fell back from dict '' @ em_dash @ '' use '' @ alternative @ '' instead)''))
          | other \<Rightarrow> Err (Unsupported (what @ '': data page encoding not supported: '' @ encoding_name other))) (\<lambda>_.
        if dp_values info = [] then Panic ''dict-encoded page body empty'' else Ok info)))"

text \<open>The state of the loop over the pages: the dictionary, the pages, their rows, the bit width of the first.\<close>

type_synonym 'd pulled = "'d \<times> adaptive_page list \<times> nat \<times> nat"

definition pull_page ::
  "codecs \<Rightarrow> chunk_info \<Rightarrow> string \<Rightarrow> string \<Rightarrow> (bytes \<Rightarrow> 'd \<Rightarrow> 'd codec_result) \<Rightarrow> ('d \<Rightarrow> bool) \<Rightarrow>
   'd pulled \<Rightarrow> page_header \<Rightarrow> bytes \<Rightarrow> (bool \<times> 'd pulled) codec_result" where
  "pull_page ext ck what alternative add_dict have_dict s hdr body =
     (case s of (dict, pages, rows_collected, bit_width) \<Rightarrow>
      bind_o (case ph_page_type hdr of
          PG_DictionaryPage \<Rightarrow>
            bind_o (page_uncompressed_size hdr) (\<lambda>n.
            bind_o (decompress_into ext (ck_codec ck) body n) (\<lambda>decomp.
            bind_o (add_dict decomp dict) (\<lambda>dict. Ok (dict, pages, rows_collected, bit_width))))
        | PG_IndexPage \<Rightarrow> Ok s
        | _ \<Rightarrow>
            bind_o (adaptive_data_page ext ck what alternative (have_dict dict) hdr body) (\<lambda>info.
            let bit_width = (if bit_width = 0 then unat (hd (dp_values info)) else bit_width)
            in bind_o (add_usize rows_collected (dp_num_values info)) (\<lambda>rows_collected.
               Ok (dict, pages @ [\<lparr>ap_body = dp_values info, ap_num_values = dp_num_values info\<rparr>], rows_collected, bit_width))))
        (\<lambda>s'. Ok (fst (snd (snd s')) < ck_total_values ck, s')))"

definition pull_dict_chunk ::
  "codecs \<Rightarrow> parquet_file \<Rightarrow> nat \<Rightarrow> nat \<Rightarrow> (bytes \<Rightarrow> 'a list codec_result) \<Rightarrow> ('a list \<times> adaptive_page list \<times> nat) codec_result" where
  "pull_dict_chunk ext file rg column decode_dict_plain =
     bind_o (read_chunk_raw file rg column) (\<lambda>ck.
     bind_o (walk_pages (pull_page ext ck ''adaptive read'' ''read_column_*_masked_into''
           (\<lambda>decomp _. bind_o (decode_dict_plain decomp) (\<lambda>d. Ok (Some d))) (\<lambda>d. d \<noteq> None))
         (page_walker_new (ck_bytes ck)) (None, [], 0, 0)) (\<lambda>(dict_decoded, pages, rows, bit_width).
     bind_o (ok_or (InvalidInput ''adaptive read: column chunk has no DictionaryPage'') dict_decoded) (\<lambda>dict.
     Ok (dict, pages, bit_width))))"

definition run_facade ::
  "codecs \<Rightarrow> parquet_file \<Rightarrow> nat \<Rightarrow> nat \<Rightarrow> ('a \<Rightarrow> bool) \<Rightarrow> adaptive_options \<Rightarrow> (bytes \<Rightarrow> 'a list codec_result) \<Rightarrow>
   'a adaptive_output codec_result" where
  "run_facade ext file rg column pred opts decode_dict_plain =
     bind_o (pull_dict_chunk ext file rg column decode_dict_plain) (\<lambda>(dict, pages, bit_width).
     bind_o (build_dict_predicate_mask dict bit_width pred) (\<lambda>dict_mask.
     run_adaptive_dict_chunk pages dict
       \<lparr>ad_dict_mask = dict_mask, ad_threshold = ao_threshold opts, ad_probe_pages = ao_probe_pages opts\<rparr>))"

definition read_column_i32_predicate_adaptive ::
  "codecs \<Rightarrow> parquet_file \<Rightarrow> nat \<Rightarrow> nat \<Rightarrow> (i32 \<Rightarrow> bool) \<Rightarrow> adaptive_options \<Rightarrow> i32 adaptive_output codec_result" where
  "read_column_i32_predicate_adaptive ext file rg column pred opts = run_facade ext file rg column pred opts decode_plain_i32"

definition read_column_i64_predicate_adaptive ::
  "codecs \<Rightarrow> parquet_file \<Rightarrow> nat \<Rightarrow> nat \<Rightarrow> (i64 \<Rightarrow> bool) \<Rightarrow> adaptive_options \<Rightarrow> i64 adaptive_output codec_result" where
  "read_column_i64_predicate_adaptive ext file rg column pred opts = run_facade ext file rg column pred opts decode_plain_i64"

definition read_column_f64_predicate_adaptive ::
  "codecs \<Rightarrow> parquet_file \<Rightarrow> nat \<Rightarrow> nat \<Rightarrow> (64 word \<Rightarrow> bool) \<Rightarrow> adaptive_options \<Rightarrow> 64 word adaptive_output codec_result" where
  "read_column_f64_predicate_adaptive ext file rg column pred opts = run_facade ext file rg column pred opts decode_plain_f64"

section \<open>Byte arrays\<close>

text \<open>Appending the entries of a dictionary page as bytes and end offsets, counted from 0; \<open>full\<close> is the outcome
  when a sum is no \<open>u32\<close>.\<close>

definition push_entries ::
  "(u32 \<times> bytes \<times> u32 list) codec_result \<Rightarrow> bytes list \<Rightarrow> bytes \<times> u32 list \<Rightarrow> (bytes \<times> u32 list) codec_result" where
  "push_entries full entries d =
     bind_o (fold_o (\<lambda>(acc, dict_bytes, dict_offsets) s.
         if unat acc + unat (of_nat (length s) :: u32) < 2 ^ 32
         then Ok (acc + of_nat (length s), dict_bytes @ s, dict_offsets @ [acc + of_nat (length s)])
         else full) (0, d) entries) (\<lambda>(acc, d). Ok d)"

definition dict_bytes_full :: "'a codec_result" where
  "dict_bytes_full = Err (InvalidInput ''dict bytes exceed u32::MAX'')"

text \<open>\<open>&dict_bytes[dict_offsets[i] as usize..dict_offsets[i + 1] as usize]\<close>.\<close>

definition flat_entry :: "bytes \<Rightarrow> u32 list \<Rightarrow> nat \<Rightarrow> ('e, bytes) outcome" where
  "flat_entry dict_bytes dict_offsets i =
     bind_o (index_o dict_offsets i) (\<lambda>lo.
     bind_o (index_o dict_offsets (i + 1)) (\<lambda>hi. slice dict_bytes (unat lo) (unat hi)))"

definition flat_predicate_mask :: "bytes \<Rightarrow> u32 list \<Rightarrow> nat \<Rightarrow> (bytes \<Rightarrow> bool) \<Rightarrow> bytes codec_result" where
  "flat_predicate_mask dict_bytes dict_offsets bit_width pred =
     (let dict_len = length dict_offsets - 1
      in if bit_width > 32 \<or> bit_width = 0 then Err (BitWidthOutOfRange bit_width)
      else let mask_len = 2 ^ bit_width
      in if dict_len > mask_len
         then Err (Decompress (''dict has '' @ decimal dict_len @ '' entries, exceeds bit_width='' @ decimal bit_width @
                '' addressable space ('' @ decimal mask_len @ '')''))
         else fold_o (\<lambda>msk i. bind_o (flat_entry dict_bytes dict_offsets i) (\<lambda>v. if pred v then set_o msk i 1 else Ok msk))
           (replicate mask_len 0) [0..<dict_len])"

text \<open>The rows of one page that pass, appended as bytes and offsets.\<close>

definition materialise_byte_arrays ::
  "bytes \<Rightarrow> u32 list \<Rightarrow> bytes \<Rightarrow> adaptive_page \<Rightarrow> u32 \<times> bytes \<times> u32 list \<Rightarrow> (u32 \<times> bytes \<times> u32 list) codec_result" where
  "materialise_byte_arrays dict_bytes dict_offsets dict_mask page s =
     bind_o (decode_rle_dictionary_indices (ap_body page) (ap_num_values page)) (\<lambda>page_indices.
     bind_o (decode_rle_dictionary_predicate_bitmap (ap_body page) (ap_num_values page) dict_mask []) (\<lambda>bm.
     fold_o (\<lambda>(byte_acc, out_bytes, out_offsets) row. bind_o (mask_bit bm row) (\<lambda>b.
         if b
         then bind_o (index_o page_indices row) (\<lambda>idx.
              bind_o (flat_entry dict_bytes dict_offsets (unat idx)) (\<lambda>v.
              let n = unat (of_nat (length v) :: u32)
              in if unat byte_acc + n < 2 ^ 32
                 then Ok (byte_acc + of_nat n, out_bytes @ v, out_offsets @ [byte_acc + of_nat n])
                 else Err (InvalidInput ''byte_array adaptive: output bytes exceed u32::MAX'')))
         else Ok (byte_acc, out_bytes, out_offsets)))
       s [0..<ap_num_values page]))"

datatype byte_array_kind = BA_Bitmap bytes nat | BA_Values bytes "u32 list"

record byte_array_output =
  bc_dispatch :: dispatch
  bc_total_rows :: nat
  bc_kind :: byte_array_kind

definition read_column_byte_array_predicate_adaptive ::
  "codecs \<Rightarrow> parquet_file \<Rightarrow> nat \<Rightarrow> nat \<Rightarrow> (bytes \<Rightarrow> bool) \<Rightarrow> adaptive_options \<Rightarrow> byte_array_output codec_result" where
  "read_column_byte_array_predicate_adaptive ext file rg column pred opts =
     bind_o (read_chunk_raw file rg column) (\<lambda>ck.
     bind_o (walk_pages (pull_page ext ck ''byte_array adaptive'' ''read_column_byte_array_masked_into''
           (\<lambda>decomp (d, have_dict). bind_o (decode_plain_byte_array decomp) (\<lambda>entries.
              bind_o (push_entries dict_bytes_full entries d) (\<lambda>d. Ok (d, True)))) snd)
         (page_walker_new (ck_bytes ck)) ((([], [0]), False), [], 0, 0)) (\<lambda>(((dict_bytes, dict_offsets), have_dict), pages, rows, bit_width).
     if \<not> have_dict then Err (InvalidInput ''byte_array adaptive: column chunk has no DictionaryPage'')
     else bind_o (flat_predicate_mask dict_bytes dict_offsets bit_width pred) (\<lambda>dict_mask.
       bind_o (run_adaptive pages
           \<lparr>ad_dict_mask = dict_mask, ad_threshold = ao_threshold opts, ad_probe_pages = ao_probe_pages opts\<rparr>
           (materialise_byte_arrays dict_bytes dict_offsets dict_mask) (0, [], [0])) (\<lambda>(dsp, total_rows, r).
       Ok \<lparr>bc_dispatch = dsp, bc_total_rows = total_rows,
           bc_kind = (case r of Inl (bitmap, set_bits) \<Rightarrow> BA_Bitmap bitmap set_bits
             | Inr (byte_acc, out_bytes, out_offsets) \<Rightarrow> BA_Values out_bytes out_offsets)\<rparr>))))"

end
