(* ===== verification/AdaptiveProofs.thy ===== *)
theory AdaptiveProofs
  imports Adaptive DictSpec TableRoundtrip TableTotal WrittenPages TableSample
begin

text \<open>
  The adaptive predicate over a dictionary-encoded chunk: whichever way it dispatches, the rows that pass are the
  rows whose value satisfies the predicate, as bits of each page or as values.
\<close>

section \<open>Packed bits\<close>

definition pack_bits :: "bool list \<Rightarrow> bytes" where
  "pack_bits bs = map (\<lambda>q. horner_sum of_bool 2 (map (\<lambda>k. 8 * q + k < length bs \<and> bs ! (8 * q + k)) [0..<8])) [0..<div_ceil (length bs) 8]"

lemma length_pack_bits [simp]: "length (pack_bits bs) = div_ceil (length bs) 8"
  by (simp add: pack_bits_def)

lemma stream_bit_pack: "stream_bit (pack_bits bs) j \<longleftrightarrow> j < length bs \<and> bs ! j"
proof -
  have "j div 8 < div_ceil (length bs) 8" if "j < length bs" using that unfolding div_ceil_def by linarith
  moreover have "8 * (j div 8) + j mod 8 = j" by simp
  ultimately show ?thesis by (auto simp: stream_bit_def pack_bits_def bit_horner_sum_bit_iff)
qed

lemma marks_packed:
  "marks msk out (div_ceil (length is) 8) is r \<longleftrightarrow> r = out @ pack_bits (map (\<lambda>i. msk ! unat i \<noteq> 0) is)"
proof -
  have "marks msk out (div_ceil (length is) 8) is (out @ pack_bits (map (\<lambda>i. msk ! unat i \<noteq> 0) is))"
    by (auto simp: marks_def stream_bit_append stream_bit_pack nth_map dest: stream_bit_bound
        intro!: exI [of _ "j - 8 * length out" for j])
  then show ?thesis using marks_unique by blast
qed

section \<open>Counting a prefix\<close>

lemma count_ones_and: "count_ones (b AND (push_bit n 1 - 1)) = length (filter (bit b) [0..<min n 8])"
  if "n \<le> 8" for b :: u8
proof -
  have "push_bit n 1 - 1 = (Bit_Operations.mask n :: u8)" by (simp add: mask_eq_exp_minus_1 push_bit_eq_mult)
  then have "count_ones (b AND (push_bit n 1 - 1)) = length (filter (\<lambda>i. bit b i \<and> i < n) [0..<8])"
    unfolding count_ones_def bit_test by (intro arg_cong [where f = length] filter_cong) (auto simp: bit_simps)
  also have "filter (\<lambda>i. bit b i \<and> i < n) [0..<8] = filter (bit b) (filter (\<lambda>i. i < n) [0..<8])"
    by (simp add: filter_filter conj_commute)
  also have "filter (\<lambda>i. i < n) [0..<8] = [0..<min n 8]"
  proof -
    have "[0..<8] = [0..<n] @ [n..<8]" using that upt_add_eq_append [of 0 n "8 - n"] by simp
    then show ?thesis using that by simp
  qed
  finally show ?thesis .
qed

lemma sum_ones: "n \<le> length bs \<Longrightarrow> sum_list (map count_ones (take n bs)) = ones_in bs 0 (8 * n)"
proof (induction n)
  case (Suc n)
  then have "take (Suc n) bs = take n bs @ [bs ! n]" by (simp add: take_Suc_conv_app_nth)
  with Suc ones_in_split [of 0 "8 * n" "8 * Suc n" bs] show ?case by (simp add: count_ones_bits ones_in_def add.commute)
qed simp

lemma popcount_prefix:
  assumes "n \<le> 8 * length bs"
  shows "popcount_bitmap_prefix bs n = (Ok (ones_in bs 0 n) :: ('e, nat) outcome)"
proof -
  have full: "n div 8 \<le> length bs" using assms by linarith
  have split: "ones_in bs 0 n = ones_in bs 0 (8 * (n div 8)) + ones_in bs (8 * (n div 8)) n"
    by (rule ones_in_split) simp_all
  have tail: "ones_in bs (8 * (n div 8)) n = count_ones (bs ! (n div 8) AND (push_bit (n mod 8) 1 - 1))" if "n mod 8 \<noteq> 0"
  proof -
    have q: "n div 8 < length bs" using assms that by presburger
    have "[8 * q..<8 * q + r] = map (\<lambda>k. 8 * q + k) [0..<r]" for q r :: nat
      by (rule nth_equalityI) simp_all
    from this [of "n div 8" "n mod 8"] have "[8 * (n div 8)..<n] = map (\<lambda>k. 8 * (n div 8) + k) [0..<n mod 8]" by simp
    then have "ones_in bs (8 * (n div 8)) n = length (filter (\<lambda>k. stream_bit bs (8 * (n div 8) + k)) [0..<n mod 8])"
      by (simp add: ones_in_def filter_map o_def)
    also have "\<dots> = length (filter (bit (bs ! (n div 8))) [0..<n mod 8])"
      by (intro arg_cong [where f = length] filter_cong) (use q in \<open>auto simp: bits_of_byte\<close>)
    finally show ?thesis using count_ones_and [of "n mod 8" "bs ! (n div 8)"] by (simp add: less_imp_le)
  qed
  show ?thesis
  proof (cases "n = 0")
    case False
    then show ?thesis using full split tail assms
      by (auto simp: popcount_bitmap_prefix_def Let_def slice_def sum_ones index_o_def div_less_iff_less_mult mult.commute)
  qed (simp add: popcount_bitmap_prefix_def)
qed

lemma ones_in_pack: "ones_in (pack_bits bs) 0 (length bs) = length (filter (\<lambda>b. b) bs)"
proof -
  have "map ((!) bs) [0..<length bs] = bs" by (rule map_nth)
  then have "length (filter (\<lambda>b. b) bs) = length (filter (\<lambda>b. b) (map ((!) bs) [0..<length bs]))" by simp
  also have "\<dots> = length (filter ((!) bs) [0..<length bs])" by (simp add: filter_map o_def)
  also have "filter ((!) bs) [0..<length bs] = filter (stream_bit (pack_bits bs)) [0..<length bs]"
    by (rule filter_cong) (simp_all add: stream_bit_pack)
  finally show ?thesis by (simp add: ones_in_def)
qed

section \<open>Pages\<close>

text \<open>A page that decodes to \<open>vs\<close> with the dictionary, packed at the width the mask was built for.\<close>

definition decodes_page :: "'a list \<Rightarrow> nat \<Rightarrow> adaptive_page \<Rightarrow> 'a list \<Rightarrow> bool" where
  "decodes_page dict w p vs \<longleftrightarrow> unat (hd (ap_body p)) = w \<and> ap_num_values p < 2 ^ 64 \<and>
     decode_rle_dictionary_into (ap_body p) dict (ap_num_values p) [] = Ok vs"

lemma page_bitmap:
  assumes "decodes_page dict w p vs" and "build_dict_predicate_mask dict w P = Ok msk" and "w < 32"
  shows "decode_rle_dictionary_predicate_bitmap (ap_body p) (ap_num_values p) msk out = Ok (out @ pack_bits (map P vs))"
    and "length vs = ap_num_values p"
proof -
  have w: "unat (hd (ap_body p)) = w" and num: "ap_num_values p < 2 ^ 64" using assms(1) by (simp_all add: decodes_page_def)
  from assms(1) obtain "is" where "is": "decode_rle_dictionary_indices (ap_body p) (ap_num_values p) = Ok is"
    "list_all (\<lambda>i. unat i < length dict) is" "vs = map (\<lambda>i. dict ! unat i) is"
    "page_rle_ok (ap_body p) (ap_num_values p) (\<lambda>i. unat i < length dict)"
    by (auto simp: decodes_page_def dict_values_iff [OF num] lookup_dict_Ok_iff)
  from "is"(1) obtain rs where rs: "page_runs (ap_body p) (ap_num_values p) = Ok rs" "is = stream_vals w rs"
    by (auto simp: indices_Ok_iff [OF num] w)
  have len: "length is = ap_num_values p" using length_stream_vals [OF page_runs_ok [OF rs(1)]] rs(2) w by simp
  then show "length vs = ap_num_values p" using "is"(3) by simp
  note m = build_mask_Ok [OF assms(2)]
  have rle: "page_rle_ok (ap_body p) (ap_num_values p) (\<lambda>i. unat i < 2 ^ w)"
    using "is"(4) rs(1) m by (auto simp: page_rle_ok_def rle_index_ok_def list_all_iff split: dict_run.splits)
  have "map (\<lambda>i. msk ! unat i \<noteq> 0) is = map P vs" using "is"(2,3) m by (auto simp: list_all_iff)
  then show "decode_rle_dictionary_predicate_bitmap (ap_body p) (ap_num_values p) msk out = Ok (out @ pack_bits (map P vs))"
    using m rle "is"(1) assms(3) w len marks_packed [of msk out "is"] by (auto simp: dict_bitmap_iff [OF num])
qed

lemma page_probe:
  assumes "decodes_page dict w p vs" and "build_dict_predicate_mask dict w P = Ok msk" and "w < 32"
  shows "probe_page_fused (ap_body p) (ap_num_values p) msk out =
    Ok (\<lparr>pp_rows_in = length vs, pp_rows_passed = length (filter P vs)\<rparr>, out @ pack_bits (map P vs))"
proof -
  note b = page_bitmap [OF assms]
  have "ap_num_values p \<le> 8 * div_ceil (ap_num_values p) 8" unfolding div_ceil_def by linarith
  then have "popcount_bitmap_prefix (pack_bits (map P vs)) (ap_num_values p) = (Ok (length (filter P vs)) :: nat codec_result)"
    using b(2) ones_in_pack [of "map P vs"] by (simp add: popcount_prefix filter_map o_def)
  then show ?thesis by (simp add: probe_page_fused_def b)
qed

lemma filter_rows:
  assumes "n \<le> length vs" and "length vs \<le> 8 * length bm" and "\<forall>j < length vs. stream_bit bm j \<longleftrightarrow> P (vs ! j)"
  shows "fold_o (\<lambda>out row. bind_o (mask_bit bm row) (\<lambda>b.
         if b then bind_o (index_o vs row) (\<lambda>v. Ok (out @ [v])) else Ok out)) out [0..<n] = Ok (out @ filter P (take n vs) :: 'a list)"
  using assms(1)
proof (induction n)
  case (Suc n)
  then have n: "n < length vs" by simp
  then have "take (Suc n) vs = take n vs @ [vs ! n]" by (rule take_Suc_conv_app_nth)
  then show ?case using Suc n assms(2,3) by (simp add: fold_o_append mask_bit_Ok index_o_def)
qed simp

lemma page_values_filter:
  assumes "decodes_page dict w p vs" and "build_dict_predicate_mask dict w P = Ok msk" and "w < 32"
  shows "materialise_page dict msk p out = Ok (out @ filter P vs)"
proof -
  note b = page_bitmap [OF assms]
  have "ap_num_values p \<le> 8 * div_ceil (ap_num_values p) 8" unfolding div_ceil_def by linarith
  with filter_rows [of "length vs" vs "pack_bits (map P vs)" P out] b(2)
  have "fold_o (\<lambda>out row. bind_o (mask_bit (pack_bits (map P vs)) row) (\<lambda>b.
         if b then bind_o (index_o vs row) (\<lambda>v. Ok (out @ [v])) else Ok out)) out [0..<ap_num_values p] = Ok (out @ filter P vs)"
    by (simp add: stream_bit_pack)
  moreover have "decode_rle_dictionary_into (ap_body p) dict (ap_num_values p) [] = Ok vs" using assms(1) by (simp add: decodes_page_def)
  ultimately show ?thesis using b(1) [of "[]"] by (simp add: materialise_page_def materialise_filter_def)
qed

section \<open>Chunks\<close>

text \<open>The bitmap of a chunk: each page starts a byte of its own.\<close>

definition chunk_bitmap :: "('a \<Rightarrow> bool) \<Rightarrow> 'a list list \<Rightarrow> bytes" where
  "chunk_bitmap P vss = concat (map (\<lambda>vs. pack_bits (map P vs)) vss)"

lemma chunk_bitmap_simps [simp]:
  "chunk_bitmap P [] = []" "chunk_bitmap P (vs # vss) = pack_bits (map P vs) @ chunk_bitmap P vss"
  "chunk_bitmap P (vss @ uss) = chunk_bitmap P vss @ chunk_bitmap P uss"
  by (simp_all add: chunk_bitmap_def)

definition passing :: "('a \<Rightarrow> bool) \<Rightarrow> 'a list list \<Rightarrow> nat" where
  "passing P vss = length (filter P (concat vss))"

definition probed_pages :: "'a list list \<Rightarrow> ('a \<Rightarrow> bool) \<Rightarrow> page_probe" where
  "probed_pages vss P = \<lparr>pp_rows_in = length (concat vss), pp_rows_passed = passing P vss\<rparr>"

lemma passing_simps [simp]: "passing P [] = 0" "passing P (vs # vss) = length (filter P vs) + passing P vss"
  by (simp_all add: passing_def)

lemma passing_le: "passing P vss \<le> length (concat vss)"
  by (simp add: passing_def)

lemma probe_step_page:
  assumes "decodes_page dict w p vs" and msk: "build_dict_predicate_mask dict w P = Ok msk" "w < 32"
    and "a + length vs < 2 ^ 64" and "b \<le> a"
  shows "probe_step msk (bm, a, b) p = Ok (bm @ pack_bits (map P vs), a + length vs, b + length (filter P vs))"
    and "fused_step msk (bm, b) p = Ok (bm @ pack_bits (map P vs), b + length (filter P vs))"
proof -
  have "b + length (filter P vs) < 2 ^ 64" using assms(4,5) length_filter_le [of P vs] by linarith
  then show "probe_step msk (bm, a, b) p = Ok (bm @ pack_bits (map P vs), a + length vs, b + length (filter P vs))"
    "fused_step msk (bm, b) p = Ok (bm @ pack_bits (map P vs), b + length (filter P vs))"
    using page_probe [OF assms(1) msk] assms(4) by (simp_all add: probe_step_def fused_step_def add_usize_def)
qed

lemma probe_pages:
  assumes "list_all2 (decodes_page dict w) pages vss" and msk: "build_dict_predicate_mask dict w P = Ok msk" "w < 32"
    and "a + length (concat vss) < 2 ^ 64" and "b \<le> a"
  shows "fold_o (probe_step msk) (bm, a, b) pages = Ok (bm @ chunk_bitmap P vss, a + length (concat vss), b + passing P vss)"
    and "fold_o (fused_step msk) (bm, b) pages = Ok (bm @ chunk_bitmap P vss, b + passing P vss)"
proof -
  have "fold_o (probe_step msk) (bm, a, b) pages = Ok (bm @ chunk_bitmap P vss, a + length (concat vss), b + passing P vss) \<and>
    fold_o (fused_step msk) (bm, b) pages = Ok (bm @ chunk_bitmap P vss, b + passing P vss)"
    using assms(1,4,5)
  proof (induction pages vss arbitrary: bm a b rule: list_all2_induct)
    case (Cons p pages vs vss)
    have "a + length vs < 2 ^ 64" using Cons.prems(1) by simp
    note step = probe_step_page [OF Cons.hyps(1) msk this Cons.prems(2)]
    have "b + length (filter P vs) \<le> a + length vs" using Cons.prems(2) by (simp add: add_mono)
    then show ?case using Cons.IH [of "a + length vs" "b + length (filter P vs)"] Cons.prems(1) by (simp add: step)
  qed simp
  then show "fold_o (probe_step msk) (bm, a, b) pages = Ok (bm @ chunk_bitmap P vss, a + length (concat vss), b + passing P vss)"
    "fold_o (fused_step msk) (bm, b) pages = Ok (bm @ chunk_bitmap P vss, b + passing P vss)" by blast+
qed

lemma values_pages:
  "list_all2 (decodes_page dict w) pages vss \<Longrightarrow> build_dict_predicate_mask dict w P = Ok msk \<Longrightarrow> w < 32 \<Longrightarrow>
    fold_o (\<lambda>out page. materialise_page dict msk page out) out pages = Ok (out @ filter P (concat vss))"
  by (induction pages vss arbitrary: out rule: list_all2_induct) (simp_all add: page_values_filter)

lemma sum_pages:
  "list_all2 (decodes_page dict w) pages vss \<Longrightarrow> build_dict_predicate_mask dict w P = Ok msk \<Longrightarrow> w < 32 \<Longrightarrow> a + length (concat vss) < 2 ^ 64 \<Longrightarrow>
    fold_o add_usize a (map ap_num_values pages) = (Ok (a + length (concat vss)) :: nat codec_result)"
proof (induction pages vss arbitrary: a rule: list_all2_induct)
  case (Cons p pages vs vss)
  then show ?case using page_bitmap(2) [OF Cons.hyps(1) Cons.prems(1,2)] by (simp add: add_usize_def)
qed simp

lemma adaptive_chunk:
  assumes pages: "list_all2 (decodes_page dict w) pages vss" and msk: "build_dict_predicate_mask dict w P = Ok msk" "w < 32"
    and rows: "length (concat vss) < 2 ^ 64" and cfg: "ad_dict_mask cfg = msk"
    and dsp: "dsp = (if concat vss = [] then Fused else dispatch_for cfg (probed_pages (take (ad_probe_pages cfg) vss) P))"
  shows "run_adaptive_dict_chunk pages dict cfg = Ok \<lparr>ac_dispatch = dsp, ac_total_rows = length (concat vss),
    ac_kind = (case dsp of Fused \<Rightarrow> Bitmap (chunk_bitmap P vss) (passing P vss) | Materialized \<Rightarrow> Values (filter P (concat vss)))\<rparr>"
proof -
  have sum: "sum_usize (map ap_num_values pages) = (Ok (length (concat vss)) :: nat codec_result)"
    using sum_pages [OF pages msk, of 0] rows by (simp add: sum_usize_def)
  show ?thesis
  proof (cases "concat vss = []")
    case True
    then have "\<forall>vs \<in> set vss. vs = []" by simp
    then have "chunk_bitmap P vss = []" by (induction vss) (simp_all add: pack_bits_def div_ceil_def)
    moreover have "passing P vss = 0" using True by (simp only: passing_def) simp
    ultimately show ?thesis using True sum dsp by (simp add: run_adaptive_dict_chunk_def run_adaptive_def)
  next
    case False
    let ?k = "min (ad_probe_pages cfg) (length pages)"
    have len: "length pages = length vss" using pages by (rule list_all2_lengthD)
    have take: "take ?k vss = take (ad_probe_pages cfg) vss" by (cases "ad_probe_pages cfg \<le> length vss") (simp_all add: len)
    have "length (concat vss) = length (concat (take ?k vss)) + length (concat (drop ?k vss))"
      by (metis append_take_drop_id concat_append length_append)
    then have small: "length (concat (take ?k vss)) < 2 ^ 64" "passing P (take ?k vss) + length (concat (drop ?k vss)) < 2 ^ 64"
      using rows passing_le [of P "take ?k vss"] by linarith+
    have parts: "list_all2 (decodes_page dict w) (take ?k pages) (take ?k vss)" "list_all2 (decodes_page dict w) (drop ?k pages) (drop ?k vss)"
      using pages by (simp_all add: list_all2_takeI list_all2_dropI)
    have probe: "run_probe pages cfg = Ok (chunk_bitmap P (take ?k vss), length (concat (take ?k vss)), passing P (take ?k vss), dsp)"
      using probe_pages(1) [OF parts(1) msk, of 0 0 "[]"] small(1) False dsp
      by (simp add: run_probe_def cfg probed_pages_def take del: concat_eq_Nil_conv)
    have joined: "chunk_bitmap P (take ?k vss) @ chunk_bitmap P (drop ?k vss) = chunk_bitmap P vss"
      "passing P (take ?k vss) + passing P (drop ?k vss) = passing P vss"
      unfolding passing_def by (metis append_take_drop_id chunk_bitmap_simps(3), metis append_take_drop_id concat_append filter_append length_append)
    show ?thesis
    proof (cases dsp)
      case Fused
      then show ?thesis using False sum probe probe_pages(2) [OF parts(2) msk small(2) le_refl] joined
        by (simp add: run_adaptive_dict_chunk_def run_adaptive_def cfg del: concat_eq_Nil_conv)
    next
      case Materialized
      then show ?thesis using False sum probe values_pages [OF pages msk, of "[]"]
        by (simp add: run_adaptive_dict_chunk_def run_adaptive_def cfg del: concat_eq_Nil_conv)
    qed
  qed
qed

text \<open>Where every page but the last has a multiple of 8 rows, the bits are the rows of the chunk.\<close>

lemma chunk_bitmap_aligned:
  assumes "\<forall>vs \<in> set (butlast vss). 8 dvd length vs"
  shows "stream_bit (chunk_bitmap P vss) r \<longleftrightarrow> r < length (concat vss) \<and> P (concat vss ! r)"
  using assms
proof (induction vss arbitrary: r)
  case (Cons vs vss)
  show ?case
  proof (cases "vss = []")
    case True
    then show ?thesis by (auto simp: stream_bit_pack)
  next
    case False
    then have d: "8 dvd length vs" "\<forall>vs \<in> set (butlast vss). 8 dvd length vs" using Cons.prems by simp_all
    then have l: "8 * length (pack_bits (map P vs)) = length vs" by (auto simp: div_ceil_def)
    show ?thesis unfolding chunk_bitmap_simps stream_bit_append l Cons.IH [OF d(2)] stream_bit_pack
      by (cases "r < length vs") (auto simp: nth_append)
  qed
qed (simp add: stream_bit_def)

section \<open>Written tables\<close>

text \<open>The adaptive readers over written tables.\<close>

section \<open>Widths\<close>

lemma dict_width:
  assumes "(min_bit_width_for_dict n :: nat codec_result) = Ok w" and "n < 2 ^ 31"
  shows "w < 32" and "w = 0 \<longleftrightarrow> n \<le> 1" and "n \<le> 2 ^ w"
proof -
  have "w < 32 \<and> (w = 0 \<longleftrightarrow> n \<le> 1) \<and> n \<le> 2 ^ w"
  proof (cases "n \<le> 1")
    case True
    then show ?thesis using assms(1) by (simp add: min_bit_width_for_dict_def le_Suc_eq)
  next
    case False
    then obtain w' where w': "(min_bit_width_for_dict n :: nat codec_result) = Ok w'" "n \<le> 2 ^ w'" "2 ^ (w' - 1) < n"
      using min_bit_width_for_dict_bounds [of n] assms(2) by auto
    then have "w' = w" using assms(1) by simp
    have "(2 :: nat) ^ (w' - 1) < 2 ^ 31" using w'(3) assms(2) by linarith
    then have "w' - 1 < 31" by (rule power_less_imp_less_exp [rotated]) simp
    moreover have "w' \<noteq> 0" using False w'(2) by (cases w') auto
    ultimately show ?thesis using w' False \<open>w' = w\<close> by simp
  qed
  then show "w < 32" "w = 0 \<longleftrightarrow> n \<le> 1" "n \<le> 2 ^ w" by blast+
qed

lemma predicate_mask_exists:
  assumes "1 \<le> w" and "w \<le> 32" and "length dict \<le> 2 ^ w"
  shows "\<exists>msk. build_dict_predicate_mask dict w P = Ok msk"
  using build_mask_fold [of 0 dict "replicate (2 ^ w) 0" P] assms by (auto simp: build_dict_predicate_mask_def)

section \<open>Pulling the pages of a chunk\<close>

abbreviation pull_step :: "codecs \<Rightarrow> chunk_info \<Rightarrow> (bytes \<Rightarrow> 'a list codec_result) \<Rightarrow> 'a list option pulled \<Rightarrow> page_header \<Rightarrow> bytes \<Rightarrow> (bool \<times> 'a list option pulled) codec_result" where
  "pull_step ext ck dec \<equiv> pull_page ext ck ''adaptive read'' ''read_column_*_masked_into''
     (\<lambda>decomp _. bind_o (dec decomp) (\<lambda>d. Ok (Some d))) (\<lambda>d. d \<noteq> None)"

definition no_dictionary :: codec_error where
  "no_dictionary = InvalidInput ''adaptive read: data page before dictionary (column has no DictionaryPage)''"

context plain_values begin

lemma pull_plain:
  assumes "plain_chunk ext cdc (enc vs) (length vs) [(h, c)]"
  shows "pull_step ext ck dec (None, [], 0, 0) h c = Err no_dictionary"
proof -
  have "ph_page_type h = PG_DataPage \<or> ph_page_type h = PG_DataPageV2"
    using assms by (auto simp: plain_chunk_def v1_page_header_def v2_page_header_def)
  then show ?thesis by (auto simp: pull_page_def adaptive_data_page_def no_dictionary_def)
qed

lemma pull_dict_page:
  assumes "flat_chunk ck cdc" and "body_in ext cdc (enc ds) c" and "ok ds"
  shows "pull_step ext ck dec (None, [], 0, 0) (dict_page_header (length (enc ds)) n m) c = Ok (0 < ck_total_values ck, (Some ds, [], 0, 0))"
proof -
  have "page_uncompressed_size (dict_page_header (length (enc ds)) n m) = Ok (length (enc ds))"
    using assms(2) by (intro page_uncompressed_size_of_nat) (simp_all add: dict_page_header_def body_in_def)
  then show ?thesis using assms dec_enc
    by (simp add: pull_page_def dict_page_header_def flat_chunk_def body_in_def)
qed

lemma pull_index_page:
  assumes "flat_chunk ck cdc" and "body_in ext cdc ibody c" and "n < 2 ^ 31" and "ibody \<noteq> []" and "ck_total_values ck = n"
  shows "pull_step ext ck dec (Some ds, [], 0, 0) (v1_page_header E_PlainDictionary (length ibody) m n st) c
    = Ok (False, (Some ds, [\<lparr>ap_body = ibody, ap_num_values = n\<rparr>], n, unat (hd ibody)))"
proof -
  note view = view_v1 [OF assms(1,2,3), of E_PlainDictionary m st]
  have "ph_page_type (v1_page_header E_PlainDictionary (length ibody) m n st) = PG_DataPage" by (simp add: v1_page_header_def)
  then show ?thesis using assms(3-5) view by (simp add: pull_page_def adaptive_data_page_def add_usize_def)
qed

end

text \<open>What the readers give for the values \<open>vs\<close> of one page.\<close>

definition adaptive_answer :: "('a \<Rightarrow> bool) \<Rightarrow> 'a list \<Rightarrow> 'a adaptive_output \<Rightarrow> bool" where
  "adaptive_answer P vs out \<longleftrightarrow> ac_total_rows out = length vs \<and>
     (case ac_kind out of
        Bitmap bm n \<Rightarrow> n = length (filter P vs) \<and> (\<forall>r. stream_bit bm r \<longleftrightarrow> r < length vs \<and> P (vs ! r))
      | Values us \<Rightarrow> us = filter P vs)"

definition adaptive_outcome :: "('a \<Rightarrow> bool) \<Rightarrow> 'a list \<Rightarrow> 'a adaptive_output codec_result \<Rightarrow> bool" where
  "adaptive_outcome P vs r \<longleftrightarrow> r = Err no_dictionary \<or>
     (if card (set vs) \<le> 1 then r = Err (BitWidthOutOfRange 0) else \<exists>out. r = Ok out \<and> adaptive_answer P vs out)"

lemma dict_of_card: "dict_of vs d ixs \<Longrightarrow> length d = card (set vs)"
proof -
  assume d: "dict_of vs d ixs"
  then have "set vs \<subseteq> set d" unfolding dict_of_def by (metis (no_types, lifting) image_subsetI list.set_map nth_mem)
  with d show "length d = card (set vs)" unfolding dict_of_def by (metis distinct_card subset_antisym)
qed

context written_values begin

lemma read_adaptive:
  assumes "codecs_sound ext" and "fetched ext pf g i (con vs)"
  shows "adaptive_outcome P vs (run_facade ext pf g i P opts dec)"
proof -
  from assms(2) obtain cdc ps ck where f: "written_pages ext cdc (length vs) (con vs) ps" "read_chunk_raw pf g i = Ok ck"
    "flat_chunk ck cdc" "ck_total_values ck = length vs" "ck_bytes ck = chunk_bytes ps" "list_all page_ok ps" "slice_fits (con vs)"
    by (auto simp: fetched_def rows_con)
  have small: "length vs < 2 ^ 31" by (rule fetched_size [OF assms(2)])
  have pull: "pull_dict_chunk ext pf g i dec = bind_o (run_pages (pull_step ext ck dec) (None, [], 0, 0) ps)
      (\<lambda>(dict_decoded, pages, rows, bit_width).
       bind_o (ok_or (InvalidInput ''adaptive read: column chunk has no DictionaryPage'') dict_decoded) (\<lambda>dict. Ok (dict, pages, bit_width)))"
    by (simp add: pull_dict_chunk_def f(2,5) walk_chunk [OF f(6)])
  from f(1) consider "written_plain ext cdc (length vs) (con vs) ps" | "written_dict ext cdc (length vs) (con vs) ps"
    unfolding written_pages_def by blast
  then show ?thesis
  proof cases
    case 1
    have "length (enc vs) < 2 ^ 31" using f(7) size_con [of vs] by (simp add: slice_fits_def)
    then obtain h c where "ps = [(h, c)]" "plain_chunk ext cdc (enc vs) (length vs) [(h, c)]"
      using 1 body_in_written [OF assms(1), of "enc vs"] unfolding written_plain_def plain_chunk_def plain_con by fastforce
    then show ?thesis using pull_plain by (simp add: run_facade_def pull adaptive_outcome_def)
  next
    case 2
    obtain d ixs w packed where d: "dict_of vs d ixs" "(min_bit_width_for_dict (length d) :: nat codec_result) = Ok w"
      "index_body (of_nat w # packed) ixs (length d)" "dict_chunk ext cdc (enc d) (length d) (of_nat w # packed) (length vs) ps"
      using written_dict_pages [OF 2 f(7) assms(1)] by metis
    let ?ibody = "of_nat w # packed :: bytes"
    from d(4) obtain dc ic st where ps: "ps = [(dict_page_header (length (enc d)) (length dc) (length d), dc),
        (v1_page_header E_PlainDictionary (length ?ibody) (length ic) (length vs) st, ic)]"
      "body_in ext cdc (enc d) dc" "body_in ext cdc ?ibody ic" unfolding dict_chunk_def by blast
    have sub: "length d \<le> length vs" "set d \<subseteq> set vs" "length ixs = length vs" "map (\<lambda>i. d ! unat i) ixs = vs"
      using d(1) by (simp_all add: dict_of_def)
    then have "length d < 2 ^ 31" using small by simp
    note width = dict_width [OF d(2) this]
    have w: "unat (of_nat w :: u8) = w" using width(1) by (simp add: unsigned_of_nat take_bit_nat_eq_self)
    note page1 = pull_dict_page [OF f(3) ps(2) ok_subset [OF ok_con [OF f(7)] sub(2)]]
    have page2: "pull_step ext ck dec (Some d, [], 0, 0) (v1_page_header E_PlainDictionary (length ?ibody) (length ic) (length vs) st) ic
      = Ok (False, (Some d, [\<lparr>ap_body = ?ibody, ap_num_values = length vs\<rparr>], length vs, w))"
      using pull_index_page [OF f(3) ps(3) small _ f(4)] w by simp
    note card = dict_of_card [OF d(1)]
    show ?thesis
    proof (cases "length d \<le> 1")
      case True
      then have "w = 0" using width(2) by simp
      then have "\<exists>ds pages. pull_dict_chunk ext pf g i dec = Ok (ds, pages, 0)"
        using page1 page2 f(4) by (simp add: pull ps(1) ok_or_def)
      then show ?thesis using True card by (auto simp: run_facade_def adaptive_outcome_def build_dict_predicate_mask_def)
    next
      case False
      then have "vs \<noteq> []" using sub(1) by auto
      then have pulled: "pull_dict_chunk ext pf g i dec = Ok (d, [\<lparr>ap_body = ?ibody, ap_num_values = length vs\<rparr>], w)"
        using page1 page2 f(4) by (simp add: pull ps(1) ok_or_def)
      have "1 \<le> w" using False width(2) by simp
      then obtain msk where msk: "build_dict_predicate_mask d w P = Ok msk"
        using predicate_mask_exists [of w d P] width by auto
      have "decode_rle_dictionary_into ?ibody d (length vs) [] = Ok vs"
        using decodes_index_fused [unfolded decodes_index_def, rule_format, OF _ d(3), of "[]"] sub(3,4) small by simp
      then have page: "decodes_page d w \<lparr>ap_body = ?ibody, ap_num_values = length vs\<rparr> vs"
        using small w by (simp add: decodes_page_def)
      let ?cfg = "\<lparr>ad_dict_mask = msk, ad_threshold = ao_threshold opts, ad_probe_pages = ao_probe_pages opts\<rparr>"
      from adaptive_chunk [of d w "[\<lparr>ap_body = ?ibody, ap_num_values = length vs\<rparr>]" "[vs]" P msk ?cfg, OF _ msk width(1) _ _ refl] page small
      obtain out where out: "run_adaptive_dict_chunk [\<lparr>ap_body = ?ibody, ap_num_values = length vs\<rparr>] d ?cfg = Ok out"
        "ac_total_rows out = length vs"
        "ac_kind out = Bitmap (pack_bits (map P vs)) (length (filter P vs)) \<or> ac_kind out = Values (filter P vs)"
        by (auto split: dispatch.splits)
      then have "adaptive_answer P vs out" by (auto simp: adaptive_answer_def stream_bit_pack)
      then show ?thesis using False card out(1) by (simp add: run_facade_def pulled msk adaptive_outcome_def)
    qed
  qed
qed

end

section \<open>The properties\<close>

text \<open>The properties of the adaptive predicate, over pages in memory and over written tables.\<close>

text \<open>C10. The adaptive runner filters the chunk, whatever it decides: after probing the first pages it gives either
  the packed results of the predicate, page after page, with their count, or exactly the values that satisfy it, in
  order; the decision is the one for the rows of the probed pages.  Each page of the bitmap starts a byte of its own, so
  bit \<open>r\<close> of it is row \<open>r\<close> of the chunk only when the pages before have multiples of 8 rows.\<close>

theorem adaptive_chunk_filters:
  assumes "list_all2 (decodes_page dict w) pages vss" and "build_dict_predicate_mask dict w P = Ok (ad_dict_mask cfg)" and "w < 32"
    and "length (concat vss) < 2 ^ 64"
  shows "\<exists>dsp. run_adaptive_dict_chunk pages dict cfg = Ok \<lparr>ac_dispatch = dsp, ac_total_rows = length (concat vss),
      ac_kind = (case dsp of Fused \<Rightarrow> Bitmap (chunk_bitmap P vss) (passing P vss) | Materialized \<Rightarrow> Values (filter P (concat vss)))\<rparr> \<and>
    dsp = (if concat vss = [] then Fused else dispatch_for cfg (probed_pages (take (ad_probe_pages cfg) vss) P)) \<and>
    ((\<forall>vs \<in> set (butlast vss). 8 dvd length vs) \<longrightarrow>
       (\<forall>r. stream_bit (chunk_bitmap P vss) r \<longleftrightarrow> r < length (concat vss) \<and> P (concat vss ! r)))"
proof -
  let ?dsp = "if concat vss = [] then Fused else dispatch_for cfg (probed_pages (take (ad_probe_pages cfg) vss) P)"
  have "run_adaptive_dict_chunk pages dict cfg = Ok \<lparr>ac_dispatch = ?dsp, ac_total_rows = length (concat vss),
      ac_kind = (case ?dsp of Fused \<Rightarrow> Bitmap (chunk_bitmap P vss) (passing P vss) | Materialized \<Rightarrow> Values (filter P (concat vss)))\<rparr>"
    by (rule adaptive_chunk [OF assms(1-4) refl refl])
  then show ?thesis using chunk_bitmap_aligned by blast
qed

text \<open>Two pages of four rows: the rows of the second page are at bits 8 to 11, not at 4 to 7.\<close>

lemma adaptive_chunk_filters_witness:
  "run_adaptive_dict_chunk [\<lparr>ap_body = [2, 4, 1, 4, 3], ap_num_values = 4\<rparr>, \<lparr>ap_body = [2, 4, 1, 4, 3], ap_num_values = 4\<rparr>]
     [3, 5, 7, 9 :: nat] \<lparr>ad_dict_mask = [0, 1, 1, 0], ad_threshold = 0x3F800000, ad_probe_pages = 1\<rparr>
   = Ok \<lparr>ac_dispatch = Fused, ac_total_rows = 8, ac_kind = Bitmap [3, 3] 4\<rparr>"
proof -
  let ?p = "\<lparr>ap_body = [2, 4, 1, 4, 3], ap_num_values = 4\<rparr>" and ?P = "\<lambda>v :: nat. 3 < v \<and> v < 9"
  let ?cfg = "\<lparr>ad_dict_mask = [0, 1, 1, 0], ad_threshold = 0x3F800000, ad_probe_pages = 1\<rparr>"
  have "decode_rle_dictionary_into [2, 4, 1, 4, 3] [3, 5, 7, 9 :: nat] 4 [] = Ok [5, 5, 9, 9]" by code_simp
  then have "list_all2 (decodes_page [3, 5, 7, 9 :: nat] 2) [?p, ?p] [[5, 5, 9, 9], [5, 5, 9, 9]]" by (simp add: decodes_page_def)
  moreover have "build_dict_predicate_mask [3, 5, 7, 9] 2 ?P = Ok (ad_dict_mask ?cfg)" by code_simp
  moreover have "dispatch_for ?cfg (probed_pages (take (ad_probe_pages ?cfg) [[5, 5, 9, 9], [5, 5, 9, 9]]) ?P) = Fused" by code_simp
  moreover have "chunk_bitmap ?P [[5, 5, 9, 9], [5, 5, 9, 9]] = [3, 3]" "passing ?P [[5, 5, 9, 9], [5, 5, 9, 9]] = 4" by code_simp+
  ultimately show ?thesis
    using adaptive_chunk_filters [of "[3, 5, 7, 9]" 2 "[?p, ?p]" "[[5, 5, 9, 9], [5, 5, 9, 9]]" ?P ?cfg] by simp
qed

section \<open>Tables\<close>




end
