(* ===== verification/ReadDict.thy ===== *)
theory ReadDict
  imports Adaptive
begin

text \<open>
  Readers of \<open>read.rs\<close> for byte arrays and the rare types: columns that keep their dictionary, byte arrays as
  concatenated bytes with end offsets, fixed-length byte arrays and INT96.
\<close>

section \<open>Columns that keep their dictionary\<close>

record 'i dict_preserved =
  dk_dict_bytes :: bytes
  dk_dict_offsets :: "u32 list"
  dk_indices :: "'i list"

definition page_indices :: "string \<Rightarrow> data_page_info \<Rightarrow>
   (bytes \<Rightarrow> nat \<Rightarrow> 'i list \<Rightarrow> 'i list codec_result) \<Rightarrow> 'i list \<Rightarrow> 'i list codec_result" where
  "page_indices what info decode_indices indices =
     (case dp_encoding info of
        E_RleDictionary \<Rightarrow> decode_indices (dp_values info) (dp_num_values info) indices
      | E_PlainDictionary \<Rightarrow> decode_indices (dp_values info) (dp_num_values info) indices
      | E_Plain \<Rightarrow> Err (InvalidInput (what @ '': data page is PLAIN-encoded (writer fell back from dict '' @ em_dash @
            '' chunk cannot be expressed as one dict + indices)''))
      | other \<Rightarrow> Err (Unsupported (what @ '': data page encoding not supported: '' @ encoding_name other)))"

text \<open>One page; \<open>max_entries\<close> bounds the dictionary of the reader with 8-bit indices.\<close>

definition preserved_page ::
  "codecs \<Rightarrow> chunk_info \<Rightarrow> string \<Rightarrow> nat option \<Rightarrow> (bytes \<Rightarrow> nat \<Rightarrow> 'i::len word list \<Rightarrow> 'i word list codec_result) \<Rightarrow>
   (bytes \<times> u32 list) \<times> 'i word list \<times> bool \<Rightarrow> page_header \<Rightarrow> bytes \<Rightarrow>
   (bool \<times> (bytes \<times> u32 list) \<times> 'i word list \<times> bool) codec_result" where
  "preserved_page ext ck what max_entries decode_indices s hdr body =
     (case s of (d, indices, have_dict) \<Rightarrow>
      bind_o (case ph_page_type hdr of
          PG_DictionaryPage \<Rightarrow>
            bind_o (page_uncompressed_size hdr) (\<lambda>n.
            bind_o (decompress_into ext (ck_codec ck) body n) (\<lambda>decomp.
            bind_o (decode_plain_byte_array decomp) (\<lambda>entries.
            bind_o (case max_entries of
                Some m \<Rightarrow> if length entries > m
                  then Err (InvalidInput (what @ '': dictionary has '' @ decimal (length entries) @ '' entries (> '' @ decimal m @ ''); use the u32 variant''))
                  else Ok ()
              | None \<Rightarrow> Ok ()) (\<lambda>_.
            bind_o (push_entries dict_bytes_full entries d) (\<lambda>d. Ok (d, indices, True))))))
        | PG_IndexPage \<Rightarrow> Ok s
        | _ \<Rightarrow>
            if \<not> have_dict then Err (InvalidInput (what @ '': data page before dictionary (column has no DictionaryPage)''))
            else bind_o (data_page_view ext ck hdr body) (\<lambda>info.
              bind_o (page_indices what info decode_indices indices) (\<lambda>indices'.
              let dict_len = length (snd d) - 1
              in case List.find (\<lambda>i. unat i \<ge> dict_len) (drop (length indices) indices') of
                   Some bad \<Rightarrow> Err (InvalidInput (''dictionary index '' @ decimal (unat bad) @ '' out of range (dict_len = '' @ decimal dict_len @ '')''))
                 | None \<Rightarrow> Ok (d, indices', have_dict))))
        (\<lambda>s'. Ok (length (fst (snd s')) < ck_total_values ck, s')))"

definition read_dict_preserved ::
  "codecs \<Rightarrow> parquet_file \<Rightarrow> nat \<Rightarrow> nat \<Rightarrow> string \<Rightarrow> nat option \<Rightarrow>
   (bytes \<Rightarrow> nat \<Rightarrow> 'i::len word list \<Rightarrow> 'i word list codec_result) \<Rightarrow> 'i word dict_preserved codec_result" where
  "read_dict_preserved ext file rg column what max_entries decode_indices =
     bind_o (read_chunk_raw file rg column) (\<lambda>ck.
     bind_o (walk_pages (preserved_page ext ck what max_entries decode_indices) (page_walker_new (ck_bytes ck)) (([], [0]), [], False))
       (\<lambda>((dict_bytes, dict_offsets), indices, have_dict).
     if \<not> have_dict then Err (InvalidInput (what @ '': column chunk has no DictionaryPage''))
     else Ok \<lparr>dk_dict_bytes = dict_bytes, dk_dict_offsets = dict_offsets, dk_indices = indices\<rparr>))"

definition read_column_byte_array_dict_preserved ::
  "codecs \<Rightarrow> parquet_file \<Rightarrow> nat \<Rightarrow> nat \<Rightarrow> u32 dict_preserved codec_result" where
  "read_column_byte_array_dict_preserved ext file rg column =
     read_dict_preserved ext file rg column ''dict-preserved read'' None decode_rle_dictionary_indices_into"

definition read_column_byte_array_dict_preserved_u8 ::
  "codecs \<Rightarrow> parquet_file \<Rightarrow> nat \<Rightarrow> nat \<Rightarrow> u8 dict_preserved codec_result" where
  "read_column_byte_array_dict_preserved_u8 ext file rg column =
     read_dict_preserved ext file rg column ''dict-preserved u8 read'' (Some 256) decode_rle_dictionary_indices_u8_into"

section \<open>Byte arrays as bytes and offsets\<close>

definition add_overflow :: "'a codec_result" where
  "add_overflow = Panic ''attempt to add with overflow''"

text \<open>The PLAIN body, walked without an intermediate vector.\<close>

function offsets_plain_loop ::
  "bytes \<Rightarrow> nat \<Rightarrow> nat \<Rightarrow> nat \<Rightarrow> u32 \<Rightarrow> bytes \<times> u32 list \<Rightarrow> (bytes \<times> u32 list) codec_result" where
  "offsets_plain_loop body cap_target i emitted acc out =
     (if i < length body \<and> emitted < cap_target then
        if i + 4 > length body then Err (InvalidInput ''PLAIN byte_array: truncated length prefix'')
        else let len = unat (from_le_bytes (take 4 (drop i body)) :: u32); i' = i + 4
        in if i' + len > length body then Err (InvalidInput ''PLAIN byte_array: value runs past page end'')
        else if unat acc + len < 2 ^ 32
          then let acc' = acc + of_nat len
               in offsets_plain_loop body cap_target (i' + len) (emitted + 1) acc'
                    (fst out @ take len (drop i' body), snd out @ [acc'])
          else add_overflow
      else Ok out)"
  by pat_completeness auto
termination
  by (relation "measure (\<lambda>(body, cap, i, emitted, acc, out). length body - i)") auto

declare offsets_plain_loop.simps [simp del]

definition last_offset :: "u32 list \<Rightarrow> u32 codec_result" where
  "last_offset offsets = (if offsets = [] then Panic ''called `Option::unwrap()` on a `None` value'' else Ok (last offsets))"

text \<open>The pass over the indices that checks them and adds up the bytes they need.\<close>

definition bytes_needed :: "u32 list \<Rightarrow> u32 list \<Rightarrow> nat codec_result" where
  "bytes_needed dict_offsets indices =
     fold_o (\<lambda>needed idx.
         if unat idx \<ge> length dict_offsets - 1 then Err (InvalidInput ''dictionary index out of range'')
         else bind_o (index_o dict_offsets (unat idx)) (\<lambda>start.
              bind_o (index_o dict_offsets (unat idx + 1)) (\<lambda>end.
              if unat end < unat start then Panic ''attempt to subtract with overflow''
              else add_usize needed (unat end - unat start))))
       0 indices"

text \<open>The unchecked copies; \<open>Stuck\<close> is an access outside a buffer.\<close>

definition copy_entry ::
  "bytes \<Rightarrow> u32 list \<Rightarrow> u32 \<times> bytes \<times> u32 list \<Rightarrow> u32 \<Rightarrow> (u32 \<times> bytes \<times> u32 list) codec_result" where
  "copy_entry dict_bytes dict_offsets s idx =
     (case s of (acc, out_bytes, out_offsets) \<Rightarrow>
      bind_o (get_unchecked dict_offsets (unat idx)) (\<lambda>start.
      bind_o (get_unchecked dict_offsets (unat idx + 1)) (\<lambda>end.
      if unat end < unat start then Panic ''attempt to subtract with overflow''
      else let len = unat end - unat start
      in if unat start + len > length dict_bytes then Stuck
      else if unat acc + len < 2 ^ 32
        then Ok (acc + of_nat len, out_bytes @ take len (drop (unat start) dict_bytes), out_offsets @ [acc + of_nat len])
        else add_overflow)))"

definition offsets_dict_page ::
  "bytes \<times> u32 list \<Rightarrow> bytes \<Rightarrow> nat \<Rightarrow> bytes \<times> u32 list \<Rightarrow> (bytes \<times> u32 list) codec_result" where
  "offsets_dict_page d vals num_values out =
     (if length (snd d) < 2 then Err dict_before_data
      else bind_o (decode_rle_dictionary_indices vals num_values) (\<lambda>indices.
        bind_o (bytes_needed (snd d) indices) (\<lambda>needed.
        bind_o (last_offset (snd out)) (\<lambda>acc.
        bind_o (fold_o (copy_entry (fst d) (snd d)) (acc, out) indices) (\<lambda>(acc, out). Ok out)))))"

definition offsets_page ::
  "codecs \<Rightarrow> chunk_info \<Rightarrow> (bytes \<times> u32 list) \<times> (bytes \<times> u32 list) \<Rightarrow> page_header \<Rightarrow> bytes \<Rightarrow>
   (bool \<times> (bytes \<times> u32 list) \<times> (bytes \<times> u32 list)) codec_result" where
  "offsets_page ext ck s hdr body =
     (case s of (d, out) \<Rightarrow>
      bind_o (case ph_page_type hdr of
          PG_DictionaryPage \<Rightarrow>
            bind_o (page_uncompressed_size hdr) (\<lambda>n.
            bind_o (decompress_into ext (ck_codec ck) body n) (\<lambda>decomp.
            bind_o (decode_plain_byte_array decomp) (\<lambda>entries.
            bind_o (push_entries add_overflow entries ([], [0])) (\<lambda>d. Ok (d, out)))))
        | PG_IndexPage \<Rightarrow> Ok s
        | _ \<Rightarrow>
            bind_o (data_page_view ext ck hdr body) (\<lambda>info.
            bind_o (case dp_encoding info of
                E_Plain \<Rightarrow> bind_o (last_offset (snd out)) (\<lambda>acc.
                  offsets_plain_loop (dp_values info) (dp_num_values info) 0 0 acc out)
              | E_RleDictionary \<Rightarrow> offsets_dict_page d (dp_values info) (dp_num_values info) out
              | E_PlainDictionary \<Rightarrow> offsets_dict_page d (dp_values info) (dp_num_values info) out
              | other \<Rightarrow> Err (unknown_encoding other)) (\<lambda>out. Ok (d, out))))
        (\<lambda>s'. Ok (length (snd (snd s')) \<le> ck_total_values ck, s')))"

definition read_column_byte_array_offsets ::
  "codecs \<Rightarrow> parquet_file \<Rightarrow> nat \<Rightarrow> nat \<Rightarrow> (bytes \<times> u32 list) codec_result" where
  "read_column_byte_array_offsets ext file rg column =
     bind_o (read_chunk_raw file rg column) (\<lambda>ck.
     bind_o (walk_pages (offsets_page ext ck) (page_walker_new (ck_bytes ck)) (([], [0]), ([], [0]))) (\<lambda>(d, out). Ok out))"

section \<open>Fixed-length byte arrays and INT96\<close>

fun type_length_walk :: "schema_element list \<Rightarrow> nat \<Rightarrow> nat \<Rightarrow> i32 codec_result" where
  "type_length_walk [] column leaf_seen = Err (InvalidInput (''column '' @ decimal column @ '' not found in schema''))"
| "type_length_walk (se # ses) column leaf_seen =
     (if se_column_type se \<noteq> None
      then if leaf_seen = column
           then ok_or (InvalidInput ''FIXED_LEN_BYTE_ARRAY column missing type_length'') (se_type_length se)
           else type_length_walk ses column (leaf_seen + 1)
      else type_length_walk ses column leaf_seen)"

definition type_length_for :: "parquet_file \<Rightarrow> nat \<Rightarrow> i32 codec_result" where
  "type_length_for file column =
     bind_o (map_err io_to_codec (file_metadata_of file)) (\<lambda>md. type_length_walk (fm_schema md) column 0)"

definition read_column_flba :: "codecs \<Rightarrow> parquet_file \<Rightarrow> nat \<Rightarrow> nat \<Rightarrow> bytes list codec_result" where
  "read_column_flba ext file rg column =
     bind_o (read_chunk_raw file rg column) (\<lambda>ck.
     bind_o (type_length_for file column) (\<lambda>type_length.
     bind_o (walk_pages (\<lambda>s hdr body.
         bind_o (dense_page ext ck (\<lambda>bytes. decode_plain_fixed_len_byte_array bytes type_length) gather_byte_arrays s hdr body) (\<lambda>(dict, out).
         Ok (length out < ck_total_values ck, (dict, out))))
       (page_walker_new (ck_bytes ck)) ([], [])) (\<lambda>(dict, out). Ok out)))"

definition read_column_int96 :: "codecs \<Rightarrow> parquet_file \<Rightarrow> nat \<Rightarrow> nat \<Rightarrow> int96 list codec_result" where
  "read_column_int96 ext file rg column = decode_chunk_into ext file rg column decode_plain_int96"

end
