(* ===== verification/OffsetProofs.thy ===== *)
theory OffsetProofs
  imports ReadDict AdaptiveProofs TableRoundtrip WideSample
begin

text \<open>
  Byte arrays as one buffer with end offsets: the readers that give this form give the flattening of the column,
  and the readers that keep the dictionary give a dictionary and indices that look the column up.
\<close>

section \<open>Flattened byte arrays\<close>

fun ends :: "nat \<Rightarrow> bytes list \<Rightarrow> u32 list" where
  "ends a [] = []"
| "ends a (v # vs) = of_nat (a + length v) # ends (a + length v) vs"

definition flatten :: "bytes list \<Rightarrow> bytes \<times> u32 list" where
  "flatten vs = (concat vs, 0 # ends 0 vs)"

lemma length_ends [simp]: "length (ends a vs) = length vs"
  by (induction vs arbitrary: a) simp_all

lemma ends_append: "ends a (us @ vs) = ends a us @ ends (a + length (concat us)) vs"
  by (induction us arbitrary: a) (simp_all add: add.assoc)

lemma nth_ends: "i \<le> length vs \<Longrightarrow> (of_nat a # ends a vs) ! i = of_nat (a + length (concat (take i vs)))"
proof (induction vs arbitrary: a i)
  case (Cons v vs)
  then show ?case by (cases i) (auto simp add: add.assoc simp del: of_nat_add)
qed simp

lemma length_concat_take: "length (concat (take i vs)) \<le> length (concat vs)"
  by (metis append_take_drop_id concat_append le_add1 length_append)

lemma concat_entry:
  assumes "i < length vs"
  shows "take (length (vs ! i)) (drop (length (concat (take i vs))) (concat vs)) = vs ! i"
    and "length (concat (take (Suc i) vs)) = length (concat (take i vs)) + length (vs ! i)"
proof -
  have "concat vs = concat (take i vs) @ vs ! i @ concat (drop (Suc i) vs)"
    by (metis assms concat.simps(2) concat_append id_take_nth_drop)
  then show "take (length (vs ! i)) (drop (length (concat (take i vs))) (concat vs)) = vs ! i" by simp
  show "length (concat (take (Suc i) vs)) = length (concat (take i vs)) + length (vs ! i)"
    using assms by (simp add: take_Suc_conv_app_nth)
qed

lemma unat_small_u32: "n < 2 ^ 32 \<Longrightarrow> unat (of_nat n :: u32) = n"
  by (simp add: unsigned_of_nat take_bit_nat_eq_self)

section \<open>Entries of a dictionary page\<close>

lemma push_entries_fold:
  assumes "a + length (concat es) < 2 ^ 32"
  shows "fold_o (\<lambda>(acc, dict_bytes, dict_offsets) s.
         if unat acc + unat (of_nat (length s) :: u32) < 2 ^ 32
         then Ok (acc + of_nat (length s), dict_bytes @ s, dict_offsets @ [acc + of_nat (length s)])
         else full) (of_nat a, B, O1) es = Ok (of_nat (a + length (concat es)), B @ concat es, O1 @ ends a es)"
  using assms
proof (induction es arbitrary: a B O1)
  case (Cons e es)
  have "unat (of_nat a :: u32) = a" "unat (of_nat (length e) :: u32) = length e"
    using Cons.prems by (simp_all add: unat_small_u32)
  then show ?case using Cons.prems Cons.IH [of "a + length e"] by (simp add: add.assoc)
qed simp

lemma push_entries_flatten:
  "length (concat es) < 2 ^ 32 \<Longrightarrow> push_entries full es ([], [0]) = Ok (flatten es)"
  using push_entries_fold [of 0 es full "[]" "[0]"] by (simp add: push_entries_def flatten_def)

lemma flatten_nth:
  assumes "length (concat d) < 2 ^ 32" and "i < length d"
  shows "unat (snd (flatten d) ! i) = length (concat (take i d))" and "unat (snd (flatten d) ! Suc i) = length (concat (take i d)) + length (d ! i)"
    and "length (concat (take i d)) + length (d ! i) \<le> length (concat d)"
proof -
  note c = concat_entry(2) [OF assms(2)] and le = length_concat_take [of "Suc i" d]
  show s: "length (concat (take i d)) + length (d ! i) \<le> length (concat d)" using c le by simp
  have "snd (flatten d) ! j = of_nat (length (concat (take j d)))" if "j \<le> length d" for j
    using nth_ends [OF that, of 0] by (simp add: flatten_def)
  then show "unat (snd (flatten d) ! i) = length (concat (take i d))"
    "unat (snd (flatten d) ! Suc i) = length (concat (take i d)) + length (d ! i)"
    using assms s c by (simp_all add: unat_small_u32 Suc_le_eq less_imp_le del: of_nat_add concat_eq_Nil_conv)
qed

lemma flat_entry_flatten:
  assumes "length (concat d) < 2 ^ 32" and "i < length d"
  shows "flat_entry (fst (flatten d)) (snd (flatten d)) i = (Ok (d ! i) :: ('e, bytes) outcome)"
proof -
  note n = flatten_nth [OF assms]
  have "length (snd (flatten d)) = Suc (length d)" "fst (flatten d) = concat d" by (simp_all add: flatten_def)
  then show ?thesis using assms(2) n concat_entry(1) [OF assms(2)]
    by (simp add: flat_entry_def index_o_def slice_def)
qed

section \<open>A PLAIN body\<close>

lemma prefix_length: "v < 2 ^ 32 \<Longrightarrow> unat (from_le_bytes (to_le_bytes (of_nat v :: u32)) :: u32) = v"
  by (simp add: unat_small_u32)

lemma offsets_plain:
  assumes "\<forall>v \<in> set vs. length v < 2 ^ 32" and "a + length (concat vs) < 2 ^ 32" and "emitted + length vs \<le> cap"
  shows "offsets_plain_loop (pre @ concat (map byte_array_bytes vs)) cap (length pre) emitted (of_nat a) (B, O1)
    = Ok (B @ concat vs, O1 @ ends a vs)"
  using assms
proof (induction vs arbitrary: pre emitted a B O1)
  case Nil
  then show ?case by (simp add: offsets_plain_loop.simps)
next
  case (Cons v vs)
  let ?l = "to_le_bytes (of_nat (length v) :: u32)" and ?tl = "concat (map byte_array_bytes vs)"
  let ?body = "pre @ concat (map byte_array_bytes (v # vs))"
  have l: "length ?l = 4" by simp
  have body: "?body = (pre @ byte_array_bytes v) @ ?tl" by simp
  have at: "take 4 (drop (length pre) ?body) = ?l" "take (length v) (drop (length pre + 4) ?body) = v"
    using l by (simp_all add: byte_array_bytes_def)
  have len: "length ?body = length pre + 4 + length v + length ?tl" using l by (simp add: byte_array_bytes_def)
  have small: "length v < 2 ^ 32" "unat (of_nat a :: u32) = a" "a + length v < 2 ^ 32"
    using Cons.prems by (simp_all add: unat_small_u32)
  note step = offsets_plain_loop.simps [of ?body cap "length pre" emitted "of_nat a" "(B, O1)"]
  have "offsets_plain_loop ?body cap (length pre) emitted (of_nat a) (B, O1)
    = offsets_plain_loop ?body cap (length (pre @ byte_array_bytes v)) (Suc emitted) (of_nat (a + length v)) (B @ v, O1 @ [of_nat (a + length v)])"
    unfolding step at Let_def prefix_length [OF small(1)] using len small Cons.prems(3) l by (simp add: byte_array_bytes_def add.assoc)
  also have "\<dots> = Ok ((B @ v) @ concat vs, (O1 @ [of_nat (a + length v)]) @ ends (a + length v) vs)"
    unfolding body using Cons.prems by (intro Cons.IH) auto
  finally show ?case by simp
qed

section \<open>A dictionary page\<close>

lemma flatten_lengths [simp]: "length (snd (flatten d)) = Suc (length d)" "fst (flatten d) = concat d"
  by (simp_all add: flatten_def)

lemma bytes_needed_flatten:
  assumes "length (concat d) < 2 ^ 32" and "\<forall>i \<in> set ixs. unat i < length d"
    and "length (concat (map (\<lambda>i. d ! unat i) ixs)) < 2 ^ 64"
  shows "bytes_needed (snd (flatten d)) ixs = Ok (length (concat (map (\<lambda>i. d ! unat i) ixs)))"
proof -
  have "fold_o (\<lambda>needed idx.
         if unat idx \<ge> length (snd (flatten d)) - 1 then Err (InvalidInput ''dictionary index out of range'')
         else bind_o (index_o (snd (flatten d)) (unat idx)) (\<lambda>start.
              bind_o (index_o (snd (flatten d)) (unat idx + 1)) (\<lambda>end.
              if unat end < unat start then Panic ''attempt to subtract with overflow''
              else add_usize needed (unat end - unat start)))) n ixs = Ok (n + length (concat (map (\<lambda>i. d ! unat i) ixs)))"
    if "n + length (concat (map (\<lambda>i. d ! unat i) ixs)) < 2 ^ 64" for n
    using that assms(2)
  proof (induction ixs arbitrary: n)
    case (Cons i ixs)
    then have i: "unat i < length d" by simp
    note entry = flatten_nth [OF assms(1) i]
    have "n + length (d ! unat i) < 2 ^ 64" using Cons.prems(1) by simp
    then show ?case using Cons.IH [of "n + length (d ! unat i)"] Cons.prems i
      by (simp add: entry add_usize_def add.assoc)
  qed simp
  from this [of 0] assms(3) show ?thesis by (simp add: bytes_needed_def)
qed

lemma copy_entries_flatten:
  assumes "length (concat d) < 2 ^ 32" and "\<forall>i \<in> set ixs. unat i < length d"
    and "a + length (concat (map (\<lambda>i. d ! unat i) ixs)) < 2 ^ 32"
  shows "fold_o (copy_entry (fst (flatten d)) (snd (flatten d))) (of_nat a, B, O1) ixs
    = Ok (of_nat (a + length (concat (map (\<lambda>i. d ! unat i) ixs))), B @ concat (map (\<lambda>i. d ! unat i) ixs),
        O1 @ ends a (map (\<lambda>i. d ! unat i) ixs))"
  using assms(2,3)
proof (induction ixs arbitrary: a B O1)
  case (Cons i ixs)
  then have i: "unat i < length d" by simp
  let ?v = "d ! unat i"
  note entry = flatten_nth [OF assms(1) i]
  have small: "a + length ?v < 2 ^ 32" "unat (of_nat a :: u32) = a" using Cons.prems by (simp_all add: unat_small_u32)
  have "get_unchecked (snd (flatten d)) (unat i) = (Ok (snd (flatten d) ! unat i) :: u32 codec_result)"
    "get_unchecked (snd (flatten d)) (unat i + 1) = (Ok (snd (flatten d) ! Suc (unat i)) :: u32 codec_result)"
    using i by (simp_all add: get_unchecked_def)
  then have "copy_entry (fst (flatten d)) (snd (flatten d)) (of_nat a, B, O1) i = Ok (of_nat (a + length ?v), B @ ?v, O1 @ [of_nat (a + length ?v)])"
    using entry small concat_entry(1) [OF i] by (simp add: copy_entry_def Let_def)
  then show ?case using Cons.IH [of "a + length ?v"] Cons.prems by (simp add: add.assoc)
qed simp

lemma offsets_dict_page_flatten:
  assumes "index_body ibody ixs (length d)" and "d \<noteq> []" and "length (concat d) < 2 ^ 32"
    and "length (concat (map (\<lambda>i. d ! unat i) ixs)) < 2 ^ 32"
  shows "offsets_dict_page (flatten d) ibody (length ixs) ([], [0]) = Ok (flatten (map (\<lambda>i. d ! unat i) ixs))"
proof -
  have ix: "decode_rle_dictionary_indices ibody (length ixs) = Ok ixs" "\<forall>i \<in> set ixs. unat i < length d"
    using assms(1) by (simp_all add: index_body_def)
  have "bytes_needed (snd (flatten d)) ixs = Ok (length (concat (map (\<lambda>i. d ! unat i) ixs)))"
    by (rule bytes_needed_flatten [OF assms(3) ix(2) less_trans [OF assms(4)]]) simp
  moreover note copy_entries_flatten [OF assms(3) ix(2), of 0 "[]" "[0]"] assms(4)
  moreover have "\<not> length (snd (flatten d)) < 2" using assms(2) by (cases d) simp_all
  ultimately show ?thesis using ix(1) by (simp add: offsets_dict_page_def last_offset_def flatten_def)
qed

section \<open>Written columns\<close>

lemma plain_view:
  assumes "flat_chunk ck cdc" and "plain_chunk ext cdc body n [(h, c)]" and "n < 2 ^ 31"
  shows "data_page_view ext ck h c = Ok \<lparr>dp_num_values = n, dp_encoding = E_Plain, dp_values = body\<rparr>"
    and "ph_page_type h = PG_DataPage \<or> ph_page_type h = PG_DataPageV2"
  using assms(2) view_v1 [OF assms(1) _ assms(3)] view_v2 [OF assms(1) _ assms(3)]
  by (auto simp: plain_chunk_def v1_page_header_def v2_page_header_def)

text \<open>A dictionary page, read as byte arrays and flattened.\<close>

definition byte_arrays_fit :: "bytes list \<Rightarrow> bool" where
  "byte_arrays_fit vs \<longleftrightarrow> (\<forall>v \<in> set vs. length v < 2 ^ 32) \<and> length (concat vs) < 2 ^ 32"

lemma slice_byte_arrays_fit: "slice_fits (Col_ByteArray vs) \<Longrightarrow> byte_arrays_fit vs"
proof -
  assume fits: "slice_fits (Col_ByteArray vs)"
  have "length (concat vs) \<le> (\<Sum>v \<leftarrow> vs. 4 + length v)" by (induction vs) simp_all
  also have "\<dots> < 2 ^ 32" using fits by (simp add: slice_fits_def)
  finally show ?thesis using written_byte_array.ok_con [OF fits] by (simp add: byte_arrays_fit_def)
qed

lemma length_concat_distinct:
  assumes "distinct d" and "set d \<subseteq> set vs"
  shows "length (concat d) \<le> length (concat vs)"
proof -
  have "length (concat d) = (\<Sum>v \<in> set d. length v)"
    using assms(1) by (simp add: length_concat sum_list_distinct_conv_sum_set)
  also have "\<dots> \<le> (\<Sum>v \<in> set vs. length v)" using assms(2) by (intro sum_mono2) simp_all
  also have "\<dots> \<le> length (concat vs)"
  proof (induction vs)
    case (Cons v vs)
    then show ?case by (cases "v \<in> set vs") (simp_all add: insert_absorb)
  qed simp
  finally show ?thesis .
qed

lemma dict_fits: "byte_arrays_fit vs \<Longrightarrow> dict_of vs d ixs \<Longrightarrow> byte_arrays_fit d"
  using length_concat_distinct [of d vs] by (auto simp: byte_arrays_fit_def dict_of_def)

lemma dict_page_body:
  assumes "flat_chunk ck cdc" and "body_in ext cdc (encode_plain_byte_array d) c" and "byte_arrays_fit d"
  shows "page_uncompressed_size (dict_page_header (length (encode_plain_byte_array d)) n m) = Ok (length (encode_plain_byte_array d))"
    and "decompress_into ext (ck_codec ck) c (length (encode_plain_byte_array d)) = Ok (encode_plain_byte_array d)"
    and "decode_plain_byte_array (encode_plain_byte_array d) = Ok d"
proof -
  show "page_uncompressed_size (dict_page_header (length (encode_plain_byte_array d)) n m) = Ok (length (encode_plain_byte_array d))"
    using assms(2) by (intro page_uncompressed_size_of_nat) (simp_all add: dict_page_header_def body_in_def)
  show "decompress_into ext (ck_codec ck) c (length (encode_plain_byte_array d)) = Ok (encode_plain_byte_array d)"
    using assms(1,2) by (simp add: flat_chunk_def body_in_def)
  show "decode_plain_byte_array (encode_plain_byte_array d) = Ok d"
    using byte_array_values.dec_enc assms(3) by (simp add: byte_arrays_fit_def)
qed

lemma type_dict_page_header [simp]: "ph_page_type (dict_page_header n m k) = PG_DictionaryPage"
  by (simp add: dict_page_header_def)

lemma type_v1_page_header [simp]: "ph_page_type (v1_page_header e n m k st) = PG_DataPage"
  by (simp add: v1_page_header_def)

text \<open>The page of a PLAIN column, or the two pages of a dictionary column.\<close>

definition plain_or_dict :: "codecs \<Rightarrow> bool \<Rightarrow> compression_codec \<Rightarrow> bytes list \<Rightarrow> page list \<Rightarrow> bool" where
  "plain_or_dict ext dict cdc vs ps \<longleftrightarrow>
     (\<not> dict \<longrightarrow> (\<exists>h c. ps = [(h, c)] \<and> plain_chunk ext cdc (encode_plain_byte_array vs) (length vs) [(h, c)])) \<and>
     (dict \<longrightarrow> (\<exists>d ixs ibody dc ic st. dict_of vs d ixs \<and> index_body ibody ixs (length d) \<and>
        (min_bit_width_for_dict (length d) :: nat codec_result) = Ok (unat (hd ibody)) \<and>
        body_in ext cdc (encode_plain_byte_array d) dc \<and> body_in ext cdc ibody ic \<and>
        ps = [(dict_page_header (length (encode_plain_byte_array d)) (length dc) (length d), dc),
           (v1_page_header E_PlainDictionary (length ibody) (length ic) (length vs) st, ic)]))"

lemma fetched_byte_arrays:
  assumes "codecs_sound ext" and "fetched_as ext dict pf g i (Col_ByteArray vs)"
  obtains ck cdc ps where "read_chunk_raw pf g i = Ok ck" "flat_chunk ck cdc" "ck_total_values ck = length vs" "length vs < 2 ^ 31"
    "byte_arrays_fit vs" "ck_bytes ck = chunk_bytes ps" "list_all page_ok ps" "plain_or_dict ext dict cdc vs ps"
proof -
  from assms(2) obtain cdc ps ck where f: "written_as ext dict cdc (length vs) (Col_ByteArray vs) ps" "read_chunk_raw pf g i = Ok ck"
    "flat_chunk ck cdc" "ck_total_values ck = length vs" "ck_bytes ck = chunk_bytes ps" "list_all page_ok ps" "slice_fits (Col_ByteArray vs)"
    by (auto simp: fetched_as_def)
  have small: "length vs < 2 ^ 31" by (rule written_byte_array.fetched_size [OF fetched_as_fetched [OF assms(2)]])
  from f(1) consider "\<not> dict" "written_plain ext cdc (length vs) (Col_ByteArray vs) ps"
    | "dict" "written_dict ext cdc (length vs) (Col_ByteArray vs) ps"
    unfolding written_as_def by (auto split: if_splits)
  then have "plain_or_dict ext dict cdc vs ps"
  proof cases
    case 1
    have "length (encode_plain_byte_array vs) < 2 ^ 31"
      using f(7) written_byte_array.size_con [of vs] by (simp add: slice_fits_def)
    then show ?thesis
      using 1 body_in_written [OF assms(1), of "encode_plain_byte_array vs"]
      unfolding written_plain_def plain_chunk_def plain_or_dict_def written_byte_array.plain_con by fastforce
  next
    case 2
    obtain d ixs w packed where d: "dict_of vs d ixs" "(min_bit_width_for_dict (length d) :: nat codec_result) = Ok w"
      "index_body (of_nat w # packed) ixs (length d)" "dict_chunk ext cdc (encode_plain_byte_array d) (length d) (of_nat w # packed) (length vs) ps"
      using written_byte_array.written_dict_pages [OF 2(2) f(7) assms(1)] by metis
    have "length d < 2 ^ 31" using d(1) small by (simp add: dict_of_def)
    then have "unat (hd (of_nat w # packed) :: u8) = w"
      using dict_width(1) [OF d(2)] by (simp add: unsigned_of_nat take_bit_nat_eq_self)
    with d 2(1) show ?thesis unfolding plain_or_dict_def dict_chunk_def by metis
  qed
  with that [OF f(2-4) small slice_byte_arrays_fit [OF f(7)] f(5,6)] show thesis by blast
qed

section \<open>The readers\<close>

lemma read_offsets:
  assumes "codecs_sound ext" and "fetched_as ext dict pf g i (Col_ByteArray vs)"
  shows "read_column_byte_array_offsets ext pf g i = Ok (flatten vs)"
proof -
  let ?s = "([], [0]) :: bytes \<times> u32 list"
  from fetched_byte_arrays [OF assms] obtain ck cdc ps where ck: "read_chunk_raw pf g i = Ok ck" "flat_chunk ck cdc" "ck_total_values ck = length vs"
    "length vs < 2 ^ 31" "byte_arrays_fit vs" "ck_bytes ck = chunk_bytes ps" "list_all page_ok ps" "plain_or_dict ext dict cdc vs ps" by metis
  have walk: "walk_pages (offsets_page ext ck) (page_walker_new (ck_bytes ck)) (?s, ?s) = run_pages (offsets_page ext ck) (?s, ?s) ps"
    by (simp add: ck(6) walk_chunk [OF ck(7)])
  have fit: "\<forall>v \<in> set vs. length v < 2 ^ 32" "length (concat vs) < 2 ^ 32" using ck(5) by (simp_all add: byte_arrays_fit_def)
  show ?thesis
  proof (cases dict)
    case False
    with ck(8) obtain h c where p: "plain_chunk ext cdc (encode_plain_byte_array vs) (length vs) [(h, c)]" "ps = [(h, c)]"
      by (auto simp: plain_or_dict_def)
    have "offsets_plain_loop (encode_plain_byte_array vs) (length vs) 0 0 0 ?s = Ok (flatten vs)"
      using offsets_plain [OF fit(1), of 0 0 "length vs" "[]" "[]" "[0]"] fit(2) by (simp add: encode_byte_arrays flatten_def)
    with plain_view [OF ck(2) p(1) ck(4)] have "offsets_page ext ck (?s, ?s) h c = Ok (False, ?s, flatten vs)"
      by (auto simp: offsets_page_def last_offset_def ck(3))
    then show ?thesis by (simp add: read_column_byte_array_offsets_def ck(1) walk p(2))
  next
    case True
    with ck(8) obtain d ixs st and ibody dc ic :: bytes where
      d: "dict_of vs d ixs" "index_body ibody ixs (length d)" "body_in ext cdc (encode_plain_byte_array d) dc" "body_in ext cdc ibody ic"
      and ps: "ps = [(dict_page_header (length (encode_plain_byte_array d)) (length dc) (length d), dc),
           (v1_page_header E_PlainDictionary (length ibody) (length ic) (length vs) st, ic)]"
      unfolding plain_or_dict_def by metis
    let ?h1 = "dict_page_header (length (encode_plain_byte_array d)) (length dc) (length d)"
      and ?h2 = "v1_page_header E_PlainDictionary (length ibody) (length ic) (length vs) st"
    note fit_d = dict_fits [OF ck(5) d(1)]
    have ixs: "length ixs = length vs" "map (\<lambda>i. d ! unat i) ixs = vs" using d(1) by (simp_all add: dict_of_def)
    have "push_entries add_overflow d ?s = Ok (flatten d)" using fit_d by (simp add: push_entries_flatten byte_arrays_fit_def)
    then have page1: "offsets_page ext ck (?s, ?s) ?h1 dc = Ok (0 < length vs, flatten d, ?s)"
      using dict_page_body [OF ck(2) d(3) fit_d] by (simp add: offsets_page_def ck(3) Suc_le_eq)
    have page2: "offsets_page ext ck (flatten d, ?s) ?h2 ic = Ok (False, flatten d, flatten vs)" if "vs \<noteq> []"
    proof -
      have "d \<noteq> []" using that ixs d(2) by (auto simp: index_body_def)
      then have "offsets_dict_page (flatten d) ibody (length vs) ?s = Ok (flatten vs)"
        using offsets_dict_page_flatten [OF d(2)] fit_d fit(2) ixs by (simp add: byte_arrays_fit_def)
      then show ?thesis using view_v1 [OF ck(2) d(4) ck(4)] by (simp add: offsets_page_def ck(3))
    qed
    show ?thesis
    proof (cases "vs = []")
      case True
      then show ?thesis using page1 by (simp add: read_column_byte_array_offsets_def ck(1) walk ps flatten_def)
    qed (use page1 page2 in \<open>simp add: read_column_byte_array_offsets_def ck(1) walk ps\<close>)
  qed
qed

text \<open>A column kept as a dictionary of its distinct values and an index per row.\<close>

definition preserved_column :: "bytes list \<Rightarrow> 'i::len word dict_preserved \<Rightarrow> bool" where
  "preserved_column vs out \<longleftrightarrow> (\<exists>d. distinct d \<and> set d = set vs \<and> (dk_dict_bytes out, dk_dict_offsets out) = flatten d \<and>
     map (\<lambda>i. d ! unat i) (dk_indices out) = vs)"

definition no_dictionary_page :: "string \<Rightarrow> codec_error" where
  "no_dictionary_page what = InvalidInput (what @ '': data page before dictionary (column has no DictionaryPage)'')"

lemma read_preserved:
  assumes "codecs_sound ext" and "fetched_as ext True pf g i (Col_ByteArray vs)"
    and entries: "\<And>m. max_entries = Some m \<Longrightarrow> card (set vs) \<le> m"
    and decode: "\<And>ibody ixs (d :: bytes list). index_body ibody ixs (length d) \<Longrightarrow> length ixs < 2 ^ 31 \<Longrightarrow> length d = card (set vs) \<Longrightarrow>
      (min_bit_width_for_dict (length d) :: nat codec_result) = Ok (unat (hd ibody)) \<Longrightarrow>
      \<exists>js :: 'i::len word list. dec ibody (length ixs) [] = Ok js \<and> map unat js = map unat ixs"
  shows "\<exists>out. read_dict_preserved ext pf g i what max_entries dec = Ok out \<and> preserved_column vs out"
proof -
  let ?s = "(([], [0]), [], False) :: (bytes \<times> u32 list) \<times> 'i word list \<times> bool"
  from fetched_byte_arrays [OF assms(1,2)] obtain ck cdc ps where ck: "read_chunk_raw pf g i = Ok ck" "flat_chunk ck cdc"
    "ck_total_values ck = length vs" "length vs < 2 ^ 31" "byte_arrays_fit vs" "ck_bytes ck = chunk_bytes ps" "list_all page_ok ps"
    "plain_or_dict ext True cdc vs ps" by metis
  let ?page = "preserved_page ext ck what max_entries dec"
  have walk: "walk_pages ?page (page_walker_new (ck_bytes ck)) ?s = run_pages ?page ?s ps"
    by (simp add: ck(6) walk_chunk [OF ck(7)])
  from ck(8) obtain d ixs st and ibody dc ic :: bytes where
    d: "dict_of vs d ixs" "index_body ibody ixs (length d)" "(min_bit_width_for_dict (length d) :: nat codec_result) = Ok (unat (hd ibody))"
      "body_in ext cdc (encode_plain_byte_array d) dc" "body_in ext cdc ibody ic"
    and ps: "ps = [(dict_page_header (length (encode_plain_byte_array d)) (length dc) (length d), dc),
         (v1_page_header E_PlainDictionary (length ibody) (length ic) (length vs) st, ic)]"
    unfolding plain_or_dict_def by metis
  let ?h1 = "dict_page_header (length (encode_plain_byte_array d)) (length dc) (length d)"
    and ?h2 = "v1_page_header E_PlainDictionary (length ibody) (length ic) (length vs) st"
  note fit_d = dict_fits [OF ck(5) d(1)] and card = dict_of_card [OF d(1)]
  have ixs: "length ixs = length vs" "map (\<lambda>i. d ! unat i) ixs = vs" "distinct d" "set d \<subseteq> set vs" "\<forall>i \<in> set ixs. unat i < length d"
    using d(1) by (simp_all add: dict_of_def)
  have set_d: "set d = set vs" using ixs(3,4) card by (metis List.finite_set card_subset_eq distinct_card)
  from decode [OF d(2) _ card d(3)] ck(4) ixs(1) obtain js where js: "dec ibody (length vs) [] = Ok js" "map unat js = map unat ixs" by auto
  have look: "map (\<lambda>i. d ! unat i) js = vs"
    using arg_cong [OF js(2), of "map ((!) d)"] ixs(2) by (simp add: o_def)
  have len: "length js = length vs" using look by (metis length_map)
  have "set (map unat js) = set (map unat ixs)" by (simp only: js(2))
  then have same: "unat ` set js = unat ` set ixs" by simp
  have in_range: "\<forall>i \<in> set js. unat i < length d"
  proof
    fix j assume "j \<in> set js"
    then have "unat j \<in> unat ` set ixs" unfolding same [symmetric] by (rule imageI)
    then show "unat j < length d" using ixs(5) by (auto simp del: word_unat_eq_iff)
  qed
  have push: "push_entries dict_bytes_full d ([], [0]) = Ok (flatten d)" using fit_d by (simp add: push_entries_flatten byte_arrays_fit_def)
  have page1: "?page ?s ?h1 dc = Ok (0 < length vs, flatten d, [], True)"
    using dict_page_body [OF ck(2) d(4) fit_d] entries card by (auto simp: preserved_page_def ck(3) push split: option.splits)
  have find: "List.find (\<lambda>i. length d \<le> unat i) js = None" using in_range by (auto simp: find_None_iff)
  have page2: "?page (flatten d, [], True) ?h2 ic = Ok (False, flatten d, js, True)"
    using view_v1 [OF ck(2) d(5) ck(4)] js(1) find len by (simp add: preserved_page_def page_indices_def ck(3))
  have "read_dict_preserved ext pf g i what max_entries dec
      = Ok \<lparr>dk_dict_bytes = fst (flatten d), dk_dict_offsets = snd (flatten d), dk_indices = js\<rparr>"
  proof (cases "vs = []")
    case True
    then have "js = []" using len by simp
    then show ?thesis using True page1 by (simp add: read_dict_preserved_def ck(1) walk ps flatten_def)
  qed (use page1 page2 in \<open>simp add: read_dict_preserved_def ck(1) walk ps flatten_def\<close>)
  moreover have "preserved_column vs \<lparr>dk_dict_bytes = fst (flatten d), dk_dict_offsets = snd (flatten d), dk_indices = js\<rparr>"
    unfolding preserved_column_def using ixs(3) set_d look by (intro exI [of _ d]) (simp add: flatten_def)
  ultimately show ?thesis by blast
qed

text \<open>Without a dictionary page, or with more entries than the index type can name, the column is refused.\<close>

lemma refuse_plain:
  assumes "codecs_sound ext" and "fetched_as ext False pf g i (Col_ByteArray vs)"
  shows "read_dict_preserved ext pf g i what max_entries dec = Err (no_dictionary_page what)"
proof -
  from fetched_byte_arrays [OF assms] obtain ck cdc ps where ck: "read_chunk_raw pf g i = Ok ck" "flat_chunk ck cdc"
    "length vs < 2 ^ 31" "ck_bytes ck = chunk_bytes ps" "list_all page_ok ps" "plain_or_dict ext False cdc vs ps" by metis
  from ck(6) obtain h c where p: "plain_chunk ext cdc (encode_plain_byte_array vs) (length vs) [(h, c)]" "ps = [(h, c)]"
    by (auto simp: plain_or_dict_def)
  have "preserved_page ext ck what max_entries dec s h c = Err (no_dictionary_page what)" if "\<not> snd (snd s)" for s
    using plain_view(2) [OF ck(2) p(1) ck(3)] that by (cases s) (auto simp: preserved_page_def no_dictionary_page_def)
  moreover have "walk_pages (preserved_page ext ck what max_entries dec) (page_walker_new (ck_bytes ck)) s
      = run_pages (preserved_page ext ck what max_entries dec) s ps" for s
    by (simp add: ck(4) walk_chunk [OF ck(5)])
  ultimately show ?thesis by (simp add: read_dict_preserved_def ck(1) p(2))
qed

definition too_many_entries :: "string \<Rightarrow> nat \<Rightarrow> nat \<Rightarrow> codec_error" where
  "too_many_entries what n m =
     InvalidInput (what @ '': dictionary has '' @ decimal n @ '' entries (> '' @ decimal m @ ''); use the u32 variant'')"

lemma refuse_large:
  assumes "codecs_sound ext" and "fetched_as ext True pf g i (Col_ByteArray vs)" and "m < card (set vs)"
  shows "read_dict_preserved ext pf g i what (Some m) dec = Err (too_many_entries what (card (set vs)) m)"
proof -
  from fetched_byte_arrays [OF assms(1,2)] obtain ck cdc ps where ck: "read_chunk_raw pf g i = Ok ck" "flat_chunk ck cdc"
    "byte_arrays_fit vs" "ck_bytes ck = chunk_bytes ps" "list_all page_ok ps" "plain_or_dict ext True cdc vs ps" by metis
  from ck(6) obtain d ixs and dc :: bytes and p where
    d: "dict_of vs d ixs" "body_in ext cdc (encode_plain_byte_array d) dc"
      "ps = [(dict_page_header (length (encode_plain_byte_array d)) (length dc) (length d), dc), p]"
    unfolding plain_or_dict_def by metis
  have "preserved_page ext ck what (Some m) dec s (dict_page_header (length (encode_plain_byte_array d)) (length dc) (length d)) dc
      = Err (too_many_entries what (card (set vs)) m)" for s
    using dict_page_body [OF ck(2) d(2) dict_fits [OF ck(3) d(1)]] dict_of_card [OF d(1)] assms(3)
    by (cases s) (simp add: preserved_page_def too_many_entries_def)
  moreover have "walk_pages (preserved_page ext ck what (Some m) dec) (page_walker_new (ck_bytes ck)) s
      = run_pages (preserved_page ext ck what (Some m) dec) s ps" for s
    by (simp add: ck(4) walk_chunk [OF ck(5)])
  ultimately show ?thesis by (simp add: read_dict_preserved_def ck(1) d(3))
qed

text \<open>The reader with 32-bit indices, and the one with 8-bit indices, which takes at most 256 entries.\<close>

lemma read_preserved_u32:
  assumes "codecs_sound ext" and "fetched_as ext True pf g i (Col_ByteArray vs)"
  shows "\<exists>out. read_column_byte_array_dict_preserved ext pf g i = Ok out \<and> preserved_column vs out"
  unfolding read_column_byte_array_dict_preserved_def
  by (rule read_preserved [OF assms]) (auto simp: index_body_def decode_rle_dictionary_indices_def)

lemma width_of_256:
  assumes "(min_bit_width_for_dict n :: nat codec_result) = Ok w" and "n \<le> 256"
  shows "w \<le> 8"
proof (cases "n \<le> 1")
  case True
  then show ?thesis using assms(1) by (simp add: min_bit_width_for_dict_def le_Suc_eq)
next
  case False
  then obtain w' where w': "(min_bit_width_for_dict n :: nat codec_result) = Ok w'" "2 ^ (w' - 1) < n"
    using min_bit_width_for_dict_bounds [of n] assms(2) by auto
  then have "(2 :: nat) ^ (w' - 1) < 2 ^ 8" using assms(2) by simp
  then have "w' - 1 < 8" by (rule power_less_imp_less_exp [rotated]) simp
  then show ?thesis using w'(1) assms(1) by simp
qed

lemma read_preserved_u8:
  assumes "codecs_sound ext" and "fetched_as ext True pf g i (Col_ByteArray vs)" and "card (set vs) \<le> 256"
  shows "\<exists>out. read_column_byte_array_dict_preserved_u8 ext pf g i = Ok out \<and> preserved_column vs out"
  unfolding read_column_byte_array_dict_preserved_u8_def
proof (rule read_preserved [OF assms(1,2)])
  fix ibody ixs and d :: "bytes list"
  assume b: "index_body ibody ixs (length d)" "length ixs < 2 ^ 31" "length d = card (set vs)"
    "(min_bit_width_for_dict (length d) :: nat codec_result) = Ok (unat (hd ibody))"
  have w: "unat (hd ibody) \<le> 8" using width_of_256 [OF b(4)] b(3) assms(3) by simp
  have "decode_rle_dictionary_indices ibody (length ixs) = Ok ixs" using b(1) by (simp add: index_body_def)
  then have "decode_rle_dictionary_indices_u8 ibody (length ixs) = Ok (map ucast ixs)"
    using indices_u8_iff [OF _ w, of "length ixs"] b(2) by auto
  then have "decode_rle_dictionary_indices_u8_into ibody (length ixs) [] = Ok (map ucast ixs)"
    by (auto simp: decode_rle_dictionary_indices_u8_def decode_rle_dictionary_indices_u8_into_def Let_def bind_o_eq_Ok_iff split: if_splits)
  moreover have "unat (ucast i :: u8) = unat i" if "i \<in> set ixs" for i
  proof -
    have "unat i < length d" using b(1) that by (simp add: index_body_def)
    then show ?thesis using b(3) assms(3) by (simp add: unsigned_ucast_eq take_bit_nat_eq_self)
  qed
  ultimately show "\<exists>js :: u8 list. decode_rle_dictionary_indices_u8_into ibody (length ixs) [] = Ok js \<and> map unat js = map unat ixs" by auto
qed (use assms(3) in simp)

section \<open>The property\<close>

text \<open>The property of the byte-array readers with offsets and with a kept dictionary, over written tables.\<close>

text \<open>C9. A written column of byte arrays read as one buffer with end offsets is the flattening of its rows.  When the
  options asked for a dictionary, the column read with its dictionary kept is the distinct values, flattened, and an index
  per row that looks the row up, with 32-bit indices and, up to 256 distinct values, with 8-bit indices; with more, the
  8-bit reader refuses it and names their number.  A column written without a dictionary is refused by both.\<close>

theorem table_flat_byte_arrays:
  assumes "codecs_sound ext" and "write_table_with_options ext sbbf columns opts = Ok file" and "table_fits opts columns"
    and "length file < 2 ^ 31" and "g < group_count (row_count (snd (hd columns))) (wt_row_group_size opts)" and "i < length columns"
    and "column_slice (snd (columns ! i)) (row_from (row_count (snd (hd columns))) (wt_row_group_size opts) g)
      (row_from (row_count (snd (hd columns))) (wt_row_group_size opts) (Suc g)) = (Ok (Col_ByteArray vs) :: column_data codec_result)"
  shows "\<exists>pf. file_open file = Ok pf \<and> read_column_byte_array_offsets ext pf g i = Ok (flatten vs) \<and>
    (if dict_chosen opts i
     then (\<exists>out. read_column_byte_array_dict_preserved ext pf g i = Ok out \<and> preserved_column vs out) \<and>
       (if card (set vs) \<le> 256
        then \<exists>out. read_column_byte_array_dict_preserved_u8 ext pf g i = Ok out \<and> preserved_column vs out
        else read_column_byte_array_dict_preserved_u8 ext pf g i
          = Err (too_many_entries ''dict-preserved u8 read'' (card (set vs)) 256))
     else read_column_byte_array_dict_preserved ext pf g i = Err (no_dictionary_page ''dict-preserved read'') \<and>
       read_column_byte_array_dict_preserved_u8 ext pf g i = Err (no_dictionary_page ''dict-preserved u8 read''))"
proof -
  from table_fetched_as [OF assms(2-4)] assms(5-7) obtain pf where pf: "file_open file = Ok pf"
    "fetched_as ext (dict_chosen opts i) pf g i (Col_ByteArray vs)" by force
  show ?thesis
  proof (cases "dict_chosen opts i")
    case True
    have f: "fetched_as ext True pf g i (Col_ByteArray vs)" using pf(2) True by simp
    have "\<not> card (set vs) \<le> 256 \<Longrightarrow> read_column_byte_array_dict_preserved_u8 ext pf g i
        = Err (too_many_entries ''dict-preserved u8 read'' (card (set vs)) 256)"
      unfolding read_column_byte_array_dict_preserved_u8_def by (rule refuse_large [OF assms(1) f]) simp
    with True pf(1) read_offsets [OF assms(1) f] read_preserved_u32 [OF assms(1) f] read_preserved_u8 [OF assms(1) f]
    show ?thesis by (intro exI [of _ pf]) simp
  next
    case False
    have f: "fetched_as ext False pf g i (Col_ByteArray vs)" using pf(2) False by simp
    show ?thesis
      using False pf(1) read_offsets [OF assms(1) f]
      by (intro exI [of _ pf]) (simp add: refuse_plain [OF assms(1) f] read_column_byte_array_dict_preserved_def read_column_byte_array_dict_preserved_u8_def)
  qed
qed

lemma table_flat_byte_arrays_witness:
  "\<exists>pf out out8. file_open text_file = Ok pf \<and> read_column_byte_array_offsets stored_codecs pf 0 0 = Ok ([1, 2, 3, 1], [0, 1, 3, 4]) \<and>
    read_column_byte_array_dict_preserved stored_codecs pf 0 0 = Ok out \<and> preserved_column [[1], [2, 3], [1]] out \<and>
    read_column_byte_array_dict_preserved_u8 stored_codecs pf 0 0 = Ok out8 \<and> preserved_column [[1], [2, 3], [1]] out8"
proof -
  have "flatten [[1], [2, 3], [1]] = ([1, 2, 3, 1 :: u8], [0, 1, 3, 4])" by (simp add: flatten_def)
  moreover have "dict_chosen text_options 0" by (simp add: dict_chosen_def text_options_def)
  moreover have "card (set [[1], [2, 3], [1] :: bytes]) \<le> 256"
    using card_length [of "[[1], [2, 3], [1] :: bytes]"] by (rule order_trans) simp
  moreover have "\<exists>pf. file_open text_file = Ok pf \<and> read_column_byte_array_offsets stored_codecs pf 0 0 = Ok (flatten [[1], [2, 3], [1]]) \<and>
    (if dict_chosen text_options 0
     then (\<exists>out. read_column_byte_array_dict_preserved stored_codecs pf 0 0 = Ok out \<and> preserved_column [[1], [2, 3], [1]] out) \<and>
       (if card (set [[1], [2, 3], [1] :: bytes]) \<le> 256
        then \<exists>out. read_column_byte_array_dict_preserved_u8 stored_codecs pf 0 0 = Ok out \<and> preserved_column [[1], [2, 3], [1]] out
        else read_column_byte_array_dict_preserved_u8 stored_codecs pf 0 0
          = Err (too_many_entries ''dict-preserved u8 read'' (card (set [[1], [2, 3], [1] :: bytes])) 256))
     else read_column_byte_array_dict_preserved stored_codecs pf 0 0 = Err (no_dictionary_page ''dict-preserved read'') \<and>
       read_column_byte_array_dict_preserved_u8 stored_codecs pf 0 0 = Err (no_dictionary_page ''dict-preserved u8 read''))"
    by (rule table_flat_byte_arrays [OF stored_codecs_sound text_written text_fits text_length _ text_slice(2,3)])
      (simp only: text_slice(1) zero_less_one)
  ultimately show ?thesis by (simp only: if_True) blast
qed

end
