(* ===== verification/ReadBatches.thy ===== *)
theory ReadBatches
  imports ReadColumn
begin

text \<open>
  The batched readers of \<open>read.rs\<close>: an iterator over a column chunk that decodes a page at a time into a carry
  buffer and hands out batches of a fixed size.  \<open>ColumnBatchIter\<close> and \<open>ColumnByteArrayBatchIter\<close> differ in how an
  index page is decoded, the parameter \<open>gather_page\<close>; the second takes the values out of the carry, the first
  copies them, and neither looks at them again.
\<close>

record 'a batch_iter =
  bi_chunk :: chunk_info
  bi_walker_pos :: nat
  bi_emitted_to_carry :: nat
  bi_batch_size :: nat
  bi_dict :: "'a list"
  bi_carry :: "'a list"
  bi_carry_pos :: nat
  bi_finished :: bool

section \<open>Pages consume bytes\<close>

lemma next_page_advances: "next_page w = Ok (Some p, w') \<Longrightarrow> cursor_ok (pw_cur w) \<Longrightarrow> advances (pw_cur w) (pw_cur w')"
proof -
  assume n: "next_page w = Ok (Some p, w')" and ok: "cursor_ok (pw_cur w)"
  from n obtain header c body c' where h: "read_page_header (pw_cur w) = Ok (header, c)"
    and b: "cur_take (as_usize (ph_compressed_page_size header)) c = Ok (body, c')" and w': "w' = w\<lparr>pw_cur := c'\<rparr>"
    by (auto simp: next_page_def Let_def bind_o_eq_Ok_iff split: if_splits)
  have hc: "advances (pw_cur w) c" using safeD [OF safe_read_page_header ok] h by simp
  have "advances c c'" using safeD [OF safe_cur_take advances_ok [OF hc], of "as_usize (ph_compressed_page_size header)"] b by simp
  with hc show ?thesis by (auto simp: w' intro: advances_trans)
qed

lemma next_page_position:
  assumes "next_page (page_walker_new bs) = Ok (Some p, w)"
  shows "0 < position (pw_cur w)" and "position (pw_cur w) \<le> length bs"
proof -
  have "advances (cursor_new bs) (pw_cur w)"
    using next_page_advances [OF assms] by (simp add: page_walker_new_def cursor_new_def cursor_ok_def)
  then have "buf (pw_cur w) = bs" "pos (pw_cur w) \<le> length bs" by (simp_all add: advances_def cursor_new_def)
  then show "0 < position (pw_cur w)" "position (pw_cur w) \<le> length bs"
    using next_page_shorter [OF assms] by (auto simp: page_walker_new_def cursor_new_def remaining_def position_def)
qed

lemma next_page_decreases:
  assumes "map_err io_to_codec (next_page (page_walker_new (drop wp bs))) = Ok (Some q, w)"
  shows "length bs - (wp + position (pw_cur w)) < length bs - wp"
proof -
  from assms have "next_page (page_walker_new (drop wp bs)) = Ok (Some q, w)" by simp
  from next_page_position [OF this] show ?thesis by simp
qed

section \<open>Filling the carry\<close>

text \<open>The loop of \<open>fill_one_page\<close>: pages up to the first data page.  It gives whether there was one, the walker's
  new position, the dictionary and the carry.\<close>

function fill_loop ::
  "codecs \<Rightarrow> chunk_info \<Rightarrow> (bytes \<Rightarrow> 'a list codec_result) \<Rightarrow> (bytes \<Rightarrow> 'a list \<Rightarrow> nat \<Rightarrow> 'a list \<Rightarrow> 'a list codec_result) \<Rightarrow>
   nat \<Rightarrow> 'a list \<Rightarrow> 'a list \<Rightarrow> (bool \<times> nat \<times> 'a list \<times> 'a list) codec_result" where
  "fill_loop ext ck decode_plain gather_page walker_pos dict carry =
     bind_o (map_err io_to_codec (next_page (page_walker_new (drop walker_pos (ck_bytes ck))))) (\<lambda>(p, walker).
     case p of
       None \<Rightarrow> Ok (False, length (ck_bytes ck), dict, carry)
     | Some (hdr, body) \<Rightarrow>
         bind_o (dense_page ext ck decode_plain gather_page (dict, carry) hdr body) (\<lambda>(dict, carry).
         if ph_page_type hdr = PG_DataPage \<or> ph_page_type hdr = PG_DataPageV2
         then Ok (True, walker_pos + position (pw_cur walker), dict, carry)
         else fill_loop ext ck decode_plain gather_page (walker_pos + position (pw_cur walker)) dict carry))"
  by pat_completeness auto
termination
  by (relation "measure (\<lambda>(ext, ck, dec, gather, walker_pos, dict, carry). length (ck_bytes ck) - walker_pos)")
    (auto dest: next_page_decreases simp del: map_err_eq_Ok)

declare fill_loop.simps [simp del]

lemma fill_loop_position:
  "fill_loop ext ck dec gather wp dict carry = Ok (True, wp', dict', carry') \<Longrightarrow> wp < wp' \<and> wp < length (ck_bytes ck)"
proof (induction ext ck dec gather wp dict carry rule: fill_loop.induct)
  case (1 ext ck dec gather wp dict carry)
  from 1(2) obtain p w where n: "next_page (page_walker_new (drop wp (ck_bytes ck))) = Ok (p, w)"
    by (auto simp: fill_loop.simps [of ext ck dec gather wp] bind_o_eq_Ok_iff)
  show ?case
  proof (cases p)
    case None
    then show ?thesis using 1(2) n by (simp add: fill_loop.simps [of ext ck dec gather wp])
  next
    case (Some q)
    obtain hdr body where q: "q = (hdr, body)" by (cases q)
    note w = next_page_position [OF n [unfolded Some]]
    from 1(2) n Some q obtain d c where d: "dense_page ext ck dec gather (dict, carry) hdr body = Ok (d, c)"
      by (auto simp: fill_loop.simps [of ext ck dec gather wp] bind_o_eq_Ok_iff)
    show ?thesis
    proof (cases "ph_page_type hdr = PG_DataPage \<or> ph_page_type hdr = PG_DataPageV2")
      case True
      then show ?thesis using 1(2) n Some q d w by (auto simp: fill_loop.simps [of ext ck dec gather wp])
    next
      case False
      then have *: "fill_loop ext ck dec gather (wp + position (pw_cur w)) d c = Ok (True, wp', dict', carry')"
        using 1(2) n Some q d by (simp add: fill_loop.simps [of ext ck dec gather wp])
      from n have "map_err io_to_codec (next_page (page_walker_new (drop wp (ck_bytes ck)))) = Ok (p, w)" by simp
      from 1(1) [OF this refl Some q [symmetric] d refl False *] w show ?thesis by simp
    qed
  qed
qed

definition fill_one_page ::
  "codecs \<Rightarrow> (bytes \<Rightarrow> 'a list codec_result) \<Rightarrow> (bytes \<Rightarrow> 'a list \<Rightarrow> nat \<Rightarrow> 'a list \<Rightarrow> 'a list codec_result) \<Rightarrow>
   'a batch_iter \<Rightarrow> (bool \<times> 'a batch_iter) codec_result" where
  "fill_one_page ext decode_plain gather_page it =
     (if bi_emitted_to_carry it \<ge> ck_total_values (bi_chunk it) then Ok (False, it)
      else bind_o (fill_loop ext (bi_chunk it) decode_plain gather_page (bi_walker_pos it) (bi_dict it) (bi_carry it))
        (\<lambda>(filled, walker_pos, dict, carry).
        Ok (filled, it\<lparr>bi_walker_pos := walker_pos, bi_dict := dict, bi_carry := carry,
            bi_emitted_to_carry := bi_emitted_to_carry it + (length carry - length (bi_carry it))\<rparr>)))"

lemma fill_one_page_position:
  "fill_one_page ext dec gather it = Ok (True, it') \<Longrightarrow>
   length (ck_bytes (bi_chunk it')) - bi_walker_pos it' < length (ck_bytes (bi_chunk it)) - bi_walker_pos it"
  by (auto simp: fill_one_page_def bind_o_eq_Ok_iff split: if_splits dest!: fill_loop_position)

text \<open>\<open>while self.carry.len() - self.carry_pos < self.batch_size && self.emitted_to_carry < self.total_values\<close>.\<close>

function fill_carry ::
  "codecs \<Rightarrow> (bytes \<Rightarrow> 'a list codec_result) \<Rightarrow> (bytes \<Rightarrow> 'a list \<Rightarrow> nat \<Rightarrow> 'a list \<Rightarrow> 'a list codec_result) \<Rightarrow>
   'a batch_iter \<Rightarrow> 'a batch_iter codec_result" where
  "fill_carry ext decode_plain gather_page it =
     (if length (bi_carry it) - bi_carry_pos it < bi_batch_size it \<and> bi_emitted_to_carry it < ck_total_values (bi_chunk it)
      then bind_o (fill_one_page ext decode_plain gather_page it) (\<lambda>(filled, it').
           if filled then fill_carry ext decode_plain gather_page it' else Ok it')
      else Ok it)"
  by pat_completeness auto
termination
  by (relation "measure (\<lambda>(ext, dec, gather, it). length (ck_bytes (bi_chunk it)) - bi_walker_pos it)")
    (auto dest!: fill_one_page_position)

declare fill_carry.simps [simp del]

section \<open>Batches\<close>

text \<open>\<open>next\<close>: the item, \<open>None\<close> at the end, and the iterator after it.  A panic while filling is the item's outcome; after
  an error the iterator is finished, and what the failed page left in it is never read.\<close>

definition drain_one_batch ::
  "codecs \<Rightarrow> (bytes \<Rightarrow> 'a list codec_result) \<Rightarrow> (bytes \<Rightarrow> 'a list \<Rightarrow> nat \<Rightarrow> 'a list \<Rightarrow> 'a list codec_result) \<Rightarrow>
   'a batch_iter \<Rightarrow> 'a list codec_result option \<times> 'a batch_iter" where
  "drain_one_batch ext decode_plain gather_page it =
     (if bi_finished it then (None, it)
      else case fill_carry ext decode_plain gather_page it of
        Ok it \<Rightarrow>
          let available = length (bi_carry it) - bi_carry_pos it
          in if available = 0 then (None, it\<lparr>bi_finished := True\<rparr>)
             else let n = min available (bi_batch_size it);
                      batch = take n (drop (bi_carry_pos it) (bi_carry it));
                      carry_pos = bi_carry_pos it + n
                  in (Some (Ok batch),
                      if carry_pos = length (bi_carry it) then it\<lparr>bi_carry := [], bi_carry_pos := 0\<rparr>
                      else it\<lparr>bi_carry_pos := carry_pos\<rparr>)
      | Err e \<Rightarrow> (Some (Err e), it\<lparr>bi_finished := True\<rparr>)
      | Panic m \<Rightarrow> (Some (Panic m), it\<lparr>bi_finished := True\<rparr>)
      | Stuck \<Rightarrow> (Some Stuck, it\<lparr>bi_finished := True\<rparr>))"

text \<open>The first \<open>k\<close> items a caller gets.\<close>

fun batch_items ::
  "nat \<Rightarrow> codecs \<Rightarrow> (bytes \<Rightarrow> 'a list codec_result) \<Rightarrow> (bytes \<Rightarrow> 'a list \<Rightarrow> nat \<Rightarrow> 'a list \<Rightarrow> 'a list codec_result) \<Rightarrow>
   'a batch_iter \<Rightarrow> 'a list codec_result option list" where
  "batch_items 0 ext decode_plain gather_page it = []"
| "batch_items (Suc k) ext decode_plain gather_page it =
     (case drain_one_batch ext decode_plain gather_page it of
        (item, it') \<Rightarrow> item # batch_items k ext decode_plain gather_page it')"

text \<open>\<open>carry: Vec::with_capacity(batch_size)\<close>, of elements of \<open>sz\<close> bytes, is the one field whose value can
  panic: on a batch size no vector can hold.\<close>

definition batch_iter_new :: "nat \<Rightarrow> parquet_file \<Rightarrow> nat \<Rightarrow> nat \<Rightarrow> nat \<Rightarrow> 'a batch_iter codec_result" where
  "batch_iter_new sz file rg column batch_size =
     (if batch_size = 0 then Err (InvalidInput ''batch_size must be > 0'')
      else bind_o (read_chunk_raw file rg column) (\<lambda>ck.
        bind_o (reserve_o sz batch_size) (\<lambda>_.
        Ok \<lparr>bi_chunk = ck, bi_walker_pos = 0, bi_emitted_to_carry = 0, bi_batch_size = batch_size,
            bi_dict = [], bi_carry = [], bi_carry_pos = 0, bi_finished = False\<rparr>)))"

text \<open>The constructors with the \<open>next\<close> of the iterator they return.\<close>

definition read_column_i64_batches :: "parquet_file \<Rightarrow> nat \<Rightarrow> nat \<Rightarrow> nat \<Rightarrow> i64 batch_iter codec_result" where
  "read_column_i64_batches = batch_iter_new 8"

definition next_i64 :: "codecs \<Rightarrow> i64 batch_iter \<Rightarrow> i64 list codec_result option \<times> i64 batch_iter" where
  "next_i64 ext = drain_one_batch ext decode_plain_i64 decode_rle_dictionary_into"

definition read_column_i32_batches :: "parquet_file \<Rightarrow> nat \<Rightarrow> nat \<Rightarrow> nat \<Rightarrow> i32 batch_iter codec_result" where
  "read_column_i32_batches = batch_iter_new 4"

definition next_i32 :: "codecs \<Rightarrow> i32 batch_iter \<Rightarrow> i32 list codec_result option \<times> i32 batch_iter" where
  "next_i32 ext = drain_one_batch ext decode_plain_i32 decode_rle_dictionary_into"

definition read_column_f64_batches :: "parquet_file \<Rightarrow> nat \<Rightarrow> nat \<Rightarrow> nat \<Rightarrow> 64 word batch_iter codec_result" where
  "read_column_f64_batches = batch_iter_new 8"

definition next_f64 :: "codecs \<Rightarrow> 64 word batch_iter \<Rightarrow> 64 word list codec_result option \<times> 64 word batch_iter" where
  "next_f64 ext = drain_one_batch ext decode_plain_f64 decode_rle_dictionary_into"

definition read_column_byte_array_batches :: "parquet_file \<Rightarrow> nat \<Rightarrow> nat \<Rightarrow> nat \<Rightarrow> bytes batch_iter codec_result" where
  "read_column_byte_array_batches = batch_iter_new 24"

definition next_byte_array :: "codecs \<Rightarrow> bytes batch_iter \<Rightarrow> bytes list codec_result option \<times> bytes batch_iter" where
  "next_byte_array ext = drain_one_batch ext decode_plain_byte_array gather_byte_arrays"

end
