(* ===== verification/BatchProofs.thy ===== *)
theory BatchProofs
  imports ReadBatches PageIndexProofs TableRoundtrip WideSample
begin

text \<open>
  The batch iterators: the items are the values of the chunk cut into pieces of the batch size, however they are
  spread over the pages.  The invariant says which values are still to come: the rest of the carry and those of the
  pages ahead.
\<close>

section \<open>One page into the carry\<close>

lemma next_page_at:
  assumes "page_ok p"
  shows "\<exists>w. map_err io_to_codec (next_page (page_walker_new (page_bytes p @ post))) = Ok (Some p, w) \<and> position (pw_cur w) = length (page_bytes p)"
proof -
  have "page_bytes p \<noteq> []" using assms page_header_nonempty by (simp add: page_ok_def page_bytes_def)
  moreover have "rest (pw_cur (page_walker_new (page_bytes p @ post))) = page_bytes p @ post"
    by (simp add: page_walker_new_def cursor_new_def rest_def)
  ultimately have "next_page (page_walker_new (page_bytes p @ post)) = Ok (Some p,
      (page_walker_new (page_bytes p @ post))\<lparr>pw_cur := adv (pw_cur (page_walker_new (page_bytes p @ post))) (length (page_bytes p))\<rparr>)"
    by (intro next_page_written [OF assms]) (simp_all add: page_walker_new_def cursor_new_def position_def)
  then show ?thesis by (simp add: page_walker_new_def cursor_new_def position_def adv_def)
qed

lemma fill_loop_page:
  assumes "appends g" and "list_all page_ok ps" and "ck_bytes ck = pre @ concat (map page_bytes ps)"
    and "page_values ext ck dec g d ps = Ok (vs # vss)"
  shows "\<exists>d' pre' qs. fill_loop ext ck dec g (length pre) d carry = Ok (True, length pre', d', carry @ vs) \<and>
    list_all page_ok qs \<and> ck_bytes ck = pre' @ concat (map page_bytes qs) \<and> page_values ext ck dec g d' qs = Ok vss"
  using assms(2-4)
proof (induction ps arbitrary: pre d)
  case (Cons p ps)
  from Cons.prems(1) have p: "page_ok p" "list_all page_ok ps" by simp_all
  have at: "drop (length pre) (ck_bytes ck) = page_bytes p @ concat (map page_bytes ps)"
    "ck_bytes ck = (pre @ page_bytes p) @ concat (map page_bytes ps)" using Cons.prems(2) by simp_all
  obtain w where n: "map_err io_to_codec (next_page (page_walker_new (drop (length pre) (ck_bytes ck)))) = Ok (Some p, w)"
    "position (pw_cur w) = length (page_bytes p)" using next_page_at [OF p(1)] unfolding at(1) by metis
  from Cons.prems(3) obtain d1 us uss where v: "dense_page ext ck dec g (d, []) (fst p) (snd p) = Ok (d1, us)"
    "page_values ext ck dec g d1 ps = Ok uss" "vs # vss = (if is_data (fst p) then us # uss else uss)"
    by (auto simp: bind_o_eq_Ok_iff)
  note page = dense_page_append [OF assms(1) v(1)]
  obtain h b where hb: "p = (h, b)" by (cases p)
  have step: "fill_loop ext ck dec g (length pre) d carry =
      (if is_data h then Ok (True, length (pre @ page_bytes p), d1, carry @ us)
       else fill_loop ext ck dec g (length (pre @ page_bytes p)) d1 (carry @ us))"
    using page(1) by (subst fill_loop.simps) (simp add: n hb is_data_def)
  show ?case
  proof (cases "is_data h")
    case True
    then have "vs = us" "vss = uss" using v(3) hb by simp_all
    then show ?thesis using step True p(2) at(2) v(2)
      by (intro exI [of _ d1] exI [of _ "pre @ page_bytes p"] exI [of _ ps]) simp
  next
    case False
    then have "us = []" "uss = vs # vss" using v(3) page(3) hb by simp_all
    then show ?thesis using Cons.IH [OF p(2) at(2)] v(2) step False by simp
  qed
qed simp

section \<open>The values to come\<close>

text \<open>An iterator over a chunk whose pages ahead hold \<open>vss\<close>.\<close>

definition iter_at :: "codecs \<Rightarrow> (bytes \<Rightarrow> 'a list codec_result) \<Rightarrow> (bytes \<Rightarrow> 'a list \<Rightarrow> nat \<Rightarrow> 'a list \<Rightarrow> 'a list codec_result) \<Rightarrow>
   'a batch_iter \<Rightarrow> 'a list list \<Rightarrow> bool" where
  "iter_at ext dec g it vss \<longleftrightarrow> bi_carry_pos it \<le> length (bi_carry it) \<and> 0 < bi_batch_size it \<and>
     bi_emitted_to_carry it + length (concat vss) = ck_total_values (bi_chunk it) \<and>
     (\<exists>pre ps. bi_walker_pos it = length pre \<and> ck_bytes (bi_chunk it) = pre @ concat (map page_bytes ps) \<and> list_all page_ok ps \<and>
        page_values ext (bi_chunk it) dec g (bi_dict it) ps = Ok vss)"

definition to_come :: "'a batch_iter \<Rightarrow> 'a list list \<Rightarrow> 'a list" where
  "to_come it vss = drop (bi_carry_pos it) (bi_carry it) @ concat vss"

lemma fill_one:
  assumes "appends g" and "iter_at ext dec g it vss" and "bi_emitted_to_carry it < ck_total_values (bi_chunk it)"
  shows "\<exists>it'. fill_one_page ext dec g it = Ok (True, it') \<and> vss \<noteq> [] \<and> iter_at ext dec g it' (tl vss) \<and> to_come it' (tl vss) = to_come it vss \<and>
    bi_batch_size it' = bi_batch_size it \<and> bi_finished it' = bi_finished it"
proof -
  from assms(2) obtain pre ps where i: "bi_walker_pos it = length pre" "ck_bytes (bi_chunk it) = pre @ concat (map page_bytes ps)"
    "list_all page_ok ps" "page_values ext (bi_chunk it) dec g (bi_dict it) ps = Ok vss" "bi_carry_pos it \<le> length (bi_carry it)"
    "0 < bi_batch_size it" "bi_emitted_to_carry it + length (concat vss) = ck_total_values (bi_chunk it)"
    by (auto simp: iter_at_def)
  obtain vs uss where vss: "vss = vs # uss" using assms(3) i(7) by (cases vss) auto
  from fill_loop_page [OF assms(1) i(3,2) i(4) [unfolded vss], of "bi_carry it"] obtain d' pre' qs where
    f: "fill_loop ext (bi_chunk it) dec g (bi_walker_pos it) (bi_dict it) (bi_carry it) = Ok (True, length pre', d', bi_carry it @ vs)"
    "list_all page_ok qs" "ck_bytes (bi_chunk it) = pre' @ concat (map page_bytes qs)" "page_values ext (bi_chunk it) dec g d' qs = Ok uss"
    unfolding i(1) by blast
  let ?it = "it\<lparr>bi_walker_pos := length pre', bi_dict := d', bi_carry := bi_carry it @ vs,
      bi_emitted_to_carry := bi_emitted_to_carry it + length vs\<rparr>"
  have "fill_one_page ext dec g it = Ok (True, ?it)" using assms(3) f(1) by (simp add: fill_one_page_def)
  moreover have "iter_at ext dec g ?it uss" using i(5-7) f(2-4) unfolding iter_at_def by (auto simp: vss)
  moreover have "to_come ?it uss = to_come it vss" using i(5) by (simp add: to_come_def vss)
  ultimately show ?thesis by (intro exI [of _ ?it]) (simp add: vss)
qed

lemma fill_carry_fills:
  assumes "appends g" and "iter_at ext dec g it vss"
  shows "\<exists>it' uss. fill_carry ext dec g it = Ok it' \<and> iter_at ext dec g it' uss \<and> to_come it' uss = to_come it vss \<and>
    bi_batch_size it' = bi_batch_size it \<and> bi_finished it' = bi_finished it \<and>
    (bi_batch_size it \<le> length (bi_carry it') - bi_carry_pos it' \<or> concat uss = [])"
  using assms(2)
proof (induction vss arbitrary: it rule: length_induct)
  case (1 vss)
  show ?case
  proof (cases "length (bi_carry it) - bi_carry_pos it < bi_batch_size it \<and> bi_emitted_to_carry it < ck_total_values (bi_chunk it)")
    case True
    from fill_one [OF assms(1) 1(2)] True obtain it1 where s: "fill_one_page ext dec g it = Ok (True, it1)" "vss \<noteq> []"
      "iter_at ext dec g it1 (tl vss)" "to_come it1 (tl vss) = to_come it vss" "bi_batch_size it1 = bi_batch_size it"
      "bi_finished it1 = bi_finished it" by blast
    have "length (tl vss) < length vss" using s(2) by simp
    with 1(1) s(3) obtain it' uss where "fill_carry ext dec g it1 = Ok it'" "iter_at ext dec g it' uss" "to_come it' uss = to_come it1 (tl vss)"
      "bi_batch_size it' = bi_batch_size it1" "bi_finished it' = bi_finished it1"
      "bi_batch_size it1 \<le> length (bi_carry it') - bi_carry_pos it' \<or> concat uss = []" by blast
    then show ?thesis using s True by (subst fill_carry.simps) auto
  next
    case False
    then have "fill_carry ext dec g it = Ok it" by (subst fill_carry.simps) auto
    moreover have "bi_batch_size it \<le> length (bi_carry it) - bi_carry_pos it \<or> concat vss = []"
    proof -
      have "bi_emitted_to_carry it + length (concat vss) = ck_total_values (bi_chunk it)" using 1(2) by (simp add: iter_at_def)
      then have "concat vss = []" if "\<not> bi_emitted_to_carry it < ck_total_values (bi_chunk it)"
        using that length_0_conv [of "concat vss"] by linarith
      then show ?thesis using False by auto
    qed
    ultimately show ?thesis using 1(2) by (intro exI [of _ it] exI [of _ vss]) simp
  qed
qed

section \<open>Batches\<close>

lemma drain_one:
  assumes "appends g" and "iter_at ext dec g it vss" and "\<not> bi_finished it"
  shows "if to_come it vss = [] then \<exists>it'. drain_one_batch ext dec g it = (None, it') \<and> bi_finished it'
    else \<exists>it' uss. drain_one_batch ext dec g it = (Some (Ok (take (bi_batch_size it) (to_come it vss))), it') \<and>
      iter_at ext dec g it' uss \<and> \<not> bi_finished it' \<and> bi_batch_size it' = bi_batch_size it \<and>
      to_come it' uss = drop (bi_batch_size it) (to_come it vss)"
proof -
  from fill_carry_fills [OF assms(1,2)] obtain it1 uss where f: "fill_carry ext dec g it = Ok it1" "iter_at ext dec g it1 uss"
    "to_come it1 uss = to_come it vss" "bi_batch_size it1 = bi_batch_size it" "bi_finished it1 = bi_finished it"
    "bi_batch_size it \<le> length (bi_carry it1) - bi_carry_pos it1 \<or> concat uss = []" by blast
  let ?c = "drop (bi_carry_pos it1) (bi_carry it1)" and ?bs = "bi_batch_size it"
  have pos: "bi_carry_pos it1 \<le> length (bi_carry it1)" "0 < ?bs" using f(2,4) by (simp_all add: iter_at_def)
  have come: "to_come it vss = ?c @ concat uss" using f(3) by (simp add: to_come_def)
  show ?thesis
  proof (cases "?c = []")
    case True
    then have a: "length (bi_carry it1) - bi_carry_pos it1 = 0" by simp
    then have "concat uss = []" using f(6) pos(2) by linarith
    then have "to_come it vss = []" using True come by simp
    moreover have "drain_one_batch ext dec g it = (None, it1\<lparr>bi_finished := True\<rparr>)"
      using a assms(3) f(1) by (simp add: drain_one_batch_def)
    ultimately show ?thesis by simp
  next
    case False
    let ?n = "min (length ?c) ?bs"
    let ?it = "if bi_carry_pos it1 + ?n = length (bi_carry it1) then it1\<lparr>bi_carry := [], bi_carry_pos := 0\<rparr>
      else it1\<lparr>bi_carry_pos := bi_carry_pos it1 + ?n\<rparr>"
    have "drain_one_batch ext dec g it = (Some (Ok (take ?n ?c)), ?it)"
      using False assms(3) f(1,4) by (auto simp: drain_one_batch_def Let_def)
    moreover have "take ?n ?c = take ?bs (to_come it vss)" "drop ?n ?c @ concat uss = drop ?bs (to_come it vss)"
      using f(6) unfolding come by (cases "concat uss = []"; simp add: min_def del: concat_eq_Nil_conv)+
    moreover have "iter_at ext dec g ?it uss" using f(2) by (auto simp: iter_at_def)
    moreover have "to_come ?it uss = drop ?n ?c @ concat uss" using pos(1) by (auto simp: to_come_def add.commute)
    moreover have "to_come it vss \<noteq> []" using False come by simp
    ultimately show ?thesis using f(4,5) assms(3) by (intro if_not_P [THEN iffD2]) auto
  qed
qed

definition kth_batch :: "nat \<Rightarrow> 'a list \<Rightarrow> nat \<Rightarrow> 'a list codec_result option" where
  "kth_batch n vs k = (if k * n < length vs then Some (Ok (take n (drop (k * n) vs))) else None)"

lemma kth_batch_empty: "map (kth_batch n []) [0..<k] = replicate k None"
  by (rule replicate_eqI) (auto simp: kth_batch_def)

lemma items_finished: "bi_finished it \<Longrightarrow> batch_items k ext dec g it = replicate k None"
  by (induction k) (simp_all add: drain_one_batch_def)

lemma items:
  assumes "appends g" and "iter_at ext dec g it vss" and "\<not> bi_finished it"
  shows "batch_items k ext dec g it = map (kth_batch (bi_batch_size it) (to_come it vss)) [0..<k]"
  using assms(2,3)
proof (induction k arbitrary: it vss)
  case (Suc k)
  let ?n = "bi_batch_size it" and ?vs = "to_come it vss"
  have up: "[0..<Suc k] = 0 # map Suc [0..<k]" by (simp add: upt_conv_Cons map_Suc_upt)
  show ?case
  proof (cases "?vs = []")
    case True
    with drain_one [OF assms(1) Suc.prems] obtain it' where "drain_one_batch ext dec g it = (None, it')" "bi_finished it'" by auto
    then show ?thesis using True by (simp add: items_finished kth_batch_def map_replicate_const del: upt_Suc)
  next
    case False
    with drain_one [OF assms(1) Suc.prems] obtain it' uss where d: "drain_one_batch ext dec g it = (Some (Ok (take ?n ?vs)), it')"
      "iter_at ext dec g it' uss" "\<not> bi_finished it'" "bi_batch_size it' = ?n" "to_come it' uss = drop ?n ?vs" by auto
    have "kth_batch ?n (drop ?n ?vs) j = kth_batch ?n ?vs (Suc j)" for j
      by (auto simp: kth_batch_def add.commute)
    then show ?thesis using Suc.IH [OF d(2,3)] d(1,4,5) False
      unfolding up by (simp add: kth_batch_def [of _ _ 0] o_def)
  qed
qed simp

section \<open>Columns\<close>

text \<open>What opening an iterator with batch size \<open>n\<close> gives: a zero size is refused, a size whose buffer of
  \<open>n * sz\<close> bytes no vector can hold panics, and every other size gives an iterator over the values.\<close>

definition batches_as :: "(nat \<Rightarrow> 'a batch_iter codec_result) \<Rightarrow> codecs \<Rightarrow> (bytes \<Rightarrow> 'a list codec_result) \<Rightarrow>
   (bytes \<Rightarrow> 'a list \<Rightarrow> nat \<Rightarrow> 'a list \<Rightarrow> 'a list codec_result) \<Rightarrow> nat \<Rightarrow> nat \<Rightarrow> 'a list \<Rightarrow> bool" where
  "batches_as open_at ext dec g sz n vs \<longleftrightarrow>
     (if n = 0 then open_at n = Err (InvalidInput ''batch_size must be > 0'')
      else if n * sz < 2 ^ 63
      then \<exists>it. open_at n = Ok it \<and> (\<forall>k. batch_items k ext dec g it = map (kth_batch n vs) [0..<k])
      else open_at n = Panic ''capacity overflow'')"

lemma batches_asI:
  assumes "read_chunk_raw file rg column = Ok ck" and "ck_total_values ck = length vs"
    and "0 < n \<Longrightarrow> \<forall>k. batch_items k ext dec g \<lparr>bi_chunk = ck, bi_walker_pos = 0, bi_emitted_to_carry = 0, bi_batch_size = n,
      bi_dict = [], bi_carry = [], bi_carry_pos = 0, bi_finished = False\<rparr> = map (kth_batch n vs) [0..<k]"
  shows "batches_as (batch_iter_new sz file rg column) ext dec g sz n vs"
  using assms by (simp add: batches_as_def batch_iter_new_def reserve_o_def)

lemma batches_of_chunk:
  assumes "read_chunk_raw file rg column = Ok ck" and "ck_bytes ck = concat (map page_bytes ps)" and "list_all page_ok ps"
    and "page_values ext ck dec g [] ps = Ok vss" and "ck_total_values ck = length (concat vss)" and "appends g"
  shows "batches_as (batch_iter_new sz file rg column) ext dec g sz n (concat vss)"
proof (rule batches_asI [OF assms(1,5)])
  assume n: "0 < n"
  let ?it = "\<lparr>bi_chunk = ck, bi_walker_pos = 0, bi_emitted_to_carry = 0, bi_batch_size = n, bi_dict = [], bi_carry = [], bi_carry_pos = 0,
      bi_finished = False\<rparr>"
  have "iter_at ext dec g ?it vss"
    unfolding iter_at_def using assms(2-5) n by (intro conjI exI [of _ "[]"] exI [of _ ps]) simp_all
  from items [OF assms(6) this] show "\<forall>k. batch_items k ext dec g ?it = map (kth_batch n (concat vss)) [0..<k]"
    by (simp add: to_come_def)
qed

context plain_values begin

lemma column_page_values:
  assumes ck: "flat_chunk ck cdc" and pages: "column_pages enc ext cdc vs ps" and vs: "ok vs" "length vs < 2 ^ 31" "vs \<noteq> []"
    and g: "decodes_index g"
  shows "page_values ext ck dec g [] ps = Ok [vs]"
proof (cases "plain_chunk ext cdc (enc vs) (length vs) ps")
  case True
  then obtain h c where ps: "ps = [(h, c)]" by (auto simp: plain_chunk_def)
  have "is_data h" using True by (auto simp: ps plain_chunk_def is_data_def v1_page_header_def v2_page_header_def)
  then show ?thesis using dense_plain [OF ck True [unfolded ps] vs(1,2), of g "[]" "[]"] by (simp add: ps)
next
  case False
  with pages obtain d ixs ibody where d: "dict_of vs d ixs" "index_body ibody ixs (length d)"
    "dict_chunk ext cdc (enc d) (length d) ibody (length vs) ps" unfolding column_pages_def by blast
  then obtain dc ic st where ps: "ps = [(dict_page_header (length (enc d)) (length dc) (length d), dc),
      (v1_page_header E_PlainDictionary (length ibody) (length ic) (length vs) st, ic)]"
    "body_in ext cdc (enc d) dc" "body_in ext cdc ibody ic" unfolding dict_chunk_def by blast
  have ixs: "length ixs = length vs" "map (\<lambda>i. d ! unat i) ixs = vs" "set d \<subseteq> set vs" using d(1) by (simp_all add: dict_of_def)
  then have "d \<noteq> []" using d(2) vs(3) by (auto simp: index_body_def)
  note page1 = dense_dict [OF ck ps(2) ok_subset [OF vs(1) ixs(3)]]
    and page2 = dense_index [OF ck ps(3) d(2) this g, of "[]" "length ic" st]
  have "\<not> is_data (dict_page_header (length (enc d)) (length dc) (length d))"
    "is_data (v1_page_header E_PlainDictionary (length ibody) (length ic) (length vs) st)"
    by (simp_all add: is_data_def dict_page_header_def v1_page_header_def)
  then show ?thesis using page1 page2 ixs vs(2) by (simp add: ps(1))
qed

end

lemma batches_empty:
  assumes "read_chunk_raw file rg column = Ok ck" and "ck_total_values ck = 0"
  shows "batches_as (batch_iter_new sz file rg column) ext dec g sz n []"
proof (rule batches_asI [OF assms(1)])
  let ?it = "\<lparr>bi_chunk = ck, bi_walker_pos = 0, bi_emitted_to_carry = 0, bi_batch_size = n, bi_dict = [], bi_carry = [], bi_carry_pos = 0,
      bi_finished = False\<rparr>"
  have "drain_one_batch ext dec g ?it = (None, ?it\<lparr>bi_finished := True\<rparr>)"
    using assms(2) by (simp add: drain_one_batch_def fill_carry.simps [of ext dec g])
  then have "batch_items k ext dec g ?it = replicate k None" for k
    by (cases k) (simp_all add: items_finished)
  then show "\<forall>k. batch_items k ext dec g ?it = map (kth_batch n []) [0..<k]" by (simp add: kth_batch_empty)
qed (simp add: assms(2))

context written_values begin

lemma read_batches:
  assumes "codecs_sound ext" and "decodes_index g" and "appends g" and "fetched ext pf i j (con vs)"
  shows "batches_as (batch_iter_new sz pf i j) ext dec g sz n vs"
proof -
  from assms(4) obtain cdc ps ck where f: "written_pages ext cdc (length vs) (con vs) ps" "read_chunk_raw pf i j = Ok ck"
    "flat_chunk ck cdc" "ck_total_values ck = length vs" "ck_bytes ck = chunk_bytes ps" "list_all page_ok ps" "slice_fits (con vs)"
    by (auto simp: fetched_def rows_con)
  show ?thesis
  proof (cases "vs = []")
    case True
    then show ?thesis using batches_empty [OF f(2)] f(4) by simp
  next
    case False
    have "page_values ext ck dec g [] ps = Ok [vs]"
      by (rule column_page_values [OF f(3) written_column_pages [OF f(1,7) assms(1)] ok_con [OF f(7)] fetched_size [OF assms(4)] False assms(2)])
    from batches_of_chunk [OF f(2,5,6) this _ assms(3)] f(4) show ?thesis by simp
  qed
qed

end

section \<open>The property\<close>

text \<open>The property of the batch iterators over written tables.\<close>

fun reads_batches :: "codecs \<Rightarrow> parquet_file \<Rightarrow> nat \<Rightarrow> nat \<Rightarrow> nat \<Rightarrow> column_data \<Rightarrow> bool" where
  "reads_batches ext pf g i n (Col_I32 vs) =
     batches_as (read_column_i32_batches pf g i) ext decode_plain_i32 decode_rle_dictionary_into 4 n vs"
| "reads_batches ext pf g i n (Col_I64 vs) =
     batches_as (read_column_i64_batches pf g i) ext decode_plain_i64 decode_rle_dictionary_into 8 n vs"
| "reads_batches ext pf g i n (Col_U64 vs) =
     batches_as (read_column_i64_batches pf g i) ext decode_plain_i64 decode_rle_dictionary_into 8 n vs"
| "reads_batches ext pf g i n (Col_F64 vs) =
     batches_as (read_column_f64_batches pf g i) ext decode_plain_f64 decode_rle_dictionary_into 8 n vs"
| "reads_batches ext pf g i n (Col_Bool vs) = True"
| "reads_batches ext pf g i n (Col_ByteArray vs) =
     batches_as (read_column_byte_array_batches pf g i) ext decode_plain_byte_array gather_byte_arrays 24 n vs"

text \<open>C8. The batch iterators deliver a written column, for every batch size \<open>n\<close>, type, codec and encoding:
  with \<open>n\<close> above 0 whose buffer (4 bytes a value for \<open>i32\<close>, 8 for the 64-bit types, 24 for a byte string) takes less
  than \<open>2 ^ 63\<close> bytes, item \<open>k\<close> is rows \<open>k * n\<close> to \<open>k * n + n\<close> of the row group, the last one shorter, and every item
  after that is the end.  \<open>n = 0\<close> is refused with an error, and a larger \<open>n\<close> panics with a capacity overflow.  (There is no
  batch iterator for booleans.)\<close>

theorem table_batches:
  assumes "codecs_sound ext" and "write_table_with_options ext sbbf columns opts = Ok file" and "table_fits opts columns"
    and "length file < 2 ^ 31" and "g < group_count (row_count (snd (hd columns))) (wt_row_group_size opts)" and "i < length columns"
    and "column_slice (snd (columns ! i)) (row_from (row_count (snd (hd columns))) (wt_row_group_size opts) g)
      (row_from (row_count (snd (hd columns))) (wt_row_group_size opts) (Suc g)) = (Ok part :: column_data codec_result)"
  shows "\<exists>pf. file_open file = Ok pf \<and> reads_batches ext pf g i n part"
proof -
  from table_fetched [OF assms(2-4)] assms(5-7) obtain pf where pf: "file_open file = Ok pf" "fetched ext pf g i part" by force
  have "reads_batches ext pf g i n part"
    using pf(2) by (cases part) (simp_all add: read_column_i32_batches_def read_column_i64_batches_def read_column_f64_batches_def
        read_column_byte_array_batches_def
        written_i32.read_batches [OF assms(1) decodes_index_fused appends_fused]
        written_i64.read_batches [OF assms(1) decodes_index_fused appends_fused]
        written_u64.read_batches [OF assms(1) decodes_index_fused appends_fused]
        written_f64.read_batches [OF assms(1) decodes_index_fused appends_fused]
        written_byte_array.read_batches [OF assms(1) decodes_index_byte_arrays appends_byte_arrays])
  with pf(1) show ?thesis by blast
qed

lemma table_batches_witness:
  "\<exists>pf it. file_open wide_file = Ok pf \<and> read_column_i64_batches pf 0 0 1 = Ok it \<and>
    batch_items 3 stored_codecs decode_plain_i64 decode_rle_dictionary_into it = [Some (Ok [300]), Some (Ok [- 3]), None]"
proof -
  have "\<exists>pf. file_open wide_file = Ok pf \<and> reads_batches stored_codecs pf 0 0 1 (Col_I64 [300, - 3])"
    by (rule table_batches [OF stored_codecs_sound wide_written wide_fits wide_length _ wide_slice(2,3)]) (simp_all only: wide_slice(1) zero_less_one)
  then obtain pf it where "file_open wide_file = Ok pf" "read_column_i64_batches pf 0 0 1 = Ok it"
    "batch_items 3 stored_codecs decode_plain_i64 decode_rle_dictionary_into it = map (kth_batch 1 [300, - 3]) [0..<3]"
    by (auto simp: batches_as_def)
  moreover have "map (kth_batch 1 [300, - 3 :: i64]) [0..<3] = [Some (Ok [300]), Some (Ok [- 3]), None]"
    by (simp add: kth_batch_def upt_rec)
  ultimately show ?thesis by metis
qed

end
