(* ===== verification/DictChunk.thy ===== *)
theory DictChunk
  imports DictBitmap DictProofs
begin

text \<open>
  \<open>column.rs\<close>: a column chunk kept as a dictionary and segments, one for each data page, and its consumers.
  Index expressions on the dictionary and on the mask panic out of range.
\<close>

datatype 'a segment = DictIndices "u32 list" | PlainSegment "'a list"

record 'a dict_column_chunk =
  dc_dict :: "'a list option"
  dc_segments :: "'a segment list"
  dc_num_values :: nat

definition dict_column_chunk_new :: "'a list option \<Rightarrow> 'a segment list \<Rightarrow> nat \<Rightarrow> 'a dict_column_chunk" where
  "dict_column_chunk_new dict segments num_values = \<lparr>dc_dict = dict, dc_segments = segments, dc_num_values = num_values\<rparr>"

text \<open>\<open>self.dict.as_ref().expect(m)\<close> and a lookup \<open>d[i as usize]\<close>.\<close>

definition expect_dict :: "string \<Rightarrow> 'b list option \<Rightarrow> ('e, 'b list) outcome" where
  "expect_dict m d = (case d of None \<Rightarrow> Panic m | Some d \<Rightarrow> Ok d)"

definition dict_lookup :: "'b list \<Rightarrow> u32 \<Rightarrow> ('e, 'b) outcome" where
  "dict_lookup d i = index_o d (unat i)"

definition no_dict :: string where
  "no_dict = ''dict-encoded without dict''"

text \<open>A pass over the segments that pushes one value for each row.\<close>

fun segment_rows :: "string \<Rightarrow> 'b list option \<Rightarrow> ('a \<Rightarrow> 'b) \<Rightarrow> 'a segment \<Rightarrow> ('e, 'b list) outcome" where
  "segment_rows m d f (DictIndices idx) = bind_o (expect_dict m d) (\<lambda>d. mapM_o (dict_lookup d) idx)"
| "segment_rows m d f (PlainSegment vs) = Ok (map f vs)"

definition chunk_filter :: "('a \<Rightarrow> bool) \<Rightarrow> 'a dict_column_chunk \<Rightarrow> ('e, bool list) outcome" where
  "chunk_filter pred ck =
     (let dict_mask = map_option (map pred) (dc_dict ck)
      in fold_o (\<lambda>out seg. bind_o (segment_rows ''dict-encoded segment but no dict was present'' dict_mask pred seg) (\<lambda>rows. Ok (out @ rows)))
           [] (dc_segments ck))"

definition chunk_count_matching :: "('a \<Rightarrow> bool) \<Rightarrow> 'a dict_column_chunk \<Rightarrow> ('e, nat) outcome" where
  "chunk_count_matching pred ck =
     (let dict_mask = map_option (map pred) (dc_dict ck)
      in fold_o (\<lambda>count seg. bind_o (segment_rows no_dict dict_mask pred seg) (\<lambda>rows.
             fold_o (\<lambda>count b. add_usize count (of_bool b)) count rows)) 0 (dc_segments ck))"

definition chunk_collect :: "'a dict_column_chunk \<Rightarrow> ('e, 'a list) outcome" where
  "chunk_collect ck =
     fold_o (\<lambda>out seg. bind_o (segment_rows no_dict (dc_dict ck) (\<lambda>v. v) seg) (\<lambda>rows. Ok (out @ rows))) [] (dc_segments ck)"

text \<open>\<open>if mask[row] \{ out.push(d[i as usize]) \} row += 1\<close>: only selected rows are looked up.\<close>

definition gather_step ::
  "bool list \<Rightarrow> ('x \<Rightarrow> ('e, 'a) outcome) \<Rightarrow> nat \<times> 'a list \<Rightarrow> 'x \<Rightarrow> ('e, nat \<times> 'a list) outcome" where
  "gather_step msk look s x =
     (case s of (row, out) \<Rightarrow>
      bind_o (index_o msk row) (\<lambda>b.
      if b then bind_o (look x) (\<lambda>v. Ok (row + 1, out @ [v])) else Ok (row + 1, out)))"

fun gather_segment ::
  "bool list \<Rightarrow> 'a list option \<Rightarrow> nat \<times> 'a list \<Rightarrow> 'a segment \<Rightarrow> ('e, nat \<times> 'a list) outcome" where
  "gather_segment msk d s (DictIndices idx) =
     bind_o (expect_dict no_dict d) (\<lambda>d. fold_o (gather_step msk (dict_lookup d)) s idx)"
| "gather_segment msk d s (PlainSegment vs) = fold_o (gather_step msk Ok) s vs"

definition chunk_gather :: "bool list \<Rightarrow> 'a dict_column_chunk \<Rightarrow> ('e, 'a list) outcome" where
  "chunk_gather msk ck =
     (if length msk \<noteq> dc_num_values ck then Panic ''mask length mismatch''
      else bind_o (fold_o (gather_segment msk (dc_dict ck)) (0, []) (dc_segments ck)) (\<lambda>(row, out). Ok out))"

section \<open>Consumers\<close>

text \<open>The consumers of a dictionary column chunk agree with the column it stands for.\<close>

section \<open>Segments\<close>

lemma dict_lookup_Ok: "dict_lookup d i = (Ok v :: ('e, 'a) outcome) \<longleftrightarrow> unat i < length d \<and> v = d ! unat i"
  by (auto simp: dict_lookup_def index_o_def)

lemma lookups_Ok:
  "mapM_o (dict_lookup d) idx = (Ok vs :: ('e, 'a list) outcome) \<longleftrightarrow> (\<forall>i \<in> set idx. unat i < length d) \<and> vs = map (\<lambda>i. d ! unat i) idx"
  by (induction idx arbitrary: vs) (auto simp: bind_o_eq_Ok_iff dict_lookup_Ok)

text \<open>The rows of a segment, whatever is made of the values.\<close>

fun segment_values :: "'a list option \<Rightarrow> 'a segment \<Rightarrow> 'a list option" where
  "segment_values d (PlainSegment vs) = Some vs"
| "segment_values None (DictIndices idx) = None"
| "segment_values (Some d) (DictIndices idx) =
     (if \<forall>i \<in> set idx. unat i < length d then Some (map (\<lambda>i. d ! unat i) idx) else None)"

lemma segment_rows_values:
  "segment_rows m d (\<lambda>v. v) seg = (Ok vs :: ('e, 'a list) outcome) \<longleftrightarrow> segment_values d seg = Some vs"
  by (cases seg; cases d) (auto simp: expect_dict_def lookups_Ok)

lemma segment_rows_map:
  "segment_values d seg = Some vs \<Longrightarrow> segment_rows m (map_option (map f) d) f seg = (Ok (map f vs) :: ('e, 'b list) outcome)"
  by (cases seg; cases d) (auto simp: expect_dict_def lookups_Ok split: if_splits)

section \<open>Chunks\<close>

lemma collect_fold:
  "fold_o (\<lambda>out seg. bind_o (segment_rows m d (\<lambda>v. v) seg) (\<lambda>rows. Ok (out @ rows))) a segs = (Ok r :: ('e, 'a list) outcome) \<longleftrightarrow>
    (\<exists>vss. list_all2 (\<lambda>seg vs. segment_values d seg = Some vs) segs vss \<and> r = a @ concat vss)"
proof (induction segs arbitrary: a)
  case (Cons seg segs)
  show ?case
    by (auto simp: bind_o_eq_Ok_iff segment_rows_values Cons.IH list_all2_Cons1) (metis append.assoc concat.simps(2))+
qed auto

lemma filter_fold:
  "list_all2 (\<lambda>seg vs. segment_values d seg = Some vs) segs vss \<Longrightarrow>
   fold_o (\<lambda>out seg. bind_o (segment_rows m (map_option (map P) d) P seg) (\<lambda>rows. Ok (out @ rows))) a segs
     = (Ok (a @ map P (concat vss)) :: ('e, bool list) outcome)"
  by (induction segs vss arbitrary: a rule: list_all2_induct) (simp_all add: segment_rows_map)

lemma count_rows:
  "a + length bs < 2 ^ 64 \<Longrightarrow> fold_o (\<lambda>count b. add_usize count (of_bool b)) a bs = (Ok (a + length (filter (\<lambda>b. b) bs)) :: ('e, nat) outcome)"
proof (induction bs arbitrary: a)
  case (Cons b bs)
  have "length (filter (\<lambda>b. b) bs) \<le> length bs" by simp
  with Cons show ?case by (simp add: add_usize_def)
qed simp

lemma count_fold:
  "list_all2 (\<lambda>seg vs. segment_values d seg = Some vs) segs vss \<Longrightarrow> a + length (concat vss) < 2 ^ 64 \<Longrightarrow>
   fold_o (\<lambda>count seg. bind_o (segment_rows m (map_option (map P) d) P seg) (\<lambda>rows. fold_o (\<lambda>count b. add_usize count (of_bool b)) count rows)) a segs
     = (Ok (a + length (filter P (concat vss))) :: ('e, nat) outcome)"
proof (induction segs vss arbitrary: a rule: list_all2_induct)
  case (Cons seg segs vs vss)
  have "length (concat (vs # vss)) = length vs + length (concat vss)" by simp
  then have "a + length (map P vs) < 2 ^ 64" "a + length (filter P vs) + length (concat vss) < 2 ^ 64"
    using Cons.prems length_filter_le [of P vs] by (simp_all only: length_map)
  then show ?case using Cons.IH [of "a + length (filter P vs)"]
    by (simp only: fold_o.simps bind_o.simps segment_rows_map [OF Cons.hyps(1)] count_rows) (simp add: filter_map o_def add.assoc)
qed simp

definition selected_rows :: "bool list \<Rightarrow> nat \<Rightarrow> 'a list \<Rightarrow> 'a list" where
  "selected_rows msk k vs = map snd (filter (\<lambda>p. msk ! fst p) (enumerate k vs))"

lemma selected_rows_simps [simp]:
  "selected_rows msk k [] = []" "selected_rows msk k (v # vs) = (if msk ! k then [v] else []) @ selected_rows msk (Suc k) vs"
  "selected_rows msk k (us @ vs) = selected_rows msk k us @ selected_rows msk (k + length us) vs"
  by (simp_all add: selected_rows_def enumerate_append_eq)

lemma gather_values:
  "k + length xs \<le> length msk \<Longrightarrow> \<forall>x \<in> set xs. look x = (Ok (f x) :: ('e, 'a) outcome) \<Longrightarrow>
   fold_o (gather_step msk look) (k, out) xs = Ok (k + length xs, out @ selected_rows msk k (map f xs))"
  by (induction xs arbitrary: k out) (simp_all add: gather_step_def index_o_def)

lemma gather_segment_values:
  assumes "segment_values d seg = Some vs" and "k + length vs \<le> length msk"
  shows "gather_segment msk d (k, out) seg = (Ok (k + length vs, out @ selected_rows msk k vs) :: ('e, nat \<times> 'a list) outcome)"
proof (cases seg)
  case (DictIndices idx)
  then obtain ds where d: "d = Some ds" "\<forall>i \<in> set idx. unat i < length ds" "vs = map (\<lambda>i. ds ! unat i) idx"
    using assms(1) by (cases d) (auto split: if_splits)
  then show ?thesis using assms(2) gather_values [of k idx msk "dict_lookup ds" "\<lambda>i. ds ! unat i" out]
    by (simp add: DictIndices expect_dict_def dict_lookup_Ok)
next
  case (PlainSegment us)
  then show ?thesis using assms gather_values [of k us msk Ok "\<lambda>v. v" out] by simp
qed

lemma gather_fold:
  "list_all2 (\<lambda>seg vs. segment_values d seg = Some vs) segs vss \<Longrightarrow> k + length (concat vss) \<le> length msk \<Longrightarrow>
   fold_o (gather_segment msk d) (k, out) segs = (Ok (k + length (concat vss), out @ selected_rows msk k (concat vss)) :: ('e, nat \<times> 'a list) outcome)"
  by (induction segs vss arbitrary: k out rule: list_all2_induct) (simp_all add: gather_segment_values add.assoc)

section \<open>The consumers\<close>

text \<open>C11. Filtering, counting and gathering a dictionary column chunk agree with collecting it first: the predicate is
  evaluated once per dictionary entry, but the booleans, the count and the selected values are those of the rows.\<close>

theorem dict_chunk_consumers:
  assumes "chunk_collect ck = (Ok vs :: ('e, 'a list) outcome)" and "length vs < 2 ^ 64"
  shows "chunk_filter P ck = (Ok (map P vs) :: ('e, bool list) outcome) \<and>
    chunk_count_matching P ck = (Ok (length (filter P vs)) :: ('e, nat) outcome) \<and>
    (dc_num_values ck = length vs \<and> length msk = length vs \<longrightarrow>
       chunk_gather msk ck = (Ok (map snd (filter fst (zip msk vs))) :: ('e, 'a list) outcome))"
proof -
  from assms(1) obtain vss where v: "list_all2 (\<lambda>seg vs. segment_values (dc_dict ck) seg = Some vs) (dc_segments ck) vss" "vs = concat vss"
    by (auto simp: chunk_collect_def collect_fold)
  have "selected_rows msk 0 vs = map snd (filter fst (zip msk vs))" if "length msk = length vs"
  proof -
    have "enumerate 0 vs = zip [0..<length vs] vs" by (simp add: enumerate_eq_zip)
    moreover have "zip msk vs = map (\<lambda>(i, v). (msk ! i, v)) (zip [0..<length vs] vs)"
      using that by (intro nth_equalityI) simp_all
    ultimately show ?thesis by (simp add: selected_rows_def filter_map o_def split_beta)
  qed
  moreover have "chunk_filter P ck = (Ok (map P vs) :: ('e, bool list) outcome)"
    by (simp add: chunk_filter_def v(2) filter_fold [OF v(1)])
  moreover have "chunk_count_matching P ck = (Ok (length (filter P vs)) :: ('e, nat) outcome)"
    using assms(2) count_fold [OF v(1), of 0, where 'e = 'e] by (simp add: chunk_count_matching_def v(2) Let_def)
  moreover have "chunk_gather msk ck = (Ok (selected_rows msk 0 vs) :: ('e, 'a list) outcome)" if "dc_num_values ck = length vs" "length msk = length vs"
    using gather_fold [OF v(1), of 0 msk "[]", where 'e = 'e] that by (simp add: chunk_gather_def v(2))
  ultimately show ?thesis by simp
qed

lemma dict_chunk_consumers_witness:
  "chunk_filter (\<lambda>v. 4 < v) \<lparr>dc_dict = Some [3, 5 :: nat], dc_segments = [DictIndices [1, 0], PlainSegment [9]], dc_num_values = 3\<rparr>
    = (Ok [True, False, True] :: (codec_error, bool list) outcome)"
proof -
  have "chunk_collect \<lparr>dc_dict = Some [3, 5 :: nat], dc_segments = [DictIndices [1, 0], PlainSegment [9]], dc_num_values = 3\<rparr>
    = (Ok [5, 3, 9] :: (codec_error, nat list) outcome)" by code_simp
  from dict_chunk_consumers [OF this, of "\<lambda>v. 4 < v"] show ?thesis by simp
qed

end
