(* ===== verification/IndexRowset.thy ===== *)
theory IndexRowset
  imports WrittenPages ColumnStats
begin

text \<open>
  What the sidecar indexes of \<open>ematix-parquet-codec/src/index\<close> share: keys and hits (\<open>types.rs\<close>), the stored form of a
  set of rows (\<open>rowset.rs\<close>), the checksum that ties a sidecar to its source (\<open>fingerprint.rs\<close>) and the layout of the data
  pages of a chunk (\<open>page_layout.rs\<close>).
\<close>

section \<open>Keys and hits\<close>

datatype physical_type = Phys_Int32 | Phys_Int64 | Phys_ByteArray

datatype index_key = Key_I64 i64 | Key_I32 i32 | Key_Bytes bytes

fun matches_physical_type :: "index_key \<Rightarrow> physical_type \<Rightarrow> bool" where
  "matches_physical_type (Key_I64 _) Phys_Int64 = True"
| "matches_physical_type (Key_I32 _) Phys_Int32 = True"
| "matches_physical_type (Key_Bytes _) Phys_ByteArray = True"
| "matches_physical_type _ _ = False"

fun variant_name :: "index_key \<Rightarrow> string" where
  "variant_name (Key_I64 _) = ''I64''"
| "variant_name (Key_I32 _) = ''I32''"
| "variant_name (Key_Bytes _) = ''Bytes''"

record index_hit =
  ih_row_group :: u32
  ih_page :: u32
  ih_rowset :: bytes

section \<open>Rowsets\<close>

definition tag_bitmap :: u8 where "tag_bitmap = 0x00"
definition tag_sparse :: u8 where "tag_sparse = 0x01"

datatype rowset_format = V1_Raw | V2_Tagged

text \<open>The debug assertions of both branches are panics of the model, like the overflow checks.\<close>

definition row_out_of_range :: "('e, 'a) outcome" where
  "row_out_of_range = Panic ''row_within_page out of range''"

definition encode_tagged :: "u32 list \<Rightarrow> nat \<Rightarrow> ('e, bytes) outcome" where
  "encode_tagged positions num_page_values =
     (let bitmap_len = div_ceil num_page_values 8;
          sparse_len = 1 + 4 + 4 + 4 * length positions
      in if sparse_len < 1 + bitmap_len
         then fold_o (\<lambda>out p. if unat p < num_page_values then Ok (out @ to_le_bytes p) else row_out_of_range)
                (tag_sparse # to_le_bytes (of_nat num_page_values :: u32) @ to_le_bytes (of_nat (length positions) :: u32)) positions
         else fold_o (\<lambda>out r. if unat r < num_page_values then or_byte out (1 + unat r div 8) (push_bit (unat r mod 8) 1) else row_out_of_range)
                (tag_bitmap # replicate bitmap_len 0) positions)"

text \<open>\<open>{tag:#04x}\<close>: two digits at least.\<close>

definition hex_two :: "u8 \<Rightarrow> string" where
  "hex_two b = ''0x'' @ hex_digit (unat b div 16) @ hex_digit (unat b mod 16)"

definition u32_at :: "bytes \<Rightarrow> nat \<Rightarrow> nat" where
  "u32_at bs off = unat (from_le_bytes (take 4 (drop off bs)) :: u32)"

definition to_bitmap :: "bytes \<Rightarrow> rowset_format \<Rightarrow> bytes codec_result" where
  "to_bitmap bytes fmt =
     (case fmt of
        V1_Raw \<Rightarrow> Ok bytes
      | V2_Tagged \<Rightarrow>
          (case bytes of
             [] \<Rightarrow> Err (InvalidInput ''v2 rowset is empty'')
           | tag # payload \<Rightarrow>
               if tag = tag_bitmap then Ok payload
               else if tag = tag_sparse then
                 if length bytes < 9 then Err (InvalidInput (''v2 sparse rowset truncated: '' @ decimal (length bytes) @ '' bytes''))
                 else let npv = u32_at bytes 1; count = u32_at bytes 5
                 in if length bytes \<noteq> 9 + 4 * count
                    then Err (InvalidInput (''v2 sparse rowset length mismatch: '' @ decimal (length bytes) @ '' bytes for count='' @ decimal count))
                    else fold_o (\<lambda>bm i. let r = u32_at bytes (9 + 4 * i)
                           in if r \<ge> npv then Err (InvalidInput (''v2 sparse rowset row '' @ decimal r @ '' out of page range '' @ decimal npv))
                              else or_byte bm (r div 8) (push_bit (r mod 8) 1))
                         (replicate (div_ceil npv 8) 0) [0..<count]
               else Err (InvalidInput (''v2 rowset has unknown tag '' @ hex_two tag))))"

section \<open>The fingerprint of a source file\<close>

text \<open>\<open>build_crc32_table\<close>: eight steps of the reflected division for every byte.\<close>

fun crc_steps :: "nat \<Rightarrow> u32 \<Rightarrow> u32" where
  "crc_steps 0 c = c"
| "crc_steps (Suc j) c = crc_steps j (if c AND 1 \<noteq> 0 then 0xEDB88320 XOR drop_bit 1 c else drop_bit 1 c)"

definition crc32_table :: "u32 list" where
  "crc32_table = map (\<lambda>i. crc_steps 8 (of_nat i)) [0..<256]"

definition crc32_step :: "u32 \<Rightarrow> u8 \<Rightarrow> u32" where
  "crc32_step crc b = (let idx = (crc XOR ucast b) AND 0xFF in drop_bit 8 crc XOR crc32_table ! unat idx)"

definition crc32_ieee :: "bytes \<Rightarrow> u32" where
  "crc32_ieee bytes = NOT (foldl crc32_step (NOT 0) bytes)"

record source_fingerprint =
  sf_footer_length :: u32
  sf_footer_crc32 :: u32
  sf_num_rows :: i64
  sf_num_row_groups :: u32

definition metadata_for_index :: "string \<Rightarrow> parquet_file \<Rightarrow> file_metadata codec_result" where
  "metadata_for_index what file = map_err (\<lambda>e. InvalidInput (what @ '': '' @ io_error_text e)) (file_metadata_of file)"

definition compute_source_fingerprint :: "parquet_file \<Rightarrow> source_fingerprint codec_result" where
  "compute_source_fingerprint file =
     (let footer = pf_footer_bytes file
      in if length footer \<ge> 2 ^ 32
         then Err (InvalidInput (''footer length '' @ decimal (length footer) @ '' exceeds u32 range (corrupted parquet?)''))
         else bind_o (metadata_for_index ''read parquet metadata'' file) (\<lambda>meta.
           if length (fm_row_groups meta) \<ge> 2 ^ 32
           then Err (InvalidInput (''num_row_groups '' @ decimal (length (fm_row_groups meta)) @ '' exceeds u32 range''))
           else Ok \<lparr>sf_footer_length = of_nat (length footer), sf_footer_crc32 = crc32_ieee footer,
                    sf_num_rows = fm_num_rows meta, sf_num_row_groups = of_nat (length (fm_row_groups meta))\<rparr>))"

section \<open>The layout of data pages\<close>

record data_page_layout =
  dl_page_idx :: u32
  dl_first_row :: nat
  dl_num_values :: nat

text \<open>The walk over the headers; \<open>s\<close> is what \<open>visit\<close> collects.\<close>

function layout_walk ::
  "('s \<Rightarrow> data_page_layout \<Rightarrow> 's codec_result) \<Rightarrow> page_walker \<Rightarrow> u32 \<Rightarrow> nat \<Rightarrow> 's \<Rightarrow> 's codec_result" where
  "layout_walk visit walker page_idx first_row s =
     bind_o (map_err (\<lambda>e. InvalidInput (''walk page: '' @ io_error_text e)) (next_page walker)) (\<lambda>(p, walker').
     case p of
       None \<Rightarrow> Ok s
     | Some (hdr, body) \<Rightarrow>
         if ph_page_type hdr = PG_DataPage \<or> ph_page_type hdr = PG_DataPageV2
         then bind_o (data_page_num_values hdr) (\<lambda>n.
              bind_o (visit s \<lparr>dl_page_idx = page_idx, dl_first_row = first_row, dl_num_values = n\<rparr>) (\<lambda>s.
              bind_o (add_usize first_row n) (\<lambda>first_row.
              if unat page_idx + 1 < 2 ^ 32 then layout_walk visit walker' (page_idx + 1) first_row s
              else Panic ''attempt to add with overflow'')))
         else layout_walk visit walker' page_idx first_row s)"
  by pat_completeness auto
termination
  by (relation "measure (\<lambda>(visit, walker, page_idx, first_row, s). remaining (pw_cur walker))") (auto dest: next_page_shorter)

declare layout_walk.simps [simp del]

definition walk_data_pages ::
  "parquet_file \<Rightarrow> nat \<Rightarrow> nat \<Rightarrow> ('s \<Rightarrow> data_page_layout \<Rightarrow> 's codec_result) \<Rightarrow> 's \<Rightarrow> 's codec_result" where
  "walk_data_pages file rg column visit s =
     bind_o (metadata_for_index ''read parquet metadata'' file) (\<lambda>md.
     bind_o (get_o (InvalidInput (''row group '' @ decimal rg @ '' out of range'')) (fm_row_groups md) rg) (\<lambda>g.
     bind_o (get_o (InvalidInput (''column '' @ decimal column @ '' out of range in rg '' @ decimal rg)) (rg_columns g) column) (\<lambda>col.
     bind_o (ok_or (InvalidInput ''column missing inline meta_data'') (cc_meta_data col)) (\<lambda>cm.
     let start = as_usize (case cm_dictionary_page_offset cm of
             Some d \<Rightarrow> if sint d < sint (cm_data_page_offset cm) then d else cm_data_page_offset cm
           | None \<Rightarrow> cm_data_page_offset cm);
         len = as_usize (cm_total_compressed_size cm)
     in bind_o (map_err (\<lambda>e. InvalidInput (''read chunk bytes: '' @ io_error_text e)) (read_range file start len)) (\<lambda>bs.
        layout_walk visit (page_walker_new bs) 0 0 s)))))"

text \<open>The visitor of every caller collects the layouts.\<close>

definition page_layouts :: "parquet_file \<Rightarrow> nat \<Rightarrow> nat \<Rightarrow> data_page_layout list codec_result" where
  "page_layouts file rg column = walk_data_pages file rg column (\<lambda>s layout. Ok (s @ [layout])) []"

end
