(* ===== verification/IndexManifest.thy ===== *)
theory IndexManifest
  imports IndexRowset
begin

text \<open>
  The manifest of a sidecar, \<open>index/manifest.rs\<close>: its data, its JSON writer and the hand-written JSON parser.  A Rust
  string is its UTF-8 bytes.  How \<open>f64\<close> numbers are printed and parsed is an argument, \<open>float_text\<close>.
\<close>

section \<open>Data\<close>

datatype tokenizer = WhitespaceLowercaseV1

datatype index_kind =
    Kind_Sorted bytes physical_type
  | Kind_BloomPage bytes "64 word"
  | Kind_CompositePrefix "bytes list" "physical_type list"
  | Kind_Inverted bytes tokenizer

record index_entry =
  ie_name :: bytes
  ie_kind :: index_kind
  ie_sidecar_row_group :: u32
  ie_sidecar_row_group_count :: u32

record index_manifest =
  im_source_fingerprint :: source_fingerprint
  im_indexes :: "index_entry list"

datatype manifest_error =
    Manifest_Missing
  | Malformed string
  | UnsupportedVersion bytes
  | UnsupportedTokenizer bytes
  | SourceFingerprintMismatch source_fingerprint source_fingerprint

text \<open>\<open>Display\<close>, \<open>Debug\<close> and \<open>FromStr\<close> of \<open>f64\<close>.\<close>

record float_text =
  ft_display :: "64 word \<Rightarrow> bytes"
  ft_debug :: "64 word \<Rightarrow> string"
  ft_parse :: "bytes \<Rightarrow> 64 word option"

definition ascii :: "string \<Rightarrow> bytes" where
  "ascii s = map of_char s"

definition text_of :: "bytes \<Rightarrow> string" where
  "text_of bs = map (\<lambda>b. char_of (unat b)) bs"

definition manifest_key :: bytes where "manifest_key = ascii ''ematix_index_manifest_v1''"
definition manifest_key_v2 :: bytes where "manifest_key_v2 = ascii ''ematix_index_manifest_v2''"
definition manifest_key_v3 :: bytes where "manifest_key_v3 = ascii ''ematix_index_manifest_v3''"
definition manifest_version :: bytes where "manifest_version = ascii ''v1''"

section \<open>The tokenizer\<close>

definition is_ascii_whitespace :: "u8 \<Rightarrow> bool" where
  "is_ascii_whitespace b \<longleftrightarrow> b \<in> {0x20, 0x09, 0x0A, 0x0C, 0x0D}"

definition to_ascii_lowercase :: "u8 \<Rightarrow> u8" where
  "to_ascii_lowercase b = (if 0x41 \<le> b \<and> b \<le> 0x5A then b + 0x20 else b)"

definition tokenize_byte :: "bytes list \<times> bytes \<Rightarrow> u8 \<Rightarrow> bytes list \<times> bytes" where
  "tokenize_byte s b =
     (case s of (out, tok) \<Rightarrow>
      if is_ascii_whitespace b then if tok \<noteq> [] then (out @ [tok], []) else (out, tok)
      else (out, tok @ [to_ascii_lowercase b]))"

definition whitespace_lowercase_v1 :: "bytes \<Rightarrow> bytes list" where
  "whitespace_lowercase_v1 v = (case foldl tokenize_byte ([], []) v of (out, tok) \<Rightarrow> if tok \<noteq> [] then out @ [tok] else out)"

fun tokenize :: "tokenizer \<Rightarrow> bytes \<Rightarrow> bytes list" where
  "tokenize WhitespaceLowercaseV1 v = whitespace_lowercase_v1 v"

section \<open>Errors\<close>

text \<open>\<open>{x:#x}\<close>, and four hexadecimal digits.\<close>

fun hex_digits :: "nat \<Rightarrow> nat \<Rightarrow> string" where
  "hex_digits 0 n = []"
| "hex_digits (Suc k) n = (if n < 16 then hex_digit n else hex_digits k (n div 16) @ hex_digit (n mod 16))"

definition hex_u32 :: "u32 \<Rightarrow> string" where
  "hex_u32 w = ''0x'' @ hex_digits 8 (unat w)"

definition fingerprint_text :: "source_fingerprint \<Rightarrow> string" where
  "fingerprint_text f = ''footer_len='' @ decimal (unat (sf_footer_length f)) @ '', crc32='' @ hex_u32 (sf_footer_crc32 f) @
     '', num_rows='' @ decimal_signed (sf_num_rows f) @ '', n_rg='' @ decimal (unat (sf_num_row_groups f))"

fun manifest_error_text :: "manifest_error \<Rightarrow> string" where
  "manifest_error_text Manifest_Missing = ''sidecar manifest key `'' @ text_of manifest_key @ ''` missing''"
| "manifest_error_text (Malformed msg) = ''sidecar manifest malformed: '' @ msg"
| "manifest_error_text (UnsupportedVersion v) =
     ''sidecar manifest version `'' @ text_of v @ ''` unsupported (expected `'' @ text_of manifest_version @ ''`)''"
| "manifest_error_text (UnsupportedTokenizer t) = ''sidecar manifest references unknown tokenizer `'' @ text_of t @ ''`''"
| "manifest_error_text (SourceFingerprintMismatch expected actual) =
     ''sidecar fingerprint mismatch: source file changed (expected '' @ fingerprint_text expected @ ''; got '' @ fingerprint_text actual @ '')''"

section \<open>Writing JSON\<close>

fun physical_type_str :: "physical_type \<Rightarrow> string" where
  "physical_type_str Phys_Int32 = ''INT32''"
| "physical_type_str Phys_Int64 = ''INT64''"
| "physical_type_str Phys_ByteArray = ''BYTE_ARRAY''"

fun tokenizer_str :: "tokenizer \<Rightarrow> string" where
  "tokenizer_str WhitespaceLowercaseV1 = ''whitespace_lowercase_v1''"

text \<open>Every character that is escaped is one byte; the others are copied with all their bytes.\<close>

definition json_escape :: "u8 \<Rightarrow> bytes" where
  "json_escape b =
     (if b = 0x22 then [0x5C, 0x22] else if b = 0x5C then [0x5C, 0x5C]
      else if b = 0x0A then [0x5C, 0x6E] else if b = 0x0D then [0x5C, 0x72] else if b = 0x09 then [0x5C, 0x74]
      else if b < 0x20 then [0x5C, 0x75] @ ascii (''00'' @ hex_digit (unat b div 16) @ hex_digit (unat b mod 16))
      else [b])"

definition write_json_string :: "bytes \<Rightarrow> bytes" where
  "write_json_string v = [0x22] @ concat (map json_escape v) @ [0x22]"

definition quoted :: "string \<Rightarrow> bytes" where
  "quoted s = [0x22] @ ascii s @ [0x22]"

fun comma_separated :: "bytes list \<Rightarrow> bytes" where
  "comma_separated [] = []"
| "comma_separated (x # xs) = x @ concat (map (\<lambda>y. [0x2C] @ y) xs)"

text \<open>\<open>"key":\<close>.\<close>

definition json_key :: "string \<Rightarrow> bytes" where
  "json_key k = quoted k @ [0x3A]"

definition write_fingerprint_json :: "source_fingerprint \<Rightarrow> bytes" where
  "write_fingerprint_json f = [0x7B] @ json_key ''footer_length'' @ ascii (decimal (unat (sf_footer_length f))) @
     [0x2C] @ json_key ''footer_crc32'' @ ascii (decimal (unat (sf_footer_crc32 f))) @
     [0x2C] @ json_key ''num_rows'' @ ascii (decimal_signed (sf_num_rows f)) @
     [0x2C] @ json_key ''num_row_groups'' @ ascii (decimal (unat (sf_num_row_groups f))) @ [0x7D]"

fun write_kind_json :: "float_text \<Rightarrow> index_kind \<Rightarrow> bytes" where
  "write_kind_json ft (Kind_Sorted source_column physical_type) =
     json_key ''type'' @ quoted ''sorted'' @ [0x2C] @ json_key ''source_column'' @ write_json_string source_column @
     [0x2C] @ json_key ''physical_type'' @ quoted (physical_type_str physical_type)"
| "write_kind_json ft (Kind_BloomPage source_column target_fpp) =
     json_key ''type'' @ quoted ''bloom_page'' @ [0x2C] @ json_key ''source_column'' @ write_json_string source_column @
     [0x2C] @ json_key ''target_fpp'' @ ft_display ft target_fpp"
| "write_kind_json ft (Kind_CompositePrefix source_columns physical_types) =
     json_key ''type'' @ quoted ''composite_prefix'' @
     [0x2C] @ json_key ''source_columns'' @ [0x5B] @ comma_separated (map write_json_string source_columns) @ [0x5D] @
     [0x2C] @ json_key ''physical_types'' @ [0x5B] @ comma_separated (map (\<lambda>t. quoted (physical_type_str t)) physical_types) @ [0x5D]"
| "write_kind_json ft (Kind_Inverted source_column tokenizer) =
     json_key ''type'' @ quoted ''inverted'' @ [0x2C] @ json_key ''source_column'' @ write_json_string source_column @
     [0x2C] @ json_key ''tokenizer'' @ quoted (tokenizer_str tokenizer)"

definition write_entry_json :: "float_text \<Rightarrow> index_entry \<Rightarrow> bytes" where
  "write_entry_json ft e = [0x7B] @ json_key ''name'' @ write_json_string (ie_name e) @
     [0x2C] @ json_key ''sidecar_row_group'' @ ascii (decimal (unat (ie_sidecar_row_group e))) @
     [0x2C] @ json_key ''sidecar_row_group_count'' @ ascii (decimal (unat (ie_sidecar_row_group_count e))) @
     [0x2C] @ write_kind_json ft (ie_kind e) @ [0x7D]"

definition to_json :: "float_text \<Rightarrow> index_manifest \<Rightarrow> bytes" where
  "to_json ft m = [0x7B] @ json_key ''version'' @ [0x22] @ manifest_version @ [0x22] @
     [0x2C] @ json_key ''source_fingerprint'' @ write_fingerprint_json (im_source_fingerprint m) @
     [0x2C] @ json_key ''indexes'' @ [0x5B] @ comma_separated (map (write_entry_json ft) (im_indexes m)) @ [0x5D] @ [0x7D]"

end
