(* ===== verification/ManifestParse.thy ===== *)
theory ManifestParse
  imports IndexManifest
begin

text \<open>
  The JSON parser of \<open>index/manifest.rs\<close>: a position in the bytes of the text, moved by every operation.
\<close>

type_synonym 'a manifest_result = "(manifest_error, 'a) outcome"
type_synonym 'a json_reader = "bytes \<Rightarrow> nat \<Rightarrow> ('a \<times> nat) manifest_result"

section \<open>UTF-8\<close>

text \<open>\<open>str::from_utf8\<close>: the ranges of the bytes that follow a lead byte.\<close>

definition utf8_followers :: "u8 \<Rightarrow> (u8 \<times> u8) list option" where
  "utf8_followers a =
     (if 0xC2 \<le> a \<and> a \<le> 0xDF then Some [(0x80, 0xBF)]
      else if a = 0xE0 then Some [(0xA0, 0xBF), (0x80, 0xBF)]
      else if a = 0xED then Some [(0x80, 0x9F), (0x80, 0xBF)]
      else if 0xE1 \<le> a \<and> a \<le> 0xEF then Some [(0x80, 0xBF), (0x80, 0xBF)]
      else if a = 0xF0 then Some [(0x90, 0xBF), (0x80, 0xBF), (0x80, 0xBF)]
      else if 0xF1 \<le> a \<and> a \<le> 0xF3 then Some [(0x80, 0xBF), (0x80, 0xBF), (0x80, 0xBF)]
      else if a = 0xF4 then Some [(0x80, 0x8F), (0x80, 0xBF), (0x80, 0xBF)]
      else None)"

fun follows :: "(u8 \<times> u8) list \<Rightarrow> bytes \<Rightarrow> bytes option" where
  "follows [] bs = Some bs"
| "follows (r # rs) [] = None"
| "follows (r # rs) (b # bs) = (if fst r \<le> b \<and> b \<le> snd r then follows rs bs else None)"

lemma length_follows: "follows rs bs = Some bs' \<Longrightarrow> length bs' \<le> length bs"
  by (induction rs bs rule: follows.induct) (auto split: if_splits)

function utf8_ok :: "bytes \<Rightarrow> bool" where
  "utf8_ok [] = True"
| "utf8_ok (a # bs) =
     (if a < 0x80 then utf8_ok bs
      else case utf8_followers a of
        None \<Rightarrow> False
      | Some rs \<Rightarrow> (case follows rs bs of None \<Rightarrow> False | Some bs' \<Rightarrow> utf8_ok bs'))"
  by pat_completeness auto
termination
  by (relation "measure length") (auto dest: length_follows)

definition utf8_slice :: "string \<Rightarrow> bytes \<Rightarrow> bytes manifest_result" where
  "utf8_slice what bs = (if utf8_ok bs then Ok bs else Err (Malformed (''non-utf8 in '' @ what)))"

section \<open>Tokens\<close>

text \<open>\<open>b as char\<close>, written as UTF-8.\<close>

definition latin_char :: "u8 \<Rightarrow> string" where
  "latin_char b = (if b < 0x80 then [char_of (unat b)] else [char_of (192 + unat b div 64), char_of (128 + unat b mod 64)])"

definition skip_ws :: "bytes \<Rightarrow> nat \<Rightarrow> nat" where
  "skip_ws s i = i + length (takeWhile (\<lambda>c. c \<in> {0x20, 0x09, 0x0A, 0x0D}) (drop i s))"

definition expect_byte :: "u8 \<Rightarrow> unit json_reader" where
  "expect_byte b s i =
     (let p = skip_ws s i
      in if p \<ge> length s \<or> s ! p \<noteq> b then Err (Malformed (''expected `'' @ latin_char b @ ''` at pos '' @ decimal p)) else Ok ((), p + 1))"

definition expect_obj_open :: "unit json_reader" where "expect_obj_open = expect_byte 0x7B"
definition expect_arr_open :: "unit json_reader" where "expect_arr_open = expect_byte 0x5B"
definition expect_colon :: "unit json_reader" where "expect_colon = expect_byte 0x3A"

text \<open>\<open>try_obj_close\<close> and \<open>try_arr_close\<close>, which cannot fail.\<close>

definition try_close :: "u8 \<Rightarrow> bytes \<Rightarrow> nat \<Rightarrow> bool \<times> nat" where
  "try_close b s i = (let p = skip_ws s i in if p < length s \<and> s ! p = b then (True, p + 1) else (False, p))"

definition consume_comma :: "bytes \<Rightarrow> nat \<Rightarrow> nat" where
  "consume_comma s i = (let p = skip_ws s i in if p < length s \<and> s ! p = 0x2C then p + 1 else p)"

definition unescape :: "u8 \<Rightarrow> u8 option" where
  "unescape c =
     (if c = 0x22 then Some 0x22 else if c = 0x5C then Some 0x5C else if c = 0x2F then Some 0x2F
      else if c = 0x6E then Some 0x0A else if c = 0x72 then Some 0x0D else if c = 0x74 then Some 0x09 else None)"

function string_loop :: "bytes \<Rightarrow> nat \<Rightarrow> nat \<Rightarrow> bytes \<Rightarrow> (bytes \<times> nat) manifest_result" where
  "string_loop s start i out =
     (if i < length s then
        let c = s ! i
        in if c = 0x22 then
             if out = [] then bind_o (utf8_slice ''string'' (take (i - start) (drop start s))) (\<lambda>raw. Ok (raw, i + 1))
             else Ok (out, i + 1)
           else if c = 0x5C then
             bind_o (if out = [] then utf8_slice ''string'' (take (i - start) (drop start s)) else Ok out) (\<lambda>out.
             if i + 1 \<ge> length s then Err (Malformed ''trailing backslash'')
             else case unescape (s ! (i + 1)) of
                 None \<Rightarrow> Err (Malformed (''unsupported escape `'' @ [CHR 0x5C] @ latin_char (s ! (i + 1)) @ ''`''))
               | Some e \<Rightarrow> string_loop s start (i + 2) (out @ [e]))
           else if out \<noteq> [] then
             let n = length (takeWhile (\<lambda>b. b \<noteq> 0x22 \<and> b \<noteq> 0x5C) (drop i s))
             in bind_o (utf8_slice ''string'' (take n (drop i s))) (\<lambda>chunk. string_loop s start (i + n) (out @ chunk))
           else string_loop s start (i + 1) out
      else Err (Malformed ''unterminated string''))"
  by pat_completeness auto
termination
proof (relation "measure (\<lambda>(s, start, i, out). length s - i)", goal_cases)
  case (3 s start i out c n)
  then have "0 < n" by (simp add: Cons_nth_drop_Suc [symmetric])
  with 3(1) show ?case by simp
qed simp_all

declare string_loop.simps [simp del]

definition json_string :: "bytes json_reader" where
  "json_string s i = bind_o (expect_byte 0x22 s i) (\<lambda>(_, i). string_loop s i i [])"

definition is_number_char :: "u8 \<Rightarrow> bool" where
  "is_number_char c \<longleftrightarrow> (0x30 \<le> c \<and> c \<le> 0x39) \<or> c \<in> {0x2E, 0x65, 0x45, 0x2B, 0x2D}"

definition number_str :: "bytes json_reader" where
  "number_str s i =
     (let start = skip_ws s i;
          p = (if start < length s \<and> (s ! start = 0x2D \<or> s ! start = 0x2B) then start + 1 else start);
          p = p + length (takeWhile is_number_char (drop p s))
      in if start = p then Err (Malformed (''expected number at pos '' @ decimal start))
         else bind_o (utf8_slice ''number'' (take (p - start) (drop start s))) (\<lambda>n. Ok (n, p)))"

section \<open>Numbers\<close>

text \<open>\<open>str::parse\<close> of the integer types.\<close>

definition parse_digits :: "bytes \<Rightarrow> nat option" where
  "parse_digits ds =
     (if ds \<noteq> [] \<and> list_all (\<lambda>d. 0x30 \<le> d \<and> d \<le> 0x39) ds then Some (foldl (\<lambda>n d. 10 * n + (unat d - 48)) 0 ds) else None)"

definition parse_u32 :: "bytes \<Rightarrow> u32 option" where
  "parse_u32 n =
     (case parse_digits (case n of c # ds \<Rightarrow> if c = 0x2B then ds else n | [] \<Rightarrow> n) of
        None \<Rightarrow> None
      | Some k \<Rightarrow> if k < 2 ^ 32 then Some (of_nat k) else None)"

definition parse_i64 :: "bytes \<Rightarrow> i64 option" where
  "parse_i64 n =
     (case n of
        c # ds \<Rightarrow>
          if c = 0x2D then (case parse_digits ds of None \<Rightarrow> None | Some k \<Rightarrow> if k \<le> 2 ^ 63 then Some (- of_nat k) else None)
          else (case parse_digits (if c = 0x2B then ds else n) of None \<Rightarrow> None | Some k \<Rightarrow> if k < 2 ^ 63 then Some (of_nat k) else None)
      | [] \<Rightarrow> None)"

definition json_number :: "string \<Rightarrow> (bytes \<Rightarrow> 'a option) \<Rightarrow> 'a json_reader" where
  "json_number what parse s i = bind_o (number_str s i) (\<lambda>(n, i).
     bind_o (ok_or (Malformed (''bad '' @ what @ '' `'' @ text_of n @ ''`'')) (parse n)) (\<lambda>v. Ok (v, i)))"

definition json_u32 :: "u32 json_reader" where "json_u32 = json_number ''u32'' parse_u32"
definition json_i64 :: "i64 json_reader" where "json_i64 = json_number ''i64'' parse_i64"
definition json_f64 :: "float_text \<Rightarrow> 64 word json_reader" where "json_f64 ft = json_number ''f64'' (ft_parse ft)"

section \<open>Moving forward\<close>

lemma skip_ws_ge: "i \<le> skip_ws s i"
  by (simp add: skip_ws_def)

lemma expect_byte_moves: "expect_byte b s i = Ok (u, i') \<Longrightarrow> i < i' \<and> i' \<le> length s"
  using skip_ws_ge [of i s] by (auto simp: expect_byte_def Let_def split: if_splits)

lemma try_close_ge: "try_close b s i = (c, i') \<Longrightarrow> i \<le> i'"
  using skip_ws_ge [of i s] by (auto simp: try_close_def Let_def split: if_splits)

lemma try_close_ge': "(c, i') = try_close b s i \<Longrightarrow> i \<le> i'"
  using try_close_ge [of b s i c i'] by simp

lemma consume_comma_ge: "i \<le> consume_comma s i"
  using skip_ws_ge [of i s] by (auto simp: consume_comma_def Let_def)

lemma string_loop_moves: "string_loop s start i out = Ok (v, i') \<Longrightarrow> i < i' \<and> i' \<le> length s"
proof (induction s start i out rule: string_loop.induct)
  case (1 s start i out)
  let ?n = "length (takeWhile (\<lambda>b. b \<noteq> 0x22 \<and> b \<noteq> 0x5C) (drop i s))"
  from 1(4) have in_s: "i < length s" by (subst (asm) string_loop.simps) (simp split: if_splits)
  consider "s ! i = 0x22" | "s ! i = 0x5C" | "s ! i \<noteq> 0x22" "s ! i \<noteq> 0x5C" "out \<noteq> []"
    | "s ! i \<noteq> 0x22" "s ! i \<noteq> 0x5C" "out = []" by blast
  then show ?case
  proof cases
    case 1
    then show ?thesis using \<open>string_loop s start i out = Ok (v, i')\<close> in_s
      by (subst (asm) string_loop.simps) (auto simp: bind_o_eq_Ok_iff split: if_splits)
  next
    case 2
    from 2 1(4) in_s obtain out' e where "i + 1 < length s" "unescape (s ! (i + 1)) = Some e"
      "string_loop s start (i + 2) (out' @ [e]) = Ok (v, i')"
      "(if out = [] then utf8_slice ''string'' (take (i - start) (drop start s)) else Ok out) = Ok out'"
      by (subst (asm) string_loop.simps) (auto simp: bind_o_eq_Ok_iff split: if_splits option.splits)
    then show ?thesis using 1(1) [OF in_s refl _ 2] 2 by fastforce
  next
    case 3
    from 3 1(4) in_s obtain chunk where "string_loop s start (i + ?n) (out @ chunk) = Ok (v, i')"
      "utf8_slice ''string'' (take ?n (drop i s)) = Ok chunk"
      by (subst (asm) string_loop.simps) (auto simp: Let_def bind_o_eq_Ok_iff)
    then show ?thesis using 1(2) [OF in_s refl 3 refl] by simp
  next
    case 4
    then show ?thesis using 1(3) [OF in_s refl] 1(4) in_s by (subst (asm) string_loop.simps) simp
  qed
qed

lemma json_string_moves: "json_string s i = Ok (v, i') \<Longrightarrow> i < i' \<and> i' \<le> length s"
  by (auto simp: json_string_def bind_o_eq_Ok_iff dest!: expect_byte_moves string_loop_moves)

lemma number_str_moves: "number_str s i = Ok (v, i') \<Longrightarrow> i < i'"
  using skip_ws_ge [of i s] by (auto simp: number_str_def Let_def bind_o_eq_Ok_iff split: if_splits)

section \<open>Values of unknown shape\<close>

definition is_ascii_alphabetic :: "u8 \<Rightarrow> bool" where
  "is_ascii_alphabetic c \<longleftrightarrow> (0x41 \<le> c \<and> c \<le> 0x5A) \<or> (0x61 \<le> c \<and> c \<le> 0x7A)"

text \<open>The test of the loops is that the body moved forward, which it always does.\<close>

function skip_value :: "unit json_reader" and skip_members :: "unit json_reader" and skip_elements :: "unit json_reader" where
  "skip_value s i =
     (let p = skip_ws s i
      in if p \<ge> length s then Err (Malformed ''unexpected EOF'')
         else if s ! p = 0x22 then bind_o (json_string s p) (\<lambda>(_, p). Ok ((), p))
         else if s ! p = 0x7B then bind_o (expect_obj_open s p) (\<lambda>(_, p). skip_members s p)
         else if s ! p = 0x5B then bind_o (expect_arr_open s p) (\<lambda>(_, p). skip_elements s p)
         else if s ! p \<in> {0x74, 0x66, 0x6E} then Ok ((), p + length (takeWhile is_ascii_alphabetic (drop p s)))
         else if s ! p = 0x2D \<or> s ! p = 0x2B \<or> (0x30 \<le> s ! p \<and> s ! p \<le> 0x39) then bind_o (number_str s p) (\<lambda>(_, p). Ok ((), p))
         else Err (Malformed (''unexpected byte `'' @ latin_char (s ! p) @ ''` at pos '' @ decimal p)))"
| "skip_members s i =
     (let (closed, p) = try_close 0x7D s i
      in if closed then Ok ((), p)
         else bind_o (json_string s p) (\<lambda>(_, p). bind_o (expect_colon s p) (\<lambda>(_, p). bind_o (skip_value s p) (\<lambda>(_, p).
           let p' = consume_comma s p in if i < p' \<and> p' \<le> length s then skip_members s p' else Stuck))))"
| "skip_elements s i =
     (let (closed, p) = try_close 0x5D s i
      in if closed then Ok ((), p)
         else bind_o (skip_value s p) (\<lambda>(_, p).
           let p' = consume_comma s p in if i < p' \<and> p' \<le> length s then skip_elements s p' else Stuck))"
  by pat_completeness auto
termination
proof (relation "measures [\<lambda>c. case c of Inl (s, i) \<Rightarrow> length s - i | Inr (Inl (s, i)) \<Rightarrow> length s - i | Inr (Inr (s, i)) \<Rightarrow> length s - i,
    \<lambda>c. case c of Inl _ \<Rightarrow> 0 | Inr _ \<Rightarrow> 1]", goal_cases)
  case (2 s i p x u p')
  then show ?case using skip_ws_ge [of i s] by (auto simp: expect_obj_open_def dest!: expect_byte_moves)
next
  case (3 s i p x u p')
  then show ?case using skip_ws_ge [of i s] by (auto simp: expect_arr_open_def dest!: expect_byte_moves)
qed (auto simp: expect_colon_def dest!: expect_byte_moves json_string_moves try_close_ge')

declare skip_value.simps [simp del] skip_members.simps [simp del] skip_elements.simps [simp del]

section \<open>Objects and arrays\<close>

text \<open>
  The loops over the members of an object and the elements of an array: \<open>field\<close> reads the value of a key into the locals
  of the caller.
\<close>

function obj_loop :: "(bytes \<Rightarrow> bytes \<Rightarrow> nat \<Rightarrow> 's \<Rightarrow> ('s \<times> nat) manifest_result) \<Rightarrow> bytes \<Rightarrow> nat \<Rightarrow> 's \<Rightarrow> ('s \<times> nat) manifest_result" where
  "obj_loop field_value s i locals =
     (let (closed, p) = try_close 0x7D s i
      in if closed then Ok (locals, p)
         else bind_o (json_string s p) (\<lambda>(key, p). bind_o (expect_colon s p) (\<lambda>(_, p).
              bind_o (field_value key s p locals) (\<lambda>(locals, p).
              let p' = consume_comma s p in if i < p' \<and> p' \<le> length s then obj_loop field_value s p' locals else Stuck))))"
  by pat_completeness auto
termination
  by (relation "measure (\<lambda>(field_value, s, i, locals). length s - i)") auto

declare obj_loop.simps [simp del]

function arr_loop :: "'a json_reader \<Rightarrow> bytes \<Rightarrow> nat \<Rightarrow> 'a list \<Rightarrow> ('a list \<times> nat) manifest_result" where
  "arr_loop element s i out =
     (let (closed, p) = try_close 0x5D s i
      in if closed then Ok (out, p)
         else bind_o (element s p) (\<lambda>(v, p).
              let p' = consume_comma s p in if i < p' \<and> p' \<le> length s then arr_loop element s p' (out @ [v]) else Stuck))"
  by pat_completeness auto
termination
  by (relation "measure (\<lambda>(element, s, i, out). length s - i)") auto

declare arr_loop.simps [simp del]

definition string_array :: "bytes list json_reader" where
  "string_array s i = bind_o (expect_arr_open s i) (\<lambda>(_, i). arr_loop json_string s i [])"

text \<open>\<open>x = Some(read(p)?)\<close> on a local variable.\<close>

definition put_local :: "'a json_reader \<Rightarrow> (('a option \<Rightarrow> 'a option) \<Rightarrow> 's \<Rightarrow> 's) \<Rightarrow> bytes \<Rightarrow> nat \<Rightarrow> 's \<Rightarrow> ('s \<times> nat) manifest_result" where
  "put_local read update s i locals = bind_o (read s i) (\<lambda>(v, i). Ok (update (\<lambda>_. Some v) locals, i))"

definition skip_field :: "bytes \<Rightarrow> nat \<Rightarrow> 's \<Rightarrow> ('s \<times> nat) manifest_result" where
  "skip_field s i locals = bind_o (skip_value s i) (\<lambda>(_, i). Ok (locals, i))"

definition missing_if_none :: "string \<Rightarrow> 'a option \<Rightarrow> 'a manifest_result" where
  "missing_if_none what x = ok_or (Malformed what) x"

section \<open>The fingerprint\<close>

record fingerprint_locals =
  fl_footer_length :: "u32 option"
  fl_footer_crc32 :: "u32 option"
  fl_num_rows :: "i64 option"
  fl_num_row_groups :: "u32 option"

definition fingerprint_start :: fingerprint_locals where
  "fingerprint_start = \<lparr>fl_footer_length = None, fl_footer_crc32 = None, fl_num_rows = None, fl_num_row_groups = None\<rparr>"

definition fingerprint_field :: "bytes \<Rightarrow> bytes \<Rightarrow> nat \<Rightarrow> fingerprint_locals \<Rightarrow> (fingerprint_locals \<times> nat) manifest_result" where
  "fingerprint_field key =
     (if key = ascii ''footer_length'' then put_local json_u32 fl_footer_length_update
      else if key = ascii ''footer_crc32'' then put_local json_u32 fl_footer_crc32_update
      else if key = ascii ''num_rows'' then put_local json_i64 fl_num_rows_update
      else if key = ascii ''num_row_groups'' then put_local json_u32 fl_num_row_groups_update
      else skip_field)"

definition parse_fingerprint_json :: "source_fingerprint json_reader" where
  "parse_fingerprint_json s i =
     bind_o (expect_obj_open s i) (\<lambda>(_, i).
     bind_o (obj_loop fingerprint_field s i fingerprint_start) (\<lambda>(l, i).
     bind_o (missing_if_none ''source_fingerprint.footer_length'' (fl_footer_length l)) (\<lambda>footer_length.
     bind_o (missing_if_none ''source_fingerprint.footer_crc32'' (fl_footer_crc32 l)) (\<lambda>footer_crc32.
     bind_o (missing_if_none ''source_fingerprint.num_rows'' (fl_num_rows l)) (\<lambda>num_rows.
     bind_o (missing_if_none ''source_fingerprint.num_row_groups'' (fl_num_row_groups l)) (\<lambda>num_row_groups.
     Ok (\<lparr>sf_footer_length = footer_length, sf_footer_crc32 = footer_crc32, sf_num_rows = num_rows,
          sf_num_row_groups = num_row_groups\<rparr>, i)))))))"

section \<open>The indexes\<close>

record entry_locals =
  el_name :: "bytes option"
  el_sidecar_row_group :: "u32 option"
  el_sidecar_row_group_count :: "u32 option"
  el_type :: "bytes option"
  el_source_column :: "bytes option"
  el_physical_type :: "bytes option"
  el_target_fpp :: "64 word option"
  el_source_columns :: "bytes list option"
  el_physical_types :: "bytes list option"
  el_tokenizer :: "bytes option"

definition entry_start :: entry_locals where
  "entry_start = \<lparr>el_name = None, el_sidecar_row_group = None, el_sidecar_row_group_count = None, el_type = None,
     el_source_column = None, el_physical_type = None, el_target_fpp = None, el_source_columns = None,
     el_physical_types = None, el_tokenizer = None\<rparr>"

definition entry_field :: "float_text \<Rightarrow> bytes \<Rightarrow> bytes \<Rightarrow> nat \<Rightarrow> entry_locals \<Rightarrow> (entry_locals \<times> nat) manifest_result" where
  "entry_field ft key =
     (if key = ascii ''name'' then put_local json_string el_name_update
      else if key = ascii ''sidecar_row_group'' then put_local json_u32 el_sidecar_row_group_update
      else if key = ascii ''sidecar_row_group_count'' then put_local json_u32 el_sidecar_row_group_count_update
      else if key = ascii ''type'' then put_local json_string el_type_update
      else if key = ascii ''source_column'' then put_local json_string el_source_column_update
      else if key = ascii ''physical_type'' then put_local json_string el_physical_type_update
      else if key = ascii ''target_fpp'' then put_local (json_f64 ft) el_target_fpp_update
      else if key = ascii ''source_columns'' then put_local string_array el_source_columns_update
      else if key = ascii ''physical_types'' then put_local string_array el_physical_types_update
      else if key = ascii ''tokenizer'' then put_local json_string el_tokenizer_update
      else skip_field)"

definition parse_physical_type :: "bytes \<Rightarrow> physical_type manifest_result" where
  "parse_physical_type s =
     (if s = ascii ''INT32'' then Ok Phys_Int32
      else if s = ascii ''INT64'' then Ok Phys_Int64
      else if s = ascii ''BYTE_ARRAY'' then Ok Phys_ByteArray
      else Err (Malformed (''unsupported physical_type `'' @ text_of s @ ''`'')))"

definition parse_tokenizer :: "bytes \<Rightarrow> tokenizer manifest_result" where
  "parse_tokenizer s = (if s = ascii ''whitespace_lowercase_v1'' then Ok WhitespaceLowercaseV1 else Err (UnsupportedTokenizer s))"

definition entry_kind :: "bytes \<Rightarrow> entry_locals \<Rightarrow> index_kind manifest_result" where
  "entry_kind typ l =
     (if typ = ascii ''sorted'' then
        bind_o (missing_if_none ''sorted.source_column'' (el_source_column l)) (\<lambda>c.
        bind_o (missing_if_none ''sorted.physical_type'' (el_physical_type l)) (\<lambda>t.
        bind_o (parse_physical_type t) (\<lambda>t. Ok (Kind_Sorted c t))))
      else if typ = ascii ''bloom_page'' then
        bind_o (missing_if_none ''bloom_page.source_column'' (el_source_column l)) (\<lambda>c.
        bind_o (missing_if_none ''bloom_page.target_fpp'' (el_target_fpp l)) (\<lambda>f. Ok (Kind_BloomPage c f)))
      else if typ = ascii ''composite_prefix'' then
        bind_o (missing_if_none ''composite_prefix.source_columns'' (el_source_columns l)) (\<lambda>cols.
        bind_o (missing_if_none ''composite_prefix.physical_types'' (el_physical_types l)) (\<lambda>types_strs.
        if length cols \<noteq> length types_strs
        then Err (Malformed ''composite_prefix: source_columns and physical_types differ in length'')
        else bind_o (mapM_o parse_physical_type types_strs) (\<lambda>types. Ok (Kind_CompositePrefix cols types))))
      else if typ = ascii ''inverted'' then
        bind_o (missing_if_none ''inverted.source_column'' (el_source_column l)) (\<lambda>c.
        bind_o (missing_if_none ''inverted.tokenizer'' (el_tokenizer l)) (\<lambda>t.
        bind_o (parse_tokenizer t) (\<lambda>t. Ok (Kind_Inverted c t))))
      else Err (Malformed (''unknown index type `'' @ text_of typ @ ''`'')))"

definition parse_one_index :: "float_text \<Rightarrow> index_entry json_reader" where
  "parse_one_index ft s i =
     bind_o (expect_obj_open s i) (\<lambda>(_, i).
     bind_o (obj_loop (entry_field ft) s i entry_start) (\<lambda>(l, i).
     bind_o (missing_if_none ''index.name'' (el_name l)) (\<lambda>name.
     bind_o (missing_if_none ''index.sidecar_row_group'' (el_sidecar_row_group l)) (\<lambda>rg.
     let count = max (case el_sidecar_row_group_count l of None \<Rightarrow> 1 | Some c \<Rightarrow> c) 1
     in bind_o (missing_if_none ''index.type'' (el_type l)) (\<lambda>typ.
        bind_o (entry_kind typ l) (\<lambda>kind.
        Ok (\<lparr>ie_name = name, ie_kind = kind, ie_sidecar_row_group = rg, ie_sidecar_row_group_count = count\<rparr>, i)))))))"

definition parse_indexes :: "float_text \<Rightarrow> index_entry list json_reader" where
  "parse_indexes ft s i = bind_o (expect_arr_open s i) (\<lambda>(_, i). arr_loop (parse_one_index ft) s i [])"

section \<open>The manifest\<close>

record manifest_locals =
  ml_version :: "bytes option"
  ml_fp :: "source_fingerprint option"
  ml_indexes :: "index_entry list option"

definition manifest_start :: manifest_locals where
  "manifest_start = \<lparr>ml_version = None, ml_fp = None, ml_indexes = None\<rparr>"

definition manifest_field :: "float_text \<Rightarrow> bytes \<Rightarrow> bytes \<Rightarrow> nat \<Rightarrow> manifest_locals \<Rightarrow> (manifest_locals \<times> nat) manifest_result" where
  "manifest_field ft key =
     (if key = ascii ''version'' then put_local json_string ml_version_update
      else if key = ascii ''source_fingerprint'' then put_local parse_fingerprint_json ml_fp_update
      else if key = ascii ''indexes'' then put_local (parse_indexes ft) ml_indexes_update
      else skip_field)"

definition from_json :: "float_text \<Rightarrow> bytes \<Rightarrow> index_manifest manifest_result" where
  "from_json ft s =
     bind_o (expect_obj_open s 0) (\<lambda>(_, i).
     bind_o (obj_loop (manifest_field ft) s i manifest_start) (\<lambda>(l, i).
     bind_o (missing_if_none ''missing `version` key'' (ml_version l)) (\<lambda>version.
     if version \<noteq> manifest_version then Err (UnsupportedVersion version)
     else bind_o (missing_if_none ''missing `source_fingerprint` key'' (ml_fp l)) (\<lambda>fp.
          bind_o (missing_if_none ''missing `indexes` key'' (ml_indexes l)) (\<lambda>indexes.
          Ok \<lparr>im_source_fingerprint = fp, im_indexes = indexes\<rparr>)))))"

end
