(* ===== verification/IndexBuild.thy ===== *)
theory IndexBuild
  imports ManifestParse "HOL-Library.AList" "HOL-Library.List_Lexorder" "HOL-Library.Product_Lexorder" WriteColumn
begin

text \<open>
  The builder of sidecar indexes, \<open>index/builder.rs\<close>: the rows of every data page go into buckets by value, row group and
  page; the sorted buckets, each with its set of rows, become a table, and the manifest goes into its footer.  The
  buckets, a \<open>HashMap\<close> whose keys are sorted before use, are an association list.
\<close>

section \<open>The source column\<close>

fun parquet_type_name :: "parquet_type \<Rightarrow> string" where
  "parquet_type_name PT_Boolean = ''Boolean''"
| "parquet_type_name PT_Int32 = ''Int32''"
| "parquet_type_name PT_Int64 = ''Int64''"
| "parquet_type_name PT_Int96 = ''Int96''"
| "parquet_type_name PT_Float = ''Float''"
| "parquet_type_name PT_Double = ''Double''"
| "parquet_type_name PT_ByteArray = ''ByteArray''"
| "parquet_type_name PT_FixedLenByteArray = ''FixedLenByteArray''"

definition leaf_or_err :: "schema_element list \<Rightarrow> nat \<Rightarrow> schema_element codec_result" where
  "leaf_or_err schema source_column =
     (if source_column + 1 < 2 ^ 64
      then get_o (InvalidInput (''source_column '' @ decimal source_column @ '' out of range in flat schema'')) schema (source_column + 1)
      else Err (InvalidInput ''source_column index overflow''))"

definition leaf_type_of :: "schema_element \<Rightarrow> nat \<Rightarrow> parquet_type codec_result" where
  "leaf_type_of leaf source_column =
     ok_or (InvalidInput (''schema element at leaf '' @ decimal source_column @ '' has no physical type (group node?)'')) (se_column_type leaf)"

text \<open>The checks at the head of the single-column builders.\<close>

definition typed_leaf :: "string \<Rightarrow> parquet_type \<Rightarrow> string \<Rightarrow> file_metadata \<Rightarrow> nat \<Rightarrow> schema_element codec_result" where
  "typed_leaf caller type type_text md source_column =
     bind_o (leaf_or_err (fm_schema md) source_column) (\<lambda>leaf.
     bind_o (leaf_type_of leaf source_column) (\<lambda>leaf_type.
     if leaf_type \<noteq> type
     then Err (InvalidInput (caller @ '': source column '' @ decimal source_column @ '' is '' @ parquet_type_name leaf_type @ '', expected '' @ type_text))
     else Ok leaf))"

section \<open>Buckets\<close>

type_synonym 'v buckets = "(('v \<times> u32 \<times> u32) \<times> u32 list) list"
type_synonym page_sizes = "((u32 \<times> u32) \<times> u32) list"

text \<open>\<open>entry(key).or_default().push(r)\<close>.\<close>

definition bucket_push :: "'k \<Rightarrow> u32 \<Rightarrow> ('k \<times> u32 list) list \<Rightarrow> ('k \<times> u32 list) list" where
  "bucket_push k r buckets = AList.update k ((case map_of buckets k of None \<Rightarrow> [] | Some rs \<Rightarrow> rs) @ [r]) buckets"

text \<open>The loop over the pages of a row group; \<open>row_keys\<close> gives the values a row is filed under.\<close>

definition bucket_row :: "(nat \<Rightarrow> 'v list codec_result) \<Rightarrow> u32 \<Rightarrow> data_page_layout \<Rightarrow> 'v buckets \<Rightarrow> nat \<Rightarrow> 'v buckets codec_result" where
  "bucket_row row_keys rg page buckets r =
     bind_o (row_keys (dl_first_row page + r)) (\<lambda>vs.
     Ok (foldl (\<lambda>b v. bucket_push (v, rg, dl_page_idx page) (of_nat r) b) buckets vs))"

definition bucket_page ::
  "(nat \<Rightarrow> 'v list codec_result) \<Rightarrow> u32 \<Rightarrow> 'v buckets \<times> page_sizes \<Rightarrow> data_page_layout \<Rightarrow> ('v buckets \<times> page_sizes) codec_result" where
  "bucket_page row_keys rg s page =
     bind_o (fold_o (bucket_row row_keys rg page) (fst s) [0..<dl_num_values page]) (\<lambda>buckets.
     Ok (buckets, AList.update (rg, dl_page_idx page) (of_nat (dl_num_values page)) (snd s)))"

text \<open>The layout of a chunk, checked against the number of values it decoded to.\<close>

definition checked_layouts :: "parquet_file \<Rightarrow> nat \<Rightarrow> nat \<Rightarrow> string \<Rightarrow> nat \<Rightarrow> data_page_layout list codec_result" where
  "checked_layouts source rg source_column column_text n =
     bind_o (page_layouts source rg source_column) (\<lambda>layouts.
     bind_o (fold_o (\<lambda>summed p. add_usize summed (dl_num_values p)) 0 layouts) (\<lambda>summed.
     if summed \<noteq> n
     then Err (InvalidInput (''page-layout walk for rg='' @ decimal rg @ '' '' @ column_text @ ''='' @ decimal source_column @ '' summed to '' @
            decimal summed @ '' values, but column decoded '' @ decimal n))
     else Ok layouts))"

text \<open>One row group; \<open>load\<close> decodes it and gives the number of its values and the keys of a row.\<close>

definition bucket_row_group ::
  "parquet_file \<Rightarrow> nat \<Rightarrow> string \<Rightarrow> (nat \<Rightarrow> (nat \<times> (nat \<Rightarrow> 'v list codec_result)) codec_result) \<Rightarrow>
   'v buckets \<times> page_sizes \<Rightarrow> nat \<Rightarrow> ('v buckets \<times> page_sizes) codec_result" where
  "bucket_row_group source source_column column_text load s rg =
     bind_o (load rg) (\<lambda>(n, row_keys).
     bind_o (checked_layouts source rg source_column column_text n) (\<lambda>layouts.
     fold_o (bucket_page row_keys (of_nat rg)) s layouts))"

definition bucket_file ::
  "parquet_file \<Rightarrow> file_metadata \<Rightarrow> nat \<Rightarrow> string \<Rightarrow> (nat \<Rightarrow> (nat \<times> (nat \<Rightarrow> 'v list codec_result)) codec_result) \<Rightarrow>
   ('v buckets \<times> page_sizes) codec_result" where
  "bucket_file source md source_column column_text load =
     fold_o (bucket_row_group source source_column column_text load) ([], []) [0..<length (fm_row_groups md)]"

text \<open>A row filed under its value.\<close>

definition by_value :: "(nat \<Rightarrow> 'v list codec_result) \<Rightarrow> nat \<Rightarrow> (nat \<times> (nat \<Rightarrow> 'v list codec_result)) codec_result" where
  "by_value read rg = bind_o (read rg) (\<lambda>vs. Ok (length vs, \<lambda>i. bind_o (index_o vs i) (\<lambda>v. Ok [v])))"

section \<open>Rows of the index\<close>

text \<open>The orders of the values: signed integers, pairs of them, bytes lexicographically.\<close>

definition rank_int :: "'w::len word \<Rightarrow> int list" where
  "rank_int v = [sint v]"

definition rank_pair :: "i64 \<times> i64 \<Rightarrow> int list" where
  "rank_pair v = [sint (fst v), sint (snd v)]"

definition rank_bytes :: "bytes \<Rightarrow> int list" where
  "rank_bytes v = map uint v"

definition key_rank :: "('v \<Rightarrow> int list) \<Rightarrow> 'v \<times> u32 \<times> u32 \<Rightarrow> int list \<times> int \<times> int" where
  "key_rank rank k = (case k of (v, rg, page) \<Rightarrow> (rank v, uint rg, uint page))"

record 'v index_row =
  ir_value :: 'v
  ir_rg :: i32
  ir_page :: i32
  ir_rowset :: bytes

definition emit_row :: "'v buckets \<times> page_sizes \<Rightarrow> 'v \<times> u32 \<times> u32 \<Rightarrow> 'v index_row codec_result" where
  "emit_row s k =
     (case k of (v, rg, page) \<Rightarrow>
        case map_of (snd s) (rg, page) of
          None \<Rightarrow> Panic ''page_sizes entry exists for emitted bucket''
        | Some num_values \<Rightarrow>
            (case map_of (fst s) k of
               None \<Rightarrow> Panic ''bucket exists for emitted key''
             | Some positions \<Rightarrow>
                 bind_o (encode_tagged positions (unat num_values)) (\<lambda>rowset.
                 Ok \<lparr>ir_value = v, ir_rg = rg, ir_page = page, ir_rowset = rowset\<rparr>)))"

definition emit_rows :: "('v \<Rightarrow> int list) \<Rightarrow> 'v buckets \<times> page_sizes \<Rightarrow> 'v index_row list codec_result" where
  "emit_rows rank s = mapM_o (emit_row s) (sort_key (key_rank rank) (map fst (fst s)))"

section \<open>The sidecar file\<close>

definition sidecar_rg_rows :: nat where "sidecar_rg_rows = 256 * 1024"

definition leaf_name :: "string \<Rightarrow> schema_element \<Rightarrow> bytes codec_result" where
  "leaf_name what leaf = (if utf8_ok (se_name leaf) then Ok (se_name leaf) else Err (InvalidInput (what @ '' name is not valid UTF-8'')))"

definition index_entry_for :: "bytes \<Rightarrow> index_kind \<Rightarrow> u32 \<Rightarrow> index_entry" where
  "index_entry_for index_name kind count =
     \<lparr>ie_name = index_name, ie_kind = kind, ie_sidecar_row_group = 0, ie_sidecar_row_group_count = count\<rparr>"

definition sidecar_options :: "float_text \<Rightarrow> source_fingerprint \<Rightarrow> index_entry \<Rightarrow> table_options" where
  "sidecar_options ft fp entry = write_options_default\<lparr>wt_default_codec := CC_Snappy,
     wt_kv_metadata := Some [(manifest_key_v3, to_json ft \<lparr>im_source_fingerprint = fp, im_indexes = [entry]\<rparr>)]\<rparr>"

definition target_columns :: "'v index_row list \<Rightarrow> (bytes \<times> column_data) list" where
  "target_columns rows = [(ascii ''target_rg'', Col_I32 (map ir_rg rows)), (ascii ''target_page'', Col_I32 (map ir_page rows)),
     (ascii ''target_rowset'', Col_ByteArray (map ir_rowset rows))]"

text \<open>The part the builders share from the buckets on: rows, fingerprint, names, manifest, table.\<close>

definition emit_sidecar ::
  "codecs \<Rightarrow> (nat \<Rightarrow> 64 word \<Rightarrow> u64) \<Rightarrow> float_text \<Rightarrow> parquet_file \<Rightarrow> ('v \<Rightarrow> int list) \<Rightarrow> ('v buckets \<times> page_sizes) \<Rightarrow>
   ('v index_row list \<Rightarrow> index_entry codec_result) \<Rightarrow> ('v index_row list \<Rightarrow> (bytes \<times> column_data) list) \<Rightarrow>
   (table_options \<Rightarrow> table_options) \<Rightarrow> bytes codec_result" where
  "emit_sidecar ext sbbf ft source rank s entry_of value_columns adjust =
     bind_o (emit_rows rank s) (\<lambda>rows.
     bind_o (compute_source_fingerprint source) (\<lambda>fp.
     bind_o (entry_of rows) (\<lambda>entry.
     write_table_with_options_to_path ext sbbf (value_columns rows @ target_columns rows) (adjust (sidecar_options ft fp entry)))))"

section \<open>Sorted indexes\<close>

definition write_sorted_i64 ::
  "codecs \<Rightarrow> (nat \<Rightarrow> 64 word \<Rightarrow> u64) \<Rightarrow> float_text \<Rightarrow> parquet_file \<Rightarrow> bytes \<Rightarrow> nat \<Rightarrow> bytes codec_result" where
  "write_sorted_i64 ext sbbf ft source index_name source_column =
     bind_o (metadata_for_index ''read parquet metadata'' source) (\<lambda>md.
     bind_o (typed_leaf ''write_sorted_i64'' PT_Int64 ''INT64'' md source_column) (\<lambda>leaf.
     bind_o (bucket_file source md source_column ''col'' (by_value (\<lambda>rg. read_column_i64 ext source rg source_column))) (\<lambda>s.
     emit_sidecar ext sbbf ft source rank_int s
       (\<lambda>rows. bind_o (leaf_name ''schema element'' leaf) (\<lambda>nm.
          Ok (index_entry_for index_name (Kind_Sorted nm Phys_Int64) (of_nat (max (div_ceil (length rows) sidecar_rg_rows) 1)))))
       (\<lambda>rows. [(ascii ''value'', Col_I64 (map ir_value rows))])
       (\<lambda>opts. opts\<lparr>wt_row_group_size := sidecar_rg_rows\<rparr>))))"

definition write_sorted_i32 ::
  "codecs \<Rightarrow> (nat \<Rightarrow> 64 word \<Rightarrow> u64) \<Rightarrow> float_text \<Rightarrow> parquet_file \<Rightarrow> bytes \<Rightarrow> nat \<Rightarrow> bytes codec_result" where
  "write_sorted_i32 ext sbbf ft source index_name source_column =
     bind_o (metadata_for_index ''read parquet metadata'' source) (\<lambda>md.
     bind_o (typed_leaf ''write_sorted_i32'' PT_Int32 ''INT32'' md source_column) (\<lambda>leaf.
     bind_o (bucket_file source md source_column ''col'' (by_value (\<lambda>rg. read_column_i32 ext source rg source_column))) (\<lambda>s.
     emit_sidecar ext sbbf ft source rank_int s
       (\<lambda>rows. bind_o (leaf_name ''schema element'' leaf) (\<lambda>nm. Ok (index_entry_for index_name (Kind_Sorted nm Phys_Int32) 1)))
       (\<lambda>rows. [(ascii ''value'', Col_I32 (map ir_value rows))]) (\<lambda>opts. opts))))"

definition write_sorted_byte_array ::
  "codecs \<Rightarrow> (nat \<Rightarrow> 64 word \<Rightarrow> u64) \<Rightarrow> float_text \<Rightarrow> parquet_file \<Rightarrow> bytes \<Rightarrow> nat \<Rightarrow> bytes codec_result" where
  "write_sorted_byte_array ext sbbf ft source index_name source_column =
     bind_o (metadata_for_index ''read parquet metadata'' source) (\<lambda>md.
     bind_o (typed_leaf ''write_sorted_byte_array'' PT_ByteArray ''BYTE_ARRAY'' md source_column) (\<lambda>leaf.
     bind_o (bucket_file source md source_column ''col'' (by_value (\<lambda>rg. read_column_byte_array ext source rg source_column))) (\<lambda>s.
     emit_sidecar ext sbbf ft source rank_bytes s
       (\<lambda>rows. bind_o (leaf_name ''schema element'' leaf) (\<lambda>nm. Ok (index_entry_for index_name (Kind_Sorted nm Phys_ByteArray) 1)))
       (\<lambda>rows. [(ascii ''value'', Col_ByteArray (map ir_value rows))]) (\<lambda>opts. opts))))"

section \<open>Composite and inverted indexes\<close>

definition load_composite :: "codecs \<Rightarrow> parquet_file \<Rightarrow> nat \<Rightarrow> nat \<Rightarrow> nat \<Rightarrow> (nat \<times> (nat \<Rightarrow> (i64 \<times> i64) list codec_result)) codec_result" where
  "load_composite ext source a b rg =
     bind_o (read_column_i64 ext source rg a) (\<lambda>values_a.
     bind_o (read_column_i64 ext source rg b) (\<lambda>values_b.
     if length values_a \<noteq> length values_b
     then Err (InvalidInput (''composite-prefix build: column lengths differ for rg='' @ decimal rg @ '' (col_a='' @ decimal (length values_a) @
            '' rows, col_b='' @ decimal (length values_b) @ '' rows)''))
     else Ok (length values_a, \<lambda>i. bind_o (index_o values_a i) (\<lambda>x. bind_o (index_o values_b i) (\<lambda>y. Ok [(x, y)])))))"

definition write_sorted_composite_prefix_i64_i64 ::
  "codecs \<Rightarrow> (nat \<Rightarrow> 64 word \<Rightarrow> u64) \<Rightarrow> float_text \<Rightarrow> parquet_file \<Rightarrow> bytes \<Rightarrow> nat \<Rightarrow> nat \<Rightarrow> bytes codec_result" where
  "write_sorted_composite_prefix_i64_i64 ext sbbf ft source index_name a b =
     (if a = b
      then Err (InvalidInput (''write_sorted_composite_prefix_i64_i64: source_col_a and source_col_b must differ (both = '' @ decimal a @ '')''))
      else bind_o (metadata_for_index ''read parquet metadata'' source) (\<lambda>md.
           bind_o (leaf_or_err (fm_schema md) a) (\<lambda>leaf_a.
           bind_o (leaf_or_err (fm_schema md) b) (\<lambda>leaf_b.
           bind_o (leaf_type_of leaf_a a) (\<lambda>leaf_a_type.
           bind_o (leaf_type_of leaf_b b) (\<lambda>leaf_b_type.
           if leaf_a_type \<noteq> PT_Int64 \<or> leaf_b_type \<noteq> PT_Int64
           then Err (InvalidInput (''write_sorted_composite_prefix_i64_i64: source columns '' @ decimal a @ ''/'' @ decimal b @ '' are '' @
                  parquet_type_name leaf_a_type @ ''/'' @ parquet_type_name leaf_b_type @ '', expected INT64/INT64''))
           else bind_o (bucket_file source md a ''col_a'' (load_composite ext source a b)) (\<lambda>s.
             emit_sidecar ext sbbf ft source rank_pair s
               (\<lambda>rows. bind_o (leaf_name ''schema element a'' leaf_a) (\<lambda>nm_a. bind_o (leaf_name ''schema element b'' leaf_b) (\<lambda>nm_b.
                  Ok (index_entry_for index_name (Kind_CompositePrefix [nm_a, nm_b] [Phys_Int64, Phys_Int64]) 1))))
               (\<lambda>rows. [(ascii ''value_a'', Col_I64 (map (\<lambda>row. fst (ir_value row)) rows)),
                  (ascii ''value_b'', Col_I64 (map (\<lambda>row. snd (ir_value row)) rows))]) (\<lambda>opts. opts))))))))"

text \<open>The tokens of a row, the first of each.\<close>

definition dedup_tokens :: "bytes list \<Rightarrow> bytes list" where
  "dedup_tokens toks = foldl (\<lambda>seen t. if t \<in> set seen then seen else seen @ [t]) [] toks"

definition load_tokens ::
  "codecs \<Rightarrow> parquet_file \<Rightarrow> nat \<Rightarrow> tokenizer \<Rightarrow> nat \<Rightarrow> (nat \<times> (nat \<Rightarrow> bytes list codec_result)) codec_result" where
  "load_tokens ext source column tokenizer rg =
     bind_o (read_column_byte_array ext source rg column) (\<lambda>vs.
     Ok (length vs, \<lambda>i. bind_o (index_o vs i) (\<lambda>v. Ok (dedup_tokens (tokenize tokenizer v)))))"

definition write_inverted_byte_array ::
  "codecs \<Rightarrow> (nat \<Rightarrow> 64 word \<Rightarrow> u64) \<Rightarrow> float_text \<Rightarrow> parquet_file \<Rightarrow> bytes \<Rightarrow> nat \<Rightarrow> tokenizer \<Rightarrow> bytes codec_result" where
  "write_inverted_byte_array ext sbbf ft source index_name source_column tokenizer =
     bind_o (metadata_for_index ''read parquet metadata'' source) (\<lambda>md.
     bind_o (typed_leaf ''write_inverted_byte_array'' PT_ByteArray ''BYTE_ARRAY'' md source_column) (\<lambda>leaf.
     bind_o (bucket_file source md source_column ''col'' (load_tokens ext source source_column tokenizer)) (\<lambda>s.
     emit_sidecar ext sbbf ft source rank_bytes s
       (\<lambda>rows. bind_o (leaf_name ''schema element'' leaf) (\<lambda>nm. Ok (index_entry_for index_name (Kind_Inverted nm tokenizer) 1)))
       (\<lambda>rows. [(ascii ''token'', Col_ByteArray (map ir_value rows))]) (\<lambda>opts. opts))))"

section \<open>Page blooms\<close>

text \<open>\<open>target_fpp > 0.0 && target_fpp < 1.0\<close>.\<close>

definition fpp_ok :: "64 word \<Rightarrow> bool" where
  "fpp_ok fpp \<longleftrightarrow> f64_lt 0 fpp \<and> f64_lt fpp 0x3FF0000000000000"

definition bloom_page ::
  "(nat \<Rightarrow> 64 word \<Rightarrow> u64) \<Rightarrow> 64 word \<Rightarrow> u32 \<Rightarrow> i64 list \<Rightarrow> (u32 \<times> u32 \<times> bytes) list \<Rightarrow> data_page_layout \<Rightarrow> (u32 \<times> u32 \<times> bytes) list codec_result" where
  "bloom_page sbbf fpp rg vs entries page =
     bind_o (list_range vs (dl_first_row page) (dl_first_row page + dl_num_values page)) (\<lambda>part.
     let different = remdups part
     in bind_o (optimal_num_blocks sbbf (length different) fpp) (\<lambda>num_blocks.
        bind_o (fold_o (\<lambda>b v. insert_bytes b (to_le_bytes v)) (bloom_builder_new num_blocks) different) (\<lambda>b.
        Ok (entries @ [(rg, dl_page_idx page, bloom_into_bytes b)]))))"

definition bloom_row_group ::
  "codecs \<Rightarrow> (nat \<Rightarrow> 64 word \<Rightarrow> u64) \<Rightarrow> parquet_file \<Rightarrow> nat \<Rightarrow> 64 word \<Rightarrow> (u32 \<times> u32 \<times> bytes) list \<Rightarrow> nat \<Rightarrow> (u32 \<times> u32 \<times> bytes) list codec_result" where
  "bloom_row_group ext sbbf source column fpp entries rg =
     bind_o (read_column_i64 ext source rg column) (\<lambda>vs.
     bind_o (checked_layouts source rg column ''col'' (length vs)) (\<lambda>layouts.
     fold_o (bloom_page sbbf fpp (of_nat rg) vs) entries layouts))"

definition write_bloom_page_i64 ::
  "codecs \<Rightarrow> (nat \<Rightarrow> 64 word \<Rightarrow> u64) \<Rightarrow> float_text \<Rightarrow> parquet_file \<Rightarrow> bytes \<Rightarrow> nat \<Rightarrow> 64 word \<Rightarrow> bytes codec_result" where
  "write_bloom_page_i64 ext sbbf ft source index_name source_column target_fpp =
     bind_o (metadata_for_index ''read parquet metadata'' source) (\<lambda>md.
     bind_o (typed_leaf ''write_bloom_page_i64'' PT_Int64 ''INT64'' md source_column) (\<lambda>leaf.
     if \<not> fpp_ok target_fpp
     then Err (InvalidInput (''write_bloom_page_i64: target_fpp must be in (0, 1), got '' @ text_of (ft_display ft target_fpp)))
     else bind_o (fold_o (bloom_row_group ext sbbf source source_column target_fpp) [] [0..<length (fm_row_groups md)]) (\<lambda>entries.
       let sorted_entries = sort_key (\<lambda>(rg, page, _). (uint rg, uint page)) entries
       in bind_o (compute_source_fingerprint source) (\<lambda>fp.
          bind_o (leaf_name ''schema element'' leaf) (\<lambda>nm.
          write_table_with_options_to_path ext sbbf
            [(ascii ''source_rg'', Col_I32 (map (\<lambda>(rg, page, bytes). rg) sorted_entries)),
             (ascii ''source_page'', Col_I32 (map (\<lambda>(rg, page, bytes). page) sorted_entries)),
             (ascii ''bloom_block'', Col_ByteArray (map (\<lambda>(rg, page, bytes). bytes) sorted_entries))]
            ((sidecar_options ft fp (index_entry_for index_name (Kind_BloomPage nm target_fpp) 1))\<lparr>wt_default_codec := CC_Uncompressed\<rparr>))))))"

end
