(* ===== verification/IndexRead.thy ===== *)
theory IndexRead
  imports IndexBuild
begin

text \<open>
  The readers of sidecar indexes, \<open>index/reader.rs\<close>: opening a sidecar against its source, the eager index in memory and
  its lookups, the lazy one that prunes row groups by their statistics, and the reads that turn hits into masks.
\<close>

section \<open>Searching sorted lists\<close>

text \<open>\<open>slice::binary_search_by\<close> and \<open>slice::partition_point\<close> of the standard library.\<close>

datatype ordering = Is_Less | Is_Equal | Is_Greater

definition compare_rank :: "int list \<Rightarrow> int list \<Rightarrow> ordering" where
  "compare_rank x y = (if x < y then Is_Less else if x = y then Is_Equal else Is_Greater)"

function search_loop :: "('a \<Rightarrow> ordering) \<Rightarrow> 'a list \<Rightarrow> nat \<Rightarrow> nat \<Rightarrow> nat" where
  "search_loop f xs base n =
     (if n > 1
      then let half = n div 2; mid = base + half
           in search_loop f xs (if f (xs ! mid) = Is_Greater then base else mid) (n - half)
      else base)"
  by pat_completeness auto
termination
  by (relation "measure (\<lambda>(f, xs, base, n). n)") auto

declare search_loop.simps [simp del]

definition binary_search_by :: "('a \<Rightarrow> ordering) \<Rightarrow> 'a list \<Rightarrow> nat + nat" where
  "binary_search_by f xs =
     (if xs = [] then Inr 0
      else let base = search_loop f xs 0 (length xs)
           in case f (xs ! base) of Is_Equal \<Rightarrow> Inl base | Is_Less \<Rightarrow> Inr (base + 1) | Is_Greater \<Rightarrow> Inr base)"

definition partition_point :: "('a \<Rightarrow> bool) \<Rightarrow> 'a list \<Rightarrow> nat" where
  "partition_point p xs = (case binary_search_by (\<lambda>x. if p x then Is_Less else Is_Greater) xs of Inl i \<Rightarrow> i | Inr i \<Rightarrow> i)"

text \<open>The walks over the duplicates of a value found.\<close>

fun run_start :: "'a list \<Rightarrow> 'a \<Rightarrow> nat \<Rightarrow> nat" where
  "run_start xs v 0 = 0"
| "run_start xs v (Suc i) = (if xs ! i = v then run_start xs v i else Suc i)"

function run_end :: "'a list \<Rightarrow> 'a \<Rightarrow> nat \<Rightarrow> nat" where
  "run_end xs v i = (if i < length xs \<and> xs ! i = v then run_end xs v (i + 1) else i)"
  by pat_completeness auto
termination
  by (relation "measure (\<lambda>(xs, v, i). length xs - i)") auto

declare run_end.simps [simp del]

section \<open>Loaded indexes\<close>

text \<open>Parallel vectors; the four structs of the sorted and the inverted indexes differ in the type of their values.\<close>

record 'v loaded_typed =
  lt_values :: "'v list"
  lt_target_rgs :: "i32 list"
  lt_target_pages :: "i32 list"
  lt_rowsets :: "bytes list"

record loaded_bloom_page =
  lb_source_rgs :: "i32 list"
  lb_source_pages :: "i32 list"
  lb_blooms :: "bytes list"

record loaded_composite =
  lc_values_a :: "i64 list"
  lc_values_b :: "i64 list"
  lc_target_rgs :: "i32 list"
  lc_target_pages :: "i32 list"
  lc_rowsets :: "bytes list"

datatype loaded_index_data =
    Loaded_SortedI64 "i64 loaded_typed"
  | Loaded_SortedI32 "i32 loaded_typed"
  | Loaded_SortedBytes "bytes loaded_typed"
  | Loaded_BloomPage loaded_bloom_page
  | Loaded_CompositePrefixI64I64 loaded_composite
  | Loaded_Inverted "bytes loaded_typed"

record loaded_index =
  li_entry :: index_entry
  li_data :: loaded_index_data

record parquet_index =
  pi_manifest :: index_manifest
  pi_indexes :: "loaded_index list"
  pi_rowset_format :: rowset_format

section \<open>Opening a sidecar\<close>

definition manifest_to_codec :: "manifest_error \<Rightarrow> codec_error" where
  "manifest_to_codec e = InvalidInput (manifest_error_text e)"

definition find_manifest :: "key_value list \<Rightarrow> (key_value \<times> rowset_format) option" where
  "find_manifest kvs =
     (case List.find (\<lambda>kv. kv_key kv = manifest_key_v3) kvs of
        Some kv \<Rightarrow> Some (kv, V2_Tagged)
      | None \<Rightarrow> (case List.find (\<lambda>kv. kv_key kv = manifest_key_v2) kvs of
          Some kv \<Rightarrow> Some (kv, V2_Tagged)
        | None \<Rightarrow> (case List.find (\<lambda>kv. kv_key kv = manifest_key) kvs of
            Some kv \<Rightarrow> Some (kv, V1_Raw)
          | None \<Rightarrow> None)))"

text \<open>The part both readers share: the file, its manifest, and the check against the source.\<close>

definition open_sidecar :: "float_text \<Rightarrow> bytes \<Rightarrow> parquet_file \<Rightarrow> (parquet_file \<times> index_manifest \<times> rowset_format) codec_result" where
  "open_sidecar ft idx source =
     bind_o (map_err (\<lambda>e. InvalidInput (''open sidecar: '' @ io_error_text e)) (file_open idx)) (\<lambda>idx_file.
     bind_o (metadata_for_index ''read sidecar metadata'' idx_file) (\<lambda>md.
     bind_o (ok_or (manifest_to_codec Manifest_Missing) (fm_key_value_metadata md)) (\<lambda>kvs.
     bind_o (ok_or (manifest_to_codec Manifest_Missing) (find_manifest kvs)) (\<lambda>(kv, fmt).
     bind_o (ok_or (manifest_to_codec Manifest_Missing) (kv_value kv)) (\<lambda>json.
     if \<not> utf8_ok json then Err (manifest_to_codec (Malformed ''manifest value is not valid UTF-8''))
     else bind_o (map_err manifest_to_codec (from_json ft json)) (\<lambda>manifest.
          bind_o (compute_source_fingerprint source) (\<lambda>actual_fp.
          if actual_fp \<noteq> im_source_fingerprint manifest
          then Err (manifest_to_codec (SourceFingerprintMismatch (im_source_fingerprint manifest) actual_fp))
          else Ok (idx_file, manifest, fmt))))))))"

text \<open>\<open>read_column_*_rgs\<close>: one column over consecutive row groups.\<close>

definition read_rgs :: "(nat \<Rightarrow> nat \<Rightarrow> 'v list codec_result) \<Rightarrow> nat \<Rightarrow> nat \<Rightarrow> nat \<Rightarrow> 'v list codec_result" where
  "read_rgs read start count column =
     fold_o (\<lambda>out rg. bind_o (read rg column) (\<lambda>vs. Ok (out @ vs))) [] [start..<start + count]"

definition check_aligned :: "bytes \<Rightarrow> nat \<Rightarrow> nat \<Rightarrow> i32 list \<Rightarrow> i32 list \<Rightarrow> bytes list \<Rightarrow> unit codec_result" where
  "check_aligned name rg n_values target_rgs target_pages rowsets =
     (if length target_rgs \<noteq> n_values \<or> length target_pages \<noteq> n_values \<or> length rowsets \<noteq> n_values
      then Err (InvalidInput (''index `'' @ text_of name @ ''` row group '' @ decimal rg @ '' has mismatched column lengths (value='' @
             decimal n_values @ '', rg='' @ decimal (length target_rgs) @ '', page='' @ decimal (length target_pages) @ '', rowset='' @
             decimal (length rowsets) @ '')''))
      else Ok ())"

definition load_sorted ::
  "codecs \<Rightarrow> parquet_file \<Rightarrow> index_entry \<Rightarrow> (parquet_file \<Rightarrow> nat \<Rightarrow> nat \<Rightarrow> 'v list codec_result) \<Rightarrow> 'v loaded_typed codec_result" where
  "load_sorted ext idx_file entry read =
     (let rg = unat (ie_sidecar_row_group entry); rg_count = unat (max (ie_sidecar_row_group_count entry) 1)
      in bind_o (read_rgs (read idx_file) rg rg_count 0) (\<lambda>vals.
         bind_o (read_rgs (read_column_i32 ext idx_file) rg rg_count 1) (\<lambda>target_rgs.
         bind_o (read_rgs (read_column_i32 ext idx_file) rg rg_count 2) (\<lambda>target_pages.
         bind_o (read_rgs (read_column_byte_array ext idx_file) rg rg_count 3) (\<lambda>rowsets.
         bind_o (check_aligned (ie_name entry) rg (length vals) target_rgs target_pages rowsets) (\<lambda>_.
         Ok \<lparr>lt_values = vals, lt_target_rgs = target_rgs, lt_target_pages = target_pages, lt_rowsets = rowsets\<rparr>))))))"

definition debug_list :: "string list \<Rightarrow> string" where
  "debug_list xs = ''['' @ (case xs of [] \<Rightarrow> [] | y # ys \<Rightarrow> y @ concat (map (\<lambda>z. '', '' @ z) ys)) @ '']''"

fun debug_physical_type :: "physical_type \<Rightarrow> string" where
  "debug_physical_type Phys_Int32 = ''Int32''"
| "debug_physical_type Phys_Int64 = ''Int64''"
| "debug_physical_type Phys_ByteArray = ''ByteArray''"

definition load_composite_prefix :: "codecs \<Rightarrow> parquet_file \<Rightarrow> index_entry \<Rightarrow> bytes list \<Rightarrow> physical_type list \<Rightarrow> loaded_composite codec_result" where
  "load_composite_prefix ext idx_file entry source_columns physical_types =
     (if length source_columns \<noteq> 2 \<or> physical_types \<noteq> [Phys_Int64, Phys_Int64]
      then Err (InvalidInput (''composite-prefix index `'' @ text_of (ie_name entry) @ ''`: MVP supports exactly (INT64, INT64); got types '' @
             debug_list (map debug_physical_type physical_types)))
      else let rg = unat (ie_sidecar_row_group entry)
      in bind_o (read_column_i64 ext idx_file rg 0) (\<lambda>values_a.
         bind_o (read_column_i64 ext idx_file rg 1) (\<lambda>values_b.
         bind_o (read_column_i32 ext idx_file rg 2) (\<lambda>target_rgs.
         bind_o (read_column_i32 ext idx_file rg 3) (\<lambda>target_pages.
         bind_o (read_column_byte_array ext idx_file rg 4) (\<lambda>rowsets.
         let n = length values_a
         in if length values_b \<noteq> n \<or> length target_rgs \<noteq> n \<or> length target_pages \<noteq> n \<or> length rowsets \<noteq> n
            then Err (InvalidInput (''composite-prefix index `'' @ text_of (ie_name entry) @ ''` row group '' @ decimal rg @
                   '' has mismatched column lengths (a='' @ decimal n @ '', b='' @ decimal (length values_b) @ '', rg='' @ decimal (length target_rgs) @
                   '', page='' @ decimal (length target_pages) @ '', rowset='' @ decimal (length rowsets) @ '')''))
            else Ok \<lparr>lc_values_a = values_a, lc_values_b = values_b, lc_target_rgs = target_rgs, lc_target_pages = target_pages,
                     lc_rowsets = rowsets\<rparr>))))))"

definition load_inverted :: "codecs \<Rightarrow> parquet_file \<Rightarrow> index_entry \<Rightarrow> bytes loaded_typed codec_result" where
  "load_inverted ext idx_file entry =
     (let rg = unat (ie_sidecar_row_group entry)
      in bind_o (read_column_byte_array ext idx_file rg 0) (\<lambda>tokens.
         bind_o (read_column_i32 ext idx_file rg 1) (\<lambda>target_rgs.
         bind_o (read_column_i32 ext idx_file rg 2) (\<lambda>target_pages.
         bind_o (read_column_byte_array ext idx_file rg 3) (\<lambda>rowsets.
         let n = length tokens
         in if length target_rgs \<noteq> n \<or> length target_pages \<noteq> n \<or> length rowsets \<noteq> n
            then Err (InvalidInput (''inverted index `'' @ text_of (ie_name entry) @ ''` row group '' @ decimal rg @
                   '' has mismatched column lengths (tokens='' @ decimal n @ '', rg='' @ decimal (length target_rgs) @ '', page='' @
                   decimal (length target_pages) @ '', rowset='' @ decimal (length rowsets) @ '')''))
            else Ok \<lparr>lt_values = tokens, lt_target_rgs = target_rgs, lt_target_pages = target_pages, lt_rowsets = rowsets\<rparr>)))))"

definition load_bloom_page :: "codecs \<Rightarrow> parquet_file \<Rightarrow> index_entry \<Rightarrow> loaded_bloom_page codec_result" where
  "load_bloom_page ext idx_file entry =
     (let rg = unat (ie_sidecar_row_group entry)
      in bind_o (read_column_i32 ext idx_file rg 0) (\<lambda>source_rgs.
         bind_o (read_column_i32 ext idx_file rg 1) (\<lambda>source_pages.
         bind_o (read_column_byte_array ext idx_file rg 2) (\<lambda>blooms.
         if length source_rgs \<noteq> length source_pages \<or> length source_rgs \<noteq> length blooms
         then Err (InvalidInput (''page-bloom index `'' @ text_of (ie_name entry) @ ''` row group '' @ decimal rg @
                '' has mismatched column lengths (source_rgs='' @ decimal (length source_rgs) @ '', source_pages='' @
                decimal (length source_pages) @ '', blooms='' @ decimal (length blooms) @ '')''))
         else Ok \<lparr>lb_source_rgs = source_rgs, lb_source_pages = source_pages, lb_blooms = blooms\<rparr>))))"

definition load_index :: "codecs \<Rightarrow> parquet_file \<Rightarrow> index_entry \<Rightarrow> loaded_index codec_result" where
  "load_index ext idx_file entry =
     bind_o (case ie_kind entry of
         Kind_Sorted _ Phys_Int64 \<Rightarrow> bind_o (load_sorted ext idx_file entry (read_column_i64 ext)) (\<lambda>d. Ok (Loaded_SortedI64 d))
       | Kind_Sorted _ Phys_Int32 \<Rightarrow> bind_o (load_sorted ext idx_file entry (read_column_i32 ext)) (\<lambda>d. Ok (Loaded_SortedI32 d))
       | Kind_Sorted _ Phys_ByteArray \<Rightarrow> bind_o (load_sorted ext idx_file entry (read_column_byte_array ext)) (\<lambda>d. Ok (Loaded_SortedBytes d))
       | Kind_CompositePrefix cols types \<Rightarrow>
           bind_o (load_composite_prefix ext idx_file entry cols types) (\<lambda>d. Ok (Loaded_CompositePrefixI64I64 d))
       | Kind_Inverted _ _ \<Rightarrow> bind_o (load_inverted ext idx_file entry) (\<lambda>d. Ok (Loaded_Inverted d))
       | Kind_BloomPage _ _ \<Rightarrow> bind_o (load_bloom_page ext idx_file entry) (\<lambda>d. Ok (Loaded_BloomPage d)))
       (\<lambda>data. Ok \<lparr>li_entry = entry, li_data = data\<rparr>)"

definition parquet_index_open :: "codecs \<Rightarrow> float_text \<Rightarrow> bytes \<Rightarrow> parquet_file \<Rightarrow> parquet_index codec_result" where
  "parquet_index_open ext ft idx source =
     bind_o (open_sidecar ft idx source) (\<lambda>(idx_file, manifest, fmt).
     bind_o (mapM_o (load_index ext idx_file) (im_indexes manifest)) (\<lambda>indexes.
     Ok \<lparr>pi_manifest = manifest, pi_indexes = indexes, pi_rowset_format = fmt\<rparr>))"

section \<open>Lookups\<close>

definition find_index :: "parquet_index \<Rightarrow> bytes \<Rightarrow> loaded_index codec_result" where
  "find_index ix name =
     ok_or (InvalidInput (''sidecar has no index named `'' @ text_of name @ ''` (have: '' @
            debug_list (map (\<lambda>i. debug_str (ie_name (li_entry i))) (pi_indexes ix)) @ '')''))
       (List.find (\<lambda>i. ie_name (li_entry i) = name) (pi_indexes ix))"

definition collect_hits :: "i32 list \<Rightarrow> i32 list \<Rightarrow> bytes list \<Rightarrow> nat \<Rightarrow> nat \<Rightarrow> rowset_format \<Rightarrow> index_hit list codec_result" where
  "collect_hits target_rgs target_pages rowsets start stop fmt =
     mapM_o (\<lambda>i. bind_o (index_o target_rgs i) (\<lambda>rg. bind_o (index_o target_pages i) (\<lambda>page. bind_o (index_o rowsets i) (\<lambda>bytes.
        bind_o (to_bitmap bytes fmt) (\<lambda>rowset. Ok \<lparr>ih_row_group = rg, ih_page = page, ih_rowset = rowset\<rparr>)))))
       [start..<stop]"

text \<open>\<open>eq_hits_i64\<close>, \<open>eq_hits_i32\<close>, \<open>eq_hits_bytes\<close>, \<open>inverted_eq_hits\<close>.\<close>

definition eq_hits :: "('v \<Rightarrow> int list) \<Rightarrow> 'v loaded_typed \<Rightarrow> 'v \<Rightarrow> rowset_format \<Rightarrow> index_hit list codec_result" where
  "eq_hits rank d target fmt =
     (case binary_search_by (\<lambda>v. compare_rank (rank v) (rank target)) (lt_values d) of
        Inr _ \<Rightarrow> Ok []
      | Inl i \<Rightarrow> collect_hits (lt_target_rgs d) (lt_target_pages d) (lt_rowsets d)
                  (run_start (lt_values d) target i) (run_end (lt_values d) target (i + 1)) fmt)"

text \<open>\<open>range_hits_i64\<close>, \<open>range_hits_i32\<close>, \<open>range_hits_bytes\<close>, after the test for an inverted range.\<close>

definition range_hits :: "('v \<Rightarrow> int list) \<Rightarrow> 'v loaded_typed \<Rightarrow> 'v \<Rightarrow> 'v \<Rightarrow> rowset_format \<Rightarrow> index_hit list codec_result" where
  "range_hits rank d lo hi fmt =
     (if rank hi < rank lo then Ok []
      else collect_hits (lt_target_rgs d) (lt_target_pages d) (lt_rowsets d)
             (partition_point (\<lambda>v. rank v < rank lo) (lt_values d)) (partition_point (\<lambda>v. rank v \<le> rank hi) (lt_values d)) fmt)"

definition sorted_physical_type :: "index_entry \<Rightarrow> physical_type codec_result" where
  "sorted_physical_type entry =
     (case ie_kind entry of
        Kind_Sorted _ t \<Rightarrow> Ok t
      | _ \<Rightarrow> Err (InvalidInput (''index `'' @ text_of (ie_name entry) @ ''` is not a sorted index'')))"

definition lookup_eq :: "parquet_index \<Rightarrow> bytes \<Rightarrow> index_key \<Rightarrow> index_hit list codec_result" where
  "lookup_eq ix name key =
     bind_o (find_index ix name) (\<lambda>i.
     bind_o (sorted_physical_type (li_entry i)) (\<lambda>pt.
     if \<not> matches_physical_type key pt
     then Err (InvalidInput (''lookup_eq: key variant `'' @ variant_name key @ ''` does not match index `'' @ text_of name @ ''` physical type '' @
            debug_physical_type pt))
     else case (li_data i, key) of
         (Loaded_SortedI64 d, Key_I64 v) \<Rightarrow> eq_hits rank_int d v (pi_rowset_format ix)
       | (Loaded_SortedI32 d, Key_I32 v) \<Rightarrow> eq_hits rank_int d v (pi_rowset_format ix)
       | (Loaded_SortedBytes d, Key_Bytes v) \<Rightarrow> eq_hits rank_bytes d v (pi_rowset_format ix)
       | _ \<Rightarrow> Err (InvalidInput (''lookup_eq: key/index type mismatch on `'' @ text_of name @ ''`''))))"

definition lookup_range :: "parquet_index \<Rightarrow> bytes \<Rightarrow> index_key \<Rightarrow> index_key \<Rightarrow> index_hit list codec_result" where
  "lookup_range ix name lo hi =
     bind_o (find_index ix name) (\<lambda>i.
     bind_o (sorted_physical_type (li_entry i)) (\<lambda>pt.
     if \<not> matches_physical_type lo pt \<or> \<not> matches_physical_type hi pt
     then Err (InvalidInput (''lookup_range: key variants ('' @ variant_name lo @ '', '' @ variant_name hi @ '') do not match index `'' @
            text_of name @ ''` physical type '' @ debug_physical_type pt))
     else case (li_data i, lo, hi) of
         (Loaded_SortedI64 d, Key_I64 a, Key_I64 b) \<Rightarrow> range_hits rank_int d a b (pi_rowset_format ix)
       | (Loaded_SortedI32 d, Key_I32 a, Key_I32 b) \<Rightarrow> range_hits rank_int d a b (pi_rowset_format ix)
       | (Loaded_SortedBytes d, Key_Bytes a, Key_Bytes b) \<Rightarrow> range_hits rank_bytes d a b (pi_rowset_format ix)
       | _ \<Rightarrow> Err (InvalidInput (''lookup_range: key/index type mismatch on `'' @ text_of name @ ''`''))))"

definition composite_hits :: "loaded_composite \<Rightarrow> nat \<Rightarrow> nat \<Rightarrow> rowset_format \<Rightarrow> index_hit list codec_result" where
  "composite_hits d = collect_hits (lc_target_rgs d) (lc_target_pages d) (lc_rowsets d)"

definition composite_eq_hits :: "loaded_composite \<Rightarrow> i64 \<Rightarrow> i64 \<Rightarrow> rowset_format \<Rightarrow> index_hit list codec_result" where
  "composite_eq_hits d a b fmt =
     (let a_start = partition_point (\<lambda>v. sint v < sint a) (lc_values_a d); a_end = partition_point (\<lambda>v. sint v \<le> sint a) (lc_values_a d)
      in if a_start = a_end then Ok []
         else bind_o (list_range (lc_values_b d) a_start a_end) (\<lambda>b_slice.
           let b_start = partition_point (\<lambda>v. sint v < sint b) b_slice; b_end = partition_point (\<lambda>v. sint v \<le> sint b) b_slice
           in if b_start = b_end then Ok [] else composite_hits d (a_start + b_start) (a_start + b_end) fmt))"

definition composite_prefix_hits :: "loaded_composite \<Rightarrow> i64 \<Rightarrow> rowset_format \<Rightarrow> index_hit list codec_result" where
  "composite_prefix_hits d a fmt =
     composite_hits d (partition_point (\<lambda>v. sint v < sint a) (lc_values_a d)) (partition_point (\<lambda>v. sint v \<le> sint a) (lc_values_a d)) fmt"

definition find_composite :: "string \<Rightarrow> parquet_index \<Rightarrow> bytes \<Rightarrow> loaded_composite codec_result" where
  "find_composite caller ix name =
     bind_o (find_index ix name) (\<lambda>i.
     case li_data i of
       Loaded_CompositePrefixI64I64 d \<Rightarrow> Ok d
     | _ \<Rightarrow> Err (InvalidInput (caller @ '': index `'' @ text_of name @ ''` is not a (INT64, INT64) composite-prefix index'')))"

definition lookup_composite_eq :: "parquet_index \<Rightarrow> bytes \<Rightarrow> index_key \<Rightarrow> index_key \<Rightarrow> index_hit list codec_result" where
  "lookup_composite_eq ix name key_a key_b =
     bind_o (find_composite ''lookup_composite_eq'' ix name) (\<lambda>d.
     case (key_a, key_b) of
       (Key_I64 a, Key_I64 b) \<Rightarrow> composite_eq_hits d a b (pi_rowset_format ix)
     | _ \<Rightarrow> Err (InvalidInput (''lookup_composite_eq: key variants `'' @ variant_name key_a @ ''`+`'' @ variant_name key_b @
              ''` do not match (INT64, INT64)'')))"

definition lookup_composite_prefix :: "parquet_index \<Rightarrow> bytes \<Rightarrow> index_key \<Rightarrow> index_hit list codec_result" where
  "lookup_composite_prefix ix name key_a =
     bind_o (find_composite ''lookup_composite_prefix'' ix name) (\<lambda>d.
     case key_a of
       Key_I64 a \<Rightarrow> composite_prefix_hits d a (pi_rowset_format ix)
     | _ \<Rightarrow> Err (InvalidInput (''lookup_composite_prefix: key variant `'' @ variant_name key_a @ ''` does not match INT64'')))"

definition lookup_token :: "parquet_index \<Rightarrow> bytes \<Rightarrow> bytes \<Rightarrow> index_hit list codec_result" where
  "lookup_token ix name token =
     bind_o (find_index ix name) (\<lambda>i.
     case li_data i of
       Loaded_Inverted d \<Rightarrow> eq_hits rank_bytes d token (pi_rowset_format ix)
     | _ \<Rightarrow> Err (InvalidInput (''lookup_token: index `'' @ text_of name @ ''` is not an inverted index'')))"

end
