(* ===== verification/IndexQuery.thy ===== *)
theory IndexQuery
  imports IndexRead
begin

text \<open>
  The queries of \<open>index/reader.rs\<close>: hits become one mask for every row group of the source, and the masked readers of
  \<open>read.rs\<close> fetch the rows; the page-bloom reads; the lazy reader.
\<close>

section \<open>Masks\<close>

text \<open>The column is found by the position of its element in the flat schema.\<close>

definition resolve_leaf_by_name :: "parquet_file \<Rightarrow> bytes \<Rightarrow> nat codec_result" where
  "resolve_leaf_by_name source name =
     bind_o (metadata_for_index ''source metadata'' source) (\<lambda>md.
     case List.find (\<lambda>(i, se). se_name se = name) (drop 1 (enumerate 0 (fm_schema md))) of
       Some (i, se) \<Rightarrow> Ok (i - 1)
     | None \<Rightarrow> Err (InvalidInput (''indexed column `'' @ text_of name @ ''` not found in source file's schema'')))"

text \<open>One bit of a byte of a rowset.\<close>

definition mark_row :: "nat \<Rightarrow> nat \<Rightarrow> u8 \<Rightarrow> nat \<Rightarrow> bytes \<Rightarrow> nat \<Rightarrow> bytes codec_result" where
  "mark_row n_rows first_row b byte_idx bitmap k =
     (if drop_bit k b AND 1 = 1
      then bind_o (add_usize first_row (byte_idx * 8)) (\<lambda>row. bind_o (add_usize row k) (\<lambda>row.
           if row < n_rows then or_byte bitmap (row div 8) (push_bit (row mod 8) 1) else Ok bitmap))
      else Ok bitmap)"

definition mark_rowset :: "nat \<Rightarrow> nat \<Rightarrow> bytes \<Rightarrow> bytes \<Rightarrow> bytes codec_result" where
  "mark_rowset n_rows first_row bitmap rowset =
     fold_o (\<lambda>bitmap (byte_idx, b). fold_o (mark_row n_rows first_row b byte_idx) bitmap [0..<8]) bitmap (enumerate 0 rowset)"

definition mark_hit :: "nat \<Rightarrow> u32 \<Rightarrow> nat list \<Rightarrow> bytes \<Rightarrow> index_hit \<Rightarrow> bytes codec_result" where
  "mark_hit n_rows rg first_row_by_page bitmap hit =
     bind_o (get_o (InvalidInput (''index hit references page '' @ decimal (unat (ih_page hit)) @ '' in rg '' @ decimal (unat rg) @
            '' but indexed column has only '' @ decimal (length first_row_by_page) @ '' pages'')) first_row_by_page (unat (ih_page hit)))
       (\<lambda>first_row. mark_rowset n_rows first_row bitmap (ih_rowset hit))"

text \<open>The \<open>BTreeMap\<close> from row groups to hits: the groups in order, each with its hits in the order they came.\<close>

definition by_group :: "('h \<Rightarrow> u32) \<Rightarrow> 'h list \<Rightarrow> (u32 \<times> 'h list) list" where
  "by_group rg_of hits = map (\<lambda>rg. (rg, filter (\<lambda>h. rg_of h = rg) hits)) (sort_key uint (remdups (map rg_of hits)))"

definition group_bitmap :: "parquet_file \<Rightarrow> file_metadata \<Rightarrow> nat \<Rightarrow> u32 \<times> index_hit list \<Rightarrow> (u32 \<times> bytes) codec_result" where
  "group_bitmap source md source_col g =
     (case g of (rg, hits) \<Rightarrow>
      bind_o (get_o (InvalidInput (''index hit references row_group '' @ decimal (unat rg) @ '' out of source range'')) (fm_row_groups md) (unat rg)) (\<lambda>rg_meta.
      let n_rows = as_usize (rg_num_rows rg_meta)
      in bind_o (page_layouts source (unat rg) source_col) (\<lambda>layouts.
         bind_o (fold_o (mark_hit n_rows rg (map dl_first_row layouts)) (replicate (div_ceil n_rows 8) 0) hits) (\<lambda>bitmap.
         Ok (rg, bitmap)))))"

definition assemble_bitmaps_from :: "parquet_file \<Rightarrow> bytes \<Rightarrow> index_hit list \<Rightarrow> (u32 \<times> bytes) list codec_result" where
  "assemble_bitmaps_from source source_col_name hits =
     bind_o (resolve_leaf_by_name source source_col_name) (\<lambda>source_col.
     bind_o (metadata_for_index ''source metadata'' source) (\<lambda>md.
     mapM_o (group_bitmap source md source_col) (by_group ih_row_group hits)))"

definition assemble_bitmaps :: "parquet_index \<Rightarrow> parquet_file \<Rightarrow> bytes \<Rightarrow> index_hit list \<Rightarrow> (u32 \<times> bytes) list codec_result" where
  "assemble_bitmaps ix source name hits =
     bind_o (find_index ix name) (\<lambda>i.
     bind_o (case ie_kind (li_entry i) of
         Kind_Sorted c _ \<Rightarrow> Ok c
       | Kind_CompositePrefix cols _ \<Rightarrow>
           (case cols of c # _ \<Rightarrow> Ok c | [] \<Rightarrow> Err (InvalidInput (''composite index `'' @ text_of name @ ''` has empty source_columns'')))
       | Kind_Inverted c _ \<Rightarrow> Ok c
       | Kind_BloomPage _ _ \<Rightarrow> Err (InvalidInput (''index `'' @ text_of name @ ''` does not produce IndexHits''))) (\<lambda>source_col_name.
     assemble_bitmaps_from source source_col_name hits))"

section \<open>Reads\<close>

text \<open>\<open>read\<close> is a masked reader: row group, column, mask, vector.\<close>

type_synonym 'a masked_reader = "parquet_file \<Rightarrow> nat \<Rightarrow> nat \<Rightarrow> bytes \<Rightarrow> 'a list \<Rightarrow> 'a list codec_result"

definition read_masks :: "'a masked_reader \<Rightarrow> parquet_file \<Rightarrow> nat \<Rightarrow> (u32 \<times> bytes) list \<Rightarrow> 'a list codec_result" where
  "read_masks read source target_column bitmaps = fold_o (\<lambda>out (rg, bitmap). read source (unat rg) target_column bitmap out) [] bitmaps"

text \<open>\<open>materialize_i64\<close>, \<open>materialize_i32\<close>, \<open>materialize_byte_array\<close>.\<close>

definition materialize :: "'a masked_reader \<Rightarrow> parquet_index \<Rightarrow> parquet_file \<Rightarrow> bytes \<Rightarrow> index_hit list \<Rightarrow> nat \<Rightarrow> 'a list codec_result" where
  "materialize read ix source name hits target_column =
     (if hits = [] then Ok []
      else bind_o (assemble_bitmaps ix source name hits) (read_masks read source target_column))"

definition read_column_i64_where_eq :: "codecs \<Rightarrow> parquet_index \<Rightarrow> parquet_file \<Rightarrow> bytes \<Rightarrow> i64 \<Rightarrow> nat \<Rightarrow> i64 list codec_result" where
  "read_column_i64_where_eq ext ix source name key target_column =
     bind_o (lookup_eq ix name (Key_I64 key)) (\<lambda>hits. materialize (read_column_i64_masked_into ext) ix source name hits target_column)"

definition read_column_i64_where_range :: "codecs \<Rightarrow> parquet_index \<Rightarrow> parquet_file \<Rightarrow> bytes \<Rightarrow> i64 \<Rightarrow> i64 \<Rightarrow> nat \<Rightarrow> i64 list codec_result" where
  "read_column_i64_where_range ext ix source name lo hi target_column =
     bind_o (lookup_range ix name (Key_I64 lo) (Key_I64 hi)) (\<lambda>hits. materialize (read_column_i64_masked_into ext) ix source name hits target_column)"

definition read_column_i32_where_eq :: "codecs \<Rightarrow> parquet_index \<Rightarrow> parquet_file \<Rightarrow> bytes \<Rightarrow> i32 \<Rightarrow> nat \<Rightarrow> i32 list codec_result" where
  "read_column_i32_where_eq ext ix source name key target_column =
     bind_o (lookup_eq ix name (Key_I32 key)) (\<lambda>hits. materialize (read_column_i32_masked_into ext) ix source name hits target_column)"

definition read_column_i32_where_range :: "codecs \<Rightarrow> parquet_index \<Rightarrow> parquet_file \<Rightarrow> bytes \<Rightarrow> i32 \<Rightarrow> i32 \<Rightarrow> nat \<Rightarrow> i32 list codec_result" where
  "read_column_i32_where_range ext ix source name lo hi target_column =
     bind_o (lookup_range ix name (Key_I32 lo) (Key_I32 hi)) (\<lambda>hits. materialize (read_column_i32_masked_into ext) ix source name hits target_column)"

definition read_column_byte_array_where_eq :: "codecs \<Rightarrow> parquet_index \<Rightarrow> parquet_file \<Rightarrow> bytes \<Rightarrow> bytes \<Rightarrow> nat \<Rightarrow> bytes list codec_result" where
  "read_column_byte_array_where_eq ext ix source name key target_column =
     bind_o (lookup_eq ix name (Key_Bytes key)) (\<lambda>hits. materialize (read_column_byte_array_masked_into ext) ix source name hits target_column)"

definition read_column_byte_array_where_range ::
  "codecs \<Rightarrow> parquet_index \<Rightarrow> parquet_file \<Rightarrow> bytes \<Rightarrow> bytes \<Rightarrow> bytes \<Rightarrow> nat \<Rightarrow> bytes list codec_result" where
  "read_column_byte_array_where_range ext ix source name lo hi target_column =
     bind_o (lookup_range ix name (Key_Bytes lo) (Key_Bytes hi)) (\<lambda>hits. materialize (read_column_byte_array_masked_into ext) ix source name hits target_column)"

definition read_column_i64_where_composite_eq ::
  "codecs \<Rightarrow> parquet_index \<Rightarrow> parquet_file \<Rightarrow> bytes \<Rightarrow> i64 \<Rightarrow> i64 \<Rightarrow> nat \<Rightarrow> i64 list codec_result" where
  "read_column_i64_where_composite_eq ext ix source name key_a key_b target_column =
     bind_o (lookup_composite_eq ix name (Key_I64 key_a) (Key_I64 key_b)) (\<lambda>hits.
     materialize (read_column_i64_masked_into ext) ix source name hits target_column)"

definition read_column_i64_where_composite_prefix ::
  "codecs \<Rightarrow> parquet_index \<Rightarrow> parquet_file \<Rightarrow> bytes \<Rightarrow> i64 \<Rightarrow> nat \<Rightarrow> i64 list codec_result" where
  "read_column_i64_where_composite_prefix ext ix source name key_a target_column =
     bind_o (lookup_composite_prefix ix name (Key_I64 key_a)) (\<lambda>hits.
     materialize (read_column_i64_masked_into ext) ix source name hits target_column)"

definition read_column_byte_array_where_token ::
  "codecs \<Rightarrow> parquet_index \<Rightarrow> parquet_file \<Rightarrow> bytes \<Rightarrow> bytes \<Rightarrow> nat \<Rightarrow> bytes list codec_result" where
  "read_column_byte_array_where_token ext ix source name query target_column =
     bind_o (find_index ix name) (\<lambda>i.
     bind_o (case ie_kind (li_entry i) of
         Kind_Inverted _ tokenizer \<Rightarrow> Ok tokenizer
       | _ \<Rightarrow> Err (InvalidInput (''read_column_byte_array_where_token: index `'' @ text_of name @ ''` is not an inverted index''))) (\<lambda>tokenizer.
     case tokenize tokenizer query of
       [token] \<Rightarrow> bind_o (lookup_token ix name token) (\<lambda>hits.
           materialize (read_column_byte_array_masked_into ext) ix source name hits target_column)
     | toks \<Rightarrow> Err (InvalidInput (''read_column_byte_array_where_token: query produced '' @ decimal (length toks) @
            '' tokens (expected 1; multi-token composition is a higher-level concern)''))))"

section \<open>Page blooms\<close>

fun key_bytes :: "index_key \<Rightarrow> bytes" where
  "key_bytes (Key_I64 v) = to_le_bytes v"
| "key_bytes (Key_I32 v) = to_le_bytes v"
| "key_bytes (Key_Bytes v) = v"

definition bloom_probe :: "parquet_index \<Rightarrow> bytes \<Rightarrow> index_key \<Rightarrow> (u32 \<times> u32) list codec_result" where
  "bloom_probe ix name key =
     bind_o (find_index ix name) (\<lambda>i.
     bind_o (case li_data i of
         Loaded_BloomPage b \<Rightarrow> Ok b
       | _ \<Rightarrow> Err (InvalidInput (''bloom_probe: index `'' @ text_of name @ ''` is not a page-Bloom index''))) (\<lambda>bloom.
     bind_o (parquet_xxh64 (key_bytes key)) (\<lambda>hash.
     fold_o (\<lambda>hits i. bind_o (index_o (lb_blooms bloom) i) (\<lambda>bytes. bind_o (bloom_from_bytes bytes) (\<lambda>f.
         bind_o (contains_hash f hash) (\<lambda>found.
         if found then bind_o (index_o (lb_source_rgs bloom) i) (\<lambda>rg. bind_o (index_o (lb_source_pages bloom) i) (\<lambda>page. Ok (hits @ [(rg, page)])))
         else Ok hits))))
       [] [0..<length (lb_blooms bloom)])))"

text \<open>\<open>set_range_bits\<close>: bits up to a byte boundary, whole bytes, the bits that remain.\<close>

function mark_bits :: "(nat \<Rightarrow> bool) \<Rightarrow> bytes \<Rightarrow> nat \<Rightarrow> nat \<Rightarrow> ('e, bytes \<times> nat) outcome" where
  "mark_bits go bitmap k stop =
     (if k < stop \<and> go k then bind_o (or_byte bitmap (k div 8) (push_bit (k mod 8) 1)) (\<lambda>bitmap. mark_bits go bitmap (k + 1) stop)
      else Ok (bitmap, k))"
  by pat_completeness auto
termination
  by (relation "measure (\<lambda>(go, bitmap, k, stop). stop - k)") auto

function set_whole_bytes :: "bytes \<Rightarrow> nat \<Rightarrow> nat \<Rightarrow> ('e, bytes \<times> nat) outcome" where
  "set_whole_bytes bitmap k stop =
     (if k + 8 \<le> stop then bind_o (set_o bitmap (k div 8) 0xFF) (\<lambda>bitmap. set_whole_bytes bitmap (k + 8) stop) else Ok (bitmap, k))"
  by pat_completeness auto
termination
  by (relation "measure (\<lambda>(bitmap, k, stop). stop - k)") auto

declare mark_bits.simps [simp del] set_whole_bytes.simps [simp del]

definition set_range_bits :: "bytes \<Rightarrow> nat \<Rightarrow> nat \<Rightarrow> ('e, bytes) outcome" where
  "set_range_bits bitmap start_bit end_bit =
     (if start_bit \<ge> end_bit then Ok bitmap
      else let n_bits = length bitmap * 8; end_bit = min end_bit n_bits; start_bit = min start_bit end_bit
      in bind_o (mark_bits (\<lambda>k. k mod 8 \<noteq> 0) bitmap start_bit end_bit) (\<lambda>(bitmap, k).
         bind_o (set_whole_bytes bitmap k end_bit) (\<lambda>(bitmap, k).
         bind_o (mark_bits (\<lambda>_. True) bitmap k end_bit) (\<lambda>(bitmap, _). Ok bitmap))))"

definition bloom_group_mask :: "parquet_file \<Rightarrow> file_metadata \<Rightarrow> nat \<Rightarrow> u32 \<times> (u32 \<times> u32) list \<Rightarrow> bytes codec_result" where
  "bloom_group_mask source md source_col g =
     (case g of (rg, candidates) \<Rightarrow>
      bind_o (get_o (InvalidInput (''bloom hit references row_group '' @ decimal (unat rg) @ '' out of source range'')) (fm_row_groups md) (unat rg)) (\<lambda>rg_meta.
      let n_rows = as_usize (rg_num_rows rg_meta)
      in bind_o (page_layouts source (unat rg) source_col) (\<lambda>layouts.
         fold_o (\<lambda>bitmap (_, page).
             bind_o (get_o (InvalidInput (''bloom hit references page '' @ decimal (unat page) @ '' in rg '' @ decimal (unat rg) @
                    '' but indexed column has only '' @ decimal (length layouts) @ '' pages'')) layouts (unat page)) (\<lambda>layout.
             bind_o (add_usize (dl_first_row layout) (dl_num_values layout)) (\<lambda>stop.
             set_range_bits bitmap (dl_first_row layout) stop)))
           (replicate (div_ceil n_rows 8) 0) candidates)))"

definition read_column_i64_via_bloom_eq ::
  "codecs \<Rightarrow> parquet_index \<Rightarrow> parquet_file \<Rightarrow> bytes \<Rightarrow> i64 \<Rightarrow> nat \<Rightarrow> i64 list codec_result" where
  "read_column_i64_via_bloom_eq ext ix source name key target_column =
     bind_o (bloom_probe ix name (Key_I64 key)) (\<lambda>candidate_pages.
     if candidate_pages = [] then Ok []
     else bind_o (find_index ix name) (\<lambda>i.
          bind_o (case ie_kind (li_entry i) of
              Kind_BloomPage c _ \<Rightarrow> Ok c
            | _ \<Rightarrow> Panic ''internal error: entered unreachable code: bloom_probe already validated the kind'') (\<lambda>source_col_name.
          bind_o (resolve_leaf_by_name source source_col_name) (\<lambda>source_col.
          bind_o (metadata_for_index ''source metadata'' source) (\<lambda>md.
          bind_o (fold_o (\<lambda>out g. bind_o (bloom_group_mask source md source_col g) (\<lambda>bitmap.
              read_column_i64_masked_into ext source (unat (fst g)) target_column bitmap out)) [] (by_group fst candidate_pages)) (\<lambda>decoded.
          Ok (filter (\<lambda>v. v = key) decoded)))))))"

section \<open>The lazy reader\<close>

record lazy_index =
  lz_idx_file :: parquet_file
  lz_manifest :: index_manifest
  lz_rowset_format :: rowset_format

definition lazy_index_open :: "float_text \<Rightarrow> bytes \<Rightarrow> parquet_file \<Rightarrow> lazy_index codec_result" where
  "lazy_index_open ft idx source =
     bind_o (open_sidecar ft idx source) (\<lambda>(idx_file, manifest, fmt).
     Ok \<lparr>lz_idx_file = idx_file, lz_manifest = manifest, lz_rowset_format = fmt\<rparr>)"

text \<open>\<open>a.or(b)?\<close>, and the bounds of an index row group when both are eight bytes.\<close>

definition either_of :: "'a option \<Rightarrow> 'a option \<Rightarrow> 'a option" where
  "either_of a b = (case a of None \<Rightarrow> b | Some x \<Rightarrow> Some x)"

definition idx_rg_i64_bounds :: "file_metadata \<Rightarrow> nat \<Rightarrow> nat \<Rightarrow> (i64 \<times> i64) option" where
  "idx_rg_i64_bounds md rg column =
     (if rg < length (fm_row_groups md) \<and> column < length (rg_columns (fm_row_groups md ! rg))
      then Option.bind (cc_meta_data (rg_columns (fm_row_groups md ! rg) ! column)) (\<lambda>cm.
           Option.bind (cm_statistics cm) (\<lambda>st.
           Option.bind (either_of (st_min_value st) (st_min st)) (\<lambda>mn.
           Option.bind (either_of (st_max_value st) (st_max st)) (\<lambda>mx.
           if length mn = 8 \<and> length mx = 8 then Some (from_le_bytes mn, from_le_bytes mx) else None))))
      else None)"

fun debug_index_kind :: "float_text \<Rightarrow> index_kind \<Rightarrow> string" where
  "debug_index_kind ft (Kind_Sorted c t) = ''Sorted { source_column: '' @ debug_str c @ '', physical_type: '' @ debug_physical_type t @ '' }''"
| "debug_index_kind ft (Kind_BloomPage c f) = ''BloomPage { source_column: '' @ debug_str c @ '', target_fpp: '' @ ft_debug ft f @ '' }''"
| "debug_index_kind ft (Kind_CompositePrefix cols types) = ''CompositePrefix { source_columns: '' @ debug_list (map debug_str cols) @
     '', physical_types: '' @ debug_list (map debug_physical_type types) @ '' }''"
| "debug_index_kind ft (Kind_Inverted c WhitespaceLowercaseV1) = ''Inverted { source_column: '' @ debug_str c @ '', tokenizer: WhitespaceLowercaseV1 }''"

definition lazy_group_hits :: "codecs \<Rightarrow> lazy_index \<Rightarrow> file_metadata \<Rightarrow> i64 \<Rightarrow> index_hit list \<Rightarrow> nat \<Rightarrow> index_hit list codec_result" where
  "lazy_group_hits ext lz idx_md key hits rg =
     (if (case idx_rg_i64_bounds idx_md rg 0 of Some (mn, mx) \<Rightarrow> sint key < sint mn \<or> sint mx < sint key | None \<Rightarrow> False) then Ok hits
      else bind_o (read_column_i64 ext (lz_idx_file lz) rg 0) (\<lambda>vals.
        case binary_search_by (\<lambda>v. compare_rank (rank_int v) (rank_int key)) vals of
          Inr _ \<Rightarrow> Ok hits
        | Inl i \<Rightarrow>
            bind_o (read_column_i32 ext (lz_idx_file lz) rg 1) (\<lambda>target_rgs.
            bind_o (read_column_i32 ext (lz_idx_file lz) rg 2) (\<lambda>target_pages.
            bind_o (read_column_byte_array ext (lz_idx_file lz) rg 3) (\<lambda>rowsets.
            bind_o (collect_hits target_rgs target_pages rowsets (run_start vals key i) (run_end vals key (i + 1)) (lz_rowset_format lz)) (\<lambda>new.
            Ok (hits @ new)))))))"

definition eq_bitmaps :: "codecs \<Rightarrow> float_text \<Rightarrow> lazy_index \<Rightarrow> parquet_file \<Rightarrow> bytes \<Rightarrow> i64 \<Rightarrow> (u32 \<times> bytes) list codec_result" where
  "eq_bitmaps ext ft lz source name key =
     bind_o (ok_or (InvalidInput (''sidecar has no index named `'' @ text_of name @ ''`''))
         (List.find (\<lambda>e. ie_name e = name) (im_indexes (lz_manifest lz)))) (\<lambda>entry.
     bind_o (case ie_kind entry of
         Kind_Sorted c Phys_Int64 \<Rightarrow> Ok c
       | other \<Rightarrow> Err (InvalidInput (''lazy eq lookup supports sorted INT64 indexes; `'' @ text_of name @ ''` is '' @ debug_index_kind ft other))) (\<lambda>source_col.
     let start = unat (ie_sidecar_row_group entry); count = unat (max (ie_sidecar_row_group_count entry) 1)
     in bind_o (metadata_for_index ''sidecar metadata'' (lz_idx_file lz)) (\<lambda>idx_md.
        bind_o (fold_o (lazy_group_hits ext lz idx_md key) [] [start..<start + count]) (\<lambda>hits.
        if hits = [] then Ok [] else assemble_bitmaps_from source source_col hits))))"

text \<open>\<open>LazyParquetIndex::read_column_*_where_eq\<close> for the three target types.\<close>

definition lazy_where_eq ::
  "'a masked_reader \<Rightarrow> codecs \<Rightarrow> float_text \<Rightarrow> lazy_index \<Rightarrow> parquet_file \<Rightarrow> bytes \<Rightarrow> i64 \<Rightarrow> nat \<Rightarrow> 'a list codec_result" where
  "lazy_where_eq read ext ft lz source name key target_column =
     bind_o (eq_bitmaps ext ft lz source name key) (read_masks read source target_column)"

definition lazy_read_column_i64_where_eq :: "codecs \<Rightarrow> float_text \<Rightarrow> lazy_index \<Rightarrow> parquet_file \<Rightarrow> bytes \<Rightarrow> i64 \<Rightarrow> nat \<Rightarrow> i64 list codec_result" where
  "lazy_read_column_i64_where_eq ext = lazy_where_eq (read_column_i64_masked_into ext) ext"

definition lazy_read_column_i32_where_eq :: "codecs \<Rightarrow> float_text \<Rightarrow> lazy_index \<Rightarrow> parquet_file \<Rightarrow> bytes \<Rightarrow> i64 \<Rightarrow> nat \<Rightarrow> i32 list codec_result" where
  "lazy_read_column_i32_where_eq ext = lazy_where_eq (read_column_i32_masked_into ext) ext"

definition lazy_read_column_byte_array_where_eq :: "codecs \<Rightarrow> float_text \<Rightarrow> lazy_index \<Rightarrow> parquet_file \<Rightarrow> bytes \<Rightarrow> i64 \<Rightarrow> nat \<Rightarrow> bytes list codec_result" where
  "lazy_read_column_byte_array_where_eq ext = lazy_where_eq (read_column_byte_array_masked_into ext) ext"

end
