(* ===== verification/Spec2Isabelle.thy ===== *)
theory Spec2Isabelle
  imports FormatProperties RleRoundtrip BitPack DeltaTotal SchemaLevels ByteStreamSplit BloomSpec PlainProofs
    DictSpec CompressionSpec ColumnStats TableProperties PageIndexProofs DowncastProofs AdaptiveProofs
    OffsetProofs BatchProofs DictChunk IndexQuery
begin

text \<open>
  A model of the Parquet codec of this repository: the crates \<open>ematix-parquet-format\<close> (Thrift metadata),
  \<open>ematix-parquet-codec\<close> (encodings, pages, columns, tables) and \<open>ematix-parquet-io\<close> (files and pages), with
  the theorems that make them correct.

  The program.  A table is written by \<open>write_table_with_options\<close> (\<open>write.rs\<close>): the columns are cut into row
  groups, every slice becomes one PLAIN page or a dictionary page with a page of indices, the bodies are
  compressed, a bloom filter may follow, and the footer, a Thrift structure, records where everything stands.
  A reader opens the file (\<open>file.rs\<close>), parses the footer (\<open>metadata.rs\<close>), fetches the bytes of a column chunk,
  walks its pages (\<open>pages.rs\<close>) and decodes them (\<open>read.rs\<close> over \<open>plain.rs\<close>, \<open>dict.rs\<close>, \<open>rle.rs\<close>, \<open>delta.rs\<close>,
  \<open>levels.rs\<close>, \<open>bitpack.rs\<close>), whole, under a mask, within a range, narrowed, in batches, with its dictionary kept,
  or under a predicate.

  Conventions.  A result is an \<open>outcome\<close>: \<open>Ok\<close>, \<open>Err\<close> with an error of the source, \<open>Panic\<close> with its message, or
  \<open>Stuck\<close>, an unchecked access outside a buffer.  Panics are those of a debug build: arithmetic overflow, slice and
  index bounds, \<open>unwrap\<close>, debug assertions, and a reservation no vector can satisfy (\<open>reserve_o\<close>).  Bytes and machine integers are words; \<open>usize\<close> is \<open>nat\<close> with the
  overflow of 64 bits checked by \<open>add_usize\<close> and \<open>mul_usize\<close>; a float is its bit pattern.  A vector the source appends
  to is a list returned extended.  A file is its list of bytes.

  The theories, bottom up.
  \<^item> \<open>Prelude\<close>, \<open>CodecBase\<close>, \<open>BitStream\<close>, \<open>LeBytes\<close>: outcomes and their bind, the named collections, bit fields of
    byte strings, little-endian words.
  \<^item> \<open>Compact\<close>, \<open>CompactWriter\<close>, \<open>ReaderLaws\<close>, \<open>StructCodec\<close>, \<open>ThriftEnums\<close>, \<open>MetadataTypes\<close>, \<open>MetadataRead\<close>,
    \<open>MetadataWrite\<close>, \<open>MetadataRoundtrip\<close>, \<open>FormatProperties\<close>, \<open>ErrorText\<close>: the format crate.  \<open>safe\<close> readers end within
    their buffer on any bytes, and panic only when a list header announces a count \<open>Vec::with_capacity\<close> refuses; \<open>codec\<close> pairs a reader with the writer it undoes, and closes under the
    fields of a Thrift structure.
  \<^item> \<open>RleHybrid\<close>, \<open>RleProofs\<close>, \<open>RleRoundtrip\<close>, \<open>RleSize\<close> (\<open>rle.rs\<close>); \<open>BitPack\<close> (\<open>bitpack.rs\<close>); \<open>Delta\<close>, \<open>DeltaProofs\<close>,
    \<open>DeltaTotal\<close> (\<open>delta.rs\<close>); \<open>Levels\<close>, \<open>LevelsProofs\<close>, \<open>SchemaLevels\<close> (\<open>levels.rs\<close>); \<open>ByteStreamSplit\<close>; \<open>Bloom\<close>,
    \<open>BloomProofs\<close>, \<open>BloomSpec\<close> (\<open>bloom.rs\<close>); \<open>Plain\<close>, \<open>PlainProofs\<close> (\<open>plain.rs\<close>); \<open>Dict\<close>, \<open>DictBitmap\<close>, \<open>DictProofs\<close>,
    \<open>DictEquiv\<close>, \<open>DictBits\<close>, \<open>DictGather\<close>, \<open>DictSpec\<close> (\<open>dict.rs\<close>): the encodings.  Each decoder is compared with the
    format it reads, a list of runs, blocks or values; the DELTA decoders also return on every stream whose header asks for
    no impossible vector and for mini-blocks of whole bytes.  The locales \<open>run_reader\<close>, \<open>delta_mini\<close> and
    \<open>fixed_width\<close> carry what several decoders share.
  \<^item> \<open>Compression\<close>, \<open>CompressionSpec\<close> (\<open>compression.rs\<close>): the dispatchers over the parameter record \<open>codecs\<close>.
  \<^item> \<open>ColumnData\<close>, \<open>ColumnStats\<close>, \<open>ColumnDict\<close>, \<open>WriteTable\<close>, \<open>WriteColumn\<close> (\<open>write.rs\<close>); \<open>FileRead\<close> (\<open>file.rs\<close>, \<open>pages.rs\<close>);
    \<open>ReadColumn\<close> (\<open>read.rs\<close>): tables, files, columns.
  \<^item> \<open>PageProofs\<close>, \<open>ChunkProofs\<close>, \<open>TableLayout\<close>, \<open>WrittenPages\<close>, \<open>ColumnTypes\<close>, \<open>TableFile\<close>, \<open>TableRead\<close>, \<open>TableRoundtrip\<close>,
    \<open>TableTotal\<close>, \<open>TableSample\<close>, \<open>WideSample\<close>, \<open>TableProperties\<close>: from the writer to the reader.  A loop of the reader is a
    fold over the pages written (\<open>run_pages\<close>); the locales \<open>plain_values\<close>, \<open>sparse_values\<close> and \<open>written_values\<close> say what
    the readers and the writer need of a value type and are interpreted on the five column types that have a reader.
  \<^item> \<open>PageIndex\<close>, \<open>PageIndexProofs\<close> (\<open>page_index.rs\<close> and the range readers): pruning loses no value.
  \<^item> \<open>Downcast\<close>, \<open>DowncastProofs\<close> (\<open>downcast.rs\<close>): the locale \<open>narrow_values\<close> is a width to narrow to, interpreted on
    the six of them, and makes each a value type of the readers.
  \<^item> \<open>Adaptive\<close>, \<open>AdaptiveProofs\<close> (\<open>adaptive.rs\<close>): a predicate over a dictionary-encoded chunk filters it, whichever of
    its two strategies the probe picks, and over written tables it answers rightly or refuses.
  \<^item> \<open>ReadDict\<close>, \<open>OffsetProofs\<close> (\<open>read.rs\<close>): byte arrays as bytes and offsets are the flattening of the column; where
    the write options chose a dictionary, the kept dictionary is the distinct values, and elsewhere it is refused.
  \<^item> \<open>ReadBatches\<close>, \<open>BatchProofs\<close> (\<open>read.rs\<close>): the state of a batch iterator, with the values still to come as its
    invariant; its items are the pieces of the column, for every batch size whose buffer a vector can hold.
  \<^item> \<open>DictChunk\<close> (\<open>column.rs\<close>): the consumers of a dictionary column chunk agree with the column it stands for.

  What the theorems assume.  \<open>codecs_sound\<close>: each compression library inverts itself on bodies below 2 GiB, which is
  what the page headers can describe; \<open>stored_codecs\<close> is an instance.  \<open>table_fits\<close>: page bodies below 2 GiB, names and
  key-value pairs that fit a Thrift length.  \<open>options_ok\<close>: the documented conditions on the write options.  Files are
  below 2 GiB where offsets are compared.  The column index of a pruned read tells the truth (\<open>index_describes\<close>).

  Termination.  Loops are recursive functions with a measure, most often the bytes that remain.  The one use of fuel is
  the normalisation of a single-precision quotient (\<open>scale_f32\<close>, 100 steps), enough for every quotient of numbers of 64
  bits, whose exponents stay within 64 of 0.

  Not modelled.  The SIMD kernels \<open>bitpack_neon.rs\<close> and \<open>bitpack_avx2.rs\<close> and the dispatch to them: intrinsics and raw
  pointers; the scalar code they re-implement is modelled.  \<open>encrypted.rs\<close>, the crypto crate and the encrypted writers:
  AES-GCM comes from a library, and nearly every step is a call of it.  The crates \<open>ematix-parquet-async\<close>
  (futures over an object store) and \<open>ematix-iceberg\<close> (glue for catalogues), and \<open>parallel\<close> (threads and NUMA placement).
  The logarithm in \<open>optimal_num_blocks\<close>, an argument of the model.  Errors of the operating system.

  Memory.  Rust panics on a request for more than \<open>isize::MAX\<close> bytes.  That panic is modelled (\<open>reserve_o\<close>) where a count
  that nothing has checked reaches \<open>Vec::with_capacity\<close> and a property speaks of every count: the lists of the Thrift
  reader (\<open>compact.rs\<close>), the DELTA decoders (\<open>delta.rs\<close>) and the batch iterators (\<open>read.rs\<close>).  Elsewhere a reservation is
  taken to succeed, as every smaller request is: \<open>reserve\<close>, \<open>resize\<close> or \<open>with_capacity\<close> of the value counts in \<open>rle.rs\<close>,
  \<open>bitpack.rs\<close>, \<open>dict.rs\<close>, \<open>plain.rs\<close> and \<open>read.rs\<close>, of the uncompressed size in \<open>compression.rs\<close> and of the range in
  \<open>file.rs\<close>.  A property of those functions is about counts whose vectors a machine can hold, which every count of a table
  that was written is.

  Error texts.  \<open>debug_str\<close> escapes the ASCII range as Rust's \<open>Debug\<close> does and leaves other bytes as they are.
\<close>

end
